(* ===== verification/Prelude.thy ===== *)
theory Prelude
  imports Main "HOL-Library.Sublist" "HOL-Library.Char_ord" "HOL-Library.List_Lexorder"
    "HOL-Library.Product_Lexorder"
begin

section \<open>Prelude: shared vocabulary and generic lemmas\<close>

text \<open>
  What every theory of the development shares: the names of the model's scalar types, the
  result type of fallible Go code with its sequencing operator, the list operations that the
  SQL statements of the repository are made of (select, update, delete over a table kept as a
  list of rows), and the generic lemmas about them.

  A Go \<open>string\<close> is a byte sequence and so is HOL's \<^typ>\<open>string\<close>: \<open>len\<close> is \<^const>\<open>length\<close>.
  A Go pointer is an \<^typ>\<open>'a option\<close>, a pointer to a pointer (the wire's absent / null / value
  distinction) an \<open>'a option option\<close>. A \<open>float64\<close> that arrived through JSON is finite and is only
  compared, never computed with, so it is kept as the rational number it denotes.
\<close>

type_synonym id = string
type_synonym digest = string
type_synonym instant = int      \<comment> \<open>nanoseconds since the epoch, UTC\<close>

named_theorems rel_intros "closure of a relation on database states under the transaction monad"
named_theorems row_simps "projections of the tables under updates and deletes"

subsection \<open>Results\<close>

text \<open>\<open>x, err := f(); if err != nil { return err }\<close> is \<open>and_then (f) (\<lambda>x. \<dots>)\<close>.\<close>

definition and_then :: "'e + 'a \<Rightarrow> ('a \<Rightarrow> 'e + 'b) \<Rightarrow> 'e + 'b" where
  "and_then r f = (case r of Inl e \<Rightarrow> Inl e | Inr x \<Rightarrow> f x)"

lemma and_then_simps [simp]:
  "and_then (Inl e) f = Inl e"
  "and_then (Inr x) f = f x"
  by (simp_all add: and_then_def)

lemma and_then_eq_Inr:
  "and_then r f = Inr y \<longleftrightarrow> (\<exists>x. r = Inr x \<and> f x = Inr y)"
  by (cases r) simp_all

text \<open>The first failing check of a sequence decides, as in a chain of Go guards.\<close>

fun first_error :: "('e + unit) list \<Rightarrow> 'e + unit" where
  "first_error [] = Inr ()"
| "first_error (c # cs) = (case c of Inl e \<Rightarrow> Inl e | Inr _ \<Rightarrow> first_error cs)"

lemma first_error_Cons_ok [simp]:
  "first_error (c # cs) = Inr () \<longleftrightarrow> c = Inr () \<and> first_error cs = Inr ()"
  by (cases c) auto

declare first_error.simps(2) [simp del]

lemma first_error_append_ok [simp]:
  "first_error (as @ bs) = Inr () \<longleftrightarrow> first_error as = Inr () \<and> first_error bs = Inr ()"
  by (induction as) auto

lemma first_error_map_ok [simp]:
  "first_error (map f xs) = Inr () \<longleftrightarrow> (\<forall>x \<in> set xs. f x = Inr ())"
  by (induction xs) auto

definition guard :: "bool \<Rightarrow> 'e \<Rightarrow> 'e + unit" where
  "guard bad e = (if bad then Inl e else Inr ())"

lemma guard_ok [simp]: "guard bad e = Inr u \<longleftrightarrow> \<not> bad"
  by (simp add: guard_def)

lemma guard_bad: "guard bad e = Inl e' \<longleftrightarrow> bad \<and> e' = e"
  by (auto simp: guard_def)

text \<open>A check on a pointer runs only when the pointer is not nil.\<close>

definition when_sent :: "'a option \<Rightarrow> ('a \<Rightarrow> 'e + unit) \<Rightarrow> 'e + unit" where
  "when_sent p f = (case p of None \<Rightarrow> Inr () | Some x \<Rightarrow> f x)"

lemma when_sent_simps [simp]:
  "when_sent None f = Inr ()"
  "when_sent (Some x) f = f x"
  by (simp_all add: when_sent_def)

lemma when_sent_ok: "when_sent p f = Inr () \<longleftrightarrow> (\<forall>x. p = Some x \<longrightarrow> f x = Inr ())"
  by (cases p) simp_all

text \<open>The pointer contract of every write: absent keeps the stored value.\<close>

definition or_keep :: "'a option \<Rightarrow> 'a \<Rightarrow> 'a" where
  "or_keep sent stored = (case sent of None \<Rightarrow> stored | Some v \<Rightarrow> v)"

lemma or_keep_simps [simp]:
  "or_keep None x = x"
  "or_keep (Some v) x = v"
  by (simp_all add: or_keep_def)

subsection \<open>Tables as lists of rows\<close>

definition upd_rows :: "('r \<Rightarrow> bool) \<Rightarrow> ('r \<Rightarrow> 'r) \<Rightarrow> 'r list \<Rightarrow> 'r list" where
  "upd_rows p f rows = map (\<lambda>r. if p r then f r else r) rows"

definition del_rows :: "('r \<Rightarrow> bool) \<Rightarrow> 'r list \<Rightarrow> 'r list" where
  "del_rows p rows = filter (\<lambda>r. \<not> p r) rows"

text \<open>\<open>INSERT \<dots> ON CONFLICT (key) DO UPDATE\<close>: replace in place, or append.\<close>

definition put_row :: "('r \<Rightarrow> 'k) \<Rightarrow> 'r \<Rightarrow> 'r list \<Rightarrow> 'r list" where
  "put_row key r rows =
     (if key r \<in> key ` set rows then upd_rows (\<lambda>x. key x = key r) (\<lambda>_. r) rows else rows @ [r])"

lemma set_upd_rows: "set (upd_rows p f rows) = (\<lambda>r. if p r then f r else r) ` set rows"
  by (simp add: upd_rows_def)

lemma set_del_rows [simp]: "set (del_rows p rows) = {r \<in> set rows. \<not> p r}"
  by (auto simp: del_rows_def)

lemma map_upd_rows:
  "(\<And>r. p r \<Longrightarrow> key (f r) = key r) \<Longrightarrow> map key (upd_rows p f rows) = map key rows"
  by (auto simp: upd_rows_def)

lemma distinct_del_rows: "distinct (map key rows) \<Longrightarrow> distinct (map key (del_rows p rows))"
  by (simp add: del_rows_def distinct_map_filter)

lemma keys_put_row: "key ` set (put_row key r rows) = insert (key r) (key ` set rows)"
  by (auto simp: put_row_def set_upd_rows image_iff)

lemma set_put_row:
  "set (put_row key r rows) = insert r {x \<in> set rows. key x \<noteq> key r}"
  by (auto simp: put_row_def set_upd_rows image_iff)

lemma map_key_put_row:
  "map key (put_row key r rows) =
     (if key r \<in> key ` set rows then map key rows else map key rows @ [key r])"
  by (auto simp: put_row_def upd_rows_def)

lemma put_row_twice: "key r = key q \<Longrightarrow> put_row key q (put_row key r rows) = put_row key q rows"
proof (cases "key q \<in> key ` set rows")
  case True
  moreover assume "key r = key q"
  moreover have "key q \<in> key ` set (put_row key r rows)" using True by (simp add: keys_put_row)
  ultimately show ?thesis by (simp add: put_row_def upd_rows_def)
next
  case False
  moreover assume "key r = key q"
  moreover have "map (\<lambda>x. if key x = key q then q else x) rows = rows"
    using False by (intro map_idI) (auto simp: image_iff)
  ultimately show ?thesis by (simp add: put_row_def upd_rows_def)
qed

lemma distinct_put_row: "distinct (map key rows) \<Longrightarrow> distinct (map key (put_row key r rows))"
  by (auto simp: map_key_put_row)

lemma distinct_slot_put_row:
  assumes "distinct (map key rows)" "distinct (map slot rows)"
    and "\<And>x. x \<in> set rows \<Longrightarrow> key x \<noteq> key r \<Longrightarrow> slot x \<noteq> slot r"
  shows "distinct (map slot (put_row key r rows))"
proof -
  have "distinct (put_row key r rows)"
    using distinct_put_row [OF assms(1), of r] by (simp add: distinct_map)
  moreover have "inj_on slot (set rows)" using assms(2) by (simp add: distinct_map)
  then have "inj_on slot (set (put_row key r rows))"
    using assms(3) unfolding inj_on_def set_put_row by fastforce
  ultimately show ?thesis by (simp add: distinct_map)
qed

lemma filter_upd_rows_other:
  assumes "\<And>r. p r \<Longrightarrow> \<not> q r" and "\<And>r. p r \<Longrightarrow> \<not> q (f r)"
  shows "filter q (upd_rows p f rows) = filter q rows"
  using assms by (induction rows) (auto simp: upd_rows_def)

lemma filter_del_rows_other:
  assumes "\<And>r. p r \<Longrightarrow> \<not> q r"
  shows "filter q (del_rows p rows) = filter q rows"
  using assms by (induction rows) (auto simp: del_rows_def)

lemma filter_put_row_other:
  assumes "\<not> q r" and "\<And>x. key x = key r \<Longrightarrow> \<not> q x"
  shows "filter q (put_row key r rows) = filter q rows"
  using assms by (auto simp: put_row_def intro!: filter_upd_rows_other)

lemma find_None: "List.find p xs = None \<longleftrightarrow> (\<forall>x \<in> set xs. \<not> p x)"
  by (induction xs) auto

lemma find_SomeD: "List.find p xs = Some x \<Longrightarrow> x \<in> set xs \<and> p x"
  by (induction xs) (auto split: if_splits)

lemma find_unique:
  assumes "distinct (map key xs)" and "x \<in> set xs"
  shows "List.find (\<lambda>y. key y = key x) xs = Some x"
  using assms by (induction xs) (auto simp: image_iff)

lemma find_cong_filter: "List.find p (filter q xs) = List.find (\<lambda>x. q x \<and> p x) xs"
  by (induction xs) auto

lemma find_by_filter:
  assumes "filter q xs = filter q ys" and "\<And>x. p x \<Longrightarrow> q x"
  shows "List.find p xs = List.find p ys"
proof -
  have "List.find p zs = List.find p (filter q zs)" for zs
    using assms(2) by (induction zs) auto
  then show ?thesis using assms(1) by metis
qed

lemma filter_by_filter:
  assumes "filter q xs = filter q ys" and "\<And>x. p x \<Longrightarrow> q x"
  shows "filter p xs = filter p ys"
proof -
  have "filter p zs = filter p (filter q zs)" for zs
    using assms(2) by (induction zs) auto
  then show ?thesis using assms(1) by metis
qed

lemma distinct_map_inj:
  "distinct (map key xs) \<Longrightarrow> x \<in> set xs \<Longrightarrow> y \<in> set xs \<Longrightarrow> key x = key y \<Longrightarrow> x = y"
  by (auto simp: distinct_map inj_on_def)

lemma find_put_row:
  "List.find (\<lambda>x. key x = k) (put_row key r rows) =
     (if k = key r then Some r else List.find (\<lambda>x. key x = k) rows)"
proof -
  have "List.find (\<lambda>x. key x = k) (upd_rows (\<lambda>x. key x = key r) (\<lambda>_. r) rs) =
      (if k = key r \<and> k \<in> key ` set rs then Some r else List.find (\<lambda>x. key x = k) rs)" for rs
    by (induction rs) (auto simp: upd_rows_def)
  moreover have "List.find (\<lambda>x. key x = k) (rows @ [r]) =
      (if k \<in> key ` set rows then List.find (\<lambda>x. key x = k) rows
       else if k = key r then Some r else None)" for rows
    by (induction rows) auto
  ultimately show ?thesis
    by (auto simp: put_row_def find_None image_iff eq_commute [of None])
qed

lemma find_del_rows:
  "List.find q (del_rows p rows) = List.find (\<lambda>x. \<not> p x \<and> q x) rows"
  by (simp add: del_rows_def find_cong_filter)

lemma set_eq_filter_cong:
  assumes "filter q xs = filter q ys" and "q x"
  shows "x \<in> set xs \<longleftrightarrow> x \<in> set ys"
proof -
  from assms(1) have "x \<in> set (filter q xs) \<longleftrightarrow> x \<in> set (filter q ys)" by simp
  with assms(2) show ?thesis by simp
qed

lemma insort_key_map: "insort_key k (h x) (map h xs) = map h (insort_key (\<lambda>y. k (h y)) x xs)"
  by (induction xs) auto

lemma sort_key_map: "sort_key k (map h xs) = map h (sort_key (\<lambda>y. k (h y)) xs)"
  by (induction xs) (simp_all add: insort_key_map)

end
