(* ===== verification/Text.thy ===== *)
theory Text
  imports Prelude
begin

section \<open>Go's string functions and the repository's compiled patterns\<close>

text \<open>
  The pieces of \<open>strings\<close>, \<open>strconv\<close> and \<open>regexp\<close> the sources call, over byte strings.
  \<open>TrimSpace\<close> strips whole UTF-8 encodings of the white-space code points
  (\<open>unicode.White_Space\<close>), from either end. The patterns are the compiled regular expressions
  of \<^verbatim>\<open>internal/logbook/validate.go\<close>, \<^verbatim>\<open>geography.go\<close> and \<^verbatim>\<open>share.go\<close>; each is an
  anchored character class with a length range, so it is a predicate on the bytes.
\<close>

subsection \<open>White space\<close>

definition ws_runes :: "nat list list" where
  "ws_runes =
     [[9], [10], [11], [12], [13], [32], [194, 133], [194, 160], [225, 154, 128],
      [226, 128, 128], [226, 128, 129], [226, 128, 130], [226, 128, 131], [226, 128, 132],
      [226, 128, 133], [226, 128, 134], [226, 128, 135], [226, 128, 136], [226, 128, 137],
      [226, 128, 138], [226, 128, 168], [226, 128, 169], [226, 128, 175], [226, 129, 159],
      [227, 128, 128]]"

definition bytes :: "string \<Rightarrow> nat list" where
  "bytes s = map of_char s"

function strip :: "nat list list \<Rightarrow> string \<Rightarrow> string" where
  "strip ws s =
     (case List.find (\<lambda>w. w \<noteq> [] \<and> prefix w (bytes s)) ws of
        None \<Rightarrow> s
      | Some w \<Rightarrow> strip ws (drop (length w) s))"
  by pat_completeness auto
termination
proof (relation "measure (\<lambda>(ws, s). length s)", simp)
  fix ws s w
  assume "List.find (\<lambda>w. w \<noteq> [] \<and> prefix w (bytes s)) ws = Some w"
  then have "w \<noteq> []" and "prefix w (bytes s)"
    by (auto dest: find_SomeD)
  then have "0 < length w" and "length w \<le> length s"
    by (auto dest: prefix_length_le simp: bytes_def)
  then have "length s - length w < length s" by linarith
  then show "((ws, drop (length w) s), (ws, s)) \<in> measure (\<lambda>(ws, s). length s)"
    by simp
qed

declare strip.simps [simp del]

text \<open>To evaluate, the text itself counts the rounds: there are at most as many as it has bytes.\<close>

fun strip_rounds :: "'a list \<Rightarrow> nat list list \<Rightarrow> string \<Rightarrow> string" where
  "strip_rounds [] ws s = s"
| "strip_rounds (x # fuel) ws s =
     (case List.find (\<lambda>w. w \<noteq> [] \<and> prefix w (bytes s)) ws of
        None \<Rightarrow> s
      | Some w \<Rightarrow> strip_rounds fuel ws (drop (length w) s))"

lemma strip_Nil: "strip ws [] = []"
  by (subst strip.simps) (auto simp: bytes_def find_None_iff split: option.splits dest!: find_SomeD)

lemma strip_rounds: "length s \<le> length fuel \<Longrightarrow> strip_rounds fuel ws s = strip ws s"
proof (induction fuel ws s rule: strip_rounds.induct)
  case (2 x fuel ws s)
  show ?case
  proof (cases "List.find (\<lambda>w. w \<noteq> [] \<and> prefix w (bytes s)) ws")
    case None
    then show ?thesis by (simp add: strip.simps [of ws s])
  next
    case (Some w)
    then have "w \<noteq> []" "prefix w (bytes s)" by (auto dest: find_SomeD)
    then have "0 < length w" "length w \<le> length s" by (auto dest: prefix_length_le simp: bytes_def)
    then have "length (drop (length w) s) \<le> length fuel" using "2.prems" unfolding length_drop length_Cons by linarith
    with 2 Some show ?thesis by (simp add: strip.simps [of ws s])
  qed
qed (simp add: strip_Nil)

lemma strip_code [code]: "strip ws s = strip_rounds s ws s"
  by (simp add: strip_rounds)

definition trim_left :: "string \<Rightarrow> string" where
  "trim_left s = strip ws_runes s"

definition trim_right :: "string \<Rightarrow> string" where
  "trim_right s = rev (strip (map rev ws_runes) (rev s))"

definition TrimSpace :: "string \<Rightarrow> string" where
  "TrimSpace s = trim_right (trim_left s)"

subsection \<open>Cutting, splitting and prefixes\<close>

definition TrimPrefix :: "string \<Rightarrow> string \<Rightarrow> string" where
  "TrimPrefix p s = (if prefix p s then drop (length p) s else s)"

text \<open>\<open>strings.Trim(s, cutset)\<close> for a one-byte cutset.\<close>

definition TrimByte :: "char \<Rightarrow> string \<Rightarrow> string" where
  "TrimByte c s = rev (dropWhile (\<lambda>x. x = c) (rev (dropWhile (\<lambda>x. x = c) s)))"

text \<open>\<open>strings.Cut\<close> at the first occurrence of a one-byte separator.\<close>

fun Cut :: "char \<Rightarrow> string \<Rightarrow> (string \<times> string) option" where
  "Cut c [] = None"
| "Cut c (x # xs) =
     (if x = c then Some ([], xs)
      else (case Cut c xs of None \<Rightarrow> None | Some (l, r) \<Rightarrow> Some (x # l, r)))"

fun Split :: "char \<Rightarrow> string \<Rightarrow> string list" where
  "Split c [] = [[]]"
| "Split c (x # xs) =
     (if x = c then [] # Split c xs
      else (case Split c xs of [] \<Rightarrow> [[x]] | y # ys \<Rightarrow> (x # y) # ys))"

fun Join :: "string \<Rightarrow> string list \<Rightarrow> string" where
  "Join sep [] = []"
| "Join sep [x] = x"
| "Join sep (x # y # zs) = x @ sep @ Join sep (y # zs)"

subsection \<open>Decimal integers\<close>

definition digit :: "nat \<Rightarrow> char" where
  "digit d = char_of (48 + d)"

definition digit_val :: "char \<Rightarrow> nat option" where
  "digit_val c = (let n = of_char c in if 48 \<le> n \<and> n \<le> 57 then Some (n - 48) else None)"

fun FormatNat :: "nat \<Rightarrow> string" where
  "FormatNat n = (if n < 10 then [digit n] else FormatNat (n div 10) @ [digit (n mod 10)])"

declare FormatNat.simps [simp del]

definition FormatInt :: "int \<Rightarrow> string" where
  "FormatInt i = (if i < 0 then CHR ''-'' # FormatNat (nat (- i)) else FormatNat (nat i))"

fun parse_digits :: "nat \<Rightarrow> string \<Rightarrow> nat option" where
  "parse_digits acc [] = Some acc"
| "parse_digits acc (c # cs) =
     (case digit_val c of None \<Rightarrow> None | Some d \<Rightarrow> parse_digits (10 * acc + d) cs)"

text \<open>\<open>strconv.ParseInt(s, 10, 64)\<close>: an optional sign, at least one digit, and the range.\<close>

definition ParseInt64 :: "string \<Rightarrow> int option" where
  "ParseInt64 s =
     (let (neg, ds) = (case s of
            [] \<Rightarrow> (False, [])
          | c # cs \<Rightarrow> if c = CHR ''-'' then (True, cs)
                     else if c = CHR ''+'' then (False, cs) else (False, s))
      in if ds = [] then None
         else case parse_digits 0 ds of
                None \<Rightarrow> None
              | Some n \<Rightarrow>
                  (let v = (if neg then - int n else int n)
                   in if - (2 ^ 63) \<le> v \<and> v < 2 ^ 63 then Some v else None))"

subsection \<open>The compiled patterns\<close>

definition in_range :: "char \<Rightarrow> char \<Rightarrow> char \<Rightarrow> bool" where
  "in_range lo hi c \<longleftrightarrow> (of_char lo :: nat) \<le> of_char c \<and> (of_char c :: nat) \<le> of_char hi"

abbreviation is_lower :: "char \<Rightarrow> bool" where "is_lower \<equiv> in_range (CHR ''a'') (CHR ''z'')"
abbreviation is_upper :: "char \<Rightarrow> bool" where "is_upper \<equiv> in_range (CHR ''A'') (CHR ''Z'')"
abbreviation is_digit :: "char \<Rightarrow> bool" where "is_digit \<equiv> in_range (CHR ''0'') (CHR ''9'')"

text \<open>\<open>strings.EqualFold\<close> against a word none of whose letters has a fold outside ASCII.\<close>

definition ascii_lower :: "char \<Rightarrow> char" where
  "ascii_lower c = (if in_range (CHR ''A'') (CHR ''Z'') c then char_of (of_char c + 32 :: nat) else c)"

definition idPattern :: "string \<Rightarrow> bool" where
  "idPattern s \<longleftrightarrow> 1 \<le> length s \<and> length s \<le> 64 \<and>
     list_all (\<lambda>c. is_lower c \<or> is_digit c \<or> c = CHR ''-'') s"

definition assetPattern :: "string \<Rightarrow> bool" where
  "assetPattern s \<longleftrightarrow> length s = 64 \<and>
     list_all (\<lambda>c. is_digit c \<or> in_range (CHR ''a'') (CHR ''f'') c) s"

definition countryCodePattern :: "string \<Rightarrow> bool" where
  "countryCodePattern s \<longleftrightarrow> length s = 2 \<and> list_all is_upper s"

definition MinShareTokenBytes :: nat where "MinShareTokenBytes = 12"
definition MaxShareTokenBytes :: nat where "MaxShareTokenBytes = 64"

definition shareTokenPattern :: "string \<Rightarrow> bool" where
  "shareTokenPattern s \<longleftrightarrow> MinShareTokenBytes \<le> length s \<and> length s \<le> MaxShareTokenBytes \<and>
     list_all (\<lambda>c. is_lower c \<or> is_digit c) s"

subsection \<open>Trimming is idempotent\<close>

definition stripped :: "nat list list \<Rightarrow> string \<Rightarrow> bool" where
  "stripped ws s \<longleftrightarrow> (\<forall>w \<in> set ws. w \<noteq> [] \<longrightarrow> \<not> prefix w (bytes s))"

lemma strip_stripped: "stripped ws (strip ws s)"
proof (induction ws s rule: strip.induct)
  case (1 ws s)
  show ?case
  proof (cases "List.find (\<lambda>w. w \<noteq> [] \<and> prefix w (bytes s)) ws")
    case None
    then have "strip ws s = s" by (simp add: strip.simps [of ws s])
    with None show ?thesis by (auto simp: stripped_def find_None)
  next
    case (Some w)
    with "1.IH" show ?thesis by (simp add: strip.simps [of ws s])
  qed
qed

lemma strip_id: "stripped ws s \<Longrightarrow> strip ws s = s"
  by (subst strip.simps) (auto simp: stripped_def find_None split: option.splits dest!: find_SomeD)

lemma strip_suffix: "suffix (strip ws s) s"
proof (induction ws s rule: strip.induct)
  case (1 ws s)
  show ?case
  proof (cases "List.find (\<lambda>w. w \<noteq> [] \<and> prefix w (bytes s)) ws")
    case None
    then show ?thesis by (simp add: strip.simps [of ws s])
  next
    case (Some w)
    then have "suffix (strip ws (drop (length w) s)) (drop (length w) s)" by (rule "1.IH")
    with Some show ?thesis
      by (auto simp: strip.simps [of ws s] intro: suffix_order.trans suffix_drop)
  qed
qed

lemma stripped_prefix: "stripped ws s \<Longrightarrow> prefix t s \<Longrightarrow> stripped ws t"
  by (auto simp: stripped_def bytes_def intro: prefix_order.trans map_mono_prefix)

lemma trim_right_prefix: "prefix (trim_right s) s"
  using strip_suffix [of "map rev ws_runes" "rev s"]
  by (simp add: trim_right_def suffix_to_prefix)

lemma TrimSpace_idem [simp]: "TrimSpace (TrimSpace s) = TrimSpace s"
proof -
  have "stripped ws_runes (TrimSpace s)"
    unfolding TrimSpace_def trim_left_def
    by (rule stripped_prefix [OF strip_stripped trim_right_prefix])
  then have "trim_left (TrimSpace s) = TrimSpace s"
    by (simp add: trim_left_def strip_id)
  moreover have "trim_right (TrimSpace s) = TrimSpace s"
    by (simp add: TrimSpace_def trim_right_def strip_id strip_stripped)
  ultimately show ?thesis by (simp add: TrimSpace_def)
qed

lemma TrimSpace_length: "length (TrimSpace s) \<le> length s"
proof -
  have "length (trim_right t) \<le> length t" for t
    using trim_right_prefix by (rule prefix_length_le)
  moreover have "length (trim_left s) \<le> length s"
    unfolding trim_left_def using strip_suffix by (rule suffix_length_le)
  ultimately show ?thesis unfolding TrimSpace_def by (meson order.trans)
qed

lemma TrimSpace_Nil [simp]: "TrimSpace [] = []"
  using TrimSpace_length [of "[]"] by simp

lemma TrimSpace_nonempty: "TrimSpace s \<noteq> [] \<Longrightarrow> s \<noteq> []"
  by auto

text \<open>A text whose first and last bytes are printable ASCII is its own trimming.\<close>

lemma ws_runes_ends:
  "w \<in> set ws_runes \<Longrightarrow> w \<noteq> [] \<and> (hd w \<le> 32 \<or> 128 \<le> hd w) \<and> (last w \<le> 32 \<or> 128 \<le> last w)"
  by (auto simp: ws_runes_def)

lemma TrimSpace_id:
  assumes "s \<noteq> []"
    and "32 < (of_char (hd s) :: nat)" "(of_char (hd s) :: nat) < 128"
    and "32 < (of_char (last s) :: nat)" "(of_char (last s) :: nat) < 128"
  shows "TrimSpace s = s"
proof -
  have "\<not> prefix w (bytes s)" if "w \<in> set ws_runes" for w
    using assms ws_runes_ends [OF that] by (cases w; cases s) (auto simp: bytes_def)
  then have left: "trim_left s = s"
    by (simp add: trim_left_def strip_id stripped_def)
  have "\<not> prefix (rev w) (bytes (rev s))" if "w \<in> set ws_runes" for w
    using assms ws_runes_ends [OF that]
    by (cases w rule: rev_cases; cases s rule: rev_cases) (auto simp: bytes_def)
  then have "trim_right s = s"
    by (simp add: trim_right_def strip_id stripped_def)
  with left show ?thesis by (simp add: TrimSpace_def)
qed

subsection \<open>Decimal round trip\<close>

lemma digit_val_digit [simp]: "d < 10 \<Longrightarrow> digit_val (digit d) = Some d"
  by (simp add: digit_val_def digit_def)

lemma parse_digits_append:
  "parse_digits acc (xs @ ys) =
     (case parse_digits acc xs of None \<Rightarrow> None | Some n \<Rightarrow> parse_digits n ys)"
  by (induction xs arbitrary: acc) (auto split: option.splits)

lemma parse_FormatNat: "parse_digits 0 (FormatNat n) = Some n"
proof (induction n rule: FormatNat.induct)
  case (1 n)
  show ?case
  proof (cases "n < 10")
    case True
    then show ?thesis by (simp add: FormatNat.simps [of n])
  next
    case False
    with "1.IH" show ?thesis
      by (simp add: FormatNat.simps [of n] parse_digits_append)
  qed
qed

lemma FormatNat_nonempty [simp]: "FormatNat n \<noteq> []"
  by (subst FormatNat.simps) simp

lemma FormatNat_digits: "c \<in> set (FormatNat n) \<Longrightarrow> \<exists>d < 10. c = digit d"
proof (induction n rule: FormatNat.induct)
  case (1 n)
  show ?case
  proof (cases "n < 10")
    case True
    with "1.prems" show ?thesis by (auto simp: FormatNat.simps [of n])
  next
    case False
    with "1.prems" have "c \<in> set (FormatNat (n div 10)) \<or> c = digit (n mod 10)"
      by (auto simp: FormatNat.simps [of n])
    moreover have "n mod 10 < 10" by simp
    ultimately show ?thesis using "1.IH" [OF False] by blast
  qed
qed

lemma of_char_digit: "d < 10 \<Longrightarrow> (of_char (digit d) :: nat) = 48 + d"
  by (simp add: digit_def)

lemma FormatNat_bytes: "c \<in> set (FormatNat n) \<Longrightarrow> 48 \<le> (of_char c :: nat) \<and> (of_char c :: nat) \<le> 57"
  by (auto dest!: FormatNat_digits simp: of_char_digit)

lemma FormatNat_notin:
  "(of_char c :: nat) < 48 \<or> 57 < (of_char c :: nat) \<Longrightarrow> c \<notin> set (FormatNat n)"
  using FormatNat_bytes [of c n] by linarith

lemma ParseInt64_FormatInt:
  assumes "0 \<le> i" "i < 2 ^ 63"
  shows "ParseInt64 (FormatInt i) = Some i"
proof -
  obtain c cs where ds: "FormatNat (nat i) = c # cs"
    by (cases "FormatNat (nat i)") auto
  have "c \<noteq> CHR ''-''" and "c \<noteq> CHR ''+''"
    using FormatNat_bytes [of c "nat i"] ds by auto
  with ds assms parse_FormatNat [of "nat i"] show ?thesis
    by (simp add: ParseInt64_def FormatInt_def)
qed

lemma Cut_append: "c \<notin> set l \<Longrightarrow> Cut c (l @ c # r) = Some (l, r)"
  by (induction l) auto

lemma Split_nonempty [simp]: "Split c s \<noteq> []"
  by (cases s) (auto split: list.splits)

lemma Split_no_sep: "c \<notin> set s \<Longrightarrow> Split c s = [s]"
  by (induction s) auto

lemma Split_append: "c \<notin> set l \<Longrightarrow> Split c (l @ c # r) = l # Split c r"
  by (induction l) auto

lemma TrimByte_quoted:
  assumes "s \<noteq> []" "c \<notin> set s"
  shows "TrimByte c (c # s @ [c]) = s"
proof -
  have "dropWhile (\<lambda>x. x = c) (rev s) = rev s" "dropWhile (\<lambda>x. x = c) s = s"
    using assms by (auto simp: dropWhile_eq_self_iff) (metis hd_in_set hd_rev last_in_set)
  moreover have "dropWhile (\<lambda>x. x = c) (s @ [c]) = s @ [c]"
    using assms by (cases s) auto
  ultimately show ?thesis by (simp add: TrimByte_def)
qed

text \<open>An identifier is nonempty and is its own trimming.\<close>

lemma idPattern_nonempty: "idPattern s \<Longrightarrow> s \<noteq> []"
  by (auto simp: idPattern_def)

end
