(* ===== verification/Logbook_Types.thy ===== *)
theory Logbook_Types
  imports Text Complex_Main
begin

section \<open>The domain's data (\<^verbatim>\<open>internal/logbook/types.go\<close>, \<^verbatim>\<open>store.go\<close>)\<close>

text \<open>
  The wire shape of the log, the bodies of the writes, and the errors of the domain.
  A slice is an \<^typ>\<open>'a list option\<close>: \<^const>\<open>None\<close> is Go's nil slice, which \<open>encoding/json\<close>
  renders as \<open>null\<close> and not as an empty array. In a write body every field is a pointer; a nullable
  field is a pointer to a pointer (\<^const>\<open>None\<close> absent, \<open>Some None\<close> a sent null).
\<close>

type_synonym 'a slice = "'a list option"

definition items :: "'a slice \<Rightarrow> 'a list" where
  "items s = (case s of None \<Rightarrow> [] | Some xs \<Rightarrow> xs)"

text \<open>A slice grown by \<open>append\<close> from nil is nil until the first element arrives.\<close>

definition appended :: "'a list \<Rightarrow> 'a slice" where
  "appended xs = (if xs = [] then None else Some xs)"

lemma items_simps [simp]:
  "items None = []" "items (Some xs) = xs" "items (appended ys) = ys"
  by (simp_all add: items_def appended_def)

subsection \<open>Entities\<close>

record latlng =
  Lat :: rat
  Lng :: rat

record country =
  Code :: string
  CountryName :: string

record trip =
  trip_ID :: id
  trip_Name :: string
  trip_CityIDs :: "id slice"
  trip_Start :: "instant option"
  trip_End :: "instant option"
  trip_Summary :: "string option"
  trip_CoverAsset :: "digest option"
  trip_ShareLinkID :: "string option"
  trip_SharePhotos :: bool
  trip_ShareNotes :: bool
  trip_ShareCoordinates :: bool
  trip_Shared :: bool

record city =
  city_ID :: id
  city_Name :: string
  city_Country :: country
  city_Centre :: latlng
  city_CoverAsset :: "digest option"

record visit =
  visit_ID :: id
  visit_PlaceID :: id
  visit_TripID :: id
  visit_At :: instant
  visit_Note :: "string option"

record place =
  place_ID :: id
  place_CityID :: id
  place_Name :: string
  place_Coordinates :: latlng
  place_Visits :: "visit slice"
  place_Plan :: "string option"
  place_CoverAsset :: "digest option"

record photo =
  photo_ID :: id
  photo_TripID :: id
  photo_CityID :: id
  photo_TakenAt :: instant
  photo_Asset :: digest
  photo_PlaceID :: "id option"
  photo_VisitID :: "id option"
  photo_Caption :: "string option"
  photo_Coordinates :: "latlng option"
  photo_AccuracyMetres :: "int option"
  photo_FiledLater :: "instant option"

record walk =
  walk_ID :: id
  walk_TripID :: id
  walk_CityID :: id
  walk_RecordedOn :: instant
  walk_DistanceKm :: rat
  walk_Points :: "latlng slice"
  walk_Name :: "string option"
  walk_Dismissed :: bool

record document =
  doc_Trips :: "trip slice"
  doc_Cities :: "city slice"
  doc_Places :: "place slice"
  doc_Photos :: "photo slice"
  doc_Walks :: "walk slice"
  doc_Traveller :: "string option"    \<comment> \<open>the one field of \<open>Traveller\<close>, behind its pointer\<close>

record snapshot =
  snap_Version :: int
  snap_Document :: "document option"

record media_object =
  media_ID :: digest
  media_ByteSize :: int
  media_ContentType :: string
  media_CreatedAt :: instant
  media_UploadedAt :: "instant option"

definition Committed :: "media_object \<Rightarrow> bool" where
  "Committed m \<longleftrightarrow> media_UploadedAt m \<noteq> None"

subsection \<open>Write bodies\<close>

record trip_write =
  tw_ID :: "id option"
  tw_Name :: "string option"
  tw_CityIDs :: "id list option"
  tw_Start :: "instant option option"
  tw_End :: "instant option option"
  tw_Summary :: "string option option"
  tw_CoverAsset :: "digest option option"

record city_write =
  cw_ID :: "id option"
  cw_Name :: "string option"
  cw_Country :: "country option"
  cw_Centre :: "latlng option"
  cw_CoverAsset :: "digest option option"
  cw_AttachTo :: "id option"

record place_write =
  pw_ID :: "id option"
  pw_CityID :: "id option"
  pw_Name :: "string option"
  pw_Coordinates :: "latlng option"
  pw_Visits :: "visit list option"
  pw_Plan :: "string option option"
  pw_CoverAsset :: "digest option option"

record photo_write =
  fw_ID :: "id option"
  fw_TripID :: "id option"
  fw_CityID :: "id option"
  fw_TakenAt :: "instant option"
  fw_Asset :: "digest option"
  fw_Caption :: "string option option"
  fw_Coordinates :: "latlng option option"
  fw_AccuracyMetres :: "int option option"
  fw_FiledLater :: "instant option option"

record snooze_write =
  sw_PhotoIDs :: "id list option"
  sw_Until :: "instant option"

record refile_write =
  rw_PlaceID :: "id option"
  rw_VisitID :: "id option"
  rw_VisitAt :: "instant option"

record walk_write =
  ww_ID :: "id option"
  ww_TripID :: "id option"
  ww_CityID :: "id option"
  ww_RecordedOn :: "instant option"
  ww_DistanceKm :: "rat option"
  ww_Points :: "latlng list option"
  ww_Name :: "string option option"
  ww_Dismissed :: "bool option"

record share_write =
  shw_SharePhotos :: "bool option"
  shw_ShareNotes :: "bool option"
  shw_ShareCoordinates :: "bool option"

record media_begin =
  mb_SHA256 :: "digest option"
  mb_ByteSize :: "int option"
  mb_ContentType :: "string option"

datatype PhotoDisposition = photosUnspecified | KeepPhotos | DeletePhotos

subsection \<open>Errors\<close>

text \<open>
  What a driver call can answer: a network error, a closed connection, an expired context, a
  PostgreSQL error with its SQLSTATE, or anything else. \<open>InvalidField\<close> carries the field only:
  the prose of an \<open>InvalidFieldError\<close> never reaches the wire. The last constructors are the
  sentinels that roll a version bump back inside \<open>internal/postgres\<close>, the loader's unknown
  locator, an object store that failed (\<open>True\<close> when the failure is a network error), and the
  two transport sentinels of \<^verbatim>\<open>internal/httpx/json.go\<close>.
\<close>

datatype db_error = NetError | ConnDone | DeadlineExceeded | SqlState string | OtherDriver

datatype error =
    InvalidField string
  | ErrNoTraveller | ErrNoTrip | ErrNoPlace | ErrNoPhoto | ErrNoWalk
  | ErrNoShare | ErrNoMediaObject | ErrUploadIncomplete | ErrUnsupportedFormat
  | ErrDB db_error
  | ErrVanished | ErrIncompleteBegin
  | ErrNothingDeleted | ErrNoSuchPlace | ErrNoSuchPhoto | ErrNothingSnoozed
  | ErrNoLocator | ErrObjects bool
  | ErrInvalidBody | ErrBodyTooLarge

subsection \<open>The pointer contract\<close>

definition Sent :: "'a option option \<Rightarrow> bool" where
  "Sent p \<longleftrightarrow> p \<noteq> None"

definition Value :: "'a option option \<Rightarrow> 'a option" where
  "Value p = (case p of None \<Rightarrow> None | Some v \<Rightarrow> v)"

lemma Sent_simps [simp]: "\<not> Sent None" "Sent (Some v)"
  by (simp_all add: Sent_def)

lemma Value_simps [simp]: "Value None = None" "Value (Some v) = v"
  by (simp_all add: Value_def)

end
