(* ===== verification/Database.thy ===== *)
theory Database
  imports Logbook_Types
begin

section \<open>The tables and their constraints (\<^verbatim>\<open>migrations/\<close>)\<close>

text \<open>
  The relational state the stores of \<^verbatim>\<open>internal/postgres\<close> work on: one list of rows per table,
  for all travellers together, as created by \<^verbatim>\<open>0001_init.up.sql\<close> and amended by
  \<^verbatim>\<open>0002\<close> to \<^verbatim>\<open>0007\<close>. A statement is a function from the database to a driver error or an
  answer with the new database; it enforces the constraints PostgreSQL would enforce, with the
  SQLSTATE it would raise (\<open>23514\<close> check, \<open>23503\<close> foreign key, \<open>23505\<close> unique, \<open>22003\<close> numeric
  range). Uniqueness is checked row by row while a statement runs, because none of the
  constraints is deferrable. Columns no store reads (\<open>created_at\<close> of the entities,
  \<open>geocoder_ref\<close>) are left out.

  Three functions stand for behaviour of the server and its driver that is not in the
  repository: the collation's sort key, the rounding of an instant to a \<open>timestamptz\<close>, and the
  truncation of an instant to a \<open>date\<close>. They are fields of the database that no statement
  writes.
\<close>

record traveller_row =
  tv_id :: id
  tv_email :: string
  tv_name :: "string option"
  tv_version :: int

record media_row =
  md_traveller :: id
  md_id :: digest
  md_size :: int
  md_type :: string
  md_created :: instant
  md_uploaded :: "instant option"

record city_row =
  ct_traveller :: id
  ct_id :: id
  ct_name :: string
  ct_country :: country
  ct_centre :: latlng
  ct_cover :: "digest option"

record trip_row =
  tr_traveller :: id
  tr_id :: id
  tr_name :: string
  tr_started :: "instant option"
  tr_ended :: "instant option"
  tr_summary :: "string option"
  tr_cover :: "digest option"
  tr_share_photos :: bool
  tr_share_notes :: bool
  tr_share_coordinates :: bool

record trip_city_row =
  tc_traveller :: id
  tc_trip :: id
  tc_city :: id
  tc_ordinal :: int

record place_row =
  pl_traveller :: id
  pl_id :: id
  pl_city :: id
  pl_name :: string
  pl_at :: latlng
  pl_plan :: "string option"
  pl_cover :: "digest option"

record visit_row =
  vs_traveller :: id
  vs_id :: id
  vs_place :: id
  vs_trip :: id
  vs_ordinal :: int
  vs_at :: instant
  vs_note :: "string option"

record photo_row =
  ph_traveller :: id
  ph_id :: id
  ph_trip :: id
  ph_city :: id
  ph_place :: "id option"
  ph_visit :: "id option"
  ph_taken :: instant
  ph_asset :: digest
  ph_caption :: "string option"
  ph_lat :: "rat option"
  ph_lng :: "rat option"
  ph_accuracy :: "int option"
  ph_later :: "instant option"

record walk_row =
  wk_traveller :: id
  wk_id :: id
  wk_trip :: id
  wk_city :: id
  wk_recorded :: instant
  wk_distance :: rat
  wk_points :: "latlng list"
  wk_name :: "string option"
  wk_dismissed :: bool

record share_row =
  sh_traveller :: id
  sh_trip :: id
  sh_hash :: digest
  sh_created :: instant
  sh_revoked :: "instant option"

record database =
  collate :: "id \<Rightarrow> string"
  to_timestamptz :: "instant \<Rightarrow> instant"
  to_date :: "instant \<Rightarrow> instant"
  travellers :: "traveller_row list"
  media_objects :: "media_row list"
  cities :: "city_row list"
  trips :: "trip_row list"
  trip_cities :: "trip_city_row list"
  places :: "place_row list"
  visits :: "visit_row list"
  photos :: "photo_row list"
  walks :: "walk_row list"
  share_links :: "share_row list"

subsection \<open>Primary keys\<close>

definition md_key :: "media_row \<Rightarrow> id \<times> digest" where "md_key r = (md_traveller r, md_id r)"
definition ct_key :: "city_row \<Rightarrow> id \<times> id" where "ct_key r = (ct_traveller r, ct_id r)"
definition tr_key :: "trip_row \<Rightarrow> id \<times> id" where "tr_key r = (tr_traveller r, tr_id r)"
definition tc_key :: "trip_city_row \<Rightarrow> id \<times> id \<times> id" where
  "tc_key r = (tc_traveller r, tc_trip r, tc_city r)"
definition tc_slot :: "trip_city_row \<Rightarrow> id \<times> id \<times> int" where
  "tc_slot r = (tc_traveller r, tc_trip r, tc_ordinal r)"
definition pl_key :: "place_row \<Rightarrow> id \<times> id" where "pl_key r = (pl_traveller r, pl_id r)"
definition vs_key :: "visit_row \<Rightarrow> id \<times> id" where "vs_key r = (vs_traveller r, vs_id r)"
definition vs_slot :: "visit_row \<Rightarrow> id \<times> id \<times> int" where
  "vs_slot r = (vs_traveller r, vs_place r, vs_ordinal r)"
definition ph_key :: "photo_row \<Rightarrow> id \<times> id" where "ph_key r = (ph_traveller r, ph_id r)"
definition wk_key :: "walk_row \<Rightarrow> id \<times> id" where "wk_key r = (wk_traveller r, wk_id r)"

lemmas key_defs = md_key_def ct_key_def tr_key_def tc_key_def tc_slot_def pl_key_def vs_key_def
  vs_slot_def ph_key_def wk_key_def

definition find_traveller :: "database \<Rightarrow> id \<Rightarrow> traveller_row option" where
  "find_traveller d t = List.find (\<lambda>r. tv_id r = t) (travellers d)"
definition find_media :: "database \<Rightarrow> id \<Rightarrow> digest \<Rightarrow> media_row option" where
  "find_media d t i = List.find (\<lambda>r. md_key r = (t, i)) (media_objects d)"
definition find_city :: "database \<Rightarrow> id \<Rightarrow> id \<Rightarrow> city_row option" where
  "find_city d t i = List.find (\<lambda>r. ct_key r = (t, i)) (cities d)"
definition find_trip :: "database \<Rightarrow> id \<Rightarrow> id \<Rightarrow> trip_row option" where
  "find_trip d t i = List.find (\<lambda>r. tr_key r = (t, i)) (trips d)"
definition find_place :: "database \<Rightarrow> id \<Rightarrow> id \<Rightarrow> place_row option" where
  "find_place d t i = List.find (\<lambda>r. pl_key r = (t, i)) (places d)"
definition find_visit :: "database \<Rightarrow> id \<Rightarrow> id \<Rightarrow> visit_row option" where
  "find_visit d t i = List.find (\<lambda>r. vs_key r = (t, i)) (visits d)"
definition find_photo :: "database \<Rightarrow> id \<Rightarrow> id \<Rightarrow> photo_row option" where
  "find_photo d t i = List.find (\<lambda>r. ph_key r = (t, i)) (photos d)"
definition find_walk :: "database \<Rightarrow> id \<Rightarrow> id \<Rightarrow> walk_row option" where
  "find_walk d t i = List.find (\<lambda>r. wk_key r = (t, i)) (walks d)"

lemmas find_defs = find_traveller_def find_media_def find_city_def find_trip_def find_place_def
  find_visit_def find_photo_def find_walk_def

subsection \<open>Check constraints\<close>

definition present :: "string option \<Rightarrow> bool" where
  "present s \<longleftrightarrow> s \<noteq> Some []"

definition int4 :: "int \<Rightarrow> bool" where
  "int4 n \<longleftrightarrow> - (2 ^ 31) \<le> n \<and> n < 2 ^ 31"

definition on_earth :: "latlng \<Rightarrow> bool" where
  "on_earth p \<longleftrightarrow> \<bar>Lat p\<bar> \<le> 90 \<and> \<bar>Lng p\<bar> \<le> 180"

definition asset_ck :: "digest option \<Rightarrow> bool" where
  "asset_ck a = (case a of None \<Rightarrow> True | Some x \<Rightarrow> assetPattern x)"

definition traveller_ck :: "traveller_row \<Rightarrow> bool" where
  "traveller_ck r \<longleftrightarrow> tv_email r \<noteq> [] \<and> present (tv_name r) \<and> 0 \<le> tv_version r"

definition media_ck :: "media_row \<Rightarrow> bool" where
  "media_ck r \<longleftrightarrow> assetPattern (md_id r) \<and> 0 < md_size r \<and>
     md_type r \<in> {''image/jpeg'', ''image/png''} \<and>
     (case md_uploaded r of None \<Rightarrow> True | Some u \<Rightarrow> md_created r \<le> u)"

definition city_ck :: "city_row \<Rightarrow> bool" where
  "city_ck r \<longleftrightarrow> idPattern (ct_id r) \<and> ct_name r \<noteq> [] \<and> countryCodePattern (Code (ct_country r)) \<and>
     CountryName (ct_country r) \<noteq> [] \<and> on_earth (ct_centre r) \<and> asset_ck (ct_cover r)"

definition dates_ordered :: "instant option \<Rightarrow> instant option \<Rightarrow> bool" where
  "dates_ordered s e = (case (s, e) of (Some a, Some b) \<Rightarrow> a \<le> b | _ \<Rightarrow> True)"

definition trip_ck :: "trip_row \<Rightarrow> bool" where
  "trip_ck r \<longleftrightarrow> idPattern (tr_id r) \<and> tr_name r \<noteq> [] \<and> dates_ordered (tr_started r) (tr_ended r) \<and>
     asset_ck (tr_cover r) \<and> present (tr_summary r)"

definition place_ck :: "place_row \<Rightarrow> bool" where
  "place_ck r \<longleftrightarrow> idPattern (pl_id r) \<and> pl_name r \<noteq> [] \<and> on_earth (pl_at r) \<and>
     asset_ck (pl_cover r) \<and> present (pl_plan r)"

definition visit_ck :: "visit_row \<Rightarrow> bool" where
  "visit_ck r \<longleftrightarrow> idPattern (vs_id r) \<and> 0 \<le> vs_ordinal r \<and> present (vs_note r)"

definition photo_ck :: "photo_row \<Rightarrow> bool" where
  "photo_ck r \<longleftrightarrow> idPattern (ph_id r) \<and> assetPattern (ph_asset r) \<and>
     (case ph_lat r of None \<Rightarrow> True | Some x \<Rightarrow> \<bar>x\<bar> \<le> 90) \<and>
     (case ph_lng r of None \<Rightarrow> True | Some x \<Rightarrow> \<bar>x\<bar> \<le> 180) \<and>
     (ph_lat r = None) = (ph_lng r = None) \<and>
     (case ph_accuracy r of None \<Rightarrow> True | Some n \<Rightarrow> 0 \<le> n) \<and> present (ph_caption r)"

definition walk_ck :: "walk_row \<Rightarrow> bool" where
  "walk_ck r \<longleftrightarrow> idPattern (wk_id r) \<and> 0 \<le> wk_distance r \<and> wk_points r \<noteq> [] \<and> present (wk_name r)"

definition share_ck :: "share_row \<Rightarrow> bool" where
  "share_ck r \<longleftrightarrow> length (sh_hash r) = 32 \<and>
     (case sh_revoked r of None \<Rightarrow> True | Some u \<Rightarrow> sh_created r \<le> u)"

subsection \<open>Foreign keys\<close>

definition has_traveller :: "database \<Rightarrow> id \<Rightarrow> bool" where
  "has_traveller d t \<longleftrightarrow> t \<in> tv_id ` set (travellers d)"
definition has_media :: "database \<Rightarrow> id \<Rightarrow> digest \<Rightarrow> bool" where
  "has_media d t i \<longleftrightarrow> (t, i) \<in> md_key ` set (media_objects d)"
definition has_city :: "database \<Rightarrow> id \<Rightarrow> id \<Rightarrow> bool" where
  "has_city d t i \<longleftrightarrow> (t, i) \<in> ct_key ` set (cities d)"
definition has_trip :: "database \<Rightarrow> id \<Rightarrow> id \<Rightarrow> bool" where
  "has_trip d t i \<longleftrightarrow> (t, i) \<in> tr_key ` set (trips d)"
definition has_place :: "database \<Rightarrow> id \<Rightarrow> id \<Rightarrow> bool" where
  "has_place d t i \<longleftrightarrow> (t, i) \<in> pl_key ` set (places d)"
definition has_visit :: "database \<Rightarrow> id \<Rightarrow> id \<Rightarrow> bool" where
  "has_visit d t i \<longleftrightarrow> (t, i) \<in> vs_key ` set (visits d)"

definition has_photo :: "database \<Rightarrow> id \<Rightarrow> id \<Rightarrow> bool" where
  "has_photo d t i \<longleftrightarrow> (t, i) \<in> ph_key ` set (photos d)"

text \<open>A nullable reference (\<open>MATCH SIMPLE\<close>) is satisfied by null.\<close>

definition ref :: "('a \<Rightarrow> bool) \<Rightarrow> 'a option \<Rightarrow> bool" where
  "ref ok a = (case a of None \<Rightarrow> True | Some x \<Rightarrow> ok x)"

definition media_fk :: "database \<Rightarrow> media_row \<Rightarrow> bool" where
  "media_fk d r \<longleftrightarrow> has_traveller d (md_traveller r)"
definition city_fk :: "database \<Rightarrow> city_row \<Rightarrow> bool" where
  "city_fk d r \<longleftrightarrow> has_traveller d (ct_traveller r) \<and> ref (has_media d (ct_traveller r)) (ct_cover r)"
definition trip_fk :: "database \<Rightarrow> trip_row \<Rightarrow> bool" where
  "trip_fk d r \<longleftrightarrow> has_traveller d (tr_traveller r) \<and> ref (has_media d (tr_traveller r)) (tr_cover r)"
definition trip_city_fk :: "database \<Rightarrow> trip_city_row \<Rightarrow> bool" where
  "trip_city_fk d r \<longleftrightarrow> has_traveller d (tc_traveller r) \<and> has_trip d (tc_traveller r) (tc_trip r) \<and>
     has_city d (tc_traveller r) (tc_city r)"
definition place_fk :: "database \<Rightarrow> place_row \<Rightarrow> bool" where
  "place_fk d r \<longleftrightarrow> has_traveller d (pl_traveller r) \<and> has_city d (pl_traveller r) (pl_city r) \<and>
     ref (has_media d (pl_traveller r)) (pl_cover r)"
definition visit_fk :: "database \<Rightarrow> visit_row \<Rightarrow> bool" where
  "visit_fk d r \<longleftrightarrow> has_traveller d (vs_traveller r) \<and> has_place d (vs_traveller r) (vs_place r) \<and>
     has_trip d (vs_traveller r) (vs_trip r)"
definition photo_fk :: "database \<Rightarrow> photo_row \<Rightarrow> bool" where
  "photo_fk d r \<longleftrightarrow> has_traveller d (ph_traveller r) \<and> has_trip d (ph_traveller r) (ph_trip r) \<and>
     has_city d (ph_traveller r) (ph_city r) \<and> ref (has_place d (ph_traveller r)) (ph_place r) \<and>
     ref (has_visit d (ph_traveller r)) (ph_visit r) \<and> has_media d (ph_traveller r) (ph_asset r)"
definition walk_fk :: "database \<Rightarrow> walk_row \<Rightarrow> bool" where
  "walk_fk d r \<longleftrightarrow> has_traveller d (wk_traveller r) \<and> has_trip d (wk_traveller r) (wk_trip r) \<and>
     has_city d (wk_traveller r) (wk_city r)"
definition share_fk :: "database \<Rightarrow> share_row \<Rightarrow> bool" where
  "share_fk d r \<longleftrightarrow> has_traveller d (sh_traveller r) \<and> has_trip d (sh_traveller r) (sh_trip r)"

lemmas fk_defs = media_fk_def city_fk_def trip_fk_def trip_city_fk_def place_fk_def visit_fk_def
  photo_fk_def walk_fk_def share_fk_def
lemmas has_defs = has_traveller_def has_media_def has_city_def has_trip_def has_place_def
  has_visit_def

subsection \<open>The schema as an invariant\<close>

text \<open>\<open>share_links_one_live\<close>: the partial unique index over the rows that are not revoked.\<close>

definition live_slots :: "share_row list \<Rightarrow> (id \<times> id) list" where
  "live_slots rows = map (\<lambda>r. (sh_traveller r, sh_trip r)) (filter (\<lambda>r. sh_revoked r = None) rows)"

definition unique_ok :: "database \<Rightarrow> bool" where
  "unique_ok d \<longleftrightarrow>
     distinct (map tv_id (travellers d)) \<and> distinct (map md_key (media_objects d)) \<and>
     distinct (map ct_key (cities d)) \<and> distinct (map tr_key (trips d)) \<and>
     distinct (map tc_key (trip_cities d)) \<and> distinct (map tc_slot (trip_cities d)) \<and>
     distinct (map pl_key (places d)) \<and> distinct (map vs_key (visits d)) \<and>
     distinct (map vs_slot (visits d)) \<and> distinct (map ph_key (photos d)) \<and>
     distinct (map wk_key (walks d)) \<and> distinct (map sh_hash (share_links d)) \<and>
     distinct (live_slots (share_links d))"

definition checks_hold :: "database \<Rightarrow> bool" where
  "checks_hold d \<longleftrightarrow>
     list_all traveller_ck (travellers d) \<and> list_all media_ck (media_objects d) \<and>
     list_all city_ck (cities d) \<and> list_all trip_ck (trips d) \<and>
     list_all (\<lambda>r. 0 \<le> tc_ordinal r) (trip_cities d) \<and> list_all place_ck (places d) \<and>
     list_all visit_ck (visits d) \<and> list_all photo_ck (photos d) \<and>
     list_all walk_ck (walks d) \<and> list_all share_ck (share_links d)"

definition refs_hold :: "database \<Rightarrow> bool" where
  "refs_hold d \<longleftrightarrow>
     list_all (media_fk d) (media_objects d) \<and> list_all (city_fk d) (cities d) \<and>
     list_all (trip_fk d) (trips d) \<and> list_all (trip_city_fk d) (trip_cities d) \<and>
     list_all (place_fk d) (places d) \<and> list_all (visit_fk d) (visits d) \<and>
     list_all (photo_fk d) (photos d) \<and> list_all (walk_fk d) (walks d) \<and>
     list_all (share_fk d) (share_links d)"

definition schema_ok :: "database \<Rightarrow> bool" where
  "schema_ok d \<longleftrightarrow> unique_ok d \<and> checks_hold d \<and> refs_hold d"

subsection \<open>Statements\<close>

type_synonym 'a stmt = "database \<Rightarrow> db_error + 'a \<times> database"

definition check_violation :: db_error where "check_violation = SqlState ''23514''"
definition foreign_key_violation :: db_error where "foreign_key_violation = SqlState ''23503''"
definition unique_violation :: db_error where "unique_violation = SqlState ''23505''"
definition out_of_range :: db_error where "out_of_range = SqlState ''22003''"
definition cardinality_violation :: db_error where "cardinality_violation = SqlState ''21000''"

text \<open>The driver refuses to encode a parameter that does not fit the column's \<open>integer\<close> type.\<close>

definition unencodable :: db_error where "unencodable = OtherDriver"

text \<open>The server takes no text with a NUL byte: it refuses the statement that sends one.\<close>

definition character_not_in_repertoire :: db_error where
  "character_not_in_repertoire = SqlState ''22021''"

definition sendable :: "string option list \<Rightarrow> bool" where
  "sendable ts \<longleftrightarrow> list_all (\<lambda>t. case t of None \<Rightarrow> True | Some s \<Rightarrow> CHR 0x00 \<notin> set s) ts"

definition with_texts :: "string option list \<Rightarrow> ('s \<Rightarrow> db_error + 'a) \<Rightarrow> 's \<Rightarrow> db_error + 'a" where
  "with_texts ts sql s = (if sendable ts then sql s else Inl character_not_in_repertoire)"

lemma sendable_simps [simp]:
  "sendable []" "sendable (None # ts) \<longleftrightarrow> sendable ts"
  "sendable (Some s # ts) \<longleftrightarrow> CHR 0x00 \<notin> set s \<and> sendable ts"
  by (simp_all add: sendable_def)

lemma sendable_all: "sendable ts \<longleftrightarrow> (\<forall>t \<in> set ts. sendable [t])"
  by (induction ts) (auto simp: sendable_def)

lemma with_texts_Inr [simp]: "with_texts ts sql s = Inr x \<longleftrightarrow> sendable ts \<and> sql s = Inr x"
  by (simp add: with_texts_def)

text \<open>
  \<open>INSERT \<dots> ON CONFLICT ON CONSTRAINT \<dots>_pkey DO UPDATE SET \<dots>\<close> of one row. The proposed row is
  checked before the conflict is looked for, and the merged row after it: an upsert that leaves
  a column alone must still propose a legal value for it.
\<close>

definition upsert ::
  "('r \<Rightarrow> 'k) \<Rightarrow> ('r \<Rightarrow> bool) \<Rightarrow> ('r \<Rightarrow> bool) \<Rightarrow> 'r \<Rightarrow> ('r \<Rightarrow> 'r) \<Rightarrow> 'r list \<Rightarrow> db_error + 'r list" where
  "upsert key ck fk proposed merge rows =
     (if \<not> ck proposed then Inl check_violation
      else
        let r = (case List.find (\<lambda>x. key x = key proposed) rows of
                   None \<Rightarrow> proposed | Some old \<Rightarrow> merge old)
        in if \<not> ck r then Inl check_violation
           else if \<not> fk r then Inl foreign_key_violation
           else Inr (put_row key r rows))"

text \<open>
  \<open>UPDATE\<close> of the rows that satisfy \<open>p\<close>, one row at a time, against a unique index: each new
  version must not collide with the rows as they stand at that moment, the earlier ones updated
  and the later ones not.
\<close>

fun update_unique ::
  "('r \<Rightarrow> 'k) \<Rightarrow> ('r \<Rightarrow> bool) \<Rightarrow> ('r \<Rightarrow> db_error option) \<Rightarrow> ('r \<Rightarrow> 'r) \<Rightarrow> 'r list \<Rightarrow> 'r list \<Rightarrow>
   db_error + 'r list" where
  "update_unique slot p bad f before [] = Inr before"
| "update_unique slot p bad f before (r # after) =
     (if \<not> p r then update_unique slot p bad f (before @ [r]) after
      else (case bad (f r) of
              Some e \<Rightarrow> Inl e
            | None \<Rightarrow>
                if slot (f r) \<in> slot ` set (before @ after) then Inl unique_violation
                else update_unique slot p bad f (before @ [f r]) after))"

subsection \<open>What one traveller can see\<close>

definition view :: "id \<Rightarrow> database \<Rightarrow> database" where
  "view t d = d\<lparr>
     travellers := filter (\<lambda>r. tv_id r = t) (travellers d),
     media_objects := filter (\<lambda>r. md_traveller r = t) (media_objects d),
     cities := filter (\<lambda>r. ct_traveller r = t) (cities d),
     trips := filter (\<lambda>r. tr_traveller r = t) (trips d),
     trip_cities := filter (\<lambda>r. tc_traveller r = t) (trip_cities d),
     places := filter (\<lambda>r. pl_traveller r = t) (places d),
     visits := filter (\<lambda>r. vs_traveller r = t) (visits d),
     photos := filter (\<lambda>r. ph_traveller r = t) (photos d),
     walks := filter (\<lambda>r. wk_traveller r = t) (walks d),
     share_links := filter (\<lambda>r. sh_traveller r = t) (share_links d)\<rparr>"

text \<open>The tables the logbook document is made of: everything but the media objects.\<close>

definition log_view :: "id \<Rightarrow> database \<Rightarrow> database" where
  "log_view t d = (view t d)\<lparr>media_objects := []\<rparr>"

text \<open>A write of \<open>t\<close> touches nobody else's rows.\<close>

definition frame :: "id \<Rightarrow> database \<Rightarrow> database \<Rightarrow> bool" where
  "frame t d d' \<longleftrightarrow> (\<forall>u. u \<noteq> t \<longrightarrow> view u d' = view u d)"

definition same_travellers :: "database \<Rightarrow> database \<Rightarrow> bool" where
  "same_travellers d d' \<longleftrightarrow>
     map (\<lambda>r. (tv_id r, tv_version r)) (travellers d') = map (\<lambda>r. (tv_id r, tv_version r)) (travellers d)"

definition keeps_schema :: "database \<Rightarrow> database \<Rightarrow> bool" where
  "keeps_schema d d' \<longleftrightarrow> (schema_ok d \<longrightarrow> schema_ok d')"

definition version_of :: "database \<Rightarrow> id \<Rightarrow> int option" where
  "version_of d t = map_option tv_version (find_traveller d t)"

subsection \<open>Generic facts about the statements\<close>

lemma upsert_ok:
  assumes "upsert key ck fk proposed merge rows = Inr rows'"
  obtains r where "ck proposed" "ck r" "fk r" "rows' = put_row key r rows"
    "r = (case List.find (\<lambda>x. key x = key proposed) rows of None \<Rightarrow> proposed | Some old \<Rightarrow> merge old)"
  using assms by (auto simp: upsert_def Let_def split: if_splits)

lemma upsert_key:
  assumes "\<And>old. key old = key proposed \<Longrightarrow> key (merge old) = key proposed"
    and "r = (case List.find (\<lambda>x. key x = key proposed) rows of None \<Rightarrow> proposed | Some old \<Rightarrow> merge old)"
  shows "key r = key proposed"
  using assms by (auto split: option.splits dest: find_SomeD)

lemma update_unique_ok:
  assumes "update_unique slot p bad f before after = Inr rows"
  shows "rows = before @ upd_rows p f after"
  using assms
  by (induction slot p bad f before after arbitrary: rows rule: update_unique.induct)
    (auto simp: upd_rows_def split: if_splits option.splits)

lemma update_unique_distinct:
  assumes "update_unique slot p bad f before after = Inr rows"
    and "distinct (map slot (before @ after))"
  shows "distinct (map slot rows)"
  using assms
proof (induction slot p bad f before after arbitrary: rows rule: update_unique.induct)
  case (2 slot p bad f before r after)
  then show ?case by (auto simp: image_Un split: if_splits option.splits)
qed simp

lemma update_unique_bad:
  assumes "update_unique slot p bad f before after = Inr rows" and "r \<in> set after" "p r"
  shows "bad (f r) = None"
  using assms
  by (induction slot p bad f before after arbitrary: rows rule: update_unique.induct)
    (auto split: if_splits option.splits)

text \<open>
  When the new slots avoid every old slot and each other, no order of the rows can make the
  row-by-row check fail.
\<close>

lemma update_unique_succeeds:
  assumes "\<And>r. r \<in> set after \<Longrightarrow> p r \<Longrightarrow> bad (f r) = None"
    and "distinct (map slot (before @ upd_rows p f after))"
    and "\<And>r x. r \<in> set after \<Longrightarrow> p r \<Longrightarrow> x \<in> set after \<Longrightarrow> slot (f r) \<noteq> slot x"
  shows "update_unique slot p bad f before after = Inr (before @ upd_rows p f after)"
  using assms
proof (induction after arbitrary: before)
  case Nil
  then show ?case by (simp add: upd_rows_def)
next
  case (Cons r after)
  have upd: "upd_rows p f (r # after) = (if p r then f r else r) # upd_rows p f after"
    by (simp add: upd_rows_def)
  let ?r = "if p r then f r else r"
  have "update_unique slot p bad f (before @ [?r]) after = Inr ((before @ [?r]) @ upd_rows p f after)"
    by (rule Cons.IH) (use Cons.prems upd in auto)
  moreover have "slot (f r) \<notin> slot ` set (before @ after)" if "p r"
    using Cons.prems(2) Cons.prems(3) [of r] that by (auto simp: upd)
  ultimately show ?case
    using Cons.prems(1) [of r] by (auto simp: upd)
qed

lemma view_simps [simp]:
  "collate (view t d) = collate d" "to_timestamptz (view t d) = to_timestamptz d"
  "to_date (view t d) = to_date d"
  "travellers (view t d) = filter (\<lambda>r. tv_id r = t) (travellers d)"
  "media_objects (view t d) = filter (\<lambda>r. md_traveller r = t) (media_objects d)"
  "cities (view t d) = filter (\<lambda>r. ct_traveller r = t) (cities d)"
  "trips (view t d) = filter (\<lambda>r. tr_traveller r = t) (trips d)"
  "trip_cities (view t d) = filter (\<lambda>r. tc_traveller r = t) (trip_cities d)"
  "places (view t d) = filter (\<lambda>r. pl_traveller r = t) (places d)"
  "visits (view t d) = filter (\<lambda>r. vs_traveller r = t) (visits d)"
  "photos (view t d) = filter (\<lambda>r. ph_traveller r = t) (photos d)"
  "walks (view t d) = filter (\<lambda>r. wk_traveller r = t) (walks d)"
  "share_links (view t d) = filter (\<lambda>r. sh_traveller r = t) (share_links d)"
  by (simp_all add: view_def)

lemma view_eqI:
  assumes "collate d' = collate d" "to_timestamptz d' = to_timestamptz d" "to_date d' = to_date d"
    "filter (\<lambda>r. tv_id r = t) (travellers d') = filter (\<lambda>r. tv_id r = t) (travellers d)"
    "filter (\<lambda>r. md_traveller r = t) (media_objects d') = filter (\<lambda>r. md_traveller r = t) (media_objects d)"
    "filter (\<lambda>r. ct_traveller r = t) (cities d') = filter (\<lambda>r. ct_traveller r = t) (cities d)"
    "filter (\<lambda>r. tr_traveller r = t) (trips d') = filter (\<lambda>r. tr_traveller r = t) (trips d)"
    "filter (\<lambda>r. tc_traveller r = t) (trip_cities d') = filter (\<lambda>r. tc_traveller r = t) (trip_cities d)"
    "filter (\<lambda>r. pl_traveller r = t) (places d') = filter (\<lambda>r. pl_traveller r = t) (places d)"
    "filter (\<lambda>r. vs_traveller r = t) (visits d') = filter (\<lambda>r. vs_traveller r = t) (visits d)"
    "filter (\<lambda>r. ph_traveller r = t) (photos d') = filter (\<lambda>r. ph_traveller r = t) (photos d)"
    "filter (\<lambda>r. wk_traveller r = t) (walks d') = filter (\<lambda>r. wk_traveller r = t) (walks d)"
    "filter (\<lambda>r. sh_traveller r = t) (share_links d') = filter (\<lambda>r. sh_traveller r = t) (share_links d)"
  shows "view t d' = view t d"
  using assms by (cases d; cases d') (simp add: view_def)

lemma find_traveller_view: "find_traveller (view t d) t = find_traveller d t"
  by (simp add: find_traveller_def find_cong_filter)

lemma version_of_view: "version_of (view t d) t = version_of d t"
  by (simp add: version_of_def find_traveller_view)

lemma version_of_log_view: "version_of (log_view t d) t = version_of d t"
  using version_of_view [of t d] by (simp add: version_of_def log_view_def find_traveller_def)

end
