(* ===== verification/Transaction.thy ===== *)
theory Transaction
  imports Database
begin

section \<open>Transactions (\<^verbatim>\<open>internal/postgres/tx.go\<close>, \<^verbatim>\<open>read_tx.go\<close>)\<close>

text \<open>
  A piece of store code runs against the database and a schedule of driver faults: each SQL call
  consumes one entry and fails when the entry says so, so every \<open>if err != nil\<close> of the source is
  a branch of the model. An empty schedule is a run in which the driver never fails. A statement
  that violates a constraint fails as well. A fault while the rows of one query are scanned is
  the fault of that query.

  \<open>WithTravellerTx\<close> begins, takes the traveller's advisory lock, bumps \<open>logbook_version\<close>, runs the
  body and commits; any error rolls everything back. A commit can also fail after the server has
  committed (\<open>AckLost\<close>): the caller sees an error and the write is there. The advisory lock makes
  the writes of one traveller run one after another, so a store operation is one atomic step.

  The locale \<open>tx_preorder\<close> is the interface the invariant proofs use: a reflexive and transitive
  relation on databases is kept by a body when it is kept by each of its statements.
\<close>

datatype fault = Fails db_error | AckLost db_error

fun fault_error :: "fault \<Rightarrow> db_error" where
  "fault_error (Fails e) = e"
| "fault_error (AckLost e) = e"

record txs =
  tx_db :: database
  tx_faults :: "fault option list"

type_synonym 'a tx = "txs \<Rightarrow> (error + 'a) \<times> txs"

subsection \<open>Sequencing\<close>

definition t_return :: "'a \<Rightarrow> 'a tx" where
  "t_return x s = (Inr x, s)"

definition t_lift :: "error + 'a \<Rightarrow> 'a tx" where
  "t_lift r s = (r, s)"

definition t_bind :: "'a tx \<Rightarrow> ('a \<Rightarrow> 'b tx) \<Rightarrow> 'b tx" where
  "t_bind m f s = (case m s of (Inl e, s') \<Rightarrow> (Inl e, s') | (Inr x, s') \<Rightarrow> f x s')"

definition next_fault :: "txs \<Rightarrow> fault option \<times> txs" where
  "next_fault s =
     (case tx_faults s of [] \<Rightarrow> (None, s) | f # fs \<Rightarrow> (f, s\<lparr>tx_faults := fs\<rparr>))"

definition t_sql :: "'a stmt \<Rightarrow> 'a tx" where
  "t_sql st s =
     (case next_fault s of
        (Some f, s') \<Rightarrow> (Inl (ErrDB (fault_error f)), s')
      | (None, s') \<Rightarrow>
          (case st (tx_db s') of
             Inl e \<Rightarrow> (Inl (ErrDB e), s')
           | Inr (x, d) \<Rightarrow> (Inr x, s'\<lparr>tx_db := d\<rparr>)))"

definition t_query :: "(database \<Rightarrow> 'a) \<Rightarrow> 'a tx" where
  "t_query q = t_sql (\<lambda>d. Inr (q d, d))"

definition t_exec :: "(database \<Rightarrow> db_error + database) \<Rightarrow> unit tx" where
  "t_exec st = t_sql (\<lambda>d. case st d of Inl e \<Rightarrow> Inl e | Inr d' \<Rightarrow> Inr ((), d'))"

text \<open>A \<open>for\<close> loop that stops at the first error.\<close>

fun t_each :: "('a \<Rightarrow> unit tx) \<Rightarrow> 'a list \<Rightarrow> unit tx" where
  "t_each f [] = t_return ()"
| "t_each f (x # xs) = t_bind (f x) (\<lambda>_. t_each f xs)"

subsection \<open>The helpers\<close>

definition lockTraveller :: "id \<Rightarrow> unit tx" where
  "lockTraveller travellerID = t_query (\<lambda>_. ())"

text \<open>\<open>logbook_version\<close> is a \<open>bigint\<close>: the increment past its range is refused.\<close>

definition bumpSQL :: "id \<Rightarrow> int option stmt" where
  "bumpSQL t d =
     (case find_traveller d t of
        None \<Rightarrow> Inr (None, d)
      | Some r \<Rightarrow>
          if tv_version r + 1 < 2 ^ 63
          then Inr (Some (tv_version r + 1),
                    d\<lparr>travellers := upd_rows (\<lambda>x. tv_id x = t) (\<lambda>x. x\<lparr>tv_version := tv_version x + 1\<rparr>)
                        (travellers d)\<rparr>)
          else Inl out_of_range)"

definition bump :: "id \<Rightarrow> int tx" where
  "bump t = t_bind (t_sql (bumpSQL t)) (\<lambda>v. t_lift (case v of None \<Rightarrow> Inl ErrNoTraveller | Some n \<Rightarrow> Inr n))"

definition requireTraveller :: "id \<Rightarrow> unit tx" where
  "requireTraveller t =
     t_bind (t_query (\<lambda>d. has_traveller d t)) (\<lambda>held. t_lift (guard (\<not> held) ErrNoTraveller))"

text \<open>\<open>defer tx.Rollback()\<close> and \<open>tx.Commit()\<close>.\<close>

definition commit_or_rollback :: "database \<Rightarrow> (error + 'a) \<times> txs \<Rightarrow> (error + 'a) \<times> txs" where
  "commit_or_rollback d0 res =
     (case res of
        (Inl e, s) \<Rightarrow> (Inl e, s\<lparr>tx_db := d0\<rparr>)
      | (Inr x, s) \<Rightarrow>
          (case next_fault s of
             (None, s') \<Rightarrow> (Inr x, s')
           | (Some (Fails e), s') \<Rightarrow> (Inl (ErrDB e), s'\<lparr>tx_db := d0\<rparr>)
           | (Some (AckLost e), s') \<Rightarrow> (Inl (ErrDB e), s')))"

definition WithTravellerTx :: "id \<Rightarrow> 'a tx \<Rightarrow> ('a \<times> int) tx" where
  "WithTravellerTx t fn s =
     commit_or_rollback (tx_db s)
       (t_bind (t_query (\<lambda>_. ())) (\<lambda>_.
        t_bind (lockTraveller t) (\<lambda>_.
        t_bind (bump t) (\<lambda>version.
        t_bind fn (\<lambda>x. t_return (x, version))))) s)"

definition WithTravellerLock :: "id \<Rightarrow> 'a tx \<Rightarrow> 'a tx" where
  "WithTravellerLock t fn s =
     commit_or_rollback (tx_db s)
       (t_bind (t_query (\<lambda>_. ())) (\<lambda>_.
        t_bind (lockTraveller t) (\<lambda>_.
        t_bind (requireTraveller t) (\<lambda>_. fn))) s)"

text \<open>A read-only transaction: whatever happens, the database is as it was.\<close>

definition WithReadSnapshot :: "id \<Rightarrow> (int \<Rightarrow> 'a tx) \<Rightarrow> 'a tx" where
  "WithReadSnapshot t fn s =
     (case t_bind (t_query (\<lambda>_. ())) (\<lambda>_.
           t_bind (t_query (\<lambda>d. version_of d t)) (\<lambda>v.
             case v of None \<Rightarrow> t_lift (Inl ErrNoTraveller) | Some n \<Rightarrow> fn n)) s of
        (r, s') \<Rightarrow> (r, s'\<lparr>tx_db := tx_db s\<rparr>))"

subsection \<open>Relations kept by a body\<close>

definition tx_rel :: "(database \<Rightarrow> database \<Rightarrow> bool) \<Rightarrow> 'a tx \<Rightarrow> bool" where
  "tx_rel R m \<longleftrightarrow> (\<forall>s. R (tx_db s) (tx_db (snd (m s))))"

lemma next_fault_db: "next_fault s = (f, s') \<Longrightarrow> tx_db s' = tx_db s"
  by (auto simp: next_fault_def split: list.splits)

lemma next_fault_nil [simp]: "tx_faults s = [] \<Longrightarrow> next_fault s = (None, s)"
  by (simp add: next_fault_def)

lemma t_sql_cases:
  "t_sql st s = (r, s') \<Longrightarrow>
     (\<exists>e. r = Inl (ErrDB e) \<and> tx_db s' = tx_db s) \<or>
     (\<exists>x d. r = Inr x \<and> st (tx_db s) = Inr (x, d) \<and> tx_db s' = d)"
  by (auto simp: t_sql_def dest!: next_fault_db split: prod.splits option.splits sum.splits)

locale tx_preorder =
  fixes R :: "database \<Rightarrow> database \<Rightarrow> bool"
  assumes R_refl: "R d d"
    and R_trans: "R d d' \<Longrightarrow> R d' d'' \<Longrightarrow> R d d''"
begin

lemma rel_return [rel_intros]: "tx_rel R (t_return x)"
  by (simp add: tx_rel_def t_return_def R_refl)

lemma rel_lift [rel_intros]: "tx_rel R (t_lift r)"
  by (simp add: tx_rel_def t_lift_def R_refl)

lemma rel_bind [rel_intros]:
  assumes "tx_rel R m" and "\<And>x. tx_rel R (f x)"
  shows "tx_rel R (t_bind m f)"
  unfolding tx_rel_def
proof
  fix s
  obtain r s' where m: "m s = (r, s')" by (cases "m s")
  with assms(1) have one: "R (tx_db s) (tx_db s')" by (metis tx_rel_def snd_conv)
  show "R (tx_db s) (tx_db (snd (t_bind m f s)))"
  proof (cases r)
    case (Inl e)
    with m one show ?thesis by (simp add: t_bind_def)
  next
    case (Inr x)
    from assms(2) have "R (tx_db s') (tx_db (snd (f x s')))" by (simp add: tx_rel_def)
    with one have "R (tx_db s) (tx_db (snd (f x s')))" by (rule R_trans)
    with m Inr show ?thesis by (simp add: t_bind_def)
  qed
qed

lemma rel_sql:
  assumes "\<And>d x d'. st d = Inr (x, d') \<Longrightarrow> R d d'"
  shows "tx_rel R (t_sql st)"
  unfolding tx_rel_def
proof
  fix s
  obtain r s' where "t_sql st s = (r, s')" by (cases "t_sql st s")
  with t_sql_cases [OF this] show "R (tx_db s) (tx_db (snd (t_sql st s)))"
    using assms R_refl by auto
qed

lemma rel_query [rel_intros]: "tx_rel R (t_query q)"
  unfolding t_query_def by (rule rel_sql) (auto simp: R_refl)

lemma rel_exec:
  assumes "\<And>d d'. st d = Inr d' \<Longrightarrow> R d d'"
  shows "tx_rel R (t_exec st)"
  unfolding t_exec_def by (rule rel_sql) (auto split: sum.splits intro: assms)

lemma rel_each [rel_intros]:
  assumes "\<And>x. tx_rel R (f x)"
  shows "tx_rel R (t_each f xs)"
proof (induction xs)
  case (Cons x xs)
  then show ?case by (simp add: rel_bind assms)
qed (simp add: rel_return)

lemma rel_if [rel_intros]: "tx_rel R m \<Longrightarrow> tx_rel R m' \<Longrightarrow> tx_rel R (if b then m else m')"
  by simp

lemma rel_option [rel_intros]:
  assumes "tx_rel R m" and "\<And>x. tx_rel R (f x)"
  shows "tx_rel R (case p of None \<Rightarrow> m | Some x \<Rightarrow> f x)"
  using assms by (cases p) simp_all

lemma rel_prod [rel_intros]:
  assumes "\<And>a b. tx_rel R (f a b)"
  shows "tx_rel R (case p of (a, b) \<Rightarrow> f a b)"
  using assms by (cases p) simp

end

text \<open>
  What every statement of a body run for \<open>t\<close> owes: nobody else's rows change, the version column
  is left to the bump, and the schema's constraints still hold.
\<close>

definition sound :: "id \<Rightarrow> database \<Rightarrow> database \<Rightarrow> bool" where
  "sound t d d' \<longleftrightarrow> frame t d d' \<and> same_travellers d d' \<and> keeps_schema d d'"

interpretation sound: tx_preorder "sound t" for t
  by unfold_locales (auto simp: sound_def frame_def same_travellers_def keeps_schema_def)

lemma soundI:
  "frame t d d' \<Longrightarrow> same_travellers d d' \<Longrightarrow> (schema_ok d \<Longrightarrow> schema_ok d') \<Longrightarrow> sound t d d'"
  by (simp add: sound_def keeps_schema_def)

subsection \<open>What a finished transaction did\<close>

lemma t_bind_Inr:
  "t_bind m f s = (Inr y, s') \<longleftrightarrow> (\<exists>x s1. m s = (Inr x, s1) \<and> f x s1 = (Inr y, s'))"
  by (auto simp: t_bind_def split: prod.splits sum.splits)

lemma t_query_Inr: "t_query q s = (Inr x, s') \<Longrightarrow> x = q (tx_db s) \<and> tx_db s' = tx_db s"
  unfolding t_query_def by (auto dest: t_sql_cases)

lemma t_exec_Inr: "t_exec st s = (Inr x, s') \<Longrightarrow> st (tx_db s) = Inr (tx_db s')"
  unfolding t_exec_def by (auto dest!: t_sql_cases split: sum.splits)

lemma t_lift_Inr [simp]: "t_lift r s = (Inr x, s') \<longleftrightarrow> r = Inr x \<and> s' = s"
  by (auto simp: t_lift_def)

lemma t_return_Inr [simp]: "t_return y s = (Inr x, s') \<longleftrightarrow> x = y \<and> s' = s"
  by (auto simp: t_return_def)

lemma commit_or_rollback_cases:
  assumes "commit_or_rollback d0 res = (r, s')"
  shows "(\<exists>e. r = Inl e \<and> tx_db s' = d0) \<or>
     (\<exists>x s e. res = (Inr x, s) \<and> r = Inl (ErrDB e) \<and> tx_db s' = tx_db s) \<or>
     (\<exists>x s. res = (Inr x, s) \<and> r = Inr x \<and> tx_db s' = tx_db s)"
  using assms
  by (auto simp: commit_or_rollback_def dest: next_fault_db
      split: prod.splits sum.splits option.splits fault.splits)

definition bumped :: "id \<Rightarrow> database \<Rightarrow> database" where
  "bumped t d = d\<lparr>travellers :=
     upd_rows (\<lambda>x. tv_id x = t) (\<lambda>x. x\<lparr>tv_version := tv_version x + 1\<rparr>) (travellers d)\<rparr>"

lemma bump_Inr:
  assumes "bump t s = (Inr v, s')"
  shows "version_of (tx_db s) t = Some (v - 1) \<and> v < 2 ^ 63 \<and> tx_db s' = bumped t (tx_db s)"
proof -
  from assms obtain o1 where sql: "t_sql (bumpSQL t) s = (Inr o1, s')" and "o1 = Some v"
    by (auto simp: bump_def t_bind_Inr split: option.splits)
  with t_sql_cases [OF sql] have "bumpSQL t (tx_db s) = Inr (Some v, tx_db s')" by simp
  then show ?thesis
    by (simp add: bumpSQL_def bumped_def version_of_def split: option.splits if_splits)
qed

text \<open>
  A write ends in one of three ways: an error and the database as it was; success, the version
  one above the old one and the body run on the bumped database; or an error from a commit that
  the server had in fact performed.
\<close>

definition wrote :: "id \<Rightarrow> 'a tx \<Rightarrow> database \<Rightarrow> 'a \<Rightarrow> int \<Rightarrow> database \<Rightarrow> bool" where
  "wrote t fn d x v d' \<longleftrightarrow>
     version_of d t = Some (v - 1) \<and> v < 2 ^ 63 \<and>
     (\<exists>s1 s2. tx_db s1 = bumped t d \<and> fn s1 = (Inr x, s2) \<and> d' = tx_db s2)"

lemma WithTravellerTx_cases:
  assumes "WithTravellerTx t fn s = (r, s')"
  shows "(\<exists>e. r = Inl e \<and> tx_db s' = tx_db s) \<or>
     (\<exists>e x v. r = Inl (ErrDB e) \<and> wrote t fn (tx_db s) x v (tx_db s')) \<or>
     (\<exists>x v. r = Inr (x, v) \<and> wrote t fn (tx_db s) x v (tx_db s'))"
proof -
  let ?body = "t_bind (t_query (\<lambda>_. ())) (\<lambda>_. t_bind (lockTraveller t) (\<lambda>_.
     t_bind (bump t) (\<lambda>version. t_bind fn (\<lambda>x. t_return (x, version))))) s"
  have "wrote t fn (tx_db s) x v (tx_db s2)" if body: "?body = (Inr (x, v), s2)" for x v s2
  proof -
    from body obtain s0 s1 s3 where
      "tx_db s0 = tx_db s" "bump t s0 = (Inr v, s1)" "fn s1 = (Inr x, s3)" "s3 = s2"
      by (auto simp: t_bind_Inr lockTraveller_def dest!: t_query_Inr)
    then show ?thesis
      using bump_Inr [of t s0 v s1] unfolding wrote_def by auto
  qed
  moreover have "commit_or_rollback (tx_db s) ?body = (r, s')"
    using assms by (simp add: WithTravellerTx_def)
  ultimately show ?thesis
    using commit_or_rollback_cases [of "tx_db s" ?body r s'] by force
qed

lemma WithTravellerLock_cases:
  assumes "WithTravellerLock t fn s = (r, s')"
  shows "(\<exists>e. r = Inl e \<and> tx_db s' = tx_db s) \<or>
     (\<exists>e x s1 s2. r = Inl (ErrDB e) \<and> tx_db s1 = tx_db s \<and> has_traveller (tx_db s) t \<and>
        fn s1 = (Inr x, s2) \<and> tx_db s' = tx_db s2) \<or>
     (\<exists>x s1 s2. r = Inr x \<and> tx_db s1 = tx_db s \<and> has_traveller (tx_db s) t \<and>
        fn s1 = (Inr x, s2) \<and> tx_db s' = tx_db s2)"
proof -
  let ?body = "t_bind (t_query (\<lambda>_. ())) (\<lambda>_. t_bind (lockTraveller t) (\<lambda>_.
     t_bind (requireTraveller t) (\<lambda>_. fn))) s"
  have "\<exists>s1. tx_db s1 = tx_db s \<and> has_traveller (tx_db s) t \<and> fn s1 = (Inr x, s2)"
    if "?body = (Inr x, s2)" for x s2
    using that
    by (auto simp: t_bind_Inr lockTraveller_def requireTraveller_def dest!: t_query_Inr)
  moreover have "commit_or_rollback (tx_db s) ?body = (r, s')"
    using assms by (simp add: WithTravellerLock_def)
  ultimately show ?thesis
    using commit_or_rollback_cases [of "tx_db s" ?body r s'] by blast
qed

lemma WithReadSnapshot_db [simp]: "tx_db (snd (WithReadSnapshot t fn s)) = tx_db s"
  by (simp add: WithReadSnapshot_def split: prod.splits)

subsection \<open>The bump itself\<close>

lemma bumped_simps [simp]:
  "collate (bumped t d) = collate d" "to_timestamptz (bumped t d) = to_timestamptz d"
  "to_date (bumped t d) = to_date d" "media_objects (bumped t d) = media_objects d"
  "cities (bumped t d) = cities d" "trips (bumped t d) = trips d"
  "trip_cities (bumped t d) = trip_cities d" "places (bumped t d) = places d"
  "visits (bumped t d) = visits d" "photos (bumped t d) = photos d"
  "walks (bumped t d) = walks d" "share_links (bumped t d) = share_links d"
  by (simp_all add: bumped_def)

lemma frame_bumped: "frame t d (bumped t d)"
  by (auto simp: frame_def bumped_def intro!: view_eqI filter_upd_rows_other)

lemma has_bumped [simp]:
  "has_traveller (bumped t d) = has_traveller d" "has_media (bumped t d) = has_media d"
  "has_city (bumped t d) = has_city d" "has_trip (bumped t d) = has_trip d"
  "has_place (bumped t d) = has_place d" "has_visit (bumped t d) = has_visit d"
proof -
  have "map tv_id (travellers (bumped t d)) = map tv_id (travellers d)"
    by (simp add: bumped_def map_upd_rows)
  then have "tv_id ` set (travellers (bumped t d)) = tv_id ` set (travellers d)"
    by (metis set_map)
  then show "has_traveller (bumped t d) = has_traveller d"
    by (simp add: has_defs fun_eq_iff)
qed (simp_all add: has_defs fun_eq_iff)

lemma fk_bumped [simp]:
  "media_fk (bumped t d) = media_fk d" "city_fk (bumped t d) = city_fk d"
  "trip_fk (bumped t d) = trip_fk d" "trip_city_fk (bumped t d) = trip_city_fk d"
  "place_fk (bumped t d) = place_fk d" "visit_fk (bumped t d) = visit_fk d"
  "photo_fk (bumped t d) = photo_fk d" "walk_fk (bumped t d) = walk_fk d"
  "share_fk (bumped t d) = share_fk d"
  by (simp_all add: fk_defs fun_eq_iff)

lemma schema_bumped: "schema_ok d \<Longrightarrow> schema_ok (bumped t d)"
proof -
  assume ok: "schema_ok d"
  have "map tv_id (travellers (bumped t d)) = map tv_id (travellers d)"
    by (simp add: bumped_def map_upd_rows)
  moreover have "list_all traveller_ck (travellers (bumped t d))"
    using ok by (auto simp: schema_ok_def checks_hold_def bumped_def list_all_iff set_upd_rows
        traveller_ck_def)
  ultimately show ?thesis
    using ok by (simp add: schema_ok_def unique_ok_def checks_hold_def refs_hold_def)
qed

lemma find_upd_rows:
  assumes "\<And>r. p r \<Longrightarrow> p (f r)"
  shows "List.find p (upd_rows p f rows) = map_option f (List.find p rows)"
  using assms by (induction rows) (auto simp: upd_rows_def)

lemma version_of_bumped: "version_of (bumped t d) t = map_option (\<lambda>v. v + 1) (version_of d t)"
  by (simp add: version_of_def bumped_def find_traveller_def find_upd_rows option.map_comp comp_def)

lemma version_of_map_of:
  "version_of d t = map_of (map (\<lambda>r. (tv_id r, tv_version r)) (travellers d)) t"
proof -
  have "map_option tv_version (List.find (\<lambda>r. tv_id r = t) rows) =
      map_of (map (\<lambda>r. (tv_id r, tv_version r)) rows) t" for rows
    by (induction rows) auto
  then show ?thesis by (simp add: version_of_def find_traveller_def)
qed

lemma version_of_same: "same_travellers d d' \<Longrightarrow> version_of d' t = version_of d t"
  by (simp add: version_of_map_of same_travellers_def)

subsection \<open>Outcomes\<close>

text \<open>The database after a write of \<open>t\<close> that was committed.\<close>

definition advances :: "id \<Rightarrow> database \<Rightarrow> database \<Rightarrow> bool" where
  "advances t d d' \<longleftrightarrow> frame t d d' \<and> keeps_schema d d' \<and>
     (\<exists>v. version_of d t = Some v \<and> version_of d' t = Some (v + 1))"

lemma wrote_advances:
  assumes "tx_rel (sound t) fn" "wrote t fn d x v d'"
  shows "advances t d d' \<and> version_of d t = Some (v - 1) \<and> version_of d' t = Some v"
proof -
  from assms(2) obtain s1 s2 where run: "version_of d t = Some (v - 1)" "tx_db s1 = bumped t d"
    "fn s1 = (Inr x, s2)" "d' = tx_db s2"
    by (auto simp: wrote_def)
  with assms(1) have body: "sound t (bumped t d) d'" by (metis tx_rel_def snd_conv)
  then have "frame t d d'"
    using frame_bumped [of t d] by (auto simp: sound_def frame_def)
  moreover have "version_of d' t = Some v"
    using body run(1) version_of_same [of "bumped t d" d' t]
    by (simp add: sound_def version_of_bumped)
  moreover have "keeps_schema d d'"
    using body schema_bumped by (auto simp: sound_def keeps_schema_def)
  ultimately show ?thesis using run(1) by (simp add: advances_def)
qed

lemma WithTravellerTx_outcome:
  assumes "tx_rel (sound t) fn" and "WithTravellerTx t fn s = (r, s')"
  shows "tx_db s' = tx_db s \<and> isl r \<or>
     advances t (tx_db s) (tx_db s') \<and>
       (case r of Inl e \<Rightarrow> \<exists>de. e = ErrDB de | Inr (x, v) \<Rightarrow> version_of (tx_db s') t = Some v)"
  using WithTravellerTx_cases [OF assms(2)] wrote_advances [OF assms(1)]
  by (auto split: sum.splits)

lemma WithTravellerTx_Inr:
  assumes "WithTravellerTx t fn s = (Inr (x, v), s')"
  shows "wrote t fn (tx_db s) x v (tx_db s')"
  using WithTravellerTx_cases [OF assms] by auto

lemma WithTravellerLock_Inr:
  assumes "WithTravellerLock t fn s = (Inr x, s')"
  obtains s1 s2 where "tx_db s1 = tx_db s" "fn s1 = (Inr x, s2)" "tx_db s' = tx_db s2"
  using WithTravellerLock_cases [OF assms] by auto

text \<open>An operation on behalf of \<open>t\<close>: it leaves the database alone, or commits one write.\<close>

definition write_op :: "id \<Rightarrow> 'a tx \<Rightarrow> bool" where
  "write_op t m \<longleftrightarrow> (\<forall>s r s'. m s = (r, s') \<longrightarrow>
     tx_db s' = tx_db s \<or>
     advances t (tx_db s) (tx_db s') \<and> (\<forall>e. r = Inl e \<longrightarrow> (\<exists>de. e = ErrDB de)))"

lemma write_op_tx: "tx_rel (sound t) fn \<Longrightarrow> write_op t (WithTravellerTx t fn)"
  unfolding write_op_def using WithTravellerTx_outcome
  by (fastforce split: sum.splits)

lemma write_op_guarded:
  assumes "\<And>x. r = Inr x \<Longrightarrow> write_op t (f x)"
  shows "write_op t (t_bind (t_lift r) f)"
  using assms by (cases r) (auto simp: write_op_def t_bind_def t_lift_def)

lemma write_op_return:
  assumes "write_op t m"
  shows "write_op t (t_bind m (\<lambda>x. t_return (f x)))"
  using assms unfolding write_op_def t_bind_def t_return_def
  by (fastforce split: prod.splits sum.splits)

subsection \<open>Which errors a body can raise\<close>

definition raises :: "error set \<Rightarrow> 'a tx \<Rightarrow> bool" where
  "raises E m \<longleftrightarrow> (\<forall>s e. fst (m s) = Inl e \<longrightarrow> e \<in> E)"

lemma raisesD: "raises E m \<Longrightarrow> m s = (Inl e, s') \<Longrightarrow> e \<in> E"
  by (metis raises_def fst_conv)

lemma raises_bind:
  assumes "raises E m" "\<And>x. raises E (f x)"
  shows "raises E (t_bind m f)"
  unfolding raises_def
proof (intro allI impI)
  fix s e
  assume err: "fst (t_bind m f s) = Inl e"
  obtain r s1 where m: "m s = (r, s1)" by (cases "m s")
  show "e \<in> E"
  proof (cases r)
    case (Inl e1)
    with err m have "fst (m s) = Inl e" by (simp add: t_bind_def)
    with assms(1) show ?thesis by (simp add: raises_def)
  next
    case (Inr x)
    with err m have "fst (f x s1) = Inl e" by (simp add: t_bind_def)
    with assms(2) show ?thesis by (auto simp: raises_def)
  qed
qed

lemma raises_sql: "range ErrDB \<subseteq> E \<Longrightarrow> raises E (t_sql st)"
  by (auto simp: raises_def t_sql_def split: prod.splits option.splits sum.splits)

lemma raises_query: "range ErrDB \<subseteq> E \<Longrightarrow> raises E (t_query q)"
  by (simp add: t_query_def raises_sql)

lemma raises_exec: "range ErrDB \<subseteq> E \<Longrightarrow> raises E (t_exec st)"
  by (simp add: t_exec_def raises_sql)

lemma raises_return: "raises E (t_return x)"
  by (simp add: raises_def t_return_def)

lemma raises_lift: "(\<And>e. r = Inl e \<Longrightarrow> e \<in> E) \<Longrightarrow> raises E (t_lift r)"
  by (auto simp: raises_def t_lift_def)

lemma raises_each:
  assumes "\<And>x. raises E (f x)"
  shows "raises E (t_each f xs)"
  by (induction xs) (simp_all add: raises_return raises_bind assms)

lemmas raises_intros = raises_bind raises_sql raises_query raises_exec raises_return raises_lift
  raises_each

subsection \<open>Runs without a driver fault\<close>

definition calm :: "database \<Rightarrow> txs" where
  "calm d = \<lparr>tx_db = d, tx_faults = []\<rparr>"

lemma calm_simps [simp]:
  "tx_db (calm d) = d" "tx_faults (calm d) = []" "next_fault (calm d) = (None, calm d)"
  "(calm d)\<lparr>tx_db := d'\<rparr> = calm d'" "calm d = calm d' \<longleftrightarrow> d = d'"
  by (simp_all add: calm_def next_fault_def)

lemma t_query_calm [simp]: "t_query q (calm d) = (Inr (q d), calm d)"
  by (simp add: t_query_def t_sql_def)

lemma t_sql_calm:
  "t_sql st (calm d) =
     (case st d of Inl e \<Rightarrow> (Inl (ErrDB e), calm d) | Inr (x, d') \<Rightarrow> (Inr x, calm d'))"
  by (simp add: t_sql_def split: sum.splits)

lemma t_exec_calm [simp]:
  "t_exec st (calm d) =
     (case st d of Inl e \<Rightarrow> (Inl (ErrDB e), calm d) | Inr d' \<Rightarrow> (Inr (), calm d'))"
  by (simp add: t_exec_def t_sql_calm split: sum.splits)

lemma t_bind_step: "m s = (Inr x, s') \<Longrightarrow> t_bind m f s = f x s'"
  by (simp add: t_bind_def)

lemma t_bind_stop: "m s = (Inl e, s') \<Longrightarrow> t_bind m f s = (Inl e, s')"
  by (simp add: t_bind_def)

lemma bump_calm:
  assumes "version_of d t = Some v" "v + 1 < 2 ^ 63"
  shows "bump t (calm d) = (Inr (v + 1), calm (bumped t d))"
proof -
  obtain r where "find_traveller d t = Some r" "tv_version r = v"
    using assms(1) by (auto simp: version_of_def)
  with assms(2) show ?thesis
    by (simp add: bump_def t_bind_def t_sql_calm bumpSQL_def bumped_def t_lift_def)
qed

text \<open>A traveller who exists and whose version can still grow.\<close>

definition open_for :: "id \<Rightarrow> database \<Rightarrow> bool" where
  "open_for t d \<longleftrightarrow> (case version_of d t of None \<Rightarrow> False | Some v \<Rightarrow> v + 1 < 2 ^ 63)"

lemma WithTravellerTx_calm:
  assumes "open_for t d"
  shows "WithTravellerTx t fn (calm d) =
     (case fn (calm (bumped t d)) of
        (Inl e, s) \<Rightarrow> (Inl e, s\<lparr>tx_db := d\<rparr>)
      | (Inr x, s) \<Rightarrow> commit_or_rollback d (Inr (x, the (version_of d t) + 1), s))"
proof -
  obtain v where "version_of d t = Some v" "v + 1 < 2 ^ 63"
    using assms by (auto simp: open_for_def split: option.splits)
  then have "bump t (calm d) = (Inr (v + 1), calm (bumped t d))" by (rule bump_calm)
  then have "t_bind (bump t) (\<lambda>version. t_bind fn (\<lambda>x. t_return (x, version))) (calm d) =
      t_bind fn (\<lambda>x. t_return (x, v + 1)) (calm (bumped t d))"
    by (simp add: t_bind_def)
  with \<open>version_of d t = Some v\<close> show ?thesis
    by (auto simp: WithTravellerTx_def lockTraveller_def t_bind_step t_bind_def t_return_def
        commit_or_rollback_def split: prod.splits sum.splits)
qed

lemma WithTravellerTx_calm_Inr:
  assumes "open_for t d" "fn (calm (bumped t d)) = (Inr x, calm d')"
  shows "WithTravellerTx t fn (calm d) = (Inr (x, the (version_of d t) + 1), calm d')"
  using assms by (simp add: WithTravellerTx_calm commit_or_rollback_def)

lemma WithTravellerTx_calm_Inl:
  assumes "open_for t d" "fn (calm (bumped t d)) = (Inl e, calm d')"
  shows "WithTravellerTx t fn (calm d) = (Inl e, calm d)"
  using assms by (simp add: WithTravellerTx_calm)

end
