(* ===== verification/Schema.thy ===== *)
theory Schema
  imports Transaction
begin

section \<open>Statements that delete, and what every statement keeps\<close>

text \<open>
  The \<open>ON DELETE\<close> actions of the schema, as the statements that trigger them see them: a visit
  that goes clears \<open>visit_id\<close> on the photographs filed to it and clears nothing else; a place
  takes its visits and clears \<open>place_id\<close>; a trip takes its itinerary, visits, photographs, walks
  and share links. Then the lemmas the invariant proofs use: writing one checked row keeps the
  schema, deleting with the cascades keeps it, and a statement that writes rows of one traveller
  keeps everybody else's.
\<close>

subsection \<open>Cascades\<close>

definition filed_to :: "(visit_row \<Rightarrow> bool) \<Rightarrow> visit_row list \<Rightarrow> photo_row \<Rightarrow> bool" where
  "filed_to p vs f =
     list_ex (\<lambda>v. p v \<and> vs_traveller v = ph_traveller f \<and> ph_visit f = Some (vs_id v)) vs"

definition drop_visits :: "(visit_row \<Rightarrow> bool) \<Rightarrow> database \<Rightarrow> database" where
  "drop_visits p d = d\<lparr>
     visits := del_rows p (visits d),
     photos := upd_rows (filed_to p (visits d)) (\<lambda>f. f\<lparr>ph_visit := None\<rparr>) (photos d)\<rparr>"

definition delete_place :: "id \<Rightarrow> id \<Rightarrow> database \<Rightarrow> database" where
  "delete_place t i d =
     (let d1 = drop_visits (\<lambda>v. vs_traveller v = t \<and> vs_place v = i) d in d1\<lparr>
        places := del_rows (\<lambda>r. pl_key r = (t, i)) (places d1),
        photos := upd_rows (\<lambda>f. ph_traveller f = t \<and> ph_place f = Some i)
          (\<lambda>f. f\<lparr>ph_place := None\<rparr>) (photos d1)\<rparr>)"

definition delete_trip :: "id \<Rightarrow> id \<Rightarrow> database \<Rightarrow> database" where
  "delete_trip t i d =
     (let d1 = drop_visits (\<lambda>v. vs_traveller v = t \<and> vs_trip v = i) d in d1\<lparr>
        trips := del_rows (\<lambda>r. tr_key r = (t, i)) (trips d1),
        trip_cities := del_rows (\<lambda>r. tc_traveller r = t \<and> tc_trip r = i) (trip_cities d1),
        photos := del_rows (\<lambda>f. ph_traveller f = t \<and> ph_trip f = i) (photos d1),
        walks := del_rows (\<lambda>w. wk_traveller w = t \<and> wk_trip w = i) (walks d1),
        share_links := del_rows (\<lambda>s. sh_traveller s = t \<and> sh_trip s = i) (share_links d1)\<rparr>)"

subsection \<open>References under growth\<close>

definition covers :: "database \<Rightarrow> database \<Rightarrow> bool" where
  "covers d d' \<longleftrightarrow>
     (\<forall>t. has_traveller d t \<longrightarrow> has_traveller d' t) \<and>
     (\<forall>t i. has_media d t i \<longrightarrow> has_media d' t i) \<and>
     (\<forall>t i. has_city d t i \<longrightarrow> has_city d' t i) \<and>
     (\<forall>t i. has_trip d t i \<longrightarrow> has_trip d' t i) \<and>
     (\<forall>t i. has_place d t i \<longrightarrow> has_place d' t i) \<and>
     (\<forall>t i. has_visit d t i \<longrightarrow> has_visit d' t i)"

definition refs_wrt :: "database \<Rightarrow> database \<Rightarrow> bool" where
  "refs_wrt p d \<longleftrightarrow>
     list_all (media_fk p) (media_objects d) \<and> list_all (city_fk p) (cities d) \<and>
     list_all (trip_fk p) (trips d) \<and> list_all (trip_city_fk p) (trip_cities d) \<and>
     list_all (place_fk p) (places d) \<and> list_all (visit_fk p) (visits d) \<and>
     list_all (photo_fk p) (photos d) \<and> list_all (walk_fk p) (walks d) \<and>
     list_all (share_fk p) (share_links d)"

lemma refs_wrt_self: "refs_wrt d d = refs_hold d"
  by (simp add: refs_wrt_def refs_hold_def)

lemma ref_mono: "(\<And>x. P x \<Longrightarrow> Q x) \<Longrightarrow> ref P a \<Longrightarrow> ref Q a"
  by (auto simp: ref_def split: option.splits)

lemma fk_mono:
  assumes "covers d d'"
  shows "media_fk d a \<Longrightarrow> media_fk d' a" "city_fk d b \<Longrightarrow> city_fk d' b"
    "trip_fk d c \<Longrightarrow> trip_fk d' c" "trip_city_fk d e \<Longrightarrow> trip_city_fk d' e"
    "place_fk d f \<Longrightarrow> place_fk d' f" "visit_fk d g \<Longrightarrow> visit_fk d' g"
    "photo_fk d h \<Longrightarrow> photo_fk d' h" "walk_fk d k \<Longrightarrow> walk_fk d' k"
    "share_fk d l \<Longrightarrow> share_fk d' l"
  using assms unfolding covers_def fk_defs by (auto elim: ref_mono [rotated])

lemma fk_cong:
  assumes "has_traveller d' = has_traveller d" "has_media d' = has_media d"
    "has_city d' = has_city d" "has_trip d' = has_trip d" "has_place d' = has_place d"
    "has_visit d' = has_visit d"
  shows "media_fk d' = media_fk d" "city_fk d' = city_fk d" "trip_fk d' = trip_fk d"
    "trip_city_fk d' = trip_city_fk d" "place_fk d' = place_fk d" "visit_fk d' = visit_fk d"
    "photo_fk d' = photo_fk d" "walk_fk d' = walk_fk d" "share_fk d' = share_fk d"
  by (auto simp: fk_defs assms intro!: ext)

lemma refs_grow: "refs_wrt d d' \<Longrightarrow> covers d d' \<Longrightarrow> refs_hold d'"
  unfolding refs_wrt_def refs_hold_def
  by (auto simp: list_all_iff intro: fk_mono)

subsection \<open>Writing one checked row keeps the schema\<close>

lemmas schema_defs = schema_ok_def unique_ok_def checks_hold_def refs_wrt_self [symmetric]

lemma list_all_put_row: "list_all P rows \<Longrightarrow> P r \<Longrightarrow> list_all P (put_row key r rows)"
  by (auto simp: list_all_iff set_put_row)

lemma covers_put [simp]:
  "covers d (d\<lparr>media_objects := put_row md_key a (media_objects d)\<rparr>)"
  "covers d (d\<lparr>cities := put_row ct_key b (cities d)\<rparr>)"
  "covers d (d\<lparr>trips := put_row tr_key c (trips d)\<rparr>)"
  "covers d (d\<lparr>places := put_row pl_key e (places d)\<rparr>)"
  "covers d (d\<lparr>visits := put_row vs_key v (visits d)\<rparr>)"
  "covers d (d\<lparr>photos := ps\<rparr>)" "covers d (d\<lparr>walks := ws\<rparr>)"
  "covers d (d\<lparr>trip_cities := tcs\<rparr>)" "covers d (d\<lparr>share_links := ss\<rparr>)"
  by (auto simp: covers_def has_defs keys_put_row)

lemma schema_put_media:
  assumes "schema_ok d" "media_ck r" "media_fk d r"
  shows "schema_ok (d\<lparr>media_objects := put_row md_key r (media_objects d)\<rparr>)"
proof -
  let ?d = "d\<lparr>media_objects := put_row md_key r (media_objects d)\<rparr>"
  have "refs_wrt d ?d"
    using assms by (simp add: schema_defs refs_wrt_def list_all_put_row)
  then have "refs_hold ?d" by (rule refs_grow) simp
  then show ?thesis
    using assms by (simp add: schema_defs distinct_put_row list_all_put_row)
qed

lemma schema_put_city:
  assumes "schema_ok d" "city_ck r" "city_fk d r"
  shows "schema_ok (d\<lparr>cities := put_row ct_key r (cities d)\<rparr>)"
proof -
  let ?d = "d\<lparr>cities := put_row ct_key r (cities d)\<rparr>"
  have "refs_wrt d ?d"
    using assms by (simp add: schema_defs refs_wrt_def list_all_put_row)
  then have "refs_hold ?d" by (rule refs_grow) simp
  then show ?thesis
    using assms by (simp add: schema_defs distinct_put_row list_all_put_row)
qed

lemma schema_put_trip:
  assumes "schema_ok d" "trip_ck r" "trip_fk d r"
  shows "schema_ok (d\<lparr>trips := put_row tr_key r (trips d)\<rparr>)"
proof -
  let ?d = "d\<lparr>trips := put_row tr_key r (trips d)\<rparr>"
  have "refs_wrt d ?d"
    using assms by (simp add: schema_defs refs_wrt_def list_all_put_row)
  then have "refs_hold ?d" by (rule refs_grow) simp
  then show ?thesis
    using assms by (simp add: schema_defs distinct_put_row list_all_put_row)
qed

lemma schema_put_place:
  assumes "schema_ok d" "place_ck r" "place_fk d r"
  shows "schema_ok (d\<lparr>places := put_row pl_key r (places d)\<rparr>)"
proof -
  let ?d = "d\<lparr>places := put_row pl_key r (places d)\<rparr>"
  have "refs_wrt d ?d"
    using assms by (simp add: schema_defs refs_wrt_def list_all_put_row)
  then have "refs_hold ?d" by (rule refs_grow) simp
  then show ?thesis
    using assms by (simp add: schema_defs distinct_put_row list_all_put_row)
qed

lemma schema_put_photo:
  assumes "schema_ok d" "photo_ck r" "photo_fk d r"
  shows "schema_ok (d\<lparr>photos := put_row ph_key r (photos d)\<rparr>)"
proof -
  let ?d = "d\<lparr>photos := put_row ph_key r (photos d)\<rparr>"
  have "refs_wrt d ?d"
    using assms by (simp add: schema_defs refs_wrt_def list_all_put_row)
  then have "refs_hold ?d" by (rule refs_grow) simp
  then show ?thesis
    using assms by (simp add: schema_defs distinct_put_row list_all_put_row)
qed

lemma schema_put_walk:
  assumes "schema_ok d" "walk_ck r" "walk_fk d r"
  shows "schema_ok (d\<lparr>walks := put_row wk_key r (walks d)\<rparr>)"
proof -
  let ?d = "d\<lparr>walks := put_row wk_key r (walks d)\<rparr>"
  have "refs_wrt d ?d"
    using assms by (simp add: schema_defs refs_wrt_def list_all_put_row)
  then have "refs_hold ?d" by (rule refs_grow) simp
  then show ?thesis
    using assms by (simp add: schema_defs distinct_put_row list_all_put_row)
qed

text \<open>Tables with a second unique key: the caller shows that the new rows respect it.\<close>

lemma schema_set_visits:
  assumes "schema_ok d" and keys: "vs_key ` set (visits d) \<subseteq> vs_key ` set vs"
    and "distinct (map vs_key vs)" "distinct (map vs_slot vs)"
    and "list_all visit_ck vs" "list_all (visit_fk d) vs"
  shows "schema_ok (d\<lparr>visits := vs\<rparr>)"
proof -
  have "refs_wrt d (d\<lparr>visits := vs\<rparr>)"
    using assms by (simp add: schema_defs refs_wrt_def)
  moreover have "covers d (d\<lparr>visits := vs\<rparr>)"
    using keys by (auto simp: covers_def has_defs)
  ultimately have "refs_hold (d\<lparr>visits := vs\<rparr>)" by (rule refs_grow)
  with assms show ?thesis by (simp add: schema_defs)
qed

lemma schema_set_trip_cities:
  assumes "schema_ok d" "distinct (map tc_key rs)" "distinct (map tc_slot rs)"
    and "list_all (\<lambda>r. 0 \<le> tc_ordinal r) rs" "list_all (trip_city_fk d) rs"
  shows "schema_ok (d\<lparr>trip_cities := rs\<rparr>)"
proof -
  have "refs_wrt d (d\<lparr>trip_cities := rs\<rparr>)"
    using assms by (simp add: schema_defs refs_wrt_def)
  then have "refs_hold (d\<lparr>trip_cities := rs\<rparr>)" by (rule refs_grow) simp
  with assms show ?thesis by (simp add: schema_defs)
qed

lemma schema_set_photos:
  assumes "schema_ok d" "distinct (map ph_key ps)" "list_all photo_ck ps" "list_all (photo_fk d) ps"
  shows "schema_ok (d\<lparr>photos := ps\<rparr>)"
proof -
  have "refs_wrt d (d\<lparr>photos := ps\<rparr>)"
    using assms by (simp add: schema_defs refs_wrt_def)
  then have "refs_hold (d\<lparr>photos := ps\<rparr>)" by (rule refs_grow) simp
  with assms show ?thesis by (simp add: schema_defs)
qed

lemma schema_set_share_links:
  assumes "schema_ok d" "distinct (map sh_hash ss)" "distinct (live_slots ss)"
    "list_all share_ck ss" "list_all (share_fk d) ss"
  shows "schema_ok (d\<lparr>share_links := ss\<rparr>)"
proof -
  have "refs_wrt d (d\<lparr>share_links := ss\<rparr>)"
    using assms by (simp add: schema_defs refs_wrt_def)
  then have "refs_hold (d\<lparr>share_links := ss\<rparr>)" by (rule refs_grow) simp
  with assms show ?thesis by (simp add: schema_defs)
qed

subsection \<open>The cascades keep the schema\<close>

lemma has_visit_drop:
  "has_visit (drop_visits p d) t i \<longleftrightarrow> (\<exists>v \<in> set (visits d). \<not> p v \<and> vs_key v = (t, i))"
  by (auto simp: has_visit_def drop_visits_def image_iff)

lemma has_drop_other [simp]:
  "has_traveller (drop_visits p d) = has_traveller d" "has_media (drop_visits p d) = has_media d"
  "has_city (drop_visits p d) = has_city d" "has_trip (drop_visits p d) = has_trip d"
  "has_place (drop_visits p d) = has_place d"
  by (simp_all add: fun_eq_iff has_defs drop_visits_def)

lemma drop_visits_simps [simp]:
  "collate (drop_visits p d) = collate d" "to_timestamptz (drop_visits p d) = to_timestamptz d"
  "to_date (drop_visits p d) = to_date d" "travellers (drop_visits p d) = travellers d"
  "media_objects (drop_visits p d) = media_objects d" "cities (drop_visits p d) = cities d"
  "trips (drop_visits p d) = trips d" "trip_cities (drop_visits p d) = trip_cities d"
  "places (drop_visits p d) = places d" "walks (drop_visits p d) = walks d"
  "share_links (drop_visits p d) = share_links d"
  "visits (drop_visits p d) = del_rows p (visits d)"
  by (simp_all add: drop_visits_def)

lemma list_all_del_rows: "list_all P rows \<Longrightarrow> list_all P (del_rows p rows)"
  by (auto simp: list_all_iff)

lemma list_all_upd_rows:
  "list_all P rows \<Longrightarrow> (\<And>r. r \<in> set rows \<Longrightarrow> p r \<Longrightarrow> P r \<Longrightarrow> P (f r)) \<Longrightarrow> list_all P (upd_rows p f rows)"
  by (auto simp: list_all_iff set_upd_rows)

lemma photo_ck_unfile [simp]:
  "photo_ck (f\<lparr>ph_visit := a\<rparr>) = photo_ck f" "photo_ck (f\<lparr>ph_place := b\<rparr>) = photo_ck f"
  by (simp_all add: photo_ck_def)

lemma ph_key_unfile [simp]:
  "ph_key (f\<lparr>ph_visit := a\<rparr>) = ph_key f" "ph_key (f\<lparr>ph_place := b\<rparr>) = ph_key f"
  "ph_key (f\<lparr>ph_later := c\<rparr>) = ph_key f"
  by (simp_all add: ph_key_def)

lemma photos_drop_visits:
  "photos (drop_visits p d) =
     map (\<lambda>f. if filed_to p (visits d) f then f\<lparr>ph_visit := None\<rparr> else f) (photos d)"
  by (simp add: drop_visits_def upd_rows_def)

lemma photo_fk_drop:
  assumes fk: "photo_fk d f"
  shows "photo_fk (drop_visits p d) (if filed_to p (visits d) f then f\<lparr>ph_visit := None\<rparr> else f)"
proof (cases "filed_to p (visits d) f")
  case True
  with fk show ?thesis by (simp add: photo_fk_def ref_def)
next
  case False
  have "ref (has_visit (drop_visits p d) (ph_traveller f)) (ph_visit f)"
  proof (cases "ph_visit f")
    case (Some i)
    with fk obtain v where "v \<in> set (visits d)" "vs_key v = (ph_traveller f, i)"
      by (auto simp: photo_fk_def ref_def has_visit_def image_iff)
    with False Some show ?thesis
      by (auto simp: ref_def has_visit_drop filed_to_def list_ex_iff vs_key_def)
  qed (simp add: ref_def)
  with False fk show ?thesis by (simp add: photo_fk_def)
qed

lemma schema_drop_visits:
  assumes ok: "schema_ok d"
  shows "schema_ok (drop_visits p d)"
proof -
  let ?d = "drop_visits p d"
  have "list_all (photo_fk ?d) (photos ?d)"
    unfolding photos_drop_visits list.pred_map comp_def
    by (rule list.pred_mono_strong [where P = "photo_fk d"])
      (use ok photo_fk_drop in \<open>simp_all add: schema_ok_def refs_hold_def\<close>)
  moreover have "media_fk ?d = media_fk d" "city_fk ?d = city_fk d" "trip_fk ?d = trip_fk d"
    "trip_city_fk ?d = trip_city_fk d" "place_fk ?d = place_fk d" "visit_fk ?d = visit_fk d"
    "walk_fk ?d = walk_fk d" "share_fk ?d = share_fk d"
    by (simp_all add: fk_defs fun_eq_iff)
  moreover have "list_all photo_ck (photos ?d)" "map ph_key (photos ?d) = map ph_key (photos d)"
    using ok by (auto simp: schema_ok_def checks_hold_def photos_drop_visits list_all_iff)
  ultimately show ?thesis
    using ok by (simp add: schema_ok_def unique_ok_def checks_hold_def refs_hold_def
        distinct_del_rows list_all_del_rows)
qed

lemma delete_place_simps [simp]:
  fixes t i d
  defines "d1 \<equiv> drop_visits (\<lambda>v. vs_traveller v = t \<and> vs_place v = i) d"
  shows "collate (delete_place t i d) = collate d"
    "to_timestamptz (delete_place t i d) = to_timestamptz d"
    "to_date (delete_place t i d) = to_date d" "travellers (delete_place t i d) = travellers d"
    "media_objects (delete_place t i d) = media_objects d" "cities (delete_place t i d) = cities d"
    "trips (delete_place t i d) = trips d" "trip_cities (delete_place t i d) = trip_cities d"
    "walks (delete_place t i d) = walks d" "share_links (delete_place t i d) = share_links d"
    "visits (delete_place t i d) = del_rows (\<lambda>v. vs_traveller v = t \<and> vs_place v = i) (visits d)"
    "places (delete_place t i d) = del_rows (\<lambda>r. pl_key r = (t, i)) (places d)"
  by (simp_all add: delete_place_def Let_def)

lemma photos_delete_place:
  "photos (delete_place t i d) =
     upd_rows (\<lambda>f. ph_traveller f = t \<and> ph_place f = Some i) (\<lambda>f. f\<lparr>ph_place := None\<rparr>)
       (photos (drop_visits (\<lambda>v. vs_traveller v = t \<and> vs_place v = i) d))"
  by (simp add: delete_place_def Let_def)

lemma schema_delete_place:
  assumes "schema_ok d"
  shows "schema_ok (delete_place t i d)"
proof -
  let ?p = "\<lambda>v. vs_traveller v = t \<and> vs_place v = i"
  let ?d1 = "drop_visits ?p d"
  let ?d = "delete_place t i d"
  have ok: "schema_ok ?d1" using assms by (rule schema_drop_visits)
  have place: "has_place ?d u j \<longleftrightarrow> has_place ?d1 u j \<and> (u, j) \<noteq> (t, i)" for u j
    by (auto simp: has_place_def image_iff)
  have others: "has_traveller ?d = has_traveller ?d1" "has_media ?d = has_media ?d1"
    "has_city ?d = has_city ?d1" "has_trip ?d = has_trip ?d1" "has_visit ?d = has_visit ?d1"
    by (simp_all add: fun_eq_iff has_defs)
  have "list_all (visit_fk ?d) (visits ?d)"
    using ok by (auto simp: schema_ok_def refs_hold_def list_all_iff visit_fk_def place others)
  moreover have "list_all (photo_fk ?d) (photos ?d)"
  proof -
    have "photo_fk ?d (if ph_traveller f = t \<and> ph_place f = Some i then f\<lparr>ph_place := None\<rparr> else f)"
      if "photo_fk ?d1 f" for f
      using that by (auto simp: photo_fk_def place others ref_def split: option.splits)
    with ok show ?thesis
      by (fastforce simp: schema_ok_def refs_hold_def list_all_iff photos_delete_place set_upd_rows)
  qed
  moreover have "media_fk ?d = media_fk ?d1" "city_fk ?d = city_fk ?d1" "trip_fk ?d = trip_fk ?d1"
    "trip_city_fk ?d = trip_city_fk ?d1" "place_fk ?d = place_fk ?d1" "walk_fk ?d = walk_fk ?d1"
    "share_fk ?d = share_fk ?d1"
    by (simp_all add: fk_defs fun_eq_iff others)
  moreover have "list_all photo_ck (photos ?d)" "map ph_key (photos ?d) = map ph_key (photos ?d1)"
    using ok by (auto simp: schema_ok_def checks_hold_def photos_delete_place map_upd_rows
        intro!: list_all_upd_rows)
  ultimately show ?thesis
    using ok by (simp add: schema_ok_def unique_ok_def checks_hold_def refs_hold_def
        distinct_del_rows list_all_del_rows)
qed

lemma delete_trip_simps [simp]:
  "collate (delete_trip t i d) = collate d"
  "to_timestamptz (delete_trip t i d) = to_timestamptz d"
  "to_date (delete_trip t i d) = to_date d" "travellers (delete_trip t i d) = travellers d"
  "media_objects (delete_trip t i d) = media_objects d" "cities (delete_trip t i d) = cities d"
  "places (delete_trip t i d) = places d"
  "trips (delete_trip t i d) = del_rows (\<lambda>r. tr_key r = (t, i)) (trips d)"
  "trip_cities (delete_trip t i d) =
     del_rows (\<lambda>r. tc_traveller r = t \<and> tc_trip r = i) (trip_cities d)"
  "visits (delete_trip t i d) = del_rows (\<lambda>v. vs_traveller v = t \<and> vs_trip v = i) (visits d)"
  "walks (delete_trip t i d) = del_rows (\<lambda>w. wk_traveller w = t \<and> wk_trip w = i) (walks d)"
  "share_links (delete_trip t i d) =
     del_rows (\<lambda>s. sh_traveller s = t \<and> sh_trip s = i) (share_links d)"
  by (simp_all add: delete_trip_def Let_def)

lemma photos_delete_trip:
  "photos (delete_trip t i d) =
     del_rows (\<lambda>f. ph_traveller f = t \<and> ph_trip f = i)
       (photos (drop_visits (\<lambda>v. vs_traveller v = t \<and> vs_trip v = i) d))"
  by (simp add: delete_trip_def Let_def)

lemma distinct_live_del: "distinct (live_slots ss) \<Longrightarrow> distinct (live_slots (del_rows p ss))"
proof -
  have "filter (\<lambda>r. sh_revoked r = None) (del_rows p ss) =
      del_rows p (filter (\<lambda>r. sh_revoked r = None) ss)"
    by (simp add: del_rows_def conj_commute)
  then show "distinct (live_slots ss) \<Longrightarrow> distinct (live_slots (del_rows p ss))"
    by (simp add: live_slots_def distinct_del_rows)
qed

lemma schema_delete_trip:
  assumes "schema_ok d"
  shows "schema_ok (delete_trip t i d)"
proof -
  let ?d1 = "drop_visits (\<lambda>v. vs_traveller v = t \<and> vs_trip v = i) d"
  let ?d = "delete_trip t i d"
  have ok: "schema_ok ?d1" using assms by (rule schema_drop_visits)
  have trip: "has_trip ?d u j \<longleftrightarrow> has_trip ?d1 u j \<and> (u, j) \<noteq> (t, i)" for u j
    by (auto simp: has_trip_def image_iff)
  have others: "has_traveller ?d = has_traveller ?d1" "has_media ?d = has_media ?d1"
    "has_city ?d = has_city ?d1" "has_place ?d = has_place ?d1" "has_visit ?d = has_visit ?d1"
    by (simp_all add: fun_eq_iff has_defs)
  have "list_all (visit_fk ?d) (visits ?d)" "list_all (trip_city_fk ?d) (trip_cities ?d)"
    "list_all (walk_fk ?d) (walks ?d)" "list_all (share_fk ?d) (share_links ?d)"
    "list_all (photo_fk ?d) (photos ?d)"
    using ok by (auto simp: schema_ok_def refs_hold_def list_all_iff fk_defs trip others
        photos_delete_trip)
  moreover have "media_fk ?d = media_fk ?d1" "city_fk ?d = city_fk ?d1" "trip_fk ?d = trip_fk ?d1"
    "place_fk ?d = place_fk ?d1"
    by (simp_all add: fk_defs fun_eq_iff others)
  moreover have "list_all photo_ck (photos ?d)" "distinct (map ph_key (photos ?d))"
    using ok by (auto simp: schema_ok_def checks_hold_def unique_ok_def photos_delete_trip
        intro!: list_all_del_rows distinct_del_rows)
  ultimately show ?thesis
    using ok by (simp add: schema_ok_def unique_ok_def checks_hold_def refs_hold_def
        distinct_del_rows list_all_del_rows distinct_live_del)
qed

subsection \<open>Other travellers' rows\<close>

text \<open>A statement on one table leaves the others alone; on its own table it must leave the rows
  of every other traveller alone.\<close>

lemma frame_tables:
  "(\<And>u. u \<noteq> t \<Longrightarrow> filter (\<lambda>r. tv_id r = u) tv = filter (\<lambda>r. tv_id r = u) (travellers d)) \<Longrightarrow>
    frame t d (d\<lparr>travellers := tv\<rparr>)"
  "(\<And>u. u \<noteq> t \<Longrightarrow> filter (\<lambda>r. md_traveller r = u) md = filter (\<lambda>r. md_traveller r = u) (media_objects d)) \<Longrightarrow>
    frame t d (d\<lparr>media_objects := md\<rparr>)"
  "(\<And>u. u \<noteq> t \<Longrightarrow> filter (\<lambda>r. ct_traveller r = u) ct = filter (\<lambda>r. ct_traveller r = u) (cities d)) \<Longrightarrow>
    frame t d (d\<lparr>cities := ct\<rparr>)"
  "(\<And>u. u \<noteq> t \<Longrightarrow> filter (\<lambda>r. tr_traveller r = u) tr = filter (\<lambda>r. tr_traveller r = u) (trips d)) \<Longrightarrow>
    frame t d (d\<lparr>trips := tr\<rparr>)"
  "(\<And>u. u \<noteq> t \<Longrightarrow> filter (\<lambda>r. tc_traveller r = u) tc = filter (\<lambda>r. tc_traveller r = u) (trip_cities d)) \<Longrightarrow>
    frame t d (d\<lparr>trip_cities := tc\<rparr>)"
  "(\<And>u. u \<noteq> t \<Longrightarrow> filter (\<lambda>r. pl_traveller r = u) pl = filter (\<lambda>r. pl_traveller r = u) (places d)) \<Longrightarrow>
    frame t d (d\<lparr>places := pl\<rparr>)"
  "(\<And>u. u \<noteq> t \<Longrightarrow> filter (\<lambda>r. vs_traveller r = u) vs = filter (\<lambda>r. vs_traveller r = u) (visits d)) \<Longrightarrow>
    frame t d (d\<lparr>visits := vs\<rparr>)"
  "(\<And>u. u \<noteq> t \<Longrightarrow> filter (\<lambda>r. ph_traveller r = u) ph = filter (\<lambda>r. ph_traveller r = u) (photos d)) \<Longrightarrow>
    frame t d (d\<lparr>photos := ph\<rparr>)"
  "(\<And>u. u \<noteq> t \<Longrightarrow> filter (\<lambda>r. wk_traveller r = u) wk = filter (\<lambda>r. wk_traveller r = u) (walks d)) \<Longrightarrow>
    frame t d (d\<lparr>walks := wk\<rparr>)"
  "(\<And>u. u \<noteq> t \<Longrightarrow> filter (\<lambda>r. sh_traveller r = u) sh = filter (\<lambda>r. sh_traveller r = u) (share_links d)) \<Longrightarrow>
    frame t d (d\<lparr>share_links := sh\<rparr>)"
  unfolding frame_def by (auto intro!: view_eqI)

lemma filter_photos_drop:
  assumes "\<And>v. p v \<Longrightarrow> vs_traveller v = t" "u \<noteq> t"
  shows "filter (\<lambda>f. ph_traveller f = u) (photos (drop_visits p d)) =
    filter (\<lambda>f. ph_traveller f = u) (photos d)"
proof -
  have "ph_traveller f = t" if "filed_to p (visits d) f" for f
    using that assms(1) by (auto simp: filed_to_def list_ex_iff)
  then show ?thesis
    using assms(2) by (auto simp: drop_visits_def intro!: filter_upd_rows_other)
qed

lemma frame_drop_visits:
  assumes "\<And>v. p v \<Longrightarrow> vs_traveller v = t"
  shows "frame t d (drop_visits p d)"
  unfolding frame_def
  using assms filter_photos_drop [OF assms]
  by (auto intro!: view_eqI filter_del_rows_other)

lemma frame_delete_place: "frame t d (delete_place t i d)"
proof -
  have "filter (\<lambda>f. ph_traveller f = u) (photos (delete_place t i d)) =
      filter (\<lambda>f. ph_traveller f = u) (photos d)" if "u \<noteq> t" for u
  proof -
    have "filter (\<lambda>f. ph_traveller f = u) (photos (delete_place t i d)) =
        filter (\<lambda>f. ph_traveller f = u)
          (photos (drop_visits (\<lambda>v. vs_traveller v = t \<and> vs_place v = i) d))"
      unfolding photos_delete_place using that by (intro filter_upd_rows_other) auto
    also have "\<dots> = filter (\<lambda>f. ph_traveller f = u) (photos d)"
      by (rule filter_photos_drop [of _ t]) (use that in auto)
    finally show ?thesis .
  qed
  then show ?thesis
    unfolding frame_def by (auto intro!: view_eqI filter_del_rows_other simp: pl_key_def)
qed

lemma frame_delete_trip: "frame t d (delete_trip t i d)"
proof -
  have "filter (\<lambda>f. ph_traveller f = u) (photos (delete_trip t i d)) =
      filter (\<lambda>f. ph_traveller f = u) (photos d)" if "u \<noteq> t" for u
  proof -
    have "filter (\<lambda>f. ph_traveller f = u) (photos (delete_trip t i d)) =
        filter (\<lambda>f. ph_traveller f = u)
          (photos (drop_visits (\<lambda>v. vs_traveller v = t \<and> vs_trip v = i) d))"
      unfolding photos_delete_trip using that by (intro filter_del_rows_other) auto
    also have "\<dots> = filter (\<lambda>f. ph_traveller f = u) (photos d)"
      by (rule filter_photos_drop [of _ t]) (use that in auto)
    finally show ?thesis .
  qed
  then show ?thesis
    unfolding frame_def by (auto intro!: view_eqI filter_del_rows_other simp: tr_key_def)
qed

lemma same_travellers_cascades [simp]:
  "same_travellers d (drop_visits p d)" "same_travellers d (delete_place t i d)"
  "same_travellers d (delete_trip t i d)"
  by (simp_all add: same_travellers_def)

subsection \<open>Tables keyed by traveller and id\<close>

text \<open>
  The upsert statements of the six entity tables share one contract, stated once: the key names
  the traveller, a checked row may be put, and other tables are not touched.
\<close>

definition table_upsert ::
  "(database \<Rightarrow> 'r list) \<Rightarrow> ('r list \<Rightarrow> database \<Rightarrow> database) \<Rightarrow> ('r \<Rightarrow> 'k) \<Rightarrow> ('r \<Rightarrow> bool) \<Rightarrow>
   (database \<Rightarrow> 'r \<Rightarrow> bool) \<Rightarrow> 'r \<Rightarrow> ('r \<Rightarrow> 'r) \<Rightarrow> database \<Rightarrow> db_error + database" where
  "table_upsert rows set_rows key ck fk proposed merge d =
     (case upsert key ck (fk d) proposed merge (rows d) of
        Inl e \<Rightarrow> Inl e | Inr rs \<Rightarrow> Inr (set_rows rs d))"

locale entity_table =
  fixes rows :: "database \<Rightarrow> 'r list"
    and set_rows :: "'r list \<Rightarrow> database \<Rightarrow> database"
    and traveller :: "'r \<Rightarrow> id"
    and key :: "'r \<Rightarrow> id \<times> id"
    and ck :: "'r \<Rightarrow> bool"
    and fk :: "database \<Rightarrow> 'r \<Rightarrow> bool"
  assumes key_traveller: "fst (key r) = traveller r"
    and get_set: "rows (set_rows rs d) = rs"
    and set_frame: "(\<And>u. u \<noteq> t \<Longrightarrow>
          filter (\<lambda>r. traveller r = u) rs = filter (\<lambda>r. traveller r = u) (rows d)) \<Longrightarrow>
        frame t d (set_rows rs d)"
    and set_travellers: "same_travellers d (set_rows rs d)"
    and put_schema: "schema_ok d \<Longrightarrow> ck r \<Longrightarrow> fk d r \<Longrightarrow>
        schema_ok (set_rows (put_row key r (rows d)) d)"
begin

lemma table_upsert_ok:
  assumes "table_upsert rows set_rows key ck fk proposed merge d = Inr d'"
    and "\<And>old. key old = key proposed \<Longrightarrow> key (merge old) = key proposed"
  obtains r where "ck proposed" "ck r" "fk d r" "key r = key proposed"
    "d' = set_rows (put_row key r (rows d)) d"
    "r = (case List.find (\<lambda>x. key x = key proposed) (rows d) of
            None \<Rightarrow> proposed | Some old \<Rightarrow> merge old)"
proof -
  from assms(1) obtain rs where rs: "upsert key ck (fk d) proposed merge (rows d) = Inr rs"
    and d': "d' = set_rows rs d"
    by (auto simp: table_upsert_def split: sum.splits)
  from rs obtain r where r: "ck proposed" "ck r" "fk d r" "rs = put_row key r (rows d)"
    "r = (case List.find (\<lambda>x. key x = key proposed) (rows d) of
            None \<Rightarrow> proposed | Some old \<Rightarrow> merge old)"
    by (rule upsert_ok)
  moreover have "key r = key proposed" using assms(2) r(5) by (rule upsert_key)
  ultimately show thesis using d' that by simp
qed

lemma put_frame:
  assumes "traveller r = t"
  shows "frame t d (set_rows (put_row key r (rows d)) d)"
proof (rule set_frame)
  fix u assume "u \<noteq> t"
  then show "filter (\<lambda>r. traveller r = u) (put_row key r (rows d)) =
      filter (\<lambda>r. traveller r = u) (rows d)"
    using assms key_traveller by (intro filter_put_row_other) (auto dest: arg_cong [where f = fst])
qed

lemma upsert_sound:
  assumes "traveller proposed = t"
    and "\<And>old. key old = key proposed \<Longrightarrow> key (merge old) = key proposed"
    and "table_upsert rows set_rows key ck fk proposed merge d = Inr d'"
  shows "sound t d d'"
proof -
  from assms(3,2) obtain r where r: "ck r" "fk d r" "key r = key proposed"
    "d' = set_rows (put_row key r (rows d)) d"
    by (rule table_upsert_ok)
  then have "traveller r = t" using key_traveller assms(1) by metis
  with r show ?thesis
    by (auto intro!: soundI put_frame put_schema set_travellers)
qed

end

interpretation media_table: entity_table media_objects "\<lambda>rs. media_objects_update (\<lambda>_. rs)"
    md_traveller md_key media_ck media_fk
  by unfold_locales (auto simp: md_key_def same_travellers_def schema_put_media intro!: frame_tables)

interpretation city_table: entity_table cities "\<lambda>rs. cities_update (\<lambda>_. rs)"
    ct_traveller ct_key city_ck city_fk
  by unfold_locales (auto simp: ct_key_def same_travellers_def schema_put_city intro!: frame_tables)

interpretation trip_table: entity_table trips "\<lambda>rs. trips_update (\<lambda>_. rs)"
    tr_traveller tr_key trip_ck trip_fk
  by unfold_locales (auto simp: tr_key_def same_travellers_def schema_put_trip intro!: frame_tables)

interpretation place_table: entity_table places "\<lambda>rs. places_update (\<lambda>_. rs)"
    pl_traveller pl_key place_ck place_fk
  by unfold_locales (auto simp: pl_key_def same_travellers_def schema_put_place intro!: frame_tables)

interpretation photo_table: entity_table photos "\<lambda>rs. photos_update (\<lambda>_. rs)"
    ph_traveller ph_key photo_ck photo_fk
  by unfold_locales (auto simp: ph_key_def same_travellers_def schema_put_photo intro!: frame_tables)

interpretation walk_table: entity_table walks "\<lambda>rs. walks_update (\<lambda>_. rs)"
    wk_traveller wk_key walk_ck walk_fk
  by unfold_locales (auto simp: wk_key_def same_travellers_def schema_put_walk intro!: frame_tables)

end
