(* ===== verification/Store_Read.thy ===== *)
theory Store_Read
  imports Transaction
begin

section \<open>Reading the log (\<^verbatim>\<open>internal/postgres/logbook_store.go\<close>, the read half)\<close>

text \<open>
  The queries one read is made of, each with its \<open>ORDER BY\<close>, and their assembly into the six keys
  of the document. \<open>document_of\<close> is the document as a function of the database; the lemmas say that
  \<open>readDocument\<close> answers it, that it depends only on the traveller's own rows, and not on the
  media objects at all.
\<close>

definition rows_by_id :: "('r \<Rightarrow> id) \<Rightarrow> ('r \<Rightarrow> id) \<Rightarrow> database \<Rightarrow> id \<Rightarrow> 'r list \<Rightarrow> 'r list" where
  "rows_by_id traveller key d t rows =
     sort_key (\<lambda>r. collate d (key r)) (filter (\<lambda>r. traveller r = t) rows)"

text \<open>A \<open>map[string][]T\<close> filled by appending rows in query order.\<close>

definition grouped :: "('r \<Rightarrow> id) \<Rightarrow> ('r \<Rightarrow> 'v) \<Rightarrow> 'r list \<Rightarrow> id \<Rightarrow> 'v slice" where
  "grouped key val rows i = appended (map val (filter (\<lambda>r. key r = i) rows))"

subsection \<open>Trips\<close>

definition shared_flag :: "database \<Rightarrow> id \<Rightarrow> id \<Rightarrow> bool" where
  "shared_flag d t trip =
     list_ex (\<lambda>s. sh_traveller s = t \<and> sh_trip s = trip \<and> sh_revoked s = None) (share_links d)"

definition scan_trip :: "database \<Rightarrow> id slice \<Rightarrow> trip_row \<Rightarrow> trip" where
  "scan_trip d cityIDs r =
     \<lparr>trip_ID = tr_id r, trip_Name = tr_name r, trip_CityIDs = cityIDs,
      trip_Start = tr_started r, trip_End = tr_ended r, trip_Summary = tr_summary r,
      trip_CoverAsset = tr_cover r, trip_ShareLinkID = None,
      trip_SharePhotos = tr_share_photos r, trip_ShareNotes = tr_share_notes r,
      trip_ShareCoordinates = tr_share_coordinates r,
      trip_Shared = shared_flag d (tr_traveller r) (tr_id r)\<rparr>"

definition readTripCities :: "id \<Rightarrow> database \<Rightarrow> id \<Rightarrow> id slice" where
  "readTripCities t d =
     grouped tc_trip tc_city
       (sort_key (\<lambda>r. (collate d (tc_trip r), tc_ordinal r))
         (filter (\<lambda>r. tc_traveller r = t) (trip_cities d)))"

definition readTrips :: "id \<Rightarrow> trip slice tx" where
  "readTrips t =
     t_bind (t_query (readTripCities t)) (\<lambda>cityIDs.
     t_query (\<lambda>d. appended (map (\<lambda>r. scan_trip d (cityIDs (tr_id r)) r)
                     (rows_by_id tr_traveller tr_id d t (trips d)))))"

subsection \<open>Cities\<close>

definition scan_city :: "city_row \<Rightarrow> city" where
  "scan_city r =
     \<lparr>city_ID = ct_id r, city_Name = ct_name r, city_Country = ct_country r,
      city_Centre = ct_centre r, city_CoverAsset = ct_cover r\<rparr>"

definition readCities :: "id \<Rightarrow> city slice tx" where
  "readCities t =
     t_query (\<lambda>d. appended (map scan_city (rows_by_id ct_traveller ct_id d t (cities d))))"

subsection \<open>Places and visits\<close>

definition scan_visit :: "visit_row \<Rightarrow> visit" where
  "scan_visit r =
     \<lparr>visit_ID = vs_id r, visit_PlaceID = vs_place r, visit_TripID = vs_trip r,
      visit_At = vs_at r, visit_Note = vs_note r\<rparr>"

definition readVisits :: "id \<Rightarrow> database \<Rightarrow> id \<Rightarrow> visit slice" where
  "readVisits t d =
     grouped vs_place scan_visit
       (sort_key (\<lambda>r. (collate d (vs_place r), vs_ordinal r, collate d (vs_id r)))
         (filter (\<lambda>r. vs_traveller r = t) (visits d)))"

definition scan_place :: "visit slice \<Rightarrow> place_row \<Rightarrow> place" where
  "scan_place vs r =
     \<lparr>place_ID = pl_id r, place_CityID = pl_city r, place_Name = pl_name r,
      place_Coordinates = pl_at r, place_Visits = vs, place_Plan = pl_plan r,
      place_CoverAsset = pl_cover r\<rparr>"

definition readPlaces :: "id \<Rightarrow> place slice tx" where
  "readPlaces t =
     t_bind (t_query (readVisits t)) (\<lambda>vs.
     t_query (\<lambda>d. appended (map (\<lambda>r. scan_place (vs (pl_id r)) r)
                     (rows_by_id pl_traveller pl_id d t (places d)))))"

subsection \<open>Photographs\<close>

definition scan_photo :: "photo_row \<Rightarrow> photo" where
  "scan_photo r =
     \<lparr>photo_ID = ph_id r, photo_TripID = ph_trip r, photo_CityID = ph_city r,
      photo_TakenAt = ph_taken r, photo_Asset = ph_asset r, photo_PlaceID = ph_place r,
      photo_VisitID = ph_visit r, photo_Caption = ph_caption r,
      photo_Coordinates = (case (ph_lat r, ph_lng r) of
         (Some a, Some b) \<Rightarrow> Some \<lparr>Lat = a, Lng = b\<rparr> | _ \<Rightarrow> None),
      photo_AccuracyMetres = ph_accuracy r, photo_FiledLater = ph_later r\<rparr>"

definition readPhotos :: "id \<Rightarrow> photo slice tx" where
  "readPhotos t =
     t_query (\<lambda>d. appended (map scan_photo (rows_by_id ph_traveller ph_id d t (photos d))))"

subsection \<open>Walks\<close>

definition scan_walk :: "latlng slice \<Rightarrow> walk_row \<Rightarrow> walk" where
  "scan_walk points r =
     \<lparr>walk_ID = wk_id r, walk_TripID = wk_trip r, walk_CityID = wk_city r,
      walk_RecordedOn = wk_recorded r, walk_DistanceKm = wk_distance r, walk_Points = points,
      walk_Name = wk_name r, walk_Dismissed = wk_dismissed r\<rparr>"

text \<open>\<open>CROSS JOIN LATERAL jsonb_array_elements \<dots> ORDER BY w.id, pt.ord\<close>: one row per point.\<close>

definition readWalkPoints :: "id \<Rightarrow> database \<Rightarrow> id \<Rightarrow> latlng slice" where
  "readWalkPoints t d =
     grouped fst snd
       (concat (map (\<lambda>w. map (\<lambda>p. (wk_id w, p)) (wk_points w))
          (rows_by_id wk_traveller wk_id d t (walks d))))"

definition readWalks :: "id \<Rightarrow> walk slice tx" where
  "readWalks t =
     t_bind (t_query (readWalkPoints t)) (\<lambda>points.
     t_query (\<lambda>d. appended (map (\<lambda>r. scan_walk (points (wk_id r)) r)
                     (rows_by_id wk_traveller wk_id d t (walks d)))))"

subsection \<open>The document\<close>

definition readTravellerName :: "id \<Rightarrow> string option tx" where
  "readTravellerName t =
     t_bind (t_query (\<lambda>d. find_traveller d t)) (\<lambda>r.
       t_lift (case r of None \<Rightarrow> Inl ErrNoTraveller | Some row \<Rightarrow> Inr (tv_name row)))"

definition readDocument :: "id \<Rightarrow> document tx" where
  "readDocument t =
     t_bind (readTrips t) (\<lambda>trs.
     t_bind (readCities t) (\<lambda>cts.
     t_bind (readPlaces t) (\<lambda>pls.
     t_bind (readPhotos t) (\<lambda>phs.
     t_bind (readWalks t) (\<lambda>wks.
     t_bind (readTravellerName t) (\<lambda>name.
     t_return \<lparr>doc_Trips = trs, doc_Cities = cts, doc_Places = pls, doc_Photos = phs,
               doc_Walks = wks, doc_Traveller = name\<rparr>))))))"

text \<open>\<open>LogbookStore.Read\<close>: the version first, the document only when the caller wants it.\<close>

definition LogbookRead :: "id \<Rightarrow> (int \<Rightarrow> bool) \<Rightarrow> snapshot tx" where
  "LogbookRead t assemble =
     WithReadSnapshot t (\<lambda>version.
       if \<not> assemble version
       then t_return \<lparr>snap_Version = version, snap_Document = None\<rparr>
       else t_bind (readDocument t) (\<lambda>doc.
            t_return \<lparr>snap_Version = version, snap_Document = Some doc\<rparr>))"

subsection \<open>One row\<close>

definition readOneTrip :: "id \<Rightarrow> id \<Rightarrow> trip tx" where
  "readOneTrip t tripID =
     t_bind (t_query (\<lambda>d. map_option (scan_trip d None) (find_trip d t tripID))) (\<lambda>r.
     case r of
       None \<Rightarrow> t_lift (Inl ErrNoTrip)
     | Some trp \<Rightarrow>
         t_query (\<lambda>d. trp\<lparr>trip_CityIDs := appended (map tc_city
            (sort_key tc_ordinal
              (filter (\<lambda>r. tc_traveller r = t \<and> tc_trip r = tripID) (trip_cities d))))\<rparr>))"

definition readOneCity :: "id \<Rightarrow> id \<Rightarrow> city tx" where
  "readOneCity t cityID =
     t_bind (t_query (\<lambda>d. find_city d t cityID)) (\<lambda>r.
       t_lift (case r of None \<Rightarrow> Inl ErrVanished | Some row \<Rightarrow> Inr (scan_city row)))"

definition readOnePlace :: "id \<Rightarrow> id \<Rightarrow> place tx" where
  "readOnePlace t placeID =
     t_bind (t_query (\<lambda>d. find_place d t placeID)) (\<lambda>r.
     case r of
       None \<Rightarrow> t_lift (Inl ErrNoPlace)
     | Some row \<Rightarrow>
         t_query (\<lambda>d. scan_place (appended (map scan_visit
            (sort_key (\<lambda>v. (vs_ordinal v, collate d (vs_id v)))
              (filter (\<lambda>v. vs_traveller v = t \<and> vs_place v = placeID) (visits d))))) row))"

definition readOnePhoto :: "id \<Rightarrow> id \<Rightarrow> photo tx" where
  "readOnePhoto t photoID =
     t_bind (t_query (\<lambda>d. find_photo d t photoID)) (\<lambda>r.
       t_lift (case r of None \<Rightarrow> Inl ErrNoPhoto | Some row \<Rightarrow> Inr (scan_photo row)))"

definition readOneWalk :: "id \<Rightarrow> id \<Rightarrow> walk tx" where
  "readOneWalk t walkID =
     t_bind (t_query (\<lambda>d. find_walk d t walkID)) (\<lambda>r.
     case r of
       None \<Rightarrow> t_lift (Inl ErrNoWalk)
     | Some row \<Rightarrow>
         t_query (\<lambda>d. scan_walk (appended (case find_walk d t walkID of
            None \<Rightarrow> [] | Some w \<Rightarrow> wk_points w)) row))"

text \<open>\<open>requireRow\<close>: a one-row lookup, \<open>sql.ErrNoRows\<close> turned into the caller's error.\<close>

definition requireRow :: "(database \<Rightarrow> bool) \<Rightarrow> error \<Rightarrow> unit tx" where
  "requireRow exists_row e =
     t_bind (t_query exists_row) (\<lambda>held. t_lift (guard (\<not> held) e))"

subsection \<open>The document as a function of the database\<close>

definition document_of :: "id \<Rightarrow> database \<Rightarrow> document" where
  "document_of t d =
     \<lparr>doc_Trips = appended (map (\<lambda>r. scan_trip d (readTripCities t d (tr_id r)) r)
        (rows_by_id tr_traveller tr_id d t (trips d))),
      doc_Cities = appended (map scan_city (rows_by_id ct_traveller ct_id d t (cities d))),
      doc_Places = appended (map (\<lambda>r. scan_place (readVisits t d (pl_id r)) r)
        (rows_by_id pl_traveller pl_id d t (places d))),
      doc_Photos = appended (map scan_photo (rows_by_id ph_traveller ph_id d t (photos d))),
      doc_Walks = appended (map (\<lambda>r. scan_walk (readWalkPoints t d (wk_id r)) r)
        (rows_by_id wk_traveller wk_id d t (walks d))),
      doc_Traveller = Option.bind (find_traveller d t) tv_name\<rparr>"

lemmas read_defs = readTrips_def readCities_def readPlaces_def readPhotos_def readWalks_def
  readTravellerName_def

lemma readDocument_Inr:
  assumes "readDocument t s = (Inr doc, s')"
  shows "doc = document_of t (tx_db s) \<and> tx_db s' = tx_db s \<and> has_traveller (tx_db s) t"
proof -
  from assms obtain trs cts pls phs wks name s1 s2 s3 s4 s5 where
    r: "readTrips t s = (Inr trs, s1)" "readCities t s1 = (Inr cts, s2)"
       "readPlaces t s2 = (Inr pls, s3)" "readPhotos t s3 = (Inr phs, s4)"
       "readWalks t s4 = (Inr wks, s5)" "readTravellerName t s5 = (Inr name, s')"
    and doc: "doc = \<lparr>doc_Trips = trs, doc_Cities = cts, doc_Places = pls, doc_Photos = phs,
               doc_Walks = wks, doc_Traveller = name\<rparr>"
    unfolding readDocument_def t_bind_Inr by auto
  have db: "tx_db s1 = tx_db s" "tx_db s2 = tx_db s" "tx_db s3 = tx_db s" "tx_db s4 = tx_db s"
    "tx_db s5 = tx_db s" "tx_db s' = tx_db s"
    using r by (auto simp: read_defs t_bind_Inr dest!: t_query_Inr)
  obtain row where "find_traveller (tx_db s) t = Some row" "name = tv_name row"
    using r(6) db by (cases "find_traveller (tx_db s) t")
      (auto simp: readTravellerName_def t_bind_Inr dest!: t_query_Inr)
  then have "has_traveller (tx_db s) t" "name = Option.bind (find_traveller (tx_db s) t) tv_name"
    by (auto simp: has_traveller_def find_traveller_def dest!: find_SomeD)
  moreover have "trs = doc_Trips (document_of t (tx_db s))" "cts = doc_Cities (document_of t (tx_db s))"
    "pls = doc_Places (document_of t (tx_db s))" "phs = doc_Photos (document_of t (tx_db s))"
    "wks = doc_Walks (document_of t (tx_db s))"
    using r db by (auto simp: read_defs t_bind_Inr document_of_def dest!: t_query_Inr)
  ultimately show ?thesis using db(6) doc by (simp add: document_of_def)
qed

text \<open>With no driver fault, the read answers.\<close>

lemma t_query_fault_free [simp]: "tx_faults s = [] \<Longrightarrow> t_query q s = (Inr (q (tx_db s)), s)"
  by (simp add: t_query_def t_sql_def)

lemma t_bind_query [simp]:
  "tx_faults s = [] \<Longrightarrow> t_bind (t_query q) f s = f (q (tx_db s)) s"
  by (simp add: t_bind_def)

lemma readDocument_fault_free:
  assumes "tx_faults s = []" "has_traveller (tx_db s) t"
  shows "readDocument t s = (Inr (document_of t (tx_db s)), s)"
proof -
  obtain row where "find_traveller (tx_db s) t = Some row"
    using assms(2) by (cases "find_traveller (tx_db s) t")
      (auto simp: has_traveller_def find_traveller_def find_None)
  with assms(1) show ?thesis
    by (simp add: readDocument_def read_defs t_bind_def t_lift_def t_return_def document_of_def)
qed

subsection \<open>Only the traveller's own rows, and no media object\<close>

lemma rows_by_id_filter: "rows_by_id tr k d t (filter (\<lambda>r. tr r = t) rows) = rows_by_id tr k d t rows"
  by (simp add: rows_by_id_def)

lemma rows_by_id_collate:
  "collate d' = collate d \<Longrightarrow> rows_by_id tr k d' t rows = rows_by_id tr k d t rows"
  by (simp add: rows_by_id_def)

lemma shared_flag_view: "shared_flag (log_view t d) t trip = shared_flag d t trip"
  by (auto simp: shared_flag_def log_view_def list_ex_iff)

lemma set_rows_by_id: "set (rows_by_id tr k d t rows) = {r \<in> set rows. tr r = t}"
  by (auto simp: rows_by_id_def)

lemma document_of_log_view: "document_of t (log_view t d) = document_of t d"
proof -
  let ?v = "log_view t d"
  have tables: "collate ?v = collate d" "cities ?v = filter (\<lambda>r. ct_traveller r = t) (cities d)"
    "trips ?v = filter (\<lambda>r. tr_traveller r = t) (trips d)"
    "trip_cities ?v = filter (\<lambda>r. tc_traveller r = t) (trip_cities d)"
    "places ?v = filter (\<lambda>r. pl_traveller r = t) (places d)"
    "visits ?v = filter (\<lambda>r. vs_traveller r = t) (visits d)"
    "photos ?v = filter (\<lambda>r. ph_traveller r = t) (photos d)"
    "walks ?v = filter (\<lambda>r. wk_traveller r = t) (walks d)"
    "find_traveller ?v t = find_traveller d t"
    by (simp_all add: log_view_def find_traveller_def find_cong_filter)
  have rows: "rows_by_id tr k ?v t rows = rows_by_id tr k d t rows" for tr k and rows :: "'r list"
    by (rule rows_by_id_collate) (rule tables(1))
  have groups: "readTripCities t ?v = readTripCities t d" "readVisits t ?v = readVisits t d"
    "readWalkPoints t ?v = readWalkPoints t d"
    by (simp_all add: readTripCities_def readVisits_def readWalkPoints_def tables rows
        rows_by_id_filter rows_by_id_collate [OF tables(1)])
  have scan: "appended (map (\<lambda>r. scan_trip ?v (readTripCities t d (tr_id r)) r)
        (rows_by_id tr_traveller tr_id d t (trips d))) =
      appended (map (\<lambda>r. scan_trip d (readTripCities t d (tr_id r)) r)
        (rows_by_id tr_traveller tr_id d t (trips d)))"
    by (rule arg_cong [where f = appended], rule map_cong)
      (auto simp: scan_trip_def shared_flag_view set_rows_by_id)
  show ?thesis
    by (simp add: document_of_def tables groups rows_by_id_filter rows_by_id_collate [OF tables(1)]
        scan)
qed

lemma document_of_cong: "log_view t d' = log_view t d \<Longrightarrow> document_of t d' = document_of t d"
  by (metis document_of_log_view)

lemma log_view_of_view: "view t d' = view t d \<Longrightarrow> log_view t d' = log_view t d"
  by (simp add: log_view_def)

subsection \<open>Reads change nothing\<close>

lemma read_rels [rel_intros]:
  assumes "tx_preorder R"
  shows "tx_rel R (readDocument t)" "tx_rel R (readOneTrip t i)" "tx_rel R (readOneCity t i)"
    "tx_rel R (readOnePlace t i)" "tx_rel R (readOnePhoto t i)" "tx_rel R (readOneWalk t i)"
    "tx_rel R (requireRow ex e)"
  by (auto simp: readDocument_def read_defs readOneTrip_def readOneCity_def readOnePlace_def
      readOnePhoto_def readOneWalk_def requireRow_def
      intro!: tx_preorder.rel_bind [OF assms] tx_preorder.rel_query [OF assms]
        tx_preorder.rel_lift [OF assms] tx_preorder.rel_return [OF assms]
        tx_preorder.rel_option [OF assms])

subsection \<open>A row read back is the row of the document\<close>

lemma insort_key_const_fst:
  assumes "g a = c" "\<forall>x \<in> set xs. g x = c"
  shows "insort_key (\<lambda>x. (g x, f x)) a xs = insort_key f a xs"
  using assms by (induction xs) auto

lemma sort_key_const_fst:
  assumes "\<forall>x \<in> set xs. g x = c"
  shows "sort_key (\<lambda>x. (g x, f x)) xs = sort_key f xs"
  using assms
proof (induction xs)
  case (Cons a xs)
  then show ?case by (simp add: insort_key_const_fst [of g a c])
qed simp

definition itinerary :: "database \<Rightarrow> id \<Rightarrow> id \<Rightarrow> id list" where
  "itinerary d t i =
     map tc_city (sort_key tc_ordinal
       (filter (\<lambda>r. tc_traveller r = t \<and> tc_trip r = i) (trip_cities d)))"

lemma filter_twice: "filter p (filter q xs) = filter (\<lambda>x. q x \<and> p x) xs"
  by simp

lemma readTripCities_itinerary: "readTripCities t d i = appended (itinerary d t i)"
proof -
  let ?rows = "filter (\<lambda>r. tc_traveller r = t \<and> tc_trip r = i) (trip_cities d)"
  have "filter (\<lambda>r. tc_trip r = i) (sort_key (\<lambda>r. (collate d (tc_trip r), tc_ordinal r))
          (filter (\<lambda>r. tc_traveller r = t) (trip_cities d))) =
        sort_key (\<lambda>r. (collate d (tc_trip r), tc_ordinal r)) ?rows"
    by (simp add: filter_sort filter_twice del: filter_filter)
  also have "\<dots> = sort_key tc_ordinal ?rows"
    by (rule sort_key_const_fst [where c = "collate d i"]) simp
  finally show ?thesis
    by (simp add: readTripCities_def grouped_def itinerary_def)
qed

lemma find_trip_Some: "find_trip d t i = Some r \<Longrightarrow> r \<in> set (trips d) \<and> tr_traveller r = t \<and> tr_id r = i"
  by (auto simp: find_trip_def tr_key_def dest!: find_SomeD)

lemma readOneTrip_Inr:
  assumes "readOneTrip t i s = (Inr x, s')"
  obtains row where "find_trip (tx_db s) t i = Some row"
    "x = scan_trip (tx_db s) (appended (itinerary (tx_db s) t i)) row" "tx_db s' = tx_db s"
proof -
  from assms obtain r s1 where
    r: "t_query (\<lambda>d. map_option (scan_trip d None) (find_trip d t i)) s = (Inr r, s1)" and
    x: "(case r of None \<Rightarrow> t_lift (Inl ErrNoTrip) | Some trp \<Rightarrow>
         t_query (\<lambda>d. trp\<lparr>trip_CityIDs := appended (itinerary d t i)\<rparr>)) s1 = (Inr x, s')"
    unfolding readOneTrip_def itinerary_def t_bind_Inr by auto
  from t_query_Inr [OF r] have r': "r = map_option (scan_trip (tx_db s) None) (find_trip (tx_db s) t i)"
    and s1: "tx_db s1 = tx_db s" by auto
  with x obtain row where row: "find_trip (tx_db s) t i = Some row"
    by (cases "find_trip (tx_db s) t i") auto
  with x r' have "t_query (\<lambda>d. (scan_trip (tx_db s) None row)\<lparr>trip_CityIDs := appended (itinerary d t i)\<rparr>) s1 =
      (Inr x, s')" by simp
  from t_query_Inr [OF this] s1 row show thesis
    using that by (simp add: scan_trip_def)
qed

lemma readOneTrip_calm:
  assumes "find_trip d t i = Some row"
  shows "readOneTrip t i (calm d) = (Inr (scan_trip d (appended (itinerary d t i)) row), calm d)"
  using assms by (simp add: readOneTrip_def itinerary_def scan_trip_def)

lemma trip_in_document:
  assumes "find_trip d t i = Some row"
  shows "scan_trip d (appended (itinerary d t i)) row \<in> set (items (doc_Trips (document_of t d)))"
  using find_trip_Some [OF assms]
  by (auto simp: document_of_def set_rows_by_id readTripCities_itinerary)

definition occasions :: "database \<Rightarrow> id \<Rightarrow> id \<Rightarrow> visit_row list" where
  "occasions d t p = filter (\<lambda>v. vs_traveller v = t \<and> vs_place v = p) (visits d)"

definition visit_list :: "database \<Rightarrow> id \<Rightarrow> id \<Rightarrow> visit list" where
  "visit_list d t p =
     map scan_visit (sort_key (\<lambda>v. (vs_ordinal v, collate d (vs_id v))) (occasions d t p))"

lemma readVisits_list: "readVisits t d p = appended (visit_list d t p)"
proof -
  let ?k = "\<lambda>r. (collate d (vs_place r), vs_ordinal r, collate d (vs_id r))"
  have "filter (\<lambda>r. vs_place r = p) (sort_key ?k
          (filter (\<lambda>r. vs_traveller r = t) (visits d))) =
        sort_key ?k (occasions d t p)"
    by (simp add: filter_sort occasions_def filter_twice del: filter_filter)
  also have "\<dots> = sort_key (\<lambda>v. (vs_ordinal v, collate d (vs_id v))) (occasions d t p)"
    by (rule sort_key_const_fst [where c = "collate d p"]) (simp add: occasions_def)
  finally show ?thesis
    by (simp add: readVisits_def grouped_def visit_list_def)
qed

lemma readOnePlace_Inr:
  assumes "readOnePlace t i s = (Inr x, s')"
  obtains row where "find_place (tx_db s) t i = Some row"
    "x = scan_place (appended (visit_list (tx_db s) t i)) row" "tx_db s' = tx_db s"
proof -
  from assms obtain r s1 where r: "t_query (\<lambda>d. find_place d t i) s = (Inr r, s1)" and
    x: "(case r of None \<Rightarrow> t_lift (Inl ErrNoPlace) | Some row \<Rightarrow>
         t_query (\<lambda>d. scan_place (appended (visit_list d t i)) row)) s1 = (Inr x, s')"
    unfolding readOnePlace_def visit_list_def occasions_def t_bind_Inr by auto
  from t_query_Inr [OF r] have r': "r = find_place (tx_db s) t i" and s1: "tx_db s1 = tx_db s"
    by auto
  with x obtain row where row: "find_place (tx_db s) t i = Some row"
    by (cases "find_place (tx_db s) t i") auto
  with x r' have "t_query (\<lambda>d. scan_place (appended (visit_list d t i)) row) s1 = (Inr x, s')"
    by simp
  from t_query_Inr [OF this] s1 row show thesis using that by simp
qed

lemma readOnePlace_calm:
  assumes "find_place d t i = Some row"
  shows "readOnePlace t i (calm d) = (Inr (scan_place (appended (visit_list d t i)) row), calm d)"
  using assms by (simp add: readOnePlace_def visit_list_def occasions_def)

lemma place_in_document:
  assumes "find_place d t i = Some row"
  shows "scan_place (appended (visit_list d t i)) row \<in> set (items (doc_Places (document_of t d)))"
proof -
  have "row \<in> set (places d)" "pl_traveller row = t" "pl_id row = i"
    using assms by (auto simp: find_place_def pl_key_def dest!: find_SomeD)
  then show ?thesis by (auto simp: document_of_def set_rows_by_id readVisits_list)
qed

lemma readDocument_calm:
  "has_traveller d t \<Longrightarrow> readDocument t (calm d) = (Inr (document_of t d), calm d)"
  using readDocument_fault_free [of "calm d" t] by simp

lemma readDocument_raises: "raises (insert ErrNoTraveller (range ErrDB)) (readDocument t)"
  unfolding readDocument_def read_defs
  by (intro raises_intros) (auto split: option.splits)

end
