(* ===== verification/Sample.thy ===== *)
theory Sample
  imports Schema Store_Read
begin

section \<open>A small log\<close>

text \<open>
  One database the witnesses are evaluated on: a traveller with one committed photograph, a city,
  two trips, a place with two occasions, two photographs filed there, a walk and a live share
  link. Text sorts bytewise, \<open>timestamptz\<close> keeps microseconds and \<open>date\<close> keeps whole days.
\<close>

definition asset_a :: digest where "asset_a = replicate 64 CHR ''a''"
definition hash_a :: digest where "hash_a = replicate 32 CHR ''h''"

definition sample :: database where
  "sample = \<lparr>
     collate = (\<lambda>i. i), to_timestamptz = (\<lambda>n. n div 1000 * 1000),
     to_date = (\<lambda>n. n div 86400000000000 * 86400000000000),
     travellers = [\<lparr>tv_id = ''u1'', tv_email = ''a@b'', tv_name = None, tv_version = 3\<rparr>,
                   \<lparr>tv_id = ''u2'', tv_email = ''c@d'', tv_name = Some ''Ana'', tv_version = 7\<rparr>],
     media_objects = [\<lparr>md_traveller = ''u1'', md_id = asset_a, md_size = 10,
        md_type = ''image/jpeg'', md_created = 1000, md_uploaded = Some 2000\<rparr>],
     cities = [\<lparr>ct_traveller = ''u1'', ct_id = ''c1'', ct_name = ''Porto'',
        ct_country = \<lparr>Code = ''PT'', CountryName = ''Portugal''\<rparr>,
        ct_centre = \<lparr>Lat = 41, Lng = -8\<rparr>, ct_cover = None\<rparr>],
     trips = [\<lparr>tr_traveller = ''u1'', tr_id = ''t1'', tr_name = ''Norte'', tr_started = Some 0,
        tr_ended = None, tr_summary = None, tr_cover = Some asset_a, tr_share_photos = True,
        tr_share_notes = True, tr_share_coordinates = False\<rparr>,
        \<lparr>tr_traveller = ''u1'', tr_id = ''t2'', tr_name = ''Sul'', tr_started = None,
        tr_ended = None, tr_summary = None, tr_cover = None, tr_share_photos = True,
        tr_share_notes = True, tr_share_coordinates = False\<rparr>],
     trip_cities = [\<lparr>tc_traveller = ''u1'', tc_trip = ''t1'', tc_city = ''c1'', tc_ordinal = 0\<rparr>],
     places = [\<lparr>pl_traveller = ''u1'', pl_id = ''p1'', pl_city = ''c1'', pl_name = ''Ribeira'',
        pl_at = \<lparr>Lat = 41, Lng = -8\<rparr>, pl_plan = None, pl_cover = None\<rparr>],
     visits = [\<lparr>vs_traveller = ''u1'', vs_id = ''v1'', vs_place = ''p1'', vs_trip = ''t1'',
        vs_ordinal = 0, vs_at = 9000, vs_note = None\<rparr>,
        \<lparr>vs_traveller = ''u1'', vs_id = ''v2'', vs_place = ''p1'', vs_trip = ''t2'',
        vs_ordinal = 1, vs_at = 5000, vs_note = Some ''again''\<rparr>],
     photos = [\<lparr>ph_traveller = ''u1'', ph_id = ''f1'', ph_trip = ''t1'', ph_city = ''c1'',
        ph_place = Some ''p1'', ph_visit = Some ''v1'', ph_taken = 9000, ph_asset = asset_a,
        ph_caption = None, ph_lat = None, ph_lng = None, ph_accuracy = None, ph_later = None\<rparr>,
        \<lparr>ph_traveller = ''u1'', ph_id = ''f2'', ph_trip = ''t2'', ph_city = ''c1'',
        ph_place = None, ph_visit = None, ph_taken = 5000, ph_asset = asset_a,
        ph_caption = Some ''dusk'', ph_lat = None, ph_lng = None, ph_accuracy = None,
        ph_later = None\<rparr>],
     walks = [\<lparr>wk_traveller = ''u1'', wk_id = ''w1'', wk_trip = ''t1'', wk_city = ''c1'',
        wk_recorded = 0, wk_distance = 3, wk_points = [\<lparr>Lat = 41, Lng = -8\<rparr>],
        wk_name = None, wk_dismissed = False\<rparr>],
     share_links = [\<lparr>sh_traveller = ''u1'', sh_trip = ''t1'', sh_hash = hash_a,
        sh_created = 100, sh_revoked = None\<rparr>]\<rparr>"

lemma sample_ok: "schema_ok sample"
  by code_simp

lemma sample_open: "open_for ''u1'' sample"
  by code_simp

lemma ran:
  assumes "\<not> isl (fst (m s))"
  obtains x s' where "m s = (Inr x, s')"
  using assms by (cases "m s") (auto simp: isl_def, metis sum.exhaust)

end
