(* ===== verification/Logbook_Validate.thy ===== *)
theory Logbook_Validate
  imports Logbook_Types
begin

section \<open>What a write may contain\<close>

text \<open>
  The shape rules of \<^verbatim>\<open>internal/logbook/validate.go\<close>, \<^verbatim>\<open>geography.go\<close>, \<^verbatim>\<open>photo.go\<close>,
  \<^verbatim>\<open>walk.go\<close> and \<^verbatim>\<open>share.go\<close>, and the rules of \<^verbatim>\<open>writable.go\<close> that are decided with a
  fact from storage. Every function answers the field of the first rule that fails, in the order
  of the source. The lemmas characterise acceptance of each validator.
\<close>

abbreviation (input) invalid :: "string \<Rightarrow> error" where "invalid \<equiv> InvalidField"

subsection \<open>Bounds\<close>

definition MaxNameBytes :: nat where "MaxNameBytes = 200"
definition MaxSummaryBytes :: nat where "MaxSummaryBytes = 4096"
definition MaxNoteBytes :: nat where "MaxNoteBytes = 4096"
definition MaxCaptionBytes :: nat where "MaxCaptionBytes = 4096"
definition MaxWalkPoints :: nat where "MaxWalkPoints = 500"
definition MaxMintIDs :: nat where "MaxMintIDs = 100"

subsection \<open>Shared checks\<close>

text \<open>The loops over an id list with a \<open>seen\<close> map: \<open>checkCityIDs\<close> and \<open>ValidateSnooze\<close>.\<close>

fun checkIDs :: "string \<Rightarrow> id list \<Rightarrow> id list \<Rightarrow> error + unit" where
  "checkIDs field seen [] = Inr ()"
| "checkIDs field seen (i # ids) =
     (if \<not> idPattern i then Inl (invalid field)
      else if i \<in> set seen then Inl (invalid field)
      else checkIDs field (i # seen) ids)"

definition checkCityIDs :: "id list \<Rightarrow> error + unit" where
  "checkCityIDs ids = checkIDs ''cityIds'' [] ids"

definition checkName :: "string \<Rightarrow> string \<Rightarrow> error + unit" where
  "checkName name field = first_error
     [guard (TrimSpace name = []) (invalid field),
      guard (MaxNameBytes < length name) (invalid field)]"

definition checkLatLng :: "latlng \<Rightarrow> string \<Rightarrow> error + unit" where
  "checkLatLng pt field = first_error
     [guard (Lat pt < -90 \<or> 90 < Lat pt) (invalid field),
      guard (Lng pt < -180 \<or> 180 < Lng pt) (invalid field)]"

fun checkVisits :: "id list \<Rightarrow> visit list \<Rightarrow> id \<Rightarrow> error + unit" where
  "checkVisits seen [] placeID = Inr ()"
| "checkVisits seen (v # vs) placeID =
     (if \<not> idPattern (visit_ID v) then Inl (invalid ''visits'')
      else if visit_ID v \<in> set seen then Inl (invalid ''visits'')
      else if \<not> idPattern (visit_TripID v) then Inl (invalid ''visits'')
      else if visit_PlaceID v \<noteq> [] \<and> visit_PlaceID v \<noteq> placeID then Inl (invalid ''visits'')
      else if (case visit_Note v of None \<Rightarrow> False | Some n \<Rightarrow> MaxNoteBytes < length n)
           then Inl (invalid ''visits'')
      else checkVisits (visit_ID v # seen) vs placeID)"

definition checkPoints :: "latlng list \<Rightarrow> error + unit" where
  "checkPoints points = first_error
     ([guard (points = []) (invalid ''points''),
       guard (MaxWalkPoints < length points) (invalid ''points'')] @
      map (\<lambda>p. checkLatLng p ''points'') points)"

subsection \<open>The validators\<close>

definition ends_before_start :: "instant option \<Rightarrow> instant option \<Rightarrow> bool" where
  "ends_before_start start end =
     (case (start, end) of (Some s, Some e) \<Rightarrow> e < s | _ \<Rightarrow> False)"

definition bad_id :: "id option \<Rightarrow> bool" where
  "bad_id i = (case i of None \<Rightarrow> True | Some s \<Rightarrow> \<not> idPattern s)"

definition ValidateTrip :: "trip_write \<Rightarrow> error + unit" where
  "ValidateTrip t = first_error
     [guard (bad_id (tw_ID t)) (invalid ''id''),
      when_sent (tw_Name t) (\<lambda>name. checkName name ''name''),
      when_sent (Value (tw_Summary t))
        (\<lambda>s. guard (MaxSummaryBytes < length s) (invalid ''summary'')),
      when_sent (tw_CityIDs t) checkCityIDs,
      when_sent (Value (tw_CoverAsset t))
        (\<lambda>c. guard (\<not> assetPattern c) (invalid ''coverAsset'')),
      guard (ends_before_start (Value (tw_Start t)) (Value (tw_End t))) (invalid ''end'')]"

definition ValidateCity :: "city_write \<Rightarrow> error + unit" where
  "ValidateCity c = first_error
     [guard (bad_id (cw_ID c)) (invalid ''id''),
      when_sent (cw_Name c) (\<lambda>name. checkName name ''name''),
      when_sent (cw_Country c) (\<lambda>k. first_error
        [guard (\<not> countryCodePattern (Code k)) (invalid ''country''),
         guard (TrimSpace (CountryName k) = []) (invalid ''country'')]),
      when_sent (cw_Centre c) (\<lambda>pt. checkLatLng pt ''centre''),
      when_sent (Value (cw_CoverAsset c))
        (\<lambda>a. guard (\<not> assetPattern a) (invalid ''coverAsset'')),
      when_sent (cw_AttachTo c) (\<lambda>t. guard (\<not> idPattern t) (invalid ''attachTo''))]"

definition ValidatePlace :: "place_write \<Rightarrow> error + unit" where
  "ValidatePlace p = first_error
     [guard (bad_id (pw_ID p)) (invalid ''id''),
      when_sent (pw_CityID p) (\<lambda>c. guard (\<not> idPattern c) (invalid ''cityId'')),
      when_sent (pw_Name p) (\<lambda>name. checkName name ''name''),
      when_sent (pw_Coordinates p) (\<lambda>pt. checkLatLng pt ''coordinates''),
      when_sent (Value (pw_Plan p))
        (\<lambda>s. guard (MaxNoteBytes < length s) (invalid ''plan'')),
      when_sent (Value (pw_CoverAsset p))
        (\<lambda>a. guard (\<not> assetPattern a) (invalid ''coverAsset'')),
      when_sent (pw_Visits p) (\<lambda>vs. checkVisits [] vs (the (pw_ID p)))]"

definition ValidatePhoto :: "photo_write \<Rightarrow> error + unit" where
  "ValidatePhoto p = first_error
     [guard (bad_id (fw_ID p)) (invalid ''id''),
      when_sent (fw_TripID p) (\<lambda>t. guard (\<not> idPattern t) (invalid ''tripId'')),
      when_sent (fw_CityID p) (\<lambda>c. guard (\<not> idPattern c) (invalid ''cityId'')),
      when_sent (fw_Asset p) (\<lambda>a. guard (\<not> assetPattern a) (invalid ''asset'')),
      when_sent (Value (fw_Caption p))
        (\<lambda>s. guard (MaxCaptionBytes < length s) (invalid ''caption'')),
      when_sent (Value (fw_Coordinates p)) (\<lambda>pt. checkLatLng pt ''coordinates''),
      when_sent (Value (fw_AccuracyMetres p))
        (\<lambda>m. guard (m < 0) (invalid ''accuracyMetres''))]"

definition ValidateSnooze :: "snooze_write \<Rightarrow> error + unit" where
  "ValidateSnooze s =
     (case sw_PhotoIDs s of
        None \<Rightarrow> Inl (invalid ''photoIds'')
      | Some ids \<Rightarrow>
          (case sw_Until s of
             None \<Rightarrow> Inl (invalid ''until'')
           | Some _ \<Rightarrow> checkIDs ''photoIds'' [] ids))"

definition refilePresence :: "refile_write \<Rightarrow> error + unit" where
  "refilePresence w = first_error
     [guard (rw_PlaceID w = None) (invalid ''placeId''),
      guard (rw_VisitID w = None) (invalid ''visitId'')]"

definition ValidateRefile :: "refile_write \<Rightarrow> error + unit" where
  "ValidateRefile r = first_error
     [refilePresence r,
      when_sent (rw_PlaceID r) (\<lambda>p. guard (\<not> idPattern p) (invalid ''placeId'')),
      when_sent (rw_VisitID r) (\<lambda>v. guard (\<not> idPattern v) (invalid ''visitId''))]"

definition ValidateWalk :: "walk_write \<Rightarrow> error + unit" where
  "ValidateWalk w = first_error
     [guard (bad_id (ww_ID w)) (invalid ''id''),
      when_sent (ww_TripID w) (\<lambda>t. guard (\<not> idPattern t) (invalid ''tripId'')),
      when_sent (ww_CityID w) (\<lambda>c. guard (\<not> idPattern c) (invalid ''cityId'')),
      when_sent (ww_DistanceKm w) (\<lambda>d. guard (d < 0) (invalid ''distanceKm'')),
      when_sent (Value (ww_Name w)) (\<lambda>name. checkName name ''name''),
      when_sent (ww_Points w) checkPoints]"

definition ValidateShareMint :: "string option \<Rightarrow> error + unit" where
  "ValidateShareMint token =
     (case token of
        None \<Rightarrow> Inl (invalid ''token'')
      | Some t \<Rightarrow> guard (\<not> shareTokenPattern t) (invalid ''token''))"

subsection \<open>Media bodies\<close>

definition allowedContentTypes :: "string list" where
  "allowedContentTypes = [''image/jpeg'', ''image/png'']"

text \<open>
  \<open>contentTypeExpression\<close> turns the allowlist into the anchored alternation
  \<open>^image/(\<dots>|\<dots>)$\<close>; matching it is being \<open>image/\<close> followed by one of the subtypes.
\<close>

definition ContentTypeAllowed :: "string \<Rightarrow> bool" where
  "ContentTypeAllowed mediaType =
     list_ex (\<lambda>t. mediaType = ''image/'' @ TrimPrefix ''image/'' t) allowedContentTypes"

definition ValidateMediaBegin :: "media_begin \<Rightarrow> int \<Rightarrow> error + unit" where
  "ValidateMediaBegin b maxBytes = first_error
     [guard (case mb_SHA256 b of None \<Rightarrow> True | Some s \<Rightarrow> \<not> assetPattern s) (invalid ''sha256''),
      guard (case mb_ContentType b of None \<Rightarrow> True | Some t \<Rightarrow> \<not> ContentTypeAllowed t)
        (invalid ''contentType''),
      guard (case mb_ByteSize b of None \<Rightarrow> True | Some n \<Rightarrow> n \<le> 0) (invalid ''byteSize''),
      guard (case mb_ByteSize b of None \<Rightarrow> False | Some n \<Rightarrow> maxBytes < n) (invalid ''byteSize'')]"

definition ValidateMediaMint :: "id list option \<Rightarrow> error + unit" where
  "ValidateMediaMint ids =
     (case ids of
        None \<Rightarrow> Inl (invalid ''ids'')
      | Some xs \<Rightarrow> first_error
          ([guard (xs = []) (invalid ''ids''),
            guard (MaxMintIDs < length xs) (invalid ''ids'')] @
           map (\<lambda>i. guard (\<not> assetPattern i) (invalid ''ids'')) xs))"

definition ValidateMediaID :: "id \<Rightarrow> error + unit" where
  "ValidateMediaID i = guard (\<not> assetPattern i) (invalid ''id'')"

subsection \<open>Rules decided under the traveller's lock (\<^verbatim>\<open>writable.go\<close>)\<close>

definition CheckWriteID :: "id option \<Rightarrow> error + unit" where
  "CheckWriteID i = guard (i = None) (invalid ''id'')"

definition firstMissing :: "(bool \<times> string) list \<Rightarrow> error + unit" where
  "firstMissing missing = first_error (map (\<lambda>(absent, field). guard absent (invalid field)) missing)"

definition CheckCityWritable :: "bool \<Rightarrow> city_write \<Rightarrow> error + unit" where
  "CheckCityWritable isCreate w =
     (if \<not> isCreate then Inr ()
      else firstMissing
        [(cw_Name w = None, ''name''), (cw_Country w = None, ''country''),
         (cw_Centre w = None, ''centre'')])"

definition CheckPlaceWritable :: "bool \<Rightarrow> place_write \<Rightarrow> error + unit" where
  "CheckPlaceWritable isCreate w =
     (if \<not> isCreate then Inr ()
      else firstMissing
        [(pw_CityID w = None, ''cityId''), (pw_Name w = None, ''name''),
         (pw_Coordinates w = None, ''coordinates'')])"

definition CheckWalkWritable :: "bool \<Rightarrow> walk_write \<Rightarrow> error + unit" where
  "CheckWalkWritable isCreate w =
     (if \<not> isCreate then Inr ()
      else firstMissing
        [(ww_TripID w = None, ''tripId''), (ww_CityID w = None, ''cityId''),
         (ww_RecordedOn w = None, ''recordedOn''), (ww_DistanceKm w = None, ''distanceKm''),
         (ww_Points w = None, ''points'')])"

definition CheckPhotoWritable :: "bool \<Rightarrow> photo_write \<Rightarrow> error + unit" where
  "CheckPhotoWritable isCreate w =
     (if \<not> isCreate then Inr ()
      else firstMissing
        [(fw_TripID w = None, ''tripId''), (fw_CityID w = None, ''cityId''),
         (fw_TakenAt w = None, ''takenAt''), (fw_Asset w = None, ''asset'')])"

definition CheckTripWritable ::
  "bool \<Rightarrow> instant option \<Rightarrow> instant option \<Rightarrow> trip_write \<Rightarrow> error + unit" where
  "CheckTripWritable isCreate beforeStart beforeEnd w =
     (if isCreate \<and> tw_Name w = None then Inl (invalid ''name'')
      else
        let start = (if Sent (tw_Start w) then Value (tw_Start w) else beforeStart);
            end = (if Sent (tw_End w) then Value (tw_End w) else beforeEnd)
        in guard (ends_before_start start end) (invalid ''end''))"

definition CheckTravellerName :: "string \<Rightarrow> error + string" where
  "CheckTravellerName name =
     (let trimmed = TrimSpace name
      in if trimmed = [] then Inl (invalid ''name'')
         else if MaxNameBytes < length trimmed then Inl (invalid ''name'')
         else Inr trimmed)"

definition CheckSnoozeWritable :: "snooze_write \<Rightarrow> error + unit" where
  "CheckSnoozeWritable w = guard (sw_PhotoIDs w = None \<or> sw_Until w = None) (invalid ''photoIds'')"

definition CheckRefileWritable :: "refile_write \<Rightarrow> error + unit" where
  "CheckRefileWritable w = refilePresence w"

definition CheckRefilePlace :: "id \<Rightarrow> id \<Rightarrow> error + unit" where
  "CheckRefilePlace placeCity photoCity = guard (placeCity \<noteq> photoCity) (invalid ''placeId'')"

definition CheckNewOccasionHasAMoment :: "instant option \<Rightarrow> error + unit" where
  "CheckNewOccasionHasAMoment pt = guard (pt = None) (invalid ''visitAt'')"

definition CheckOccasionBelongsHere :: "id \<Rightarrow> id \<Rightarrow> id \<Rightarrow> id \<Rightarrow> error + unit" where
  "CheckOccasionBelongsHere heldPlace wantPlace heldTrip wantTrip = first_error
     [guard (heldPlace \<noteq> wantPlace) (invalid ''visitId''),
      guard (heldTrip \<noteq> wantTrip) (invalid ''visitId'')]"

definition CheckClearingVisits :: "nat \<Rightarrow> error + unit" where
  "CheckClearingVisits occasions = guard (occasions \<noteq> 0) (invalid ''visits'')"

definition ParsePhotoDisposition :: "string \<Rightarrow> error + PhotoDisposition" where
  "ParsePhotoDisposition raw =
     (if raw = ''keep'' then Inr KeepPhotos
      else if raw = ''delete'' then Inr DeletePhotos
      else Inl (invalid ''photos''))"

definition CheckPhotoDisposition :: "PhotoDisposition \<Rightarrow> error + unit" where
  "CheckPhotoDisposition photos =
     (case photos of
        KeepPhotos \<Rightarrow> Inr ()
      | DeletePhotos \<Rightarrow> Inr ()
      | photosUnspecified \<Rightarrow>
          (case ParsePhotoDisposition [] of Inl e \<Rightarrow> Inl e | Inr _ \<Rightarrow> Inr ()))"

subsection \<open>Normalisation before storage\<close>

definition StoredCaption :: "string option option \<Rightarrow> string option" where
  "StoredCaption sent =
     (case Value sent of
        None \<Rightarrow> None
      | Some v \<Rightarrow> (let trimmed = TrimSpace v in if trimmed = [] then None else Some trimmed))"

definition storedWalkName :: "string option option \<Rightarrow> string option" where
  "storedWalkName sent = map_option TrimSpace (Value sent)"

subsection \<open>Acceptance, characterised\<close>

lemma checkIDs_ok:
  "checkIDs field seen ids = Inr () \<longleftrightarrow>
     list_all idPattern ids \<and> distinct ids \<and> set ids \<inter> set seen = {}"
  by (induction field seen ids rule: checkIDs.induct) auto

lemma checkCityIDs_ok: "checkCityIDs ids = Inr () \<longleftrightarrow> list_all idPattern ids \<and> distinct ids"
  by (simp add: checkCityIDs_def checkIDs_ok)

lemma checkName_ok: "checkName n f = Inr () \<longleftrightarrow> TrimSpace n \<noteq> [] \<and> length n \<le> MaxNameBytes"
  by (auto simp: checkName_def)

lemma checkLatLng_ok:
  "checkLatLng pt f = Inr () \<longleftrightarrow> \<bar>Lat pt\<bar> \<le> 90 \<and> \<bar>Lng pt\<bar> \<le> 180"
  by (auto simp: checkLatLng_def abs_le_iff)

definition visit_shape :: "id \<Rightarrow> visit \<Rightarrow> bool" where
  "visit_shape placeID v \<longleftrightarrow> idPattern (visit_ID v) \<and> idPattern (visit_TripID v) \<and>
     (visit_PlaceID v = [] \<or> visit_PlaceID v = placeID) \<and>
     (\<forall>n. visit_Note v = Some n \<longrightarrow> length n \<le> MaxNoteBytes)"

lemma checkVisits_ok:
  "checkVisits seen vs p = Inr () \<longleftrightarrow>
     list_all (visit_shape p) vs \<and> distinct (map visit_ID vs) \<and>
     visit_ID ` set vs \<inter> set seen = {}"
  by (induction seen vs p rule: checkVisits.induct)
    (auto simp: visit_shape_def split: option.splits)

lemma checkPoints_ok:
  "checkPoints ps = Inr () \<longleftrightarrow>
     ps \<noteq> [] \<and> length ps \<le> MaxWalkPoints \<and> (\<forall>p \<in> set ps. \<bar>Lat p\<bar> \<le> 90 \<and> \<bar>Lng p\<bar> \<le> 180)"
  by (auto simp: checkPoints_def checkLatLng_ok)

lemma bad_id_iff: "bad_id i \<longleftrightarrow> (\<nexists>s. i = Some s \<and> idPattern s)"
  by (auto simp: bad_id_def split: option.splits)

lemmas checks_ok = when_sent_ok checkCityIDs_ok checkName_ok checkLatLng_ok
  checkVisits_ok checkPoints_ok checkIDs_ok

lemma firstMissing_ok:
  "firstMissing ms = Inr () \<longleftrightarrow> (\<forall>(absent, field) \<in> set ms. \<not> absent)"
  by (auto simp: firstMissing_def)

lemma StoredCaption_nonempty: "StoredCaption sent \<noteq> Some []"
  by (simp add: StoredCaption_def Let_def split: option.splits)

lemma CheckTravellerName_ok:
  "CheckTravellerName name = Inr n \<longleftrightarrow> n = TrimSpace name \<and> n \<noteq> [] \<and> length n \<le> MaxNameBytes"
  by (auto simp: CheckTravellerName_def Let_def)

end
