(* ===== verification/Store_Trip.thy ===== *)
theory Store_Trip
  imports Sample Logbook_Validate
begin

section \<open>Trips and the traveller's name (\<^verbatim>\<open>internal/postgres/logbook_store.go\<close>, the write half)\<close>

text \<open>
  \<open>PutTrip\<close>, \<open>SetTravellerName\<close> and \<open>DeleteTrip\<close>, each as the body of one \<open>WithTravellerTx\<close>, with
  the reference checks that answer a named field before a constraint can. The first lemmas say
  that every body is \<open>sound\<close>; the rest, what a write that succeeds did, and when a write succeeds.
\<close>

subsection \<open>Reference checks\<close>

definition requireCities :: "id \<Rightarrow> id list \<Rightarrow> unit tx" where
  "requireCities t cityIDs =
     t_each (\<lambda>c. requireRow (\<lambda>d. has_city d t c) (InvalidField ''cityIds'')) cityIDs"

definition committed :: "database \<Rightarrow> id \<Rightarrow> digest \<Rightarrow> bool" where
  "committed d t a =
     list_ex (\<lambda>r. md_key r = (t, a) \<and> md_uploaded r \<noteq> None) (media_objects d)"

definition requireCover :: "id \<Rightarrow> digest option \<Rightarrow> unit tx" where
  "requireCover t asset =
     (case asset of
        None \<Rightarrow> t_return ()
      | Some a \<Rightarrow> requireRow (\<lambda>d. committed d t a) (InvalidField ''coverAsset''))"

subsection \<open>Writing a trip\<close>

record tripBeforeWrite =
  tb_name :: string
  tb_started :: "instant option"
  tb_ended :: "instant option"
  tb_isCreate :: bool

definition requireWritableTrip :: "id \<Rightarrow> id \<Rightarrow> trip_write \<Rightarrow> tripBeforeWrite tx" where
  "requireWritableTrip t i w =
     t_bind (t_query (\<lambda>d. case find_trip d t i of
         None \<Rightarrow> \<lparr>tb_name = [], tb_started = None, tb_ended = None, tb_isCreate = True\<rparr>
       | Some r \<Rightarrow> \<lparr>tb_name = tr_name r, tb_started = tr_started r, tb_ended = tr_ended r,
                    tb_isCreate = False\<rparr>)) (\<lambda>before.
     t_bind (t_lift (CheckTripWritable (tb_isCreate before) (tb_started before) (tb_ended before) w))
       (\<lambda>_. t_return before))"

text \<open>
  A new trip takes the column defaults of the three sharing flags. \<open>started_on\<close> and \<open>ended_on\<close> are
  \<open>date\<close> columns: an instant is truncated on its way in.
\<close>

definition proposed_trip :: "id \<Rightarrow> id \<Rightarrow> string \<Rightarrow> trip_write \<Rightarrow> database \<Rightarrow> trip_row" where
  "proposed_trip t i name w d =
     \<lparr>tr_traveller = t, tr_id = i, tr_name = name,
      tr_started = map_option (to_date d) (Value (tw_Start w)),
      tr_ended = map_option (to_date d) (Value (tw_End w)),
      tr_summary = Value (tw_Summary w), tr_cover = Value (tw_CoverAsset w),
      tr_share_photos = True, tr_share_notes = True, tr_share_coordinates = False\<rparr>"

definition merge_trip :: "trip_write \<Rightarrow> trip_row \<Rightarrow> trip_row \<Rightarrow> trip_row" where
  "merge_trip w new old = old\<lparr>
     tr_name := (if tw_Name w \<noteq> None then tr_name new else tr_name old),
     tr_started := (if Sent (tw_Start w) then tr_started new else tr_started old),
     tr_ended := (if Sent (tw_End w) then tr_ended new else tr_ended old),
     tr_summary := (if Sent (tw_Summary w) then tr_summary new else tr_summary old),
     tr_cover := (if Sent (tw_CoverAsset w) then tr_cover new else tr_cover old)\<rparr>"

definition upsertTripSQL ::
  "id \<Rightarrow> id \<Rightarrow> string \<Rightarrow> trip_write \<Rightarrow> database \<Rightarrow> db_error + database" where
  "upsertTripSQL t i name w =
     with_texts [Some name, Value (tw_Summary w)] (\<lambda>d.
       table_upsert trips (\<lambda>rs. trips_update (\<lambda>_. rs)) tr_key trip_ck trip_fk
         (proposed_trip t i name w d) (merge_trip w (proposed_trip t i name w d)) d)"

definition deleteTripCitiesSQL :: "id \<Rightarrow> id \<Rightarrow> database \<Rightarrow> db_error + database" where
  "deleteTripCitiesSQL t i d =
     Inr (d\<lparr>trip_cities := del_rows (\<lambda>r. tc_traveller r = t \<and> tc_trip r = i) (trip_cities d)\<rparr>)"

definition insertTripCitySQL ::
  "id \<Rightarrow> id \<Rightarrow> id \<Rightarrow> int \<Rightarrow> database \<Rightarrow> db_error + database" where
  "insertTripCitySQL t i city ordinal d =
     (let r = \<lparr>tc_traveller = t, tc_trip = i, tc_city = city, tc_ordinal = ordinal\<rparr>
      in if \<not> int4 ordinal then Inl unencodable
         else if ordinal < 0 then Inl check_violation
         else if tc_key r \<in> tc_key ` set (trip_cities d) \<or> tc_slot r \<in> tc_slot ` set (trip_cities d)
              then Inl unique_violation
         else if \<not> trip_city_fk d r then Inl foreign_key_violation
         else Inr (d\<lparr>trip_cities := trip_cities d @ [r]\<rparr>))"

definition replaceTripCities :: "id \<Rightarrow> id \<Rightarrow> id list \<Rightarrow> unit tx" where
  "replaceTripCities t i cityIDs =
     t_bind (t_exec (deleteTripCitiesSQL t i)) (\<lambda>_.
     t_each (\<lambda>(ordinal, city). t_exec (insertTripCitySQL t i city (int ordinal)))
       (enumerate 0 cityIDs))"

definition putTrip :: "id \<Rightarrow> id \<Rightarrow> trip_write \<Rightarrow> trip tx" where
  "putTrip t i w =
     t_bind (requireWritableTrip t i w) (\<lambda>before.
     t_bind (case tw_CityIDs w of None \<Rightarrow> t_return () | Some ids \<Rightarrow> requireCities t ids) (\<lambda>_.
     t_bind (requireCover t (Value (tw_CoverAsset w))) (\<lambda>_.
     t_bind (t_exec (upsertTripSQL t i (or_keep (tw_Name w) (tb_name before)) w)) (\<lambda>_.
     t_bind (case tw_CityIDs w of None \<Rightarrow> t_return () | Some ids \<Rightarrow> replaceTripCities t i ids) (\<lambda>_.
     readOneTrip t i)))))"

definition PutTrip :: "id \<Rightarrow> trip_write \<Rightarrow> (trip \<times> int) tx" where
  "PutTrip t w =
     t_bind (t_lift (CheckWriteID (tw_ID w))) (\<lambda>_.
     WithTravellerTx t (putTrip t (the (tw_ID w)) w))"

subsection \<open>The traveller's name\<close>

definition setTravellerNameSQL :: "id \<Rightarrow> string \<Rightarrow> database \<Rightarrow> db_error + database" where
  "setTravellerNameSQL t name =
     with_texts [Some name] (\<lambda>d.
       if has_traveller d t \<and> name = [] then Inl check_violation
       else Inr (d\<lparr>travellers := upd_rows (\<lambda>r. tv_id r = t) (\<lambda>r. r\<lparr>tv_name := Some name\<rparr>)
              (travellers d)\<rparr>))"

definition SetTravellerName :: "id \<Rightarrow> string \<Rightarrow> (string \<times> int) tx" where
  "SetTravellerName t name =
     t_bind (t_lift (CheckTravellerName name)) (\<lambda>trimmed.
     t_bind (WithTravellerTx t (t_exec (setTravellerNameSQL t trimmed))) (\<lambda>(_, version).
     t_return (trimmed, version)))"

subsection \<open>Deleting a trip\<close>

text \<open>The statement answers the number of rows it deleted; the rest goes by cascade.\<close>

definition deleteTripSQL :: "id \<Rightarrow> id \<Rightarrow> nat stmt" where
  "deleteTripSQL t i d =
     Inr (length (filter (\<lambda>r. tr_key r = (t, i)) (trips d)), delete_trip t i d)"

definition deleteTrip :: "id \<Rightarrow> id \<Rightarrow> document tx" where
  "deleteTrip t i =
     t_bind (t_sql (deleteTripSQL t i)) (\<lambda>gone.
     t_bind (t_lift (guard (gone = 0) ErrNothingDeleted)) (\<lambda>_. readDocument t))"

text \<open>
  The \<open>switch\<close> after a transaction whose body may have found nothing to change: the sentinel has
  rolled the bump back, and the answer is read instead.
\<close>

definition on_miss :: "error \<Rightarrow> 'b tx \<Rightarrow> ('a \<Rightarrow> 'b) \<Rightarrow> 'a tx \<Rightarrow> 'b tx" where
  "on_miss miss fallback ok m s =
     (case m s of
        (Inl e, s') \<Rightarrow> if e = miss then fallback s' else (Inl e, s')
      | (Inr x, s') \<Rightarrow> (Inr (ok x), s'))"

definition whole_log :: "document \<times> int \<Rightarrow> snapshot" where
  "whole_log = (\<lambda>(doc, version). \<lparr>snap_Version = version, snap_Document = Some doc\<rparr>)"

definition DeleteTrip :: "id \<Rightarrow> id \<Rightarrow> snapshot tx" where
  "DeleteTrip t i =
     on_miss ErrNothingDeleted (LogbookRead t (\<lambda>_. True)) whole_log
       (WithTravellerTx t (deleteTrip t i))"

subsection \<open>Every statement is sound\<close>

lemma requires_sound [rel_intros]:
  "tx_rel (sound u) (requireCities t ids)" "tx_rel (sound u) (requireCover t asset)"
  "tx_rel (sound u) (requireRow ex e)" "tx_rel (sound u) (readOneTrip t i)"
  "tx_rel (sound u) (readOneCity t i)" "tx_rel (sound u) (readOnePlace t i)"
  "tx_rel (sound u) (readOnePhoto t i)" "tx_rel (sound u) (readOneWalk t i)"
  "tx_rel (sound u) (readDocument t)"
  unfolding requireCities_def requireCover_def
  by (auto intro!: rel_intros read_rels sound.tx_preorder_axioms)

lemma upsertTripSQL_sound: "upsertTripSQL t i name w d = Inr d' \<Longrightarrow> sound t d d'"
  unfolding upsertTripSQL_def with_texts_Inr
  by (elim conjE, erule trip_table.upsert_sound [rotated 2])
    (simp_all add: proposed_trip_def merge_trip_def tr_key_def)

lemma tc_del_frame:
  "frame t d (d\<lparr>trip_cities := del_rows (\<lambda>r. tc_traveller r = t \<and> tc_trip r = i) (trip_cities d)\<rparr>)"
  by (intro frame_tables filter_del_rows_other) auto

lemma schema_del_trip_cities:
  assumes "schema_ok d"
  shows "schema_ok (d\<lparr>trip_cities := del_rows p (trip_cities d)\<rparr>)"
  using assms
  by (intro schema_set_trip_cities)
    (auto simp: schema_ok_def unique_ok_def checks_hold_def refs_hold_def
      intro!: distinct_del_rows list_all_del_rows)

lemma deleteTripCitiesSQL_sound: "deleteTripCitiesSQL t i d = Inr d' \<Longrightarrow> sound t d d'"
  unfolding deleteTripCitiesSQL_def
  by (auto intro!: soundI tc_del_frame schema_del_trip_cities simp: same_travellers_def)

lemma schema_add_trip_city:
  assumes "schema_ok d" "0 \<le> tc_ordinal r" "trip_city_fk d r"
    "tc_key r \<notin> tc_key ` set (trip_cities d)" "tc_slot r \<notin> tc_slot ` set (trip_cities d)"
  shows "schema_ok (d\<lparr>trip_cities := trip_cities d @ [r]\<rparr>)"
  using assms
  by (intro schema_set_trip_cities)
    (auto simp: schema_ok_def unique_ok_def checks_hold_def refs_hold_def)

lemma insertTripCitySQL_ok:
  "insertTripCitySQL t i c n d = Inr d' \<longleftrightarrow>
     (let r = \<lparr>tc_traveller = t, tc_trip = i, tc_city = c, tc_ordinal = n\<rparr> in
        int4 n \<and> 0 \<le> n \<and> tc_key r \<notin> tc_key ` set (trip_cities d) \<and>
        tc_slot r \<notin> tc_slot ` set (trip_cities d) \<and> trip_city_fk d r \<and>
        d' = d\<lparr>trip_cities := trip_cities d @ [r]\<rparr>)"
  by (auto simp: insertTripCitySQL_def Let_def)

lemma insertTripCitySQL_sound: "insertTripCitySQL t i c n d = Inr d' \<Longrightarrow> sound t d d'"
  unfolding insertTripCitySQL_ok Let_def
  by (auto intro!: soundI frame_tables schema_add_trip_city simp: same_travellers_def)

lemma trip_statements_sound [rel_intros]:
  "tx_rel (sound t) (t_exec (upsertTripSQL t i name w))"
  "tx_rel (sound t) (t_exec (deleteTripCitiesSQL t i))"
  "tx_rel (sound t) (t_exec (insertTripCitySQL t i c n))"
  by (auto intro: sound.rel_exec upsertTripSQL_sound deleteTripCitiesSQL_sound
      insertTripCitySQL_sound)

lemma replaceTripCities_sound [rel_intros]: "tx_rel (sound t) (replaceTripCities t i ids)"
  unfolding replaceTripCities_def by (intro rel_intros)

lemma putTrip_sound: "tx_rel (sound t) (putTrip t i w)"
  unfolding putTrip_def requireWritableTrip_def
  by (intro rel_intros)

lemma schema_rename:
  assumes "schema_ok d" "name \<noteq> []"
  shows "schema_ok (d\<lparr>travellers := upd_rows (\<lambda>r. tv_id r = t) (\<lambda>r. r\<lparr>tv_name := Some name\<rparr>)
             (travellers d)\<rparr>)"
proof -
  let ?d = "d\<lparr>travellers := upd_rows (\<lambda>r. tv_id r = t) (\<lambda>r. r\<lparr>tv_name := Some name\<rparr>) (travellers d)\<rparr>"
  have ids: "map tv_id (travellers ?d) = map tv_id (travellers d)"
    by (simp add: map_upd_rows)
  then have "has_traveller ?d = has_traveller d"
    unfolding has_traveller_def fun_eq_iff by (metis set_map)
  moreover have "has_media ?d = has_media d" "has_city ?d = has_city d" "has_trip ?d = has_trip d"
    "has_place ?d = has_place d" "has_visit ?d = has_visit d"
    by (simp_all add: has_defs fun_eq_iff)
  ultimately have fks: "refs_hold ?d = refs_hold d"
    by (simp add: refs_hold_def fk_cong [of ?d d])
  have "list_all traveller_ck (travellers ?d)"
    using assms by (auto simp: schema_ok_def checks_hold_def list_all_iff set_upd_rows
        traveller_ck_def present_def)
  with assms ids fks show ?thesis
    by (simp add: schema_ok_def unique_ok_def checks_hold_def)
qed

lemma setTravellerNameSQL_sound:
  assumes "name \<noteq> []" "setTravellerNameSQL t name d = Inr d'"
  shows "sound t d d'"
proof -
  have d': "d' = d\<lparr>travellers := upd_rows (\<lambda>r. tv_id r = t) (\<lambda>r. r\<lparr>tv_name := Some name\<rparr>) (travellers d)\<rparr>"
    using assms by (simp add: setTravellerNameSQL_def)
  show ?thesis
    unfolding d'
    by (rule soundI) (use assms(1) in \<open>auto intro!: frame_tables filter_upd_rows_other schema_rename
        simp: same_travellers_def map_upd_rows\<close>)
qed

lemma deleteTrip_sound: "tx_rel (sound t) (deleteTrip t i)"
  unfolding deleteTrip_def deleteTripSQL_def
  by (auto intro!: rel_intros sound.rel_sql soundI frame_delete_trip schema_delete_trip)

lemma PutTrip_write: "write_op t (PutTrip t w)"
  unfolding PutTrip_def by (intro write_op_guarded write_op_tx putTrip_sound)

lemma SetTravellerName_write: "write_op t (SetTravellerName t name)"
proof -
  have "write_op t (t_bind (WithTravellerTx t (t_exec (setTravellerNameSQL t n))) (\<lambda>x. t_return (n, snd x)))"
    if "CheckTravellerName name = Inr n" for n
    using that
    by (intro write_op_return write_op_tx sound.rel_exec)
      (auto simp: CheckTravellerName_ok intro: setTravellerNameSQL_sound)
  then show ?thesis
    unfolding SetTravellerName_def by (intro write_op_guarded) (simp add: case_prod_unfold)
qed

lemma LogbookRead_db: "tx_db (snd (LogbookRead t f s)) = tx_db s"
  by (simp add: LogbookRead_def)

lemma on_miss_write:
  assumes "write_op t m" "miss \<notin> range ErrDB" "\<And>s. tx_db (snd (fallback s)) = tx_db s"
  shows "write_op t (on_miss miss fallback ok m)"
  unfolding write_op_def
proof (intro allI impI)
  fix s r s'
  assume run: "on_miss miss fallback ok m s = (r, s')"
  obtain r0 s0 where m: "m s = (r0, s0)" by (cases "m s")
  then have "tx_db s0 = tx_db s \<or>
      advances t (tx_db s) (tx_db s0) \<and> (\<forall>e. r0 = Inl e \<longrightarrow> (\<exists>de. e = ErrDB de))"
    using assms(1) by (simp add: write_op_def)
  moreover have "tx_db s' = tx_db s0"
    using run m assms(3) [of s0] by (auto simp: on_miss_def split: sum.splits if_splits)
  moreover have "r0 = Inl e" if "r = Inl e" "r0 \<noteq> Inl miss" for e
    using run m that by (auto simp: on_miss_def split: sum.splits if_splits)
  ultimately show "tx_db s' = tx_db s \<or>
      advances t (tx_db s) (tx_db s') \<and> (\<forall>e. r = Inl e \<longrightarrow> (\<exists>de. e = ErrDB de))"
    using assms(2) by (cases "r0 = Inl miss") auto
qed

lemma DeleteTrip_write: "write_op t (DeleteTrip t i)"
  unfolding DeleteTrip_def
  by (intro on_miss_write write_op_tx deleteTrip_sound LogbookRead_db) auto

subsection \<open>What a trip write did\<close>

lemma requireRow_Inr:
  "requireRow ex e s = (Inr u, s') \<Longrightarrow> ex (tx_db s) \<and> tx_db s' = tx_db s"
  by (auto simp: requireRow_def t_bind_Inr dest!: t_query_Inr)

lemma requireRow_each_Inr:
  "t_each (\<lambda>x. requireRow (P x) e) xs s = (Inr u, s') \<Longrightarrow>
     (\<forall>x \<in> set xs. P x (tx_db s)) \<and> tx_db s' = tx_db s"
proof (induction xs arbitrary: s)
  case (Cons x xs)
  then obtain s1 where "P x (tx_db s)" "tx_db s1 = tx_db s"
    "t_each (\<lambda>x. requireRow (P x) e) xs s1 = (Inr u, s')"
    by (auto simp: t_bind_Inr dest!: requireRow_Inr)
  with Cons.IH [of s1] show ?case by simp
qed simp

lemma requireCover_Inr:
  "requireCover t a s = (Inr u, s') \<Longrightarrow>
     (\<forall>x. a = Some x \<longrightarrow> committed (tx_db s) t x) \<and> tx_db s' = tx_db s"
  by (auto simp: requireCover_def split: option.splits dest!: requireRow_Inr)

definition itinerary_rows :: "id \<Rightarrow> id \<Rightarrow> (nat \<times> id) list \<Rightarrow> trip_city_row list" where
  "itinerary_rows t i =
     map (\<lambda>(n, c). \<lparr>tc_traveller = t, tc_trip = i, tc_city = c, tc_ordinal = int n\<rparr>)"

lemma itinerary_rows_mine:
  "r \<in> set (itinerary_rows t i xs) \<Longrightarrow> tc_traveller r = t \<and> tc_trip r = i"
  by (auto simp: itinerary_rows_def)

lemma insertTripCities_Inr:
  assumes "t_each (\<lambda>(n, c). t_exec (insertTripCitySQL t i c (int n))) xs s = (Inr u, s')"
  shows "tx_db s' = (tx_db s)\<lparr>trip_cities := trip_cities (tx_db s) @ itinerary_rows t i xs\<rparr>"
  using assms
proof (induction xs arbitrary: s)
  case (Cons x xs)
  obtain n c where x: "x = (n, c)" by (cases x)
  from Cons.prems obtain s1 where
    one: "t_exec (insertTripCitySQL t i c (int n)) s = (Inr (), s1)" and
    rest: "t_each (\<lambda>(n, c). t_exec (insertTripCitySQL t i c (int n))) xs s1 = (Inr u, s')"
    by (auto simp: x t_bind_Inr)
  from t_exec_Inr [OF one] Cons.IH [OF rest] show ?case
    by (auto simp: insertTripCitySQL_ok Let_def x itinerary_rows_def)
qed (simp add: itinerary_rows_def)

lemma replaceTripCities_Inr:
  assumes "replaceTripCities t i ids s = (Inr u, s')"
  shows "tx_db s' = (tx_db s)\<lparr>trip_cities :=
     del_rows (\<lambda>r. tc_traveller r = t \<and> tc_trip r = i) (trip_cities (tx_db s)) @
     itinerary_rows t i (enumerate 0 ids)\<rparr>"
proof -
  from assms obtain s1 where del: "t_exec (deleteTripCitiesSQL t i) s = (Inr (), s1)" and
    ins: "t_each (\<lambda>(n, c). t_exec (insertTripCitySQL t i c (int n))) (enumerate 0 ids) s1 = (Inr u, s')"
    by (auto simp: replaceTripCities_def t_bind_Inr)
  from t_exec_Inr [OF del] have "tx_db s1 = (tx_db s)\<lparr>trip_cities :=
     del_rows (\<lambda>r. tc_traveller r = t \<and> tc_trip r = i) (trip_cities (tx_db s))\<rparr>"
    by (simp add: deleteTripCitiesSQL_def)
  with insertTripCities_Inr [OF ins] show ?thesis by simp
qed

lemma filter_none: "(\<And>x. x \<in> set xs \<Longrightarrow> \<not> p x) \<Longrightarrow> filter p xs = []"
  by (induction xs) auto

lemma itinerary_replaced:
  assumes "trip_cities d' =
     del_rows (\<lambda>r. tc_traveller r = t \<and> tc_trip r = i) (trip_cities d) @
     itinerary_rows t i (enumerate 0 ids)"
  shows "itinerary d' t j = (if j = i then ids else itinerary d t j)"
proof -
  let ?new = "itinerary_rows t i (enumerate 0 ids)"
  have mine: "filter (\<lambda>r. tc_traveller r = t \<and> tc_trip r = i) ?new = ?new"
    "map tc_city ?new = ids" "sorted (map tc_ordinal ?new)"
    by (rule filter_True, auto simp: itinerary_rows_def comp_def case_prod_unfold
        sorted_iff_nth_mono nth_enumerate_eq intro!: nth_equalityI)
  have gone: "filter (\<lambda>r. tc_traveller r = t \<and> tc_trip r = i)
      (del_rows (\<lambda>r. tc_traveller r = t \<and> tc_trip r = i) (trip_cities d)) = []"
    by (rule filter_none) auto
  show ?thesis
  proof (cases "j = i")
    case True
    then show ?thesis
      using mine by (simp add: itinerary_def assms gone sort_key_id_if_sorted)
  next
    case False
    then have "filter (\<lambda>r. tc_traveller r = t \<and> tc_trip r = j) ?new = []"
      "filter (\<lambda>r. tc_traveller r = t \<and> tc_trip r = j)
        (del_rows (\<lambda>r. tc_traveller r = t \<and> tc_trip r = i) (trip_cities d)) =
       filter (\<lambda>r. tc_traveller r = t \<and> tc_trip r = j) (trip_cities d)"
      by (auto dest: itinerary_rows_mine intro!: filter_none filter_del_rows_other)
    with False show ?thesis by (simp add: itinerary_def assms)
  qed
qed

text \<open>The row a write leaves, field by field: absent keeps, present replaces.\<close>

definition stored_trip :: "database \<Rightarrow> trip_write \<Rightarrow> trip_row option \<Rightarrow> trip_row \<Rightarrow> bool" where
  "stored_trip d w old new \<longleftrightarrow>
     (case old of
        None \<Rightarrow> Some (tr_name new) = tw_Name w \<and>
          tr_started new = map_option (to_date d) (Value (tw_Start w)) \<and>
          tr_ended new = map_option (to_date d) (Value (tw_End w)) \<and>
          tr_summary new = Value (tw_Summary w) \<and> tr_cover new = Value (tw_CoverAsset w) \<and>
          tr_share_photos new \<and> tr_share_notes new \<and> \<not> tr_share_coordinates new
      | Some r \<Rightarrow> tr_name new = or_keep (tw_Name w) (tr_name r) \<and>
          tr_started new = or_keep (map_option (map_option (to_date d)) (tw_Start w)) (tr_started r) \<and>
          tr_ended new = or_keep (map_option (map_option (to_date d)) (tw_End w)) (tr_ended r) \<and>
          tr_summary new = or_keep (tw_Summary w) (tr_summary r) \<and>
          tr_cover new = or_keep (tw_CoverAsset w) (tr_cover r) \<and>
          tr_share_photos new = tr_share_photos r \<and> tr_share_notes new = tr_share_notes r \<and>
          tr_share_coordinates new = tr_share_coordinates r)"

lemma putTrip_Inr:
  assumes "putTrip t i w s = (Inr trp, s')"
  obtains d1 name row where
    "upsertTripSQL t i name w (tx_db s) = Inr d1"
    "name = or_keep (tw_Name w) (case find_trip (tx_db s) t i of None \<Rightarrow> [] | Some r \<Rightarrow> tr_name r)"
    "find_trip (tx_db s) t i = None \<longrightarrow> tw_Name w \<noteq> None"
    "tx_db s' = (case tw_CityIDs w of None \<Rightarrow> d1 | Some ids \<Rightarrow> d1\<lparr>trip_cities :=
       del_rows (\<lambda>r. tc_traveller r = t \<and> tc_trip r = i) (trip_cities d1) @
       itinerary_rows t i (enumerate 0 ids)\<rparr>)"
    "find_trip (tx_db s') t i = Some row"
    "trp = scan_trip (tx_db s') (appended (itinerary (tx_db s') t i)) row"
    "\<forall>a. Value (tw_CoverAsset w) = Some a \<longrightarrow> committed (tx_db s) t a"
proof -
  let ?before = "case find_trip (tx_db s) t i of
         None \<Rightarrow> \<lparr>tb_name = [], tb_started = None, tb_ended = None, tb_isCreate = True\<rparr>
       | Some r \<Rightarrow> \<lparr>tb_name = tr_name r, tb_started = tr_started r, tb_ended = tr_ended r,
                    tb_isCreate = False\<rparr>"
  let ?name = "or_keep (tw_Name w) (tb_name ?before)"
  from assms obtain s1 s2 s3 s4 s5 where
    chk: "CheckTripWritable (tb_isCreate ?before) (tb_started ?before) (tb_ended ?before) w = Inr ()"
      "tx_db s1 = tx_db s" and
    refs: "(case tw_CityIDs w of None \<Rightarrow> t_return () | Some ids \<Rightarrow> requireCities t ids) s1 = (Inr (), s2)" and
    cover: "requireCover t (Value (tw_CoverAsset w)) s2 = (Inr (), s3)" and
    put: "t_exec (upsertTripSQL t i ?name w) s3 = (Inr (), s4)" and
    repl: "(case tw_CityIDs w of None \<Rightarrow> t_return () | Some ids \<Rightarrow> replaceTripCities t i ids) s4 = (Inr (), s5)" and
    reread: "readOneTrip t i s5 = (Inr trp, s')"
    unfolding putTrip_def requireWritableTrip_def t_bind_Inr by (auto dest!: t_query_Inr)
  have s2: "tx_db s2 = tx_db s"
    using refs chk(2) by (auto simp: requireCities_def split: option.splits dest!: requireRow_each_Inr)
  note cov = requireCover_Inr [OF cover]
  from t_exec_Inr [OF put] cov s2 have up: "upsertTripSQL t i ?name w (tx_db s) = Inr (tx_db s4)" by simp
  have s5: "tx_db s5 = (case tw_CityIDs w of None \<Rightarrow> tx_db s4 | Some ids \<Rightarrow> (tx_db s4)\<lparr>trip_cities :=
       del_rows (\<lambda>r. tc_traveller r = t \<and> tc_trip r = i) (trip_cities (tx_db s4)) @
       itinerary_rows t i (enumerate 0 ids)\<rparr>)"
    using repl by (auto split: option.splits dest!: replaceTripCities_Inr)
  from reread obtain row where row: "find_trip (tx_db s5) t i = Some row"
    "trp = scan_trip (tx_db s5) (appended (itinerary (tx_db s5) t i)) row" "tx_db s' = tx_db s5"
    by (rule readOneTrip_Inr)
  have "tw_Name w \<noteq> None" if "find_trip (tx_db s) t i = None"
    using chk(1) that by (auto simp: CheckTripWritable_def split: if_splits)
  moreover have "?name = or_keep (tw_Name w) (case find_trip (tx_db s) t i of None \<Rightarrow> [] | Some r \<Rightarrow> tr_name r)"
    by (simp split: option.splits)
  ultimately show thesis
    using that [OF up, of row] s5 row cov s2 by auto
qed

lemma upsertTripSQL_ok:
  assumes "upsertTripSQL t i name w d = Inr d'"
  obtains r where "d' = d\<lparr>trips := put_row tr_key r (trips d)\<rparr>" "tr_key r = (t, i)"
    "r = (case find_trip d t i of None \<Rightarrow> proposed_trip t i name w d
            | Some old \<Rightarrow> merge_trip w (proposed_trip t i name w d) old)"
proof -
  have "table_upsert trips (\<lambda>rs. trips_update (\<lambda>_. rs)) tr_key trip_ck trip_fk
       (proposed_trip t i name w d) (merge_trip w (proposed_trip t i name w d)) d = Inr d'"
    using assms by (simp add: upsertTripSQL_def)
  then show thesis
  proof (rule trip_table.table_upsert_ok)
    show "tr_key (merge_trip w (proposed_trip t i name w d) old) = tr_key (proposed_trip t i name w d)"
      if "tr_key old = tr_key (proposed_trip t i name w d)" for old
      using that by (simp add: merge_trip_def tr_key_def)
  qed (use that in \<open>simp add: find_trip_def proposed_trip_def tr_key_def\<close>)
qed

lemma stored_trip_upsert:
  assumes "r = (case old of None \<Rightarrow> proposed_trip t i name w d
            | Some o1 \<Rightarrow> merge_trip w (proposed_trip t i name w d) o1)"
    and "name = or_keep (tw_Name w) (case old of None \<Rightarrow> [] | Some r \<Rightarrow> tr_name r)"
    and "old = None \<longrightarrow> tw_Name w \<noteq> None"
  shows "stored_trip d w old r"
  using assms
  by (auto simp: stored_trip_def proposed_trip_def merge_trip_def Sent_def Value_def or_keep_def
      split: option.splits)

lemma find_trip_put:
  "trips d' = put_row tr_key r (trips d) \<Longrightarrow> tr_key r = (t, i) \<Longrightarrow>
     find_trip d' t j = (if j = i then Some r else find_trip d t j)"
  by (auto simp: find_trip_def find_put_row)

lemma PutTrip_facts:
  assumes "PutTrip t w s = (Inr (trp, v), s')" "tw_ID w = Some i"
  shows "\<exists>row. find_trip (tx_db s') t i = Some row \<and>
       stored_trip (tx_db s) w (find_trip (tx_db s) t i) row"
    and "\<forall>j. j \<noteq> i \<longrightarrow> find_trip (tx_db s') t j = find_trip (tx_db s) t j"
    and "\<forall>j. itinerary (tx_db s') t j =
       (if j = i then or_keep (tw_CityIDs w) (itinerary (tx_db s) t i) else itinerary (tx_db s) t j)"
    and "trp \<in> set (items (doc_Trips (document_of t (tx_db s'))))"
    and "version_of (tx_db s') t = Some v"
    and "cities (tx_db s') = cities (tx_db s) \<and> places (tx_db s') = places (tx_db s) \<and>
       visits (tx_db s') = visits (tx_db s) \<and> photos (tx_db s') = photos (tx_db s) \<and>
       walks (tx_db s') = walks (tx_db s) \<and> share_links (tx_db s') = share_links (tx_db s) \<and>
       media_objects (tx_db s') = media_objects (tx_db s)"
proof -
  from assms have "WithTravellerTx t (putTrip t i w) s = (Inr (trp, v), s')"
    by (simp add: PutTrip_def t_bind_Inr)
  then have wrote: "wrote t (putTrip t i w) (tx_db s) trp v (tx_db s')" by (rule WithTravellerTx_Inr)
  then obtain s1 s2 where s1: "tx_db s1 = bumped t (tx_db s)"
    and run: "putTrip t i w s1 = (Inr trp, s2)" and s2: "tx_db s' = tx_db s2"
    by (auto simp: wrote_def)
  show "version_of (tx_db s') t = Some v"
    using wrote_advances [OF putTrip_sound wrote] by simp
  have find1: "find_trip (tx_db s1) t = find_trip (tx_db s) t"
    and it1: "itinerary (tx_db s1) t = itinerary (tx_db s) t"
    by (simp_all add: find_trip_def itinerary_def s1 fun_eq_iff)
  from run obtain d1 name row where
      up: "upsertTripSQL t i name w (tx_db s1) = Inr d1"
      and name: "name = or_keep (tw_Name w) (case find_trip (tx_db s1) t i of None \<Rightarrow> [] | Some r \<Rightarrow> tr_name r)"
        "find_trip (tx_db s1) t i = None \<longrightarrow> tw_Name w \<noteq> None"
      and d2: "tx_db s2 = (case tw_CityIDs w of None \<Rightarrow> d1 | Some ids \<Rightarrow> d1\<lparr>trip_cities :=
         del_rows (\<lambda>r. tc_traveller r = t \<and> tc_trip r = i) (trip_cities d1) @
         itinerary_rows t i (enumerate 0 ids)\<rparr>)"
      and row: "find_trip (tx_db s2) t i = Some row"
        "trp = scan_trip (tx_db s2) (appended (itinerary (tx_db s2) t i)) row"
      and "\<forall>a. Value (tw_CoverAsset w) = Some a \<longrightarrow> committed (tx_db s1) t a"
    by (rule putTrip_Inr)
  from up obtain r where r: "d1 = (tx_db s1)\<lparr>trips := put_row tr_key r (trips (tx_db s1))\<rparr>"
    "tr_key r = (t, i)" "r = (case find_trip (tx_db s1) t i of None \<Rightarrow> proposed_trip t i name w (tx_db s1)
          | Some old \<Rightarrow> merge_trip w (proposed_trip t i name w (tx_db s1)) old)"
    by (rule upsertTripSQL_ok)
  have stored: "stored_trip (tx_db s1) w (find_trip (tx_db s1) t i) r"
    using r(3) name by (rule stored_trip_upsert)
  have trips2: "trips (tx_db s2) = put_row tr_key r (trips (tx_db s))"
    using d2 r(1) s1 by (simp split: option.splits)
  note finds = find_trip_put [OF trips2 r(2)]
  show "\<exists>row. find_trip (tx_db s') t i = Some row \<and>
       stored_trip (tx_db s) w (find_trip (tx_db s) t i) row"
    using stored finds find1 s1 s2 by (simp add: stored_trip_def split: option.splits)
  show "\<forall>j. j \<noteq> i \<longrightarrow> find_trip (tx_db s') t j = find_trip (tx_db s) t j"
    using finds s2 by simp
  show "trp \<in> set (items (doc_Trips (document_of t (tx_db s'))))"
    using trip_in_document [OF row(1)] row(2) s2 by simp
  have "itinerary d1 t = itinerary (tx_db s) t"
    using it1 r(1) by (simp add: itinerary_def fun_eq_iff)
  moreover have "itinerary (tx_db s2) t j =
      (if j = i then or_keep (tw_CityIDs w) (itinerary d1 t i) else itinerary d1 t j)" for j
    using d2 itinerary_replaced [of "tx_db s2" t i d1] by (simp split: option.splits)
  ultimately show "\<forall>j. itinerary (tx_db s') t j =
      (if j = i then or_keep (tw_CityIDs w) (itinerary (tx_db s) t i) else itinerary (tx_db s) t j)"
    using s2 by simp
  show "cities (tx_db s') = cities (tx_db s) \<and> places (tx_db s') = places (tx_db s) \<and>
       visits (tx_db s') = visits (tx_db s) \<and> photos (tx_db s') = photos (tx_db s) \<and>
       walks (tx_db s') = walks (tx_db s) \<and> share_links (tx_db s') = share_links (tx_db s) \<and>
       media_objects (tx_db s') = media_objects (tx_db s)"
    using d2 r(1) s1 s2 by (simp split: option.splits)
qed

text \<open>C33: A trip write that succeeds stores each field by the pointer contract, replaces the whole
  itinerary in the order sent (or keeps it when none was sent), leaves every other trip and every
  other table alone, answers the trip as the document now holds it, and answers the version the
  next read carries.\<close>

theorem put_trip_effect:
  assumes "PutTrip t w s = (Inr (trp, v), s')" "tw_ID w = Some i"
  shows "(\<exists>row. find_trip (tx_db s') t i = Some row \<and>
       stored_trip (tx_db s) w (find_trip (tx_db s) t i) row) \<and>
     (\<forall>j. j \<noteq> i \<longrightarrow> find_trip (tx_db s') t j = find_trip (tx_db s) t j) \<and>
     (\<forall>j. itinerary (tx_db s') t j =
       (if j = i then or_keep (tw_CityIDs w) (itinerary (tx_db s) t i) else itinerary (tx_db s) t j)) \<and>
     trp \<in> set (items (doc_Trips (document_of t (tx_db s')))) \<and>
     version_of (tx_db s') t = Some v \<and>
     cities (tx_db s') = cities (tx_db s) \<and> places (tx_db s') = places (tx_db s) \<and>
     visits (tx_db s') = visits (tx_db s) \<and> photos (tx_db s') = photos (tx_db s) \<and>
     walks (tx_db s') = walks (tx_db s) \<and> share_links (tx_db s') = share_links (tx_db s) \<and>
     media_objects (tx_db s') = media_objects (tx_db s)"
  using PutTrip_facts [OF assms] by simp

definition sample_trip_write :: trip_write where
  "sample_trip_write = \<lparr>tw_ID = Some ''t2'', tw_Name = None, tw_CityIDs = Some [''c1''],
     tw_Start = Some (Some 90000000000000), tw_End = None, tw_Summary = Some None,
     tw_CoverAsset = Some (Some asset_a)\<rparr>"

theorem put_trip_effect_witness:
  "\<exists>trp v s'. PutTrip ''u1'' sample_trip_write (calm sample) = (Inr (trp, v), s') \<and>
     itinerary (tx_db s') ''u1'' ''t2'' = [''c1''] \<and> version_of (tx_db s') ''u1'' = Some v"
proof -
  have "\<not> isl (fst (PutTrip ''u1'' sample_trip_write (calm sample)))" by code_simp
  then obtain x s' where "PutTrip ''u1'' sample_trip_write (calm sample) = (Inr x, s')" by (rule ran)
  moreover obtain trp v where "x = (trp, v)" by (cases x)
  ultimately show ?thesis
    using put_trip_effect [of "''u1''" sample_trip_write "calm sample" trp v s' "''t2''"]
    by (simp add: sample_trip_write_def)
qed

subsection \<open>When a trip write succeeds\<close>

text \<open>
  What the server's truncation of an instant to a date is relied on for: it respects the order of
  instants, and a stored date is already truncated.
\<close>

definition dates_ok :: "database \<Rightarrow> bool" where
  "dates_ok d \<longleftrightarrow> mono (to_date d) \<and>
     (\<forall>r \<in> set (trips d). (\<forall>x. tr_started r = Some x \<longrightarrow> to_date d x = x) \<and>
        (\<forall>x. tr_ended r = Some x \<longrightarrow> to_date d x = x))"

lemma requireRow_calm [simp]:
  "requireRow ex e (calm d) = (if ex d then (Inr (), calm d) else (Inl e, calm d))"
  by (simp add: requireRow_def t_bind_def t_lift_def guard_def)

lemma requireRow_each_calm:
  "\<forall>x \<in> set xs. P x d \<Longrightarrow> t_each (\<lambda>x. requireRow (P x) e) xs (calm d) = (Inr (), calm d)"
  by (induction xs) (simp_all add: t_return_def t_bind_step)

lemma requireCover_calm:
  "(\<And>a. asset = Some a \<Longrightarrow> committed d t a) \<Longrightarrow> requireCover t asset (calm d) = (Inr (), calm d)"
  by (cases asset) (simp_all add: requireCover_def t_return_def)

lemma committed_has_media: "committed d t a \<Longrightarrow> has_media d t a"
  by (force simp: committed_def has_media_def list_ex_iff image_iff)

lemma dates_ordered_map:
  "mono f \<Longrightarrow> \<not> ends_before_start a b \<Longrightarrow> dates_ordered (map_option f a) (map_option f b)"
  by (auto simp: ends_before_start_def dates_ordered_def not_less split: option.splits dest: monoD)

lemma upsertTripSQL_succeeds:
  assumes ok: "schema_ok d" and t: "has_traveller d t"
    and v: "ValidateTrip w = Inr ()" "tw_ID w = Some i" "tw_Summary w \<noteq> Some (Some [])"
    and cover: "\<And>a. Value (tw_CoverAsset w) = Some a \<Longrightarrow> committed d t a"
    and dates: "dates_ok d"
    and chk: "CheckTripWritable (find_trip d t i = None)
        (Option.bind (find_trip d t i) tr_started) (Option.bind (find_trip d t i) tr_ended) w = Inr ()"
    and name: "name = or_keep (tw_Name w) (case find_trip d t i of None \<Rightarrow> [] | Some r \<Rightarrow> tr_name r)"
    and texts: "sendable [Some name, Value (tw_Summary w)]"
  shows "\<exists>d'. upsertTripSQL t i name w d = Inr d'"
proof -
  let ?new = "proposed_trip t i name w d"
  let ?r = "case find_trip d t i of None \<Rightarrow> ?new | Some old \<Rightarrow> merge_trip w ?new old"
  have old: "trip_ck r \<and> trip_fk d r \<and> r \<in> set (trips d) \<and> tr_traveller r = t"
    if "find_trip d t i = Some r" for r
    using find_trip_Some [OF that] ok
    by (auto simp: schema_ok_def checks_hold_def refs_hold_def list_all_iff)
  have ids: "idPattern i" and cov: "asset_ck (Value (tw_CoverAsset w))"
    using v by (auto simp: ValidateTrip_def bad_id_def when_sent_ok asset_ck_def split: option.splits)
  have nm: "name \<noteq> []"
  proof (cases "tw_Name w")
    case None
    with chk obtain r where "find_trip d t i = Some r"
      by (cases "find_trip d t i") (auto simp: CheckTripWritable_def)
    with None name old show ?thesis by (simp add: trip_ck_def)
  next
    case (Some n)
    with v(1) have "TrimSpace n \<noteq> []" by (simp add: ValidateTrip_def checkName_ok)
    with Some name show ?thesis by (auto dest: TrimSpace_nonempty)
  qed
  have sum: "present (Value (tw_Summary w))"
    using v(3) by (auto simp: present_def Value_def split: option.splits)
  have mono: "mono (to_date d)" using dates by (simp add: dates_ok_def)
  have new: "trip_ck ?new"
    using ids cov nm sum v(1) dates_ordered_map [OF mono]
    by (simp add: trip_ck_def proposed_trip_def ValidateTrip_def)
  have merged: "trip_ck ?r"
  proof (cases "find_trip d t i")
    case (Some r)
    let ?S = "if Sent (tw_Start w) then Value (tw_Start w) else tr_started r"
    let ?E = "if Sent (tw_End w) then Value (tw_End w) else tr_ended r"
    have "map_option (to_date d) (tr_started r) = tr_started r"
      "map_option (to_date d) (tr_ended r) = tr_ended r"
      using old [OF Some] dates by (auto simp: dates_ok_def intro!: option.map_ident_strong)
    then have "tr_started ?r = map_option (to_date d) ?S" "tr_ended ?r = map_option (to_date d) ?E"
      using Some by (simp_all add: merge_trip_def proposed_trip_def)
    moreover have "\<not> ends_before_start ?S ?E"
      using chk Some by (simp add: CheckTripWritable_def Let_def)
    ultimately have "dates_ordered (tr_started ?r) (tr_ended ?r)"
      using dates_ordered_map [OF mono] by simp
    with Some old [OF Some] new sum show ?thesis
      by (auto simp: trip_ck_def merge_trip_def proposed_trip_def asset_ck_def)
  qed (use new in simp)
  have "trip_fk d ?r"
    using t old cover by (cases "find_trip d t i")
      (auto simp: trip_fk_def proposed_trip_def merge_trip_def ref_def committed_has_media
        split: option.splits)
  with new merged texts show ?thesis
    by (auto simp: upsertTripSQL_def table_upsert_def upsert_def Let_def find_trip_def
        proposed_trip_def tr_key_def split: option.splits)
qed

lemma insertTripCities_calm:
  assumes "distinct ids" "\<forall>c \<in> set ids. has_city d t c" "has_trip d t i" "has_traveller d t"
    and "\<forall>r \<in> set (trip_cities d). tc_traveller r = t \<and> tc_trip r = i \<longrightarrow>
       tc_city r \<notin> set ids \<and> tc_ordinal r < int n"
    and "n + length ids \<le> 2 ^ 31"
  shows "t_each (\<lambda>(n, c). t_exec (insertTripCitySQL t i c (int n))) (enumerate n ids) (calm d) =
     (Inr (), calm (d\<lparr>trip_cities := trip_cities d @ itinerary_rows t i (enumerate n ids)\<rparr>))"
  using assms
proof (induction ids arbitrary: n d)
  case Nil
  then show ?case by (simp add: t_return_def itinerary_rows_def)
next
  case (Cons c ids)
  let ?r = "\<lparr>tc_traveller = t, tc_trip = i, tc_city = c, tc_ordinal = int n\<rparr>"
  let ?d = "d\<lparr>trip_cities := trip_cities d @ [?r]\<rparr>"
  have "tc_key ?r \<notin> tc_key ` set (trip_cities d)" "tc_slot ?r \<notin> tc_slot ` set (trip_cities d)"
    using Cons.prems(5) by (auto simp: tc_key_def tc_slot_def)
  moreover have "int4 (int n)" using Cons.prems(6) by (simp add: int4_def)
  ultimately have "insertTripCitySQL t i c (int n) d = Inr ?d"
    using Cons.prems by (simp add: insertTripCitySQL_ok Let_def trip_city_fk_def)
  moreover have "has_city ?d = has_city d" "has_trip ?d = has_trip d" "has_traveller ?d = has_traveller d"
    by (simp_all add: has_defs fun_eq_iff)
  then have "t_each (\<lambda>(n, c). t_exec (insertTripCitySQL t i c (int n))) (enumerate (Suc n) ids) (calm ?d) =
     (Inr (), calm (?d\<lparr>trip_cities := trip_cities ?d @ itinerary_rows t i (enumerate (Suc n) ids)\<rparr>))"
    by (intro Cons.IH) (use Cons.prems in auto)
  ultimately show ?case by (simp add: t_bind_step itinerary_rows_def)
qed

lemma replaceTripCities_calm:
  assumes "distinct ids" "\<forall>c \<in> set ids. has_city d t c" "has_trip d t i" "has_traveller d t"
    and "length ids \<le> 2 ^ 31"
  shows "\<exists>d'. replaceTripCities t i ids (calm d) = (Inr (), calm d') \<and> trips d' = trips d"
proof -
  let ?d = "d\<lparr>trip_cities := del_rows (\<lambda>r. tc_traveller r = t \<and> tc_trip r = i) (trip_cities d)\<rparr>"
  have "has_city ?d = has_city d" "has_trip ?d = has_trip d" "has_traveller ?d = has_traveller d"
    by (simp_all add: has_defs fun_eq_iff)
  then have "t_each (\<lambda>(n, c). t_exec (insertTripCitySQL t i c (int n))) (enumerate 0 ids) (calm ?d) =
     (Inr (), calm (?d\<lparr>trip_cities := trip_cities ?d @ itinerary_rows t i (enumerate 0 ids)\<rparr>))"
    by (intro insertTripCities_calm) (use assms in auto)
  then show ?thesis
    by (simp add: replaceTripCities_def deleteTripCitiesSQL_def t_bind_step)
qed

lemma committed_bumped [simp]: "committed (bumped u d) = committed d"
  by (simp add: committed_def fun_eq_iff)

lemma find_trip_bumped [simp]: "find_trip (bumped u d) = find_trip d"
  by (simp add: find_trip_def fun_eq_iff)

lemma open_has_traveller: "open_for t d \<Longrightarrow> has_traveller d t"
  by (auto simp: open_for_def version_of_def has_traveller_def find_traveller_def
      split: option.splits dest!: find_SomeD)

lemma requireWritableTrip_calm:
  assumes "CheckTripWritable (find_trip d t i = None)
        (Option.bind (find_trip d t i) tr_started) (Option.bind (find_trip d t i) tr_ended) w = Inr ()"
  shows "\<exists>b. requireWritableTrip t i w (calm d) = (Inr b, calm d) \<and>
     tb_name b = (case find_trip d t i of None \<Rightarrow> [] | Some r \<Rightarrow> tr_name r)"
  using assms by (cases "find_trip d t i")
    (simp_all add: requireWritableTrip_def t_bind_def t_lift_def t_return_def)

lemma putTrip_succeeds:
  assumes ok: "schema_ok d" "has_traveller d t" "dates_ok d"
    and v: "ValidateTrip w = Inr ()" "tw_ID w = Some i" "tw_Summary w \<noteq> Some (Some [])"
    and chk: "CheckTripWritable (find_trip d t i = None)
        (Option.bind (find_trip d t i) tr_started) (Option.bind (find_trip d t i) tr_ended) w = Inr ()"
    and cover: "\<And>a. Value (tw_CoverAsset w) = Some a \<Longrightarrow> committed d t a"
    and cits: "\<And>ids. tw_CityIDs w = Some ids \<Longrightarrow> (\<forall>c \<in> set ids. has_city d t c) \<and> length ids \<le> 2 ^ 31"
    and texts: "sendable [Some (or_keep (tw_Name w) (case find_trip d t i of None \<Rightarrow> [] | Some r \<Rightarrow> tr_name r)), Value (tw_Summary w)]"
  shows "\<exists>trp d'. putTrip t i w (calm d) = (Inr trp, calm d')"
proof -
  let ?name = "or_keep (tw_Name w) (case find_trip d t i of None \<Rightarrow> [] | Some r \<Rightarrow> tr_name r)"
  obtain b where b: "requireWritableTrip t i w (calm d) = (Inr b, calm d)"
    "tb_name b = (case find_trip d t i of None \<Rightarrow> [] | Some r \<Rightarrow> tr_name r)"
    using requireWritableTrip_calm [OF chk] by auto
  have refs: "(case tw_CityIDs w of None \<Rightarrow> t_return () | Some ids \<Rightarrow> requireCities t ids) (calm d) =
      (Inr (), calm d)"
    using cits by (auto simp: requireCities_def t_return_def requireRow_each_calm split: option.splits)
  obtain d1 where up: "upsertTripSQL t i ?name w d = Inr d1"
    using upsertTripSQL_succeeds [OF ok(1,2) v cover ok(3) chk refl texts] by auto
  then obtain r where r: "d1 = d\<lparr>trips := put_row tr_key r (trips d)\<rparr>" "tr_key r = (t, i)"
    by (rule upsertTripSQL_ok)
  have d1: "has_city d1 = has_city d" "has_traveller d1 = has_traveller d" "has_trip d1 t i"
    using r by (auto simp: has_defs fun_eq_iff keys_put_row)
  have "\<exists>d2. (case tw_CityIDs w of None \<Rightarrow> t_return () | Some ids \<Rightarrow> replaceTripCities t i ids) (calm d1) =
      (Inr (), calm d2) \<and> trips d2 = trips d1"
  proof (cases "tw_CityIDs w")
    case (Some ids)
    with v(1) have "distinct ids" by (simp add: ValidateTrip_def checkCityIDs_ok)
    with Some cits d1 ok(2) show ?thesis by (auto intro!: replaceTripCities_calm)
  qed (simp add: t_return_def)
  then obtain d2 where d2: "(case tw_CityIDs w of None \<Rightarrow> t_return () | Some ids \<Rightarrow>
      replaceTripCities t i ids) (calm d1) = (Inr (), calm d2)" "trips d2 = trips d1" by auto
  have "find_trip d2 t i = Some r" using d2(2) r by (simp add: find_trip_put [of d2 r d t i])
  then show ?thesis
    unfolding putTrip_def
    by (simp add: t_bind_step b refs requireCover_calm cover up d2 readOneTrip_calm)
qed

lemma schema_dates_bumped [simp]: "dates_ok (bumped u d) = dates_ok d"
  by (simp add: dates_ok_def)

text \<open>A trip write that passes the validator, names its trip when it creates it, refers only to
  cities and committed covers of the traveller's own, ends no earlier than it starts and sends
  neither an empty summary nor a text with a NUL byte succeeds when the driver does not fail: no constraint of the schema
  refuses it, and the version goes up by one.\<close>

theorem put_trip_succeeds:
  assumes "schema_ok d" "open_for t d" "dates_ok d"
    and "ValidateTrip w = Inr ()" "tw_ID w = Some i" "tw_Summary w \<noteq> Some (Some [])"
    and "CheckTripWritable (find_trip d t i = None)
        (Option.bind (find_trip d t i) tr_started) (Option.bind (find_trip d t i) tr_ended) w = Inr ()"
    and "\<And>a. Value (tw_CoverAsset w) = Some a \<Longrightarrow> committed d t a"
    and "\<And>ids. tw_CityIDs w = Some ids \<Longrightarrow> (\<forall>c \<in> set ids. has_city d t c) \<and> length ids \<le> 2 ^ 31"
    and "sendable [Some (or_keep (tw_Name w) (case find_trip d t i of None \<Rightarrow> [] | Some r \<Rightarrow> tr_name r)), Value (tw_Summary w)]"
  shows "\<exists>trp d'. PutTrip t w (calm d) = (Inr (trp, the (version_of d t) + 1), calm d')"
proof -
  have "\<exists>trp d'. putTrip t i w (calm (bumped t d)) = (Inr trp, calm d')"
    using assms by (intro putTrip_succeeds) (simp_all add: schema_bumped open_has_traveller)
  then obtain trp d' where "putTrip t i w (calm (bumped t d)) = (Inr trp, calm d')" by auto
  from WithTravellerTx_calm_Inr [where fn = "putTrip t i w", OF assms(2) this] assms(5) show ?thesis
    by (auto simp: PutTrip_def t_bind_def t_lift_def CheckWriteID_def guard_def)
qed

lemma sample_dates: "dates_ok sample"
  by (auto simp: dates_ok_def sample_def mono_def intro!: zdiv_mono1)

theorem put_trip_succeeds_witness:
  "\<exists>trp d'. PutTrip ''u1'' sample_trip_write (calm sample) =
     (Inr (trp, the (version_of sample ''u1'') + 1), calm d')"
proof (rule put_trip_succeeds [where i = "''t2''"])
  show "ValidateTrip sample_trip_write = Inr ()" by code_simp
  show "CheckTripWritable (find_trip sample ''u1'' ''t2'' = None)
      (Option.bind (find_trip sample ''u1'' ''t2'') tr_started)
      (Option.bind (find_trip sample ''u1'' ''t2'') tr_ended) sample_trip_write = Inr ()"
    by code_simp
  have "committed sample ''u1'' asset_a" by code_simp
  then show "committed sample ''u1'' a" if "Value (tw_CoverAsset sample_trip_write) = Some a" for a
    using that by (simp add: sample_trip_write_def)
  have "has_city sample ''u1'' ''c1''" by code_simp
  then show "(\<forall>c \<in> set ids. has_city sample ''u1'' c) \<and> length ids \<le> 2 ^ 31"
    if "tw_CityIDs sample_trip_write = Some ids" for ids
    using that by (auto simp: sample_trip_write_def)
  show "sendable [Some (or_keep (tw_Name sample_trip_write) (case find_trip sample ''u1'' ''t2'' of
      None \<Rightarrow> [] | Some r \<Rightarrow> tr_name r)), Value (tw_Summary sample_trip_write)]" by code_simp
qed (simp_all add: sample_ok sample_open sample_dates sample_trip_write_def)

text \<open>An empty summary passes the validator and every check of the store, and is then refused
  by \<open>trips_summary_present_ck\<close>: the write answers a driver error where it means to name a field.\<close>

theorem blank_summary_hits_constraint:
  assumes "open_for t d" "tw_ID w = Some i" "tw_Summary w = Some (Some [])"
    and "CheckTripWritable (find_trip d t i = None)
        (Option.bind (find_trip d t i) tr_started) (Option.bind (find_trip d t i) tr_ended) w = Inr ()"
    and "\<And>a. Value (tw_CoverAsset w) = Some a \<Longrightarrow> committed d t a"
    and "\<And>ids. tw_CityIDs w = Some ids \<Longrightarrow> \<forall>c \<in> set ids. has_city d t c"
    and "sendable [Some (or_keep (tw_Name w) (case find_trip d t i of None \<Rightarrow> [] | Some r \<Rightarrow> tr_name r))]"
  shows "PutTrip t w (calm d) = (Inl (ErrDB check_violation), calm d)"
proof -
  have bad: "\<not> trip_ck (proposed_trip t i name w (bumped t d))" for name
    using assms(3) by (simp add: trip_ck_def proposed_trip_def present_def)
  obtain b where b: "requireWritableTrip t i w (calm (bumped t d)) = (Inr b, calm (bumped t d))"
    and name: "tb_name b = (case find_trip d t i of None \<Rightarrow> [] | Some r \<Rightarrow> tr_name r)"
    using requireWritableTrip_calm [of "bumped t d" t i w] assms(4) by auto
  have refs: "(case tw_CityIDs w of None \<Rightarrow> t_return () | Some ids \<Rightarrow> requireCities t ids) (calm (bumped t d)) =
      (Inr (), calm (bumped t d))"
    using assms(6) by (auto simp: requireCities_def t_return_def requireRow_each_calm split: option.splits)
  have "with_texts [Some (or_keep (tw_Name w) (tb_name b)), Value (tw_Summary w)] sql s = sql s" for sql :: "database \<Rightarrow> db_error + database" and s
    using assms(3,7) name by (simp add: with_texts_def Value_def)
  then have "putTrip t i w (calm (bumped t d)) = (Inl (ErrDB check_violation), calm (bumped t d))"
    unfolding putTrip_def
    by (simp add: t_bind_step t_bind_stop b refs requireCover_calm assms(5) upsertTripSQL_def
        table_upsert_def upsert_def bad)
  from WithTravellerTx_calm_Inl [where fn = "putTrip t i w", OF assms(1) this] assms(2) show ?thesis
    by (simp add: PutTrip_def t_bind_def t_lift_def CheckWriteID_def guard_def)
qed

theorem blank_summary_hits_constraint_witness:
  "ValidateTrip (sample_trip_write\<lparr>tw_Summary := Some (Some [])\<rparr>) = Inr () \<and>
   PutTrip ''u1'' (sample_trip_write\<lparr>tw_Summary := Some (Some [])\<rparr>) (calm sample) =
     (Inl (ErrDB check_violation), calm sample)"
proof
  let ?w = "sample_trip_write\<lparr>tw_Summary := Some (Some [])\<rparr>"
  show "ValidateTrip ?w = Inr ()" by code_simp
  show "PutTrip ''u1'' ?w (calm sample) = (Inl (ErrDB check_violation), calm sample)"
  proof (rule blank_summary_hits_constraint [where i = "''t2''"])
    show "CheckTripWritable (find_trip sample ''u1'' ''t2'' = None)
        (Option.bind (find_trip sample ''u1'' ''t2'') tr_started)
        (Option.bind (find_trip sample ''u1'' ''t2'') tr_ended) ?w = Inr ()"
      by code_simp
    have "committed sample ''u1'' asset_a" by code_simp
    then show "committed sample ''u1'' a" if "Value (tw_CoverAsset ?w) = Some a" for a
      using that by (simp add: sample_trip_write_def)
    have "has_city sample ''u1'' ''c1''" by code_simp
    then show "\<forall>c \<in> set ids. has_city sample ''u1'' c" if "tw_CityIDs ?w = Some ids" for ids
      using that by (auto simp: sample_trip_write_def)
    show "sendable [Some (or_keep (tw_Name ?w) (case find_trip sample ''u1'' ''t2'' of
        None \<Rightarrow> [] | Some r \<Rightarrow> tr_name r))]" by code_simp
  qed (simp_all add: sample_open sample_trip_write_def)
qed

subsection \<open>What deleting a trip does\<close>

lemma deleteTrip_Inr:
  assumes "deleteTrip t i s = (Inr doc, s')"
  shows "has_trip (tx_db s) t i \<and> tx_db s' = delete_trip t i (tx_db s) \<and>
     doc = document_of t (tx_db s')"
proof -
  from assms obtain gone s1 where
    del: "t_sql (deleteTripSQL t i) s = (Inr gone, s1)" and "gone \<noteq> 0" and
    doc: "readDocument t s1 = (Inr doc, s')"
    by (auto simp: deleteTrip_def t_bind_Inr)
  from t_sql_cases [OF del] have "gone = length (filter (\<lambda>r. tr_key r = (t, i)) (trips (tx_db s)))"
    "tx_db s1 = delete_trip t i (tx_db s)"
    by (auto simp: deleteTripSQL_def)
  with \<open>gone \<noteq> 0\<close> readDocument_Inr [OF doc] show ?thesis
    by (force simp: has_trip_def filter_empty_conv image_iff)
qed

lemma document_of_bumped: "document_of t (bumped u d) = document_of t d"
proof -
  have "Option.bind (List.find (\<lambda>r. tv_id r = t)
          (upd_rows (\<lambda>x. tv_id x = u) (\<lambda>x. x\<lparr>tv_version := tv_version x + 1\<rparr>) rows)) tv_name =
        Option.bind (List.find (\<lambda>r. tv_id r = t) rows) tv_name" for rows
    by (induction rows) (auto simp: upd_rows_def)
  then have "Option.bind (find_traveller (bumped u d) t) tv_name = Option.bind (find_traveller d t) tv_name"
    by (simp add: find_traveller_def bumped_def)
  then show ?thesis
    by (simp add: document_of_def scan_trip_def shared_flag_def readTripCities_def readVisits_def
        readWalkPoints_def rows_by_id_def)
qed

lemma LogbookRead_Inr:
  assumes "LogbookRead t (\<lambda>_. True) s = (Inr snap, s')"
  shows "tx_db s' = tx_db s \<and> Some (snap_Version snap) = version_of (tx_db s) t \<and>
     snap_Document snap = Some (document_of t (tx_db s))"
proof -
  from assms obtain s1 v s2 doc where "tx_db s1 = tx_db s"
    "Some v = version_of (tx_db s) t" "readDocument t s1 = (Inr doc, s2)"
    "snap = \<lparr>snap_Version = v, snap_Document = Some doc\<rparr>" "tx_db s' = tx_db s"
    by (auto simp: LogbookRead_def WithReadSnapshot_def t_bind_Inr split: prod.splits option.splits
        dest!: t_query_Inr)
  then show ?thesis using readDocument_Inr [of t s1 doc s2] by simp
qed

lemma deleteTrip_miss:
  assumes "deleteTrip t i s = (Inl ErrNothingDeleted, s')"
  shows "\<not> has_trip (tx_db s) t i"
proof -
  obtain r s1 where sql: "t_sql (deleteTripSQL t i) s = (r, s1)" by (cases "t_sql (deleteTripSQL t i) s")
  have no_doc: "fst (readDocument t s1) \<noteq> Inl ErrNothingDeleted" for s1
    using readDocument_raises [of t] by (auto simp: raises_def)
  show ?thesis
    using assms t_sql_cases [OF sql] sql no_doc [of s1]
    by (auto simp: deleteTrip_def t_bind_def t_lift_def guard_def deleteTripSQL_def has_trip_def
        filter_empty_conv split: prod.splits sum.splits if_splits)
qed

lemma on_miss_Inr:
  assumes "on_miss miss fallback ok m s = (Inr y, s')"
  obtains (hit) x where "m s = (Inr x, s')" "y = ok x"
    | (miss) s0 where "m s = (Inl miss, s0)" "fallback s0 = (Inr y, s')"
  using assms by (auto simp: on_miss_def split: prod.splits sum.splits if_splits)

text \<open>An error that is neither the driver's nor the traveller lookup's is the body's own.\<close>

lemma WithTravellerTx_Inl:
  assumes "WithTravellerTx t fn s = (Inl e, s')" "e \<notin> range ErrDB" "e \<noteq> ErrNoTraveller"
  obtains s1 s2 where "tx_db s1 = bumped t (tx_db s)" "fn s1 = (Inl e, s2)" "tx_db s' = tx_db s"
proof -
  let ?pre = "t_bind (t_query (\<lambda>_. ())) (\<lambda>_. t_bind (lockTraveller t) (\<lambda>_. bump t))"
  let ?body = "t_bind (t_query (\<lambda>_. ())) (\<lambda>_. t_bind (lockTraveller t) (\<lambda>_.
     t_bind (bump t) (\<lambda>version. t_bind fn (\<lambda>x. t_return (x, version)))))"
  have pre: "raises (insert ErrNoTraveller (range ErrDB)) ?pre"
    unfolding bump_def lockTraveller_def by (intro raises_intros) (auto split: option.splits)
  have assoc: "?body s = t_bind ?pre (\<lambda>version. t_bind fn (\<lambda>x. t_return (x, version))) s"
    by (simp add: t_bind_def split: prod.splits sum.splits)
  have "commit_or_rollback (tx_db s) (?body s) = (Inl e, s')"
    using assms(1) by (simp add: WithTravellerTx_def)
  with assms(2) obtain s2 where body: "?body s = (Inl e, s2)" and s': "tx_db s' = tx_db s"
    by (auto simp: commit_or_rollback_def split: prod.splits sum.splits option.splits fault.splits)
  obtain r s1 where r: "?pre s = (r, s1)" by (cases "?pre s")
  show thesis
  proof (cases r)
    case (Inl e1)
    with r raisesD [OF pre, of s e1 s1] body assoc assms(2,3) show ?thesis by (auto simp: t_bind_def)
  next
    case (Inr v)
    with r have "tx_db s1 = bumped t (tx_db s)"
      by (auto simp: t_bind_Inr lockTraveller_def dest!: t_query_Inr bump_Inr)
    moreover have "fn s1 = (Inl e, s2)"
      using body assoc r Inr by (auto simp: t_bind_def t_return_def split: prod.splits sum.splits)
    ultimately show ?thesis using that s' by blast
  qed
qed

definition of_trip :: "id \<Rightarrow> id \<Rightarrow> ('r \<Rightarrow> id) \<Rightarrow> ('r \<Rightarrow> id) \<Rightarrow> 'r \<Rightarrow> bool" where
  "of_trip t i traveller trp r \<longleftrightarrow> traveller r = t \<and> trp r = i"

text \<open>The photograph as it was, or with its occasion cleared when that occasion was of the trip.\<close>

definition unfiled_by :: "id \<Rightarrow> id \<Rightarrow> visit_row list \<Rightarrow> photo_row \<Rightarrow> photo_row \<Rightarrow> bool" where
  "unfiled_by t i vs f f' \<longleftrightarrow>
     (if filed_to (of_trip t i vs_traveller vs_trip) vs f then f' = f\<lparr>ph_visit := None\<rparr> else f' = f)"

lemma photos_delete_trip_pointwise:
  "list_all2 (unfiled_by t i (visits d))
     (filter (\<lambda>f. \<not> of_trip t i ph_traveller ph_trip f) (photos d)) (photos (delete_trip t i d))"
proof -
  have "list_all2 (unfiled_by t i vs) (filter (\<lambda>f. \<not> of_trip t i ph_traveller ph_trip f) fs)
      (del_rows (\<lambda>f. ph_traveller f = t \<and> ph_trip f = i)
        (map (\<lambda>f. if filed_to (\<lambda>v. vs_traveller v = t \<and> vs_trip v = i) vs f
                  then f\<lparr>ph_visit := None\<rparr> else f) fs))" for vs fs
    by (induction fs) (auto simp: del_rows_def of_trip_def [abs_def] unfiled_by_def)
  then show ?thesis by (simp add: photos_delete_trip photos_drop_visits)
qed

text \<open>C34: Deleting a trip that is in the log deletes exactly its own rows: the trip, its itinerary,
  occasions, photographs, walks and share links. Cities, places and media objects stay, and a
  photograph of another trip stays too, losing its occasion only when that occasion went. The
  answer is the new document at the next version. Deleting a trip that is not there changes
  nothing and answers the log at the version it has.\<close>

theorem delete_trip_exact:
  assumes "DeleteTrip t i s = (Inr snap, s')"
  shows "if has_trip (tx_db s) t i then
       trips (tx_db s') = filter (\<lambda>r. \<not> of_trip t i tr_traveller tr_id r) (trips (tx_db s)) \<and>
       trip_cities (tx_db s') = filter (\<lambda>r. \<not> of_trip t i tc_traveller tc_trip r) (trip_cities (tx_db s)) \<and>
       visits (tx_db s') = filter (\<lambda>r. \<not> of_trip t i vs_traveller vs_trip r) (visits (tx_db s)) \<and>
       walks (tx_db s') = filter (\<lambda>r. \<not> of_trip t i wk_traveller wk_trip r) (walks (tx_db s)) \<and>
       share_links (tx_db s') = filter (\<lambda>r. \<not> of_trip t i sh_traveller sh_trip r) (share_links (tx_db s)) \<and>
       cities (tx_db s') = cities (tx_db s) \<and> places (tx_db s') = places (tx_db s) \<and>
       media_objects (tx_db s') = media_objects (tx_db s) \<and>
       list_all2 (unfiled_by t i (visits (tx_db s)))
         (filter (\<lambda>f. \<not> of_trip t i ph_traveller ph_trip f) (photos (tx_db s))) (photos (tx_db s')) \<and>
       version_of (tx_db s) t = Some (snap_Version snap - 1) \<and>
       snap_Document snap = Some (document_of t (tx_db s'))
     else tx_db s' = tx_db s \<and> version_of (tx_db s) t = Some (snap_Version snap) \<and>
       snap_Document snap = Some (document_of t (tx_db s))"
  using assms unfolding DeleteTrip_def
proof (cases rule: on_miss_Inr)
  case (hit x)
  obtain doc v where x: "x = (doc, v)" by (cases x)
  from hit(1) x have wrote: "wrote t (deleteTrip t i) (tx_db s) doc v (tx_db s')"
    by (auto intro: WithTravellerTx_Inr)
  then obtain s1 s2 where s1: "tx_db s1 = bumped t (tx_db s)"
    and run: "deleteTrip t i s1 = (Inr doc, s2)" and s2: "tx_db s' = tx_db s2"
    and ver: "version_of (tx_db s) t = Some (v - 1)"
    by (auto simp: wrote_def)
  note del = deleteTrip_Inr [OF run]
  have "has_trip (tx_db s) t i" using del s1 by simp
  moreover have "tx_db s' = delete_trip t i (bumped t (tx_db s))" using del s1 s2 by simp
  moreover have "snap = \<lparr>snap_Version = v, snap_Document = Some doc\<rparr>" using hit(2) x by (simp add: whole_log_def)
  moreover have "doc = document_of t (tx_db s')" using del s2 by simp
  ultimately show ?thesis
    using photos_delete_trip_pointwise [of t i "bumped t (tx_db s)"] ver
    by (simp add: del_rows_def of_trip_def tr_key_def)
next
  case (miss s0)
  from miss(1) obtain s1 s2 where "tx_db s1 = bumped t (tx_db s)"
    "deleteTrip t i s1 = (Inl ErrNothingDeleted, s2)" "tx_db s0 = tx_db s"
    by (rule WithTravellerTx_Inl) auto
  with deleteTrip_miss [of t i s1 s2] LogbookRead_Inr [OF miss(2)] show ?thesis by simp
qed

theorem delete_trip_exact_witness:
  "\<exists>snap s'. DeleteTrip ''u1'' ''t1'' (calm sample) = (Inr snap, s') \<and>
     map tr_id (trips (tx_db s')) = [''t2''] \<and> walks (tx_db s') = [] \<and>
     share_links (tx_db s') = [] \<and> map vs_id (visits (tx_db s')) = [''v2'']"
proof -
  have "\<not> isl (fst (DeleteTrip ''u1'' ''t1'' (calm sample)))" by code_simp
  then obtain snap s' where run: "DeleteTrip ''u1'' ''t1'' (calm sample) = (Inr snap, s')" by (rule ran)
  have "has_trip sample ''u1'' ''t1''" by code_simp
  with delete_trip_exact [OF run] run show ?thesis
    by (simp add: of_trip_def) (simp add: sample_def)
qed

end
