(* ===== verification/Store_Share.thy ===== *)
theory Store_Share
  imports Store_Trip
begin

section \<open>Sharing (\<^verbatim>\<open>internal/postgres/share_store.go\<close>)\<close>

text \<open>
  \<open>SetShareOptions\<close>, \<open>NewShareLink\<close> and \<open>StopSharing\<close>, with the shape all three share (\<open>write\<close>, here
  \<open>share_write_tx\<close>). The database keeps the digest of a token only: \<open>HashShareToken\<close>, a SHA-256, is
  the parameter \<open>sha\<close>. \<open>now\<close> is what PostgreSQL's \<open>now()\<close> answers: the instant at which the
  transaction began, before it waited for the traveller's lock.
\<close>

type_synonym hasher = "string \<Rightarrow> digest"

definition boolOrFalse :: "bool option \<Rightarrow> bool" where
  "boolOrFalse p \<longleftrightarrow> p = Some True"

definition share_write_tx :: "id \<Rightarrow> id \<Rightarrow> unit tx \<Rightarrow> (trip \<times> int) tx" where
  "share_write_tx t trip body =
     WithTravellerTx t
       (t_bind (requireRow (\<lambda>d. has_trip d t trip) ErrNoTrip) (\<lambda>_.
        t_bind body (\<lambda>_. readOneTrip t trip)))"

definition setShareOptionsSQL :: "id \<Rightarrow> id \<Rightarrow> share_write \<Rightarrow> database \<Rightarrow> db_error + database" where
  "setShareOptionsSQL t trip w d =
     Inr (d\<lparr>trips := upd_rows (\<lambda>r. tr_key r = (t, trip))
       (\<lambda>r. r\<lparr>tr_share_photos := (if shw_SharePhotos w \<noteq> None then boolOrFalse (shw_SharePhotos w)
                                    else tr_share_photos r),
              tr_share_notes := (if shw_ShareNotes w \<noteq> None then boolOrFalse (shw_ShareNotes w)
                                   else tr_share_notes r),
              tr_share_coordinates := (if shw_ShareCoordinates w \<noteq> None
                                         then boolOrFalse (shw_ShareCoordinates w)
                                         else tr_share_coordinates r)\<rparr>) (trips d)\<rparr>)"

definition live_on :: "id \<Rightarrow> id \<Rightarrow> share_row \<Rightarrow> bool" where
  "live_on t trip r \<longleftrightarrow> sh_traveller r = t \<and> sh_trip r = trip \<and> sh_revoked r = None"

definition revokeLiveLinkSQL :: "instant \<Rightarrow> id \<Rightarrow> id \<Rightarrow> database \<Rightarrow> db_error + database" where
  "revokeLiveLinkSQL now t trip d =
     (if list_ex (\<lambda>r. live_on t trip r \<and> \<not> share_ck (r\<lparr>sh_revoked := Some now\<rparr>)) (share_links d)
      then Inl check_violation
      else Inr (d\<lparr>share_links := upd_rows (live_on t trip) (\<lambda>r. r\<lparr>sh_revoked := Some now\<rparr>)
             (share_links d)\<rparr>))"

definition insertShareLinkSQL ::
  "instant \<Rightarrow> id \<Rightarrow> id \<Rightarrow> digest \<Rightarrow> database \<Rightarrow> db_error + database" where
  "insertShareLinkSQL now t trip hash d =
     (let r = \<lparr>sh_traveller = t, sh_trip = trip, sh_hash = hash, sh_created = now, sh_revoked = None\<rparr>
      in if \<not> share_ck r then Inl check_violation
         else if hash \<in> sh_hash ` set (share_links d) \<or> (t, trip) \<in> set (live_slots (share_links d))
         then Inl unique_violation
         else if \<not> share_fk d r then Inl foreign_key_violation
         else Inr (d\<lparr>share_links := share_links d @ [r]\<rparr>))"

definition resetShareFlagsSQL :: "id \<Rightarrow> id \<Rightarrow> database \<Rightarrow> db_error + database" where
  "resetShareFlagsSQL t trip d =
     Inr (d\<lparr>trips := upd_rows (\<lambda>r. tr_key r = (t, trip))
       (\<lambda>r. r\<lparr>tr_share_photos := True, tr_share_notes := True, tr_share_coordinates := False\<rparr>)
       (trips d)\<rparr>)"

definition SetShareOptions :: "id \<Rightarrow> id \<Rightarrow> share_write \<Rightarrow> (trip \<times> int) tx" where
  "SetShareOptions t trip w = share_write_tx t trip (t_exec (setShareOptionsSQL t trip w))"

definition mintLink :: "instant \<Rightarrow> id \<Rightarrow> id \<Rightarrow> digest \<Rightarrow> unit tx" where
  "mintLink now t trip hash =
     t_bind (t_exec (revokeLiveLinkSQL now t trip)) (\<lambda>_. t_exec (insertShareLinkSQL now t trip hash))"

definition NewShareLink :: "hasher \<Rightarrow> instant \<Rightarrow> id \<Rightarrow> id \<Rightarrow> string \<Rightarrow> (trip \<times> int) tx" where
  "NewShareLink sha now t trip token =
     t_bind (share_write_tx t trip (mintLink now t trip (sha token))) (\<lambda>res.
     t_return (case res of (trp, version) \<Rightarrow> (trp\<lparr>trip_ShareLinkID := Some token\<rparr>, version)))"

definition unshare :: "instant \<Rightarrow> id \<Rightarrow> id \<Rightarrow> unit tx" where
  "unshare now t trip =
     t_bind (t_exec (revokeLiveLinkSQL now t trip)) (\<lambda>_. t_exec (resetShareFlagsSQL t trip))"

definition StopSharing :: "instant \<Rightarrow> id \<Rightarrow> id \<Rightarrow> (trip \<times> int) tx" where
  "StopSharing now t trip = share_write_tx t trip (unshare now t trip)"

subsection \<open>Soundness\<close>

lemma schema_shares:
  assumes "schema_ok d"
  shows "distinct (map sh_hash (share_links d))" "distinct (live_slots (share_links d))"
    "list_all share_ck (share_links d)" "list_all (share_fk d) (share_links d)"
  using assms by (simp_all add: schema_ok_def unique_ok_def checks_hold_def refs_hold_def)

text \<open>A statement that rewrites only the three sharing flags of one trip.\<close>

definition only_flags :: "(trip_row \<Rightarrow> trip_row) \<Rightarrow> bool" where
  "only_flags g \<longleftrightarrow> (\<forall>r. tr_key (g r) = tr_key r \<and> trip_ck (g r) = trip_ck r \<and>
     (\<forall>d. trip_fk d (g r) = trip_fk d r))"

lemma schema_upd_trips:
  assumes ok: "schema_ok d" and g: "only_flags g"
  shows "schema_ok (d\<lparr>trips := upd_rows p g (trips d)\<rparr>)"
proof -
  let ?d = "d\<lparr>trips := upd_rows p g (trips d)\<rparr>"
  have keys: "map tr_key (trips ?d) = map tr_key (trips d)"
    using g by (simp add: map_upd_rows only_flags_def)
  then have "has_trip ?d = has_trip d"
    unfolding has_trip_def fun_eq_iff by (metis set_map)
  moreover have "has_media ?d = has_media d" "has_city ?d = has_city d"
    "has_traveller ?d = has_traveller d" "has_place ?d = has_place d" "has_visit ?d = has_visit d"
    by (simp_all add: has_defs fun_eq_iff)
  ultimately have fk: "media_fk ?d = media_fk d" "city_fk ?d = city_fk d" "trip_fk ?d = trip_fk d"
    "trip_city_fk ?d = trip_city_fk d" "place_fk ?d = place_fk d" "visit_fk ?d = visit_fk d"
    "photo_fk ?d = photo_fk d" "walk_fk ?d = walk_fk d" "share_fk ?d = share_fk d"
    by (simp_all add: fk_cong [of ?d d])
  have "list_all (trip_fk d) (upd_rows p g (trips d))" "list_all trip_ck (upd_rows p g (trips d))"
    using ok g by (auto simp: schema_ok_def refs_hold_def checks_hold_def only_flags_def
        intro!: list_all_upd_rows)
  with ok keys fk show ?thesis
    by (simp add: schema_ok_def unique_ok_def checks_hold_def refs_hold_def)
qed

lemma update_flags_sound:
  assumes "only_flags g"
  shows "sound t d (d\<lparr>trips := upd_rows (\<lambda>r. tr_key r = (t, i)) g (trips d)\<rparr>)"
proof (rule soundI)
  have "tr_traveller (g r) = t" if "tr_key r = (t, i)" for r
    using assms that by (metis only_flags_def tr_key_def fst_conv)
  then show "frame t d (d\<lparr>trips := upd_rows (\<lambda>r. tr_key r = (t, i)) g (trips d)\<rparr>)"
    by (intro frame_tables filter_upd_rows_other) (auto simp: tr_key_def)
qed (simp_all add: same_travellers_def schema_upd_trips assms)

definition option_flags :: "share_write \<Rightarrow> trip_row \<Rightarrow> trip_row" where
  "option_flags w r = r\<lparr>tr_share_photos := or_keep (shw_SharePhotos w) (tr_share_photos r),
     tr_share_notes := or_keep (shw_ShareNotes w) (tr_share_notes r),
     tr_share_coordinates := or_keep (shw_ShareCoordinates w) (tr_share_coordinates r)\<rparr>"

definition default_flags :: "trip_row \<Rightarrow> trip_row" where
  "default_flags r = r\<lparr>tr_share_photos := True, tr_share_notes := True, tr_share_coordinates := False\<rparr>"

lemma only_flags_updates: "only_flags (option_flags w)" "only_flags default_flags"
  by (simp_all add: only_flags_def option_flags_def default_flags_def tr_key_def trip_ck_def trip_fk_def)

lemma flag_statements:
  "setShareOptionsSQL t i w d =
     Inr (d\<lparr>trips := upd_rows (\<lambda>r. tr_key r = (t, i)) (option_flags w) (trips d)\<rparr>)"
  "resetShareFlagsSQL t i d =
     Inr (d\<lparr>trips := upd_rows (\<lambda>r. tr_key r = (t, i)) default_flags (trips d)\<rparr>)"
proof -
  have "(if a \<noteq> None then boolOrFalse a else b) = or_keep a b" for a b
    by (cases a) (auto simp: or_keep_def boolOrFalse_def)
  then show "setShareOptionsSQL t i w d =
     Inr (d\<lparr>trips := upd_rows (\<lambda>r. tr_key r = (t, i)) (option_flags w) (trips d)\<rparr>)"
    by (simp only: setShareOptionsSQL_def option_flags_def [abs_def])
qed (simp add: resetShareFlagsSQL_def default_flags_def [abs_def])

lemma live_slots_upd:
  "live_slots (upd_rows (live_on t i) (\<lambda>r. r\<lparr>sh_revoked := Some now\<rparr>) rows) =
     filter (\<lambda>k. k \<noteq> (t, i)) (live_slots rows)"
  by (induction rows) (auto simp: live_slots_def upd_rows_def live_on_def)

lemma revokeLiveLinkSQL_sound:
  assumes "revokeLiveLinkSQL now t i d = Inr d'"
  shows "sound t d d'"
proof -
  let ?g = "\<lambda>r. r\<lparr>sh_revoked := Some now\<rparr>"
  have d': "d' = d\<lparr>share_links := upd_rows (live_on t i) ?g (share_links d)\<rparr>"
    and ck: "\<And>r. r \<in> set (share_links d) \<Longrightarrow> live_on t i r \<Longrightarrow> share_ck (?g r)"
    using assms by (auto simp: revokeLiveLinkSQL_def list_ex_iff split: if_splits)
  have "schema_ok d'" if ok: "schema_ok d"
    unfolding d' using schema_shares [OF ok] ck
    by (intro schema_set_share_links [OF ok])
      (auto simp: map_upd_rows live_slots_upd share_fk_def intro!: list_all_upd_rows)
  then show ?thesis unfolding d'
    by (intro soundI frame_tables filter_upd_rows_other)
      (auto simp: same_travellers_def live_on_def)
qed

lemma insertShareLinkSQL_ok:
  "insertShareLinkSQL now t i h d = Inr d' \<longleftrightarrow>
     length h = 32 \<and> h \<notin> sh_hash ` set (share_links d) \<and> (t, i) \<notin> set (live_slots (share_links d)) \<and>
     has_traveller d t \<and> has_trip d t i \<and>
     d' = d\<lparr>share_links := share_links d @ [\<lparr>sh_traveller = t, sh_trip = i, sh_hash = h,
       sh_created = now, sh_revoked = None\<rparr>]\<rparr>"
  by (auto simp: insertShareLinkSQL_def Let_def share_ck_def share_fk_def)

lemma insertShareLinkSQL_sound: "insertShareLinkSQL now t i h d = Inr d' \<Longrightarrow> sound t d d'"
  unfolding insertShareLinkSQL_ok
  by (intro soundI)
    (auto intro!: frame_tables schema_set_share_links
      simp: same_travellers_def schema_shares schema_shares(2) [unfolded live_slots_def] share_ck_def
        share_fk_def live_slots_def)

lemma share_statements_sound [rel_intros]:
  "tx_rel (sound t) (t_exec (setShareOptionsSQL t i w))"
  "tx_rel (sound t) (t_exec (resetShareFlagsSQL t i))"
  "tx_rel (sound t) (t_exec (revokeLiveLinkSQL now t i))"
  "tx_rel (sound t) (t_exec (insertShareLinkSQL now t i h))"
  by (auto simp: flag_statements intro!: sound.rel_exec update_flags_sound only_flags_updates
      intro: revokeLiveLinkSQL_sound insertShareLinkSQL_sound)

lemma share_bodies_sound [rel_intros]:
  "tx_rel (sound t) (mintLink now t i h)" "tx_rel (sound t) (unshare now t i)"
  unfolding mintLink_def unshare_def by (intro rel_intros)+

lemma share_body_sound:
  assumes "tx_rel (sound t) body"
  shows "tx_rel (sound t) (t_bind (requireRow (\<lambda>d. has_trip d t i) ErrNoTrip) (\<lambda>_.
     t_bind body (\<lambda>_. readOneTrip t i)))"
  using assms by (intro rel_intros)

lemma share_write_tx_write: "tx_rel (sound t) body \<Longrightarrow> write_op t (share_write_tx t i body)"
  unfolding share_write_tx_def by (intro write_op_tx share_body_sound)

lemma SetShareOptions_write: "write_op t (SetShareOptions t i w)"
  unfolding SetShareOptions_def by (intro share_write_tx_write rel_intros)

lemma NewShareLink_write: "write_op t (NewShareLink sha now t i token)"
  unfolding NewShareLink_def by (intro write_op_return share_write_tx_write rel_intros)

lemma StopSharing_write: "write_op t (StopSharing now t i)"
  unfolding StopSharing_def by (intro share_write_tx_write rel_intros)

subsection \<open>What a share write did\<close>

lemma share_write_tx_Inr:
  assumes "share_write_tx t i body s = (Inr (trp, v), s')" "tx_rel (sound t) body"
  obtains s1 s2 row where "tx_db s1 = bumped t (tx_db s)" "body s1 = (Inr (), s2)"
    "tx_db s' = tx_db s2" "has_trip (tx_db s) t i" "find_trip (tx_db s') t i = Some row"
    "trp = scan_trip (tx_db s') (appended (itinerary (tx_db s') t i)) row"
    "version_of (tx_db s') t = Some v" "version_of (tx_db s) t = Some (v - 1)"
proof -
  let ?fn = "t_bind (requireRow (\<lambda>d. has_trip d t i) ErrNoTrip) (\<lambda>_. t_bind body (\<lambda>_. readOneTrip t i))"
  have wrote: "wrote t ?fn (tx_db s) trp v (tx_db s')"
    using assms(1) unfolding share_write_tx_def by (rule WithTravellerTx_Inr)
  then obtain s0 s3 where s0: "tx_db s0 = bumped t (tx_db s)" and run: "?fn s0 = (Inr trp, s3)"
    and s3: "tx_db s' = tx_db s3"
    by (auto simp: wrote_def)
  from run obtain u s1 s2 where req: "requireRow (\<lambda>d. has_trip d t i) ErrNoTrip s0 = (Inr u, s1)"
    and body: "body s1 = (Inr (), s2)" and reread: "readOneTrip t i s2 = (Inr trp, s3)"
    by (auto simp: t_bind_Inr)
  note r = requireRow_Inr [OF req]
  from reread obtain row where "find_trip (tx_db s2) t i = Some row"
    "trp = scan_trip (tx_db s2) (appended (itinerary (tx_db s2) t i)) row" "tx_db s3 = tx_db s2"
    by (rule readOneTrip_Inr)
  with that [of s1 s2 row] r s0 s3 body wrote_advances [OF share_body_sound [OF assms(2)] wrote]
  show thesis by simp
qed

lemma t_exec_exec:
  assumes "t_bind (t_exec a) (\<lambda>_. t_exec b) s = (Inr (), s')"
  obtains d where "a (tx_db s) = Inr d" "b d = Inr (tx_db s')"
  using assms by (auto simp: t_bind_Inr dest!: t_exec_Inr)

lemma find_upd_trip:
  assumes "\<And>r. tr_key (g r) = tr_key r"
  shows "List.find (\<lambda>r. tr_key r = k) (upd_rows (\<lambda>r. tr_key r = (t, i)) g rows) =
    (if k = (t, i) then map_option g (List.find (\<lambda>r. tr_key r = k) rows)
     else List.find (\<lambda>r. tr_key r = k) rows)"
  using assms by (induction rows) (auto simp: upd_rows_def)

text \<open>The live links of one trip, and the rest of the table.\<close>

definition live_links :: "database \<Rightarrow> id \<Rightarrow> id \<Rightarrow> digest list" where
  "live_links d t i = map sh_hash (filter (live_on t i) (share_links d))"

definition other_links :: "database \<Rightarrow> id \<Rightarrow> id \<Rightarrow> share_row list" where
  "other_links d t i = filter (\<lambda>r. (sh_traveller r, sh_trip r) \<noteq> (t, i)) (share_links d)"

lemma none_live: "filter (live_on t i) (upd_rows (live_on t i) (\<lambda>r. r\<lparr>sh_revoked := Some now\<rparr>) rows) = []"
  by (induction rows) (simp_all add: upd_rows_def live_on_def)

lemma links_revoked:
  assumes "revokeLiveLinkSQL now t i d = Inr d'"
  shows "live_links d' t i = []" "other_links d' t i = other_links d t i"
    "map sh_hash (share_links d') = map sh_hash (share_links d)" "trips d' = trips d"
proof -
  have d': "d' = d\<lparr>share_links := upd_rows (live_on t i) (\<lambda>r. r\<lparr>sh_revoked := Some now\<rparr>) (share_links d)\<rparr>"
    using assms by (simp add: revokeLiveLinkSQL_def split: if_splits)
  show "live_links d' t i = []"
    by (simp add: d' live_links_def none_live)
  show "other_links d' t i = other_links d t i"
    unfolding d' other_links_def by (auto intro!: filter_upd_rows_other simp: live_on_def)
qed (use assms in \<open>auto simp: revokeLiveLinkSQL_def map_upd_rows split: if_splits\<close>)

lemma live_on_iff: "shared_flag d t i \<longleftrightarrow> live_links d t i \<noteq> []"
  by (auto simp: shared_flag_def live_links_def live_on_def list_ex_iff filter_empty_conv)

text \<open>C27: Minting a link leaves the trip with exactly one live link, the one whose digest is the
  token's: every earlier link of the trip is revoked and no other trip's links are touched. The
  answer carries the token in clear and says the trip is shared; the sharing flags stay.\<close>

theorem new_share_link_effect:
  assumes "NewShareLink sha now t i token s = (Inr (trp, v), s')"
  shows "live_links (tx_db s') t i = [sha token] \<and>
     other_links (tx_db s') t i = other_links (tx_db s) t i \<and>
     map sh_hash (share_links (tx_db s')) = map sh_hash (share_links (tx_db s)) @ [sha token] \<and>
     trips (tx_db s') = trips (tx_db s) \<and>
     trip_ShareLinkID trp = Some token \<and> trip_Shared trp \<and> trip_ID trp = i \<and>
     version_of (tx_db s') t = Some v"
proof -
  from assms obtain trp0 where run: "share_write_tx t i (mintLink now t i (sha token)) s = (Inr (trp0, v), s')"
    and trp: "trp = trp0\<lparr>trip_ShareLinkID := Some token\<rparr>"
    by (auto simp: NewShareLink_def t_bind_Inr)
  from run share_bodies_sound(1) obtain s1 s2 row where
    s1: "tx_db s1 = bumped t (tx_db s)" and body: "mintLink now t i (sha token) s1 = (Inr (), s2)" and
    s2: "tx_db s' = tx_db s2" and row: "find_trip (tx_db s') t i = Some row" and
    trp0: "trp0 = scan_trip (tx_db s') (appended (itinerary (tx_db s') t i)) row" and
    ver: "version_of (tx_db s') t = Some v"
    by (rule share_write_tx_Inr)
  from body obtain d3 where rev: "revokeLiveLinkSQL now t i (tx_db s1) = Inr d3"
    and ins: "insertShareLinkSQL now t i (sha token) d3 = Inr (tx_db s2)"
    unfolding mintLink_def by (rule t_exec_exec)
  let ?new = "\<lparr>sh_traveller = t, sh_trip = i, sh_hash = sha token, sh_created = now, sh_revoked = None\<rparr>"
  have d2: "tx_db s2 = d3\<lparr>share_links := share_links d3 @ [?new]\<rparr>"
    using ins by (simp add: insertShareLinkSQL_ok)
  note rv = links_revoked [OF rev]
  have live: "live_links (tx_db s') t i = [sha token]"
    using rv(1) d2 s2 by (simp add: live_links_def live_on_def)
  moreover have "other_links (tx_db s') t i = other_links (tx_db s) t i"
    using rv(2) d2 s2 s1 by (simp add: other_links_def)
  moreover have "map sh_hash (share_links (tx_db s')) = map sh_hash (share_links (tx_db s)) @ [sha token]"
    using rv(3) d2 s2 s1 by simp
  moreover have "trips (tx_db s') = trips (tx_db s)" using rv(4) d2 s2 s1 by simp
  moreover have "tr_key row = (t, i)" using row by (auto simp: find_trip_def dest!: find_SomeD)
  ultimately show ?thesis
    using ver trp trp0 live by (simp add: scan_trip_def tr_key_def live_on_iff)
qed

definition sample_sha :: hasher where
  "sample_sha token = take 32 (token @ replicate 32 CHR ''0'')"

theorem new_share_link_effect_witness:
  "\<exists>trp v s'. NewShareLink sample_sha 200 ''u1'' ''t1'' ''abcdefghijkl'' (calm sample) = (Inr (trp, v), s') \<and>
     live_links (tx_db s') ''u1'' ''t1'' = [sample_sha ''abcdefghijkl''] \<and> hash_a \<noteq> sample_sha ''abcdefghijkl''"
proof -
  have "\<not> isl (fst (NewShareLink sample_sha 200 ''u1'' ''t1'' ''abcdefghijkl'' (calm sample)))" by code_simp
  then obtain x s' where run:
    "NewShareLink sample_sha 200 ''u1'' ''t1'' ''abcdefghijkl'' (calm sample) = (Inr x, s')" by (rule ran)
  obtain trp v where x: "x = (trp, v)" by (metis prod.exhaust)
  have "hash_a \<noteq> sample_sha ''abcdefghijkl''" by code_simp
  with new_share_link_effect [of sample_sha 200 "''u1''" "''t1''" "''abcdefghijkl''" "calm sample" trp v s']
    run x show ?thesis by simp
qed

text \<open>Stopping leaves no live link on the trip, and the trip's three flags at their defaults,
  photographs and notes on and coordinates off, so the next link starts closed. No other trip
  and no other trip's links change.\<close>

theorem stop_sharing_effect:
  assumes "StopSharing now t i s = (Inr (trp, v), s')"
  shows "live_links (tx_db s') t i = [] \<and>
     other_links (tx_db s') t i = other_links (tx_db s) t i \<and>
     find_trip (tx_db s') t i = map_option default_flags (find_trip (tx_db s) t i) \<and>
     (\<forall>u j. (u, j) \<noteq> (t, i) \<longrightarrow> find_trip (tx_db s') u j = find_trip (tx_db s) u j) \<and>
     trip_SharePhotos trp \<and> trip_ShareNotes trp \<and> \<not> trip_ShareCoordinates trp \<and>
     \<not> trip_Shared trp \<and> trip_ShareLinkID trp = None \<and> version_of (tx_db s') t = Some v"
proof -
  from assms share_bodies_sound(2) obtain s1 s2 row where
    s1: "tx_db s1 = bumped t (tx_db s)" and body: "unshare now t i s1 = (Inr (), s2)" and
    s2: "tx_db s' = tx_db s2" and row: "find_trip (tx_db s') t i = Some row" and
    trp: "trp = scan_trip (tx_db s') (appended (itinerary (tx_db s') t i)) row" and
    ver: "version_of (tx_db s') t = Some v"
    unfolding StopSharing_def by (rule share_write_tx_Inr)
  from body obtain d3 where rev: "revokeLiveLinkSQL now t i (tx_db s1) = Inr d3"
    and res: "resetShareFlagsSQL t i d3 = Inr (tx_db s2)"
    unfolding unshare_def by (rule t_exec_exec)
  note rv = links_revoked [OF rev]
  have d2: "tx_db s2 = d3\<lparr>trips := upd_rows (\<lambda>r. tr_key r = (t, i)) default_flags (trips d3)\<rparr>"
    using res by (simp add: flag_statements)
  have keys: "tr_key (default_flags r) = tr_key r" for r by (simp add: default_flags_def tr_key_def)
  have links: "live_links (tx_db s') t i = []" "other_links (tx_db s') t i = other_links (tx_db s) t i"
    using rv(1,2) d2 s2 s1 by (simp_all add: live_links_def other_links_def)
  have trips: "find_trip (tx_db s') u j =
      (if (u, j) = (t, i) then map_option default_flags (find_trip (tx_db s) u j)
       else find_trip (tx_db s) u j)" for u j
    using rv(4) d2 s2 s1 by (simp add: find_trip_def find_upd_trip keys)
  then obtain old where old: "row = default_flags old" using row by auto
  have "tr_key row = (t, i)" using row by (auto simp: find_trip_def dest!: find_SomeD)
  with links trips ver trp old show ?thesis
    by (simp add: scan_trip_def tr_key_def live_on_iff default_flags_def)
qed

theorem stop_sharing_effect_witness:
  "\<exists>trp v s'. StopSharing 200 ''u1'' ''t1'' (calm sample) = (Inr (trp, v), s') \<and>
     live_links (tx_db s') ''u1'' ''t1'' = [] \<and> live_links sample ''u1'' ''t1'' = [hash_a]"
proof -
  have "\<not> isl (fst (StopSharing 200 ''u1'' ''t1'' (calm sample)))" by code_simp
  then obtain x s' where run: "StopSharing 200 ''u1'' ''t1'' (calm sample) = (Inr x, s')" by (rule ran)
  obtain trp v where x: "x = (trp, v)" by (metis prod.exhaust)
  have "live_links sample ''u1'' ''t1'' = [hash_a]" by code_simp
  with stop_sharing_effect [of 200 "''u1''" "''t1''" "calm sample" trp v s'] run x show ?thesis by simp
qed

text \<open>Writing the share options changes exactly the flags that were sent, of that trip only,
  and no link: turning a switch never revokes or mints.\<close>

theorem set_share_options_effect:
  assumes "SetShareOptions t i w s = (Inr (trp, v), s')"
  shows "share_links (tx_db s') = share_links (tx_db s) \<and>
     find_trip (tx_db s') t i = map_option (option_flags w) (find_trip (tx_db s) t i) \<and>
     (\<forall>u j. (u, j) \<noteq> (t, i) \<longrightarrow> find_trip (tx_db s') u j = find_trip (tx_db s) u j) \<and>
     trip_Shared trp = shared_flag (tx_db s) t i \<and> version_of (tx_db s') t = Some v"
proof -
  from assms share_statements_sound(1) obtain s1 s2 row where
    s1: "tx_db s1 = bumped t (tx_db s)" and body: "t_exec (setShareOptionsSQL t i w) s1 = (Inr (), s2)" and
    s2: "tx_db s' = tx_db s2" and row: "find_trip (tx_db s') t i = Some row" and
    trp: "trp = scan_trip (tx_db s') (appended (itinerary (tx_db s') t i)) row" and
    ver: "version_of (tx_db s') t = Some v"
    unfolding SetShareOptions_def by (rule share_write_tx_Inr)
  have d2: "tx_db s2 = (tx_db s1)\<lparr>trips := upd_rows (\<lambda>r. tr_key r = (t, i)) (option_flags w) (trips (tx_db s1))\<rparr>"
    using t_exec_Inr [OF body] by (simp add: flag_statements)
  have keys: "tr_key (option_flags w r) = tr_key r" for r by (simp add: option_flags_def tr_key_def)
  have trips: "find_trip (tx_db s') u j =
      (if (u, j) = (t, i) then map_option (option_flags w) (find_trip (tx_db s) u j)
       else find_trip (tx_db s) u j)" for u j
    using d2 s2 s1 by (simp add: find_trip_def find_upd_trip keys)
  have links: "share_links (tx_db s') = share_links (tx_db s)" using d2 s2 s1 by simp
  have "tr_key row = (t, i)" using row by (auto simp: find_trip_def dest!: find_SomeD)
  with links trips ver trp show ?thesis
    by (simp add: scan_trip_def tr_key_def shared_flag_def)
qed

theorem set_share_options_effect_witness:
  "\<exists>trp v s'. SetShareOptions ''u1'' ''t1'' \<lparr>shw_SharePhotos = None, shw_ShareNotes = Some False,
       shw_ShareCoordinates = None\<rparr> (calm sample) = (Inr (trp, v), s') \<and>
     share_links (tx_db s') = share_links sample"
proof -
  let ?w = "\<lparr>shw_SharePhotos = None, shw_ShareNotes = Some False, shw_ShareCoordinates = None\<rparr>"
  have "\<not> isl (fst (SetShareOptions ''u1'' ''t1'' ?w (calm sample)))" by code_simp
  then obtain x s' where run: "SetShareOptions ''u1'' ''t1'' ?w (calm sample) = (Inr x, s')" by (rule ran)
  obtain trp v where x: "x = (trp, v)" by (metis prod.exhaust)
  with set_share_options_effect [of "''u1''" "''t1''" ?w "calm sample" trp v s'] run show ?thesis by simp
qed

lemma share_write_tx_calm_Inl:
  assumes "open_for t d" "has_trip d t i" "body (calm (bumped t d)) = (Inl e, calm d')"
  shows "share_write_tx t i body (calm d) = (Inl e, calm d)"
  unfolding share_write_tx_def
proof (rule WithTravellerTx_calm_Inl [OF assms(1)])
  show "t_bind (requireRow (\<lambda>d. has_trip d t i) ErrNoTrip) (\<lambda>_. t_bind body (\<lambda>_. readOneTrip t i))
      (calm (bumped t d)) = (Inl e, calm d')"
    using assms(2,3) by (simp add: requireRow_def t_bind_def t_lift_def guard_def)
qed

text \<open>A token that was ever minted cannot be minted again, by its own traveller or by another:
  the digest is unique across the table, revoked rows included. A second request with the same
  token, a client's retry for instance, ends in a unique violation with the database unchanged,
  which is neither a validation error nor the answer of the first request.\<close>

theorem reused_token_refused:
  assumes "open_for t d" "has_trip d t i" "length (sha token) = 32"
    "sha token \<in> sh_hash ` set (share_links d)"
    "\<forall>r \<in> set (share_links d). sh_created r \<le> now \<and> length (sh_hash r) = 32"
  shows "NewShareLink sha now t i token (calm d) = (Inl (ErrDB unique_violation), calm d)"
proof -
  let ?b = "bumped t d"
  have "\<not> list_ex (\<lambda>r. live_on t i r \<and> \<not> share_ck (r\<lparr>sh_revoked := Some now\<rparr>)) (share_links ?b)"
    using assms(5) by (auto simp: list_ex_iff share_ck_def)
  then obtain d3 where rev: "revokeLiveLinkSQL now t i ?b = Inr d3"
    by (simp add: revokeLiveLinkSQL_def)
  then have "sha token \<in> set (map sh_hash (share_links d3))"
    using assms(4) links_revoked(3) [OF rev] by simp
  then have "insertShareLinkSQL now t i (sha token) d3 = Inl unique_violation"
    using assms(3) by (simp add: insertShareLinkSQL_def share_ck_def)
  with rev have "mintLink now t i (sha token) (calm ?b) = (Inl (ErrDB unique_violation), calm d3)"
    by (simp add: mintLink_def t_bind_def)
  then have "share_write_tx t i (mintLink now t i (sha token)) (calm d) =
      (Inl (ErrDB unique_violation), calm d)"
    by (rule share_write_tx_calm_Inl [OF assms(1,2)])
  then show ?thesis by (simp add: NewShareLink_def t_bind_stop)
qed

theorem reused_token_refused_witness:
  "NewShareLink (\<lambda>_. hash_a) 200 ''u1'' ''t1'' ''abcdefghijkl'' (calm sample) =
     (Inl (ErrDB unique_violation), calm sample)"
proof -
  have "has_trip sample ''u1'' ''t1''" "length hash_a = 32"
    "hash_a \<in> sh_hash ` set (share_links sample)"
    "\<forall>r \<in> set (share_links sample). sh_created r \<le> 200 \<and> length (sh_hash r) = 32"
    by code_simp+
  then show ?thesis by (rule reused_token_refused [OF sample_open])
qed

text \<open>C38: \<open>now()\<close> is the start of the transaction, read before the traveller's lock is taken. When a
  stop waits for a mint that started after it, the live link was created after the stop's
  \<open>now()\<close>, the revocation violates \<open>share_links_revoked_after_created_ck\<close>, and the stop fails with
  the link still live.\<close>

theorem late_lock_cannot_stop_sharing:
  assumes "open_for t d" "has_trip d t i" "r \<in> set (share_links d)" "live_on t i r" "now < sh_created r"
  shows "StopSharing now t i (calm d) = (Inl (ErrDB check_violation), calm d)"
proof -
  have "list_ex (\<lambda>r. live_on t i r \<and> \<not> share_ck (r\<lparr>sh_revoked := Some now\<rparr>)) (share_links (bumped t d))"
    using assms(3-5) by (auto simp: list_ex_iff share_ck_def intro!: bexI [of _ r])
  then have "unshare now t i (calm (bumped t d)) = (Inl (ErrDB check_violation), calm (bumped t d))"
    by (simp add: unshare_def revokeLiveLinkSQL_def t_bind_def)
  then show ?thesis
    unfolding StopSharing_def by (rule share_write_tx_calm_Inl [OF assms(1,2)])
qed

theorem late_lock_cannot_stop_sharing_witness:
  "StopSharing 50 ''u1'' ''t1'' (calm sample) = (Inl (ErrDB check_violation), calm sample)"
proof -
  let ?r = "\<lparr>sh_traveller = ''u1'', sh_trip = ''t1'', sh_hash = hash_a, sh_created = 100, sh_revoked = None\<rparr>"
  have "has_trip sample ''u1'' ''t1''" "?r \<in> set (share_links sample)" "live_on ''u1'' ''t1'' ?r"
    "50 < sh_created ?r"
    by code_simp+
  then show ?thesis by (rule late_lock_cannot_stop_sharing [OF sample_open])
qed

end
