(* ===== verification/Store_City.thy ===== *)
theory Store_City
  imports Store_Trip "HOL-Library.Multiset"
begin

section \<open>Cities (\<^verbatim>\<open>internal/postgres/city_store.go\<close>)\<close>

text \<open>
  \<open>PutCity\<close> writes a city and, when the body carries \<open>attachTo\<close>, appends it to that trip's
  itinerary in the same transaction and answers the whole document. Attaching a city that is
  already on the itinerary changes nothing there.
\<close>

record cityBeforeWrite =
  cb_name :: string
  cb_country :: country
  cb_centre :: latlng
  cb_isCreate :: bool

definition requireWritableCity :: "id \<Rightarrow> id \<Rightarrow> city_write \<Rightarrow> cityBeforeWrite tx" where
  "requireWritableCity t i w =
     t_bind (t_query (\<lambda>d. case find_city d t i of
         None \<Rightarrow> \<lparr>cb_name = [], cb_country = \<lparr>Code = [], CountryName = []\<rparr>,
                  cb_centre = \<lparr>Lat = 0, Lng = 0\<rparr>, cb_isCreate = True\<rparr>
       | Some r \<Rightarrow> \<lparr>cb_name = ct_name r, cb_country = ct_country r, cb_centre = ct_centre r,
                    cb_isCreate = False\<rparr>)) (\<lambda>before.
     t_bind (t_lift (CheckCityWritable (cb_isCreate before) w)) (\<lambda>_. t_return before))"

definition proposed_city ::
  "id \<Rightarrow> id \<Rightarrow> string \<Rightarrow> country \<Rightarrow> latlng \<Rightarrow> city_write \<Rightarrow> city_row" where
  "proposed_city t i name country centre w =
     \<lparr>ct_traveller = t, ct_id = i, ct_name = name, ct_country = country, ct_centre = centre,
      ct_cover = Value (cw_CoverAsset w)\<rparr>"

definition merge_city :: "city_write \<Rightarrow> city_row \<Rightarrow> city_row \<Rightarrow> city_row" where
  "merge_city w new old = old\<lparr>
     ct_name := (if cw_Name w \<noteq> None then ct_name new else ct_name old),
     ct_country := (if cw_Country w \<noteq> None then ct_country new else ct_country old),
     ct_centre := (if cw_Centre w \<noteq> None then ct_centre new else ct_centre old),
     ct_cover := (if Sent (cw_CoverAsset w) then ct_cover new else ct_cover old)\<rparr>"

definition upsertCitySQL ::
  "id \<Rightarrow> id \<Rightarrow> string \<Rightarrow> country \<Rightarrow> latlng \<Rightarrow> city_write \<Rightarrow> database \<Rightarrow> db_error + database" where
  "upsertCitySQL t i name country centre w =
     with_texts [Some name, Some (Code country), Some (CountryName country)]
       (table_upsert cities (\<lambda>rs. cities_update (\<lambda>_. rs)) ct_key city_ck city_fk
         (proposed_city t i name country centre w)
         (merge_city w (proposed_city t i name country centre w)))"

text \<open>
  \<open>INSERT \<dots> SELECT coalesce(max(ordinal), -1) + 1 \<dots> ON CONFLICT ON CONSTRAINT trip_cities_pkey
  DO NOTHING\<close>. Only the primary key is an arbiter: the other unique constraint still raises.
\<close>

definition next_slot :: "id \<Rightarrow> id \<Rightarrow> database \<Rightarrow> int" where
  "next_slot t trip d =
     foldr max (map tc_ordinal (filter (\<lambda>r. tc_traveller r = t \<and> tc_trip r = trip) (trip_cities d)))
       (- 1) + 1"

definition attachCitySQL :: "id \<Rightarrow> id \<Rightarrow> id \<Rightarrow> database \<Rightarrow> db_error + database" where
  "attachCitySQL t trip city d =
     (let r = \<lparr>tc_traveller = t, tc_trip = trip, tc_city = city, tc_ordinal = next_slot t trip d\<rparr>
      in if \<not> int4 (tc_ordinal r) then Inl out_of_range
         else if tc_ordinal r < 0 then Inl check_violation
         else if tc_key r \<in> tc_key ` set (trip_cities d) then Inr d
         else if tc_slot r \<in> tc_slot ` set (trip_cities d) then Inl unique_violation
         else if \<not> trip_city_fk d r then Inl foreign_key_violation
         else Inr (d\<lparr>trip_cities := trip_cities d @ [r]\<rparr>))"

definition requireTrip :: "id \<Rightarrow> id \<Rightarrow> unit tx" where
  "requireTrip t trip = requireRow (\<lambda>d. has_trip d t trip) (InvalidField ''attachTo'')"

definition putCity :: "id \<Rightarrow> id \<Rightarrow> city_write \<Rightarrow> (city \<times> document option) tx" where
  "putCity t i w =
     t_bind (requireWritableCity t i w) (\<lambda>before.
     t_bind (requireCover t (Value (cw_CoverAsset w))) (\<lambda>_.
     t_bind (t_exec (upsertCitySQL t i (or_keep (cw_Name w) (cb_name before))
         (or_keep (cw_Country w) (cb_country before)) (or_keep (cw_Centre w) (cb_centre before)) w)) (\<lambda>_.
     t_bind (case cw_AttachTo w of
         None \<Rightarrow> t_return ()
       | Some trip \<Rightarrow> t_bind (requireTrip t trip) (\<lambda>_. t_exec (attachCitySQL t trip i))) (\<lambda>_.
     t_bind (readOneCity t i) (\<lambda>read.
     case cw_AttachTo w of
       None \<Rightarrow> t_return (read, None)
     | Some _ \<Rightarrow> t_bind (readDocument t) (\<lambda>doc. t_return (read, Some doc)))))))"

definition PutCity :: "id \<Rightarrow> city_write \<Rightarrow> ((city \<times> document option) \<times> int) tx" where
  "PutCity t w =
     t_bind (t_lift (CheckWriteID (cw_ID w))) (\<lambda>_.
     WithTravellerTx t (putCity t (the (cw_ID w)) w))"

subsection \<open>Soundness\<close>

lemma upsertCitySQL_sound: "upsertCitySQL t i n c x w d = Inr d' \<Longrightarrow> sound t d d'"
  unfolding upsertCitySQL_def with_texts_Inr
  by (elim conjE, erule city_table.upsert_sound [rotated 2])
    (simp_all add: proposed_city_def merge_city_def ct_key_def)

lemma attachCitySQL_sound: "attachCitySQL t trip c d = Inr d' \<Longrightarrow> sound t d d'"
  unfolding attachCitySQL_def Let_def
  by (cases "d' = d")
    (auto intro!: soundI frame_tables schema_add_trip_city simp: same_travellers_def sound.R_refl
      split: if_splits)

lemma city_statements_sound [rel_intros]:
  "tx_rel (sound t) (t_exec (upsertCitySQL t i n c x w))"
  "tx_rel (sound t) (t_exec (attachCitySQL t trip i))"
  by (auto intro: sound.rel_exec upsertCitySQL_sound attachCitySQL_sound)

lemma putCity_sound: "tx_rel (sound t) (putCity t i w)"
  unfolding putCity_def requireWritableCity_def requireTrip_def by (intro rel_intros)

lemma PutCity_write: "write_op t (PutCity t w)"
  unfolding PutCity_def by (intro write_op_guarded write_op_tx putCity_sound)

subsection \<open>Attaching\<close>

lemma foldr_max_ge: "x \<in> set xs \<Longrightarrow> x \<le> foldr max xs (b :: int)"
  by (induction xs) auto

lemma foldr_max_base: "b \<le> foldr max xs (b :: int)"
  by (induction xs) auto

lemma next_slot_above:
  "r \<in> set (trip_cities d) \<Longrightarrow> tc_traveller r = t \<Longrightarrow> tc_trip r = i \<Longrightarrow> tc_ordinal r < next_slot t i d"
  unfolding next_slot_def using foldr_max_ge [of "tc_ordinal r"] by force

lemma next_slot_nonneg: "0 \<le> next_slot t i d"
  unfolding next_slot_def using foldr_max_base [of "- 1"] by smt

lemma attach_never_clashes:
  "attachCitySQL t trip c d \<noteq> Inl unique_violation \<and> attachCitySQL t trip c d \<noteq> Inl check_violation"
proof -
  have "tc_slot \<lparr>tc_traveller = t, tc_trip = trip, tc_city = c, tc_ordinal = next_slot t trip d\<rparr>
      \<notin> tc_slot ` set (trip_cities d)"
    by (auto simp: tc_slot_def dest: next_slot_above [of _ d t trip])
  with next_slot_nonneg [of t trip d] show ?thesis
    by (simp add: attachCitySQL_def Let_def out_of_range_def foreign_key_violation_def
        unique_violation_def check_violation_def)
qed

lemma sort_key_snoc_above:
  assumes "\<And>x. x \<in> set xs \<Longrightarrow> f x \<le> f a"
  shows "sort_key f (xs @ [a]) = sort_key f xs @ [a]"
proof (rule properties_for_sort_key)
  show "mset (sort_key f xs @ [a]) = mset (xs @ [a])" by simp
  show "sorted (map f (sort_key f xs @ [a]))" using assms by (simp add: sorted_append)
  show "filter (\<lambda>y. f x = f y) (sort_key f xs @ [a]) = filter (\<lambda>y. f x = f y) (xs @ [a])"
    if "x \<in> set (sort_key f xs @ [a])" for x
    using sort_key_stable [of f "f x" xs] by (simp add: eq_commute)
qed

lemma itinerary_attached:
  assumes "attachCitySQL t trip c d = Inr d'"
  shows "itinerary d' t j =
    (if j = trip \<and> c \<notin> set (itinerary d t trip) then itinerary d t j @ [c] else itinerary d t j)"
proof -
  let ?r = "\<lparr>tc_traveller = t, tc_trip = trip, tc_city = c, tc_ordinal = next_slot t trip d\<rparr>"
  let ?mine = "\<lambda>i. filter (\<lambda>r. tc_traveller r = t \<and> tc_trip r = i) (trip_cities d)"
  have here: "tc_key ?r \<in> tc_key ` set (trip_cities d) \<longleftrightarrow> c \<in> set (itinerary d t trip)"
    by (auto simp: itinerary_def tc_key_def image_iff)
  consider (held) "d' = d" "c \<in> set (itinerary d t trip)"
    | (new) "d' = d\<lparr>trip_cities := trip_cities d @ [?r]\<rparr>" "c \<notin> set (itinerary d t trip)"
    using assms here by (auto simp: attachCitySQL_def Let_def split: if_splits)
  then show ?thesis
  proof cases
    case new
    have "sort_key tc_ordinal (?mine trip @ [?r]) = sort_key tc_ordinal (?mine trip) @ [?r]"
      by (rule sort_key_snoc_above) (auto dest: next_slot_above simp: less_imp_le)
    with new show ?thesis by (simp add: itinerary_def)
  qed simp
qed

lemma attach_keeps:
  "attachCitySQL t trip c d = Inr d' \<Longrightarrow> cities d' = cities d \<and> trips d' = trips d"
  by (auto simp: attachCitySQL_def Let_def split: if_splits)

text \<open>The row a city write leaves.\<close>

definition stored_city :: "city_write \<Rightarrow> city_row option \<Rightarrow> city_row \<Rightarrow> bool" where
  "stored_city w old new \<longleftrightarrow>
     (case old of
        None \<Rightarrow> Some (ct_name new) = cw_Name w \<and> Some (ct_country new) = cw_Country w \<and>
          Some (ct_centre new) = cw_Centre w \<and> ct_cover new = Value (cw_CoverAsset w)
      | Some r \<Rightarrow> ct_name new = or_keep (cw_Name w) (ct_name r) \<and>
          ct_country new = or_keep (cw_Country w) (ct_country r) \<and>
          ct_centre new = or_keep (cw_Centre w) (ct_centre r) \<and>
          ct_cover new = or_keep (cw_CoverAsset w) (ct_cover r))"

lemma upsertCitySQL_ok:
  assumes "upsertCitySQL t i n c x w d = Inr d'"
  obtains r where "d' = d\<lparr>cities := put_row ct_key r (cities d)\<rparr>" "ct_key r = (t, i)"
    "r = (case find_city d t i of None \<Rightarrow> proposed_city t i n c x w
            | Some old \<Rightarrow> merge_city w (proposed_city t i n c x w) old)"
proof -
  have "table_upsert cities (\<lambda>rs. cities_update (\<lambda>_. rs)) ct_key city_ck city_fk
       (proposed_city t i n c x w) (merge_city w (proposed_city t i n c x w)) d = Inr d'"
    using assms by (simp add: upsertCitySQL_def)
  then show thesis
  proof (rule city_table.table_upsert_ok)
    show "ct_key (merge_city w (proposed_city t i n c x w) old) = ct_key (proposed_city t i n c x w)"
      if "ct_key old = ct_key (proposed_city t i n c x w)" for old
      using that by (simp add: merge_city_def ct_key_def)
  qed (use that in \<open>simp add: find_city_def proposed_city_def ct_key_def\<close>)
qed

lemma putCity_Inr:
  assumes "putCity t i w s = (Inr (c, doc), s')"
  obtains r where "stored_city w (find_city (tx_db s) t i) r" "c = scan_city r"
    "find_city (tx_db s') t i = Some r"
    "cities (tx_db s') = put_row ct_key r (cities (tx_db s))" "ct_key r = (t, i)"
    "trips (tx_db s') = trips (tx_db s)"
    "\<forall>j. itinerary (tx_db s') t j =
       (case cw_AttachTo w of None \<Rightarrow> itinerary (tx_db s) t j
        | Some trip \<Rightarrow> if j = trip \<and> i \<notin> set (itinerary (tx_db s) t trip)
            then itinerary (tx_db s) t j @ [i] else itinerary (tx_db s) t j)"
    "doc = (if cw_AttachTo w = None then None else Some (document_of t (tx_db s')))"
    "\<forall>trip. cw_AttachTo w = Some trip \<longrightarrow> has_trip (tx_db s) t trip"
proof -
  let ?before = "case find_city (tx_db s) t i of
         None \<Rightarrow> \<lparr>cb_name = [], cb_country = \<lparr>Code = [], CountryName = []\<rparr>,
                  cb_centre = \<lparr>Lat = 0, Lng = 0\<rparr>, cb_isCreate = True\<rparr>
       | Some r \<Rightarrow> \<lparr>cb_name = ct_name r, cb_country = ct_country r, cb_centre = ct_centre r,
                    cb_isCreate = False\<rparr>"
  let ?n = "or_keep (cw_Name w) (cb_name ?before)"
  let ?c = "or_keep (cw_Country w) (cb_country ?before)"
  let ?x = "or_keep (cw_Centre w) (cb_centre ?before)"
  from assms obtain s1 s2 s3 s4 s5 where
    chk: "CheckCityWritable (cb_isCreate ?before) w = Inr ()" "tx_db s1 = tx_db s" and
    cover: "requireCover t (Value (cw_CoverAsset w)) s1 = (Inr (), s2)" and
    put: "t_exec (upsertCitySQL t i ?n ?c ?x w) s2 = (Inr (), s3)" and
    att: "(case cw_AttachTo w of None \<Rightarrow> t_return ()
       | Some trip \<Rightarrow> t_bind (requireTrip t trip) (\<lambda>_. t_exec (attachCitySQL t trip i))) s3 = (Inr (), s4)" and
    reread: "readOneCity t i s4 = (Inr c, s5)" and
    docs: "(case cw_AttachTo w of None \<Rightarrow> t_return (c, None)
     | Some _ \<Rightarrow> t_bind (readDocument t) (\<lambda>doc. t_return (c, Some doc))) s5 = (Inr (c, doc), s')"
    unfolding putCity_def requireWritableCity_def t_bind_Inr
    by (auto dest!: t_query_Inr simp: t_bind_Inr split: option.splits)
  have up: "upsertCitySQL t i ?n ?c ?x w (tx_db s) = Inr (tx_db s3)"
    using t_exec_Inr [OF put] requireCover_Inr [OF cover] chk(2) by simp
  then obtain r where r: "tx_db s3 = (tx_db s)\<lparr>cities := put_row ct_key r (cities (tx_db s))\<rparr>"
    "ct_key r = (t, i)" "r = (case find_city (tx_db s) t i of None \<Rightarrow> proposed_city t i ?n ?c ?x w
            | Some old \<Rightarrow> merge_city w (proposed_city t i ?n ?c ?x w) old)"
    by (rule upsertCitySQL_ok)
  have stored: "stored_city w (find_city (tx_db s) t i) r"
    using r(3) chk(1)
    by (auto simp: stored_city_def proposed_city_def merge_city_def Sent_def Value_def or_keep_def
        CheckCityWritable_def firstMissing_def split: option.splits)
  have it3: "itinerary (tx_db s3) t = itinerary (tx_db s) t" and trip3: "has_trip (tx_db s3) = has_trip (tx_db s)"
    using r(1) by (simp_all add: itinerary_def has_trip_def fun_eq_iff)
  have s4: "cities (tx_db s4) = cities (tx_db s3) \<and> trips (tx_db s4) = trips (tx_db s3) \<and>
     (\<forall>j. itinerary (tx_db s4) t j =
       (case cw_AttachTo w of None \<Rightarrow> itinerary (tx_db s) t j
        | Some trip \<Rightarrow> if j = trip \<and> i \<notin> set (itinerary (tx_db s) t trip)
            then itinerary (tx_db s) t j @ [i] else itinerary (tx_db s) t j)) \<and>
     (\<forall>trip. cw_AttachTo w = Some trip \<longrightarrow> has_trip (tx_db s) t trip)"
  proof (cases "cw_AttachTo w")
    case (Some trip)
    with att obtain s3' where req: "requireRow (\<lambda>d. has_trip d t trip) (InvalidField ''attachTo'') s3 = (Inr (), s3')"
      and ex: "t_exec (attachCitySQL t trip i) s3' = (Inr (), s4)"
      by (auto simp: t_bind_Inr requireTrip_def)
    have att': "attachCitySQL t trip i (tx_db s3) = Inr (tx_db s4)"
      using t_exec_Inr [OF ex] requireRow_Inr [OF req] by simp
    note attach_keeps [OF att']
    with itinerary_attached [OF att'] Some it3 requireRow_Inr [OF req] trip3 show ?thesis by simp
  qed (use att it3 in simp)
  have s5: "find_city (tx_db s4) t i = Some r" "c = scan_city r" "tx_db s5 = tx_db s4"
    using reread s4 r(1,2)
    by (auto simp: readOneCity_def t_bind_Inr find_city_def find_put_row split: option.splits
        dest!: t_query_Inr)
  have s': "tx_db s' = tx_db s5" "doc = (if cw_AttachTo w = None then None else Some (document_of t (tx_db s')))"
    using docs by (auto simp: t_bind_Inr split: option.splits dest!: readDocument_Inr)
  show thesis
    using that [OF stored s5(2)] s4 s5 s' r(1,2) by simp
qed

text \<open>A city write that succeeds stores each field by the pointer contract and leaves every
  other city and every trip row alone. When the body names a trip to attach to, that trip's
  itinerary ends with the city, or is unchanged when it held the city already; every other
  itinerary is unchanged, and the answer carries the document of the new version.\<close>

theorem put_city_effect:
  assumes "PutCity t w s = (Inr ((c, doc), v), s')" "cw_ID w = Some i"
  shows "(\<exists>r. find_city (tx_db s') t i = Some r \<and> c = scan_city r \<and>
       stored_city w (find_city (tx_db s) t i) r) \<and>
     (\<forall>j. j \<noteq> i \<longrightarrow> find_city (tx_db s') t j = find_city (tx_db s) t j) \<and>
     trips (tx_db s') = trips (tx_db s) \<and>
     (\<forall>j. itinerary (tx_db s') t j =
       (if cw_AttachTo w = Some j \<and> i \<notin> set (itinerary (tx_db s) t j)
        then itinerary (tx_db s) t j @ [i] else itinerary (tx_db s) t j)) \<and>
     doc = (if cw_AttachTo w = None then None else Some (document_of t (tx_db s'))) \<and>
     version_of (tx_db s') t = Some v"
proof -
  from assms have "WithTravellerTx t (putCity t i w) s = (Inr ((c, doc), v), s')"
    by (simp add: PutCity_def t_bind_Inr)
  then have wrote: "wrote t (putCity t i w) (tx_db s) (c, doc) v (tx_db s')" by (rule WithTravellerTx_Inr)
  then obtain s1 s2 where s1: "tx_db s1 = bumped t (tx_db s)"
    and run: "putCity t i w s1 = (Inr (c, doc), s2)" and s2: "tx_db s' = tx_db s2"
    by (auto simp: wrote_def)
  have same: "find_city (tx_db s1) t = find_city (tx_db s) t"
    "itinerary (tx_db s1) t = itinerary (tx_db s) t"
    by (simp_all add: find_city_def itinerary_def s1 fun_eq_iff)
  from run obtain r where r: "stored_city w (find_city (tx_db s1) t i) r" "c = scan_city r"
    "find_city (tx_db s2) t i = Some r"
    "cities (tx_db s2) = put_row ct_key r (cities (tx_db s1))" "ct_key r = (t, i)"
    "trips (tx_db s2) = trips (tx_db s1)"
    "\<forall>j. itinerary (tx_db s2) t j =
       (case cw_AttachTo w of None \<Rightarrow> itinerary (tx_db s1) t j
        | Some trip \<Rightarrow> if j = trip \<and> i \<notin> set (itinerary (tx_db s1) t trip)
            then itinerary (tx_db s1) t j @ [i] else itinerary (tx_db s1) t j)"
    "doc = (if cw_AttachTo w = None then None else Some (document_of t (tx_db s2)))"
    by (rule putCity_Inr)
  have "\<forall>j. j \<noteq> i \<longrightarrow> find_city (tx_db s') t j = find_city (tx_db s) t j"
    using r(4,5) s1 s2 by (simp add: find_city_def find_put_row)
  moreover have "version_of (tx_db s') t = Some v"
    using wrote_advances [OF putCity_sound wrote] by simp
  moreover have "\<forall>j. itinerary (tx_db s') t j =
       (if cw_AttachTo w = Some j \<and> i \<notin> set (itinerary (tx_db s) t j)
        then itinerary (tx_db s) t j @ [i] else itinerary (tx_db s) t j)"
    using r(7) same s2 by (auto split: option.splits)
  ultimately show ?thesis using r same s1 s2 by simp
qed

definition sample_city_write :: city_write where
  "sample_city_write = \<lparr>cw_ID = Some ''c2'', cw_Name = Some ''Braga'',
     cw_Country = Some \<lparr>Code = ''PT'', CountryName = ''Portugal''\<rparr>,
     cw_Centre = Some \<lparr>Lat = 41, Lng = -8\<rparr>, cw_CoverAsset = None, cw_AttachTo = Some ''t1''\<rparr>"

theorem put_city_effect_witness:
  "\<exists>c doc v s'. PutCity ''u1'' sample_city_write (calm sample) = (Inr ((c, doc), v), s') \<and>
     itinerary (tx_db s') ''u1'' ''t1'' = [''c1'', ''c2''] \<and> doc = Some (document_of ''u1'' (tx_db s'))"
proof -
  have "\<not> isl (fst (PutCity ''u1'' sample_city_write (calm sample)))" by code_simp
  then obtain x s' where run: "PutCity ''u1'' sample_city_write (calm sample) = (Inr x, s')" by (rule ran)
  obtain c doc v where x: "x = ((c, doc), v)" by (metis prod.exhaust)
  have "itinerary sample ''u1'' ''t1'' = [''c1'']" by code_simp
  with put_city_effect [of "''u1''" sample_city_write "calm sample" c doc v s' "''c2''"] run x
  show ?thesis by (simp add: sample_city_write_def)
qed

end
