(* ===== verification/Store_Place.thy ===== *)
theory Store_Place
  imports Store_City
begin

section \<open>Places and their occasions (\<^verbatim>\<open>internal/postgres/place_store.go\<close>)\<close>

text \<open>
  \<open>PutPlace\<close> with the four phases of \<open>writeVisits\<close> (the refusals, the parking of the stored
  ordinals above every incoming one, the batched upsert, the delete of what the array left out),
  and \<open>RemovePlace\<close> with both dispositions. Uniqueness of \<open>(place, ordinal)\<close> is checked row by row
  while a statement runs, which is why the parking is there.
\<close>

definition maxVisitsPerStatement :: nat where "maxVisitsPerStatement = 5000"

subsection \<open>The place row\<close>

record placeBeforeWrite =
  pb_cityID :: id
  pb_name :: string
  pb_at :: latlng
  pb_isCreate :: bool

definition requireWritablePlace :: "id \<Rightarrow> id \<Rightarrow> place_write \<Rightarrow> placeBeforeWrite tx" where
  "requireWritablePlace t i w =
     t_bind (t_query (\<lambda>d. case find_place d t i of
         None \<Rightarrow> \<lparr>pb_cityID = [], pb_name = [], pb_at = \<lparr>Lat = 0, Lng = 0\<rparr>, pb_isCreate = True\<rparr>
       | Some r \<Rightarrow> \<lparr>pb_cityID = pl_city r, pb_name = pl_name r, pb_at = pl_at r,
                    pb_isCreate = False\<rparr>)) (\<lambda>before.
     t_bind (t_lift (CheckPlaceWritable (pb_isCreate before) w)) (\<lambda>_. t_return before))"

definition requireCityForPlace :: "id \<Rightarrow> id \<Rightarrow> unit tx" where
  "requireCityForPlace t city = requireRow (\<lambda>d. has_city d t city) (InvalidField ''cityId'')"

definition proposed_place ::
  "id \<Rightarrow> id \<Rightarrow> id \<Rightarrow> string \<Rightarrow> latlng \<Rightarrow> place_write \<Rightarrow> place_row" where
  "proposed_place t i city name pt w =
     \<lparr>pl_traveller = t, pl_id = i, pl_city = city, pl_name = name, pl_at = pt,
      pl_plan = Value (pw_Plan w), pl_cover = Value (pw_CoverAsset w)\<rparr>"

definition merge_place :: "place_write \<Rightarrow> place_row \<Rightarrow> place_row \<Rightarrow> place_row" where
  "merge_place w new old = old\<lparr>
     pl_city := (if pw_CityID w \<noteq> None then pl_city new else pl_city old),
     pl_name := (if pw_Name w \<noteq> None then pl_name new else pl_name old),
     pl_at := (if pw_Coordinates w \<noteq> None then pl_at new else pl_at old),
     pl_plan := (if Sent (pw_Plan w) then pl_plan new else pl_plan old),
     pl_cover := (if Sent (pw_CoverAsset w) then pl_cover new else pl_cover old)\<rparr>"

definition upsertPlaceSQL ::
  "id \<Rightarrow> id \<Rightarrow> id \<Rightarrow> string \<Rightarrow> latlng \<Rightarrow> place_write \<Rightarrow> database \<Rightarrow> db_error + database" where
  "upsertPlaceSQL t i city name pt w =
     with_texts [Some name, Value (pw_Plan w)]
       (table_upsert places (\<lambda>rs. places_update (\<lambda>_. rs)) pl_key place_ck place_fk
         (proposed_place t i city name pt w) (merge_place w (proposed_place t i city name pt w)))"

subsection \<open>The refusals\<close>

definition refuseClearingAPlaceThatHasOccasions :: "id \<Rightarrow> id \<Rightarrow> unit tx" where
  "refuseClearingAPlaceThatHasOccasions t p =
     t_bind (t_query (\<lambda>d. length (occasions d t p))) (\<lambda>n. t_lift (CheckClearingVisits n))"

text \<open>The trips an array names, each once, in the order they are first named.\<close>

fun tripsNamed :: "id list \<Rightarrow> visit list \<Rightarrow> id list" where
  "tripsNamed seen [] = []"
| "tripsNamed seen (v # vs) =
     (if visit_TripID v \<in> set seen then tripsNamed seen vs
      else visit_TripID v # tripsNamed (visit_TripID v # seen) vs)"

definition requireTripsForVisits :: "id \<Rightarrow> id list \<Rightarrow> unit tx" where
  "requireTripsForVisits t trs =
     t_bind (t_query (\<lambda>d. map tr_id (filter (\<lambda>r. tr_traveller r = t \<and> tr_id r \<in> set trs) (trips d))))
       (\<lambda>present. t_lift (first_error (map (\<lambda>i. guard (i \<notin> set present) (InvalidField ''visits'')) trs)))"

definition refuseVisitsHeldElsewhere :: "id \<Rightarrow> id \<Rightarrow> id list \<Rightarrow> unit tx" where
  "refuseVisitsHeldElsewhere t p ids =
     t_bind (t_query (\<lambda>d. filter (\<lambda>v. vs_traveller v = t \<and> vs_id v \<in> set ids \<and> vs_place v \<noteq> p) (visits d)))
       (\<lambda>held. t_lift (guard (held \<noteq> []) (InvalidField ''visits'')))"

definition refuseDroppingAnOccupiedOccasion :: "id \<Rightarrow> id \<Rightarrow> id list \<Rightarrow> unit tx" where
  "refuseDroppingAnOccupiedOccasion t p keeping =
     t_bind (t_query (\<lambda>d. filter (\<lambda>v. vs_id v \<notin> set keeping \<and>
           list_ex (\<lambda>f. ph_traveller f = vs_traveller v \<and> ph_visit f = Some (vs_id v)) (photos d))
         (occasions d t p)))
       (\<lambda>departing. t_lift (guard (departing \<noteq> []) (InvalidField ''visits'')))"

subsection \<open>The statements on visits\<close>

definition at_place :: "id \<Rightarrow> id \<Rightarrow> visit_row \<Rightarrow> bool" where
  "at_place t p v \<longleftrightarrow> vs_traveller v = t \<and> vs_place v = p"

definition bad_visit :: "visit_row \<Rightarrow> db_error option" where
  "bad_visit v =
     (if \<not> int4 (vs_ordinal v) then Some out_of_range
      else if \<not> visit_ck v then Some check_violation else None)"

definition parking :: "nat \<Rightarrow> id \<Rightarrow> id \<Rightarrow> database \<Rightarrow> int" where
  "parking n t p d = foldr (\<lambda>v k. max (vs_ordinal v + 1) k) (occasions d t p) (int n)"

definition offsetVisitOrdinalsSQL :: "id \<Rightarrow> id \<Rightarrow> nat \<Rightarrow> database \<Rightarrow> db_error + database" where
  "offsetVisitOrdinalsSQL t p n d =
     (if \<not> int4 (int n) then Inl unencodable
      else
        (case update_unique vs_slot (at_place t p) bad_visit
                (\<lambda>v. v\<lparr>vs_ordinal := vs_ordinal v + parking n t p d\<rparr>) [] (visits d) of
           Inl e \<Rightarrow> Inl e | Inr vs \<Rightarrow> Inr (d\<lparr>visits := vs\<rparr>)))"

text \<open>
  One multi-row \<open>INSERT \<dots> ON CONFLICT ON CONSTRAINT visits_pkey DO UPDATE\<close>: the rows go in one
  after another, a key the statement has already written is a cardinality violation, and the
  ordinal index has no arbiter.
\<close>

fun put_visits :: "(id \<times> id) list \<Rightarrow> visit_row list \<Rightarrow> visit_row list \<Rightarrow> db_error + visit_row list" where
  "put_visits touched [] rows = Inr rows"
| "put_visits touched (r # rs) rows =
     (if \<not> visit_ck r then Inl check_violation
      else if vs_key r \<in> set touched then Inl cardinality_violation
      else if list_ex (\<lambda>x. vs_key x \<noteq> vs_key r \<and> vs_slot x = vs_slot r) rows then Inl unique_violation
      else put_visits (vs_key r # touched) rs (put_row vs_key r rows))"

definition visit_rows :: "database \<Rightarrow> id \<Rightarrow> id \<Rightarrow> nat \<Rightarrow> visit list \<Rightarrow> visit_row list" where
  "visit_rows d t p first vs =
     map (\<lambda>(n, v). \<lparr>vs_traveller = t, vs_id = visit_ID v, vs_place = p, vs_trip = visit_TripID v,
                    vs_ordinal = int n, vs_at = to_timestamptz d (visit_At v),
                    vs_note = visit_Note v\<rparr>)
       (enumerate first vs)"

definition upsertVisits :: "id \<Rightarrow> id \<Rightarrow> visit list \<Rightarrow> nat \<Rightarrow> database \<Rightarrow> db_error + database" where
  "upsertVisits t p vs first d =
     (let rs = visit_rows d t p first vs
      in if \<not> list_all (\<lambda>r. int4 (vs_ordinal r)) rs then Inl unencodable
         else with_texts (map vs_note rs) (\<lambda>d.
                case put_visits [] rs (visits d) of
                  Inl e \<Rightarrow> Inl e
                | Inr rows \<Rightarrow>
                    if \<not> list_all (visit_fk d) rs then Inl foreign_key_violation
                    else Inr (d\<lparr>visits := rows\<rparr>)) d)"

function upsertBatches :: "id \<Rightarrow> id \<Rightarrow> nat \<Rightarrow> visit list \<Rightarrow> unit tx" where
  "upsertBatches t p start vs =
     (if vs = [] then t_return ()
      else t_bind (t_exec (upsertVisits t p (take maxVisitsPerStatement vs) start)) (\<lambda>_.
           upsertBatches t p (start + maxVisitsPerStatement) (drop maxVisitsPerStatement vs)))"
  by pat_completeness auto
termination
  by (relation "measure (\<lambda>(t, p, start, vs). length vs)") (auto simp: maxVisitsPerStatement_def)

declare upsertBatches.simps [simp del]

definition deleteDepartedVisitsSQL :: "id \<Rightarrow> id \<Rightarrow> id list \<Rightarrow> database \<Rightarrow> db_error + database" where
  "deleteDepartedVisitsSQL t p ids d =
     Inr (drop_visits (\<lambda>v. at_place t p v \<and> vs_id v \<notin> set ids) d)"

definition writeVisits :: "id \<Rightarrow> id \<Rightarrow> visit list \<Rightarrow> unit tx" where
  "writeVisits t p vs =
     (if vs = [] then refuseClearingAPlaceThatHasOccasions t p
      else
        t_bind (requireTripsForVisits t (tripsNamed [] vs)) (\<lambda>_.
        t_bind (refuseVisitsHeldElsewhere t p (map visit_ID vs)) (\<lambda>_.
        t_bind (refuseDroppingAnOccupiedOccasion t p (map visit_ID vs)) (\<lambda>_.
        t_bind (t_exec (offsetVisitOrdinalsSQL t p (length vs))) (\<lambda>_.
        t_bind (upsertBatches t p 0 vs) (\<lambda>_.
        t_exec (deleteDepartedVisitsSQL t p (map visit_ID vs))))))))"

subsection \<open>The operations\<close>

definition putPlace :: "id \<Rightarrow> id \<Rightarrow> place_write \<Rightarrow> place tx" where
  "putPlace t i w =
     t_bind (requireWritablePlace t i w) (\<lambda>before.
     let city = or_keep (pw_CityID w) (pb_cityID before);
         name = or_keep (pw_Name w) (pb_name before);
         pt = or_keep (pw_Coordinates w) (pb_at before)
     in t_bind (requireCityForPlace t city) (\<lambda>_.
        t_bind (requireCover t (Value (pw_CoverAsset w))) (\<lambda>_.
        t_bind (t_exec (upsertPlaceSQL t i city name pt w)) (\<lambda>_.
        t_bind (case pw_Visits w of None \<Rightarrow> t_return () | Some vs \<Rightarrow> writeVisits t i vs) (\<lambda>_.
        readOnePlace t i)))))"

definition PutPlace :: "id \<Rightarrow> place_write \<Rightarrow> (place \<times> int) tx" where
  "PutPlace t w =
     t_bind (t_lift (CheckWriteID (pw_ID w))) (\<lambda>_.
     WithTravellerTx t (putPlace t (the (pw_ID w)) w))"

definition deletePlacesPhotosSQL :: "id \<Rightarrow> id \<Rightarrow> database \<Rightarrow> db_error + database" where
  "deletePlacesPhotosSQL t p d =
     Inr (d\<lparr>photos := del_rows (\<lambda>f. ph_traveller f = t \<and> ph_place f = Some p) (photos d)\<rparr>)"

definition deletePlaceSQL :: "id \<Rightarrow> id \<Rightarrow> nat stmt" where
  "deletePlaceSQL t p d =
     Inr (length (filter (\<lambda>r. pl_key r = (t, p)) (places d)), delete_place t p d)"

definition removePlace :: "id \<Rightarrow> id \<Rightarrow> PhotoDisposition \<Rightarrow> document tx" where
  "removePlace t p disposition =
     t_bind (if disposition = DeletePhotos then t_exec (deletePlacesPhotosSQL t p) else t_return ()) (\<lambda>_.
     t_bind (t_sql (deletePlaceSQL t p)) (\<lambda>gone.
     t_bind (t_lift (guard (gone = 0) ErrNoSuchPlace)) (\<lambda>_. readDocument t)))"

definition RemovePlace :: "id \<Rightarrow> id \<Rightarrow> PhotoDisposition \<Rightarrow> snapshot tx" where
  "RemovePlace t p disposition =
     t_bind (t_lift (CheckPhotoDisposition disposition)) (\<lambda>_.
     on_miss ErrNoSuchPlace (LogbookRead t (\<lambda>_. True)) whole_log
       (WithTravellerTx t (removePlace t p disposition)))"

subsection \<open>Soundness\<close>

lemma upsertPlaceSQL_sound: "upsertPlaceSQL t i c n x w d = Inr d' \<Longrightarrow> sound t d d'"
  unfolding upsertPlaceSQL_def with_texts_Inr
  by (elim conjE, erule place_table.upsert_sound [rotated 2])
    (simp_all add: proposed_place_def merge_place_def pl_key_def)

lemma offset_ok:
  assumes "offsetVisitOrdinalsSQL t p n d = Inr d'"
  shows "d' = d\<lparr>visits := upd_rows (at_place t p)
      (\<lambda>v. v\<lparr>vs_ordinal := vs_ordinal v + parking n t p d\<rparr>) (visits d)\<rparr>"
    and "distinct (map vs_slot (visits d)) \<Longrightarrow> distinct (map vs_slot (visits d'))"
    and "list_all visit_ck (visits d) \<Longrightarrow> list_all visit_ck (visits d')"
proof -
  from assms obtain vs where vs: "update_unique vs_slot (at_place t p) bad_visit
      (\<lambda>v. v\<lparr>vs_ordinal := vs_ordinal v + parking n t p d\<rparr>) [] (visits d) = Inr vs"
    and d': "d' = d\<lparr>visits := vs\<rparr>"
    by (auto simp: offsetVisitOrdinalsSQL_def split: if_splits sum.splits)
  have rows: "vs = upd_rows (at_place t p) (\<lambda>v. v\<lparr>vs_ordinal := vs_ordinal v + parking n t p d\<rparr>) (visits d)"
    using update_unique_ok [OF vs] by simp
  with d' show "d' = d\<lparr>visits := upd_rows (at_place t p)
      (\<lambda>v. v\<lparr>vs_ordinal := vs_ordinal v + parking n t p d\<rparr>) (visits d)\<rparr>" by simp
  show "distinct (map vs_slot (visits d)) \<Longrightarrow> distinct (map vs_slot (visits d'))"
    using update_unique_distinct [OF vs] d' by simp
  show "list_all visit_ck (visits d')" if ck: "list_all visit_ck (visits d)"
  proof -
    have "visit_ck (r\<lparr>vs_ordinal := vs_ordinal r + parking n t p d\<rparr>)"
      if "r \<in> set (visits d)" "at_place t p r" for r
      using update_unique_bad [OF vs that] by (simp add: bad_visit_def split: if_splits)
    then have "list_all visit_ck vs" unfolding rows by (intro list_all_upd_rows [OF ck])
    then show ?thesis by (simp add: d')
  qed
qed

lemma schema_visits:
  assumes "schema_ok d"
  shows "distinct (map vs_key (visits d))" "distinct (map vs_slot (visits d))"
    "list_all visit_ck (visits d)" "list_all (visit_fk d) (visits d)"
  using assms by (simp_all add: schema_ok_def unique_ok_def checks_hold_def refs_hold_def)

lemma offsetVisitOrdinalsSQL_sound:
  assumes "offsetVisitOrdinalsSQL t p n d = Inr d'"
  shows "sound t d d'"
proof -
  let ?f = "\<lambda>v. v\<lparr>vs_ordinal := vs_ordinal v + parking n t p d\<rparr>"
  let ?vs = "upd_rows (at_place t p) ?f (visits d)"
  have d': "d' = d\<lparr>visits := ?vs\<rparr>" using offset_ok [OF assms] by simp
  have keys: "map vs_key ?vs = map vs_key (visits d)"
    by (rule map_upd_rows) (simp add: vs_key_def)
  show ?thesis
  proof (rule soundI)
    show "frame t d d'" unfolding d'
      by (intro frame_tables filter_upd_rows_other) (auto simp: at_place_def)
    show "same_travellers d d'" by (simp add: d' same_travellers_def)
    assume ok: "schema_ok d"
    have "list_all (visit_fk d) ?vs"
      by (rule list_all_upd_rows) (use schema_visits [OF ok] in \<open>auto simp: visit_fk_def\<close>)
    moreover have "vs_key ` set (visits d) \<subseteq> vs_key ` set ?vs"
      using arg_cong [OF keys, of set] by (simp only: set_map order_refl)
    moreover have "distinct (map vs_slot ?vs)" "list_all visit_ck ?vs"
      using offset_ok(2,3) [OF assms] schema_visits [OF ok] by (simp_all add: d')
    moreover have "distinct (map vs_key ?vs)" using keys schema_visits [OF ok] by simp
    ultimately show "schema_ok d'" unfolding d' using ok by (intro schema_set_visits)
  qed
qed

lemma put_visits_touched:
  assumes "put_visits touched rs rows = Inr rows'"
  shows "distinct (map vs_key rs) \<and> set (map vs_key rs) \<inter> set touched = {}"
  using assms by (induction touched rs rows rule: put_visits.induct) (auto split: if_splits)

lemma put_visits_keys:
  assumes "put_visits touched rs rows = Inr rows'"
  shows "vs_key ` set rows' = vs_key ` set rows \<union> vs_key ` set rs"
  using assms
  by (induction touched rs rows rule: put_visits.induct) (auto simp: keys_put_row split: if_splits)

lemma put_visits_set:
  assumes "put_visits touched rs rows = Inr rows'"
  shows "set rows' = set rs \<union> {r \<in> set rows. vs_key r \<notin> vs_key ` set rs}"
  using assms
proof (induction touched rs rows rule: put_visits.induct)
  case (2 touched r rs rows)
  then have run: "put_visits (vs_key r # touched) rs (put_row vs_key r rows) = Inr rows'"
    and IH: "set rows' = set rs \<union> {x \<in> set (put_row vs_key r rows). vs_key x \<notin> vs_key ` set rs}"
    by (auto split: if_splits)
  from put_visits_touched [OF run] have "vs_key r \<notin> vs_key ` set rs" by auto
  with IH show ?case by (auto simp: set_put_row)
qed simp

lemma put_visits_distinct:
  assumes "put_visits touched rs rows = Inr rows'" "distinct (map vs_key rows)"
  shows "distinct (map vs_key rows')"
  using assms
  by (induction touched rs rows rule: put_visits.induct) (auto simp: distinct_put_row split: if_splits)

lemma put_visits_slots:
  assumes "put_visits touched rs rows = Inr rows'" "distinct (map vs_key rows)" "distinct (map vs_slot rows)"
  shows "distinct (map vs_slot rows')"
  using assms
proof (induction touched rs rows rule: put_visits.induct)
  case (2 touched r rs rows)
  then have "distinct (map vs_slot (put_row vs_key r rows))"
    by (intro distinct_slot_put_row) (auto simp: list_ex_iff split: if_splits)
  with 2 show ?case by (auto simp: distinct_put_row split: if_splits)
qed simp

lemma put_visits_ck:
  assumes "put_visits touched rs rows = Inr rows'" "list_all visit_ck rows"
  shows "list_all visit_ck rows'"
  using assms
  by (induction touched rs rows rule: put_visits.induct) (auto simp: list_all_put_row split: if_splits)

lemma upsertVisits_ok:
  assumes "upsertVisits t p vs first d = Inr d'"
  obtains rows where "put_visits [] (visit_rows d t p first vs) (visits d) = Inr rows"
    "list_all (visit_fk d) (visit_rows d t p first vs)" "d' = d\<lparr>visits := rows\<rparr>"
    "list_all (\<lambda>r. int4 (vs_ordinal r)) (visit_rows d t p first vs)"
  using assms by (auto simp: upsertVisits_def Let_def split: if_splits sum.splits)

lemma visit_rows_mine: "r \<in> set (visit_rows d t p n vs) \<Longrightarrow> vs_traveller r = t \<and> vs_place r = p"
  by (auto simp: visit_rows_def)

lemma filter_put_visits_other:
  assumes "put_visits touched rs rows = Inr rows'" "\<forall>r \<in> set rs. vs_traveller r = t" "u \<noteq> t"
  shows "filter (\<lambda>r. vs_traveller r = u) rows' = filter (\<lambda>r. vs_traveller r = u) rows"
  using assms
proof (induction touched rs rows rule: put_visits.induct)
  case (2 touched r rs rows)
  then have "filter (\<lambda>r. vs_traveller r = u) (put_row vs_key r rows) = filter (\<lambda>r. vs_traveller r = u) rows"
    by (intro filter_put_row_other) (auto simp: vs_key_def)
  with 2 show ?case by (auto split: if_splits)
qed simp

lemma upsertVisits_sound:
  assumes "upsertVisits t p vs first d = Inr d'"
  shows "sound t d d'"
proof -
  let ?rs = "visit_rows d t p first vs"
  from assms obtain rows where put: "put_visits [] ?rs (visits d) = Inr rows"
    and fk: "list_all (visit_fk d) ?rs" and d': "d' = d\<lparr>visits := rows\<rparr>"
    by (rule upsertVisits_ok)
  show ?thesis
  proof (rule soundI)
    show "frame t d d'" unfolding d'
      by (intro frame_tables filter_put_visits_other [OF put, of t]) (auto dest: visit_rows_mine)
    show "same_travellers d d'" by (simp add: d' same_travellers_def)
    assume ok: "schema_ok d"
    have "vs_key ` set (visits d) \<subseteq> vs_key ` set rows" using put_visits_keys [OF put] by auto
    moreover have "list_all (visit_fk d) rows"
      using fk schema_visits(4) [OF ok] put_visits_set [OF put] by (auto simp: list_all_iff)
    ultimately show "schema_ok d'" unfolding d'
      using ok put_visits_distinct [OF put] put_visits_slots [OF put] put_visits_ck [OF put]
        schema_visits [OF ok]
      by (intro schema_set_visits) auto
  qed
qed

lemma schema_del_photos:
  assumes "schema_ok d"
  shows "schema_ok (d\<lparr>photos := del_rows q (photos d)\<rparr>)"
  using assms
  by (intro schema_set_photos)
    (auto simp: schema_ok_def unique_ok_def checks_hold_def refs_hold_def
      intro!: distinct_del_rows list_all_del_rows)

lemma place_statements_sound [rel_intros]:
  "tx_rel (sound t) (t_exec (upsertPlaceSQL t i c n x w))"
  "tx_rel (sound t) (t_exec (offsetVisitOrdinalsSQL t p k))"
  "tx_rel (sound t) (t_exec (upsertVisits t p vs first))"
  "tx_rel (sound t) (t_exec (deleteDepartedVisitsSQL t p ids))"
  "tx_rel (sound t) (t_exec (deletePlacesPhotosSQL t p))"
  "tx_rel (sound t) (t_sql (deletePlaceSQL t p))"
proof -
  show "tx_rel (sound t) (t_exec (deleteDepartedVisitsSQL t p ids))"
    by (rule sound.rel_exec) (auto simp: deleteDepartedVisitsSQL_def at_place_def
        intro!: soundI frame_drop_visits schema_drop_visits)
  show "tx_rel (sound t) (t_exec (deletePlacesPhotosSQL t p))"
    by (rule sound.rel_exec) (auto simp: deletePlacesPhotosSQL_def same_travellers_def
        intro!: soundI frame_tables filter_del_rows_other schema_del_photos)
  show "tx_rel (sound t) (t_sql (deletePlaceSQL t p))"
    by (rule sound.rel_sql) (auto simp: deletePlaceSQL_def
        intro!: soundI frame_delete_place schema_delete_place)
qed (auto intro: sound.rel_exec upsertPlaceSQL_sound offsetVisitOrdinalsSQL_sound upsertVisits_sound)

lemma upsertBatches_sound [rel_intros]: "tx_rel (sound t) (upsertBatches t p start vs)"
proof (induction t p start vs rule: upsertBatches.induct)
  case (1 t p start vs)
  then show ?case
    by (subst upsertBatches.simps) (auto intro!: rel_intros)
qed

lemma putPlace_sound: "tx_rel (sound t) (putPlace t i w)"
  unfolding putPlace_def requireWritablePlace_def requireCityForPlace_def writeVisits_def Let_def
    refuseClearingAPlaceThatHasOccasions_def requireTripsForVisits_def
    refuseVisitsHeldElsewhere_def refuseDroppingAnOccupiedOccasion_def
  by (intro rel_intros)

lemma PutPlace_write: "write_op t (PutPlace t w)"
  unfolding PutPlace_def by (intro write_op_guarded write_op_tx putPlace_sound)

lemma removePlace_sound: "tx_rel (sound t) (removePlace t p disposition)"
  unfolding removePlace_def by (intro rel_intros)

lemma RemovePlace_write: "write_op t (RemovePlace t p disposition)"
  unfolding RemovePlace_def
  by (intro write_op_guarded on_miss_write write_op_tx removePlace_sound LogbookRead_db) auto

subsection \<open>What the phases of \<open>writeVisits\<close> did\<close>

lemma filter_put_row_mem:
  assumes "\<not> q r" "\<And>x. x \<in> set rows \<Longrightarrow> key x = key r \<Longrightarrow> \<not> q x"
  shows "filter q (put_row key r rows) = filter q rows"
proof -
  have "filter q (upd_rows (\<lambda>x. key x = key r) (\<lambda>_. r) rows) = filter q rows"
    using assms by (induction rows) (auto simp: upd_rows_def)
  with assms(1) show ?thesis by (simp add: put_row_def)
qed

lemma filter_put_visits:
  assumes "put_visits touched rs rows = Inr rows'" "\<forall>r \<in> set rs. \<not> q r"
    and "\<forall>x \<in> set rows. vs_key x \<in> vs_key ` set rs \<longrightarrow> \<not> q x"
  shows "filter q rows' = filter q rows"
  using assms
proof (induction touched rs rows rule: put_visits.induct)
  case (2 touched r rs rows)
  then have "filter q (put_row vs_key r rows) = filter q rows"
    by (intro filter_put_row_mem) auto
  moreover have "\<forall>x \<in> set (put_row vs_key r rows). vs_key x \<in> vs_key ` set rs \<longrightarrow> \<not> q x"
    using 2 by (auto simp: set_put_row)
  ultimately show ?case using 2 by (auto split: if_splits)
qed simp

lemma visit_rows_split:
  "visit_rows d t p start vs =
     visit_rows d t p start (take k vs) @ visit_rows d t p (start + k) (drop k vs)"
proof -
  have "enumerate start vs = enumerate start (take k vs) @ enumerate (start + k) (drop k vs)"
  proof (cases "k \<le> length vs")
    case True
    then show ?thesis
      using enumerate_append_eq [of start "take k vs" "drop k vs"] by simp
  qed simp
  then show ?thesis by (simp add: visit_rows_def)
qed

lemma keys_visit_rows: "map vs_key (visit_rows d t p n vs) = map (\<lambda>v. (t, visit_ID v)) vs"
  by (rule nth_equalityI) (auto simp: visit_rows_def vs_key_def nth_enumerate_eq)

lemma visit_rows_cong: "to_timestamptz d' = to_timestamptz d \<Longrightarrow> visit_rows d' = visit_rows d"
  by (simp add: visit_rows_def fun_eq_iff)

lemma upsertBatches_Inr:
  assumes "upsertBatches t p start vs s = (Inr u, s')" "distinct (map visit_ID vs)"
    and "\<forall>x \<in> set (visits (tx_db s)). vs_key x \<in> set (map vs_key (visit_rows (tx_db s) t p start vs)) \<longrightarrow>
       at_place t p x"
  shows "\<exists>rows. tx_db s' = (tx_db s)\<lparr>visits := rows\<rparr> \<and>
     set rows = set (visit_rows (tx_db s) t p start vs) \<union>
       {r \<in> set (visits (tx_db s)). vs_key r \<notin> set (map vs_key (visit_rows (tx_db s) t p start vs))} \<and>
     (\<forall>q. filter (\<lambda>r. \<not> at_place t p r \<and> q r) rows = filter (\<lambda>r. \<not> at_place t p r \<and> q r) (visits (tx_db s)))"
  using assms
proof (induction t p start vs arbitrary: s rule: upsertBatches.induct)
  case (1 t p start vs)
  show ?case
  proof (cases "vs = []")
    case True
    with 1 have "tx_db s' = tx_db s" by (simp add: upsertBatches.simps)
    with True show ?thesis by (auto intro!: exI [of _ "visits (tx_db s)"] simp: visit_rows_def)
  next
    case False
    let ?k = maxVisitsPerStatement
    let ?a = "visit_rows (tx_db s) t p start (take ?k vs)"
    let ?b = "visit_rows (tx_db s) t p (start + ?k) (drop ?k vs)"
    note split = visit_rows_split [of "tx_db s" t p start vs ?k]
    from "1.prems"(1) False obtain s1 where
      ex: "t_exec (upsertVisits t p (take ?k vs) start) s = (Inr (), s1)" and
      rest: "upsertBatches t p (start + ?k) (drop ?k vs) s1 = (Inr u, s')"
      by (subst (asm) upsertBatches.simps) (auto simp: t_bind_Inr)
    from t_exec_Inr [OF ex] obtain rows where put: "put_visits [] ?a (visits (tx_db s)) = Inr rows"
      and d1: "tx_db s1 = (tx_db s)\<lparr>visits := rows\<rparr>"
      by (rule upsertVisits_ok)
    have keys: "distinct (map vs_key ?a @ map vs_key ?b)"
      using "1.prems"(2) split keys_visit_rows [of "tx_db s" t p start vs]
      by (simp add: distinct_map inj_on_def flip: map_append)
    have same: "visit_rows (tx_db s1) = visit_rows (tx_db s)"
      by (rule visit_rows_cong) (simp add: d1)
    have mine: "\<forall>x \<in> set rows. vs_key x \<in> set (map vs_key ?b) \<longrightarrow> at_place t p x"
      using put_visits_set [OF put] keys "1.prems"(3) split by (auto simp: image_iff)
    have "distinct (map visit_ID (drop ?k vs))" using "1.prems"(2) by (simp add: distinct_drop flip: drop_map)
    from "1.IH" [OF False rest this] mine same d1 obtain rows' where
      rows': "tx_db s' = (tx_db s1)\<lparr>visits := rows'\<rparr>"
      "set rows' = set ?b \<union> {r \<in> set rows. vs_key r \<notin> set (map vs_key ?b)}"
      "\<forall>q. filter (\<lambda>r. \<not> at_place t p r \<and> q r) rows' = filter (\<lambda>r. \<not> at_place t p r \<and> q r) rows"
      by auto
    have "filter (\<lambda>r. \<not> at_place t p r \<and> q r) rows = filter (\<lambda>r. \<not> at_place t p r \<and> q r) (visits (tx_db s))" for q
      by (rule filter_put_visits [OF put])
        (use "1.prems"(3) split in \<open>auto dest: visit_rows_mine simp: at_place_def\<close>)
    moreover have "set rows' = set (?a @ ?b) \<union>
        {r \<in> set (visits (tx_db s)). vs_key r \<notin> set (map vs_key (?a @ ?b))}"
      using rows'(2) put_visits_set [OF put] keys by auto
    ultimately show ?thesis
      using rows' d1 split by (intro exI [of _ rows']) simp
  qed
qed

lemma set_tripsNamed: "set (tripsNamed seen vs) = visit_TripID ` set vs - set seen"
  by (induction seen vs rule: tripsNamed.induct) auto

lemma requireTripsForVisits_Inr:
  assumes "requireTripsForVisits t trs s = (Inr u, s')"
  shows "tx_db s' = tx_db s \<and> (\<forall>i \<in> set trs. has_trip (tx_db s) t i)"
  using assms
  by (force simp: requireTripsForVisits_def t_bind_Inr has_trip_def tr_key_def image_iff
      dest!: t_query_Inr)

lemma refuseVisitsHeldElsewhere_Inr:
  assumes "refuseVisitsHeldElsewhere t p ids s = (Inr u, s')"
  shows "tx_db s' = tx_db s \<and>
     (\<forall>v \<in> set (visits (tx_db s)). vs_traveller v = t \<longrightarrow> vs_id v \<in> set ids \<longrightarrow> vs_place v = p)"
  using assms
  by (auto simp: refuseVisitsHeldElsewhere_def t_bind_Inr filter_empty_conv eq_commute [of "[]"]
      dest!: t_query_Inr)

lemma refuseDropping_Inr:
  assumes "refuseDroppingAnOccupiedOccasion t p ids s = (Inr u, s')"
  shows "tx_db s' = tx_db s \<and>
     (\<forall>v \<in> set (occasions (tx_db s) t p). vs_id v \<notin> set ids \<longrightarrow>
        (\<forall>f \<in> set (photos (tx_db s)). ph_traveller f = t \<longrightarrow> ph_visit f \<noteq> Some (vs_id v)))"
proof -
  let ?q = "\<lambda>d. filter (\<lambda>v. vs_id v \<notin> set ids \<and>
      list_ex (\<lambda>f. ph_traveller f = vs_traveller v \<and> ph_visit f = Some (vs_id v)) (photos d)) (occasions d t p)"
  from assms have "?q (tx_db s) = []" "tx_db s' = tx_db s"
    by (auto simp: refuseDroppingAnOccupiedOccasion_def t_bind_Inr dest!: t_query_Inr)
  then show ?thesis by (auto simp: filter_empty_conv list_ex_iff occasions_def)
qed

lemma refuseClearing_Inr:
  assumes "refuseClearingAPlaceThatHasOccasions t p s = (Inr u, s')"
  shows "tx_db s' = tx_db s \<and> occasions (tx_db s) t p = []"
  using assms
  by (auto simp: refuseClearingAPlaceThatHasOccasions_def t_bind_Inr CheckClearingVisits_def
      dest!: t_query_Inr)

lemma set_occasions: "set (occasions d t p) = {v \<in> set (visits d). at_place t p v}"
  by (auto simp: occasions_def at_place_def)

lemma drop_visits_unfiled:
  assumes "\<And>f. f \<in> set (photos d) \<Longrightarrow> \<not> filed_to q (visits d) f"
  shows "drop_visits q d = d\<lparr>visits := del_rows q (visits d)\<rparr>"
proof -
  have "upd_rows (filed_to q (visits d)) g (photos d) = photos d" for g
    unfolding upd_rows_def using assms by (intro map_idI) auto
  then show ?thesis by (simp add: drop_visits_def)
qed

text \<open>
  The whole of \<open>writeVisits\<close>: the place holds exactly the visits of the array, in its order; no
  other visit changes, and no photograph loses its occasion.
\<close>

lemma writeVisits_Inr:
  assumes run: "writeVisits t p vs s = (Inr u, s')" and ids: "distinct (map visit_ID vs)"
  shows "\<exists>rows. tx_db s' = (tx_db s)\<lparr>visits := rows\<rparr> \<and>
     {r \<in> set rows. at_place t p r} = set (visit_rows (tx_db s) t p 0 vs) \<and>
     (\<forall>q. filter (\<lambda>r. \<not> at_place t p r \<and> q r) rows = filter (\<lambda>r. \<not> at_place t p r \<and> q r) (visits (tx_db s)))"
proof (cases "vs = []")
  case True
  with run have "tx_db s' = tx_db s" "occasions (tx_db s) t p = []"
    by (auto simp: writeVisits_def dest!: refuseClearing_Inr)
  with True set_occasions [of "tx_db s" t p] show ?thesis
    by (intro exI [of _ "visits (tx_db s)"]) (simp add: visit_rows_def)
next
  case False
  let ?d = "tx_db s"
  let ?ids = "map visit_ID vs"
  from run False obtain s1 s2 s3 s4 s5 where
    req: "requireTripsForVisits t (tripsNamed [] vs) s = (Inr (), s1)" and
    held: "refuseVisitsHeldElsewhere t p ?ids s1 = (Inr (), s2)" and
    occ: "refuseDroppingAnOccupiedOccasion t p ?ids s2 = (Inr (), s3)" and
    off: "t_exec (offsetVisitOrdinalsSQL t p (length vs)) s3 = (Inr (), s4)" and
    ups: "upsertBatches t p 0 vs s4 = (Inr (), s5)" and
    del: "t_exec (deleteDepartedVisitsSQL t p ?ids) s5 = (Inr (), s')"
    by (auto simp: writeVisits_def t_bind_Inr)
  have s3: "tx_db s3 = ?d"
    and elsewhere: "\<forall>v \<in> set (visits ?d). vs_traveller v = t \<longrightarrow> vs_id v \<in> set ?ids \<longrightarrow> vs_place v = p"
    and free: "\<forall>v \<in> set (occasions ?d t p). vs_id v \<notin> set ?ids \<longrightarrow>
        (\<forall>f \<in> set (photos ?d). ph_traveller f = t \<longrightarrow> ph_visit f \<noteq> Some (vs_id v))"
    using requireTripsForVisits_Inr [OF req] refuseVisitsHeldElsewhere_Inr [OF held]
      refuseDropping_Inr [OF occ] by auto
  let ?g = "\<lambda>v. v\<lparr>vs_ordinal := vs_ordinal v + parking (length vs) t p ?d\<rparr>"
  have d4: "tx_db s4 = ?d\<lparr>visits := upd_rows (at_place t p) ?g (visits ?d)\<rparr>"
    using offset_ok(1) [OF t_exec_Inr [OF off]] s3 by simp
  have keys: "set (map vs_key (visit_rows ?d t p 0 vs)) = {(t, i) |i. i \<in> set ?ids}"
    unfolding keys_visit_rows by auto
  have same: "visit_rows (tx_db s4) = visit_rows ?d" by (rule visit_rows_cong) (simp add: d4)
  have "\<forall>x \<in> set (visits (tx_db s4)). vs_key x \<in> set (map vs_key (visit_rows (tx_db s4) t p 0 vs)) \<longrightarrow>
      at_place t p x"
    unfolding same keys
  proof (intro ballI impI)
    fix x assume "x \<in> set (visits (tx_db s4))" and key: "vs_key x \<in> {(t, i) |i. i \<in> set ?ids}"
    then obtain x0 where x0: "x0 \<in> set (visits ?d)" "x = (if at_place t p x0 then ?g x0 else x0)"
      by (auto simp: d4 set_upd_rows)
    show "at_place t p x"
    proof (cases "at_place t p x0")
      case True
      with x0(2) show ?thesis by (simp add: at_place_def)
    next
      case False
      with x0(2) key have "vs_traveller x0 = t" "vs_id x0 \<in> set ?ids" by (simp_all add: vs_key_def)
      with elsewhere x0(1) False show ?thesis by (simp add: at_place_def)
    qed
  qed
  from upsertBatches_Inr [OF ups ids this] obtain rows where
    d5: "tx_db s5 = (tx_db s4)\<lparr>visits := rows\<rparr>" and
    rows: "set rows = set (visit_rows ?d t p 0 vs) \<union>
       {r \<in> set (visits (tx_db s4)). vs_key r \<notin> set (map vs_key (visit_rows ?d t p 0 vs))}" and
    others: "\<forall>q. filter (\<lambda>r. \<not> at_place t p r \<and> q r) rows = filter (\<lambda>r. \<not> at_place t p r \<and> q r) (visits (tx_db s4))"
    unfolding same by blast
  let ?gone = "\<lambda>v. at_place t p v \<and> vs_id v \<notin> set ?ids"
  have "\<not> filed_to ?gone rows f" if "f \<in> set (photos ?d)" for f
  proof
    assume "filed_to ?gone rows f"
    then obtain v where v: "v \<in> set rows" "at_place t p v" "vs_id v \<notin> set ?ids"
      "vs_traveller v = ph_traveller f" "ph_visit f = Some (vs_id v)"
      unfolding filed_to_def list_ex_iff by blast
    have "vs_id v \<in> set ?ids" if "v \<in> set (visit_rows ?d t p 0 vs)"
    proof -
      have "vs_key v \<in> set (map vs_key (visit_rows ?d t p 0 vs))" using that by simp
      then show ?thesis unfolding keys by (simp add: vs_key_def)
    qed
    with rows v(1,3) have "v \<in> set (visits (tx_db s4))" by blast
    then obtain v0 where v0: "v0 \<in> set (visits ?d)" "v = (if at_place t p v0 then ?g v0 else v0)"
      by (auto simp: d4 set_upd_rows)
    with v(2) have "v0 \<in> set (occasions ?d t p)" "vs_id v0 = vs_id v"
      by (simp_all add: set_occasions split: if_splits)
    moreover have "ph_traveller f = t" using v(2,4) by (simp add: at_place_def)
    ultimately show False using free v(3,5) that by metis
  qed
  then have d': "tx_db s' = ?d\<lparr>visits := del_rows ?gone rows\<rparr>"
    using t_exec_Inr [OF del] drop_visits_unfiled [of "tx_db s5" ?gone] d5 d4
    by (simp add: deleteDepartedVisitsSQL_def)
  have "{r \<in> set (del_rows ?gone rows). at_place t p r} = set (visit_rows ?d t p 0 vs)"
  proof -
    have "vs_id r \<in> set ?ids \<and> at_place t p r" if "r \<in> set (visit_rows ?d t p 0 vs)" for r
    proof -
      have "vs_key r \<in> set (map vs_key (visit_rows ?d t p 0 vs))" using that by simp
      with visit_rows_mine [OF that] show ?thesis
        unfolding keys by (auto simp: at_place_def vs_key_def)
    qed
    moreover have "vs_key r \<in> set (map vs_key (visit_rows ?d t p 0 vs))"
      if "at_place t p r" "vs_id r \<in> set ?ids" for r
      unfolding keys using that by (auto simp: vs_key_def at_place_def)
    ultimately show ?thesis using rows by auto
  qed
  moreover have "filter (\<lambda>r. \<not> at_place t p r \<and> q r) (del_rows ?gone rows) =
      filter (\<lambda>r. \<not> at_place t p r \<and> q r) (visits ?d)" for q
  proof -
    have "filter (\<lambda>r. \<not> at_place t p r \<and> q r) (del_rows ?gone rows) = filter (\<lambda>r. \<not> at_place t p r \<and> q r) rows"
      by (rule filter_del_rows_other) simp
    also have "\<dots> = filter (\<lambda>r. \<not> at_place t p r \<and> q r) (visits (tx_db s4))" using others by simp
    also have "\<dots> = filter (\<lambda>r. \<not> at_place t p r \<and> q r) (visits ?d)"
      unfolding d4 by (simp, rule filter_upd_rows_other) (auto simp: at_place_def)
    finally show ?thesis .
  qed
  ultimately show ?thesis using d' by blast
qed

lemma sort_key_eqI:
  assumes "set xs = set ys" "distinct xs" "sorted (map f ys)" "distinct (map f ys)"
  shows "sort_key f xs = ys"
proof (rule map_sorted_distinct_set_unique [of f])
  have inj: "inj_on f (set ys)" using assms(4) by (simp add: distinct_map)
  show "inj_on f (set (sort_key f xs) \<union> set ys)" using inj assms(1) by simp
  show "distinct (map f (sort_key f xs))" using inj assms(1,2) by (simp add: distinct_map)
qed (use assms in simp_all)

lemma ordinals_visit_rows: "map vs_ordinal (visit_rows d t p 0 vs) = map int [0..<length vs]"
  by (rule nth_equalityI) (auto simp: visit_rows_def nth_enumerate_eq)

definition filed_visit :: "database \<Rightarrow> id \<Rightarrow> visit \<Rightarrow> visit" where
  "filed_visit d p v = v\<lparr>visit_PlaceID := p, visit_At := to_timestamptz d (visit_At v)\<rparr>"

lemma scan_visit_rows: "map scan_visit (visit_rows d t p 0 vs) = map (filed_visit d p) vs"
  by (rule nth_equalityI) (auto simp: visit_rows_def scan_visit_def filed_visit_def nth_enumerate_eq)

lemma visit_list_written:
  assumes "distinct (map vs_key (visits d'))"
    and "{r \<in> set (visits d'). at_place t p r} = set (visit_rows d t p 0 vs)"
  shows "visit_list d' t p = map (filed_visit d p) vs"
    and "map vs_ordinal (sort_key vs_ordinal (occasions d' t p)) = map int [0..<length vs]"
proof -
  let ?rs = "visit_rows d t p 0 vs"
  have occ: "set (occasions d' t p) = set ?rs"
    unfolding set_occasions by (rule assms(2))
  have "distinct (visits d')" using assms(1) by (simp add: distinct_map)
  then have occ': "distinct (occasions d' t p)" by (simp add: occasions_def)
  have ords: "sorted (map vs_ordinal ?rs)" "distinct (map vs_ordinal ?rs)"
    unfolding ordinals_visit_rows by (simp_all add: distinct_map sorted_iff_nth_mono)
  have strict: "sorted (map (\<lambda>v. (vs_ordinal v, collate d' (vs_id v))) ?rs)"
  proof -
    have "vs_ordinal (?rs ! i) < vs_ordinal (?rs ! j)" if "i < j" "j < length ?rs" for i j
      using that by (simp add: visit_rows_def nth_enumerate_eq)
    then show ?thesis
      by (auto simp: sorted_iff_nth_mono_less)
  qed
  have "distinct (map (\<lambda>v. (vs_ordinal v, collate d' (vs_id v))) ?rs)"
    using ords(2) by (auto simp: distinct_map inj_on_def)
  with occ occ' strict have "sort_key (\<lambda>v. (vs_ordinal v, collate d' (vs_id v))) (occasions d' t p) = ?rs"
    by (rule sort_key_eqI)
  then show "visit_list d' t p = map (filed_visit d p) vs"
    by (simp add: visit_list_def scan_visit_rows)
  from occ occ' ords have "sort_key vs_ordinal (occasions d' t p) = ?rs" by (rule sort_key_eqI)
  then show "map vs_ordinal (sort_key vs_ordinal (occasions d' t p)) = map int [0..<length vs]"
    by (simp add: ordinals_visit_rows)
qed

subsection \<open>What a place write did\<close>

definition stored_place :: "place_write \<Rightarrow> place_row option \<Rightarrow> place_row \<Rightarrow> bool" where
  "stored_place w old new \<longleftrightarrow>
     (case old of
        None \<Rightarrow> Some (pl_city new) = pw_CityID w \<and> Some (pl_name new) = pw_Name w \<and>
          Some (pl_at new) = pw_Coordinates w \<and> pl_plan new = Value (pw_Plan w) \<and>
          pl_cover new = Value (pw_CoverAsset w)
      | Some r \<Rightarrow> pl_city new = or_keep (pw_CityID w) (pl_city r) \<and>
          pl_name new = or_keep (pw_Name w) (pl_name r) \<and>
          pl_at new = or_keep (pw_Coordinates w) (pl_at r) \<and>
          pl_plan new = or_keep (pw_Plan w) (pl_plan r) \<and>
          pl_cover new = or_keep (pw_CoverAsset w) (pl_cover r))"

lemma upsertPlaceSQL_ok:
  assumes "upsertPlaceSQL t i c n x w d = Inr d'"
  obtains r where "d' = d\<lparr>places := put_row pl_key r (places d)\<rparr>" "pl_key r = (t, i)"
    "r = (case find_place d t i of None \<Rightarrow> proposed_place t i c n x w
            | Some old \<Rightarrow> merge_place w (proposed_place t i c n x w) old)"
proof -
  have "table_upsert places (\<lambda>rs. places_update (\<lambda>_. rs)) pl_key place_ck place_fk
       (proposed_place t i c n x w) (merge_place w (proposed_place t i c n x w)) d = Inr d'"
    using assms by (simp add: upsertPlaceSQL_def)
  then show thesis
  proof (rule place_table.table_upsert_ok)
    show "pl_key (merge_place w (proposed_place t i c n x w) old) = pl_key (proposed_place t i c n x w)"
      if "pl_key old = pl_key (proposed_place t i c n x w)" for old
      using that by (simp add: merge_place_def pl_key_def)
  qed (use that in \<open>simp add: find_place_def proposed_place_def pl_key_def\<close>)
qed

lemma putPlace_Inr:
  assumes "putPlace t i w s = (Inr pl, s')"
    and ids: "\<forall>vs. pw_Visits w = Some vs \<longrightarrow> distinct (map visit_ID vs)"
  obtains r vrows where "stored_place w (find_place (tx_db s) t i) r" "pl_key r = (t, i)"
    "pl = scan_place (appended (visit_list (tx_db s') t i)) r"
    "tx_db s' = (tx_db s)\<lparr>places := put_row pl_key r (places (tx_db s)), visits := vrows\<rparr>"
    "\<forall>q. filter (\<lambda>v. \<not> at_place t i v \<and> q v) vrows = filter (\<lambda>v. \<not> at_place t i v \<and> q v) (visits (tx_db s))"
    "case pw_Visits w of None \<Rightarrow> vrows = visits (tx_db s)
     | Some vs \<Rightarrow> {v \<in> set vrows. at_place t i v} = set (visit_rows (tx_db s) t i 0 vs)"
proof -
  let ?before = "case find_place (tx_db s) t i of
         None \<Rightarrow> \<lparr>pb_cityID = [], pb_name = [], pb_at = \<lparr>Lat = 0, Lng = 0\<rparr>, pb_isCreate = True\<rparr>
       | Some r \<Rightarrow> \<lparr>pb_cityID = pl_city r, pb_name = pl_name r, pb_at = pl_at r, pb_isCreate = False\<rparr>"
  let ?c = "or_keep (pw_CityID w) (pb_cityID ?before)"
  let ?n = "or_keep (pw_Name w) (pb_name ?before)"
  let ?x = "or_keep (pw_Coordinates w) (pb_at ?before)"
  from assms obtain s1 s2 s3 s4 s5 where
    chk: "CheckPlaceWritable (pb_isCreate ?before) w = Inr ()" "tx_db s1 = tx_db s" and
    city: "requireCityForPlace t ?c s1 = (Inr (), s2)" and
    cover: "requireCover t (Value (pw_CoverAsset w)) s2 = (Inr (), s3)" and
    put: "t_exec (upsertPlaceSQL t i ?c ?n ?x w) s3 = (Inr (), s4)" and
    vis: "(case pw_Visits w of None \<Rightarrow> t_return () | Some vs \<Rightarrow> writeVisits t i vs) s4 = (Inr (), s5)" and
    reread: "readOnePlace t i s5 = (Inr pl, s')"
    unfolding putPlace_def requireWritablePlace_def Let_def t_bind_Inr by (auto dest!: t_query_Inr)
  have "upsertPlaceSQL t i ?c ?n ?x w (tx_db s) = Inr (tx_db s4)"
    using t_exec_Inr [OF put] requireCover_Inr [OF cover] city chk(2)
    by (auto simp: requireCityForPlace_def dest!: requireRow_Inr)
  then obtain r where r: "tx_db s4 = (tx_db s)\<lparr>places := put_row pl_key r (places (tx_db s))\<rparr>"
    "pl_key r = (t, i)" "r = (case find_place (tx_db s) t i of None \<Rightarrow> proposed_place t i ?c ?n ?x w
            | Some old \<Rightarrow> merge_place w (proposed_place t i ?c ?n ?x w) old)"
    by (rule upsertPlaceSQL_ok)
  have stored: "stored_place w (find_place (tx_db s) t i) r"
    using r(3) chk(1)
    by (auto simp: stored_place_def proposed_place_def merge_place_def Sent_def Value_def or_keep_def
        CheckPlaceWritable_def firstMissing_def split: option.splits)
  have "\<exists>vrows. tx_db s5 = (tx_db s4)\<lparr>visits := vrows\<rparr> \<and>
     (\<forall>q. filter (\<lambda>v. \<not> at_place t i v \<and> q v) vrows = filter (\<lambda>v. \<not> at_place t i v \<and> q v) (visits (tx_db s4))) \<and>
     (case pw_Visits w of None \<Rightarrow> vrows = visits (tx_db s4)
      | Some vs \<Rightarrow> {v \<in> set vrows. at_place t i v} = set (visit_rows (tx_db s4) t i 0 vs))"
  proof (cases "pw_Visits w")
    case None
    with vis show ?thesis by (auto intro!: exI [of _ "visits (tx_db s4)"])
  next
    case (Some vs)
    with vis ids writeVisits_Inr [of t i vs s4 "()" s5] show ?thesis by auto
  qed
  then obtain vrows where v: "tx_db s5 = (tx_db s4)\<lparr>visits := vrows\<rparr>"
    "\<forall>q. filter (\<lambda>v. \<not> at_place t i v \<and> q v) vrows = filter (\<lambda>v. \<not> at_place t i v \<and> q v) (visits (tx_db s4))"
    "case pw_Visits w of None \<Rightarrow> vrows = visits (tx_db s4)
      | Some vs \<Rightarrow> {v \<in> set vrows. at_place t i v} = set (visit_rows (tx_db s4) t i 0 vs)" by auto
  have same: "visit_rows (tx_db s4) = visit_rows (tx_db s)" by (rule visit_rows_cong) (simp add: r(1))
  from reread obtain row where row: "find_place (tx_db s5) t i = Some row"
    "pl = scan_place (appended (visit_list (tx_db s5) t i)) row" "tx_db s' = tx_db s5"
    by (rule readOnePlace_Inr)
  have "find_place (tx_db s5) t i = Some r"
    using v(1) r by (simp add: find_place_def find_put_row)
  with row have "row = r" by simp
  with row have pl: "pl = scan_place (appended (visit_list (tx_db s') t i)) r" by simp
  have "tx_db s' = (tx_db s)\<lparr>places := put_row pl_key r (places (tx_db s)), visits := vrows\<rparr>"
    using row v(1) r(1) by simp
  from that [OF stored r(2) pl this] v(2,3) r(1) same show thesis
    by (simp cong: option.case_cong)
qed

lemma visit_list_other:
  assumes "\<forall>q. filter (\<lambda>v. \<not> at_place t i v \<and> q v) vrows = filter (\<lambda>v. \<not> at_place t i v \<and> q v) (visits d)"
    and "visits d' = vrows" "collate d' = collate d" "j \<noteq> i"
  shows "visit_list d' t j = visit_list d t j"
proof -
  have "occasions e t j = filter (\<lambda>v. \<not> at_place t i v \<and> (vs_traveller v = t \<and> vs_place v = j)) (visits e)" for e
    unfolding occasions_def using assms(4) by (intro filter_cong) (auto simp: at_place_def)
  then have "occasions d' t j = occasions d t j"
    using spec [OF assms(1), of "\<lambda>v. vs_traveller v = t \<and> vs_place v = j"] assms(2) by simp
  then show ?thesis by (simp add: visit_list_def assms(3))
qed

lemma ValidatePlace_ids:
  "ValidatePlace w = Inr () \<Longrightarrow> pw_Visits w = Some vs \<Longrightarrow> distinct (map visit_ID vs)"
  by (simp add: ValidatePlace_def checks_ok)

lemma visit_list_bumped [simp]: "visit_list (bumped u d) = visit_list d"
  by (simp add: visit_list_def occasions_def fun_eq_iff)

lemma written_visits:
  assumes "distinct (map vs_key (visits d'))" "collate d' = collate d0"
    and "case ws of None \<Rightarrow> visits d' = visits d0
     | Some vs \<Rightarrow> {v \<in> set (visits d'). at_place t i v} = set (visit_rows d0 t i 0 vs)"
  shows "visit_list d' t i = (case ws of None \<Rightarrow> visit_list d0 t i | Some vs \<Rightarrow> map (filed_visit d0 i) vs)"
    "ws \<noteq> None \<longrightarrow> map vs_ordinal (sort_key vs_ordinal (occasions d' t i)) = map int [0..<length (the ws)]"
  using assms(2,3) visit_list_written [OF assms(1), of t i d0]
  by (auto simp: visit_list_def occasions_def split: option.splits)

text \<open>C30: A validated place write that succeeds stores each field by the pointer contract; when it
  carries visits, the place then holds exactly those visits, in the order of the array, numbered
  from 0 without a gap, with the place filled in and the instant as the column keeps it. Every
  other place and the visits of every other place are as they were, and so is every other table,
  other travellers' rows included, but for the version of the traveller's log, which goes up by
  one. The answer is the place as the document now holds it.\<close>

theorem put_place_effect:
  assumes "PutPlace t w s = (Inr (pl, v), s')" "pw_ID w = Some i" "ValidatePlace w = Inr ()"
    and "schema_ok (tx_db s)"
  shows "(\<exists>r. find_place (tx_db s') t i = Some r \<and> stored_place w (find_place (tx_db s) t i) r) \<and>
     (\<forall>j. j \<noteq> i \<longrightarrow> find_place (tx_db s') t j = find_place (tx_db s) t j \<and>
        visit_list (tx_db s') t j = visit_list (tx_db s) t j) \<and>
     visit_list (tx_db s') t i =
       (case pw_Visits w of None \<Rightarrow> visit_list (tx_db s) t i
        | Some vs \<Rightarrow> map (filed_visit (tx_db s) i) vs) \<and>
     (pw_Visits w \<noteq> None \<longrightarrow> map vs_ordinal (sort_key vs_ordinal (occasions (tx_db s') t i)) =
        map int [0..<length (the (pw_Visits w))]) \<and>
     tx_db s' = (bumped t (tx_db s))\<lparr>places := places (tx_db s'), visits := visits (tx_db s')\<rparr> \<and>
     filter (\<lambda>r. pl_key r \<noteq> (t, i)) (places (tx_db s')) = filter (\<lambda>r. pl_key r \<noteq> (t, i)) (places (tx_db s)) \<and>
     filter (\<lambda>r. \<not> at_place t i r) (visits (tx_db s')) = filter (\<lambda>r. \<not> at_place t i r) (visits (tx_db s)) \<and>
     photos (tx_db s') = photos (tx_db s) \<and>
     pl \<in> set (items (doc_Places (document_of t (tx_db s')))) \<and>
     version_of (tx_db s') t = Some v"
proof -
  from assms have "WithTravellerTx t (putPlace t i w) s = (Inr (pl, v), s')"
    by (simp add: PutPlace_def t_bind_Inr)
  then have wrote: "wrote t (putPlace t i w) (tx_db s) pl v (tx_db s')" by (rule WithTravellerTx_Inr)
  then obtain s1 s2 where s1: "tx_db s1 = bumped t (tx_db s)"
    and run: "putPlace t i w s1 = (Inr pl, s2)" and s2: "tx_db s' = tx_db s2"
    by (auto simp: wrote_def)
  note adv = wrote_advances [OF putPlace_sound wrote]
  have ids: "\<forall>vs. pw_Visits w = Some vs \<longrightarrow> distinct (map visit_ID vs)"
    using ValidatePlace_ids [OF assms(3)] by blast
  from run ids obtain r vrows where
    r: "stored_place w (find_place (tx_db s1) t i) r" "pl_key r = (t, i)"
       "pl = scan_place (appended (visit_list (tx_db s2) t i)) r" and
    d2: "tx_db s2 = (tx_db s1)\<lparr>places := put_row pl_key r (places (tx_db s1)), visits := vrows\<rparr>" and
    others: "\<forall>q. filter (\<lambda>v. \<not> at_place t i v \<and> q v) vrows = filter (\<lambda>v. \<not> at_place t i v \<and> q v) (visits (tx_db s1))" and
    mine: "case pw_Visits w of None \<Rightarrow> vrows = visits (tx_db s1)
     | Some vs \<Rightarrow> {v \<in> set vrows. at_place t i v} = set (visit_rows (tx_db s1) t i 0 vs)"
    by (rule putPlace_Inr)
  have finds: "find_place (tx_db s') t j = (if j = i then Some r else find_place (tx_db s) t j)" for j
    using r(2) d2 s1 s2 by (auto simp: find_place_def find_put_row)
  have stored: "stored_place w (find_place (tx_db s) t i) r"
    using r(1) s1 by (simp add: find_place_def)
  have lists: "visit_list (tx_db s') t j = visit_list (tx_db s) t j" if "j \<noteq> i" for j
    using visit_list_other [OF others, of "tx_db s'" j] that d2 s1 s2 by simp
  have keys: "distinct (map vs_key (visits (tx_db s')))"
    using adv assms(4) by (auto simp: advances_def keeps_schema_def dest: schema_visits)
  have "visit_rows (tx_db s1) = visit_rows (tx_db s)" by (rule visit_rows_cong) (simp add: s1)
  with mine d2 s1 s2 have mine': "case pw_Visits w of None \<Rightarrow> visits (tx_db s') = visits (tx_db s)
     | Some vs \<Rightarrow> {v \<in> set (visits (tx_db s')). at_place t i v} = set (visit_rows (tx_db s) t i 0 vs)"
    by (simp split: option.splits)
  have "collate (tx_db s') = collate (tx_db s)" using d2 s1 s2 by simp
  note written = written_visits [OF keys this mine']
  have "pl \<in> set (items (doc_Places (document_of t (tx_db s'))))"
    using place_in_document [of "tx_db s'" t i r] finds [of i] r(3) s2 by simp
  moreover have "photos (tx_db s') = photos (tx_db s)" using d2 s1 s2 by simp
  moreover have "tx_db s' = (bumped t (tx_db s))\<lparr>places := places (tx_db s'), visits := visits (tx_db s')\<rparr>"
    using d2 s1 s2 by simp
  moreover have "filter (\<lambda>r. pl_key r \<noteq> (t, i)) (places (tx_db s')) = filter (\<lambda>r. pl_key r \<noteq> (t, i)) (places (tx_db s))"
    using d2 s1 s2 r(2) by (simp add: filter_put_row_other)
  moreover have "filter (\<lambda>r. \<not> at_place t i r) (visits (tx_db s')) = filter (\<lambda>r. \<not> at_place t i r) (visits (tx_db s))"
    using spec [OF others, of "\<lambda>_. True"] d2 s1 s2 by simp
  ultimately show ?thesis using stored finds lists adv written by simp
qed

subsection \<open>When a place write succeeds\<close>

lemma parking_ge: "int n \<le> parking n t p d"
proof -
  have "int n \<le> foldr (\<lambda>v k. max (vs_ordinal v + 1) k) vs (int n)" for vs by (induction vs) auto
  then show ?thesis by (simp add: parking_def)
qed

lemma parking_above: "v \<in> set (occasions d t p) \<Longrightarrow> vs_ordinal v < parking n t p d"
proof -
  have "v \<in> set vs \<Longrightarrow> vs_ordinal v < foldr (\<lambda>v k. max (vs_ordinal v + 1) k) vs (int n)" for vs
    by (induction vs) auto
  then show "v \<in> set (occasions d t p) \<Longrightarrow> vs_ordinal v < parking n t p d"
    by (simp add: parking_def)
qed

lemma parking_le:
  assumes "int n \<le> k" "\<And>v. v \<in> set (occasions d t p) \<Longrightarrow> vs_ordinal v < k"
  shows "parking n t p d \<le> k"
proof -
  have "(\<And>v. v \<in> set vs \<Longrightarrow> vs_ordinal v < k) \<Longrightarrow> foldr (\<lambda>v m. max (vs_ordinal v + 1) m) vs (int n) \<le> k" for vs
    using assms(1) by (induction vs) (auto simp: add1_zle_eq)
  then show ?thesis using assms(2) unfolding parking_def by blast
qed

text \<open>
  Parking never collides, whatever the order of the rows: every new ordinal of the place is above
  every old one, and the distances between them are kept.
\<close>

lemma offset_succeeds:
  assumes ok: "schema_ok d" and n: "n < 2 ^ 30"
    and small: "\<And>v. v \<in> set (occasions d t p) \<Longrightarrow> vs_ordinal v < 2 ^ 30"
  shows "offsetVisitOrdinalsSQL t p n d = Inr (d\<lparr>visits := upd_rows (at_place t p)
      (\<lambda>v. v\<lparr>vs_ordinal := vs_ordinal v + parking n t p d\<rparr>) (visits d)\<rparr>)"
proof -
  let ?k = "parking n t p d"
  let ?f = "\<lambda>v. v\<lparr>vs_ordinal := vs_ordinal v + ?k\<rparr>"
  have le: "?k \<le> 2 ^ 30" using n small by (intro parking_le) simp_all
  have pos: "0 \<le> ?k" using parking_ge [of n t p d] by simp
  have occ: "v \<in> set (visits d) \<Longrightarrow> at_place t p v \<Longrightarrow> v \<in> set (occasions d t p)" for v
    by (simp add: set_occasions)
  have ck: "v \<in> set (visits d) \<Longrightarrow> visit_ck v" for v
    using schema_visits(3) [OF ok] by (simp add: list_all_iff)
  have "bad_visit (?f v) = None" if "v \<in> set (visits d)" "at_place t p v" for v
    using ck [OF that(1)] small [OF occ [OF that]] le pos
    by (simp add: bad_visit_def visit_ck_def int4_def)
  moreover have slots: "inj_on vs_slot (set (visits d))" "distinct (visits d)"
    using schema_visits(2) [OF ok] by (simp_all add: distinct_map)
  have fresh: "vs_slot (?f r) \<noteq> vs_slot x"
    if "r \<in> set (visits d)" "at_place t p r" "x \<in> set (visits d)" for r x
  proof
    assume eq: "vs_slot (?f r) = vs_slot x"
    with that(2) have "at_place t p x" "vs_ordinal x = vs_ordinal r + ?k"
      by (auto simp: vs_slot_def at_place_def)
    with parking_above [OF occ [OF that(3)], of n] ck [OF that(1)] show False
      by (simp add: visit_ck_def)
  qed
  have "distinct (map vs_slot (upd_rows (at_place t p) ?f (visits d)))"
  proof -
    have "inj_on (\<lambda>r. vs_slot (if at_place t p r then ?f r else r)) (set (visits d))"
    proof (rule inj_onI)
      fix x y assume xy: "x \<in> set (visits d)" "y \<in> set (visits d)"
        "vs_slot (if at_place t p x then ?f x else x) = vs_slot (if at_place t p y then ?f y else y)"
      have "vs_slot x = vs_slot y"
        using xy fresh [of x y] fresh [of y x]
        by (cases "at_place t p x"; cases "at_place t p y") (auto simp: vs_slot_def)
      with slots(1) xy(1,2) show "x = y" by (auto dest: inj_onD)
    qed
    with slots(2) show ?thesis by (simp add: upd_rows_def distinct_map comp_def)
  qed
  ultimately have "update_unique vs_slot (at_place t p) bad_visit ?f [] (visits d) =
      Inr ([] @ upd_rows (at_place t p) ?f (visits d))"
    using fresh by (intro update_unique_succeeds) auto
  then show ?thesis using n by (simp add: offsetVisitOrdinalsSQL_def int4_def)
qed

lemma put_visits_succeeds:
  assumes "list_all visit_ck rs" "distinct (map vs_key rs)" "set (map vs_key rs) \<inter> set touched = {}"
    "distinct (map vs_slot rs)" "\<forall>x \<in> set rows. vs_slot x \<notin> vs_slot ` set rs"
  shows "\<exists>rows'. put_visits touched rs rows = Inr rows'"
  using assms
proof (induction rs arbitrary: touched rows)
  case (Cons r rs)
  have "\<exists>rows'. put_visits (vs_key r # touched) rs (put_row vs_key r rows) = Inr rows'"
    by (rule Cons.IH) (use Cons.prems in \<open>auto simp: set_put_row\<close>)
  with Cons.prems show ?case by (auto simp: list_ex_iff)
qed simp

text \<open>What a visit of the array must satisfy for the statement to take it.\<close>

definition takeable :: "database \<Rightarrow> id \<Rightarrow> visit \<Rightarrow> bool" where
  "takeable d t v \<longleftrightarrow> idPattern (visit_ID v) \<and> visit_Note v \<noteq> Some [] \<and> sendable [visit_Note v] \<and>
     has_trip d t (visit_TripID v)"

lemma visit_rows_nth:
  "r \<in> set (visit_rows d t p start vs) \<Longrightarrow>
     \<exists>k < length vs. vs_ordinal r = int (start + k) \<and> r = visit_rows d t p start vs ! k"
  by (auto simp: visit_rows_def in_set_conv_nth nth_enumerate_eq)

lemma upsertVisits_succeeds:
  assumes vs: "list_all (takeable d t) vs" "distinct (map visit_ID vs)"
    and refs: "has_traveller d t" "has_place d t p" and n: "start + length vs \<le> 2 ^ 30"
    and free: "\<forall>x \<in> set (visits d). at_place t p x \<longrightarrow>
       vs_ordinal x < int start \<or> int (start + length vs) \<le> vs_ordinal x"
  shows "\<exists>rows. upsertVisits t p vs start d = Inr (d\<lparr>visits := rows\<rparr>)"
proof -
  let ?rs = "visit_rows d t p start vs"
  have ck: "list_all visit_ck ?rs"
    using vs(1) by (auto simp: list_all_iff visit_rows_def visit_ck_def takeable_def present_def
        in_set_enumerate_eq)
  have fk: "list_all (visit_fk d) ?rs"
    using vs(1) refs by (auto simp: list_all_iff visit_rows_def visit_fk_def takeable_def
        in_set_enumerate_eq)
  have small: "list_all (\<lambda>r. int4 (vs_ordinal r)) ?rs"
    using n by (auto simp: list_all_iff int4_def dest!: visit_rows_nth)
  have keys: "distinct (map vs_key ?rs)"
    using vs(2) unfolding keys_visit_rows by (auto simp: distinct_map inj_on_def)
  have ords: "distinct (map vs_slot ?rs)"
    by (auto simp: distinct_conv_nth visit_rows_def vs_slot_def nth_enumerate_eq)
  have "vs_slot x \<notin> vs_slot ` set ?rs" if "x \<in> set (visits d)" for x
  proof
    assume "vs_slot x \<in> vs_slot ` set ?rs"
    then obtain r where r: "r \<in> set ?rs" "vs_slot x = vs_slot r" by auto
    from visit_rows_mine [OF r(1)] r(2) have "at_place t p x" "vs_ordinal x = vs_ordinal r"
      by (simp_all add: vs_slot_def at_place_def)
    with visit_rows_nth [OF r(1)] free that show False by auto
  qed
  then obtain rows where "put_visits [] ?rs (visits d) = Inr rows"
    using put_visits_succeeds [OF ck keys _ ords, of "[]" "visits d"] by auto
  moreover have "sendable (map vs_note ?rs)"
    using vs(1) by (subst sendable_all)
      (auto simp: list_all_iff visit_rows_def takeable_def in_set_enumerate_eq)
  ultimately have "upsertVisits t p vs start d = Inr (d\<lparr>visits := rows\<rparr>)"
    using fk small by (simp add: upsertVisits_def Let_def)
  then show ?thesis by blast
qed

lemma upsertBatches_succeeds:
  assumes "list_all (takeable d t) vs" "distinct (map visit_ID vs)"
    and "has_traveller d t" "has_place d t p" "start + length vs \<le> 2 ^ 30"
    and "\<forall>x \<in> set (visits d). at_place t p x \<longrightarrow>
       vs_ordinal x < int start \<or> int (start + length vs) \<le> vs_ordinal x"
  shows "\<exists>rows. upsertBatches t p start vs (calm d) = (Inr (), calm (d\<lparr>visits := rows\<rparr>))"
  using assms
proof (induction t p start vs arbitrary: d rule: upsertBatches.induct)
  case (1 t p start vs)
  show ?case
  proof (cases "vs = []")
    case True
    then show ?thesis
      by (auto simp: upsertBatches.simps t_return_def intro!: exI [of _ "visits d"])
  next
    case False
    let ?k = maxVisitsPerStatement
    let ?a = "take ?k vs" and ?b = "drop ?k vs"
    have "\<exists>rows. upsertVisits t p ?a start d = Inr (d\<lparr>visits := rows\<rparr>)"
      using "1.prems"
      by (intro upsertVisits_succeeds)
        (auto simp: list_all_iff distinct_take simp flip: take_map dest: in_set_takeD)
    then obtain rows where up: "upsertVisits t p ?a start d = Inr (d\<lparr>visits := rows\<rparr>)" by auto
    let ?d = "d\<lparr>visits := rows\<rparr>"
    from up obtain rows' where "put_visits [] (visit_rows d t p start ?a) (visits d) = Inr rows'"
      "?d = d\<lparr>visits := rows'\<rparr>" by (rule upsertVisits_ok)
    then have rows: "set rows \<subseteq> set (visit_rows d t p start ?a) \<union> set (visits d)"
      using put_visits_set by (auto dest: arg_cong [where f = visits])
    have keep: "has_traveller ?d = has_traveller d" "has_place ?d = has_place d" "has_trip ?d = has_trip d"
      by (simp_all add: has_defs fun_eq_iff)
    have "\<exists>rows. upsertBatches t p (start + ?k) ?b (calm ?d) = (Inr (), calm (?d\<lparr>visits := rows\<rparr>))"
    proof (cases "?b = []")
      case True
      then show ?thesis
        by (auto simp: upsertBatches.simps t_return_def intro!: exI [of _ "visits ?d"])
    next
      case b: False
      show ?thesis
      proof (rule "1.IH" [OF False])
        show "list_all (takeable ?d t) ?b" "distinct (map visit_ID ?b)" "has_traveller ?d t" "has_place ?d t p"
          using "1.prems" keep
          by (auto simp: list_all_iff takeable_def distinct_drop simp flip: drop_map dest: in_set_dropD)
        have len: "start + ?k + length ?b = start + length vs" using b by simp
        then show "start + ?k + length ?b \<le> 2 ^ 30" using "1.prems"(5) by simp
        show "\<forall>x \<in> set (visits ?d). at_place t p x \<longrightarrow>
            vs_ordinal x < int (start + ?k) \<or> int (start + ?k + length ?b) \<le> vs_ordinal x"
          unfolding len using rows "1.prems"(6) by (fastforce dest: visit_rows_nth)
      qed
    qed
    with up False show ?thesis
      by (subst upsertBatches.simps) (auto simp: t_bind_step)
  qed
qed

text \<open>An array of visits the place can take, as the refusals of \<open>writeVisits\<close> read the log.\<close>

definition writable_visits :: "database \<Rightarrow> id \<Rightarrow> id \<Rightarrow> visit list \<Rightarrow> bool" where
  "writable_visits d t p vs \<longleftrightarrow>
     (vs = [] \<longrightarrow> occasions d t p = []) \<and> length vs < 2 ^ 30 \<and>
     (\<forall>v \<in> set vs. visit_Note v \<noteq> Some [] \<and> sendable [visit_Note v] \<and> has_trip d t (visit_TripID v)) \<and>
     (\<forall>r \<in> set (visits d). vs_traveller r = t \<longrightarrow> vs_id r \<in> visit_ID ` set vs \<longrightarrow> vs_place r = p) \<and>
     (\<forall>r \<in> set (occasions d t p). vs_ordinal r < 2 ^ 30 \<and>
        (vs_id r \<notin> visit_ID ` set vs \<longrightarrow>
         (\<forall>f \<in> set (photos d). ph_traveller f = t \<longrightarrow> ph_visit f \<noteq> Some (vs_id r))))"

lemma t_lift_ok: "r = Inr x \<Longrightarrow> t_lift r s = (Inr x, s)"
  by (simp add: t_lift_def)

lemma writeVisits_succeeds:
  assumes ok: "schema_ok d" and refs: "has_traveller d t" "has_place d t p"
    and ids: "\<forall>v \<in> set vs. idPattern (visit_ID v)" "distinct (map visit_ID vs)"
    and w: "writable_visits d t p vs"
  shows "\<exists>d'. writeVisits t p vs (calm d) = (Inr (), calm d') \<and> places d' = places d"
proof (cases "vs = []")
  case True
  with w show ?thesis
    by (auto simp: writeVisits_def refuseClearingAPlaceThatHasOccasions_def CheckClearingVisits_def
        t_bind_step t_lift_def guard_def writable_visits_def)
next
  case False
  let ?ids = "map visit_ID vs"
  have "first_error (map (\<lambda>i. guard (i \<notin> set (map tr_id (filter (\<lambda>r. tr_traveller r = t \<and>
      tr_id r \<in> set (tripsNamed [] vs)) (trips d)))) (InvalidField ''visits'')) (tripsNamed [] vs)) = Inr ()"
  proof -
    have "has_trip d t i" if "i \<in> set (tripsNamed [] vs)" for i
      using w that by (auto simp: set_tripsNamed writable_visits_def)
    then show ?thesis by (force simp: has_trip_def tr_key_def image_iff)
  qed
  then have req: "requireTripsForVisits t (tripsNamed [] vs) (calm d) = (Inr (), calm d)"
    by (simp add: requireTripsForVisits_def t_bind_step t_lift_ok)
  have held: "refuseVisitsHeldElsewhere t p ?ids (calm d) = (Inr (), calm d)"
  proof -
    have "filter (\<lambda>v. vs_traveller v = t \<and> vs_id v \<in> set ?ids \<and> vs_place v \<noteq> p) (visits d) = []"
      by (rule filter_none) (use w in \<open>auto simp: writable_visits_def\<close>)
    then show ?thesis by (simp add: refuseVisitsHeldElsewhere_def t_bind_step t_lift_def guard_def)
  qed
  have occ: "refuseDroppingAnOccupiedOccasion t p ?ids (calm d) = (Inr (), calm d)"
  proof -
    have "filter (\<lambda>v. vs_id v \<notin> set ?ids \<and>
        list_ex (\<lambda>f. ph_traveller f = vs_traveller v \<and> ph_visit f = Some (vs_id v)) (photos d))
        (occasions d t p) = []"
      by (rule filter_none) (use w in \<open>auto simp: writable_visits_def list_ex_iff set_occasions at_place_def\<close>)
    then show ?thesis by (simp add: refuseDroppingAnOccupiedOccasion_def t_bind_step t_lift_def guard_def)
  qed
  let ?k = "parking (length vs) t p d"
  let ?d = "d\<lparr>visits := upd_rows (at_place t p) (\<lambda>v. v\<lparr>vs_ordinal := vs_ordinal v + ?k\<rparr>) (visits d)\<rparr>"
  have off: "offsetVisitOrdinalsSQL t p (length vs) d = Inr ?d"
    by (rule offset_succeeds [OF ok]) (use w in \<open>auto simp: writable_visits_def\<close>)
  have keep: "has_traveller ?d = has_traveller d" "has_place ?d = has_place d" "has_trip ?d = has_trip d"
    by (simp_all add: has_defs fun_eq_iff)
  have "\<exists>rows. upsertBatches t p 0 vs (calm ?d) = (Inr (), calm (?d\<lparr>visits := rows\<rparr>))"
  proof (rule upsertBatches_succeeds)
    show "list_all (takeable ?d t) vs" "has_traveller ?d t" "has_place ?d t p" "0 + length vs \<le> 2 ^ 30"
      using ids(1) w refs keep by (auto simp: list_all_iff takeable_def writable_visits_def)
    show "\<forall>x \<in> set (visits ?d). at_place t p x \<longrightarrow> vs_ordinal x < int 0 \<or> int (0 + length vs) \<le> vs_ordinal x"
    proof (intro ballI impI)
      fix x assume "x \<in> set (visits ?d)" "at_place t p x"
      then obtain x0 where "x0 \<in> set (visits d)" "vs_ordinal x = vs_ordinal x0 + ?k"
        by (auto simp: set_upd_rows split: if_splits)
      moreover have "visit_ck x0" using schema_visits(3) [OF ok] calculation(1) by (simp add: list_all_iff)
      ultimately show "vs_ordinal x < int 0 \<or> int (0 + length vs) \<le> vs_ordinal x"
        using parking_ge [of "length vs" t p d] by (simp add: visit_ck_def)
    qed
  qed (rule ids(2))
  then obtain rows where ups: "upsertBatches t p 0 vs (calm ?d) = (Inr (), calm (?d\<lparr>visits := rows\<rparr>))" by auto
  show ?thesis
    using False by (simp add: writeVisits_def t_bind_step req held occ off ups deleteDepartedVisitsSQL_def)
qed

lemma requireWritablePlace_calm:
  assumes "CheckPlaceWritable (find_place d t i = None) w = Inr ()"
  shows "\<exists>b. requireWritablePlace t i w (calm d) = (Inr b, calm d) \<and>
     pb_cityID b = (case find_place d t i of None \<Rightarrow> [] | Some r \<Rightarrow> pl_city r) \<and>
     pb_name b = (case find_place d t i of None \<Rightarrow> [] | Some r \<Rightarrow> pl_name r) \<and>
     pb_at b = (case find_place d t i of None \<Rightarrow> \<lparr>Lat = 0, Lng = 0\<rparr> | Some r \<Rightarrow> pl_at r)"
  using assms by (cases "find_place d t i")
    (simp_all add: requireWritablePlace_def t_bind_def t_lift_def t_return_def)

lemma upsertPlaceSQL_succeeds:
  assumes ok: "schema_ok d" and t: "has_traveller d t"
    and v: "ValidatePlace w = Inr ()" "pw_ID w = Some i" "pw_Plan w \<noteq> Some (Some [])"
    and chk: "CheckPlaceWritable (find_place d t i = None) w = Inr ()"
    and cover: "\<And>a. Value (pw_CoverAsset w) = Some a \<Longrightarrow> committed d t a"
    and vals: "c = or_keep (pw_CityID w) (case find_place d t i of None \<Rightarrow> [] | Some r \<Rightarrow> pl_city r)"
      "n = or_keep (pw_Name w) (case find_place d t i of None \<Rightarrow> [] | Some r \<Rightarrow> pl_name r)"
      "x = or_keep (pw_Coordinates w) (case find_place d t i of None \<Rightarrow> \<lparr>Lat = 0, Lng = 0\<rparr> | Some r \<Rightarrow> pl_at r)"
    and city: "has_city d t c" and texts: "sendable [Some n, Value (pw_Plan w)]"
  shows "\<exists>d'. upsertPlaceSQL t i c n x w d = Inr d'"
proof -
  let ?new = "proposed_place t i c n x w"
  let ?r = "case find_place d t i of None \<Rightarrow> ?new | Some old \<Rightarrow> merge_place w ?new old"
  have old: "place_ck r \<and> place_fk d r \<and> pl_traveller r = t" if "find_place d t i = Some r" for r
  proof -
    have "r \<in> set (places d)" "pl_traveller r = t"
      using that by (auto simp: find_place_def pl_key_def dest!: find_SomeD)
    with ok show ?thesis by (auto simp: schema_ok_def checks_hold_def refs_hold_def list_all_iff)
  qed
  have wv: "\<And>m. pw_Name w = Some m \<Longrightarrow> m \<noteq> []" "\<And>y. pw_Coordinates w = Some y \<Longrightarrow> on_earth y"
    using v(1) by (auto simp: ValidatePlace_def checks_ok on_earth_def dest: TrimSpace_nonempty)
  have vals': "n \<noteq> []" "on_earth x"
    using vals chk wv old
    by (cases "find_place d t i"; auto simp: CheckPlaceWritable_def firstMissing_def place_ck_def
        or_keep_def split: option.splits)+
  have new: "place_ck ?new"
    using v vals' by (auto simp: place_ck_def proposed_place_def ValidatePlace_def bad_id_def when_sent_ok
        asset_ck_def present_def Value_def split: option.splits)
  have merged: "place_ck ?r"
    using new old by (cases "find_place d t i") (auto simp: place_ck_def merge_place_def proposed_place_def)
  have "place_fk d ?r"
    using t old cover city by (cases "find_place d t i")
      (auto simp: place_fk_def proposed_place_def merge_place_def ref_def committed_has_media
        split: option.splits)
  with new merged texts show ?thesis
    by (auto simp: upsertPlaceSQL_def table_upsert_def upsert_def Let_def find_place_def
        proposed_place_def pl_key_def split: option.splits)
qed

lemma PutPlace_succeeds:
  assumes "schema_ok d" "open_for t d" "ValidatePlace w = Inr ()" "pw_ID w = Some i"
    and "pw_Plan w \<noteq> Some (Some [])" "CheckPlaceWritable (find_place d t i = None) w = Inr ()"
    and "\<And>a. Value (pw_CoverAsset w) = Some a \<Longrightarrow> committed d t a"
    and "has_city d t (or_keep (pw_CityID w) (case find_place d t i of None \<Rightarrow> [] | Some r \<Rightarrow> pl_city r))"
    and "\<And>vs. pw_Visits w = Some vs \<Longrightarrow> writable_visits d t i vs"
    and "sendable [Some (or_keep (pw_Name w) (case find_place d t i of None \<Rightarrow> [] | Some r \<Rightarrow> pl_name r)), Value (pw_Plan w)]"
  shows "\<exists>pl d'. PutPlace t w (calm d) = (Inr (pl, the (version_of d t) + 1), calm d')"
proof -
  let ?d = "bumped t d"
  have same: "find_place ?d = find_place d" "writable_visits ?d = writable_visits d"
    by (simp_all add: find_place_def writable_visits_def occasions_def fun_eq_iff)
  obtain b where b: "requireWritablePlace t i w (calm ?d) = (Inr b, calm ?d)"
     "pb_cityID b = (case find_place d t i of None \<Rightarrow> [] | Some r \<Rightarrow> pl_city r)"
     "pb_name b = (case find_place d t i of None \<Rightarrow> [] | Some r \<Rightarrow> pl_name r)"
     "pb_at b = (case find_place d t i of None \<Rightarrow> \<lparr>Lat = 0, Lng = 0\<rparr> | Some r \<Rightarrow> pl_at r)"
    using requireWritablePlace_calm [of ?d t i w] assms(6) same by auto
  let ?c = "or_keep (pw_CityID w) (pb_cityID b)"
  let ?n = "or_keep (pw_Name w) (pb_name b)"
  let ?x = "or_keep (pw_Coordinates w) (pb_at b)"
  have "\<exists>d1. upsertPlaceSQL t i ?c ?n ?x w ?d = Inr d1"
    by (rule upsertPlaceSQL_succeeds)
      (use assms b same in \<open>simp_all add: schema_bumped open_has_traveller\<close>)
  then obtain d1 where up: "upsertPlaceSQL t i ?c ?n ?x w ?d = Inr d1" by auto
  then obtain r where r: "d1 = ?d\<lparr>places := put_row pl_key r (places ?d)\<rparr>" "pl_key r = (t, i)"
    by (rule upsertPlaceSQL_ok)
  have ok1: "schema_ok d1"
    using upsertPlaceSQL_sound [OF up] assms(1) by (auto simp: sound_def keeps_schema_def schema_bumped)
  have refs: "has_traveller d1 t" "has_place d1 t i" "writable_visits d1 = writable_visits d"
  proof -
    have "has_traveller d1 = has_traveller ?d" "has_trip d1 = has_trip d"
      using r(1) by (simp_all add: has_defs fun_eq_iff del: has_bumped)
    then show "has_traveller d1 t" "writable_visits d1 = writable_visits d"
      using r(1) assms(2) by (simp_all add: open_has_traveller writable_visits_def occasions_def fun_eq_iff)
    show "has_place d1 t i" using r by (simp add: has_place_def keys_put_row)
  qed
  have "\<exists>d2. (case pw_Visits w of None \<Rightarrow> t_return () | Some vs \<Rightarrow> writeVisits t i vs) (calm d1) =
      (Inr (), calm d2) \<and> places d2 = places d1"
  proof (cases "pw_Visits w")
    case (Some vs)
    with assms(3,4,9) have "\<forall>v \<in> set vs. idPattern (visit_ID v)" "distinct (map visit_ID vs)"
      "writable_visits d t i vs"
      by (auto simp: ValidatePlace_def checks_ok visit_shape_def list_all_iff)
    with Some writeVisits_succeeds [OF ok1 refs(1,2)] refs(3) show ?thesis by auto
  qed (simp add: t_return_def)
  then obtain d2 where d2: "(case pw_Visits w of None \<Rightarrow> t_return () | Some vs \<Rightarrow> writeVisits t i vs) (calm d1) =
      (Inr (), calm d2)" "places d2 = places d1" by auto
  have "find_place d2 t i = Some r" using d2(2) r by (simp add: find_place_def find_put_row)
  moreover have "has_city d t ?c" using assms(8) b(2) by simp
  ultimately have "putPlace t i w (calm ?d) = (Inr (scan_place (appended (visit_list d2 t i)) r), calm d2)"
    using assms(7)
    by (simp add: putPlace_def Let_def t_bind_step b(1) requireCityForPlace_def requireCover_calm up d2
        readOnePlace_calm)
  from WithTravellerTx_calm_Inr [where fn = "putPlace t i w", OF assms(2) this] assms(4) show ?thesis
    by (auto simp: PutPlace_def t_bind_def t_lift_def CheckWriteID_def guard_def)
qed


definition sample_place_write :: place_write where
  "sample_place_write = \<lparr>pw_ID = Some ''p1'', pw_CityID = None, pw_Name = Some ''Cais'',
     pw_Coordinates = None,
     pw_Visits = Some
       [\<lparr>visit_ID = ''v3'', visit_PlaceID = [], visit_TripID = ''t2'', visit_At = 12345, visit_Note = None\<rparr>,
        \<lparr>visit_ID = ''v1'', visit_PlaceID = ''p1'', visit_TripID = ''t1'', visit_At = 9000, visit_Note = None\<rparr>],
     pw_Plan = None, pw_CoverAsset = None\<rparr>"

lemma sample_place_facts:
  "ValidatePlace sample_place_write = Inr ()"
  "CheckPlaceWritable (find_place sample ''u1'' ''p1'' = None) sample_place_write = Inr ()"
  "has_city sample ''u1'' (or_keep (pw_CityID sample_place_write)
      (case find_place sample ''u1'' ''p1'' of None \<Rightarrow> [] | Some r \<Rightarrow> pl_city r))"
  "pw_Visits sample_place_write = Some vs \<Longrightarrow> writable_visits sample ''u1'' ''p1'' vs"
  "pw_ID sample_place_write = Some ''p1''" "pw_Plan sample_place_write \<noteq> Some (Some [])"
  "Value (pw_CoverAsset sample_place_write) \<noteq> Some a"
  "sendable [Some (or_keep (pw_Name sample_place_write)
      (case find_place sample ''u1'' ''p1'' of None \<Rightarrow> [] | Some r \<Rightarrow> pl_name r)), Value (pw_Plan sample_place_write)]"
proof -
  have "has_trip sample ''u1'' ''t1''" "has_trip sample ''u1'' ''t2''" by code_simp+
  then show "pw_Visits sample_place_write = Some vs \<Longrightarrow> writable_visits sample ''u1'' ''p1'' vs"
    by (auto simp: sample_place_write_def writable_visits_def occasions_def sample_def)
qed (code_simp, code_simp, code_simp, simp_all add: sample_place_write_def)


lemma sample_place_succeeds:
  "\<exists>pl d'. PutPlace ''u1'' sample_place_write (calm sample) =
     (Inr (pl, the (version_of sample ''u1'') + 1), calm d')"
  by (rule PutPlace_succeeds [OF sample_ok sample_open, of _ "''p1''"])
    (use sample_place_facts in auto)

theorem put_place_effect_witness:
  "\<exists>pl v s'. PutPlace ''u1'' sample_place_write (calm sample) = (Inr (pl, v), s') \<and>
     map visit_ID (visit_list (tx_db s') ''u1'' ''p1'') = [''v3'', ''v1''] \<and>
     photos (tx_db s') = photos sample"
proof -
  from sample_place_succeeds obtain pl v s' where
    run: "PutPlace ''u1'' sample_place_write (calm sample) = (Inr (pl, v), s')" by auto
  with put_place_effect [of "''u1''" sample_place_write "calm sample" pl v s' "''p1''"]
    sample_place_facts(1) sample_ok
  show ?thesis by (simp add: sample_place_write_def filed_visit_def)
qed

subsection \<open>What removing a place does\<close>

definition unfiled_from :: "id \<Rightarrow> id \<Rightarrow> visit_row list \<Rightarrow> photo_row \<Rightarrow> photo_row" where
  "unfiled_from t p vs f = f\<lparr>
     ph_visit := (if filed_to (at_place t p) vs f then None else ph_visit f),
     ph_place := (if ph_traveller f = t \<and> ph_place f = Some p then None else ph_place f)\<rparr>"

definition filed_at :: "id \<Rightarrow> id \<Rightarrow> photo_row \<Rightarrow> bool" where
  "filed_at t p f \<longleftrightarrow> ph_traveller f = t \<and> ph_place f = Some p"

lemma photos_delete_place_map:
  "photos (delete_place t p d) = map (unfiled_from t p (visits d)) (photos d)"
  unfolding photos_delete_place photos_drop_visits upd_rows_def map_map
  by (rule map_cong) (auto simp: unfiled_from_def at_place_def [abs_def])

lemma removePlace_Inr:
  assumes "removePlace t p disp s = (Inr doc, s')"
  shows "has_place (tx_db s) t p \<and> doc = document_of t (tx_db s') \<and>
     tx_db s' = delete_place t p ((tx_db s)\<lparr>photos :=
       (if disp = DeletePhotos then filter (\<lambda>f. \<not> filed_at t p f) (photos (tx_db s)) else photos (tx_db s))\<rparr>)"
proof -
  from assms obtain s1 gone s2 where
    pre: "(if disp = DeletePhotos then t_exec (deletePlacesPhotosSQL t p) else t_return ()) s = (Inr (), s1)" and
    del: "t_sql (deletePlaceSQL t p) s1 = (Inr gone, s2)" and "gone \<noteq> 0" and
    doc: "readDocument t s2 = (Inr doc, s')"
    by (auto simp: removePlace_def t_bind_Inr)
  have s1: "tx_db s1 = (tx_db s)\<lparr>photos :=
       (if disp = DeletePhotos then filter (\<lambda>f. \<not> filed_at t p f) (photos (tx_db s)) else photos (tx_db s))\<rparr>"
    using pre by (auto simp: deletePlacesPhotosSQL_def del_rows_def filed_at_def split: if_splits
        dest!: t_exec_Inr)
  from t_sql_cases [OF del] have "gone = length (filter (\<lambda>r. pl_key r = (t, p)) (places (tx_db s1)))"
    "tx_db s2 = delete_place t p (tx_db s1)"
    by (auto simp: deletePlaceSQL_def)
  with \<open>gone \<noteq> 0\<close> readDocument_Inr [OF doc] s1 show ?thesis
    by (force simp: has_place_def filter_empty_conv image_iff)
qed

lemma removePlace_miss:
  assumes "removePlace t p disp s = (Inl ErrNoSuchPlace, s')"
  shows "\<not> has_place (tx_db s) t p"
proof -
  let ?pre = "if disp = DeletePhotos then t_exec (deletePlacesPhotosSQL t p) else t_return ()"
  obtain r0 s0 where pre: "?pre s = (r0, s0)" by (cases "?pre s")
  have "raises (range ErrDB) ?pre" by (simp add: raises_exec raises_return)
  with pre have r0: "r0 \<noteq> Inl ErrNoSuchPlace" by (auto dest: raisesD)
  with assms pre obtain u where "r0 = Inr u" by (cases r0) (auto simp: removePlace_def t_bind_def)
  moreover have "places (tx_db s0) = places (tx_db s)"
  proof -
    have "tx_db s0 = tx_db s \<or> tx_db s0 = (tx_db s)\<lparr>photos := del_rows (\<lambda>f. ph_traveller f = t \<and> ph_place f = Some p) (photos (tx_db s))\<rparr>"
      using pre \<open>r0 = Inr u\<close> by (auto simp: deletePlacesPhotosSQL_def split: if_splits dest!: t_exec_Inr)
    then show ?thesis by auto
  qed
  moreover obtain r1 s1 where sql: "t_sql (deletePlaceSQL t p) s0 = (r1, s1)" by (cases "t_sql (deletePlaceSQL t p) s0")
  have "fst (readDocument t s1) \<noteq> Inl ErrNoSuchPlace"
    using readDocument_raises [of t] by (auto simp: raises_def)
  ultimately show ?thesis
    using assms pre t_sql_cases [OF sql] sql
    by (auto simp: removePlace_def t_bind_def t_lift_def guard_def deletePlaceSQL_def has_place_def
        filter_empty_conv split: prod.splits sum.splits if_splits)
qed

text \<open>C32: Removing a place takes the place and its occasions and nothing of another place. With
  \<open>photos=keep\<close> every photograph stays and those that were filed there are unfiled; with
  \<open>photos=delete\<close> exactly the photographs filed at the place go. No disposition is an error. A
  place that is not in the log is answered by the log as it stands.\<close>

theorem remove_place_exact:
  assumes "RemovePlace t p disp s = (Inr snap, s')"
  shows "disp \<noteq> photosUnspecified \<and>
     (if has_place (tx_db s) t p then
       places (tx_db s') = filter (\<lambda>r. pl_key r \<noteq> (t, p)) (places (tx_db s)) \<and>
       visits (tx_db s') = filter (\<lambda>v. \<not> at_place t p v) (visits (tx_db s)) \<and>
       photos (tx_db s') = map (unfiled_from t p (visits (tx_db s)))
         (if disp = DeletePhotos then filter (\<lambda>f. \<not> filed_at t p f) (photos (tx_db s))
          else photos (tx_db s)) \<and>
       trips (tx_db s') = trips (tx_db s) \<and> trip_cities (tx_db s') = trip_cities (tx_db s) \<and>
       cities (tx_db s') = cities (tx_db s) \<and> walks (tx_db s') = walks (tx_db s) \<and>
       share_links (tx_db s') = share_links (tx_db s) \<and>
       media_objects (tx_db s') = media_objects (tx_db s) \<and>
       version_of (tx_db s) t = Some (snap_Version snap - 1) \<and>
       snap_Document snap = Some (document_of t (tx_db s'))
      else tx_db s' = tx_db s \<and> version_of (tx_db s) t = Some (snap_Version snap) \<and>
       snap_Document snap = Some (document_of t (tx_db s)))"
proof -
  from assms have disp: "disp \<noteq> photosUnspecified" and
    run: "on_miss ErrNoSuchPlace (LogbookRead t (\<lambda>_. True)) whole_log
       (WithTravellerTx t (removePlace t p disp)) s = (Inr snap, s')"
    by (auto simp: RemovePlace_def t_bind_Inr CheckPhotoDisposition_def ParsePhotoDisposition_def)
  from run disp show ?thesis
  proof (cases rule: on_miss_Inr)
    case (hit x)
    obtain doc v where x: "x = (doc, v)" by (cases x)
    from hit(1) x have "wrote t (removePlace t p disp) (tx_db s) doc v (tx_db s')"
      by (auto intro: WithTravellerTx_Inr)
    then obtain s1 s2 where s1: "tx_db s1 = bumped t (tx_db s)"
      and body: "removePlace t p disp s1 = (Inr doc, s2)" and s2: "tx_db s' = tx_db s2"
      and ver: "version_of (tx_db s) t = Some (v - 1)"
      by (auto simp: wrote_def)
    note del = removePlace_Inr [OF body]
    have "has_place (tx_db s) t p" using del s1 by simp
    moreover have "snap = \<lparr>snap_Version = v, snap_Document = Some doc\<rparr>"
      using hit(2) x by (simp add: whole_log_def)
    ultimately show ?thesis
      using del s1 s2 ver disp
      by (simp add: photos_delete_place_map del_rows_def at_place_def)
  next
    case (miss s0)
    from miss(1) obtain s1 s2 where "tx_db s1 = bumped t (tx_db s)"
      "removePlace t p disp s1 = (Inl ErrNoSuchPlace, s2)" "tx_db s0 = tx_db s"
      by (rule WithTravellerTx_Inl) auto
    with removePlace_miss [of t p disp s1 s2] LogbookRead_Inr [OF miss(2)] disp show ?thesis by simp
  qed
qed

theorem remove_place_exact_witness:
  "\<exists>snap s'. RemovePlace ''u1'' ''p1'' KeepPhotos (calm sample) = (Inr snap, s') \<and>
     places (tx_db s') = [] \<and> visits (tx_db s') = [] \<and>
     map (\<lambda>f. (ph_id f, ph_place f, ph_visit f)) (photos (tx_db s')) =
       [(''f1'', None, None), (''f2'', None, None)]"
proof -
  have "\<not> isl (fst (RemovePlace ''u1'' ''p1'' KeepPhotos (calm sample)))" by code_simp
  then obtain snap s' where run: "RemovePlace ''u1'' ''p1'' KeepPhotos (calm sample) = (Inr snap, s')" by (rule ran)
  have "has_place sample ''u1'' ''p1''" by code_simp
  with remove_place_exact [OF run] run show ?thesis
    by simp (simp add: sample_def at_place_def pl_key_def unfiled_from_def filed_to_def)
qed

end
