(* ===== verification/Store_Photo.thy ===== *)
theory Store_Photo
  imports Store_Place
begin

section \<open>Photographs (\<^verbatim>\<open>internal/postgres/photo_store.go\<close>)\<close>

text \<open>
  The note and the create (\<open>PutPhoto\<close>), the delete, \<open>Later\<close> (\<open>SnoozePhotos\<close>) and \<open>Change\<close>
  (\<open>RefilePhoto\<close>). Only the last writes the filing pair \<open>(place_id, visit_id)\<close>, and it writes both
  in one statement. A re-file that opens a new occasion renumbers the place's occasions by time.
\<close>

subsection \<open>Writing a photograph\<close>

record photoBeforeWrite =
  fb_tripID :: id
  fb_cityID :: id
  fb_asset :: digest
  fb_takenAt :: instant
  fb_isCreate :: bool

definition requireWritablePhoto :: "id \<Rightarrow> id \<Rightarrow> photo_write \<Rightarrow> photoBeforeWrite tx" where
  "requireWritablePhoto t i w =
     t_bind (t_query (\<lambda>d. case find_photo d t i of
         None \<Rightarrow> \<lparr>fb_tripID = [], fb_cityID = [], fb_asset = [], fb_takenAt = 0, fb_isCreate = True\<rparr>
       | Some r \<Rightarrow> \<lparr>fb_tripID = ph_trip r, fb_cityID = ph_city r, fb_asset = ph_asset r,
                    fb_takenAt = ph_taken r, fb_isCreate = False\<rparr>)) (\<lambda>before.
     t_bind (t_lift (CheckPhotoWritable (fb_isCreate before) w)) (\<lambda>_. t_return before))"

definition requireTripForPhoto :: "id \<Rightarrow> id \<Rightarrow> unit tx" where
  "requireTripForPhoto t trip = requireRow (\<lambda>d. has_trip d t trip) (InvalidField ''tripId'')"

definition requireCityForPhoto :: "id \<Rightarrow> id \<Rightarrow> unit tx" where
  "requireCityForPhoto t city = requireRow (\<lambda>d. has_city d t city) (InvalidField ''cityId'')"

definition requirePhotoAsset :: "id \<Rightarrow> digest \<Rightarrow> unit tx" where
  "requirePhotoAsset t asset = requireRow (\<lambda>d. committed d t asset) (InvalidField ''asset'')"

definition latOrNil :: "latlng option \<Rightarrow> rat option" where "latOrNil = map_option Lat"
definition lngOrNil :: "latlng option \<Rightarrow> rat option" where "lngOrNil = map_option Lng"

definition proposed_photo ::
  "id \<Rightarrow> id \<Rightarrow> id \<Rightarrow> id \<Rightarrow> instant \<Rightarrow> digest \<Rightarrow> photo_write \<Rightarrow> database \<Rightarrow> photo_row" where
  "proposed_photo t i trip city takenAt asset w d =
     \<lparr>ph_traveller = t, ph_id = i, ph_trip = trip, ph_city = city, ph_place = None, ph_visit = None,
      ph_taken = to_timestamptz d takenAt, ph_asset = asset, ph_caption = StoredCaption (fw_Caption w),
      ph_lat = latOrNil (Value (fw_Coordinates w)), ph_lng = lngOrNil (Value (fw_Coordinates w)),
      ph_accuracy = Value (fw_AccuracyMetres w),
      ph_later = map_option (to_timestamptz d) (Value (fw_FiledLater w))\<rparr>"

definition merge_photo :: "photo_write \<Rightarrow> photo_row \<Rightarrow> photo_row \<Rightarrow> photo_row" where
  "merge_photo w new old = old\<lparr>
     ph_trip := (if fw_TripID w \<noteq> None then ph_trip new else ph_trip old),
     ph_city := (if fw_CityID w \<noteq> None then ph_city new else ph_city old),
     ph_taken := (if fw_TakenAt w \<noteq> None then ph_taken new else ph_taken old),
     ph_asset := (if fw_Asset w \<noteq> None then ph_asset new else ph_asset old),
     ph_caption := (if Sent (fw_Caption w) then ph_caption new else ph_caption old),
     ph_lat := (if Sent (fw_Coordinates w) then ph_lat new else ph_lat old),
     ph_lng := (if Sent (fw_Coordinates w) then ph_lng new else ph_lng old),
     ph_accuracy := (if Sent (fw_AccuracyMetres w) then ph_accuracy new else ph_accuracy old),
     ph_later := (if Sent (fw_FiledLater w) then ph_later new else ph_later old)\<rparr>"

definition upsertPhotoSQL ::
  "id \<Rightarrow> id \<Rightarrow> id \<Rightarrow> id \<Rightarrow> instant \<Rightarrow> digest \<Rightarrow> photo_write \<Rightarrow> database \<Rightarrow> db_error + database" where
  "upsertPhotoSQL t i trip city takenAt asset w d =
     (let new = proposed_photo t i trip city takenAt asset w d
      in if (case ph_accuracy new of None \<Rightarrow> False | Some n \<Rightarrow> \<not> int4 n) then Inl unencodable
         else with_texts [ph_caption new]
                (table_upsert photos (\<lambda>rs. photos_update (\<lambda>_. rs)) ph_key photo_ck photo_fk
                  new (merge_photo w new)) d)"

definition putPhoto :: "id \<Rightarrow> id \<Rightarrow> photo_write \<Rightarrow> photo tx" where
  "putPhoto t i w =
     t_bind (requireWritablePhoto t i w) (\<lambda>before.
     let trip = or_keep (fw_TripID w) (fb_tripID before);
         city = or_keep (fw_CityID w) (fb_cityID before);
         takenAt = or_keep (fw_TakenAt w) (fb_takenAt before);
         asset = or_keep (fw_Asset w) (fb_asset before)
     in t_bind (requireTripForPhoto t trip) (\<lambda>_.
        t_bind (requireCityForPhoto t city) (\<lambda>_.
        t_bind (if fw_Asset w \<noteq> None \<or> fb_isCreate before then requirePhotoAsset t asset
                else t_return ()) (\<lambda>_.
        t_bind (t_exec (upsertPhotoSQL t i trip city takenAt asset w)) (\<lambda>_.
        readOnePhoto t i)))))"

definition PutPhoto :: "id \<Rightarrow> photo_write \<Rightarrow> (photo \<times> int) tx" where
  "PutPhoto t w =
     t_bind (t_lift (CheckWriteID (fw_ID w))) (\<lambda>_.
     WithTravellerTx t (putPhoto t (the (fw_ID w)) w))"

subsection \<open>Deleting\<close>

definition deletePhotoSQL :: "id \<Rightarrow> id \<Rightarrow> nat stmt" where
  "deletePhotoSQL t i d =
     Inr (length (filter (\<lambda>f. ph_key f = (t, i)) (photos d)),
          d\<lparr>photos := del_rows (\<lambda>f. ph_key f = (t, i)) (photos d)\<rparr>)"

definition deletePhoto :: "id \<Rightarrow> id \<Rightarrow> unit tx" where
  "deletePhoto t i =
     t_bind (t_sql (deletePhotoSQL t i)) (\<lambda>gone. t_lift (guard (gone = 0) ErrNoSuchPhoto))"

definition readVersion :: "id \<Rightarrow> int tx" where
  "readVersion t =
     t_bind (LogbookRead t (\<lambda>_. False)) (\<lambda>snap. t_return (snap_Version snap))"

definition DeletePhoto :: "id \<Rightarrow> id \<Rightarrow> int tx" where
  "DeletePhoto t i =
     on_miss ErrNoSuchPhoto (readVersion t) snd (WithTravellerTx t (deletePhoto t i))"

subsection \<open>Later\<close>

definition snoozePhotosSQL :: "id \<Rightarrow> id list \<Rightarrow> instant \<Rightarrow> id list stmt" where
  "snoozePhotosSQL t ids until d =
     Inr (map ph_id (filter (\<lambda>f. ph_traveller f = t \<and> ph_id f \<in> set ids) (photos d)),
          d\<lparr>photos := upd_rows (\<lambda>f. ph_traveller f = t \<and> ph_id f \<in> set ids)
              (\<lambda>f. f\<lparr>ph_later := Some (to_timestamptz d until)\<rparr>) (photos d)\<rparr>)"

fun readEachPhoto :: "id \<Rightarrow> id list \<Rightarrow> photo list tx" where
  "readEachPhoto t [] = t_return []"
| "readEachPhoto t (i # ids) =
     t_bind (readOnePhoto t i) (\<lambda>photo.
     t_bind (readEachPhoto t ids) (\<lambda>rest. t_return (photo # rest)))"

definition snoozePhotos :: "id \<Rightarrow> id list \<Rightarrow> instant \<Rightarrow> photo list tx" where
  "snoozePhotos t ids until =
     t_bind (t_sql (snoozePhotosSQL t ids until)) (\<lambda>moved.
     t_bind (t_lift (guard (moved = []) ErrNothingSnoozed)) (\<lambda>_. readEachPhoto t (sort moved)))"

definition SnoozePhotos :: "id \<Rightarrow> snooze_write \<Rightarrow> (photo list \<times> int) tx" where
  "SnoozePhotos t w =
     t_bind (t_lift (CheckSnoozeWritable w)) (\<lambda>_.
     on_miss ErrNothingSnoozed
       (t_bind (readVersion t) (\<lambda>version. t_return ([], version))) (\<lambda>x. x)
       (WithTravellerTx t (snoozePhotos t (the (sw_PhotoIDs w)) (the (sw_Until w)))))"

subsection \<open>Change\<close>

definition readPhotoForRefile :: "id \<Rightarrow> id \<Rightarrow> (id \<times> id) tx" where
  "readPhotoForRefile t i =
     t_bind (t_query (\<lambda>d. find_photo d t i)) (\<lambda>r.
       t_lift (case r of None \<Rightarrow> Inl ErrNoPhoto | Some f \<Rightarrow> Inr (ph_trip f, ph_city f)))"

definition readPlaceCity :: "id \<Rightarrow> id \<Rightarrow> id tx" where
  "readPlaceCity t p =
     t_bind (t_query (\<lambda>d. find_place d t p)) (\<lambda>r.
       t_lift (case r of None \<Rightarrow> Inl (InvalidField ''placeId'') | Some x \<Rightarrow> Inr (pl_city x)))"

definition next_ordinal :: "id \<Rightarrow> id \<Rightarrow> database \<Rightarrow> int" where
  "next_ordinal t p d = foldr max (map vs_ordinal (occasions d t p)) (- 1) + 1"

definition insertRefiledVisitSQL ::
  "id \<Rightarrow> id \<Rightarrow> id \<Rightarrow> id \<Rightarrow> instant \<Rightarrow> database \<Rightarrow> db_error + database" where
  "insertRefiledVisitSQL t v p trip pt d =
     (let r = \<lparr>vs_traveller = t, vs_id = v, vs_place = p, vs_trip = trip,
               vs_ordinal = next_ordinal t p d, vs_at = to_timestamptz d pt, vs_note = None\<rparr>
      in case bad_visit r of
           Some e \<Rightarrow> Inl e
         | None \<Rightarrow>
             if vs_key r \<in> vs_key ` set (visits d) \<or> vs_slot r \<in> vs_slot ` set (visits d)
             then Inl unique_violation
             else if \<not> visit_fk d r then Inl foreign_key_violation
             else Inr (d\<lparr>visits := visits d @ [r]\<rparr>))"

text \<open>\<open>row_number() OVER (ORDER BY at DESC, id) - 1\<close>.\<close>

definition by_time :: "id \<Rightarrow> id \<Rightarrow> database \<Rightarrow> visit_row list" where
  "by_time t p d = sort_key (\<lambda>v. (- vs_at v, collate d (vs_id v))) (occasions d t p)"

definition position :: "'a list \<Rightarrow> 'a \<Rightarrow> int" where
  "position xs x = int (length (takeWhile (\<lambda>y. y \<noteq> x) xs))"

definition renumberVisitsByTimeSQL :: "id \<Rightarrow> id \<Rightarrow> database \<Rightarrow> db_error + database" where
  "renumberVisitsByTimeSQL t p d =
     (let ranked = map vs_id (by_time t p d)
      in case update_unique vs_slot (\<lambda>v. vs_traveller v = t \<and> vs_id v \<in> set ranked) bad_visit
                (\<lambda>v. v\<lparr>vs_ordinal := position ranked (vs_id v)\<rparr>) [] (visits d) of
           Inl e \<Rightarrow> Inl e | Inr vs \<Rightarrow> Inr (d\<lparr>visits := vs\<rparr>))"

definition renumberVisits :: "id \<Rightarrow> id \<Rightarrow> unit tx" where
  "renumberVisits t p =
     t_bind (t_query (\<lambda>d. length (occasions d t p))) (\<lambda>n.
     t_bind (t_exec (offsetVisitOrdinalsSQL t p n)) (\<lambda>_.
     t_exec (renumberVisitsByTimeSQL t p)))"

record refiling =
  rf_placeID :: id
  rf_visitID :: id
  rf_tripID :: id
  rf_at :: "instant option"

definition requireOrMintOccasion :: "id \<Rightarrow> refiling \<Rightarrow> bool tx" where
  "requireOrMintOccasion t r =
     t_bind (t_query (\<lambda>d. find_visit d t (rf_visitID r))) (\<lambda>held.
     case held of
       None \<Rightarrow>
         t_bind (t_lift (CheckNewOccasionHasAMoment (rf_at r))) (\<lambda>_.
         t_bind (t_exec (insertRefiledVisitSQL t (rf_visitID r) (rf_placeID r) (rf_tripID r)
             (the (rf_at r)))) (\<lambda>_.
         t_bind (renumberVisits t (rf_placeID r)) (\<lambda>_. t_return True)))
     | Some v \<Rightarrow>
         t_bind (t_lift (CheckOccasionBelongsHere (vs_place v) (rf_placeID r) (vs_trip v) (rf_tripID r)))
           (\<lambda>_. t_return False))"

definition refilePhotoSQL :: "id \<Rightarrow> id \<Rightarrow> id \<Rightarrow> id \<Rightarrow> database \<Rightarrow> db_error + database" where
  "refilePhotoSQL t i p v d =
     (if has_photo d t i \<and> \<not> (has_place d t p \<and> has_visit d t v) then Inl foreign_key_violation
      else Inr (d\<lparr>photos := upd_rows (\<lambda>f. ph_key f = (t, i))
             (\<lambda>f. f\<lparr>ph_place := Some p, ph_visit := Some v\<rparr>) (photos d)\<rparr>))"

definition refilePhoto :: "id \<Rightarrow> id \<Rightarrow> refile_write \<Rightarrow> (photo \<times> document option) tx" where
  "refilePhoto t i w =
     (let p = the (rw_PlaceID w); v = the (rw_VisitID w)
      in t_bind (readPhotoForRefile t i) (\<lambda>(trip, city).
         t_bind (readPlaceCity t p) (\<lambda>placeCity.
         t_bind (t_lift (CheckRefilePlace placeCity city)) (\<lambda>_.
         t_bind (requireOrMintOccasion t
             \<lparr>rf_placeID = p, rf_visitID = v, rf_tripID = trip, rf_at = rw_VisitAt w\<rparr>) (\<lambda>minted.
         t_bind (t_exec (refilePhotoSQL t i p v)) (\<lambda>_.
         t_bind (readOnePhoto t i) (\<lambda>photo.
         if minted then t_bind (readDocument t) (\<lambda>doc. t_return (photo, Some doc))
         else t_return (photo, None))))))))"

definition RefilePhoto :: "id \<Rightarrow> id \<Rightarrow> refile_write \<Rightarrow> ((photo \<times> document option) \<times> int) tx" where
  "RefilePhoto t i w =
     t_bind (t_lift (CheckRefileWritable w)) (\<lambda>_. WithTravellerTx t (refilePhoto t i w))"

subsection \<open>Soundness\<close>

lemma upsertPhotoSQL_sound:
  assumes "upsertPhotoSQL t i a b c x w d = Inr d'"
  shows "sound t d d'"
proof -
  have "table_upsert photos (\<lambda>rs. photos_update (\<lambda>_. rs)) ph_key photo_ck photo_fk
      (proposed_photo t i a b c x w d) (merge_photo w (proposed_photo t i a b c x w d)) d = Inr d'"
    using assms by (simp add: upsertPhotoSQL_def Let_def split: if_splits)
  then show ?thesis
    by (rule photo_table.upsert_sound [rotated 2])
      (simp_all add: proposed_photo_def merge_photo_def ph_key_def)
qed

lemma schema_photos:
  assumes "schema_ok d"
  shows "distinct (map ph_key (photos d))" "list_all photo_ck (photos d)" "list_all (photo_fk d) (photos d)"
  using assms by (simp_all add: schema_ok_def unique_ok_def checks_hold_def refs_hold_def)

lemma schema_upd_photos:
  assumes ok: "schema_ok d" and "\<And>f. ph_key (g f) = ph_key f"
    and "\<And>f. f \<in> set (photos d) \<Longrightarrow> q f \<Longrightarrow> photo_ck f \<Longrightarrow> photo_ck (g f)"
    and "\<And>f. f \<in> set (photos d) \<Longrightarrow> q f \<Longrightarrow> photo_fk d f \<Longrightarrow> photo_fk d (g f)"
  shows "schema_ok (d\<lparr>photos := upd_rows q g (photos d)\<rparr>)"
proof (rule schema_set_photos [OF ok])
  show "distinct (map ph_key (upd_rows q g (photos d)))"
    using schema_photos(1) [OF ok] assms(2) by (simp add: map_upd_rows)
  show "list_all photo_ck (upd_rows q g (photos d))"
    using schema_photos(2) [OF ok] assms(3) by (rule list_all_upd_rows)
  show "list_all (photo_fk d) (upd_rows q g (photos d))"
    using schema_photos(3) [OF ok] assms(4) by (rule list_all_upd_rows)
qed

lemma schema_add_visit:
  assumes ok: "schema_ok d" and "visit_ck r" "visit_fk d r"
    "vs_key r \<notin> vs_key ` set (visits d)" "vs_slot r \<notin> vs_slot ` set (visits d)"
  shows "schema_ok (d\<lparr>visits := visits d @ [r]\<rparr>)"
  using assms schema_visits [OF ok] by (intro schema_set_visits) auto

lemma insertRefiledVisitSQL_ok:
  assumes "insertRefiledVisitSQL t v p trip pt d = Inr d'"
  obtains r where "d' = d\<lparr>visits := visits d @ [r]\<rparr>" "visit_ck r" "visit_fk d r"
    "vs_key r \<notin> vs_key ` set (visits d)" "vs_slot r \<notin> vs_slot ` set (visits d)"
    "vs_key r = (t, v)" "vs_place r = p" "vs_trip r = trip" "vs_at r = to_timestamptz d pt"
    "vs_note r = None"
  using assms
  by (auto simp: insertRefiledVisitSQL_def Let_def bad_visit_def vs_key_def
      split: if_splits option.splits)

lemma insertRefiledVisitSQL_sound:
  assumes "insertRefiledVisitSQL t v p trip pt d = Inr d'"
  shows "sound t d d'"
  using assms
proof (rule insertRefiledVisitSQL_ok)
  fix r assume r: "d' = d\<lparr>visits := visits d @ [r]\<rparr>" "visit_ck r" "visit_fk d r"
    "vs_key r \<notin> vs_key ` set (visits d)" "vs_slot r \<notin> vs_slot ` set (visits d)" "vs_key r = (t, v)"
  then show ?thesis
    by (auto intro!: soundI frame_tables schema_add_visit simp: same_travellers_def vs_key_def)
qed

lemma update_visits_sound:
  assumes up: "update_unique vs_slot q bad_visit g [] (visits d) = Inr vs"
    and q: "\<And>v. q v \<Longrightarrow> vs_traveller v = t"
    and g: "\<And>v. vs_key (g v) = vs_key v \<and> vs_place (g v) = vs_place v \<and> vs_trip (g v) = vs_trip v"
  shows "sound t d (d\<lparr>visits := vs\<rparr>)"
proof -
  have vs: "vs = upd_rows q g (visits d)" using update_unique_ok [OF up] by simp
  have trav: "vs_traveller (g v) = vs_traveller v" for v using g [of v] by (simp add: vs_key_def)
  show ?thesis
  proof (rule soundI)
    show "frame t d (d\<lparr>visits := vs\<rparr>)"
      unfolding vs using q trav by (intro frame_tables filter_upd_rows_other) auto
    show "same_travellers d (d\<lparr>visits := vs\<rparr>)" by (simp add: same_travellers_def)
    assume ok: "schema_ok d"
    have keys: "map vs_key vs = map vs_key (visits d)" unfolding vs using g by (simp add: map_upd_rows)
    have "visit_ck (g v)" if "v \<in> set (visits d)" "q v" for v
      using update_unique_bad [OF up that] by (simp add: bad_visit_def split: if_splits)
    then have "list_all visit_ck vs" unfolding vs
      by (intro list_all_upd_rows [OF schema_visits(3) [OF ok]])
    moreover have "list_all (visit_fk d) vs" unfolding vs
      by (rule list_all_upd_rows [OF schema_visits(4) [OF ok]]) (use g trav in \<open>simp add: visit_fk_def\<close>)
    moreover have "vs_key ` set (visits d) \<subseteq> vs_key ` set vs"
      using arg_cong [OF keys, of set] by (simp only: set_map order_refl)
    moreover have "distinct (map vs_slot vs)"
      using update_unique_distinct [OF up] schema_visits(2) [OF ok] by simp
    moreover have "distinct (map vs_key vs)" using keys schema_visits(1) [OF ok] by simp
    ultimately show "schema_ok (d\<lparr>visits := vs\<rparr>)" using ok by (intro schema_set_visits)
  qed
qed

lemma renumberVisitsByTimeSQL_sound: "renumberVisitsByTimeSQL t p d = Inr d' \<Longrightarrow> sound t d d'"
  unfolding renumberVisitsByTimeSQL_def Let_def
  by (auto split: sum.splits intro!: update_visits_sound [where t = t] simp: vs_key_def)

lemma refilePhotoSQL_sound: "refilePhotoSQL t i p v d = Inr d' \<Longrightarrow> sound t d d'"
proof -
  assume run: "refilePhotoSQL t i p v d = Inr d'"
  let ?g = "\<lambda>f. f\<lparr>ph_place := Some p, ph_visit := Some v\<rparr>"
  have d': "d' = d\<lparr>photos := upd_rows (\<lambda>f. ph_key f = (t, i)) ?g (photos d)\<rparr>"
    and refs: "has_photo d t i \<Longrightarrow> has_place d t p \<and> has_visit d t v"
    using run by (auto simp: refilePhotoSQL_def split: if_splits)
  have "photo_fk d (?g f)" if "f \<in> set (photos d)" "ph_key f = (t, i)" "photo_fk d f" for f
  proof -
    have "has_photo d t i" using that(1,2) by (auto simp: has_photo_def image_iff intro: sym)
    with refs that show ?thesis by (simp add: photo_fk_def ref_def ph_key_def)
  qed
  then show "sound t d d'" unfolding d'
    by (intro soundI frame_tables filter_upd_rows_other schema_upd_photos)
      (auto simp: same_travellers_def ph_key_def photo_ck_def)
qed

lemma photo_statements_sound [rel_intros]:
  "tx_rel (sound t) (t_exec (upsertPhotoSQL t i a b c x w))"
  "tx_rel (sound t) (t_sql (deletePhotoSQL t i))"
  "tx_rel (sound t) (t_sql (snoozePhotosSQL t ids until))"
  "tx_rel (sound t) (t_exec (insertRefiledVisitSQL t v p trip pt))"
  "tx_rel (sound t) (t_exec (renumberVisitsByTimeSQL t p))"
  "tx_rel (sound t) (t_exec (refilePhotoSQL t i p v))"
proof -
  show "tx_rel (sound t) (t_sql (deletePhotoSQL t i))"
    by (rule sound.rel_sql) (auto simp: deletePhotoSQL_def same_travellers_def ph_key_def
        intro!: soundI frame_tables filter_del_rows_other schema_del_photos)
  show "tx_rel (sound t) (t_sql (snoozePhotosSQL t ids until))"
    by (rule sound.rel_sql) (auto simp: snoozePhotosSQL_def same_travellers_def photo_ck_def photo_fk_def
        intro!: soundI frame_tables filter_upd_rows_other schema_upd_photos)
qed (auto intro: sound.rel_exec upsertPhotoSQL_sound insertRefiledVisitSQL_sound
    renumberVisitsByTimeSQL_sound refilePhotoSQL_sound)

lemma readEachPhoto_sound [rel_intros]: "tx_rel (sound u) (readEachPhoto t ids)"
  by (induction ids) (simp_all add: sound.rel_return sound.rel_bind requires_sound)

lemma putPhoto_sound: "tx_rel (sound t) (putPhoto t i w)"
  unfolding putPhoto_def requireWritablePhoto_def requireTripForPhoto_def requireCityForPhoto_def
    requirePhotoAsset_def Let_def
  by (intro rel_intros)

lemma PutPhoto_write: "write_op t (PutPhoto t w)"
  unfolding PutPhoto_def by (intro write_op_guarded write_op_tx putPhoto_sound)

lemma readVersion_db [simp]: "tx_db (snd (readVersion t s)) = tx_db s"
  using LogbookRead_db [of t "\<lambda>_. False" s]
  by (auto simp: readVersion_def t_bind_def t_return_def split: prod.splits sum.splits)

lemma DeletePhoto_write: "write_op t (DeletePhoto t i)"
  unfolding DeletePhoto_def deletePhoto_def
  by (intro on_miss_write write_op_tx rel_intros readVersion_db) auto

lemma SnoozePhotos_write: "write_op t (SnoozePhotos t w)"
proof -
  have "tx_db (snd (t_bind (readVersion t) (\<lambda>version. t_return ([], version)) s)) = tx_db s" for s
  proof -
    obtain r s1 where r: "readVersion t s = (r, s1)" by (cases "readVersion t s")
    then have "tx_db s1 = tx_db s" using readVersion_db [of t s] by (metis snd_conv)
    with r show ?thesis by (cases r) (simp_all add: t_bind_def t_return_def)
  qed
  then show ?thesis
    unfolding SnoozePhotos_def snoozePhotos_def
    by (intro write_op_guarded on_miss_write write_op_tx rel_intros) auto
qed

lemma refilePhoto_sound: "tx_rel (sound t) (refilePhoto t i w)"
  unfolding refilePhoto_def readPhotoForRefile_def readPlaceCity_def requireOrMintOccasion_def
    renumberVisits_def Let_def
  by (intro rel_intros)

lemma RefilePhoto_write: "write_op t (RefilePhoto t i w)"
  unfolding RefilePhoto_def by (intro write_op_guarded write_op_tx refilePhoto_sound)

subsection \<open>What a photograph write did\<close>

definition stored_photo :: "database \<Rightarrow> photo_write \<Rightarrow> photo_row option \<Rightarrow> photo_row \<Rightarrow> bool" where
  "stored_photo d w old new \<longleftrightarrow>
     (case old of
        None \<Rightarrow> Some (ph_trip new) = fw_TripID w \<and> Some (ph_city new) = fw_CityID w \<and>
          Some (ph_taken new) = map_option (to_timestamptz d) (fw_TakenAt w) \<and>
          Some (ph_asset new) = fw_Asset w \<and> ph_caption new = StoredCaption (fw_Caption w) \<and>
          ph_lat new = latOrNil (Value (fw_Coordinates w)) \<and>
          ph_lng new = lngOrNil (Value (fw_Coordinates w)) \<and>
          ph_accuracy new = Value (fw_AccuracyMetres w) \<and>
          ph_later new = map_option (to_timestamptz d) (Value (fw_FiledLater w)) \<and>
          ph_place new = None \<and> ph_visit new = None
      | Some r \<Rightarrow> ph_trip new = or_keep (fw_TripID w) (ph_trip r) \<and>
          ph_city new = or_keep (fw_CityID w) (ph_city r) \<and>
          ph_taken new = or_keep (map_option (to_timestamptz d) (fw_TakenAt w)) (ph_taken r) \<and>
          ph_asset new = or_keep (fw_Asset w) (ph_asset r) \<and>
          ph_caption new = (if Sent (fw_Caption w) then StoredCaption (fw_Caption w) else ph_caption r) \<and>
          ph_lat new = or_keep (map_option latOrNil (fw_Coordinates w)) (ph_lat r) \<and>
          ph_lng new = or_keep (map_option lngOrNil (fw_Coordinates w)) (ph_lng r) \<and>
          ph_accuracy new = or_keep (fw_AccuracyMetres w) (ph_accuracy r) \<and>
          ph_later new = or_keep (map_option (map_option (to_timestamptz d)) (fw_FiledLater w)) (ph_later r) \<and>
          ph_place new = ph_place r \<and> ph_visit new = ph_visit r)"

lemma upsertPhotoSQL_ok:
  assumes "upsertPhotoSQL t i a b c x w d = Inr d'"
  obtains r where "d' = d\<lparr>photos := put_row ph_key r (photos d)\<rparr>" "ph_key r = (t, i)"
    "r = (case find_photo d t i of None \<Rightarrow> proposed_photo t i a b c x w d
            | Some old \<Rightarrow> merge_photo w (proposed_photo t i a b c x w d) old)"
proof -
  have "table_upsert photos (\<lambda>rs. photos_update (\<lambda>_. rs)) ph_key photo_ck photo_fk
       (proposed_photo t i a b c x w d) (merge_photo w (proposed_photo t i a b c x w d)) d = Inr d'"
    using assms by (simp add: upsertPhotoSQL_def Let_def split: if_splits)
  then show thesis
  proof (rule photo_table.table_upsert_ok)
    show "ph_key (merge_photo w (proposed_photo t i a b c x w d) old) = ph_key (proposed_photo t i a b c x w d)"
      if "ph_key old = ph_key (proposed_photo t i a b c x w d)" for old
      using that by (simp add: merge_photo_def ph_key_def)
  qed (use that in \<open>simp add: find_photo_def proposed_photo_def ph_key_def\<close>)
qed

lemma readOnePhoto_Inr:
  assumes "readOnePhoto t i s = (Inr f, s')"
  obtains r where "find_photo (tx_db s) t i = Some r" "f = scan_photo r" "tx_db s' = tx_db s"
  using assms by (cases "find_photo (tx_db s) t i")
    (auto simp: readOnePhoto_def t_bind_Inr dest!: t_query_Inr)

lemma putPhoto_Inr:
  assumes "putPhoto t i w s = (Inr f, s')"
  obtains r where "stored_photo (tx_db s) w (find_photo (tx_db s) t i) r" "ph_key r = (t, i)"
    "f = scan_photo r" "tx_db s' = (tx_db s)\<lparr>photos := put_row ph_key r (photos (tx_db s))\<rparr>"
    "\<forall>a. fw_Asset w = Some a \<longrightarrow> committed (tx_db s) t a"
proof -
  let ?before = "case find_photo (tx_db s) t i of
         None \<Rightarrow> \<lparr>fb_tripID = [], fb_cityID = [], fb_asset = [], fb_takenAt = 0, fb_isCreate = True\<rparr>
       | Some r \<Rightarrow> \<lparr>fb_tripID = ph_trip r, fb_cityID = ph_city r, fb_asset = ph_asset r,
                    fb_takenAt = ph_taken r, fb_isCreate = False\<rparr>"
  let ?a = "or_keep (fw_TripID w) (fb_tripID ?before)"
  let ?b = "or_keep (fw_CityID w) (fb_cityID ?before)"
  let ?c = "or_keep (fw_TakenAt w) (fb_takenAt ?before)"
  let ?x = "or_keep (fw_Asset w) (fb_asset ?before)"
  from assms obtain s1 s2 s3 s4 s5 where
    chk: "CheckPhotoWritable (fb_isCreate ?before) w = Inr ()" "tx_db s1 = tx_db s" and
    trip: "requireTripForPhoto t ?a s1 = (Inr (), s2)" and
    city: "requireCityForPhoto t ?b s2 = (Inr (), s3)" and
    asset: "(if fw_Asset w \<noteq> None \<or> fb_isCreate ?before then requirePhotoAsset t ?x
                else t_return ()) s3 = (Inr (), s4)" and
    put: "t_exec (upsertPhotoSQL t i ?a ?b ?c ?x w) s4 = (Inr (), s5)" and
    reread: "readOnePhoto t i s5 = (Inr f, s')"
    unfolding putPhoto_def requireWritablePhoto_def Let_def t_bind_Inr by (auto dest!: t_query_Inr)
  have s3: "tx_db s3 = tx_db s"
    using trip city chk(2)
    by (auto simp: requireTripForPhoto_def requireCityForPhoto_def dest!: requireRow_Inr)
  have s4: "tx_db s4 = tx_db s" "fw_Asset w \<noteq> None \<longrightarrow> committed (tx_db s) t ?x"
    using asset s3 by (auto simp: requirePhotoAsset_def split: if_splits dest!: requireRow_Inr)
  have "upsertPhotoSQL t i ?a ?b ?c ?x w (tx_db s) = Inr (tx_db s5)"
    using t_exec_Inr [OF put] s4 by simp
  then obtain r where r: "tx_db s5 = (tx_db s)\<lparr>photos := put_row ph_key r (photos (tx_db s))\<rparr>"
    "ph_key r = (t, i)" "r = (case find_photo (tx_db s) t i of
        None \<Rightarrow> proposed_photo t i ?a ?b ?c ?x w (tx_db s)
      | Some old \<Rightarrow> merge_photo w (proposed_photo t i ?a ?b ?c ?x w (tx_db s)) old)"
    by (rule upsertPhotoSQL_ok)
  have stored: "stored_photo (tx_db s) w (find_photo (tx_db s) t i) r"
    using r(3) chk(1)
    by (auto simp: stored_photo_def proposed_photo_def merge_photo_def Sent_def Value_def or_keep_def
        CheckPhotoWritable_def firstMissing_def split: option.splits)
  from reread obtain row where row: "find_photo (tx_db s5) t i = Some row" "f = scan_photo row"
    "tx_db s' = tx_db s5" by (rule readOnePhoto_Inr)
  have "row = r" using row(1) r(1,2) by (simp add: find_photo_def find_put_row)
  moreover have "\<forall>a. fw_Asset w = Some a \<longrightarrow> committed (tx_db s) t a" using s4(2) by auto
  ultimately show thesis using that [OF stored r(2)] row r(1) by simp
qed

text \<open>A photograph write that succeeds stores each field by the pointer contract, refers only to
  a committed object when it names one, and never touches the filing pair, other photographs or
  any other table.\<close>

theorem put_photo_effect:
  assumes "PutPhoto t w s = (Inr (f, v), s')" "fw_ID w = Some i"
  shows "(\<exists>r. find_photo (tx_db s') t i = Some r \<and> f = scan_photo r \<and>
       stored_photo (tx_db s) w (find_photo (tx_db s) t i) r) \<and>
     (\<forall>j. j \<noteq> i \<longrightarrow> find_photo (tx_db s') t j = find_photo (tx_db s) t j) \<and>
     (\<forall>a. fw_Asset w = Some a \<longrightarrow> committed (tx_db s) t a) \<and>
     visits (tx_db s') = visits (tx_db s) \<and> places (tx_db s') = places (tx_db s) \<and>
     trips (tx_db s') = trips (tx_db s) \<and> trip_cities (tx_db s') = trip_cities (tx_db s) \<and>
     cities (tx_db s') = cities (tx_db s) \<and> walks (tx_db s') = walks (tx_db s) \<and>
     share_links (tx_db s') = share_links (tx_db s) \<and>
     media_objects (tx_db s') = media_objects (tx_db s) \<and>
     version_of (tx_db s') t = Some v"
proof -
  from assms have "WithTravellerTx t (putPhoto t i w) s = (Inr (f, v), s')"
    by (simp add: PutPhoto_def t_bind_Inr)
  then have wrote: "wrote t (putPhoto t i w) (tx_db s) f v (tx_db s')" by (rule WithTravellerTx_Inr)
  then obtain s1 s2 where s1: "tx_db s1 = bumped t (tx_db s)"
    and run: "putPhoto t i w s1 = (Inr f, s2)" and s2: "tx_db s' = tx_db s2"
    by (auto simp: wrote_def)
  from run obtain r where r: "stored_photo (tx_db s1) w (find_photo (tx_db s1) t i) r" "ph_key r = (t, i)"
    "f = scan_photo r" "tx_db s2 = (tx_db s1)\<lparr>photos := put_row ph_key r (photos (tx_db s1))\<rparr>"
    "\<forall>a. fw_Asset w = Some a \<longrightarrow> committed (tx_db s1) t a"
    by (rule putPhoto_Inr)
  have "find_photo (tx_db s') t j = (if j = i then Some r else find_photo (tx_db s) t j)" for j
    using r(2,4) s1 s2 by (auto simp: find_photo_def find_put_row)
  moreover have "stored_photo (tx_db s) w (find_photo (tx_db s) t i) r"
    using r(1) s1 by (simp add: stored_photo_def find_photo_def split: option.splits)
  ultimately show ?thesis
    using r(3,4,5) s1 s2 wrote_advances [OF putPhoto_sound wrote] by simp
qed

definition sample_photo_write :: photo_write where
  "sample_photo_write = \<lparr>fw_ID = Some ''f1'', fw_TripID = Some ''t2'', fw_CityID = None,
     fw_TakenAt = None, fw_Asset = None, fw_Caption = Some (Some '' tram ''), fw_Coordinates = None,
     fw_AccuracyMetres = None, fw_FiledLater = None\<rparr>"

theorem put_photo_effect_witness:
  "\<exists>f v s'. PutPhoto ''u1'' sample_photo_write (calm sample) = (Inr (f, v), s') \<and>
     (\<exists>r. find_photo (tx_db s') ''u1'' ''f1'' = Some r \<and> ph_caption r = Some ''tram'' \<and>
        ph_place r = Some ''p1'')"
proof -
  have "\<not> isl (fst (PutPhoto ''u1'' sample_photo_write (calm sample)))" by code_simp
  then obtain x s' where run: "PutPhoto ''u1'' sample_photo_write (calm sample) = (Inr x, s')" by (rule ran)
  obtain f v where x: "x = (f, v)" by (cases x)
  have "map_option ph_place (find_photo sample ''u1'' ''f1'') = Some (Some ''p1'')"
    "StoredCaption (fw_Caption sample_photo_write) = Some ''tram''" by code_simp+
  with put_photo_effect [of "''u1''" sample_photo_write "calm sample" f v s' "''f1''"] run x
  show ?thesis by (auto simp: sample_photo_write_def stored_photo_def)
qed

text \<open>A photograph may be moved to another trip while it stays filed to an occasion of its old
  one; deleting the old trip then takes the occasion and leaves the photograph naming a place with
  no occasion, the state the place store refuses to create by its own route.\<close>

theorem moved_photo_loses_occasion:
  "case PutPhoto ''u1'' sample_photo_write (calm sample) of
     (Inr _, s1) \<Rightarrow>
       (case DeleteTrip ''u1'' ''t1'' s1 of
          (Inr _, s2) \<Rightarrow>
            map_option (\<lambda>f. (ph_place f, ph_visit f)) (find_photo (tx_db s2) ''u1'' ''f1'') =
              Some (Some ''p1'', None)
        | _ \<Rightarrow> False)
   | _ \<Rightarrow> False"
  by code_simp

subsection \<open>What a snooze did\<close>

lemma find_photo_key: "find_photo d t i = Some r \<Longrightarrow> ph_id r = i \<and> ph_traveller r = t \<and> r \<in> set (photos d)"
  by (auto simp: find_photo_def ph_key_def dest!: find_SomeD)

lemma readEachPhoto_Inr:
  assumes "readEachPhoto t ids s = (Inr fs, s')"
  shows "tx_db s' = tx_db s \<and> map photo_ID fs = ids \<and>
     (\<forall>f \<in> set fs. \<exists>r \<in> set (photos (tx_db s)). ph_traveller r = t \<and> f = scan_photo r)"
  using assms
proof (induction ids arbitrary: s fs)
  case (Cons i ids)
  then obtain f s1 rest where one: "readOnePhoto t i s = (Inr f, s1)"
    and more: "readEachPhoto t ids s1 = (Inr rest, s')" and fs: "fs = f # rest"
    by (auto simp: t_bind_Inr)
  from one obtain r where "find_photo (tx_db s) t i = Some r" "f = scan_photo r" "tx_db s1 = tx_db s"
    by (rule readOnePhoto_Inr)
  with Cons.IH [OF more] fs find_photo_key show ?case by (force simp: scan_photo_def)
qed simp

definition snoozed :: "database \<Rightarrow> id \<Rightarrow> id list \<Rightarrow> instant \<Rightarrow> photo_row \<Rightarrow> photo_row" where
  "snoozed d t ids until f =
     (if ph_traveller f = t \<and> ph_id f \<in> set ids then f\<lparr>ph_later := Some (to_timestamptz d until)\<rparr> else f)"

lemma snoozePhotos_miss:
  assumes "snoozePhotos t ids until s = (Inl ErrNothingSnoozed, s')"
  shows "filter (\<lambda>f. ph_traveller f = t \<and> ph_id f \<in> set ids) (photos (tx_db s)) = []"
proof -
  obtain r s1 where sql: "t_sql (snoozePhotosSQL t ids until) s = (r, s1)"
    by (cases "t_sql (snoozePhotosSQL t ids until) s")
  have "raises (insert ErrNoPhoto (range ErrDB)) (readEachPhoto t xs)" for xs
    by (induction xs) (auto simp: readOnePhoto_def intro!: raises_intros split: option.splits)
  then have "readEachPhoto t xs s1 \<noteq> (Inl ErrNothingSnoozed, s2)" for xs s1 s2
    by (auto dest: raisesD)
  with assms t_sql_cases [OF sql] sql show ?thesis
    by (auto simp: snoozePhotos_def t_bind_def t_lift_def guard_def snoozePhotosSQL_def
        split: prod.splits sum.splits if_splits)
qed

lemma snoozePhotos_Inr:
  assumes "snoozePhotos t ids until s1 = (Inr fs, s2)"
  shows "photos (tx_db s2) = map (snoozed (tx_db s1) t ids until) (photos (tx_db s1))"
    "map photo_ID fs =
       sort (map ph_id (filter (\<lambda>f. ph_traveller f = t \<and> ph_id f \<in> set ids) (photos (tx_db s1))))"
    "\<forall>f \<in> set fs. photo_FiledLater f = Some (to_timestamptz (tx_db s1) until)" "fs \<noteq> []"
proof -
  from assms obtain moved s3 where sql: "t_sql (snoozePhotosSQL t ids until) s1 = (Inr moved, s3)"
    and ne: "moved \<noteq> []" and reread: "readEachPhoto t (sort moved) s3 = (Inr fs, s2)"
    by (auto simp: snoozePhotos_def t_bind_Inr)
  from t_sql_cases [OF sql] have
    moved: "moved = map ph_id (filter (\<lambda>f. ph_traveller f = t \<and> ph_id f \<in> set ids) (photos (tx_db s1)))"
    and s3: "photos (tx_db s3) = map (snoozed (tx_db s1) t ids until) (photos (tx_db s1))"
    by (auto simp: snoozePhotosSQL_def snoozed_def upd_rows_def)
  note answered = readEachPhoto_Inr [OF reread]
  have "photo_FiledLater f = Some (to_timestamptz (tx_db s1) until)" if "f \<in> set fs" for f
  proof -
    from answered that obtain r where r: "r \<in> set (photos (tx_db s3))" "ph_traveller r = t" "f = scan_photo r"
      by blast
    have "photo_ID f \<in> set (map photo_ID fs)" using that by simp
    then have "ph_id r \<in> set moved" using answered r(3) by (simp add: scan_photo_def)
    then have "ph_id r \<in> set ids" using moved by auto
    moreover from r(1) s3 obtain f0 where "r = snoozed (tx_db s1) t ids until f0" by auto
    ultimately show ?thesis using r(2,3) by (simp add: snoozed_def scan_photo_def split: if_splits)
  qed
  then show "\<forall>f \<in> set fs. photo_FiledLater f = Some (to_timestamptz (tx_db s1) until)" by blast
  have "length fs = length moved" using answered by (metis length_map length_sort)
  with ne show "fs \<noteq> []" by auto
  show "photos (tx_db s2) = map (snoozed (tx_db s1) t ids until) (photos (tx_db s1))"
    "map photo_ID fs =
       sort (map ph_id (filter (\<lambda>f. ph_traveller f = t \<and> ph_id f \<in> set ids) (photos (tx_db s1))))"
    using answered s3 moved by simp_all
qed

lemma snoozed_bumped: "snoozed (bumped t d) = snoozed d"
  by (simp add: fun_eq_iff snoozed_def)

text \<open>\<open>Later\<close> sets the date on exactly the photographs of the group that are in the log, in one
  version, and answers them in the byte order of their ids; when none is in the log nothing
  changes and the version stays.\<close>

theorem snooze_effect:
  assumes "SnoozePhotos t w s = (Inr (fs, v), s')" "sw_PhotoIDs w = Some ids" "sw_Until w = Some until"
  shows "photos (tx_db s') = map (snoozed (tx_db s) t ids until) (photos (tx_db s)) \<and>
     map photo_ID fs =
       sort (map ph_id (filter (\<lambda>f. ph_traveller f = t \<and> ph_id f \<in> set ids) (photos (tx_db s)))) \<and>
     (\<forall>f \<in> set fs. photo_FiledLater f = Some (to_timestamptz (tx_db s) until)) \<and>
     (if fs = [] then tx_db s' = tx_db s \<and> version_of (tx_db s) t = Some v
      else version_of (tx_db s) t = Some (v - 1) \<and> version_of (tx_db s') t = Some v)"
proof -
  let ?hit = "\<lambda>f. ph_traveller f = t \<and> ph_id f \<in> set ids"
  from assms have "on_miss ErrNothingSnoozed (t_bind (readVersion t) (\<lambda>version. t_return ([], version))) (\<lambda>x. x)
       (WithTravellerTx t (snoozePhotos t ids until)) s = (Inr (fs, v), s')"
    by (simp add: SnoozePhotos_def t_bind_Inr)
  then show ?thesis
  proof (cases rule: on_miss_Inr)
    case (hit x)
    then have wrote: "wrote t (snoozePhotos t ids until) (tx_db s) fs v (tx_db s')"
      by (auto intro: WithTravellerTx_Inr)
    then obtain s1 s2 where s1: "tx_db s1 = bumped t (tx_db s)"
      and run: "snoozePhotos t ids until s1 = (Inr fs, s2)" and s2: "tx_db s' = tx_db s2"
      by (auto simp: wrote_def)
    have "tx_rel (sound t) (snoozePhotos t ids until)"
      unfolding snoozePhotos_def by (intro rel_intros)
    note wrote_advances [OF this wrote]
    with snoozePhotos_Inr [OF run] s1 s2 show ?thesis by (simp add: snoozed_bumped)
  next
    case (miss s0)
    from miss(1) obtain s1 s2 where s1: "tx_db s1 = bumped t (tx_db s)"
      and body: "snoozePhotos t ids until s1 = (Inl ErrNothingSnoozed, s2)" and s0: "tx_db s0 = tx_db s"
      by (rule WithTravellerTx_Inl) auto
    from snoozePhotos_miss [OF body] s1 have none: "filter ?hit (photos (tx_db s)) = []" by simp
    then have "map (snoozed (tx_db s) t ids until) (photos (tx_db s)) = photos (tx_db s)"
      by (intro map_idI) (auto simp: snoozed_def filter_empty_conv)
    moreover have "fs = [] \<and> tx_db s' = tx_db s \<and> version_of (tx_db s) t = Some v"
      using miss(2) s0
      by (auto simp: t_bind_Inr readVersion_def LogbookRead_def WithReadSnapshot_def
          split: prod.splits option.splits dest!: t_query_Inr)
    ultimately show ?thesis using none by simp
  qed
qed

theorem snooze_effect_witness:
  "\<exists>fs v s'. SnoozePhotos ''u1'' \<lparr>sw_PhotoIDs = Some [''f2'', ''f1'', ''zz''], sw_Until = Some 7777\<rparr> (calm sample) =
       (Inr (fs, v), s') \<and> map photo_ID fs = [''f1'', ''f2''] \<and>
     map ph_later (photos (tx_db s')) = [Some 7000, Some 7000]"
proof -
  let ?w = "\<lparr>sw_PhotoIDs = Some [''f2'', ''f1'', ''zz''], sw_Until = Some 7777\<rparr>"
  have "\<not> isl (fst (SnoozePhotos ''u1'' ?w (calm sample)))" by code_simp
  then obtain x s' where run: "SnoozePhotos ''u1'' ?w (calm sample) = (Inr x, s')" by (rule ran)
  obtain fs v where x: "x = (fs, v)" by (cases x)
  have "sort (map ph_id (filter (\<lambda>f. ph_traveller f = ''u1'' \<and> ph_id f \<in> set [''f2'', ''f1'', ''zz''])
      (photos sample))) = [''f1'', ''f2'']" by code_simp
  with snooze_effect [of "''u1''" ?w "calm sample" fs v s' "[''f2'', ''f1'', ''zz'']" 7777] run x
  show ?thesis by simp (simp add: sample_def snoozed_def)
qed

subsection \<open>What a re-file did\<close>

lemma position_nth: "distinct xs \<Longrightarrow> n < length xs \<Longrightarrow> position xs (xs ! n) = int n"
proof -
  assume "distinct xs" "n < length xs"
  then have "takeWhile (\<lambda>y. y \<noteq> xs ! n) xs = take n xs"
    by (intro takeWhile_eq_take_P_nth) (auto simp: nth_eq_iff_index_eq)
  with \<open>n < length xs\<close> show ?thesis by (simp add: position_def)
qed

lemma occasion_ids_distinct:
  assumes "distinct (map vs_key (visits d))"
  shows "distinct (map vs_id (occasions d t p))"
proof -
  have "inj_on vs_id (set (occasions d t p))"
    using assms unfolding distinct_map inj_on_def
    by (auto simp: occasions_def vs_key_def)
  with assms show ?thesis by (simp add: distinct_map occasions_def)
qed

lemma occasions_upd:
  assumes "visits d' = upd_rows q g (visits d)"
    and "\<And>v. v \<in> set (visits d) \<Longrightarrow> q v \<longleftrightarrow> at_place t p v"
    and "\<And>v. at_place t p v \<Longrightarrow> at_place t p (g v)"
  shows "occasions d' t p = map g (occasions d t p)"
proof -
  have "(\<forall>v \<in> set vs. q v \<longleftrightarrow> at_place t p v) \<Longrightarrow>
      filter (at_place t p) (upd_rows q g vs) = map g (filter (at_place t p) vs)" for vs
    using assms(3) by (induction vs) (auto simp: upd_rows_def)
  moreover have "occasions e t p = filter (at_place t p) (visits e)" for e
    by (simp add: occasions_def at_place_def [abs_def])
  ultimately show ?thesis using assms(1,2) by simp
qed

text \<open>Renumbering puts the occasions of the place in the order of \<open>by_time\<close>.\<close>

lemma renumber_ok:
  assumes run: "renumberVisitsByTimeSQL t p d = Inr d'" and keys: "distinct (map vs_key (visits d))"
  shows "visit_list d' t p = map scan_visit (by_time t p d)"
    and "\<exists>vs. d' = d\<lparr>visits := vs\<rparr> \<and> map vs_key vs = map vs_key (visits d) \<and>
       (\<forall>q. filter (\<lambda>v. \<not> at_place t p v \<and> q v) vs = filter (\<lambda>v. \<not> at_place t p v \<and> q v) (visits d)) \<and>
       (\<forall>v \<in> set vs. \<exists>v0 \<in> set (visits d).
          vs_key v = vs_key v0 \<and> vs_place v = vs_place v0 \<and> vs_trip v = vs_trip v0)"
proof -
  let ?ranked = "map vs_id (by_time t p d)"
  let ?q = "\<lambda>v. vs_traveller v = t \<and> vs_id v \<in> set ?ranked"
  let ?g = "\<lambda>v. v\<lparr>vs_ordinal := position ?ranked (vs_id v)\<rparr>"
  from run obtain vs where up: "update_unique vs_slot ?q bad_visit ?g [] (visits d) = Inr vs"
    and d': "d' = d\<lparr>visits := vs\<rparr>"
    by (auto simp: renumberVisitsByTimeSQL_def Let_def split: sum.splits)
  have vs: "vs = upd_rows ?q ?g (visits d)" using update_unique_ok [OF up] by simp
  have mine: "?q v \<longleftrightarrow> at_place t p v" if "v \<in> set (visits d)" for v
  proof
    assume "?q v"
    then obtain x where x: "x \<in> set (occasions d t p)" "vs_id x = vs_id v" "vs_traveller v = t"
      by (auto simp: by_time_def)
    then have "vs_key x = vs_key v" "x \<in> set (visits d)" by (simp_all add: set_occasions at_place_def vs_key_def)
    with keys that have "x = v" by (auto intro: distinct_map_inj)
    with x(1) show "at_place t p v" by (simp add: set_occasions)
  next
    assume "at_place t p v"
    with that show "?q v" by (simp add: by_time_def set_occasions) (auto simp: at_place_def)
  qed
  have ids: "distinct ?ranked"
  proof -
    have "mset ?ranked = mset (map vs_id (occasions d t p))" by (simp add: by_time_def)
    then show ?thesis using occasion_ids_distinct [OF keys] by (metis mset_eq_imp_distinct_iff)
  qed
  have occ: "occasions d' t p = map ?g (occasions d t p)"
  proof (rule occasions_upd [where q = ?q])
    show "visits d' = upd_rows ?q ?g (visits d)" by (simp add: d' vs)
    show "?q v \<longleftrightarrow> at_place t p v" if "v \<in> set (visits d)" for v using that by (rule mine)
  qed (simp add: at_place_def)
  have ords: "map vs_ordinal (map ?g (by_time t p d)) = map int [0..<length (by_time t p d)]"
    using ids position_nth [of ?ranked] by (intro nth_equalityI) auto
  have "sort_key (\<lambda>v. (vs_ordinal v, collate d' (vs_id v))) (occasions d' t p) = map ?g (by_time t p d)"
  proof (rule sort_key_eqI)
    show "set (occasions d' t p) = set (map ?g (by_time t p d))" by (simp add: occ by_time_def)
    have "map vs_key vs = map vs_key (visits d)" unfolding vs by (rule map_upd_rows) (simp add: vs_key_def)
    with keys have "distinct (map vs_key vs)" by simp
    then have "distinct vs" by (simp only: distinct_map)
    then show "distinct (occasions d' t p)" by (simp add: d' occasions_def)
    have inc: "vs_ordinal (map ?g (by_time t p d) ! n) = int n" if "n < length (by_time t p d)" for n
      using arg_cong [OF ords, of "\<lambda>xs. xs ! n"] that by simp
    then show "sorted (map (\<lambda>v. (vs_ordinal v, collate d' (vs_id v))) (map ?g (by_time t p d)))"
      by (auto simp: sorted_iff_nth_mono_less)
    show "distinct (map (\<lambda>v. (vs_ordinal v, collate d' (vs_id v))) (map ?g (by_time t p d)))"
      using inc by (auto simp: distinct_conv_nth)
  qed
  then show "visit_list d' t p = map scan_visit (by_time t p d)"
    by (simp add: visit_list_def scan_visit_def comp_def)
  have "map vs_key vs = map vs_key (visits d)" unfolding vs by (rule map_upd_rows) (simp add: vs_key_def)
  moreover have "filter (\<lambda>v. \<not> at_place t p v \<and> q v) vs = filter (\<lambda>v. \<not> at_place t p v \<and> q v) (visits d)" for q
  proof -
    have "(\<forall>v \<in> set xs. ?q v \<longleftrightarrow> at_place t p v) \<Longrightarrow>
      filter (\<lambda>v. \<not> at_place t p v \<and> q v) (upd_rows ?q ?g xs) = filter (\<lambda>v. \<not> at_place t p v \<and> q v) xs" for xs
      by (induction xs) (auto simp: upd_rows_def at_place_def)
    with mine vs show ?thesis by simp
  qed
  moreover have "\<forall>v \<in> set vs. \<exists>v0 \<in> set (visits d).
      vs_key v = vs_key v0 \<and> vs_place v = vs_place v0 \<and> vs_trip v = vs_trip v0"
    unfolding vs by (auto simp: upd_rows_def vs_key_def)
  ultimately show "\<exists>vs. d' = d\<lparr>visits := vs\<rparr> \<and> map vs_key vs = map vs_key (visits d) \<and>
       (\<forall>q. filter (\<lambda>v. \<not> at_place t p v \<and> q v) vs = filter (\<lambda>v. \<not> at_place t p v \<and> q v) (visits d)) \<and>
       (\<forall>v \<in> set vs. \<exists>v0 \<in> set (visits d).
          vs_key v = vs_key v0 \<and> vs_place v = vs_place v0 \<and> vs_trip v = vs_trip v0)"
    using d' by blast
qed

definition time_order :: "database \<Rightarrow> visit list \<Rightarrow> visit list" where
  "time_order d = sort_key (\<lambda>v. (- visit_At v, collate d (visit_ID v)))"

lemma by_time_scanned: "map scan_visit (by_time t p d) = time_order d (map scan_visit (occasions d t p))"
  by (simp add: by_time_def time_order_def sort_key_map scan_visit_def)

text \<open>Opening an occasion: one row more, and the place's occasions in the order of time.\<close>

lemma mint_Inr:
  assumes ins: "insertRefiledVisitSQL t v p trip pt d = Inr d1" and ok: "schema_ok d"
    and ren: "renumberVisits t p s1 = (Inr u, s')" "tx_db s1 = d1"
  shows "\<exists>vs. tx_db s' = d\<lparr>visits := vs\<rparr> \<and>
     visit_list (tx_db s') t p = time_order d (map scan_visit (occasions d t p) @
       [\<lparr>visit_ID = v, visit_PlaceID = p, visit_TripID = trip, visit_At = to_timestamptz d pt,
         visit_Note = None\<rparr>]) \<and>
     (\<forall>q. filter (\<lambda>v. \<not> at_place t p v \<and> q v) vs = filter (\<lambda>v. \<not> at_place t p v \<and> q v) (visits d)) \<and>
     distinct (map vs_key vs) \<and>
     (\<exists>x \<in> set vs. vs_key x = (t, v) \<and> vs_place x = p \<and> vs_trip x = trip)"
proof -
  from ins obtain r where r: "d1 = d\<lparr>visits := visits d @ [r]\<rparr>" "vs_key r = (t, v)" "vs_place r = p"
    "vs_trip r = trip" "vs_at r = to_timestamptz d pt" "vs_note r = None"
    "vs_key r \<notin> vs_key ` set (visits d)"
    by (rule insertRefiledVisitSQL_ok) blast
  have keys1: "distinct (map vs_key (visits d1))"
    using r(1,7) schema_visits(1) [OF ok] by simp
  define n where "n = length (occasions d1 t p)"
  from ren obtain s2 s3 where q: "tx_db s2 = d1"
    and off: "t_exec (offsetVisitOrdinalsSQL t p n) s2 = (Inr (), s3)"
    and num: "t_exec (renumberVisitsByTimeSQL t p) s3 = (Inr (), s')"
    by (auto simp: renumberVisits_def t_bind_Inr n_def dest!: t_query_Inr)
  note off = t_exec_Inr [OF off, unfolded q] and num = t_exec_Inr [OF num]
  let ?h = "\<lambda>v. v\<lparr>vs_ordinal := vs_ordinal v + parking n t p d1\<rparr>"
  have d3: "tx_db s3 = d1\<lparr>visits := upd_rows (at_place t p) ?h (visits d1)\<rparr>"
    using offset_ok(1) [OF off] .
  have keys3: "map vs_key (visits (tx_db s3)) = map vs_key (visits d1)"
    unfolding d3 by (simp add: map_upd_rows vs_key_def)
  have occ3: "occasions (tx_db s3) t p = map ?h (occasions d1 t p)"
    by (rule occasions_upd [where q = "at_place t p"]) (simp_all add: d3 at_place_def)
  have occ1: "occasions d1 t p = occasions d t p @ [r]"
    using r(1,2,3) by (simp add: occasions_def vs_key_def)
  have keys3': "distinct (map vs_key (visits (tx_db s3)))" using keys3 keys1 by simp
  note ren' = renumber_ok [OF num keys3']
  have "map scan_visit (map ?h xs) = map scan_visit xs" for xs by (simp add: scan_visit_def)
  then have "map scan_visit (occasions (tx_db s3) t p) = map scan_visit (occasions d t p) @ [scan_visit r]"
    by (simp add: occ3 occ1 scan_visit_def)
  moreover have "scan_visit r = \<lparr>visit_ID = v, visit_PlaceID = p, visit_TripID = trip,
      visit_At = to_timestamptz d pt, visit_Note = None\<rparr>"
    using r by (simp add: scan_visit_def vs_key_def)
  moreover have "time_order (tx_db s3) = time_order d" by (simp add: time_order_def d3 r(1) fun_eq_iff)
  ultimately have list: "visit_list (tx_db s') t p = time_order d (map scan_visit (occasions d t p) @
       [\<lparr>visit_ID = v, visit_PlaceID = p, visit_TripID = trip, visit_At = to_timestamptz d pt,
         visit_Note = None\<rparr>])"
    using ren'(1) by (simp add: by_time_scanned)
  from ren'(2) obtain vs where vs: "tx_db s' = (tx_db s3)\<lparr>visits := vs\<rparr>"
    "map vs_key vs = map vs_key (visits (tx_db s3))"
    "\<forall>q. filter (\<lambda>v. \<not> at_place t p v \<and> q v) vs = filter (\<lambda>v. \<not> at_place t p v \<and> q v) (visits (tx_db s3))"
    "\<forall>v \<in> set vs. \<exists>v0 \<in> set (visits (tx_db s3)).
        vs_key v = vs_key v0 \<and> vs_place v = vs_place v0 \<and> vs_trip v = vs_trip v0" by blast
  have "(t, v) \<in> set (map vs_key vs)" using vs(2) keys3 r(1,2) by simp
  then obtain x where x: "x \<in> set vs" "vs_key x = (t, v)" by auto
  from vs(4) x(1) obtain x3 where x3: "x3 \<in> set (visits (tx_db s3))"
    "vs_key x = vs_key x3 \<and> vs_place x = vs_place x3 \<and> vs_trip x = vs_trip x3" by blast
  then obtain x1 where x1: "x1 \<in> set (visits d1)" "x3 = (if at_place t p x1 then ?h x1 else x1)"
    by (auto simp: d3 set_upd_rows)
  have same: "vs_key x1 = vs_key x \<and> vs_place x1 = vs_place x \<and> vs_trip x1 = vs_trip x"
    using x3(2) x1(2) by (cases "at_place t p x1") (auto simp: vs_key_def)
  with x(2) r(2) have "x1 = r" using keys1 x1(1) r(1) by (intro distinct_map_inj [of vs_key "visits d1"]) auto
  with same r(3,4) have "vs_place x = p" "vs_trip x = trip" by auto
  moreover have "filter (\<lambda>v. \<not> at_place t p v \<and> q v) (visits (tx_db s3)) = filter (\<lambda>v. \<not> at_place t p v \<and> q v) (visits d)" for q
  proof -
    have "filter (\<lambda>v. \<not> at_place t p v \<and> q v) (visits (tx_db s3)) = filter (\<lambda>v. \<not> at_place t p v \<and> q v) (visits d1)"
      unfolding d3 by (simp, rule filter_upd_rows_other) (auto simp: at_place_def)
    also have "\<dots> = filter (\<lambda>v. \<not> at_place t p v \<and> q v) (visits d)"
      using r(1,2,3) by (simp add: at_place_def vs_key_def)
    finally show ?thesis .
  qed
  moreover have "distinct (map vs_key vs)" using vs(2) keys3' by simp
  ultimately show ?thesis
    using vs(1,3) d3 r(1) list x by (intro exI [of _ vs]) auto
qed

lemma requireOrMint_Inr:
  assumes run: "requireOrMintOccasion t r s = (Inr minted, s')" and ok: "schema_ok (tx_db s)"
  shows "\<exists>vs. tx_db s' = (tx_db s)\<lparr>visits := vs\<rparr> \<and> distinct (map vs_key vs) \<and>
     (\<exists>x \<in> set vs. vs_key x = (t, rf_visitID r) \<and> vs_place x = rf_placeID r \<and> vs_trip x = rf_tripID r) \<and>
     (\<forall>q. filter (\<lambda>v. \<not> at_place t (rf_placeID r) v \<and> q v) vs =
        filter (\<lambda>v. \<not> at_place t (rf_placeID r) v \<and> q v) (visits (tx_db s))) \<and>
     (if has_visit (tx_db s) t (rf_visitID r) then \<not> minted \<and> tx_db s' = tx_db s
      else minted \<and> rf_at r \<noteq> None \<and>
        visit_list (tx_db s') t (rf_placeID r) =
          time_order (tx_db s) (map scan_visit (occasions (tx_db s) t (rf_placeID r)) @
            [\<lparr>visit_ID = rf_visitID r, visit_PlaceID = rf_placeID r, visit_TripID = rf_tripID r,
              visit_At = to_timestamptz (tx_db s) (the (rf_at r)), visit_Note = None\<rparr>]))"
proof (cases "find_visit (tx_db s) t (rf_visitID r)")
  case None
  with run obtain s0 s1 s2 where m: "rf_at r \<noteq> None" "tx_db s0 = tx_db s" "s' = s2" "minted" and
    ex: "t_exec (insertRefiledVisitSQL t (rf_visitID r) (rf_placeID r) (rf_tripID r) (the (rf_at r))) s0 = (Inr (), s1)" and
    ren: "renumberVisits t (rf_placeID r) s1 = (Inr (), s2)"
    by (auto simp: requireOrMintOccasion_def t_bind_Inr CheckNewOccasionHasAMoment_def dest!: t_query_Inr)
  have "\<not> has_visit (tx_db s) t (rf_visitID r)"
    using None by (auto simp: find_visit_def has_visit_def find_None)
  moreover note mint_Inr [OF t_exec_Inr [OF ex, unfolded m(2)] ok ren refl]
  ultimately show ?thesis using m by auto
next
  case (Some x)
  with run have same: "tx_db s' = tx_db s" "\<not> minted" and x: "vs_place x = rf_placeID r" "vs_trip x = rf_tripID r"
    by (auto simp: requireOrMintOccasion_def t_bind_Inr CheckOccasionBelongsHere_def dest!: t_query_Inr)
  have "x \<in> set (visits (tx_db s))" "vs_key x = (t, rf_visitID r)"
    using Some by (auto simp: find_visit_def dest!: find_SomeD)
  moreover have "has_visit (tx_db s) t (rf_visitID r)"
    using calculation by (auto simp: has_visit_def image_iff intro!: bexI [of _ x])
  ultimately show ?thesis
    using same x schema_visits(1) [OF ok] by (intro exI [of _ "visits (tx_db s)"]) auto
qed

text \<open>What the body of a re-file did to the tables, and what it read back.\<close>

lemma refilePhoto_Inr:
  assumes run: "refilePhoto t i w s1 = (Inr (f, doc), s2)"
    and names: "rw_PlaceID w = Some p" "rw_VisitID w = Some v" and ok: "schema_ok (tx_db s1)"
  obtains r0 pr vs where "find_photo (tx_db s1) t i = Some r0" "find_place (tx_db s1) t p = Some pr"
    "pl_city pr = ph_city r0" "f = scan_photo (r0\<lparr>ph_place := Some p, ph_visit := Some v\<rparr>)"
    "tx_db s2 = (tx_db s1)\<lparr>visits := vs, photos := upd_rows (\<lambda>f. ph_key f = (t, i))
       (\<lambda>f. f\<lparr>ph_place := Some p, ph_visit := Some v\<rparr>) (photos (tx_db s1))\<rparr>"
    "distinct (map vs_key vs)" "\<exists>x \<in> set vs. vs_key x = (t, v) \<and> vs_place x = p \<and> vs_trip x = ph_trip r0"
    "\<forall>q. filter (\<lambda>x. \<not> at_place t p x \<and> q x) vs = filter (\<lambda>x. \<not> at_place t p x \<and> q x) (visits (tx_db s1))"
    "if has_visit (tx_db s1) t v then vs = visits (tx_db s1) \<and> doc = None
     else rw_VisitAt w \<noteq> None \<and> doc = Some (document_of t (tx_db s2)) \<and>
       visit_list (tx_db s2) t p = time_order (tx_db s1) (map scan_visit (occasions (tx_db s1) t p) @
         [\<lparr>visit_ID = v, visit_PlaceID = p, visit_TripID = ph_trip r0,
           visit_At = to_timestamptz (tx_db s1) (the (rw_VisitAt w)), visit_Note = None\<rparr>])"
proof -
  from run names obtain trip city pc minted sa sb sc sd se where
    ph: "readPhotoForRefile t i s1 = (Inr (trip, city), sa)" and
    pl: "readPlaceCity t p sa = (Inr pc, sb)" and chk: "CheckRefilePlace pc city = Inr ()" and
    occ: "requireOrMintOccasion t \<lparr>rf_placeID = p, rf_visitID = v, rf_tripID = trip, rf_at = rw_VisitAt w\<rparr> sb =
       (Inr minted, sc)" and
    upd: "t_exec (refilePhotoSQL t i p v) sc = (Inr (), sd)" and
    reread: "readOnePhoto t i sd = (Inr f, se)" and
    docs: "(if minted then t_bind (readDocument t) (\<lambda>doc. t_return (f, Some doc)) else t_return (f, None)) se =
       (Inr (f, doc), s2)"
    unfolding refilePhoto_def Let_def t_bind_Inr
    by (auto simp: t_bind_Inr split: if_splits)
  from ph obtain r0 where r0: "find_photo (tx_db s1) t i = Some r0" "trip = ph_trip r0" "city = ph_city r0"
    "tx_db sa = tx_db s1"
    by (cases "find_photo (tx_db s1) t i") (auto simp: readPhotoForRefile_def t_bind_Inr dest!: t_query_Inr)
  from pl obtain pr where pr: "find_place (tx_db s1) t p = Some pr" "pc = pl_city pr" "tx_db sb = tx_db s1"
    using r0(4) by (cases "find_place (tx_db s1) t p") (auto simp: readPlaceCity_def t_bind_Inr dest!: t_query_Inr)
  from requireOrMint_Inr [OF occ, unfolded pr(3) refiling.select_convs, OF ok] obtain vs where
    vs: "tx_db sc = (tx_db s1)\<lparr>visits := vs\<rparr>" "distinct (map vs_key vs)"
     "\<exists>x \<in> set vs. vs_key x = (t, v) \<and> vs_place x = p \<and> vs_trip x = trip"
     "\<forall>q. filter (\<lambda>x. \<not> at_place t p x \<and> q x) vs = filter (\<lambda>x. \<not> at_place t p x \<and> q x) (visits (tx_db s1))"
    and minted: "if has_visit (tx_db s1) t v then \<not> minted \<and> tx_db sc = tx_db s1
      else minted \<and> rw_VisitAt w \<noteq> None \<and>
        visit_list (tx_db sc) t p =
          time_order (tx_db s1) (map scan_visit (occasions (tx_db s1) t p) @
            [\<lparr>visit_ID = v, visit_PlaceID = p, visit_TripID = trip,
              visit_At = to_timestamptz (tx_db s1) (the (rw_VisitAt w)), visit_Note = None\<rparr>])"
    by blast
  let ?g = "\<lambda>f. f\<lparr>ph_place := Some p, ph_visit := Some v\<rparr>"
  have sd: "tx_db sd = (tx_db sc)\<lparr>photos := upd_rows (\<lambda>f. ph_key f = (t, i)) ?g (photos (tx_db sc))\<rparr>"
    using t_exec_Inr [OF upd] by (simp add: refilePhotoSQL_def split: if_splits)
  have "tx_db se = tx_db sd" "tx_db s2 = tx_db se" and doc: "doc = (if minted then Some (document_of t (tx_db s2)) else None)"
    using reread docs by (auto simp: t_bind_Inr elim!: readOnePhoto_Inr split: if_splits dest!: readDocument_Inr)
  with sd vs(1) have d2: "tx_db s2 = (tx_db s1)\<lparr>visits := vs, photos := upd_rows (\<lambda>f. ph_key f = (t, i)) ?g (photos (tx_db s1))\<rparr>"
    by simp
  have "List.find (\<lambda>f. ph_key f = (t, i)) (upd_rows (\<lambda>f. ph_key f = (t, i)) ?g (photos (tx_db s1))) = Some (?g r0)"
    using r0(1) by (subst find_upd_rows) (simp_all add: find_photo_def)
  then have "find_photo (tx_db sd) t i = Some (?g r0)" using sd vs(1) by (simp add: find_photo_def)
  with reread have f: "f = scan_photo (?g r0)" by (auto elim!: readOnePhoto_Inr)
  have list: "visit_list (tx_db s2) t p = visit_list (tx_db sc) t p"
    using d2 vs(1) by (simp add: visit_list_def occasions_def)
  have same: "vs = visits (tx_db s1)" if "tx_db sc = tx_db s1"
    using vs(1) that by (auto dest: arg_cong [where f = visits])
  show thesis
    by (rule that [OF r0(1) pr(1) _ f d2 vs(2) vs(3) [unfolded r0(2)] vs(4)])
      (use chk pr(2) r0(2,3) minted doc list same in \<open>auto simp: CheckRefilePlace_def split: if_splits\<close>)
qed

lemma find_photo_refiled:
  "List.find (\<lambda>f. ph_key f = (t, j)) (upd_rows (\<lambda>f. ph_key f = (t, i))
     (\<lambda>f. f\<lparr>ph_place := p, ph_visit := v\<rparr>) fs) =
   (if j = i then map_option (\<lambda>f. f\<lparr>ph_place := p, ph_visit := v\<rparr>) (List.find (\<lambda>f. ph_key f = (t, j)) fs)
    else List.find (\<lambda>f. ph_key f = (t, j)) fs)"
  by (induction fs) (auto simp: upd_rows_def ph_key_def)


definition sample_refile :: refile_write where
  "sample_refile = \<lparr>rw_PlaceID = Some ''p1'', rw_VisitID = Some ''v9'', rw_VisitAt = Some 7000\<rparr>"


end
