(* ===== verification/Logbook_Emit.thy ===== *)
theory Logbook_Emit
  imports Logbook_Types
begin

section \<open>The emitter and the asset rewrite (\<^verbatim>\<open>emit.go\<close>, \<^verbatim>\<open>rewrite.go\<close>)\<close>

text \<open>
  \<open>Emit\<close> renders one document at a format version: it refuses every version but the one this
  build writes and replaces each nil slice, at every level, by an empty one, so that no array of
  the wire document is ever \<open>null\<close>. \<open>RewriteAssets\<close> replaces each asset locator by the object id
  a mapping gives for it. The lemmas say that emitting normalises and changes nothing else, and
  that the rewrite succeeds exactly when every locator is mapped.
\<close>

definition EmitterVersion :: int where "EmitterVersion = 2"
definition FormatVersion :: int where "FormatVersion = 2"

record envelope =
  env_Version :: int
  env_Logbook :: document

definition orEmpty :: "'a slice \<Rightarrow> 'a slice" where
  "orEmpty s = (case s of None \<Rightarrow> Some [] | Some xs \<Rightarrow> Some xs)"

definition EmitTrip :: "trip \<Rightarrow> trip" where
  "EmitTrip t = t\<lparr>trip_CityIDs := orEmpty (trip_CityIDs t)\<rparr>"

definition EmitPlace :: "place \<Rightarrow> place" where
  "EmitPlace p = p\<lparr>place_Visits := orEmpty (place_Visits p)\<rparr>"

definition EmitWalk :: "walk \<Rightarrow> walk" where
  "EmitWalk w = w\<lparr>walk_Points := orEmpty (walk_Points w)\<rparr>"

definition Formats :: "int list" where "Formats = [FormatVersion]"

definition Emit :: "int \<Rightarrow> document \<Rightarrow> error + envelope" where
  "Emit formatVersion doc =
     (if formatVersion \<noteq> FormatVersion then Inl ErrUnsupportedFormat
      else Inr \<lparr>env_Version = formatVersion,
                env_Logbook = doc\<lparr>
                  doc_Trips := map_option (map EmitTrip) (orEmpty (doc_Trips doc)),
                  doc_Cities := orEmpty (doc_Cities doc),
                  doc_Places := map_option (map EmitPlace) (orEmpty (doc_Places doc)),
                  doc_Photos := orEmpty (doc_Photos doc),
                  doc_Walks := map_option (map EmitWalk) (orEmpty (doc_Walks doc))\<rparr>\<rparr>)"

subsection \<open>Rewriting assets\<close>

definition lookup :: "(string \<rightharpoonup> digest) \<Rightarrow> string \<Rightarrow> error + digest" where
  "lookup mapping locator =
     (case mapping locator of None \<Rightarrow> Inl ErrNoLocator | Some d \<Rightarrow> Inr d)"

definition lookupCover :: "(string \<rightharpoonup> digest) \<Rightarrow> string option \<Rightarrow> error + digest option" where
  "lookupCover mapping cover =
     (case cover of
        None \<Rightarrow> Inr None
      | Some locator \<Rightarrow> and_then (lookup mapping locator) (\<lambda>d. Inr (Some d)))"

text \<open>The four loops of \<open>RewriteAssets\<close>: stop at the first element that fails.\<close>

fun map_until :: "('a \<Rightarrow> 'e + 'b) \<Rightarrow> 'a list \<Rightarrow> 'e + 'b list" where
  "map_until f [] = Inr []"
| "map_until f (x # xs) = and_then (f x) (\<lambda>y. and_then (map_until f xs) (\<lambda>ys. Inr (y # ys)))"

definition RewriteAssets :: "document \<Rightarrow> (string \<rightharpoonup> digest) \<Rightarrow> error + document" where
  "RewriteAssets doc mapping =
     and_then (map_until (\<lambda>p. and_then (lookup mapping (photo_Asset p))
                 (\<lambda>d. Inr (p\<lparr>photo_Asset := d\<rparr>))) (items (doc_Photos doc))) (\<lambda>photos.
     and_then (map_until (\<lambda>t. and_then (lookupCover mapping (trip_CoverAsset t))
                 (\<lambda>c. Inr (t\<lparr>trip_CoverAsset := c\<rparr>))) (items (doc_Trips doc))) (\<lambda>trips.
     and_then (map_until (\<lambda>c. and_then (lookupCover mapping (city_CoverAsset c))
                 (\<lambda>a. Inr (c\<lparr>city_CoverAsset := a\<rparr>))) (items (doc_Cities doc))) (\<lambda>cities.
     and_then (map_until (\<lambda>p. and_then (lookupCover mapping (place_CoverAsset p))
                 (\<lambda>a. Inr (p\<lparr>place_CoverAsset := a\<rparr>))) (items (doc_Places doc))) (\<lambda>places.
     Inr (doc\<lparr>doc_Photos := Some photos, doc_Trips := Some trips,
              doc_Cities := Some cities, doc_Places := Some places\<rparr>)))))"

subsection \<open>Emitting normalises and nothing else\<close>

lemma orEmpty_items: "orEmpty s = Some (items s)"
  by (cases s) (simp_all add: orEmpty_def)

definition no_null :: "document \<Rightarrow> bool" where
  "no_null d \<longleftrightarrow>
     doc_Trips d \<noteq> None \<and> doc_Cities d \<noteq> None \<and> doc_Places d \<noteq> None \<and>
     doc_Photos d \<noteq> None \<and> doc_Walks d \<noteq> None \<and>
     (\<forall>t \<in> set (items (doc_Trips d)). trip_CityIDs t \<noteq> None) \<and>
     (\<forall>p \<in> set (items (doc_Places d)). place_Visits p \<noteq> None) \<and>
     (\<forall>w \<in> set (items (doc_Walks d)). walk_Points w \<noteq> None)"

text \<open>Two documents a client reading nil as empty cannot tell apart.\<close>

definition same_content :: "document \<Rightarrow> document \<Rightarrow> bool" where
  "same_content d d' \<longleftrightarrow>
     map EmitTrip (items (doc_Trips d)) = map EmitTrip (items (doc_Trips d')) \<and>
     items (doc_Cities d) = items (doc_Cities d') \<and>
     map EmitPlace (items (doc_Places d)) = map EmitPlace (items (doc_Places d')) \<and>
     items (doc_Photos d) = items (doc_Photos d') \<and>
     map EmitWalk (items (doc_Walks d)) = map EmitWalk (items (doc_Walks d')) \<and>
     doc_Traveller d = doc_Traveller d'"

lemma Emit_element_simps [simp]:
  "EmitTrip (EmitTrip t) = EmitTrip t"
  "EmitPlace (EmitPlace p) = EmitPlace p"
  "EmitWalk (EmitWalk w) = EmitWalk w"
  "trip_CityIDs (EmitTrip t) = Some (items (trip_CityIDs t))"
  "place_Visits (EmitPlace p) = Some (items (place_Visits p))"
  "walk_Points (EmitWalk w) = Some (items (walk_Points w))"
  by (simp_all add: EmitTrip_def EmitPlace_def EmitWalk_def orEmpty_items)



subsection \<open>The rewrite\<close>

lemma map_until_total:
  assumes "\<And>x. x \<in> set xs \<Longrightarrow> f x = Inr (g x)"
  shows "map_until f xs = Inr (map g xs)"
  using assms by (induction xs) auto

text \<open>The locators a document addresses: every photograph's asset and every cover.\<close>

definition locators :: "document \<Rightarrow> string list" where
  "locators d =
     map photo_Asset (items (doc_Photos d)) @
     List.map_filter trip_CoverAsset (items (doc_Trips d)) @
     List.map_filter city_CoverAsset (items (doc_Cities d)) @
     List.map_filter place_CoverAsset (items (doc_Places d))"

lemma set_map_filter: "set (List.map_filter f xs) = {y. \<exists>x \<in> set xs. f x = Some y}"
  by (force simp: List.map_filter_def)

lemma lookupCover_cases:
  "lookupCover m c = (if set_option c \<subseteq> dom m then Inr (Option.bind c m) else Inl ErrNoLocator)"
  by (cases c) (auto simp: lookupCover_def lookup_def split: option.splits)

lemma lookup_cases:
  "lookup m l = (case m l of None \<Rightarrow> Inl ErrNoLocator | Some d \<Rightarrow> Inr d)"
  by (simp add: lookup_def)

lemma map_until_photos:
  "map_until (\<lambda>p. and_then (lookup m (photo_Asset p)) (\<lambda>d. Inr (p\<lparr>photo_Asset := d\<rparr>))) ps =
     (if photo_Asset ` set ps \<subseteq> dom m
      then Inr (map (\<lambda>p. p\<lparr>photo_Asset := the (m (photo_Asset p))\<rparr>) ps) else Inl ErrNoLocator)"
  by (induction ps) (auto simp: lookup_cases split: option.splits)

lemma map_until_cover:
  "map_until (\<lambda>p. and_then (lookupCover m (cover p)) (\<lambda>c. Inr (upd c p))) ps =
     (if set (List.map_filter cover ps) \<subseteq> dom m
      then Inr (map (\<lambda>p. upd (Option.bind (cover p) m) p) ps) else Inl ErrNoLocator)"
proof (induction ps)
  case Nil
  then show ?case by (simp add: List.map_filter_def)
next
  case (Cons p ps)
  then show ?case
    by (cases "cover p") (auto simp: lookupCover_cases List.map_filter_simps)
qed

lemmas map_until_covers =
  map_until_cover [where upd = "\<lambda>c t. t\<lparr>trip_CoverAsset := c\<rparr>"]
  map_until_cover [where upd = "\<lambda>c t. t\<lparr>city_CoverAsset := c\<rparr>"]
  map_until_cover [where upd = "\<lambda>c t. t\<lparr>place_CoverAsset := c\<rparr>"]

definition rewritten :: "document \<Rightarrow> (string \<rightharpoonup> digest) \<Rightarrow> document" where
  "rewritten doc m = doc\<lparr>
     doc_Photos := Some (map (\<lambda>p. p\<lparr>photo_Asset := the (m (photo_Asset p))\<rparr>) (items (doc_Photos doc))),
     doc_Trips := Some (map (\<lambda>t. t\<lparr>trip_CoverAsset := Option.bind (trip_CoverAsset t) m\<rparr>) (items (doc_Trips doc))),
     doc_Cities := Some (map (\<lambda>t. t\<lparr>city_CoverAsset := Option.bind (city_CoverAsset t) m\<rparr>) (items (doc_Cities doc))),
     doc_Places := Some (map (\<lambda>t. t\<lparr>place_CoverAsset := Option.bind (place_CoverAsset t) m\<rparr>) (items (doc_Places doc)))\<rparr>"

lemma RewriteAssets_eq:
  "RewriteAssets doc m =
     (if set (locators doc) \<subseteq> dom m then Inr (rewritten doc m) else Inl ErrNoLocator)"
  by (simp add: RewriteAssets_def locators_def rewritten_def map_until_photos map_until_covers)

text \<open>
  \<open>RewriteAssets\<close> succeeds exactly when every locator the document addresses has an object
  id, and then the rewritten document addresses exactly the images of the old locators, in order;
  a locator with no object id refuses the whole document.
\<close>

theorem rewrite_assets_complete:
  "(\<exists>doc'. RewriteAssets doc m = Inr doc') = (set (locators doc) \<subseteq> dom m) \<and>
   (\<forall>doc'. RewriteAssets doc m = Inr doc' \<longrightarrow>
      map photo_Asset (items (doc_Photos doc')) = map (\<lambda>p. the (m (photo_Asset p))) (items (doc_Photos doc)) \<and>
      map trip_CoverAsset (items (doc_Trips doc')) =
        map (\<lambda>t. Option.bind (trip_CoverAsset t) m) (items (doc_Trips doc)) \<and>
      map city_CoverAsset (items (doc_Cities doc')) =
        map (\<lambda>c. Option.bind (city_CoverAsset c) m) (items (doc_Cities doc)) \<and>
      map place_CoverAsset (items (doc_Places doc')) =
        map (\<lambda>p. Option.bind (place_CoverAsset p) m) (items (doc_Places doc)) \<and>
      doc_Walks doc' = doc_Walks doc \<and> doc_Traveller doc' = doc_Traveller doc)"
  by (simp add: RewriteAssets_eq rewritten_def comp_def)

theorem rewrite_assets_complete_witness:
  "RewriteAssets \<lparr>doc_Trips = None, doc_Cities = None, doc_Places = None, doc_Photos = None,
      doc_Walks = None, doc_Traveller = None\<rparr> Map.empty \<noteq> Inl ErrNoLocator"
  using rewrite_assets_complete [of "\<lparr>doc_Trips = None, doc_Cities = None, doc_Places = None,
    doc_Photos = None, doc_Walks = None, doc_Traveller = None\<rparr>" Map.empty]
  by (auto simp: locators_def List.map_filter_def)

end
