(* ===== verification/Logbook_Public.thy ===== *)
theory Logbook_Public
  imports Logbook_Emit
begin

section \<open>The public envelope (\<^verbatim>\<open>internal/logbook/public.go\<close>)\<close>

text \<open>
  What \<^verbatim>\<open>GET /l/{token}\<close> answers. \<open>EmitPublic\<close> applies the allowlist of keys and the three
  sharing flags of the trip, and mints a signed URL for each asset it publishes. The main lemma
  is a non-interference statement: the envelope is a function of the source with everything
  private erased (\<open>redact\<close>), so no private value can reach a stranger.
\<close>

record public_trip =
  pt_ID :: id
  pt_Name :: string
  pt_CityIDs :: "id slice"
  pt_Start :: "instant option"
  pt_End :: "instant option"
  pt_Summary :: "string option"
  pt_CoverURL :: "string option"

record public_city =
  pc_ID :: id
  pc_Name :: string
  pc_Country :: country
  pc_Centre :: latlng

record public_day =
  pd_At :: instant
  pd_Note :: "string option"

record public_place =
  pp_ID :: id
  pp_CityID :: id
  pp_Name :: string
  pp_Coordinates :: "latlng option"
  pp_Days :: "public_day list"

record public_photo =
  pf_ID :: id
  pf_CityID :: id
  pf_PlaceID :: "id option"
  pf_TakenAt :: instant
  pf_URL :: string
  pf_Caption :: "string option"
  pf_Coordinates :: "latlng option"
  pf_AccuracyMetres :: "int option"

record public_walk =
  pk_ID :: id
  pk_CityID :: id
  pk_RecordedOn :: instant
  pk_DistanceKm :: rat
  pk_Points :: "latlng list"

record public =
  pub_Version :: int
  pub_Trip :: public_trip
  pub_Cities :: "public_city list"
  pub_Places :: "public_place list"
  pub_Photos :: "public_photo list"
  pub_Walks :: "public_walk list"

record public_source =
  src_Trip :: trip
  src_Cities :: "city slice"
  src_Places :: "place slice"
  src_Photos :: "photo slice"
  src_Walks :: "walk slice"

type_synonym mint = "digest \<Rightarrow> error + string"

subsection \<open>EmitPublic\<close>

definition publish_city :: "city \<Rightarrow> public_city" where
  "publish_city c = \<lparr>pc_ID = city_ID c, pc_Name = city_Name c, pc_Country = city_Country c,
                     pc_Centre = city_Centre c\<rparr>"

definition publish_place :: "trip \<Rightarrow> place \<Rightarrow> public_place" where
  "publish_place t p =
     \<lparr>pp_ID = place_ID p, pp_CityID = place_CityID p, pp_Name = place_Name p,
      pp_Coordinates = (if trip_ShareCoordinates t then Some (place_Coordinates p) else None),
      pp_Days = map (\<lambda>v. \<lparr>pd_At = visit_At v,
                          pd_Note = (if trip_ShareNotes t then visit_Note v else None)\<rparr>)
                  (items (place_Visits p))\<rparr>"

definition publish_photo :: "trip \<Rightarrow> mint \<Rightarrow> photo \<Rightarrow> error + public_photo" where
  "publish_photo t mnt p =
     and_then (mnt (photo_Asset p)) (\<lambda>url. Inr
       \<lparr>pf_ID = photo_ID p, pf_CityID = photo_CityID p, pf_PlaceID = photo_PlaceID p,
        pf_TakenAt = photo_TakenAt p, pf_URL = url,
        pf_Caption = (if trip_ShareNotes t then photo_Caption p else None),
        pf_Coordinates = (if trip_ShareCoordinates t then photo_Coordinates p else None),
        pf_AccuracyMetres = (if trip_ShareCoordinates t then photo_AccuracyMetres p else None)\<rparr>)"

definition publish_walk :: "trip \<Rightarrow> walk \<Rightarrow> public_walk" where
  "publish_walk t w =
     \<lparr>pk_ID = walk_ID w, pk_CityID = walk_CityID w, pk_RecordedOn = walk_RecordedOn w,
      pk_DistanceKm = walk_DistanceKm w,
      pk_Points = (if trip_ShareCoordinates t then items (walk_Points w) else [])\<rparr>"

definition publish_cover :: "trip \<Rightarrow> mint \<Rightarrow> error + string option" where
  "publish_cover t mnt =
     (case trip_CoverAsset t of
        Some a \<Rightarrow> if trip_SharePhotos t then and_then (mnt a) (\<lambda>url. Inr (Some url)) else Inr None
      | None \<Rightarrow> Inr None)"

definition EmitPublic :: "public_source \<Rightarrow> mint \<Rightarrow> error + public" where
  "EmitPublic src mnt =
     (let t = src_Trip src in
      and_then (publish_cover t mnt) (\<lambda>cover.
      and_then (if trip_SharePhotos t then map_until (publish_photo t mnt) (items (src_Photos src))
                else Inr []) (\<lambda>photos.
      Inr \<lparr>pub_Version = FormatVersion,
           pub_Trip = \<lparr>pt_ID = trip_ID t, pt_Name = trip_Name t,
                       pt_CityIDs = orEmpty (trip_CityIDs t), pt_Start = trip_Start t,
                       pt_End = trip_End t, pt_Summary = trip_Summary t, pt_CoverURL = cover\<rparr>,
           pub_Cities = map publish_city (items (src_Cities src)),
           pub_Places = map (publish_place t) (items (src_Places src)),
           pub_Photos = photos,
           pub_Walks = map (publish_walk t) (items (src_Walks src))\<rparr>)))"

subsection \<open>Erasing what is private\<close>

definition nowhere :: latlng where "nowhere = \<lparr>Lat = 0, Lng = 0\<rparr>"

definition redact_visit :: "trip \<Rightarrow> visit \<Rightarrow> visit" where
  "redact_visit t v =
     \<lparr>visit_ID = [], visit_PlaceID = [], visit_TripID = [], visit_At = visit_At v,
      visit_Note = (if trip_ShareNotes t then visit_Note v else None)\<rparr>"

definition redact_place :: "trip \<Rightarrow> place \<Rightarrow> place" where
  "redact_place t p = p\<lparr>
     place_Coordinates := (if trip_ShareCoordinates t then place_Coordinates p else nowhere),
     place_Visits := Some (map (redact_visit t) (items (place_Visits p))),
     place_Plan := None, place_CoverAsset := None\<rparr>"

definition redact_photo :: "trip \<Rightarrow> photo \<Rightarrow> photo" where
  "redact_photo t p = p\<lparr>
     photo_TripID := [], photo_VisitID := None, photo_FiledLater := None,
     photo_Caption := (if trip_ShareNotes t then photo_Caption p else None),
     photo_Coordinates := (if trip_ShareCoordinates t then photo_Coordinates p else None),
     photo_AccuracyMetres := (if trip_ShareCoordinates t then photo_AccuracyMetres p else None)\<rparr>"

definition redact_walk :: "trip \<Rightarrow> walk \<Rightarrow> walk" where
  "redact_walk t w = w\<lparr>
     walk_TripID := [], walk_Name := None, walk_Dismissed := False,
     walk_Points := (if trip_ShareCoordinates t then walk_Points w else None)\<rparr>"

definition redact :: "public_source \<Rightarrow> public_source" where
  "redact src =
     (let t = src_Trip src in
      \<lparr>src_Trip = t\<lparr>trip_CoverAsset := (if trip_SharePhotos t then trip_CoverAsset t else None),
                    trip_ShareLinkID := None, trip_Shared := False\<rparr>,
       src_Cities = map_option (map (\<lambda>c. c\<lparr>city_CoverAsset := None\<rparr>)) (src_Cities src),
       src_Places = map_option (map (redact_place t)) (src_Places src),
       src_Photos = (if trip_SharePhotos t then map_option (map (redact_photo t)) (src_Photos src)
                     else None),
       src_Walks = map_option (map (redact_walk t)) (src_Walks src)\<rparr>)"

lemma items_map_option [simp]: "items (map_option (map f) s) = map f (items s)"
  by (cases s) simp_all

lemma map_until_map: "map_until f (map g xs) = map_until (\<lambda>x. f (g x)) xs"
  by (induction xs) auto

lemma publish_redacted:
  assumes "trip_ShareCoordinates t' = trip_ShareCoordinates t" "trip_ShareNotes t' = trip_ShareNotes t"
  shows "publish_place t' (redact_place t p) = publish_place t p"
    and "publish_photo t' mnt (redact_photo t f) = publish_photo t mnt f"
    and "publish_walk t' (redact_walk t w) = publish_walk t w"
  using assms
  by (simp_all add: publish_place_def redact_place_def redact_visit_def publish_photo_def
      redact_photo_def publish_walk_def redact_walk_def comp_def)

lemma publish_city_cover [simp]: "publish_city (c\<lparr>city_CoverAsset := a\<rparr>) = publish_city c"
  by (simp add: publish_city_def)

text \<open>
  C36: The public envelope is computed from the redacted source alone. With \<open>sharePhotos\<close> off no
  photograph and no cover, with \<open>shareNotes\<close> off no note and no caption, with \<open>shareCoordinates\<close>
  off no coordinate, accuracy or track, and in no case a visit id, a plan, a filing date or a
  share token can influence what a stranger is answered.
\<close>

theorem public_noninterference: "EmitPublic src mnt = EmitPublic (redact src) mnt"
proof -
  let ?t = "src_Trip src"
  let ?t' = "src_Trip (redact src)"
  have flags: "trip_ShareCoordinates ?t' = trip_ShareCoordinates ?t"
    "trip_ShareNotes ?t' = trip_ShareNotes ?t" "trip_SharePhotos ?t' = trip_SharePhotos ?t"
    by (simp_all add: redact_def Let_def)
  have redacted:
    "items (src_Photos (redact src)) =
       (if trip_SharePhotos ?t then map (redact_photo ?t) (items (src_Photos src)) else [])"
    "items (src_Places (redact src)) = map (redact_place ?t) (items (src_Places src))"
    "items (src_Walks (redact src)) = map (redact_walk ?t) (items (src_Walks src))"
    by (simp_all add: redact_def Let_def)
  have "publish_cover ?t' mnt = publish_cover ?t mnt"
    by (auto simp: publish_cover_def redact_def Let_def split: option.splits)
  moreover have "(if trip_SharePhotos ?t'
       then map_until (publish_photo ?t' mnt) (items (src_Photos (redact src))) else Inr []) =
     (if trip_SharePhotos ?t then map_until (publish_photo ?t mnt) (items (src_Photos src))
      else Inr [])"
    by (simp add: redacted flags map_until_map publish_redacted(2) [OF flags(1,2)])
  moreover have "map (publish_place ?t') (items (src_Places (redact src))) =
      map (publish_place ?t) (items (src_Places src))"
    "map (publish_walk ?t') (items (src_Walks (redact src))) =
      map (publish_walk ?t) (items (src_Walks src))"
    by (simp_all add: redacted publish_redacted(1,3) [OF flags(1,2)])
  moreover have "map publish_city (items (src_Cities (redact src))) =
      map publish_city (items (src_Cities src))"
    by (simp add: redact_def Let_def comp_def)
  moreover have "trip_ID ?t' = trip_ID ?t" "trip_Name ?t' = trip_Name ?t"
    "trip_CityIDs ?t' = trip_CityIDs ?t" "trip_Start ?t' = trip_Start ?t"
    "trip_End ?t' = trip_End ?t" "trip_Summary ?t' = trip_Summary ?t"
    by (simp_all add: redact_def Let_def)
  ultimately show ?thesis by (simp only: EmitPublic_def Let_def)
qed

lemma map_until_mint:
  assumes "\<And>d. mnt d = Inr (url d)"
  shows "map_until (publish_photo t mnt) ps = Inr (map (\<lambda>p. projr (publish_photo t mnt p)) ps)"
  by (rule map_until_total) (simp add: publish_photo_def assms)

text \<open>
  When every asset can be signed, the envelope is answered, it lists every city, place and
  walk of the source in order, every photograph exactly when \<open>sharePhotos\<close> is on, and each
  photograph carries the URL signed for its own asset.
\<close>

theorem public_complete:
  assumes "\<And>d. mnt d = Inr (url d)"
  shows "\<exists>pub. EmitPublic src mnt = Inr pub \<and>
     map pc_ID (pub_Cities pub) = map city_ID (items (src_Cities src)) \<and>
     map pp_ID (pub_Places pub) = map place_ID (items (src_Places src)) \<and>
     map pk_ID (pub_Walks pub) = map walk_ID (items (src_Walks src)) \<and>
     map (\<lambda>p. (pf_ID p, pf_URL p)) (pub_Photos pub) =
       (if trip_SharePhotos (src_Trip src)
        then map (\<lambda>p. (photo_ID p, url (photo_Asset p))) (items (src_Photos src)) else [])"
proof -
  have "publish_cover (src_Trip src) mnt \<noteq> Inl e" for e
    by (auto simp: publish_cover_def assms split: option.splits)
  then obtain c where "publish_cover (src_Trip src) mnt = Inr c"
    by (cases "publish_cover (src_Trip src) mnt") auto
  then show ?thesis
    by (simp add: EmitPublic_def Let_def map_until_mint [OF assms] comp_def publish_city_def
        publish_place_def publish_walk_def publish_photo_def assms)
qed

theorem public_complete_witness:
  "\<exists>pub. EmitPublic
     \<lparr>src_Trip = \<lparr>trip_ID = ''t'', trip_Name = ''T'', trip_CityIDs = None, trip_Start = None,
        trip_End = None, trip_Summary = None, trip_CoverAsset = None, trip_ShareLinkID = None,
        trip_SharePhotos = False, trip_ShareNotes = True, trip_ShareCoordinates = False,
        trip_Shared = True\<rparr>,
      src_Cities = None, src_Places = None,
      src_Photos = Some [\<lparr>photo_ID = ''f'', photo_TripID = ''t'', photo_CityID = ''c'',
        photo_TakenAt = 5, photo_Asset = ''aa'', photo_PlaceID = None, photo_VisitID = None,
        photo_Caption = None, photo_Coordinates = None, photo_AccuracyMetres = None,
        photo_FiledLater = None\<rparr>],
      src_Walks = None\<rparr> (\<lambda>d. Inr (''https://'' @ d)) = Inr pub \<and> pub_Photos pub = []"
  using public_complete [where mnt = "\<lambda>d. Inr (''https://'' @ d)" and url = "\<lambda>d. ''https://'' @ d"
      and src = "\<lparr>src_Trip = \<lparr>trip_ID = ''t'', trip_Name = ''T'', trip_CityIDs = None,
        trip_Start = None, trip_End = None, trip_Summary = None, trip_CoverAsset = None,
        trip_ShareLinkID = None, trip_SharePhotos = False, trip_ShareNotes = True,
        trip_ShareCoordinates = False, trip_Shared = True\<rparr>,
      src_Cities = None, src_Places = None,
      src_Photos = Some [\<lparr>photo_ID = ''f'', photo_TripID = ''t'', photo_CityID = ''c'',
        photo_TakenAt = 5, photo_Asset = ''aa'', photo_PlaceID = None, photo_VisitID = None,
        photo_Caption = None, photo_Coordinates = None, photo_AccuracyMetres = None,
        photo_FiledLater = None\<rparr>],
      src_Walks = None\<rparr>"]
  by auto

end
