(* ===== verification/Http_Errors.thy ===== *)
theory Http_Errors
  imports Logbook_Types Text
begin

section \<open>The error vocabulary (\<^verbatim>\<open>internal/httpx/errors.go\<close>)\<close>

text \<open>
  A closed vocabulary of words, each with its status. A code is a string, and a string outside
  the vocabulary becomes \<open>internal\<close> before it reaches the wire. \<open>DependencyIsDown\<close> decides between
  503 and 500: a network error, a closed connection, an expired context, or a SQLSTATE whose
  class says the server stopped serving. \<open>coder\<close> stands for the domain errors that name their own
  code; no error of the repository does.
\<close>

type_synonym code = string

definition CodeUnauthenticated :: code where "CodeUnauthenticated = ''unauthenticated''"
definition CodeForbidden :: code where "CodeForbidden = ''forbidden''"
definition CodeNotFound :: code where "CodeNotFound = ''not_found''"
definition CodeConflict :: code where "CodeConflict = ''conflict''"
definition CodeInvalidBody :: code where "CodeInvalidBody = ''invalid_body''"
definition CodeInvalidField :: code where "CodeInvalidField = ''invalid_field''"
definition CodeRateLimited :: code where "CodeRateLimited = ''rate_limited''"
definition CodePayloadTooLarge :: code where "CodePayloadTooLarge = ''payload_too_large''"
definition CodeTimeout :: code where "CodeTimeout = ''timeout''"
definition CodeInternal :: code where "CodeInternal = ''internal''"
definition CodeUploadIncomplete :: code where "CodeUploadIncomplete = ''upload_incomplete''"
definition CodeUnsupportedFormat :: code where "CodeUnsupportedFormat = ''unsupported_format''"
definition CodeUnsupportedRoute :: code where "CodeUnsupportedRoute = ''unsupported_route''"

lemmas code_defs = CodeUnauthenticated_def CodeForbidden_def CodeNotFound_def CodeConflict_def
  CodeInvalidBody_def CodeInvalidField_def CodeRateLimited_def CodePayloadTooLarge_def
  CodeTimeout_def CodeInternal_def CodeUploadIncomplete_def CodeUnsupportedFormat_def
  CodeUnsupportedRoute_def

definition statusByCode :: "(code \<times> nat) list" where
  "statusByCode =
     [(CodeUnauthenticated, 401), (CodeForbidden, 403), (CodeNotFound, 404), (CodeConflict, 409),
      (CodeInvalidBody, 400), (CodeInvalidField, 422), (CodeRateLimited, 429),
      (CodePayloadTooLarge, 413), (CodeTimeout, 503), (CodeInternal, 500),
      (CodeUploadIncomplete, 409), (CodeUnsupportedFormat, 406), (CodeUnsupportedRoute, 404)]"

definition Codes :: "code list" where
  "Codes = sort (map fst statusByCode)"

definition StatusFor :: "code \<Rightarrow> nat" where
  "StatusFor c = (case map_of statusByCode c of Some status \<Rightarrow> status | None \<Rightarrow> 500)"

definition known :: "code \<Rightarrow> bool" where
  "known c \<longleftrightarrow> map_of statusByCode c \<noteq> None"

definition serverGaveUp :: "string \<Rightarrow> bool" where
  "serverGaveUp state =
     (if length state < 2 then False
      else if take 2 state \<in> {''08'', ''53'', ''57''} then True
      else state = ''55P03'')"

definition db_down :: "db_error \<Rightarrow> bool" where
  "db_down e = (case e of NetError \<Rightarrow> True | ConnDone \<Rightarrow> True | DeadlineExceeded \<Rightarrow> True
     | SqlState s \<Rightarrow> serverGaveUp s | OtherDriver \<Rightarrow> False)"

definition DependencyIsDown :: "error \<Rightarrow> bool" where
  "DependencyIsDown err = (case err of ErrDB e \<Rightarrow> db_down e | ErrObjects down \<Rightarrow> down | _ \<Rightarrow> False)"

definition CodeFor :: "(error \<Rightarrow> code option) \<Rightarrow> error option \<Rightarrow> code" where
  "CodeFor coder err =
     (case err of
        None \<Rightarrow> CodeInternal
      | Some e \<Rightarrow>
          (case coder e of
             Some c \<Rightarrow> if known c then c else CodeInternal
           | None \<Rightarrow>
               if e = ErrBodyTooLarge then CodePayloadTooLarge
               else if e = ErrInvalidBody then CodeInvalidBody
               else if DependencyIsDown e then CodeTimeout
               else CodeInternal))"

text \<open>The body of an error response; \<open>field\<close> is \<open>omitempty\<close>.\<close>

record errorPayload =
  ep_Code :: code
  ep_Field :: "string option"

definition error_payload :: "code \<Rightarrow> nat \<times> errorPayload" where
  "error_payload c =
     (let c' = (if known c then c else CodeInternal)
      in (StatusFor c', \<lparr>ep_Code = c', ep_Field = None\<rparr>))"

definition field_payload :: "string \<Rightarrow> nat \<times> errorPayload" where
  "field_payload field =
     (StatusFor CodeInvalidField,
      \<lparr>ep_Code = CodeInvalidField, ep_Field = (if field = [] then None else Some field)\<rparr>)"

definition prebuiltBody :: "code \<Rightarrow> string" where
  "prebuiltBody c =
     (let q = CHR 0x22 in
      if c = CodeTimeout \<or> c = CodeInternal \<or> c = CodeUnsupportedRoute
      then ''{'' @ [q] @ ''code'' @ [q] @ '':'' @ [q] @ c @ [q] @ ''}''
      else [])"

text \<open>A failed query is answered with 503 exactly when the server could not serve it: constraint
  violations, serialisation failures and deadlocks are the program's own and answer 500.\<close>

theorem down_or_internal:
  "DependencyIsDown (ErrDB (SqlState s)) \<longleftrightarrow>
     (\<exists>rest. s = ''08'' @ rest \<or> s = ''53'' @ rest \<or> s = ''57'' @ rest) \<or> s = ''55P03''"
proof -
  have pre: "(\<exists>rest. s = [a, b] @ rest) \<longleftrightarrow> take 2 s = [a, b]" for a b
  proof
    assume "take 2 s = [a, b]"
    then have "s = [a, b] @ drop 2 s" by (metis append_take_drop_id)
    then show "\<exists>rest. s = [a, b] @ rest" ..
  qed auto
  have short: "take 2 s \<noteq> [a, b] \<and> s \<noteq> ''55P03''" if "length s < 2" for a b
    using that by auto
  show ?thesis
    unfolding ex_disj_distrib pre
    using short by (auto simp: DependencyIsDown_def db_down_def serverGaveUp_def)
qed

end
