(* ===== verification/Store_Public.thy ===== *)
theory Store_Public
  imports Store_Share Store_Photo Logbook_Public Http_Errors
begin

section \<open>The public read (\<^verbatim>\<open>internal/postgres/share_read.go\<close>, \<^verbatim>\<open>internal/httpapi/public_handlers.go\<close>)\<close>

text \<open>
  \<open>ShareLink\<close> resolves a digest; \<open>PublicLog\<close> reads the source of the envelope inside one snapshot;
  \<open>publicShare\<close> is the handler of \<^verbatim>\<open>GET /l/{token}\<close>, with the digest function \<open>sha\<close> and the signer
  \<open>presign\<close> (\<open>PresignGet\<close> for the public audience) as parameters. The main lemma is that \<open>PublicLog\<close> is
  a function of the rows of the shared trip alone (\<open>share_view\<close>).
\<close>

record share_link =
  link_TravellerID :: id
  link_TripID :: id
  link_Revoked :: bool

definition ShareLink :: "digest \<Rightarrow> share_link tx" where
  "ShareLink hash =
     t_bind (t_query (\<lambda>d. List.find (\<lambda>r. sh_hash r = hash) (share_links d))) (\<lambda>r.
     t_lift (case r of
       None \<Rightarrow> Inl ErrNoShare
     | Some x \<Rightarrow> Inr \<lparr>link_TravellerID = sh_traveller x, link_TripID = sh_trip x,
                     link_Revoked = (sh_revoked x \<noteq> None)\<rparr>))"

definition scan_public_trip :: "trip_row \<Rightarrow> trip" where
  "scan_public_trip r =
     \<lparr>trip_ID = tr_id r, trip_Name = tr_name r, trip_CityIDs = None, trip_Start = tr_started r,
      trip_End = tr_ended r, trip_Summary = tr_summary r, trip_CoverAsset = tr_cover r,
      trip_ShareLinkID = None, trip_SharePhotos = tr_share_photos r,
      trip_ShareNotes = tr_share_notes r, trip_ShareCoordinates = tr_share_coordinates r,
      trip_Shared = False\<rparr>"

definition readPublicTrip :: "id \<Rightarrow> id \<Rightarrow> trip tx" where
  "readPublicTrip t i =
     t_bind (t_query (\<lambda>d. map_option scan_public_trip (find_trip d t i))) (\<lambda>r.
     t_lift (case r of None \<Rightarrow> Inl ErrNoTrip | Some trp \<Rightarrow> Inr trp))"

text \<open>\<open>trip_cities JOIN cities \<dots> ORDER BY tc.ordinal\<close>.\<close>

definition publicCitiesSQL :: "id \<Rightarrow> id \<Rightarrow> database \<Rightarrow> city list" where
  "publicCitiesSQL t i d =
     concat (map (\<lambda>tc. map (\<lambda>c. \<lparr>city_ID = ct_id c, city_Name = ct_name c, city_Country = ct_country c,
                                city_Centre = ct_centre c, city_CoverAsset = None\<rparr>)
               (filter (\<lambda>c. ct_key c = (tc_traveller tc, tc_city tc)) (cities d)))
       (sort_key tc_ordinal (filter (\<lambda>r. tc_traveller r = t \<and> tc_trip r = i) (trip_cities d))))"

definition readPublicCities :: "id \<Rightarrow> id \<Rightarrow> (city slice \<times> id slice) tx" where
  "readPublicCities t i =
     t_bind (t_query (publicCitiesSQL t i)) (\<lambda>cs.
     t_return (appended cs, appended (map city_ID cs)))"

definition on_trip :: "id \<Rightarrow> id \<Rightarrow> visit_row \<Rightarrow> bool" where
  "on_trip t i v \<longleftrightarrow> vs_traveller v = t \<and> vs_trip v = i"

definition scan_public_visit :: "id \<Rightarrow> visit_row \<Rightarrow> visit" where
  "scan_public_visit i v =
     \<lparr>visit_ID = [], visit_PlaceID = vs_place v, visit_TripID = i, visit_At = vs_at v, visit_Note = vs_note v\<rparr>"

definition readPublicVisits :: "id \<Rightarrow> id \<Rightarrow> database \<Rightarrow> id \<Rightarrow> visit slice" where
  "readPublicVisits t i d =
     grouped vs_place (scan_public_visit i)
       (sort_key (\<lambda>v. (collate d (vs_place v), vs_ordinal v, collate d (vs_id v)))
         (filter (on_trip t i) (visits d)))"

definition publicPlacesSQL :: "id \<Rightarrow> id \<Rightarrow> database \<Rightarrow> place_row list" where
  "publicPlacesSQL t i d =
     sort_key (\<lambda>p. collate d (pl_id p))
       (filter (\<lambda>p. pl_traveller p = t \<and>
          list_ex (\<lambda>v. vs_traveller v = pl_traveller p \<and> vs_place v = pl_id p \<and> vs_trip v = i) (visits d))
         (places d))"

definition scan_public_place :: "visit slice \<Rightarrow> place_row \<Rightarrow> place" where
  "scan_public_place vs p =
     \<lparr>place_ID = pl_id p, place_CityID = pl_city p, place_Name = pl_name p, place_Coordinates = pl_at p,
      place_Visits = vs, place_Plan = None, place_CoverAsset = None\<rparr>"

definition readPublicPlaces :: "id \<Rightarrow> id \<Rightarrow> place slice tx" where
  "readPublicPlaces t i =
     t_bind (t_query (readPublicVisits t i)) (\<lambda>vs.
     t_bind (t_query (publicPlacesSQL t i)) (\<lambda>ps.
     t_return (appended (map (\<lambda>p. scan_public_place (vs (pl_id p)) p) ps))))"

definition scan_public_photo :: "id \<Rightarrow> photo_row \<Rightarrow> photo" where
  "scan_public_photo i p =
     \<lparr>photo_ID = ph_id p, photo_TripID = i, photo_CityID = ph_city p, photo_TakenAt = ph_taken p,
      photo_Asset = ph_asset p, photo_PlaceID = ph_place p, photo_VisitID = None,
      photo_Caption = ph_caption p,
      photo_Coordinates = (case (ph_lat p, ph_lng p) of
         (Some a, Some b) \<Rightarrow> Some \<lparr>Lat = a, Lng = b\<rparr> | _ \<Rightarrow> None),
      photo_AccuracyMetres = ph_accuracy p, photo_FiledLater = None\<rparr>"

definition readPublicPhotos :: "id \<Rightarrow> id \<Rightarrow> photo slice tx" where
  "readPublicPhotos t i =
     t_query (\<lambda>d. appended (map (scan_public_photo i)
       (sort_key (\<lambda>p. collate d (ph_id p)) (filter (\<lambda>p. ph_traveller p = t \<and> ph_trip p = i) (photos d)))))"

definition public_walk_rows :: "id \<Rightarrow> id \<Rightarrow> database \<Rightarrow> walk_row list" where
  "public_walk_rows t i d =
     sort_key (\<lambda>w. collate d (wk_id w))
       (filter (\<lambda>w. wk_traveller w = t \<and> wk_trip w = i \<and> \<not> wk_dismissed w) (walks d))"

definition readPublicWalkPoints :: "id \<Rightarrow> id \<Rightarrow> database \<Rightarrow> id \<Rightarrow> latlng slice" where
  "readPublicWalkPoints t i d =
     grouped fst snd (concat (map (\<lambda>w. map (\<lambda>p. (wk_id w, p)) (wk_points w)) (public_walk_rows t i d)))"

definition scan_public_walk :: "id \<Rightarrow> latlng slice \<Rightarrow> walk_row \<Rightarrow> walk" where
  "scan_public_walk i points w =
     \<lparr>walk_ID = wk_id w, walk_TripID = i, walk_CityID = wk_city w, walk_RecordedOn = wk_recorded w,
      walk_DistanceKm = wk_distance w, walk_Points = points, walk_Name = None, walk_Dismissed = False\<rparr>"

definition readPublicWalks :: "id \<Rightarrow> id \<Rightarrow> walk slice tx" where
  "readPublicWalks t i =
     t_bind (t_query (readPublicWalkPoints t i)) (\<lambda>points.
     t_query (\<lambda>d. appended (map (\<lambda>w. scan_public_walk i (points (wk_id w)) w) (public_walk_rows t i d))))"

definition PublicLog :: "id \<Rightarrow> id \<Rightarrow> public_source tx" where
  "PublicLog t i =
     WithReadSnapshot t (\<lambda>_.
       t_bind (readPublicTrip t i) (\<lambda>trp.
       t_bind (readPublicCities t i) (\<lambda>(cs, ids).
       t_bind (readPublicPlaces t i) (\<lambda>ps.
       t_bind (readPublicPhotos t i) (\<lambda>phs.
       t_bind (readPublicWalks t i) (\<lambda>ws.
       t_return \<lparr>src_Trip = trp\<lparr>trip_CityIDs := ids\<rparr>, src_Cities = cs, src_Places = ps,
                 src_Photos = phs, src_Walks = ws\<rparr>))))))"

subsection \<open>The handler\<close>

datatype public_answer = PublicOK public | PublicError code

definition writePublicFailure :: "error \<Rightarrow> code" where
  "writePublicFailure err =
     (if err = ErrNoTrip \<or> err = ErrNoTraveller then CodeNotFound
      else if DependencyIsDown err then CodeTimeout
      else CodeInternal)"

definition publicShare ::
  "hasher \<Rightarrow> (id \<Rightarrow> mint) \<Rightarrow> string \<Rightarrow> txs \<Rightarrow> public_answer \<times> txs" where
  "publicShare sha presign token s =
     (case ShareLink (sha token) s of
        (Inl e, s1) \<Rightarrow> (PublicError (if e = ErrNoShare then CodeNotFound else writePublicFailure e), s1)
      | (Inr link, s1) \<Rightarrow>
          if link_Revoked link then (PublicError CodeNotFound, s1)
          else (case PublicLog (link_TravellerID link) (link_TripID link) s1 of
                  (Inl e, s2) \<Rightarrow> (PublicError (writePublicFailure e), s2)
                | (Inr src, s2) \<Rightarrow>
                    (case EmitPublic src (presign (link_TravellerID link)) of
                       Inl e \<Rightarrow> (PublicError (writePublicFailure e), s2)
                     | Inr envelope \<Rightarrow> (PublicOK envelope, s2))))"

subsection \<open>What the read answers\<close>

definition public_source_of :: "id \<Rightarrow> trip_row \<Rightarrow> database \<Rightarrow> public_source" where
  "public_source_of t r d =
     (let i = tr_id r; cs = publicCitiesSQL t i d in
      \<lparr>src_Trip = (scan_public_trip r)\<lparr>trip_CityIDs := appended (map city_ID cs)\<rparr>,
       src_Cities = appended cs,
       src_Places = appended (map (\<lambda>p. scan_public_place (readPublicVisits t i d (pl_id p)) p) (publicPlacesSQL t i d)),
       src_Photos = appended (map (scan_public_photo i)
         (sort_key (\<lambda>p. collate d (ph_id p)) (filter (\<lambda>p. ph_traveller p = t \<and> ph_trip p = i) (photos d)))),
       src_Walks = appended (map (\<lambda>w. scan_public_walk i (readPublicWalkPoints t i d (wk_id w)) w) (public_walk_rows t i d))\<rparr>)"

lemma PublicLog_db [simp]: "tx_db (snd (PublicLog t i s)) = tx_db s"
  by (simp add: PublicLog_def)

lemma PublicLog_Inr:
  assumes "PublicLog t i s = (Inr src, s')"
  obtains r where "find_trip (tx_db s) t i = Some r" "src = public_source_of t r (tx_db s)"
proof -
  from assms obtain s0 s1 s2 s3 s4 s5 s6 trp cs ids ps phs ws where s0: "tx_db s0 = tx_db s" and
    trp: "readPublicTrip t i s0 = (Inr trp, s1)" and
    cs: "readPublicCities t i s1 = (Inr (cs, ids), s2)" and
    ps: "readPublicPlaces t i s2 = (Inr ps, s3)" and
    phs: "readPublicPhotos t i s3 = (Inr phs, s4)" and
    ws: "readPublicWalks t i s4 = (Inr ws, s5)" and
    src: "src = \<lparr>src_Trip = trp\<lparr>trip_CityIDs := ids\<rparr>, src_Cities = cs, src_Places = ps,
                 src_Photos = phs, src_Walks = ws\<rparr>"
    unfolding PublicLog_def WithReadSnapshot_def
    by (auto simp: t_bind_Inr dest!: t_query_Inr split: prod.splits option.splits)
  have "\<exists>r. find_trip (tx_db s0) t i = Some r \<and> trp = scan_public_trip r \<and> tx_db s1 = tx_db s0"
    using trp by (cases "find_trip (tx_db s0) t i")
      (auto simp: readPublicTrip_def t_bind_Inr dest!: t_query_Inr)
  then obtain r where r: "find_trip (tx_db s) t i = Some r" "trp = scan_public_trip r" "tx_db s1 = tx_db s"
    using s0 by auto
  have cs': "cs = appended (publicCitiesSQL t i (tx_db s))" "ids = appended (map city_ID (publicCitiesSQL t i (tx_db s)))"
    "tx_db s2 = tx_db s"
    using cs r(3) by (auto simp: readPublicCities_def t_bind_Inr dest!: t_query_Inr)
  have ps': "ps = appended (map (\<lambda>p. scan_public_place (readPublicVisits t i (tx_db s) (pl_id p)) p)
      (publicPlacesSQL t i (tx_db s)))" "tx_db s3 = tx_db s"
    using ps cs'(3) by (auto simp: readPublicPlaces_def t_bind_Inr dest!: t_query_Inr)
  have phs': "phs = appended (map (scan_public_photo i) (sort_key (\<lambda>p. collate (tx_db s) (ph_id p))
      (filter (\<lambda>p. ph_traveller p = t \<and> ph_trip p = i) (photos (tx_db s)))))" "tx_db s4 = tx_db s"
    using phs ps'(2) by (auto simp: readPublicPhotos_def dest!: t_query_Inr)
  have ws': "ws = appended (map (\<lambda>w. scan_public_walk i (readPublicWalkPoints t i (tx_db s) (wk_id w)) w)
      (public_walk_rows t i (tx_db s)))"
    using ws phs'(2) by (auto simp: readPublicWalks_def t_bind_Inr dest!: t_query_Inr)
  have "tr_id r = i" using find_trip_Some [OF r(1)] by simp
  with that [OF r(1)] src r(2) cs' ps' phs' ws' show thesis
    by (simp add: public_source_of_def Let_def)
qed

subsection \<open>What the read cannot see\<close>

text \<open>\<open>blind f m\<close>: the answer of \<open>m\<close> is the same on a database and on its image under \<open>f\<close>.\<close>

definition blind :: "(database \<Rightarrow> database) \<Rightarrow> 'a tx \<Rightarrow> bool" where
  "blind f m \<longleftrightarrow> (\<forall>s. m (s\<lparr>tx_db := f (tx_db s)\<rparr>) =
     (case m s of (r, s') \<Rightarrow> (r, s'\<lparr>tx_db := f (tx_db s')\<rparr>)))"

lemma blind_return: "blind f (t_return x)"
  by (simp add: blind_def t_return_def)

lemma blind_lift: "blind f (t_lift r)"
  by (simp add: blind_def t_lift_def)

lemma blind_query: "(\<And>d. q (f d) = q d) \<Longrightarrow> blind f (t_query q)"
  by (auto simp: blind_def t_query_def t_sql_def next_fault_def split: list.splits option.splits)

lemma blind_bind:
  assumes "blind f m" "\<And>x. blind f (k x)"
  shows "blind f (t_bind m k)"
  unfolding blind_def
proof
  fix s
  obtain r s1 where m: "m s = (r, s1)" by (cases "m s")
  then have "m (s\<lparr>tx_db := f (tx_db s)\<rparr>) = (r, s1\<lparr>tx_db := f (tx_db s1)\<rparr>)"
    using assms(1) by (simp add: blind_def)
  with m assms(2) show "t_bind m k (s\<lparr>tx_db := f (tx_db s)\<rparr>) =
      (case t_bind m k s of (r, s') \<Rightarrow> (r, s'\<lparr>tx_db := f (tx_db s')\<rparr>))"
    by (cases r) (simp_all add: t_bind_def blind_def)
qed

lemma blind_option:
  assumes "blind f m" "\<And>x. blind f (k x)"
  shows "blind f (case p of None \<Rightarrow> m | Some x \<Rightarrow> k x)"
  using assms by (cases p) simp_all

lemma blind_pair:
  assumes "\<And>a b. blind f (k a b)"
  shows "blind f (case p of (a, b) \<Rightarrow> k a b)"
  using assms by (cases p) simp

lemmas blind_intros = blind_return blind_lift blind_query blind_bind blind_option blind_pair

lemma blind_snapshot:
  assumes "\<And>d. version_of (f d) t = version_of d t" "\<And>v. blind f (fn v)"
  shows "blind f (WithReadSnapshot t fn)"
proof -
  let ?body = "t_bind (t_query (\<lambda>_. ())) (\<lambda>_. t_bind (t_query (\<lambda>d. version_of d t)) (\<lambda>v.
             case v of None \<Rightarrow> t_lift (Inl ErrNoTraveller) | Some n \<Rightarrow> fn n))"
  have "blind f ?body" using assms by (intro blind_intros) simp_all
  then show ?thesis
    unfolding blind_def WithReadSnapshot_def by (simp split: prod.splits)
qed

text \<open>
  The rows a share of trip \<open>i\<close> of \<open>t\<close> may draw on: the trip, its itinerary and the cities on it, the
  visits on it and the places they are at, its photographs and its walks that are not dismissed,
  each without the columns the envelope never carries.
\<close>

definition share_view :: "id \<Rightarrow> id \<Rightarrow> database \<Rightarrow> database" where
  "share_view t i d = d\<lparr>
     travellers := map (\<lambda>r. r\<lparr>tv_email := [], tv_name := None\<rparr>) (filter (\<lambda>r. tv_id r = t) (travellers d)),
     media_objects := [],
     share_links := [],
     trips := filter (\<lambda>r. tr_key r = (t, i)) (trips d),
     trip_cities := filter (\<lambda>r. tc_traveller r = t \<and> tc_trip r = i) (trip_cities d),
     cities := map (\<lambda>c. c\<lparr>ct_cover := None\<rparr>) (filter (\<lambda>c. list_ex (\<lambda>r. tc_traveller r = t \<and> tc_trip r = i \<and>
         ct_key c = (tc_traveller r, tc_city r)) (trip_cities d)) (cities d)),
     visits := filter (on_trip t i) (visits d),
     places := map (\<lambda>p. p\<lparr>pl_plan := None, pl_cover := None\<rparr>) (filter (\<lambda>p. pl_traveller p = t \<and>
         list_ex (\<lambda>v. on_trip t i v \<and> vs_place v = pl_id p) (visits d)) (places d)),
     photos := map (\<lambda>f. f\<lparr>ph_visit := None, ph_later := None\<rparr>)
         (filter (\<lambda>f. ph_traveller f = t \<and> ph_trip f = i) (photos d)),
     walks := map (\<lambda>w. w\<lparr>wk_name := None\<rparr>)
         (filter (\<lambda>w. wk_traveller w = t \<and> wk_trip w = i \<and> \<not> wk_dismissed w) (walks d))\<rparr>"

lemma share_view_simps [simp]: "collate (share_view t i d) = collate d"
  by (simp add: share_view_def)

lemma version_of_share_view: "version_of (share_view t i d) t = version_of d t"
proof -
  have "map_of (map (\<lambda>r. (tv_id r, tv_version r)) (map (\<lambda>r. r\<lparr>tv_email := [], tv_name := None\<rparr>)
      (filter (\<lambda>r. tv_id r = t) rs))) t = map_of (map (\<lambda>r. (tv_id r, tv_version r)) rs) t" for rs
    by (induction rs) auto
  then show ?thesis by (simp add: version_of_map_of share_view_def)
qed

lemma find_trip_share_view: "find_trip (share_view t i d) t i = find_trip d t i"
  by (simp add: find_trip_def share_view_def find_cong_filter)

lemma filter_map_inv: "(\<And>x. p (g x) = p x) \<Longrightarrow> filter p (map g xs) = map g (filter p xs)"
  by (induction xs) auto

lemma publicCitiesSQL_share_view: "publicCitiesSQL t i (share_view t i d) = publicCitiesSQL t i d"
proof -
  let ?tcs = "filter (\<lambda>r. tc_traveller r = t \<and> tc_trip r = i) (trip_cities d)"
  let ?g = "\<lambda>c. c\<lparr>ct_cover := None\<rparr>"
  let ?out = "\<lambda>c. \<lparr>city_ID = ct_id c, city_Name = ct_name c, city_Country = ct_country c,
      city_Centre = ct_centre c, city_CoverAsset = None\<rparr>"
  have cs: "map ?out (filter (\<lambda>c. ct_key c = (tc_traveller tc, tc_city tc)) (cities (share_view t i d))) =
      map ?out (filter (\<lambda>c. ct_key c = (tc_traveller tc, tc_city tc)) (cities d))"
    if "tc \<in> set ?tcs" for tc
  proof -
    have keep: "(list_ex (\<lambda>r. tc_traveller r = t \<and> tc_trip r = i \<and> ct_key c = (tc_traveller r, tc_city r))
        (trip_cities d) \<and> ct_key c = (tc_traveller tc, tc_city tc)) = (ct_key c = (tc_traveller tc, tc_city tc))" for c
      using that by (auto simp: list_ex_iff)
    have "filter (\<lambda>c. ct_key c = (tc_traveller tc, tc_city tc)) (cities (share_view t i d)) =
        map ?g (filter (\<lambda>c. ct_key c = (tc_traveller tc, tc_city tc)) (cities d))"
      by (simp add: share_view_def filter_map_inv ct_key_def keep [unfolded ct_key_def, simplified])
    then show ?thesis by (simp add: comp_def)
  qed
  have tcs: "filter (\<lambda>r. tc_traveller r = t \<and> tc_trip r = i) (trip_cities (share_view t i d)) = ?tcs"
    by (simp add: share_view_def)
  show ?thesis
    unfolding publicCitiesSQL_def tcs
    by (rule arg_cong [where f = concat], rule map_cong, rule refl, rule cs) simp
qed

lemma readPublicVisits_share_view: "readPublicVisits t i (share_view t i d) = readPublicVisits t i d"
  by (simp add: readPublicVisits_def share_view_def)

lemma publicPlacesSQL_share_view:
  "map (\<lambda>p. scan_public_place (f (pl_id p)) p) (publicPlacesSQL t i (share_view t i d)) =
     map (\<lambda>p. scan_public_place (f (pl_id p)) p) (publicPlacesSQL t i d)"
proof -
  let ?g = "\<lambda>p. p\<lparr>pl_plan := None, pl_cover := None\<rparr>"
  let ?here = "\<lambda>p. pl_traveller p = t \<and> list_ex (\<lambda>v. on_trip t i v \<and> vs_place v = pl_id p) (visits d)"
  have keep: "(pl_traveller p = t \<and> list_ex (\<lambda>v. vs_traveller v = pl_traveller p \<and> vs_place v = pl_id p \<and>
      vs_trip v = i) (visits (share_view t i d))) = ?here p" for p
    by (auto simp: list_ex_iff share_view_def on_trip_def)
  have here: "(pl_traveller p = t \<and> list_ex (\<lambda>v. vs_traveller v = pl_traveller p \<and> vs_place v = pl_id p \<and>
      vs_trip v = i) (visits d)) = ?here p" for p
    by (auto simp: list_ex_iff on_trip_def)
  have "places (share_view t i d) = map ?g (filter ?here (places d))"
    by (simp add: share_view_def)
  then have "publicPlacesSQL t i (share_view t i d) = map ?g (publicPlacesSQL t i d)"
    unfolding publicPlacesSQL_def keep here by (simp add: filter_map_inv sort_key_map)
  then show ?thesis by (simp add: scan_public_place_def comp_def)
qed

lemma public_photos_share_view:
  "map (scan_public_photo i) (sort_key (\<lambda>p. collate (share_view t i d) (ph_id p))
       (filter (\<lambda>p. ph_traveller p = t \<and> ph_trip p = i) (photos (share_view t i d)))) =
     map (scan_public_photo i) (sort_key (\<lambda>p. collate d (ph_id p))
       (filter (\<lambda>p. ph_traveller p = t \<and> ph_trip p = i) (photos d)))"
proof -
  let ?g = "\<lambda>f. f\<lparr>ph_visit := None, ph_later := None\<rparr>"
  have "photos (share_view t i d) = map ?g (filter (\<lambda>f. ph_traveller f = t \<and> ph_trip f = i) (photos d))"
    by (simp add: share_view_def)
  then show ?thesis by (simp add: filter_map_inv sort_key_map comp_def scan_public_photo_def)
qed

lemma public_walk_rows_share_view:
  "public_walk_rows t i (share_view t i d) = map (\<lambda>w. w\<lparr>wk_name := None\<rparr>) (public_walk_rows t i d)"
proof -
  have "walks (share_view t i d) = map (\<lambda>w. w\<lparr>wk_name := None\<rparr>)
      (filter (\<lambda>w. wk_traveller w = t \<and> wk_trip w = i \<and> \<not> wk_dismissed w) (walks d))"
    by (simp add: share_view_def)
  then show ?thesis by (simp add: public_walk_rows_def filter_map_inv sort_key_map)
qed

lemma PublicLog_blind: "blind (share_view t i) (PublicLog t i)"
proof -
  have places: "blind (share_view t i) (readPublicPlaces t i)"
  proof -
    have "readPublicPlaces t i = t_bind (t_query (readPublicVisits t i)) (\<lambda>vs.
        t_query (\<lambda>d. appended (map (\<lambda>p. scan_public_place (vs (pl_id p)) p) (publicPlacesSQL t i d))))"
    proof
      fix s
      show "readPublicPlaces t i s = t_bind (t_query (readPublicVisits t i)) (\<lambda>vs.
        t_query (\<lambda>d. appended (map (\<lambda>p. scan_public_place (vs (pl_id p)) p) (publicPlacesSQL t i d)))) s"
        by (auto simp: readPublicPlaces_def t_bind_def t_query_def t_sql_def t_return_def
            split: prod.splits sum.splits option.splits)
    qed
    then show ?thesis
      by (simp only:)
        (intro blind_bind blind_query; simp add: readPublicVisits_share_view publicPlacesSQL_share_view)
  qed
  have walks: "blind (share_view t i) (readPublicWalks t i)"
    unfolding readPublicWalks_def
    by (intro blind_bind blind_query)
      (simp_all add: readPublicWalkPoints_def public_walk_rows_share_view comp_def scan_public_walk_def)
  have photos: "blind (share_view t i) (readPublicPhotos t i)"
    unfolding readPublicPhotos_def
    by (intro blind_query arg_cong [where f = appended] public_photos_share_view)
  show ?thesis
    unfolding PublicLog_def readPublicTrip_def readPublicCities_def
    by (intro blind_snapshot blind_bind blind_query blind_lift blind_return blind_pair places walks photos)
      (simp_all add: version_of_share_view find_trip_share_view publicCitiesSQL_share_view)
qed

lemma PublicLog_share_view:
  assumes "share_view t i (tx_db s1) = share_view t i (tx_db s2)" "tx_faults s1 = tx_faults s2"
  shows "fst (PublicLog t i s1) = fst (PublicLog t i s2)"
proof -
  have "fst (PublicLog t i s) = fst (PublicLog t i (s\<lparr>tx_db := share_view t i (tx_db s)\<rparr>))" for s
    using PublicLog_blind [of t i] by (simp add: blind_def split: prod.splits)
  moreover have "s1\<lparr>tx_db := share_view t i (tx_db s1)\<rparr> = s2\<lparr>tx_db := share_view t i (tx_db s2)\<rparr>"
    using assms by (cases s1; cases s2) simp
  ultimately show ?thesis by metis
qed

subsection \<open>The answer to a stranger\<close>

definition link_row :: "database \<Rightarrow> digest \<Rightarrow> share_row option" where
  "link_row d hash = List.find (\<lambda>r. sh_hash r = hash) (share_links d)"

lemma publicShare_by_link:
  "publicShare sha presign token s =
     (case next_fault s of
        (Some f, s1) \<Rightarrow> (PublicError (writePublicFailure (ErrDB (fault_error f))), s1)
      | (None, s1) \<Rightarrow>
          (case link_row (tx_db s1) (sha token) of
             None \<Rightarrow> (PublicError CodeNotFound, s1)
           | Some r \<Rightarrow>
               if sh_revoked r \<noteq> None then (PublicError CodeNotFound, s1)
               else (case PublicLog (sh_traveller r) (sh_trip r) s1 of
                       (Inl e, s2) \<Rightarrow> (PublicError (writePublicFailure e), s2)
                     | (Inr src, s2) \<Rightarrow>
                         (case EmitPublic src (presign (sh_traveller r)) of
                            Inl e \<Rightarrow> (PublicError (writePublicFailure e), s2)
                          | Inr envelope \<Rightarrow> (PublicOK envelope, s2)))))"
  by (auto simp: publicShare_def ShareLink_def t_bind_def t_query_def t_sql_def t_lift_def link_row_def
      split: option.splits prod.splits sum.splits)

text \<open>C6: What a stranger is shown is a function of the shared trip's own rows. Two databases with
  the same link behind the token and the same \<open>share_view\<close> of that link's trip answer alike, under
  every schedule of driver faults: other travellers, other trips, the visits other trips made to
  the same places, plans, walk names, dismissed walks, filing decisions and the traveller's name
  and address cannot be read off the answer.\<close>

theorem public_answer_depends_only_on_the_share:
  assumes "link_row d1 (sha token) = link_row d2 (sha token)"
    and "\<forall>r. link_row d1 (sha token) = Some r \<longrightarrow>
      share_view (sh_traveller r) (sh_trip r) d1 = share_view (sh_traveller r) (sh_trip r) d2"
  shows "fst (publicShare sha presign token \<lparr>tx_db = d1, tx_faults = fs\<rparr>) =
    fst (publicShare sha presign token \<lparr>tx_db = d2, tx_faults = fs\<rparr>)"
proof -
  obtain f fs' where nf: "next_fault \<lparr>tx_db = d, tx_faults = fs\<rparr> = (f, \<lparr>tx_db = d, tx_faults = fs'\<rparr>)" for d
    by (cases fs) (auto simp: next_fault_def)
  show ?thesis
  proof (cases f)
    case None
    show ?thesis
    proof (cases "link_row d1 (sha token)")
      case (Some r)
      let ?s = "\<lambda>d. \<lparr>tx_db = d, tx_faults = fs'\<rparr>"
      have "fst (PublicLog (sh_traveller r) (sh_trip r) (?s d1)) = fst (PublicLog (sh_traveller r) (sh_trip r) (?s d2))"
        using assms(2) Some by (intro PublicLog_share_view) simp_all
      then obtain x s1 s2 where "PublicLog (sh_traveller r) (sh_trip r) (?s d1) = (x, s1)"
        "PublicLog (sh_traveller r) (sh_trip r) (?s d2) = (x, s2)"
        by (metis prod.collapse)
      with None Some assms(1) nf [of d1] nf [of d2] show ?thesis
        by (cases x) (simp_all add: publicShare_by_link split: sum.splits)
    qed (use None assms(1) nf [of d1] nf [of d2] in \<open>simp add: publicShare_by_link\<close>)
  qed (simp add: publicShare_by_link nf)
qed

theorem public_answer_depends_only_on_the_share_witness:
  "fst (publicShare (\<lambda>_. hash_a) (\<lambda>_ x. Inr x) ''abcdefghijkl'' \<lparr>tx_db = sample, tx_faults = []\<rparr>) =
   fst (publicShare (\<lambda>_. hash_a) (\<lambda>_ x. Inr x) ''abcdefghijkl''
     \<lparr>tx_db = sample\<lparr>travellers := map (\<lambda>r. r\<lparr>tv_email := ''secret''\<rparr>) (travellers sample), media_objects := []\<rparr>,
      tx_faults = []\<rparr>)"
proof (rule public_answer_depends_only_on_the_share)
  let ?d = "sample\<lparr>travellers := map (\<lambda>r. r\<lparr>tv_email := ''secret''\<rparr>) (travellers sample), media_objects := []\<rparr>"
  show "link_row sample ((\<lambda>_. hash_a) ''abcdefghijkl'') = link_row ?d ((\<lambda>_. hash_a) ''abcdefghijkl'')"
    by (simp add: link_row_def)
  have "share_view t i sample = share_view t i ?d" for t i
    by (simp add: share_view_def filter_map_inv comp_def)
  then show "\<forall>r. link_row sample ((\<lambda>_. hash_a) ''abcdefghijkl'') = Some r \<longrightarrow>
      share_view (sh_traveller r) (sh_trip r) sample = share_view (sh_traveller r) (sh_trip r) ?d"
    by simp
qed

text \<open>C7: Once a stop has succeeded, every token that ever opened that trip is answered 404, as an
  unknown token is, and so it stays for as long as the link rows do.\<close>

theorem stopped_share_is_not_found:
  assumes "StopSharing now t i s = (Inr (trp, v), s')" "distinct (map sh_hash (share_links d))"
    "share_links d = share_links (tx_db s')" "r \<in> set (share_links d)" "sh_traveller r = t" "sh_trip r = i"
    "sha token = sh_hash r"
  shows "publicShare sha presign token (calm d) = (PublicError CodeNotFound, calm d)"
proof -
  have live: "live_links (tx_db s') t i = []"
  proof -
    from assms(1) share_bodies_sound(2) obtain s1 s2 where body: "unshare now t i s1 = (Inr (), s2)"
      and s2: "tx_db s' = tx_db s2"
      unfolding StopSharing_def by (rule share_write_tx_Inr)
    from body obtain d3 where rev: "revokeLiveLinkSQL now t i (tx_db s1) = Inr d3"
      and res: "resetShareFlagsSQL t i d3 = Inr (tx_db s2)"
      unfolding unshare_def by (rule t_exec_exec)
    have "tx_db s2 = d3\<lparr>trips := upd_rows (\<lambda>r. tr_key r = (t, i)) default_flags (trips d3)\<rparr>"
      using res by (simp add: flag_statements)
    then have "share_links (tx_db s2) = share_links d3" by simp
    with links_revoked(1) [OF rev] s2 show ?thesis by (simp add: live_links_def)
  qed
  then have "sh_revoked r \<noteq> None"
    using assms(3-6) by (auto simp: live_links_def live_on_def filter_empty_conv)
  moreover have "link_row d (sha token) = Some r"
    unfolding link_row_def using find_unique [OF assms(2,4)] assms(7) by simp
  ultimately show ?thesis by (simp add: publicShare_by_link)
qed

theorem stopped_share_is_not_found_witness:
  "publicShare (\<lambda>_. hash_a) (\<lambda>_ x. Inr x) ''abcdefghijkl''
     (calm (tx_db (snd (StopSharing 200 ''u1'' ''t1'' (calm sample))))) =
   (PublicError CodeNotFound, calm (tx_db (snd (StopSharing 200 ''u1'' ''t1'' (calm sample)))))"
proof -
  let ?d = "tx_db (snd (StopSharing 200 ''u1'' ''t1'' (calm sample)))"
  let ?r = "\<lparr>sh_traveller = ''u1'', sh_trip = ''t1'', sh_hash = hash_a, sh_created = 100, sh_revoked = Some 200\<rparr>"
  have "\<not> isl (fst (StopSharing 200 ''u1'' ''t1'' (calm sample)))" by code_simp
  then obtain x s' where run: "StopSharing 200 ''u1'' ''t1'' (calm sample) = (Inr x, s')" by (rule ran)
  obtain trp v where x: "x = (trp, v)" by (metis prod.exhaust)
  have "share_links ?d = [?r]" by code_simp
  then have "distinct (map sh_hash (share_links ?d))" "?r \<in> set (share_links ?d)" by simp_all
  with stopped_share_is_not_found [of 200 "''u1''" "''t1''" "calm sample" trp v s' ?d ?r "\<lambda>_. hash_a"
      "''abcdefghijkl''" "\<lambda>_ x. Inr x"] run x
  show ?thesis by simp
qed

lemma PublicLog_calm:
  assumes "find_trip d t i = Some row" "version_of d t = Some v"
  shows "PublicLog t i (calm d) = (Inr (public_source_of t row d), calm d)"
proof -
  have "tr_id row = i" using find_trip_Some [OF assms(1)] by simp
  with assms show ?thesis
    by (simp add: PublicLog_def WithReadSnapshot_def readPublicTrip_def readPublicCities_def
        readPublicPlaces_def readPublicPhotos_def readPublicWalks_def t_bind_def t_lift_def t_return_def
        public_source_of_def Let_def)
qed

text \<open>With a signer that signs, every source has an envelope.\<close>

lemma EmitPublic_total:
  assumes "\<forall>x. \<exists>url. presign x = Inr url"
  obtains env where "EmitPublic src presign = Inr env" "pt_ID (pub_Trip env) = trip_ID (src_Trip src)"
    "length (pub_Photos env) = (if trip_SharePhotos (src_Trip src) then length (items (src_Photos src)) else 0)"
proof -
  have "\<exists>ys. map_until (publish_photo tr presign) xs = Inr ys \<and> length ys = length xs" for tr xs
  proof (induction xs)
    case (Cons p xs)
    obtain url where "presign (photo_Asset p) = Inr url" using assms by blast
    with Cons show ?case by (auto simp: publish_photo_def and_then_def)
  qed simp
  then obtain ys where ys: "map_until (publish_photo (src_Trip src) presign) (items (src_Photos src)) = Inr ys"
    "length ys = length (items (src_Photos src))" by blast
  have "\<exists>c. publish_cover (src_Trip src) presign = Inr c"
  proof (cases "trip_CoverAsset (src_Trip src)")
    case (Some a)
    obtain url where "presign a = Inr url" using assms by blast
    with Some show ?thesis by (simp add: publish_cover_def and_then_def)
  qed (simp add: publish_cover_def)
  then obtain c where c: "publish_cover (src_Trip src) presign = Inr c" ..
  have "\<exists>env. EmitPublic src presign = Inr env \<and> pt_ID (pub_Trip env) = trip_ID (src_Trip src) \<and>
      pub_Photos env = (if trip_SharePhotos (src_Trip src) then ys else [])"
    using c ys(1) by (simp add: EmitPublic_def Let_def and_then_def)
  then obtain env where "EmitPublic src presign = Inr env" "pt_ID (pub_Trip env) = trip_ID (src_Trip src)"
    "pub_Photos env = (if trip_SharePhotos (src_Trip src) then ys else [])" by blast
  with that ys(2) show thesis by simp
qed

text \<open>C8: A live link answers: with a driver that does not fail and a signer that signs, the holder
  of a token whose link is live gets the envelope of the trip, with every photograph exactly when
  photographs are shared.\<close>

theorem live_share_answers:
  assumes "schema_ok d" "r \<in> set (share_links d)" "sh_revoked r = None" "sha token = sh_hash r"
    "\<forall>t x. \<exists>url. presign t x = Inr url"
  shows "\<exists>env. publicShare sha presign token (calm d) = (PublicOK env, calm d) \<and>
     pt_ID (pub_Trip env) = sh_trip r \<and>
     length (pub_Photos env) = (case find_trip d (sh_traveller r) (sh_trip r) of
       None \<Rightarrow> 0 | Some row \<Rightarrow> if tr_share_photos row
         then length (filter (\<lambda>p. ph_traveller p = sh_traveller r \<and> ph_trip p = sh_trip r) (photos d)) else 0)"
proof -
  let ?t = "sh_traveller r" and ?i = "sh_trip r"
  have fk: "has_traveller d ?t" "has_trip d ?t ?i"
    using schema_shares(4) [OF assms(1)] assms(2) by (auto simp: list_all_iff share_fk_def)
  obtain row where row: "find_trip d ?t ?i = Some row"
    using fk(2) by (cases "find_trip d ?t ?i") (auto simp: has_trip_def find_trip_def find_None)
  obtain v where v: "version_of d ?t = Some v"
    using fk(1) by (cases "find_traveller d ?t")
      (auto simp: has_traveller_def version_of_def find_traveller_def find_None)
  let ?src = "public_source_of ?t row d"
  obtain env where env: "EmitPublic ?src (presign ?t) = Inr env" "pt_ID (pub_Trip env) = trip_ID (src_Trip ?src)"
    "length (pub_Photos env) = (if trip_SharePhotos (src_Trip ?src) then length (items (src_Photos ?src)) else 0)"
    using assms(5) by (metis EmitPublic_total)
  have "link_row d (sha token) = Some r"
    unfolding link_row_def using find_unique [OF schema_shares(1) [OF assms(1)] assms(2)] assms(4) by simp
  then have "publicShare sha presign token (calm d) = (PublicOK env, calm d)"
    using assms(3) PublicLog_calm [OF row v] env(1) by (simp add: publicShare_by_link)
  with env(2,3) row find_trip_Some [OF row] show ?thesis
    by (simp add: public_source_of_def Let_def scan_public_trip_def)
qed

theorem live_share_answers_witness:
  "\<exists>env. publicShare (\<lambda>_. hash_a) (\<lambda>_ x. Inr x) ''abcdefghijkl'' (calm sample) = (PublicOK env, calm sample) \<and>
     pt_ID (pub_Trip env) = ''t1''"
proof -
  let ?r = "\<lparr>sh_traveller = ''u1'', sh_trip = ''t1'', sh_hash = hash_a, sh_created = 100, sh_revoked = None\<rparr>"
  have "?r \<in> set (share_links sample)" by code_simp
  then show ?thesis
    using live_share_answers [OF sample_ok, of ?r "\<lambda>_. hash_a" "''abcdefghijkl''" "\<lambda>_ x. Inr x"] by auto
qed

text \<open>A photograph filed at a place keeps naming the place when its trip is changed. If the new
  trip never visited that place, the public envelope of the new trip carries the place's id on
  the photograph and does not carry the place.\<close>

theorem moved_photo_publishes_foreign_place:
  "let before = sample\<lparr>visits := filter (\<lambda>v. vs_id v = ''v1'') (visits sample)\<rparr>;
       moved = tx_db (snd (PutPhoto ''u1'' sample_photo_write (calm before)));
       src = projr (fst (PublicLog ''u1'' ''t2'' (calm moved)))
   in schema_ok moved \<and> src_Places src = None \<and>
      list_ex (\<lambda>p. photo_PlaceID p = Some ''p1'') (items (src_Photos src))"
  by code_simp

end
