(* ===== verification/Object_Store.thy ===== *)
theory Object_Store
  imports Text "HOL-Library.AList"
begin

section \<open>The bucket (\<^verbatim>\<open>internal/media\<close>)\<close>

text \<open>
  Keys and uploads (\<^verbatim>\<open>store.go\<close>, \<^verbatim>\<open>keys.go\<close>), the split of a listed key (\<^verbatim>\<open>list.go\<close>) and the
  in-process twin (\<^verbatim>\<open>memory.go\<close>) with its map from paths to attributes. The locale
  \<open>object_store\<close> states what the rest of the application relies on: an object is there after a
  successful upload with the attributes that were signed, a content address is written once,
  and deleting forgets exactly one object. SHA-256 is a parameter.

  The signed URLs (\<open>PresignGet\<close>, \<open>PresignPut\<close>) are opaque to the application; the checks made
  before signing are \<open>checkUpload\<close> and \<open>Address\<close>.
\<close>

record object_key =
  key_Traveller :: string
  key_Object :: string

record upload =
  up_SHA256 :: string
  up_ByteSize :: int
  up_ContentType :: string

record attributes =
  at_Size :: int
  at_ContentType :: string
  at_SHA256 :: string

datatype object_error =
    ErrNoSuchObject
  | BadTraveller | BadDigest
  | DigestMismatch | BadByteSize | BadContentType
  | NoSuchBucket | PreconditionFailed | SignatureDoesNotMatch | ChecksumMismatch
  | Unreachable

subsection \<open>Addresses\<close>

definition is_hex :: "char \<Rightarrow> bool" where
  "is_hex c \<longleftrightarrow> is_digit c \<or> in_range (CHR ''a'') (CHR ''f'') c \<or> in_range (CHR ''A'') (CHR ''F'') c"

definition digestRe :: "string \<Rightarrow> bool" where
  "digestRe s \<longleftrightarrow> length s = 64 \<and> list_all (\<lambda>c. is_digit c \<or> in_range (CHR ''a'') (CHR ''f'') c) s"

definition travellerRe :: "string \<Rightarrow> bool" where
  "travellerRe s \<longleftrightarrow> length s = 36 \<and>
     list_all (\<lambda>i. if i \<in> {8, 13, 18, 23} then s ! i = CHR ''-'' else is_hex (s ! i)) [0..<36]"

text \<open>\<open>hex.DecodeString\<close> and \<open>base64.StdEncoding.EncodeToString\<close>, over byte values.\<close>

definition hex_val :: "char \<Rightarrow> nat option" where
  "hex_val c =
     (if is_digit c then Some (of_char c - 48)
      else if in_range (CHR ''a'') (CHR ''f'') c then Some (of_char c - 87)
      else if in_range (CHR ''A'') (CHR ''F'') c then Some (of_char c - 55)
      else None)"

fun DecodeString :: "string \<Rightarrow> nat list option" where
  "DecodeString [] = Some []"
| "DecodeString [_] = None"
| "DecodeString (a # b # s) =
     (case (hex_val a, hex_val b, DecodeString s) of
        (Some x, Some y, Some r) \<Rightarrow> Some ((16 * x + y) # r)
      | _ \<Rightarrow> None)"

definition b64_char :: "nat \<Rightarrow> char" where
  "b64_char n = char_of (if n < 26 then 65 + n else if n < 52 then 71 + n else if n < 62 then n - 4
     else if n = 62 then 43 else 47 :: nat)"

fun EncodeToString :: "nat list \<Rightarrow> string" where
  "EncodeToString [] = []"
| "EncodeToString [a] = [b64_char (a div 4), b64_char (a mod 4 * 16), CHR ''='', CHR ''='']"
| "EncodeToString [a, b] =
     [b64_char (a div 4), b64_char (a mod 4 * 16 + b div 16), b64_char (b mod 16 * 4), CHR ''='']"
| "EncodeToString (a # b # c # s) =
     [b64_char (a div 4), b64_char (a mod 4 * 16 + b div 16), b64_char (b mod 16 * 4 + c div 64),
      b64_char (c mod 64)] @ EncodeToString s"

definition Address :: "string \<Rightarrow> string \<Rightarrow> object_error + (string \<times> string)" where
  "Address traveller hexDigest =
     (if \<not> travellerRe traveller then Inl BadTraveller
      else if \<not> digestRe hexDigest then Inl BadDigest
      else case DecodeString hexDigest of
             None \<Rightarrow> Inl BadDigest
           | Some raw \<Rightarrow> Inr (traveller @ ''/'' @ hexDigest, EncodeToString raw))"

definition splitKey :: "string \<Rightarrow> (string \<times> string) option" where
  "splitKey key =
     (case Cut (CHR ''/'') key of
        None \<Rightarrow> None
      | Some (traveller, object) \<Rightarrow>
          if traveller = [] \<or> object = [] then None
          else if CHR ''/'' \<in> set object then None
          else Some (traveller, object))"

definition checkUpload :: "object_key \<Rightarrow> upload \<Rightarrow> object_error + unit" where
  "checkUpload key up =
     (if up_SHA256 up \<noteq> key_Object key then Inl DigestMismatch
      else if up_ByteSize up \<le> 0 then Inl BadByteSize
      else if TrimSpace (up_ContentType up) = [] then Inl BadContentType
      else Inr ())"

definition uploadHeaders :: "upload \<Rightarrow> string \<Rightarrow> (string \<times> string) list" where
  "uploadHeaders up checksum =
     [(''x-amz-checksum-sha256'', checksum), (''content-type'', up_ContentType up),
      (''content-length'', FormatInt (up_ByteSize up)), (''if-none-match'', ''*'')]"

subsection \<open>The in-process twin\<close>

record memory =
  mem_made :: bool
  mem_objects :: "(string \<times> attributes) list"

definition NewMemory :: memory where
  "NewMemory = \<lparr>mem_made = False, mem_objects = []\<rparr>"

definition EnsureBucket :: "memory \<Rightarrow> memory" where
  "EnsureBucket m = m\<lparr>mem_made := True\<rparr>"

definition Stat :: "memory \<Rightarrow> object_key \<Rightarrow> object_error + attributes" where
  "Stat m key =
     and_then (Address (key_Traveller key) (key_Object key)) (\<lambda>(path, _).
       if \<not> mem_made m then Inl ErrNoSuchObject
       else case map_of (mem_objects m) path of None \<Rightarrow> Inl ErrNoSuchObject | Some got \<Rightarrow> Inr got)"

text \<open>\<open>sha\<close> is the hexadecimal SHA-256 of the body.\<close>

definition Put :: "(string \<Rightarrow> string) \<Rightarrow> object_key \<Rightarrow> upload \<Rightarrow> string \<Rightarrow> memory \<Rightarrow> object_error + memory" where
  "Put sha key up body m =
     and_then (checkUpload key up) (\<lambda>_.
     and_then (Address (key_Traveller key) (key_Object key)) (\<lambda>(path, _).
       if \<not> mem_made m then Inl NoSuchBucket
       else if map_of (mem_objects m) path \<noteq> None then Inl PreconditionFailed
       else if int (length body) \<noteq> up_ByteSize up then Inl SignatureDoesNotMatch
       else if sha body \<noteq> key_Object key then Inl ChecksumMismatch
       else Inr (m\<lparr>mem_objects := AList.update path
              \<lparr>at_Size = up_ByteSize up, at_ContentType = up_ContentType up, at_SHA256 = key_Object key\<rparr>
              (mem_objects m)\<rparr>)))"

definition PutWithoutChecksum ::
  "object_key \<Rightarrow> upload \<Rightarrow> string \<Rightarrow> memory \<Rightarrow> object_error + memory" where
  "PutWithoutChecksum key up body m =
     and_then (Address (key_Traveller key) (key_Object key)) (\<lambda>(path, _).
       if \<not> mem_made m then Inl NoSuchBucket
       else Inr (m\<lparr>mem_objects := AList.update path
              \<lparr>at_Size = int (length body), at_ContentType = up_ContentType up, at_SHA256 = []\<rparr>
              (mem_objects m)\<rparr>))"

definition Delete :: "object_key \<Rightarrow> memory \<Rightarrow> object_error + memory" where
  "Delete key m =
     and_then (Address (key_Traveller key) (key_Object key)) (\<lambda>(path, _).
       Inr (m\<lparr>mem_objects := AList.delete path (mem_objects m)\<rparr>))"

record listing =
  ls_Traveller :: string
  ls_Object :: string
  ls_Size :: int
  ls_LastModified :: instant

text \<open>The twin has no modification times: it lists Go's zero instant, \<open>zero_time\<close> nanoseconds.\<close>

definition zero_time :: instant where
  "zero_time = - 62135596800 * 10 ^ 9"

definition MemoryList :: "memory \<Rightarrow> listing list" where
  "MemoryList m = List.map_filter (\<lambda>(path, attrs).
     case splitKey path of
       None \<Rightarrow> None
     | Some (traveller, object) \<Rightarrow>
         Some \<lparr>ls_Traveller = traveller, ls_Object = object, ls_Size = at_Size attrs,
               ls_LastModified = zero_time\<rparr>) (mem_objects m)"

subsection \<open>The address determines the key and the checksum determines the digest\<close>

lemma in_range_iff [simp]:
  "in_range lo hi c \<longleftrightarrow> (of_char lo :: nat) \<le> of_char c \<and> (of_char c :: nat) \<le> of_char hi"
  by (simp add: in_range_def)

lemma digestRe_no_slash: "digestRe s \<Longrightarrow> CHR ''/'' \<notin> set s"
  by (auto simp: digestRe_def list_all_iff)

lemma travellerRe_no_slash: "travellerRe s \<Longrightarrow> CHR ''/'' \<notin> set s"
proof
  assume s: "travellerRe s" and "CHR ''/'' \<in> set s"
  then obtain i where i: "i < length s" "s ! i = CHR ''/''" by (auto simp: in_set_conv_nth)
  have all: "\<forall>i \<in> set [0..<36]. if i \<in> {8, 13, 18, 23} then s ! i = CHR ''-'' else is_hex (s ! i)"
    and len: "length s = 36"
    using s unfolding travellerRe_def list_all_iff by blast+
  have "i \<in> set [0..<36]" unfolding set_upt using i(1) len by simp
  from bspec [OF all this] i(2) have "CHR ''/'' = CHR ''-'' \<or> is_hex (CHR ''/'')"
    by (simp split: if_splits)
  then show False by (simp add: is_hex_def)
qed

definition hex_digit :: "nat \<Rightarrow> char" where
  "hex_digit n = char_of (if n < 10 then 48 + n else 87 + n :: nat)"

definition hex :: "nat list \<Rightarrow> string" where
  "hex bs = concat (map (\<lambda>b. [hex_digit (b div 16), hex_digit (b mod 16)]) bs)"

lemma hex_val_lower:
  assumes "is_digit c \<or> in_range (CHR ''a'') (CHR ''f'') c"
  obtains v where "hex_val c = Some v" "v < 16" "hex_digit v = c"
proof -
  let ?n = "of_char c :: nat"
  have c: "char_of ?n = c" by simp
  from assms consider "48 \<le> ?n" "?n \<le> 57" | "97 \<le> ?n" "?n \<le> 102" by auto
  then show thesis
  proof cases
    case 1
    then have "?n - 48 < 10" "48 + (?n - 48) = ?n" by linarith+
    with 1 c that [of "?n - 48"] show thesis by (simp add: hex_val_def hex_digit_def)
  next
    case 2
    then have "\<not> ?n - 87 < 10" "87 + (?n - 87) = ?n" "?n - 87 < 16" by linarith+
    with 2 c that [of "?n - 87"] show thesis by (simp add: hex_val_def hex_digit_def)
  qed
qed

lemma DecodeString_lower:
  assumes "even (length s)" "list_all (\<lambda>c. is_digit c \<or> in_range (CHR ''a'') (CHR ''f'') c) s"
  obtains raw where "DecodeString s = Some raw" "hex raw = s" "\<forall>b \<in> set raw. b < 256"
proof -
  have "\<exists>raw. DecodeString s = Some raw \<and> hex raw = s \<and> (\<forall>b \<in> set raw. b < 256)"
    using assms
  proof (induction s rule: DecodeString.induct)
    case (3 a b s)
    then obtain raw where raw: "DecodeString s = Some raw" "hex raw = s" "\<forall>b \<in> set raw. b < 256"
      by auto
    have "is_digit a \<or> in_range (CHR ''a'') (CHR ''f'') a" "is_digit b \<or> in_range (CHR ''a'') (CHR ''f'') b"
      using 3(3) by simp_all
    then obtain x y where "hex_val a = Some x" "x < 16" "hex_digit x = a"
      "hex_val b = Some y" "y < 16" "hex_digit y = b"
      by (metis hex_val_lower)
    with raw show ?case by (simp add: hex_def)
  qed (simp_all add: hex_def)
  with that show thesis by blast
qed

definition b64_val :: "char \<Rightarrow> nat" where
  "b64_val c = (let n = of_char c in if 65 \<le> n \<and> n \<le> 90 then n - 65 else if 97 \<le> n \<and> n \<le> 122 then n - 71
     else if 48 \<le> n \<and> n \<le> 57 then n + 4 else if n = 43 then 62 else 63)"

lemma b64_val_char [simp]: "n < 64 \<Longrightarrow> b64_val (b64_char n) = n"
  by (auto simp: b64_val_def b64_char_def Let_def)

lemma b64_char_not_pad: "n < 64 \<Longrightarrow> b64_char n \<noteq> CHR ''=''"
proof
  assume "n < 64" "b64_char n = CHR ''=''"
  then have "(of_char (b64_char n) :: nat) = 61" by simp
  with \<open>n < 64\<close> show False by (simp add: b64_char_def split: if_splits)
qed

fun b64_decode :: "string \<Rightarrow> nat list" where
  "b64_decode (a # b # c # d # s) =
     (let w = b64_val a; x = b64_val b; y = b64_val c; z = b64_val d in
      if c = CHR ''='' then [w * 4 + x div 16]
      else if d = CHR ''='' then [w * 4 + x div 16, x mod 16 * 16 + y div 4]
      else [w * 4 + x div 16, x mod 16 * 16 + y div 4, y mod 4 * 64 + z] @ b64_decode s)"
| "b64_decode _ = []"

lemma b64_roundtrip: "\<forall>b \<in> set bs. b < 256 \<Longrightarrow> b64_decode (EncodeToString bs) = bs"
proof (induction bs rule: EncodeToString.induct)
  case (2 a)
  then have "a div 4 < 64" "a mod 4 * 16 < 64" by auto
  with 2 show ?case by (simp add: b64_char_not_pad)
next
  case (3 a b)
  then have "a div 4 < 64" "a mod 4 * 16 + b div 16 < 64" "b mod 16 * 4 < 64" "b div 16 < 16" by auto
  with 3 show ?case by (simp add: b64_char_not_pad div_add1_eq mod_add_eq)
next
  case (4 a b c s)
  then have "a div 4 < 64" "a mod 4 * 16 + b div 16 < 64" "b mod 16 * 4 + c div 64 < 64" "c mod 64 < 64"
    "b div 16 < 16" "c div 64 < 4"
    by auto
  with 4 show ?case by (simp add: b64_char_not_pad)
qed simp

lemma Address_ok:
  assumes "travellerRe t" "digestRe h"
  shows "\<exists>c. Address t h = Inr (t @ ''/'' @ h, c)"
proof -
  obtain raw where "DecodeString h = Some raw"
    using assms(2) DecodeString_lower [of h] unfolding digestRe_def by (metis even_numeral)
  with assms show ?thesis by (simp add: Address_def)
qed

text \<open>An address that \<open>Address\<close> hands out names one key and one digest: the path splits back
  into the traveller and the digest it was made from, and the checksum header decodes to the
  bytes the digest spells.\<close>

theorem address_roundtrip:
  assumes "Address traveller digest = Inr (path, checksum)"
  shows "splitKey path = Some (traveller, digest) \<and> hex (b64_decode checksum) = digest"
proof -
  have t: "travellerRe traveller" and h: "digestRe digest"
    using assms by (auto simp: Address_def split: if_splits)
  from h obtain raw where raw: "DecodeString digest = Some raw" "hex raw = digest" "\<forall>b \<in> set raw. b < 256"
    unfolding digestRe_def using DecodeString_lower [of digest] by (metis even_numeral)
  have p: "path = traveller @ CHR ''/'' # digest" "checksum = EncodeToString raw"
    using assms t h raw(1) by (simp_all add: Address_def)
  have ne: "traveller \<noteq> []" "digest \<noteq> []" using t h by (auto simp: travellerRe_def digestRe_def)
  show ?thesis
    using p raw ne travellerRe_no_slash [OF t] digestRe_no_slash [OF h]
    by (simp add: splitKey_def Cut_append b64_roundtrip)
qed

definition sample_uuid :: string where
  "sample_uuid = ''01234567-89ab-cdef-0123-456789abcdef''"

lemma sample_address:
  "\<exists>checksum. Address sample_uuid (replicate 64 CHR ''a'') = Inr (sample_uuid @ ''/'' @ replicate 64 CHR ''a'', checksum)"
proof (rule Address_ok)
  show "travellerRe sample_uuid" by code_simp
  show "digestRe (replicate 64 CHR ''a'')" by (simp add: digestRe_def list_all_iff)
qed

theorem address_roundtrip_witness:
  "\<exists>path checksum. Address sample_uuid (replicate 64 CHR ''a'') = Inr (path, checksum) \<and>
     splitKey path = Some (sample_uuid, replicate 64 CHR ''a'')"
  using sample_address address_roundtrip by blast

subsection \<open>What the application relies on\<close>

definition signed_attributes :: "object_key \<Rightarrow> upload \<Rightarrow> attributes" where
  "signed_attributes key up =
     \<lparr>at_Size = up_ByteSize up, at_ContentType = up_ContentType up, at_SHA256 = key_Object key\<rparr>"

locale object_store =
  fixes stat :: "'s \<Rightarrow> object_key \<Rightarrow> object_error + attributes"
    and put :: "object_key \<Rightarrow> upload \<Rightarrow> string \<Rightarrow> 's \<Rightarrow> object_error + 's"
    and delete :: "object_key \<Rightarrow> 's \<Rightarrow> object_error + 's"
  assumes stat_put: "put k up b s = Inr s' \<Longrightarrow> stat s' k = Inr (signed_attributes k up)"
    and stat_put_other: "put k up b s = Inr s' \<Longrightarrow> k' \<noteq> k \<Longrightarrow> stat s' k' = stat s k'"
    and put_once: "stat s k = Inr a \<Longrightarrow> \<exists>e. put k up b s = Inl e"
    and stat_delete: "delete k s = Inr s' \<Longrightarrow> stat s' k = Inl ErrNoSuchObject"
    and stat_delete_other: "delete k s = Inr s' \<Longrightarrow> k' \<noteq> k \<Longrightarrow> stat s' k' = stat s k'"
begin

text \<open>A sequence of upload attempts by anybody: a refused one leaves the bucket as it was.\<close>

definition attempt :: "'s \<Rightarrow> object_key \<times> upload \<times> string \<Rightarrow> 's" where
  "attempt s req = (case req of (k, up, b) \<Rightarrow> case put k up b s of Inl _ \<Rightarrow> s | Inr s' \<Rightarrow> s')"

lemma attempt_keeps: "stat s k = Inr a \<Longrightarrow> stat (attempt s req) k = Inr a"
proof (cases req)
  fix k' up b
  assume held: "stat s k = Inr a" and req: "req = (k', up, b)"
  show ?thesis
  proof (cases "put k' up b s")
    case (Inr s')
    then have "k' \<noteq> k" using held put_once [of s k a up b] by auto
    with Inr held req stat_put_other [of k' up b s s' k] show ?thesis by (simp add: attempt_def)
  qed (use held req in \<open>simp add: attempt_def\<close>)
qed

lemma write_once: "stat s k = Inr a \<Longrightarrow> stat (foldl attempt s reqs) k = Inr a"
  by (induction reqs arbitrary: s) (simp_all add: attempt_keeps)

end

lemma Address_inj:
  assumes "Address t h = Inr (p, c)" "Address t' h' = Inr (p', c')"
  shows "p = p' \<longleftrightarrow> t = t' \<and> h = h'"
proof -
  have "splitKey (u @ CHR ''/'' # g) = Some (u, g)" if "travellerRe u" "digestRe g" for u g
    using that travellerRe_no_slash [OF that(1)] digestRe_no_slash [OF that(2)]
    by (auto simp: splitKey_def Cut_append travellerRe_def digestRe_def)
  moreover have "p = t @ CHR ''/'' # h" "travellerRe t" "digestRe h"
    "p' = t' @ CHR ''/'' # h'" "travellerRe t'" "digestRe h'"
    using assms by (auto simp: Address_def split: if_splits option.splits)
  ultimately show ?thesis by (metis option.inject prod.inject)
qed

lemma Stat_Inr:
  "Stat m k = Inr a \<longleftrightarrow> (\<exists>p c. Address (key_Traveller k) (key_Object k) = Inr (p, c) \<and> mem_made m \<and>
     map_of (mem_objects m) p = Some a)"
  by (cases "Address (key_Traveller k) (key_Object k)")
    (auto simp: Stat_def and_then_def split: option.splits if_splits)

lemma Put_Inr:
  "Put sha k up b m = Inr m' \<longleftrightarrow>
     (\<exists>p c. checkUpload k up = Inr () \<and> Address (key_Traveller k) (key_Object k) = Inr (p, c) \<and>
        mem_made m \<and> map_of (mem_objects m) p = None \<and> int (length b) = up_ByteSize up \<and>
        sha b = key_Object k \<and>
        m' = m\<lparr>mem_objects := AList.update p (signed_attributes k up) (mem_objects m)\<rparr>)"
  by (cases "Address (key_Traveller k) (key_Object k)"; cases "checkUpload k up")
    (auto simp: Put_def and_then_def signed_attributes_def split: if_splits)

lemma Delete_Inr:
  "Delete k m = Inr m' \<longleftrightarrow> (\<exists>p c. Address (key_Traveller k) (key_Object k) = Inr (p, c) \<and>
     m' = m\<lparr>mem_objects := AList.delete p (mem_objects m)\<rparr>)"
  by (cases "Address (key_Traveller k) (key_Object k)") (auto simp: Delete_def and_then_def)

lemma Stat_other:
  assumes "Address (key_Traveller k) (key_Object k) = Inr (p, c)" "k' \<noteq> k"
    "mem_made m' = mem_made m" "\<And>q. q \<noteq> p \<Longrightarrow> map_of (mem_objects m') q = map_of (mem_objects m) q"
  shows "Stat m' k' = Stat m k'"
proof (cases "Address (key_Traveller k') (key_Object k')")
  case (Inr a)
  then obtain q e where q: "Address (key_Traveller k') (key_Object k') = Inr (q, e)" by (cases a) auto
  have "q \<noteq> p" using Address_inj [OF q assms(1)] assms(2) by (cases k; cases k') auto
  with q assms(3,4) show ?thesis by (simp add: Stat_def and_then_def)
qed (simp add: Stat_def and_then_def)

interpretation mem: object_store Stat "Put sha" Delete for sha
proof
  fix k up b m m' k' a
  show "Stat m' k = Inr (signed_attributes k up)" if "Put sha k up b m = Inr m'"
    using that by (auto simp: Put_Inr Stat_Inr update_conv')
  show "Stat m' k' = Stat m k'" if "Put sha k up b m = Inr m'" "k' \<noteq> k"
    using that by (auto simp: Put_Inr update_conv' intro!: Stat_other)
  show "\<exists>e. Put sha k up b m = Inl e" if "Stat m k = Inr a"
  proof (cases "Put sha k up b m")
    case (Inr m2)
    with that show ?thesis by (auto simp: Put_Inr Stat_Inr)
  qed simp
  show "Stat m' k = Inl ErrNoSuchObject" if "Delete k m = Inr m'"
    using that by (auto simp: Delete_Inr Stat_def and_then_def delete_conv')
  show "Stat m' k' = Stat m k'" if "Delete k m = Inr m'" "k' \<noteq> k"
    using that by (auto simp: Delete_Inr delete_conv' intro!: Stat_other)
qed

text \<open>A content address is written once: whatever uploads are attempted afterwards, by
  whomever and with whatever bytes, an object that is in the bucket keeps the size, the type and
  the digest it was signed with.\<close>

theorem uploads_never_overwrite:
  assumes "Stat m k = Inr a"
  shows "Stat (foldl (\<lambda>m (k', up, b). case Put sha k' up b m of Inl _ \<Rightarrow> m | Inr m' \<Rightarrow> m') m reqs) k = Inr a"
proof -
  have "(\<lambda>m (k', up, b). case Put sha k' up b m of Inl _ \<Rightarrow> m | Inr m' \<Rightarrow> m') = mem.attempt sha"
    by (auto simp: mem.attempt_def fun_eq_iff)
  then show ?thesis using mem.write_once [OF assms] by simp
qed

definition sample_memory :: memory where
  "sample_memory = \<lparr>mem_made = True, mem_objects = [(sample_uuid @ ''/'' @ replicate 64 CHR ''a'',
     \<lparr>at_Size = 3, at_ContentType = ''image/png'', at_SHA256 = replicate 64 CHR ''a''\<rparr>)]\<rparr>"

definition sample_key :: object_key where
  "sample_key = \<lparr>key_Traveller = sample_uuid, key_Object = replicate 64 CHR ''a''\<rparr>"

lemma sample_stat:
  "Stat sample_memory sample_key =
     Inr \<lparr>at_Size = 3, at_ContentType = ''image/png'', at_SHA256 = replicate 64 CHR ''a''\<rparr>"
  using sample_address by (auto simp: Stat_Inr sample_memory_def sample_key_def)

theorem uploads_never_overwrite_witness:
  "Stat (foldl (\<lambda>m (k', up, b). case Put (\<lambda>_. replicate 64 CHR ''a'') k' up b m of Inl _ \<Rightarrow> m | Inr m' \<Rightarrow> m')
     sample_memory [(sample_key, \<lparr>up_SHA256 = replicate 64 CHR ''a'', up_ByteSize = 4,
       up_ContentType = ''image/png''\<rparr>, ''evil'')]) sample_key =
   Inr \<lparr>at_Size = 3, at_ContentType = ''image/png'', at_SHA256 = replicate 64 CHR ''a''\<rparr>"
proof (rule uploads_never_overwrite)
  show "Stat sample_memory sample_key =
      Inr \<lparr>at_Size = 3, at_ContentType = ''image/png'', at_SHA256 = replicate 64 CHR ''a''\<rparr>"
    by (rule sample_stat)
qed

declare in_range_iff [simp del]

end
