(* ===== verification/Store_Media.thy ===== *)
theory Store_Media
  imports Store_Trip Object_Store
begin

section \<open>Media objects (\<^verbatim>\<open>internal/postgres/media_store.go\<close>, \<^verbatim>\<open>internal/logbook/service.go\<close>)\<close>

text \<open>
  The rows an upload is declared in, and \<open>CommitMedia\<close>, which reconciles the bucket with the row.
  Media writes take the traveller's lock and leave \<open>logbook_version\<close> alone: no media object is part
  of the document. \<open>now\<close> is PostgreSQL's \<open>now()\<close>; \<open>stat\<close> is the object store's \<open>Stat\<close>, asked once per
  commit. The rows of a query without \<open>ORDER BY\<close> come in table order.
\<close>

definition scan_media :: "media_row \<Rightarrow> media_object" where
  "scan_media r =
     \<lparr>media_ID = md_id r, media_ByteSize = md_size r, media_ContentType = md_type r,
      media_CreatedAt = md_created r, media_UploadedAt = md_uploaded r\<rparr>"

definition readMediaRows :: "id \<Rightarrow> digest list \<Rightarrow> media_object list tx" where
  "readMediaRows t ids =
     t_query (\<lambda>d. map scan_media (filter (\<lambda>r. md_traveller r = t \<and> md_id r \<in> set ids) (media_objects d)))"

text \<open>\<open>ON CONFLICT \<dots> DO UPDATE \<dots> WHERE uploaded_at IS NULL\<close>: a committed row is left as it is.\<close>

definition beginSQL :: "instant \<Rightarrow> id \<Rightarrow> digest \<Rightarrow> int \<Rightarrow> string \<Rightarrow> database \<Rightarrow> db_error + database" where
  "beginSQL now t i byteSize ctype d =
     table_upsert media_objects (\<lambda>rs. media_objects_update (\<lambda>_. rs)) md_key media_ck media_fk
       \<lparr>md_traveller = t, md_id = i, md_size = byteSize, md_type = ctype, md_created = now, md_uploaded = None\<rparr>
       (\<lambda>old. if md_uploaded old = None then old\<lparr>md_size := byteSize, md_type := ctype\<rparr> else old) d"

definition beginMedia :: "instant \<Rightarrow> id \<Rightarrow> digest \<Rightarrow> int \<Rightarrow> string \<Rightarrow> media_object tx" where
  "beginMedia now t i byteSize ctype =
     t_bind (t_exec (beginSQL now t i byteSize ctype)) (\<lambda>_.
     t_bind (readMediaRows t [i]) (\<lambda>rows.
     t_lift (case rows of [] \<Rightarrow> Inl ErrVanished | r # _ \<Rightarrow> Inr r)))"

definition BeginMedia :: "instant \<Rightarrow> id \<Rightarrow> media_begin \<Rightarrow> media_object tx" where
  "BeginMedia now t b =
     (case (mb_SHA256 b, mb_ByteSize b, mb_ContentType b) of
        (Some i, Some byteSize, Some ctype) \<Rightarrow> WithTravellerLock t (beginMedia now t i byteSize ctype)
      | _ \<Rightarrow> t_lift (Inl ErrIncompleteBegin))"

definition MediaObjects :: "id \<Rightarrow> digest list \<Rightarrow> media_object list tx" where
  "MediaObjects t ids =
     (if ids = [] then t_return [] else WithReadSnapshot t (\<lambda>_. readMediaRows t ids))"

definition markSQL :: "instant \<Rightarrow> id \<Rightarrow> digest \<Rightarrow> database \<Rightarrow> db_error + database" where
  "markSQL now t i d =
     (let p = (\<lambda>r. md_key r = (t, i) \<and> md_uploaded r = None) in
      if list_ex (\<lambda>r. p r \<and> \<not> media_ck (r\<lparr>md_uploaded := Some now\<rparr>)) (media_objects d)
      then Inl check_violation
      else Inr (d\<lparr>media_objects := upd_rows p (\<lambda>r. r\<lparr>md_uploaded := Some now\<rparr>) (media_objects d)\<rparr>))"

definition markMedia :: "instant \<Rightarrow> id \<Rightarrow> digest \<Rightarrow> media_object tx" where
  "markMedia now t i =
     t_bind (t_exec (markSQL now t i)) (\<lambda>_.
     t_bind (readMediaRows t [i]) (\<lambda>rows.
     t_lift (case rows of [] \<Rightarrow> Inl ErrNoMediaObject | r # _ \<Rightarrow> Inr r)))"

definition MarkMediaUploaded :: "instant \<Rightarrow> id \<Rightarrow> digest \<Rightarrow> media_object tx" where
  "MarkMediaUploaded now t i = WithTravellerLock t (markMedia now t i)"

subsection \<open>Committing an upload\<close>

definition agrees :: "attributes \<Rightarrow> digest \<Rightarrow> media_object \<Rightarrow> bool" where
  "agrees a i m \<longleftrightarrow> at_Size a = media_ByteSize m \<and> at_SHA256 a = i \<and> at_ContentType a = media_ContentType m"

definition verify :: "object_error + attributes \<Rightarrow> digest \<Rightarrow> media_object \<Rightarrow> error + unit" where
  "verify stored i declared =
     (case stored of
        Inl e \<Rightarrow> Inl (if e = ErrNoSuchObject then ErrUploadIncomplete else ErrObjects (e = Unreachable))
      | Inr a \<Rightarrow>
          if at_Size a \<noteq> media_ByteSize declared then Inl ErrUploadIncomplete
          else if at_SHA256 a \<noteq> i then Inl ErrUploadIncomplete
          else if at_ContentType a \<noteq> media_ContentType declared then Inl ErrUploadIncomplete
          else Inr ())"

definition CommitMedia ::
  "(object_key \<Rightarrow> object_error + attributes) \<Rightarrow> instant \<Rightarrow> id \<Rightarrow> digest \<Rightarrow> media_object tx" where
  "CommitMedia stat now t i =
     t_bind (MediaObjects t [i]) (\<lambda>got.
     case got of
       [] \<Rightarrow> t_lift (Inl ErrNoMediaObject)
     | declared # _ \<Rightarrow>
         if Committed declared then t_return declared
         else t_bind (t_lift (verify (stat \<lparr>key_Traveller = t, key_Object = i\<rparr>) i declared)) (\<lambda>_.
              MarkMediaUploaded now t i))"

subsection \<open>Media writes leave the log alone\<close>

text \<open>A media write of \<open>t\<close>: other travellers, every version and every table of the document stay.\<close>

definition media_write :: "id \<Rightarrow> 'a tx \<Rightarrow> bool" where
  "media_write t m \<longleftrightarrow> (\<forall>s. sound t (tx_db s) (tx_db (snd (m s))) \<and>
     (tx_db (snd (m s)))\<lparr>media_objects := []\<rparr> = (tx_db s)\<lparr>media_objects := []\<rparr>)"

definition media_only :: "id \<Rightarrow> database \<Rightarrow> database \<Rightarrow> bool" where
  "media_only t d d' \<longleftrightarrow> sound t d d' \<and> d'\<lparr>media_objects := []\<rparr> = d\<lparr>media_objects := []\<rparr>"

interpretation media_only: tx_preorder "media_only t" for t
proof
  show "media_only t d d" for d by (simp add: media_only_def sound.R_refl)
  show "media_only t d d''" if "media_only t d d'" "media_only t d' d''" for d d' d''
    using that sound.R_trans [of t d d' d''] by (simp add: media_only_def)
qed

lemma media_write_iff: "media_write t m \<longleftrightarrow> tx_rel (media_only t) m"
  by (simp add: media_write_def tx_rel_def media_only_def)

lemma beginSQL_only: "beginSQL now t i n c d = Inr d' \<Longrightarrow> media_only t d d'"
proof -
  assume run: "beginSQL now t i n c d = Inr d'"
  then have "sound t d d'"
    unfolding beginSQL_def by (rule media_table.upsert_sound [rotated 2]) (auto simp: md_key_def)
  moreover have "\<exists>rs. d' = d\<lparr>media_objects := rs\<rparr>"
    using run by (auto simp: beginSQL_def table_upsert_def split: sum.splits)
  ultimately show ?thesis by (auto simp: media_only_def)
qed

lemma schema_media:
  assumes "schema_ok d"
  shows "distinct (map md_key (media_objects d))" "list_all media_ck (media_objects d)"
    "list_all (media_fk d) (media_objects d)"
  using assms by (simp_all add: schema_ok_def unique_ok_def checks_hold_def refs_hold_def)

lemma schema_upd_media:
  assumes ok: "schema_ok d" and key: "\<And>r. md_key (g r) = md_key r"
    and ck: "\<And>r. r \<in> set (media_objects d) \<Longrightarrow> p r \<Longrightarrow> media_ck (g r)"
  shows "schema_ok (d\<lparr>media_objects := upd_rows p g (media_objects d)\<rparr>)"
proof -
  let ?d = "d\<lparr>media_objects := upd_rows p g (media_objects d)\<rparr>"
  have keys: "map md_key (upd_rows p g (media_objects d)) = map md_key (media_objects d)"
    using key by (simp add: map_upd_rows)
  then have "has_media ?d = has_media d"
    unfolding has_media_def fun_eq_iff by (metis set_map database.select_convs(5) database.update_convs(5) database.surjective)
  moreover have "has_traveller ?d = has_traveller d" "has_city ?d = has_city d" "has_trip ?d = has_trip d"
    "has_place ?d = has_place d" "has_visit ?d = has_visit d"
    by (simp_all add: has_defs fun_eq_iff)
  ultimately have fk: "media_fk ?d = media_fk d" "city_fk ?d = city_fk d" "trip_fk ?d = trip_fk d"
    "trip_city_fk ?d = trip_city_fk d" "place_fk ?d = place_fk d" "visit_fk ?d = visit_fk d"
    "photo_fk ?d = photo_fk d" "walk_fk ?d = walk_fk d" "share_fk ?d = share_fk d"
    by (simp_all add: fk_cong [of ?d d])
  have trav: "media_fk d (g r)" if "media_fk d r" for r
    using that key [of r] by (simp add: media_fk_def md_key_def)
  have "list_all (media_fk d) (upd_rows p g (media_objects d))" "list_all media_ck (upd_rows p g (media_objects d))"
    using schema_media [OF ok] trav ck by (auto intro!: list_all_upd_rows)
  with ok keys fk show ?thesis
    by (simp add: schema_ok_def unique_ok_def checks_hold_def refs_hold_def)
qed

lemma markSQL_ok:
  assumes "markSQL now t i d = Inr d'"
  shows "d' = d\<lparr>media_objects := upd_rows (\<lambda>r. md_key r = (t, i) \<and> md_uploaded r = None)
      (\<lambda>r. r\<lparr>md_uploaded := Some now\<rparr>) (media_objects d)\<rparr>"
    and "r \<in> set (media_objects d) \<Longrightarrow> md_key r = (t, i) \<Longrightarrow> md_uploaded r = None \<Longrightarrow>
      media_ck (r\<lparr>md_uploaded := Some now\<rparr>)"
  using assms by (auto simp: markSQL_def Let_def list_ex_iff split: if_splits)

lemma markSQL_only: "markSQL now t i d = Inr d' \<Longrightarrow> media_only t d d'"
proof -
  assume run: "markSQL now t i d = Inr d'"
  note ok = markSQL_ok [OF run]
  have "sound t d d'" unfolding ok(1)
    by (intro soundI frame_tables filter_upd_rows_other schema_upd_media ok(2))
      (auto simp: md_key_def same_travellers_def)
  then show ?thesis using ok(1) by (simp add: media_only_def)
qed

lemma media_statements [rel_intros]:
  "tx_rel (media_only t) (t_exec (beginSQL now t i n c))"
  "tx_rel (media_only t) (t_exec (markSQL now t i))"
  by (auto intro: media_only.rel_exec beginSQL_only markSQL_only)

lemma WithTravellerLock_media:
  assumes "tx_rel (media_only t) fn"
  shows "tx_rel (media_only t) (WithTravellerLock t fn)"
  unfolding tx_rel_def
proof
  fix s
  obtain r s' where run: "WithTravellerLock t fn s = (r, s')" by (cases "WithTravellerLock t fn s")
  have "media_only t (tx_db s1) (tx_db s2)" if "fn s1 = (x, s2)" for x s1 s2
    using assms that by (metis tx_rel_def snd_conv)
  with WithTravellerLock_cases [OF run] run media_only.R_refl [of t]
  show "media_only t (tx_db s) (tx_db (snd (WithTravellerLock t fn s)))"
    by (metis snd_conv)
qed

lemma BeginMedia_write: "media_write t (BeginMedia now t b)"
  unfolding media_write_iff BeginMedia_def beginMedia_def readMediaRows_def
  by (auto split: option.splits intro!: WithTravellerLock_media rel_intros)

lemma MarkMediaUploaded_write: "tx_rel (media_only t) (MarkMediaUploaded now t i)"
  unfolding MarkMediaUploaded_def markMedia_def readMediaRows_def
  by (intro WithTravellerLock_media rel_intros)

lemma MediaObjects_db: "tx_db (snd (MediaObjects t ids s)) = tx_db s"
  by (simp add: MediaObjects_def t_return_def)

lemma CommitMedia_write: "media_write t (CommitMedia stat now t i)"
proof -
  have "tx_rel (media_only t) (MediaObjects t [i])"
    by (simp add: tx_rel_def MediaObjects_db media_only.R_refl)
  then show ?thesis
    unfolding media_write_iff CommitMedia_def
    by (auto intro!: media_only.rel_bind media_only.rel_lift media_only.rel_return media_only.rel_if
        MarkMediaUploaded_write split: list.splits)
qed

subsection \<open>What a media operation did\<close>

lemma hd_filter: "(case filter p xs of [] \<Rightarrow> None | x # _ \<Rightarrow> Some x) = List.find p xs"
  by (induction xs) auto

lemma read_one_media:
  "(case map scan_media (filter (\<lambda>r. md_traveller r = t \<and> md_id r \<in> set [i]) (media_objects d)) of
      [] \<Rightarrow> None | m # _ \<Rightarrow> Some m) = map_option scan_media (find_media d t i)"
proof -
  have "(\<lambda>r. md_traveller r = t \<and> md_id r \<in> set [i]) = (\<lambda>r. md_key r = (t, i))"
    by (auto simp: md_key_def)
  then show ?thesis
    using hd_filter [of "\<lambda>r. md_key r = (t, i)" "media_objects d"]
    by (cases "filter (\<lambda>r. md_key r = (t, i)) (media_objects d)")
      (simp_all add: find_media_def eq_commute [of "Some _"])
qed

lemma readMediaRows_Inr:
  assumes "readMediaRows t [i] s = (Inr rows, s')"
  shows "tx_db s' = tx_db s" "rows = [] \<longleftrightarrow> find_media (tx_db s) t i = None"
    "rows = m # ms \<Longrightarrow> \<exists>r. find_media (tx_db s) t i = Some r \<and> m = scan_media r"
proof -
  from assms have rows: "rows = map scan_media (filter (\<lambda>r. md_traveller r = t \<and> md_id r \<in> set [i])
      (media_objects (tx_db s)))" and db: "tx_db s' = tx_db s"
    unfolding readMediaRows_def by (auto dest!: t_query_Inr)
  have "(case rows of [] \<Rightarrow> None | m # _ \<Rightarrow> Some m) = map_option scan_media (find_media (tx_db s) t i)"
    unfolding rows by (rule read_one_media)
  then show "rows = [] \<longleftrightarrow> find_media (tx_db s) t i = None"
    "rows = m # ms \<Longrightarrow> \<exists>r. find_media (tx_db s) t i = Some r \<and> m = scan_media r"
    by (cases rows; cases "find_media (tx_db s) t i"; simp)+
  show "tx_db s' = tx_db s" by (rule db)
qed

lemma find_media_mark:
  assumes "markSQL now t i d = Inr d'"
  shows "find_media d' u j = (if (u, j) = (t, i)
     then map_option (\<lambda>r. if md_uploaded r = None then r\<lparr>md_uploaded := Some now\<rparr> else r) (find_media d u j)
     else find_media d u j)"
proof -
  have "List.find (\<lambda>r. md_key r = k) (upd_rows (\<lambda>r. md_key r = (t, i) \<and> md_uploaded r = None)
      (\<lambda>r. r\<lparr>md_uploaded := Some now\<rparr>) rows) =
    (if k = (t, i) then map_option (\<lambda>r. if md_uploaded r = None then r\<lparr>md_uploaded := Some now\<rparr> else r)
        (List.find (\<lambda>r. md_key r = k) rows) else List.find (\<lambda>r. md_key r = k) rows)" for k rows
    by (induction rows) (auto simp: upd_rows_def md_key_def)
  then show ?thesis by (simp add: markSQL_ok(1) [OF assms] find_media_def)
qed

lemma MarkMediaUploaded_Inr:
  assumes "MarkMediaUploaded now t i s = (Inr m, s')"
  obtains r where "find_media (tx_db s) t i = Some r"
    "m = scan_media (if md_uploaded r = None then r\<lparr>md_uploaded := Some now\<rparr> else r)"
    "find_media (tx_db s') t i = Some (if md_uploaded r = None then r\<lparr>md_uploaded := Some now\<rparr> else r)"
    "\<forall>u j. (u, j) \<noteq> (t, i) \<longrightarrow> find_media (tx_db s') u j = find_media (tx_db s) u j"
proof -
  from assms obtain s1 s2 where s1: "tx_db s1 = tx_db s" and run: "markMedia now t i s1 = (Inr m, s2)"
    and s2: "tx_db s' = tx_db s2"
    unfolding MarkMediaUploaded_def by (rule WithTravellerLock_Inr)
  from run obtain s3 rows where ex: "t_exec (markSQL now t i) s1 = (Inr (), s3)" and
    rd: "readMediaRows t [i] s3 = (Inr rows, s2)" and
    hd: "(case rows of [] \<Rightarrow> Inl ErrNoMediaObject | r # _ \<Rightarrow> Inr r) = Inr m"
    by (auto simp: markMedia_def t_bind_Inr)
  have hd: "\<exists>ms. rows = m # ms" using hd by (cases rows) auto
  note up = find_media_mark [OF t_exec_Inr [OF ex]]
  from hd readMediaRows_Inr(1,3) [OF rd] obtain r3 where
    r3: "find_media (tx_db s3) t i = Some r3" "m = scan_media r3" "tx_db s2 = tx_db s3" by auto
  with up [of t i] s1 obtain r where r: "find_media (tx_db s) t i = Some r"
    "r3 = (if md_uploaded r = None then r\<lparr>md_uploaded := Some now\<rparr> else r)"
    by (cases "find_media (tx_db s) t i") simp_all
  show thesis using that [OF r(1)] r(2) r3 up s1 s2 by simp
qed

lemma MediaObjects_Inr:
  assumes "MediaObjects t [i] s = (Inr rows, s')"
  shows "rows = [] \<longleftrightarrow> find_media (tx_db s) t i = None"
    "rows = m # ms \<Longrightarrow> \<exists>r. find_media (tx_db s) t i = Some r \<and> m = scan_media r"
    "tx_db s' = tx_db s"
proof -
  have "WithReadSnapshot t (\<lambda>_. readMediaRows t [i]) s = (Inr rows, s')"
    using assms by (simp add: MediaObjects_def)
  then obtain s1 s2 where "tx_db s1 = tx_db s" "readMediaRows t [i] s1 = (Inr rows, s2)"
    by (auto simp: WithReadSnapshot_def t_bind_Inr dest!: t_query_Inr split: prod.splits option.splits)
  with readMediaRows_Inr [of t i s1 rows s2]
  show "rows = [] \<longleftrightarrow> find_media (tx_db s) t i = None"
    "rows = m # ms \<Longrightarrow> \<exists>r. find_media (tx_db s) t i = Some r \<and> m = scan_media r"
    by auto
  show "tx_db s' = tx_db s" using MediaObjects_db [of t "[i]" s] assms by simp
qed

lemma verify_Inr: "verify x i m = Inr () \<longleftrightarrow> (\<exists>a. x = Inr a \<and> agrees a i m)"
  by (auto simp: verify_def agrees_def split: sum.splits if_splits)

text \<open>C28: A commit that succeeds answers a committed row. Either the row was committed before, and
  then the bucket is not asked and nothing changes; or the bucket holds an object with the
  declared size, the declared type and the digest that is the address, and exactly that row
  becomes committed at \<open>now\<close>.\<close>

theorem commit_media_verified:
  assumes "CommitMedia stat now t i s = (Inr m, s')"
  shows "\<exists>r. find_media (tx_db s) t i = Some r \<and> Committed m \<and>
     (if md_uploaded r \<noteq> None then m = scan_media r \<and> tx_db s' = tx_db s
      else (\<exists>a. stat \<lparr>key_Traveller = t, key_Object = i\<rparr> = Inr a \<and> agrees a i (scan_media r)) \<and>
        m = scan_media (r\<lparr>md_uploaded := Some now\<rparr>) \<and>
        find_media (tx_db s') t i = Some (r\<lparr>md_uploaded := Some now\<rparr>) \<and>
        (\<forall>u j. (u, j) \<noteq> (t, i) \<longrightarrow> find_media (tx_db s') u j = find_media (tx_db s) u j))"
proof -
  let ?stat = "stat \<lparr>key_Traveller = t, key_Object = i\<rparr>"
  from assms obtain rows s1 where rows: "MediaObjects t [i] s = (Inr rows, s1)" and
    rest: "(case rows of [] \<Rightarrow> t_lift (Inl ErrNoMediaObject) | declared # _ \<Rightarrow>
         if Committed declared then t_return declared
         else t_bind (t_lift (verify ?stat i declared)) (\<lambda>_. MarkMediaUploaded now t i)) s1 = (Inr m, s')"
    unfolding CommitMedia_def t_bind_Inr by blast
  then obtain declared more where got: "MediaObjects t [i] s = (Inr (declared # more), s1)"
    and rest: "(if Committed declared then t_return declared
         else t_bind (t_lift (verify ?stat i declared)) (\<lambda>_. MarkMediaUploaded now t i)) s1 = (Inr m, s')"
    by (cases rows) auto
  from MediaObjects_Inr(2,3) [OF got] obtain r where
    r: "find_media (tx_db s) t i = Some r" "declared = scan_media r" "tx_db s1 = tx_db s" by auto
  show ?thesis
  proof (cases "md_uploaded r = None")
    case False
    with rest r show ?thesis by (auto simp: Committed_def scan_media_def)
  next
    case True
    then have "\<not> Committed declared" using r(2) by (simp add: Committed_def scan_media_def)
    with rest have ver: "verify (stat \<lparr>key_Traveller = t, key_Object = i\<rparr>) i declared = Inr ()"
      and mark: "MarkMediaUploaded now t i s1 = (Inr m, s')"
      by (auto simp: t_bind_Inr)
    from mark obtain r' where "find_media (tx_db s1) t i = Some r'"
      "m = scan_media (if md_uploaded r' = None then r'\<lparr>md_uploaded := Some now\<rparr> else r')"
      "find_media (tx_db s') t i = Some (if md_uploaded r' = None then r'\<lparr>md_uploaded := Some now\<rparr> else r')"
      "\<forall>u j. (u, j) \<noteq> (t, i) \<longrightarrow> find_media (tx_db s') u j = find_media (tx_db s1) u j"
      by (rule MarkMediaUploaded_Inr)
    with True r ver show ?thesis
      by (auto simp: verify_Inr Committed_def scan_media_def)
  qed
qed

definition asset_b :: digest where "asset_b = replicate 64 CHR ''b''"

definition declared_sample :: database where
  "declared_sample = sample\<lparr>media_objects := media_objects sample @
     [\<lparr>md_traveller = ''u1'', md_id = asset_b, md_size = 10, md_type = ''image/png'',
       md_created = 50, md_uploaded = None\<rparr>]\<rparr>"

definition held :: "object_key \<Rightarrow> object_error + attributes" where
  "held k = Inr \<lparr>at_Size = 10, at_ContentType = ''image/png'', at_SHA256 = key_Object k\<rparr>"

theorem commit_media_verified_witness:
  "\<exists>m s'. CommitMedia held 70 ''u1'' asset_b (calm declared_sample) = (Inr m, s') \<and>
     find_media declared_sample ''u1'' asset_b \<noteq> None \<and> Committed m"
proof -
  have "\<not> isl (fst (CommitMedia held 70 ''u1'' asset_b (calm declared_sample)))" by code_simp
  then obtain m s' where "CommitMedia held 70 ''u1'' asset_b (calm declared_sample) = (Inr m, s')" by (rule ran)
  with commit_media_verified [OF this] show ?thesis by auto
qed

lemma beginSQL_ok:
  assumes "beginSQL now t i n c d = Inr d'"
  obtains r where "d' = d\<lparr>media_objects := put_row md_key r (media_objects d)\<rparr>" "md_key r = (t, i)"
    "media_ck r" "r = (case find_media d t i of
        None \<Rightarrow> \<lparr>md_traveller = t, md_id = i, md_size = n, md_type = c, md_created = now, md_uploaded = None\<rparr>
      | Some old \<Rightarrow> if md_uploaded old = None then old\<lparr>md_size := n, md_type := c\<rparr> else old)"
proof -
  let ?new = "\<lparr>md_traveller = t, md_id = i, md_size = n, md_type = c, md_created = now, md_uploaded = None\<rparr>"
  let ?merge = "\<lambda>old. if md_uploaded old = None then old\<lparr>md_size := n, md_type := c\<rparr> else old"
  have "table_upsert media_objects (\<lambda>rs. media_objects_update (\<lambda>_. rs)) md_key media_ck media_fk ?new ?merge d = Inr d'"
    using assms by (simp add: beginSQL_def)
  then show thesis
    by (rule media_table.table_upsert_ok)
      (use that in \<open>auto simp: find_media_def md_key_def\<close>)
qed

lemma BeginMedia_Inr:
  assumes "BeginMedia now t b s = (Inr m, s')"
  obtains i n c r where "mb_SHA256 b = Some i" "mb_ByteSize b = Some n" "mb_ContentType b = Some c"
    "tx_db s' = (tx_db s)\<lparr>media_objects := put_row md_key r (media_objects (tx_db s))\<rparr>" "md_key r = (t, i)"
    "m = scan_media r" "r = (case find_media (tx_db s) t i of
        None \<Rightarrow> \<lparr>md_traveller = t, md_id = i, md_size = n, md_type = c, md_created = now, md_uploaded = None\<rparr>
      | Some old \<Rightarrow> if md_uploaded old = None then old\<lparr>md_size := n, md_type := c\<rparr> else old)"
proof -
  from assms obtain i n c where b: "mb_SHA256 b = Some i" "mb_ByteSize b = Some n" "mb_ContentType b = Some c"
    and run: "WithTravellerLock t (beginMedia now t i n c) s = (Inr m, s')"
    unfolding BeginMedia_def by (auto split: option.splits)
  from run obtain s1 s2 where s1: "tx_db s1 = tx_db s" and body: "beginMedia now t i n c s1 = (Inr m, s2)"
    and s2: "tx_db s' = tx_db s2" by (rule WithTravellerLock_Inr)
  from body obtain s3 rows where ex: "t_exec (beginSQL now t i n c) s1 = (Inr (), s3)" and
    rd: "readMediaRows t [i] s3 = (Inr rows, s2)" and
    hd: "(case rows of [] \<Rightarrow> Inl ErrVanished | r # _ \<Rightarrow> Inr r) = Inr m"
    by (auto simp: beginMedia_def t_bind_Inr)
  have hd: "\<exists>ms. rows = m # ms" using hd by (cases rows) auto
  from t_exec_Inr [OF ex] obtain r where r: "tx_db s3 = (tx_db s1)\<lparr>media_objects := put_row md_key r (media_objects (tx_db s1))\<rparr>"
    "md_key r = (t, i)" "r = (case find_media (tx_db s1) t i of
        None \<Rightarrow> \<lparr>md_traveller = t, md_id = i, md_size = n, md_type = c, md_created = now, md_uploaded = None\<rparr>
      | Some old \<Rightarrow> if md_uploaded old = None then old\<lparr>md_size := n, md_type := c\<rparr> else old)"
    by (rule beginSQL_ok)
  from hd readMediaRows_Inr(1,3) [OF rd] obtain r3 where
    r3: "find_media (tx_db s3) t i = Some r3" "m = scan_media r3" "tx_db s2 = tx_db s3" by auto
  have "r3 = r" using r3(1) r(1,2) by (simp add: find_media_def find_put_row)
  with that [OF b, of r] r r3 s1 s2 show thesis by simp
qed

text \<open>Declaring an upload never touches an object that is committed, and it answers the row as
  it stands: for a committed object that is the stored declaration, not the one just sent; for
  any other it is the new declaration, still open. No other row of the table changes.\<close>

theorem begin_media_effect:
  assumes "BeginMedia now t b s = (Inr m, s')"
  shows "(\<forall>u j r. find_media (tx_db s) u j = Some r \<and> md_uploaded r \<noteq> None \<longrightarrow>
       find_media (tx_db s') u j = Some r) \<and>
     (\<exists>i. mb_SHA256 b = Some i \<and> map_option scan_media (find_media (tx_db s') t i) = Some m \<and>
       (\<forall>u j. (u, j) \<noteq> (t, i) \<longrightarrow> find_media (tx_db s') u j = find_media (tx_db s) u j) \<and>
       (Committed m \<or> mb_ByteSize b = Some (media_ByteSize m) \<and> mb_ContentType b = Some (media_ContentType m)))"
  using assms
proof (rule BeginMedia_Inr)
  fix i n c r
  assume r: "mb_SHA256 b = Some i" "mb_ByteSize b = Some n" "mb_ContentType b = Some c"
    "tx_db s' = (tx_db s)\<lparr>media_objects := put_row md_key r (media_objects (tx_db s))\<rparr>" "md_key r = (t, i)"
    "m = scan_media r" "r = (case find_media (tx_db s) t i of
        None \<Rightarrow> \<lparr>md_traveller = t, md_id = i, md_size = n, md_type = c, md_created = now, md_uploaded = None\<rparr>
      | Some old \<Rightarrow> if md_uploaded old = None then old\<lparr>md_size := n, md_type := c\<rparr> else old)"
  have fnd: "find_media (tx_db s') u j = (if (u, j) = (t, i) then Some r else find_media (tx_db s) u j)" for u j
    using r(4,5) by (simp add: find_media_def find_put_row)
  have "Committed m \<or> mb_ByteSize b = Some (media_ByteSize m) \<and> mb_ContentType b = Some (media_ContentType m)"
    using r(2,3,6,7) by (auto simp: Committed_def scan_media_def split: option.splits)
  with fnd r(1,6,7) show ?thesis by auto
qed

theorem begin_media_effect_witness:
  "\<exists>m s'. BeginMedia 90 ''u1'' \<lparr>mb_SHA256 = Some asset_a, mb_ByteSize = Some 99,
       mb_ContentType = Some ''image/png''\<rparr> (calm sample) = (Inr m, s') \<and> Committed m \<and>
     find_media (tx_db s') ''u1'' asset_a = find_media sample ''u1'' asset_a"
proof -
  let ?b = "\<lparr>mb_SHA256 = Some asset_a, mb_ByteSize = Some 99, mb_ContentType = Some ''image/png''\<rparr>"
  have "\<not> isl (fst (BeginMedia 90 ''u1'' ?b (calm sample)))" by code_simp
  then obtain m s' where run: "BeginMedia 90 ''u1'' ?b (calm sample) = (Inr m, s')" by (rule ran)
  obtain r where r: "find_media sample ''u1'' asset_a = Some r" "md_uploaded r \<noteq> None"
  proof -
    have "\<not> Option.is_none (Option.bind (find_media sample ''u1'' asset_a) md_uploaded)" by code_simp
    with that show thesis by (cases "find_media sample ''u1'' asset_a") (auto simp: Option.is_none_def)
  qed
  from begin_media_effect [OF run] r(1,2) have "find_media (tx_db s') ''u1'' asset_a = Some r" by simp
  with begin_media_effect [OF run] r have "m = scan_media r" by simp
  with r run \<open>find_media (tx_db s') ''u1'' asset_a = Some r\<close> show ?thesis
    by (auto simp: Committed_def scan_media_def)
qed

subsection \<open>An upload from declaration to commit\<close>

context object_store
begin

text \<open>What a client that uploads what it declared leaves in the bucket passes the verification.\<close>

lemma uploaded_verifies:
  assumes "put k up b s = Inr s'" "up_ByteSize up = media_ByteSize m" "up_ContentType up = media_ContentType m"
  shows "verify (stat s' k) (key_Object k) m = Inr ()"
  using stat_put [OF assms(1)] assms(2,3) by (simp add: verify_def signed_attributes_def)

end

lemma MediaObjects_calm:
  assumes "has_traveller d t" "find_media d t i = Some r"
  obtains ms where "MediaObjects t [i] (calm d) = (Inr (scan_media r # ms), calm d)"
proof -
  let ?rows = "map scan_media (filter (\<lambda>r. md_traveller r = t \<and> md_id r \<in> set [i]) (media_objects d))"
  obtain v where v: "version_of d t = Some v"
    using assms(1) by (auto simp: has_traveller_def version_of_def find_traveller_def find_None)
      (metis (mono_tags, lifting) find_None option.exhaust)
  have "MediaObjects t [i] (calm d) = (Inr ?rows, calm d)"
    using v by (simp add: MediaObjects_def WithReadSnapshot_def readMediaRows_def t_bind_step)
  moreover have "\<exists>ms. ?rows = scan_media r # ms"
    using read_one_media [of t i d] assms(2) by (cases ?rows) auto
  ultimately show thesis using that by auto
qed

lemma WithTravellerLock_calm:
  assumes "has_traveller d t" "fn (calm d) = (Inr x, calm d')"
  shows "WithTravellerLock t fn (calm d) = (Inr x, calm d')"
  using assms
  by (simp add: WithTravellerLock_def lockTraveller_def requireTraveller_def t_bind_step t_bind_def
      t_lift_def guard_def commit_or_rollback_def)

definition declares :: "digest \<Rightarrow> int \<Rightarrow> string \<Rightarrow> media_begin" where
  "declares i n c = \<lparr>mb_SHA256 = Some i, mb_ByteSize = Some n, mb_ContentType = Some c\<rparr>"

text \<open>The row of an upload that is declared now, or was declared before and is still open.\<close>

definition declared_row :: "database \<Rightarrow> instant \<Rightarrow> id \<Rightarrow> digest \<Rightarrow> int \<Rightarrow> string \<Rightarrow> media_row" where
  "declared_row d now t i n c =
     \<lparr>md_traveller = t, md_id = i, md_size = n, md_type = c,
      md_created = (case find_media d t i of None \<Rightarrow> now | Some r \<Rightarrow> md_created r), md_uploaded = None\<rparr>"

lemma validated_declaration:
  assumes "ValidateMediaBegin (declares i n c) maxBytes = Inr ()"
  shows "media_ck (declared_row d now t i n c)"
  using assms
  by (auto simp: ValidateMediaBegin_def declares_def guard_def declared_row_def media_ck_def ContentTypeAllowed_def
      allowedContentTypes_def TrimPrefix_def split: if_splits)

lemma BeginMedia_calm:
  assumes ok: "schema_ok d" and t: "has_traveller d t" and v: "ValidateMediaBegin (declares i n c) maxBytes = Inr ()"
    and open_row: "\<forall>r. find_media d t i = Some r \<longrightarrow> md_uploaded r = None"
  shows "BeginMedia now t (declares i n c) (calm d) = (Inr (scan_media (declared_row d now t i n c)),
     calm (d\<lparr>media_objects := put_row md_key (declared_row d now t i n c) (media_objects d)\<rparr>))"
proof -
  let ?row = "declared_row d now t i n c"
  let ?p = "\<lparr>md_traveller = t, md_id = i, md_size = n, md_type = c, md_created = now, md_uploaded = None\<rparr>"
  let ?d = "d\<lparr>media_objects := put_row md_key ?row (media_objects d)\<rparr>"
  have ck: "media_ck ?row" "media_ck ?p"
    using validated_declaration [OF v, of d now t] by (simp_all add: declared_row_def media_ck_def)
  have key: "md_key ?row = (t, i)" "md_key ?p = (t, i)" by (simp_all add: declared_row_def md_key_def)
  have row: "?row = (case find_media d t i of None \<Rightarrow> ?p
      | Some old \<Rightarrow> if md_uploaded old = None then old\<lparr>md_size := n, md_type := c\<rparr> else old)"
  proof (cases "find_media d t i")
    case (Some r)
    then have "md_key r = (t, i)" by (auto simp: find_media_def dest: find_SomeD)
    with Some open_row show ?thesis by (cases r) (simp add: declared_row_def md_key_def)
  qed (simp add: declared_row_def)
  have fk: "media_fk d ?row" using t by (simp add: media_fk_def declared_row_def)
  from row have row': "(case List.find (\<lambda>x. md_key x = md_key ?p) (media_objects d) of None \<Rightarrow> ?p
      | Some old \<Rightarrow> if md_uploaded old = None then old\<lparr>md_size := n, md_type := c\<rparr> else old) = ?row"
    using key(2) by (simp add: find_media_def)
  have sql: "beginSQL now t i n c d = Inr ?d"
    unfolding beginSQL_def table_upsert_def upsert_def Let_def row' using ck fk by simp
  have f: "find_media ?d t i = Some ?row" using key by (simp add: find_media_def find_put_row)
  let ?rows = "map scan_media (filter (\<lambda>r. md_traveller r = t \<and> md_id r \<in> set [i]) (media_objects ?d))"
  have "\<exists>ms. ?rows = scan_media ?row # ms"
    using read_one_media [of t i ?d] f by (cases ?rows) auto
  then obtain ms where rows: "?rows = scan_media ?row # ms" ..
  have "beginMedia now t i n c (calm d) = (Inr (scan_media ?row), calm ?d)"
    using sql rows by (simp add: beginMedia_def readMediaRows_def t_bind_def t_lift_def)
  with t have "WithTravellerLock t (beginMedia now t i n c) (calm d) = (Inr (scan_media ?row), calm ?d)"
    by (rule WithTravellerLock_calm)
  then show ?thesis by (simp add: BeginMedia_def declares_def)
qed

lemma MarkMediaUploaded_calm:
  assumes ok: "schema_ok d" and t: "has_traveller d t" and r: "find_media d t i = Some r"
    and open_row: "md_uploaded r = None" and clock: "md_created r \<le> now"
  shows "MarkMediaUploaded now t i (calm d) = (Inr (scan_media (r\<lparr>md_uploaded := Some now\<rparr>)),
    calm (d\<lparr>media_objects := put_row md_key (r\<lparr>md_uploaded := Some now\<rparr>) (media_objects d)\<rparr>))"
proof -
  let ?r = "r\<lparr>md_uploaded := Some now\<rparr>"
  have key: "md_key r = (t, i)" and mem: "r \<in> set (media_objects d)"
    using r by (auto simp: find_media_def dest!: find_SomeD)
  have only: "x = r" if "x \<in> set (media_objects d)" "md_key x = (t, i)" for x
    using distinct_map_inj [OF schema_media(1) [OF ok] that(1) mem] that(2) key by simp
  have "media_ck ?r"
    using schema_media(2) [OF ok] mem clock by (auto simp: list_all_iff media_ck_def)
  then have "\<not> list_ex (\<lambda>r. (md_key r = (t, i) \<and> md_uploaded r = None) \<and> \<not> media_ck (r\<lparr>md_uploaded := Some now\<rparr>)) (media_objects d)"
    using only by (auto simp: list_ex_iff)
  moreover have "upd_rows (\<lambda>r. md_key r = (t, i) \<and> md_uploaded r = None) (\<lambda>r. r\<lparr>md_uploaded := Some now\<rparr>) (media_objects d) =
      put_row md_key ?r (media_objects d)"
  proof -
    have "md_key ?r \<in> md_key ` set (media_objects d)" using mem by (auto simp: md_key_def image_iff)
    moreover have "md_key ?r = (t, i)" using key by (simp add: md_key_def)
    moreover have "(if md_key x = (t, i) \<and> md_uploaded x = None then x\<lparr>md_uploaded := Some now\<rparr> else x) =
        (if md_key x = (t, i) then ?r else x)" if "x \<in> set (media_objects d)" for x
      using only [OF that] open_row by (cases "md_key x = (t, i)") auto
    ultimately show ?thesis unfolding put_row_def upd_rows_def by simp
  qed
  ultimately obtain d' where sql: "markSQL now t i d = Inr d'"
    and d': "d' = d\<lparr>media_objects := put_row md_key ?r (media_objects d)\<rparr>" unfolding markSQL_def Let_def by simp
  have f: "find_media d' t i = Some ?r" using find_media_mark [OF sql, of t i] r open_row by simp
  let ?rows = "map scan_media (filter (\<lambda>r. md_traveller r = t \<and> md_id r \<in> set [i]) (media_objects d'))"
  have "\<exists>ms. ?rows = scan_media ?r # ms"
    using read_one_media [of t i d'] f by (cases ?rows) auto
  then obtain ms where rows: "?rows = scan_media ?r # ms" ..
  have "markMedia now t i (calm d) = (Inr (scan_media ?r), calm d')"
    using sql rows by (simp add: markMedia_def readMediaRows_def t_bind_def t_lift_def)
  with t have "WithTravellerLock t (markMedia now t i) (calm d) = (Inr (scan_media ?r), calm d')"
    by (rule WithTravellerLock_calm)
  with d' show ?thesis by (simp add: MarkMediaUploaded_def)
qed

text \<open>C29: An upload that follows the protocol ends in a committed object and touches nothing else. For a
  traveller of the log and a declaration that passes the handler's checks, of an object that is not
  committed yet, the three steps in a row succeed when the driver does not fail and the clock does
  not run backwards: the declaration writes the open row, the upload the bucket accepted for what
  was declared passes the verification, and the commit answers the row with its upload time. At
  the end the database is the first one with that row put and every other row and table as it was.\<close>

theorem upload_then_commit:
  assumes "schema_ok d" "has_traveller d t" "\<forall>r. find_media d t i = Some r \<longrightarrow> md_uploaded r = None"
    and "ValidateMediaBegin (declares i n c) maxBytes = Inr ()" "md_created (declared_row d now t i n c) \<le> later"
    and "Put sha \<lparr>key_Traveller = t, key_Object = i\<rparr> \<lparr>up_SHA256 = i, up_ByteSize = n, up_ContentType = c\<rparr> body bucket = Inr bucket'"
  shows "\<exists>d1 row. BeginMedia now t (declares i n c) (calm d) = (Inr (scan_media (declared_row d now t i n c)), calm d1) \<and>
    row = (declared_row d now t i n c)\<lparr>md_uploaded := Some later\<rparr> \<and>
    CommitMedia (Stat bucket') later t i (calm d1) =
      (Inr (scan_media row), calm (d\<lparr>media_objects := put_row md_key row (media_objects d)\<rparr>)) \<and>
    Committed (scan_media row)"
proof -
  let ?row = "declared_row d now t i n c"
  let ?row' = "?row\<lparr>md_uploaded := Some later\<rparr>"
  let ?d1 = "d\<lparr>media_objects := put_row md_key ?row (media_objects d)\<rparr>"
  have key: "md_key ?row = (t, i)" "md_key ?row' = (t, i)" and open_row: "md_uploaded ?row = None"
    by (simp_all add: declared_row_def md_key_def)
  have begin_run: "BeginMedia now t (declares i n c) (calm d) = (Inr (scan_media ?row), calm ?d1)"
    by (rule BeginMedia_calm [OF assms(1,2,4,3)])
  have d1: "schema_ok ?d1" "has_traveller ?d1 t" "find_media ?d1 t i = Some ?row"
    using assms(2) key validated_declaration [OF assms(4), of d now t]
    by (auto intro!: schema_put_media assms(1) simp: media_fk_def declared_row_def has_traveller_def find_media_def find_put_row)
  from d1(2,3) obtain ms where rows: "MediaObjects t [i] (calm ?d1) = (Inr (scan_media ?row # ms), calm ?d1)"
    by (rule MediaObjects_calm)
  have "verify (Stat bucket' \<lparr>key_Traveller = t, key_Object = i\<rparr>) i (scan_media ?row) = Inr ()"
    using mem.uploaded_verifies [OF assms(6), of "scan_media ?row"] by (simp add: scan_media_def declared_row_def)
  moreover have "MarkMediaUploaded later t i (calm ?d1) = (Inr (scan_media ?row'),
      calm (d\<lparr>media_objects := put_row md_key ?row' (media_objects d)\<rparr>))"
    using MarkMediaUploaded_calm [OF d1 open_row assms(5)] key put_row_twice [of md_key ?row ?row' "media_objects d"] by simp
  moreover have "\<not> Committed (scan_media ?row)" using open_row by (simp add: Committed_def scan_media_def)
  ultimately have "CommitMedia (Stat bucket') later t i (calm ?d1) =
      (Inr (scan_media ?row'), calm (d\<lparr>media_objects := put_row md_key ?row' (media_objects d)\<rparr>))"
    using rows by (simp add: CommitMedia_def t_bind_step t_bind_def t_lift_def)
  with begin_run show ?thesis by (intro exI conjI) (auto simp: Committed_def scan_media_def)
qed

definition uuid_log :: database where
  "uuid_log = sample\<lparr>
     travellers := travellers sample @ [\<lparr>tv_id = sample_uuid, tv_email = ''e@f'', tv_name = None, tv_version = 0\<rparr>]\<rparr>"

theorem upload_then_commit_witness:
  "\<exists>d1 row. BeginMedia 50 sample_uuid (declares asset_b 3 ''image/png'') (calm uuid_log) =
      (Inr (scan_media (declared_row uuid_log 50 sample_uuid asset_b 3 ''image/png'')), calm d1) \<and>
    row = (declared_row uuid_log 50 sample_uuid asset_b 3 ''image/png'')\<lparr>md_uploaded := Some 60\<rparr> \<and>
    CommitMedia (Stat (projr (Put (\<lambda>_. asset_b) \<lparr>key_Traveller = sample_uuid, key_Object = asset_b\<rparr>
       \<lparr>up_SHA256 = asset_b, up_ByteSize = 3, up_ContentType = ''image/png''\<rparr> ''png'' (EnsureBucket NewMemory))))
       60 sample_uuid asset_b (calm d1) =
      (Inr (scan_media row), calm (uuid_log\<lparr>media_objects := put_row md_key row (media_objects uuid_log)\<rparr>)) \<and>
    Committed (scan_media row)"
proof (rule upload_then_commit)
  show "schema_ok uuid_log" "has_traveller uuid_log sample_uuid" by code_simp+
  have none: "find_media uuid_log sample_uuid asset_b = None" by code_simp
  then show "\<forall>r. find_media uuid_log sample_uuid asset_b = Some r \<longrightarrow> md_uploaded r = None" by simp
  show "ValidateMediaBegin (declares asset_b 3 ''image/png'') 10 = Inr ()" by code_simp
  show "md_created (declared_row uuid_log 50 sample_uuid asset_b 3 ''image/png'') \<le> 60"
    using none by (simp add: declared_row_def)
  have "\<not> isl (Put (\<lambda>_. asset_b) \<lparr>key_Traveller = sample_uuid, key_Object = asset_b\<rparr>
      \<lparr>up_SHA256 = asset_b, up_ByteSize = 3, up_ContentType = ''image/png''\<rparr> ''png'' (EnsureBucket NewMemory))"
    by code_simp
  then show "Put (\<lambda>_. asset_b) \<lparr>key_Traveller = sample_uuid, key_Object = asset_b\<rparr>
      \<lparr>up_SHA256 = asset_b, up_ByteSize = 3, up_ContentType = ''image/png''\<rparr> ''png'' (EnsureBucket NewMemory) =
    Inr (projr (Put (\<lambda>_. asset_b) \<lparr>key_Traveller = sample_uuid, key_Object = asset_b\<rparr>
       \<lparr>up_SHA256 = asset_b, up_ByteSize = 3, up_ContentType = ''image/png''\<rparr> ''png'' (EnsureBucket NewMemory)))"
    by (simp add: sum.collapse(2))
qed

subsection \<open>The two transactions of a commit\<close>

text \<open>The verification and the mark are two transactions, and the traveller's lock does not
  span them. A second declaration that arrives in between is accepted, because the row is still
  open, and the mark then commits a row whose declared type is not the one that was verified
  against the bucket.\<close>

theorem commit_races_with_begin:
  "let stored = held \<lparr>key_Traveller = ''u1'', key_Object = asset_b\<rparr>;
       declared = hd (projr (fst (MediaObjects ''u1'' [asset_b] (calm declared_sample))));
       between = snd (BeginMedia 60 ''u1'' \<lparr>mb_SHA256 = Some asset_b, mb_ByteSize = Some 10,
         mb_ContentType = Some ''image/jpeg''\<rparr> (calm declared_sample));
       answer = fst (MarkMediaUploaded 70 ''u1'' asset_b between)
   in verify stored asset_b declared = Inr () \<and> \<not> isl answer \<and> Committed (projr answer) \<and>
      verify stored asset_b (projr answer) = Inl ErrUploadIncomplete"
  by code_simp

end
