(* ===== verification/Store_Walk.thy ===== *)
theory Store_Walk
  imports Store_Trip
begin

section \<open>Walks (\<^verbatim>\<open>internal/postgres/walk_store.go\<close>)\<close>

text \<open>
  \<open>PutWalk\<close>: name it, discard it, create it. The track goes to the statement as two parallel
  arrays which \<open>unnest\<close> pairs up again, and comes back from the row that is there as two arrays:
  the upsert always proposes a track, so a write that carries none re-proposes the stored one.
\<close>

record walkBeforeWrite =
  kb_tripID :: id
  kb_cityID :: id
  kb_recordedOn :: instant
  kb_distanceKm :: rat
  kb_lats :: "rat list"
  kb_lngs :: "rat list"
  kb_isCreate :: bool

definition splitTrack :: "latlng list \<Rightarrow> rat list \<times> rat list" where
  "splitTrack points = (map Lat points, map Lng points)"

text \<open>\<open>unnest(lats, lngs) WITH ORDINALITY\<close>, aggregated in order; the arrays have one length.\<close>

definition trackFromArraysSQL :: "rat list \<Rightarrow> rat list \<Rightarrow> latlng list" where
  "trackFromArraysSQL lats lngs = map (\<lambda>(lat, lng). \<lparr>Lat = lat, Lng = lng\<rparr>) (zip lats lngs)"

definition requireWritableWalk :: "id \<Rightarrow> id \<Rightarrow> walk_write \<Rightarrow> walkBeforeWrite tx" where
  "requireWritableWalk t i w =
     t_bind (t_query (\<lambda>d. case find_walk d t i of
         None \<Rightarrow> \<lparr>kb_tripID = [], kb_cityID = [], kb_recordedOn = 0, kb_distanceKm = 0,
                  kb_lats = [], kb_lngs = [], kb_isCreate = True\<rparr>
       | Some r \<Rightarrow> \<lparr>kb_tripID = wk_trip r, kb_cityID = wk_city r, kb_recordedOn = wk_recorded r,
                    kb_distanceKm = wk_distance r, kb_lats = map Lat (wk_points r),
                    kb_lngs = map Lng (wk_points r), kb_isCreate = False\<rparr>)) (\<lambda>before.
     t_bind (t_lift (CheckWalkWritable (kb_isCreate before) w)) (\<lambda>_. t_return before))"

definition requireTripForWalk :: "id \<Rightarrow> id \<Rightarrow> unit tx" where
  "requireTripForWalk t trip = requireRow (\<lambda>d. has_trip d t trip) (InvalidField ''tripId'')"

definition requireCityForWalk :: "id \<Rightarrow> id \<Rightarrow> unit tx" where
  "requireCityForWalk t city = requireRow (\<lambda>d. has_city d t city) (InvalidField ''cityId'')"

definition proposed_walk ::
  "id \<Rightarrow> id \<Rightarrow> id \<Rightarrow> id \<Rightarrow> instant \<Rightarrow> rat \<Rightarrow> rat list \<Rightarrow> rat list \<Rightarrow> walk_write \<Rightarrow> database \<Rightarrow> walk_row"
  where
  "proposed_walk t i trip city recordedOn distanceKm lats lngs w d =
     \<lparr>wk_traveller = t, wk_id = i, wk_trip = trip, wk_city = city,
      wk_recorded = to_date d recordedOn, wk_distance = distanceKm,
      wk_points = trackFromArraysSQL lats lngs, wk_name = storedWalkName (ww_Name w),
      wk_dismissed = (ww_Dismissed w = Some True)\<rparr>"

definition merge_walk :: "walk_write \<Rightarrow> walk_row \<Rightarrow> walk_row \<Rightarrow> walk_row" where
  "merge_walk w new old = old\<lparr>
     wk_trip := (if ww_TripID w \<noteq> None then wk_trip new else wk_trip old),
     wk_city := (if ww_CityID w \<noteq> None then wk_city new else wk_city old),
     wk_recorded := (if ww_RecordedOn w \<noteq> None then wk_recorded new else wk_recorded old),
     wk_distance := (if ww_DistanceKm w \<noteq> None then wk_distance new else wk_distance old),
     wk_points := (if ww_Points w \<noteq> None then wk_points new else wk_points old),
     wk_name := (if Sent (ww_Name w) then wk_name new else wk_name old),
     wk_dismissed := (if ww_Dismissed w \<noteq> None then wk_dismissed new else wk_dismissed old)\<rparr>"

definition upsertWalkSQL ::
  "id \<Rightarrow> id \<Rightarrow> id \<Rightarrow> id \<Rightarrow> instant \<Rightarrow> rat \<Rightarrow> rat list \<Rightarrow> rat list \<Rightarrow> walk_write \<Rightarrow> database \<Rightarrow>
   db_error + database" where
  "upsertWalkSQL t i trip city recordedOn distanceKm lats lngs w d =
     (let new = proposed_walk t i trip city recordedOn distanceKm lats lngs w d
      in with_texts [wk_name new]
           (table_upsert walks (\<lambda>rs. walks_update (\<lambda>_. rs)) wk_key walk_ck walk_fk
             new (merge_walk w new)) d)"

definition putWalk :: "id \<Rightarrow> id \<Rightarrow> walk_write \<Rightarrow> walk tx" where
  "putWalk t i w =
     t_bind (requireWritableWalk t i w) (\<lambda>before.
     let trip = or_keep (ww_TripID w) (kb_tripID before);
         city = or_keep (ww_CityID w) (kb_cityID before);
         recordedOn = or_keep (ww_RecordedOn w) (kb_recordedOn before);
         distanceKm = or_keep (ww_DistanceKm w) (kb_distanceKm before);
         (lats, lngs) = (case ww_Points w of None \<Rightarrow> (kb_lats before, kb_lngs before)
                         | Some points \<Rightarrow> splitTrack points)
     in t_bind (requireTripForWalk t trip) (\<lambda>_.
        t_bind (requireCityForWalk t city) (\<lambda>_.
        t_bind (t_exec (upsertWalkSQL t i trip city recordedOn distanceKm lats lngs w)) (\<lambda>_.
        readOneWalk t i))))"

definition PutWalk :: "id \<Rightarrow> walk_write \<Rightarrow> (walk \<times> int) tx" where
  "PutWalk t w =
     t_bind (t_lift (CheckWriteID (ww_ID w))) (\<lambda>_.
     WithTravellerTx t (putWalk t (the (ww_ID w)) w))"

subsection \<open>Soundness\<close>

lemma upsertWalkSQL_sound: "upsertWalkSQL t i a b c x la lo w d = Inr d' \<Longrightarrow> sound t d d'"
  unfolding upsertWalkSQL_def Let_def with_texts_Inr
  by (elim conjE, erule walk_table.upsert_sound [rotated 2])
    (simp_all add: proposed_walk_def merge_walk_def wk_key_def)

lemma walk_statements_sound [rel_intros]:
  "tx_rel (sound t) (t_exec (upsertWalkSQL t i a b c x la lo w))"
  by (auto intro: sound.rel_exec upsertWalkSQL_sound)

lemma putWalk_sound: "tx_rel (sound t) (putWalk t i w)"
  unfolding putWalk_def requireWritableWalk_def requireTripForWalk_def requireCityForWalk_def Let_def
  by (intro rel_intros)

lemma PutWalk_write: "write_op t (PutWalk t w)"
  unfolding PutWalk_def by (intro write_op_guarded write_op_tx putWalk_sound)

subsection \<open>The track\<close>

lemma track_roundtrip [simp]: "trackFromArraysSQL (map Lat ps) (map Lng ps) = ps"
  by (induction ps) (simp_all add: trackFromArraysSQL_def)

definition stored_walk :: "database \<Rightarrow> walk_write \<Rightarrow> walk_row option \<Rightarrow> walk_row \<Rightarrow> bool" where
  "stored_walk d w old new \<longleftrightarrow>
     (case old of
        None \<Rightarrow> Some (wk_trip new) = ww_TripID w \<and> Some (wk_city new) = ww_CityID w \<and>
          Some (wk_recorded new) = map_option (to_date d) (ww_RecordedOn w) \<and>
          Some (wk_distance new) = ww_DistanceKm w \<and> Some (wk_points new) = ww_Points w \<and>
          wk_name new = storedWalkName (ww_Name w) \<and>
          wk_dismissed new = or_keep (ww_Dismissed w) False
      | Some r \<Rightarrow> wk_trip new = or_keep (ww_TripID w) (wk_trip r) \<and>
          wk_city new = or_keep (ww_CityID w) (wk_city r) \<and>
          wk_recorded new = or_keep (map_option (to_date d) (ww_RecordedOn w)) (wk_recorded r) \<and>
          wk_distance new = or_keep (ww_DistanceKm w) (wk_distance r) \<and>
          wk_points new = or_keep (ww_Points w) (wk_points r) \<and>
          wk_name new = (if Sent (ww_Name w) then storedWalkName (ww_Name w) else wk_name r) \<and>
          wk_dismissed new = or_keep (ww_Dismissed w) (wk_dismissed r))"

lemma upsertWalkSQL_ok:
  assumes "upsertWalkSQL t i a b c x la lo w d = Inr d'"
  obtains r where "d' = d\<lparr>walks := put_row wk_key r (walks d)\<rparr>" "wk_key r = (t, i)"
    "r = (case find_walk d t i of None \<Rightarrow> proposed_walk t i a b c x la lo w d
            | Some old \<Rightarrow> merge_walk w (proposed_walk t i a b c x la lo w d) old)"
proof -
  have "table_upsert walks (\<lambda>rs. walks_update (\<lambda>_. rs)) wk_key walk_ck walk_fk
       (proposed_walk t i a b c x la lo w d) (merge_walk w (proposed_walk t i a b c x la lo w d)) d = Inr d'"
    using assms by (simp add: upsertWalkSQL_def Let_def)
  then show thesis
  proof (rule walk_table.table_upsert_ok)
    show "wk_key (merge_walk w (proposed_walk t i a b c x la lo w d) old) =
        wk_key (proposed_walk t i a b c x la lo w d)"
      if "wk_key old = wk_key (proposed_walk t i a b c x la lo w d)" for old
      using that by (simp add: merge_walk_def wk_key_def)
  qed (use that in \<open>simp add: find_walk_def proposed_walk_def wk_key_def\<close>)
qed

lemma putWalk_Inr:
  assumes "putWalk t i w s = (Inr k, s')"
  obtains r where "stored_walk (tx_db s) w (find_walk (tx_db s) t i) r"
    "k = scan_walk (appended (wk_points r)) r"
    "tx_db s' = (tx_db s)\<lparr>walks := put_row wk_key r (walks (tx_db s))\<rparr>" "wk_key r = (t, i)"
    "has_trip (tx_db s) t (wk_trip r)" "has_city (tx_db s) t (wk_city r)"
proof -
  let ?old = "find_walk (tx_db s) t i"
  let ?before = "case ?old of
         None \<Rightarrow> \<lparr>kb_tripID = [], kb_cityID = [], kb_recordedOn = 0, kb_distanceKm = 0,
                  kb_lats = [], kb_lngs = [], kb_isCreate = True\<rparr>
       | Some r \<Rightarrow> \<lparr>kb_tripID = wk_trip r, kb_cityID = wk_city r, kb_recordedOn = wk_recorded r,
                    kb_distanceKm = wk_distance r, kb_lats = map Lat (wk_points r),
                    kb_lngs = map Lng (wk_points r), kb_isCreate = False\<rparr>"
  let ?trip = "or_keep (ww_TripID w) (kb_tripID ?before)"
  let ?city = "or_keep (ww_CityID w) (kb_cityID ?before)"
  let ?on = "or_keep (ww_RecordedOn w) (kb_recordedOn ?before)"
  let ?km = "or_keep (ww_DistanceKm w) (kb_distanceKm ?before)"
  let ?ll = "case ww_Points w of None \<Rightarrow> (kb_lats ?before, kb_lngs ?before)
     | Some points \<Rightarrow> splitTrack points"
  let ?pts = "or_keep (ww_Points w) (case ?old of None \<Rightarrow> [] | Some r \<Rightarrow> wk_points r)"
  have ll: "fst ?ll = map Lat ?pts" "snd ?ll = map Lng ?pts"
    by (auto simp: splitTrack_def or_keep_def split: option.splits)
  from assms obtain s1 s2 s3 s4 where
    chk: "CheckWalkWritable (kb_isCreate ?before) w = Inr ()" "tx_db s1 = tx_db s" and
    trip: "requireRow (\<lambda>d. has_trip d t ?trip) (InvalidField ''tripId'') s1 = (Inr (), s2)" and
    city: "requireRow (\<lambda>d. has_city d t ?city) (InvalidField ''cityId'') s2 = (Inr (), s3)" and
    put: "t_exec (upsertWalkSQL t i ?trip ?city ?on ?km (fst ?ll) (snd ?ll) w) s3 = (Inr (), s4)" and
    reread: "readOneWalk t i s4 = (Inr k, s')"
    unfolding putWalk_def requireWritableWalk_def requireTripForWalk_def requireCityForWalk_def Let_def
      t_bind_Inr case_prod_unfold
    by (auto dest!: t_query_Inr)
  have dbs: "tx_db s2 = tx_db s" "tx_db s3 = tx_db s" "has_trip (tx_db s) t ?trip" "has_city (tx_db s) t ?city"
    using requireRow_Inr [OF trip] requireRow_Inr [OF city] chk(2) by auto
  have "upsertWalkSQL t i ?trip ?city ?on ?km (map Lat ?pts) (map Lng ?pts) w (tx_db s) = Inr (tx_db s4)"
    using t_exec_Inr [OF put] dbs unfolding ll by simp
  then obtain r where r: "tx_db s4 = (tx_db s)\<lparr>walks := put_row wk_key r (walks (tx_db s))\<rparr>"
    "wk_key r = (t, i)" "r = (case ?old of
        None \<Rightarrow> proposed_walk t i ?trip ?city ?on ?km (map Lat ?pts) (map Lng ?pts) w (tx_db s)
      | Some old \<Rightarrow> merge_walk w (proposed_walk t i ?trip ?city ?on ?km (map Lat ?pts) (map Lng ?pts) w (tx_db s)) old)"
    by (rule upsertWalkSQL_ok)
  have stored: "stored_walk (tx_db s) w ?old r"
    using r(3) chk(1)
    by (cases ?old)
      (auto simp: stored_walk_def proposed_walk_def merge_walk_def Sent_def Value_def or_keep_def
        CheckWalkWritable_def firstMissing_def split: option.splits if_splits)
  have refs: "wk_trip r = ?trip" "wk_city r = ?city"
    using r(3) by (auto simp: proposed_walk_def merge_walk_def or_keep_def split: option.splits)
  have "find_walk (tx_db s4) t i = Some r"
    using r(1,2) by (simp add: find_walk_def find_put_row)
  then have "k = scan_walk (appended (wk_points r)) r" "tx_db s' = tx_db s4"
    using reread by (auto simp: readOneWalk_def t_bind_Inr dest!: t_query_Inr)
  with stored r(1,2) refs dbs that show thesis by simp
qed

text \<open>A walk write that succeeds stores each field by the pointer contract. The track of an
  existing walk changes only when the body carries points, and then it is exactly the points
  sent, in order; the answer shows the stored track. Every other walk and every other table is
  as it was, and the trip and the city the row names are the traveller's.\<close>

theorem put_walk_effect:
  assumes "PutWalk t w s = (Inr (k, v), s')" "ww_ID w = Some i"
  shows "(\<exists>r. find_walk (tx_db s') t i = Some r \<and> k = scan_walk (appended (wk_points r)) r \<and>
       stored_walk (tx_db s) w (find_walk (tx_db s) t i) r \<and>
       has_trip (tx_db s') t (wk_trip r) \<and> has_city (tx_db s') t (wk_city r)) \<and>
     (\<forall>u j. (u, j) \<noteq> (t, i) \<longrightarrow> find_walk (tx_db s') u j = find_walk (tx_db s) u j) \<and>
     trips (tx_db s') = trips (tx_db s) \<and> places (tx_db s') = places (tx_db s) \<and>
     visits (tx_db s') = visits (tx_db s) \<and> photos (tx_db s') = photos (tx_db s) \<and>
     version_of (tx_db s') t = Some v"
proof -
  from assms have "WithTravellerTx t (putWalk t i w) s = (Inr (k, v), s')"
    by (simp add: PutWalk_def t_bind_Inr)
  then have wrote: "wrote t (putWalk t i w) (tx_db s) k v (tx_db s')" by (rule WithTravellerTx_Inr)
  then obtain s1 s2 where s1: "tx_db s1 = bumped t (tx_db s)"
    and run: "putWalk t i w s1 = (Inr k, s2)" and s2: "tx_db s' = tx_db s2"
    by (auto simp: wrote_def)
  have same: "find_walk (tx_db s1) = find_walk (tx_db s)"
    "stored_walk (tx_db s1) = stored_walk (tx_db s)"
    by (simp_all add: find_walk_def s1 fun_eq_iff stored_walk_def split: option.splits)
  from run obtain r where r: "stored_walk (tx_db s1) w (find_walk (tx_db s1) t i) r"
    "k = scan_walk (appended (wk_points r)) r"
    "tx_db s2 = (tx_db s1)\<lparr>walks := put_row wk_key r (walks (tx_db s1))\<rparr>" "wk_key r = (t, i)"
    "has_trip (tx_db s1) t (wk_trip r)" "has_city (tx_db s1) t (wk_city r)"
    by (rule putWalk_Inr)
  have "version_of (tx_db s') t = Some v"
    using wrote_advances [OF putWalk_sound wrote] by simp
  moreover have "\<forall>u j. (u, j) \<noteq> (t, i) \<longrightarrow> find_walk (tx_db s') u j = find_walk (tx_db s) u j"
    using r(3,4) s1 s2 by (auto simp: find_walk_def find_put_row)
  moreover have "find_walk (tx_db s') t i = Some r"
    using r(3,4) s1 s2 by (simp add: find_walk_def find_put_row)
  moreover have "has_trip (tx_db s') t (wk_trip r)" "has_city (tx_db s') t (wk_city r)"
    using r(3,5,6) s2 by (simp_all add: has_trip_def has_city_def)
  ultimately show ?thesis using r(1,2,3) same s1 s2 by simp
qed

definition sample_walk_write :: walk_write where
  "sample_walk_write = \<lparr>ww_ID = Some ''w1'', ww_TripID = None, ww_CityID = None,
     ww_RecordedOn = None, ww_DistanceKm = None, ww_Points = None, ww_Name = Some (Some '' Cais ''),
     ww_Dismissed = Some True\<rparr>"

theorem put_walk_effect_witness:
  "\<exists>k v s'. PutWalk ''u1'' sample_walk_write (calm sample) = (Inr (k, v), s') \<and>
     walk_Points k = Some [\<lparr>Lat = 41, Lng = -8\<rparr>] \<and> walk_Name k = Some ''Cais'' \<and> walk_Dismissed k"
proof -
  have "\<not> isl (fst (PutWalk ''u1'' sample_walk_write (calm sample)))" by code_simp
  then obtain x s' where run: "PutWalk ''u1'' sample_walk_write (calm sample) = (Inr x, s')" by (rule ran)
  obtain k v where x: "x = (k, v)" by (metis prod.exhaust)
  have old: "map_option wk_points (find_walk sample ''u1'' ''w1'') = Some [\<lparr>Lat = 41, Lng = -8\<rparr>]"
    "storedWalkName (Some (Some '' Cais '')) = Some ''Cais''" by code_simp+
  with put_walk_effect [of "''u1''" sample_walk_write "calm sample" k v s' "''w1''"] run x
  show ?thesis
    by (auto simp: sample_walk_write_def stored_walk_def or_keep_def Sent_def scan_walk_def appended_def)
qed

end
