(* ===== verification/Etag.thy ===== *)
theory Etag
  imports Text
begin

section \<open>The entity tag (\<^verbatim>\<open>internal/httpx/etag.go\<close>)\<close>

text \<open>
  \<open>FormatETag\<close> writes \<^verbatim>\<open>W/"emitter-logbook"\<close> and panics on a half below one (here \<^const>\<open>None\<close>);
  \<open>ParseETag\<close> reads a tag back; \<open>ETagMatches\<close> is the weak comparison of RFC 9110 against an
  \<open>If-None-Match\<close> header. The lemmas: formatting and parsing are inverse, and a header made of
  formatted tags matches exactly when the current tag is one of them.
\<close>

abbreviation quote :: char where "quote \<equiv> CHR 0x22"

definition FormatETag :: "int \<Rightarrow> int \<Rightarrow> string option" where
  "FormatETag emitterVersion logbookVersion =
     (if emitterVersion < 1 \<or> logbookVersion < 1 then None
      else Some (''W/'' @ [quote] @ FormatInt emitterVersion @ ''-'' @
                 FormatInt logbookVersion @ [quote]))"

definition opaqueTag :: "string \<Rightarrow> string option" where
  "opaqueTag s0 =
     (let s = TrimPrefix ''W/'' (TrimSpace s0)
      in if length s < 2 \<or> hd s \<noteq> quote \<or> last s \<noteq> quote then None else Some s)"

definition ParseETag :: "string \<Rightarrow> (int \<times> int) option" where
  "ParseETag s =
     (case opaqueTag s of
        None \<Rightarrow> None
      | Some tag \<Rightarrow>
          (case Cut (CHR ''-'') (TrimByte quote tag) of
             None \<Rightarrow> None
           | Some (left, right) \<Rightarrow>
               (case ParseInt64 left of
                  None \<Rightarrow> None
                | Some e \<Rightarrow>
                    if e < 1 then None
                    else (case ParseInt64 right of
                            None \<Rightarrow> None
                          | Some v \<Rightarrow> if v < 1 then None else Some (e, v)))))"

definition ETagMatches :: "string \<Rightarrow> string \<Rightarrow> bool" where
  "ETagMatches ifNoneMatch etag =
     (case opaqueTag etag of
        None \<Rightarrow> False
      | Some current \<Rightarrow>
          (let header = TrimSpace ifNoneMatch
           in if header = [] then False
              else if header = ''*'' then True
              else list_ex (\<lambda>candidate. opaqueTag candidate = Some current)
                     (Split (CHR '','') header)))"

subsection \<open>The text of a tag\<close>

definition opaque_of :: "int \<Rightarrow> int \<Rightarrow> string" where
  "opaque_of e v = [quote] @ FormatInt e @ ''-'' @ FormatInt v @ [quote]"

lemma FormatETag_Some:
  "FormatETag e v = Some t \<longleftrightarrow> 1 \<le> e \<and> 1 \<le> v \<and> t = ''W/'' @ opaque_of e v"
  by (auto simp: FormatETag_def opaque_of_def)

lemma opaqueTag_opaque_of: "opaqueTag (''W/'' @ opaque_of e v) = Some (opaque_of e v)"
proof -
  have "TrimSpace (''W/'' @ opaque_of e v) = ''W/'' @ opaque_of e v"
    by (rule TrimSpace_id) (auto simp: opaque_of_def)
  then show ?thesis
    by (simp add: opaqueTag_def TrimPrefix_def opaque_of_def)
qed

text \<open>Leading and trailing blanks around a list element do not matter.\<close>

lemma TrimSpace_blank: "TrimSpace (CHR '' '' # s) = TrimSpace s"
proof -
  have "List.find (\<lambda>w. w \<noteq> [] \<and> prefix w (bytes (CHR '' '' # s))) ws_runes = Some [32]"
    by (simp add: ws_runes_def bytes_def)
  then have "trim_left (CHR '' '' # s) = trim_left s"
    by (simp add: trim_left_def strip.simps [of ws_runes "CHR '' '' # s"])
  then show ?thesis by (simp add: TrimSpace_def)
qed

lemma opaqueTag_blank: "opaqueTag (CHR '' '' # s) = opaqueTag s"
  by (simp add: opaqueTag_def TrimSpace_blank)

lemma FormatInt_pos: "0 \<le> i \<Longrightarrow> FormatInt i = FormatNat (nat i)"
  by (simp add: FormatInt_def)

lemma FormatInt_notin:
  "0 \<le> i \<Longrightarrow> (of_char c :: nat) < 48 \<or> 57 < (of_char c :: nat) \<Longrightarrow> c \<notin> set (FormatInt i)"
  by (simp add: FormatInt_pos FormatNat_notin)

lemma FormatInt_inj:
  assumes "0 \<le> i" "0 \<le> j" "FormatInt i = FormatInt j"
  shows "i = j"
proof -
  from assms have "Some (nat i) = Some (nat j)"
    by (simp only: FormatInt_pos flip: parse_FormatNat)
  with assms show ?thesis by simp
qed

lemma opaque_of_inj:
  assumes "0 \<le> e" "0 \<le> v" "0 \<le> e'" "0 \<le> v'" and eq: "opaque_of e v = opaque_of e' v'"
  shows "e = e' \<and> v = v'"
proof -
  have "Cut (CHR ''-'') (FormatInt e @ CHR ''-'' # FormatInt v) = Some (FormatInt e, FormatInt v)"
    and "Cut (CHR ''-'') (FormatInt e' @ CHR ''-'' # FormatInt v') = Some (FormatInt e', FormatInt v')"
    using assms by (simp_all add: Cut_append FormatInt_notin)
  moreover have "FormatInt e @ CHR ''-'' # FormatInt v = FormatInt e' @ CHR ''-'' # FormatInt v'"
    using eq by (simp add: opaque_of_def)
  ultimately show ?thesis using assms by (metis FormatInt_inj option.inject prod.inject)
qed

subsection \<open>Round trip\<close>

lemma ParseETag_opaque:
  assumes "1 \<le> e" "1 \<le> v" "e < 2 ^ 63" "v < 2 ^ 63"
  shows "ParseETag (''W/'' @ opaque_of e v) = Some (e, v)"
proof -
  let ?inner = "FormatInt e @ CHR ''-'' # FormatInt v"
  have "quote \<notin> set ?inner"
    using assms by (auto simp: FormatInt_notin)
  then have "TrimByte quote (opaque_of e v) = ?inner"
    using TrimByte_quoted [of ?inner quote] by (simp add: opaque_of_def)
  moreover have "Cut (CHR ''-'') ?inner = Some (FormatInt e, FormatInt v)"
    using assms by (simp add: Cut_append FormatInt_notin)
  ultimately show ?thesis
    using assms by (simp add: ParseETag_def opaqueTag_opaque_of [simplified] ParseInt64_FormatInt)
qed

text \<open>
  An entity tag written by \<open>FormatETag\<close> from two positive \<open>int64\<close> halves is always produced
  (no panic) and reads back through \<open>ParseETag\<close> as exactly the two halves it was built from.
\<close>

theorem etag_roundtrip:
  assumes "1 \<le> e" "1 \<le> v" "e < 2 ^ 63" "v < 2 ^ 63"
  shows "\<exists>t. FormatETag e v = Some t \<and> ParseETag t = Some (e, v)"
  using assms ParseETag_opaque [OF assms] by (auto simp: FormatETag_Some)

theorem etag_roundtrip_witness:
  "\<exists>t. FormatETag 2 41 = Some t \<and> ParseETag t = Some (2, 41)"
  by (rule etag_roundtrip) simp_all

subsection \<open>Matching a header\<close>

lemma list_ex_Split_Join:
  assumes "\<And>t. t \<in> set ts \<Longrightarrow> CHR '','' \<notin> set t"
    and "ts \<noteq> []" and "\<And>s. P (CHR '' '' # s) = P s"
  shows "list_ex P (Split (CHR '','') (Join '', '' ts)) = list_ex P ts"
  using assms(1,2)
proof (induction ts rule: induct_list012)
  case (3 x y zs)
  have tail: "list_ex P (Split (CHR '','') (Join '', '' (y # zs))) = list_ex P (y # zs)"
    using "3.IH"(2) "3.prems" by simp
  have blank: "list_ex P (Split (CHR '','') (CHR '' '' # s)) = list_ex P (Split (CHR '','') s)" for s
    by (cases "Split (CHR '','') s") (auto simp: assms(3))
  have "Split (CHR '','') (Join '', '' (x # y # zs)) =
      x # Split (CHR '','') (CHR '' '' # Join '', '' (y # zs))"
    using "3.prems" Split_append [of "CHR '',''" x "CHR '' '' # Join '', '' (y # zs)"] by simp
  then show ?case by (simp del: Join.simps Split.simps add: blank tail)
qed (auto simp: Split_no_sep)

definition tags :: "(int \<times> int) list \<Rightarrow> string list" where
  "tags vs = map (\<lambda>(e, v). ''W/'' @ opaque_of e v) vs"

lemma Join_ends:
  assumes "ts \<noteq> []" and "\<forall>t \<in> set ts. t \<noteq> []"
  shows "Join sep ts \<noteq> [] \<and> hd (Join sep ts) = hd (hd ts) \<and> last (Join sep ts) = last (last ts)"
  using assms by (induction ts rule: induct_list012) auto

lemma ETagMatches_tags:
  assumes vs: "vs \<noteq> []" "\<forall>(e, v) \<in> set vs. 1 \<le> e \<and> 1 \<le> v" and "1 \<le> e" "1 \<le> v"
  shows "ETagMatches (Join '', '' (tags vs)) (''W/'' @ opaque_of e v) \<longleftrightarrow> (e, v) \<in> set vs"
proof -
  let ?h = "Join '', '' (tags vs)"
  have ends: "\<forall>t \<in> set (tags vs). t \<noteq> [] \<and> hd t = CHR ''W'' \<and> last t = quote"
    by (auto simp: tags_def opaque_of_def)
  have "tags vs \<noteq> []" using vs by (simp add: tags_def)
  with ends have h: "?h \<noteq> [] \<and> hd ?h = CHR ''W'' \<and> last ?h = quote"
    using Join_ends [of "tags vs" "'', ''"] by auto
  then have trim: "TrimSpace ?h = ?h"
    by (intro TrimSpace_id) auto
  have star: "?h \<noteq> ''*''" using h by auto
  have comma: "CHR '','' \<notin> set t" if "t \<in> set (tags vs)" for t
    using that vs(2) by (auto simp: tags_def opaque_of_def FormatInt_notin)
  let ?P = "\<lambda>c. opaqueTag c = Some (opaque_of e v)"
  have "ETagMatches ?h (''W/'' @ opaque_of e v) = list_ex ?P (Split (CHR '','') ?h)"
    using h star by (simp add: ETagMatches_def trim opaqueTag_opaque_of [simplified])
  also have "\<dots> = list_ex ?P (tags vs)"
    by (rule list_ex_Split_Join) (use comma vs in \<open>auto simp: tags_def opaqueTag_blank\<close>)
  also have "\<dots> \<longleftrightarrow> (\<exists>(e', v') \<in> set vs. opaque_of e' v' = opaque_of e v)"
    by (simp add: tags_def list_ex_iff split_beta opaqueTag_opaque_of [simplified])
  also have "\<dots> \<longleftrightarrow> (e, v) \<in> set vs"
  proof
    assume "\<exists>(e', v') \<in> set vs. opaque_of e' v' = opaque_of e v"
    then obtain e' v' where m: "(e', v') \<in> set vs" "opaque_of e' v' = opaque_of e v" by auto
    with vs have "1 \<le> e'" "1 \<le> v'" by auto
    with m assms(3,4) have "e' = e \<and> v' = v" by (intro opaque_of_inj) auto
    with m show "(e, v) \<in> set vs" by simp
  qed auto
  finally show ?thesis .
qed

text \<open>
  For an \<open>If-None-Match\<close> header that is a comma-separated list of tags this server issued,
  \<open>ETagMatches\<close> answers true exactly when the current tag, both halves of it, is in the list: a
  tag of another emitter version or another logbook version never matches.
\<close>

theorem etag_matches_exactly:
  assumes "vs \<noteq> []" and "\<forall>(e, v) \<in> set vs. 1 \<le> e \<and> 1 \<le> v" and "FormatETag e v = Some t"
  shows "ETagMatches (Join '', '' (map (\<lambda>(e, v). the (FormatETag e v)) vs)) t \<longleftrightarrow> (e, v) \<in> set vs"
proof -
  have "map (\<lambda>(e, v). the (FormatETag e v)) vs = tags vs"
    using assms(2) by (auto simp: tags_def FormatETag_def opaque_of_def)
  then show ?thesis
    using ETagMatches_tags [OF assms(1,2), of e v] assms(3) by (auto simp: FormatETag_Some)
qed

theorem etag_matches_exactly_witness:
  "\<not> ETagMatches (Join '', '' (map (\<lambda>(e, v). the (FormatETag e v)) [(1, 7), (2, 6)]))
       (the (FormatETag 2 7))"
  using etag_matches_exactly [of "[(1, 7), (2, 6)]" 2 7 "the (FormatETag 2 7)"]
  by (simp add: FormatETag_def)

end
