(* ===== verification/Geocode.thy ===== *)
theory Geocode
  imports Text Logbook_Types
begin

section \<open>City search (\<^verbatim>\<open>internal/geocode/geocode.go\<close>)\<close>

text \<open>
  \<open>Photon.Search\<close> from the typed name to the cities. The exchange with the outside service is a
  parameter: \<open>exchange url\<close> is the status and the decoded answer (\<^const>\<open>None\<close> where the body is not the
  JSON expected), or \<^const>\<open>None\<close> when no answer came. \<open>upper\<close> is \<open>strings.ToUpper\<close>.
\<close>

record geo_city =
  gc_Name :: string
  gc_Region :: string
  gc_CountryCode :: string
  gc_CountryName :: string
  gc_Lat :: rat
  gc_Lon :: rat

record feature =
  ft_Coordinates :: "rat list"
  ft_Name :: string
  ft_State :: string
  ft_County :: string
  ft_Country :: string
  ft_CountryCode :: string
  ft_OSMValue :: string

datatype geocode_error = NoAnswer | AnsweredStatus nat | UnreadableAnswer

definition places_osm :: "string list" where
  "places_osm = [''city'', ''town'', ''village'', ''hamlet'', ''municipality'', ''borough'', ''suburb'', ''island'']"

text \<open>\<open>url.QueryEscape\<close>, and \<open>url.Values.Encode\<close> of the three parameters, sorted by key.\<close>

definition unreserved :: "char \<Rightarrow> bool" where
  "unreserved c \<longleftrightarrow> in_range (CHR ''a'') (CHR ''z'') c \<or> in_range (CHR ''A'') (CHR ''Z'') c \<or>
     in_range (CHR ''0'') (CHR ''9'') c \<or> c \<in> {CHR ''-'', CHR ''_'', CHR ''.'', CHR ''~''}"

definition upper_hex :: "nat \<Rightarrow> char" where
  "upper_hex n = char_of (if n < 10 then 48 + n else 55 + n)"

definition escape_byte :: "char \<Rightarrow> string" where
  "escape_byte c =
     (if unreserved c then [c] else if c = CHR '' '' then ''+''
      else [CHR ''%'', upper_hex (of_char c div 16), upper_hex (of_char c mod 16)])"

definition QueryEscape :: "string \<Rightarrow> string" where
  "QueryEscape s = concat (map escape_byte s)"

definition search_url :: "string \<Rightarrow> string \<Rightarrow> int \<Rightarrow> string" where
  "search_url base q limit =
     base @ ''/api/?'' @ ''lang=en&limit='' @ QueryEscape (FormatInt limit) @ ''&q='' @ QueryEscape q"

definition TrimSuffix :: "char \<Rightarrow> string \<Rightarrow> string" where
  "TrimSuffix c s = (if s \<noteq> [] \<and> last s = c then butlast s else s)"

definition NewPhoton :: "string \<Rightarrow> string" where
  "NewPhoton base = TrimSuffix (CHR ''/'') base"

definition is_city :: "feature \<Rightarrow> bool" where
  "is_city f \<longleftrightarrow> ft_OSMValue f \<in> set places_osm \<and> ft_Name f \<noteq> [] \<and> length (ft_Coordinates f) = 2"

definition to_city :: "(string \<Rightarrow> string) \<Rightarrow> feature \<Rightarrow> geo_city" where
  "to_city upper f =
     \<lparr>gc_Name = ft_Name f, gc_Region = (if ft_State f = [] then ft_County f else ft_State f),
      gc_CountryCode = upper (ft_CountryCode f), gc_CountryName = ft_Country f,
      gc_Lat = ft_Coordinates f ! 1, gc_Lon = ft_Coordinates f ! 0\<rparr>"

definition Search ::
  "(string \<Rightarrow> string) \<Rightarrow> (string \<Rightarrow> (nat \<times> feature list option) option) \<Rightarrow> string \<Rightarrow> string \<Rightarrow> int \<Rightarrow>
   geocode_error + geo_city list" where
  "Search upper exchange base q limit =
     (let q = TrimSpace q in
      if q = [] then Inr []
      else case exchange (search_url base q limit) of
             None \<Rightarrow> Inl NoAnswer
           | Some (status, answer) \<Rightarrow>
               if status \<noteq> 200 then Inl (AnsweredStatus status)
               else case answer of
                      None \<Rightarrow> Inl UnreadableAnswer
                    | Some features \<Rightarrow> Inr (map (to_city upper) (filter is_city features)))"

text \<open>A query that is only white space asks nobody.\<close>

lemma blank_query_asks_nobody: "TrimSpace q = [] \<Longrightarrow> Search upper exchange base q limit = Inr []"
  by (simp add: Search_def)

text \<open>Every answer is a place a traveller goes to, with a name and two coordinates.\<close>

lemma Search_cities:
  assumes "Search upper exchange base q limit = Inr cs" "c \<in> set cs"
  shows "\<exists>f answer. exchange (search_url base (TrimSpace q) limit) = Some (200, Some answer) \<and> f \<in> set answer \<and>
     ft_OSMValue f \<in> set places_osm \<and> gc_Name c \<noteq> [] \<and> ft_Coordinates f = [gc_Lon c, gc_Lat c]"
proof -
  from assms obtain answer f where run: "exchange (search_url base (TrimSpace q) limit) = Some (200, Some answer)"
    and f: "f \<in> set answer" "is_city f" "c = to_city upper f"
    by (auto simp: Search_def Let_def split: if_splits option.splits)
  from f(2) have "length (ft_Coordinates f) = Suc (Suc 0)" by (simp add: is_city_def)
  then obtain x y where "ft_Coordinates f = [x, y]" by (auto simp: length_Suc_conv)
  then have "ft_Coordinates f = [gc_Lon c, gc_Lat c]" by (simp add: f(3) to_city_def)
  moreover have "ft_OSMValue f \<in> set places_osm" "gc_Name c \<noteq> []" using f(2) by (simp_all add: f(3) is_city_def to_city_def)
  ultimately show ?thesis using run f(1) by blast
qed

text \<open>
  The escape is injective: two different queries never ask the same URL. Each byte's image starts
  with a character that tells how long it is.
\<close>

lemma upper_hex_inj: "\<lbrakk>a < 16; b < 16; upper_hex a = upper_hex b\<rbrakk> \<Longrightarrow> a = b"
proof -
  assume ab: "a < 16" "b < 16" "upper_hex a = upper_hex b"
  have "(of_char (upper_hex n) :: nat) = (if n < 10 then 48 + n else 55 + n)" if "n < 16" for n
    using that by (simp add: upper_hex_def)
  from this [OF ab(1)] this [OF ab(2)] ab(3) have "(if a < 10 then 48 + a else 55 + a) = (if b < 10 then 48 + b else 55 + b)"
    by metis
  then show "a = b" by (simp split: if_splits)
qed

lemma escape_byte_inj:
  assumes "escape_byte c @ r = escape_byte d @ s"
  shows "c = d \<and> r = s"
proof -
  have special: "\<not> unreserved (CHR ''%'')" "\<not> unreserved (CHR ''+'')" "\<not> unreserved (CHR '' '')" by code_simp+
  have hex: "c = d" if "upper_hex (of_char c div 16) = upper_hex (of_char d div 16)"
    "upper_hex (of_char c mod 16) = upper_hex (of_char d mod 16)"
  proof -
    have small: "of_char x div 16 < (16 :: nat)" "of_char x mod 16 < (16 :: nat)" for x :: char
      using nat_of_char_less_256 [of x] by (auto simp: less_mult_imp_div_less)
    have "(of_char c :: nat) = of_char d"
      using upper_hex_inj [OF small(1) small(1) that(1)] upper_hex_inj [OF small(2) small(2) that(2)]
        div_mult_mod_eq [of "of_char c :: nat" 16] div_mult_mod_eq [of "of_char d :: nat" 16] by metis
    then show ?thesis by simp
  qed
  show ?thesis
    by (cases "unreserved c"; cases "unreserved d"; cases "c = CHR '' ''"; cases "d = CHR '' ''")
      (use assms special in \<open>auto simp: escape_byte_def intro: hex\<close>)
qed

lemma QueryEscape_inj: "QueryEscape a = QueryEscape b \<Longrightarrow> a = b"
proof (induction a arbitrary: b)
  case Nil
  then show ?case by (cases b) (auto simp: QueryEscape_def escape_byte_def split: if_splits)
next
  case (Cons c a)
  show ?case
  proof (cases b)
    case Nil
    with Cons.prems show ?thesis by (auto simp: QueryEscape_def escape_byte_def split: if_splits)
  next
    case (Cons d b')
    with Cons.prems have "escape_byte c @ QueryEscape a = escape_byte d @ QueryEscape b'" by (simp add: QueryEscape_def)
    from escape_byte_inj [OF this] Cons.IH [of b'] Cons show ?thesis by simp
  qed
qed

end
