(* ===== verification/Handlers.thy ===== *)
theory Handlers
  imports Store_Public Store_Media Store_Walk Store_City Etag Geocode
begin

section \<open>The HTTP handlers (\<^verbatim>\<open>internal/httpapi\<close>)\<close>

text \<open>
  One definition per route, from the request (the traveller the middleware resolved, the path
  value, the headers and query the handler reads, the decoded body) to the response and the new
  state. A body that does not decode is the error \<open>DecodeJSON\<close> answers. JSON itself is not
  modelled: a response body is the value that is encoded.

  What lies outside the handlers is in \<open>world\<close>: the digest of a token, PostgreSQL's \<open>now()\<close>, the
  server's clock, the upload limit, and the object store's answers.
\<close>

record 'b request =
  rq_Traveller :: "id option"
  rq_ID :: string
  rq_Format :: string
  rq_IfNoneMatch :: string
  rq_Photos :: string
  rq_Body :: "error + 'b"

record begin_body =
  bb_ID :: digest
  bb_AlreadyExists :: bool
  bb_UploadURL :: string
  bb_ExpiresAt :: "instant option"
  bb_UploadHeaders :: "(string \<times> string) list"

record media_body =
  mo_ID :: digest
  mo_ByteSize :: int
  mo_ContentType :: string
  mo_AlreadyExists :: bool
  mo_UploadedAt :: "instant option"

datatype body =
    NoBody
  | ErrorBody errorPayload
  | EnvelopeBody envelope
  | TripBody trip | CityBody city | PlaceBody place | PhotoBody photo | WalkBody walk
  | SnoozeBody "photo list" | NameBody string
  | BeginBody begin_body | MediaBody media_body | MintBody "string list"
  | TravellerBody id string "string option" | SessionBody string instant | CitiesBody "geo_city list"

record response =
  rs_Status :: nat
  rs_ETag :: "string option"
  rs_Format :: "string option"
  rs_Body :: body

record world =
  w_sha :: hasher
  w_now :: instant
  w_clock :: instant
  w_maxBytes :: int
  w_stat :: "object_key \<Rightarrow> object_error + attributes"
  w_presignPut :: "object_key \<Rightarrow> upload \<Rightarrow> error + (string \<times> (string \<times> string) list)"
  w_expiresIn :: "string \<Rightarrow> error + int"
  w_presignGet :: "object_key \<Rightarrow> error + string"

subsection \<open>Answers\<close>

definition WriteJSON :: "nat \<Rightarrow> body \<Rightarrow> response" where
  "WriteJSON status b = \<lparr>rs_Status = status, rs_ETag = None, rs_Format = None, rs_Body = b\<rparr>"

definition WriteError :: "code \<Rightarrow> response" where
  "WriteError c = (case error_payload c of (status, p) \<Rightarrow> WriteJSON status (ErrorBody p))"

definition WriteFieldError :: "string \<Rightarrow> response" where
  "WriteFieldError field = (case field_payload field of (status, p) \<Rightarrow> WriteJSON status (ErrorBody p))"

definition WriteErrorFor :: "error \<Rightarrow> response" where
  "WriteErrorFor e = WriteError (CodeFor (\<lambda>_. None) (Some e))"

definition tagFor :: "int \<Rightarrow> string" where
  "tagFor version =
     (if version < 1 then []
      else case FormatETag EmitterVersion version of None \<Rightarrow> [] | Some tag \<Rightarrow> tag)"

definition setTag :: "int \<Rightarrow> response \<Rightarrow> response" where
  "setTag version r = (if tagFor version = [] then r else r\<lparr>rs_ETag := Some (tagFor version)\<rparr>)"

definition emittableFormats :: string where
  "emittableFormats = Join '', '' (map FormatInt Formats)"

definition requestedFormat :: "string \<Rightarrow> int option" where
  "requestedFormat asked =
     (if asked = [] then Some FormatVersion
      else case ParseInt64 asked of
             None \<Rightarrow> None
           | Some version \<Rightarrow> if version \<in> set Formats then Some version else None)"

definition unsupportedFormat :: response where
  "unsupportedFormat = (WriteError CodeUnsupportedFormat)\<lparr>rs_Format := Some emittableFormats\<rparr>"

definition writeLogbookFailure :: "error \<Rightarrow> response" where
  "writeLogbookFailure err =
     (case err of
        InvalidField field \<Rightarrow> WriteFieldError field
      | ErrNoTraveller \<Rightarrow> WriteError CodeUnauthenticated
      | ErrNoTrip \<Rightarrow> WriteError CodeNotFound
      | ErrNoPlace \<Rightarrow> WriteError CodeNotFound
      | ErrNoPhoto \<Rightarrow> WriteError CodeNotFound
      | ErrNoWalk \<Rightarrow> WriteError CodeNotFound
      | ErrUnsupportedFormat \<Rightarrow> unsupportedFormat
      | _ \<Rightarrow> if DependencyIsDown err then WriteError CodeTimeout else WriteError CodeInternal)"

definition writeMediaFailure :: "error \<Rightarrow> response" where
  "writeMediaFailure err =
     (case err of
        InvalidField field \<Rightarrow> WriteFieldError field
      | ErrNoTraveller \<Rightarrow> WriteError CodeUnauthenticated
      | ErrNoMediaObject \<Rightarrow> WriteError CodeNotFound
      | ErrUploadIncomplete \<Rightarrow> WriteError CodeUploadIncomplete
      | _ \<Rightarrow> if DependencyIsDown err then WriteError CodeTimeout else WriteError CodeInternal)"

text \<open>The early returns every handler starts with, and what follows a store call.\<close>

type_synonym handler = "txs \<Rightarrow> response \<times> txs"

definition stop :: "response \<Rightarrow> handler" where
  "stop r s = (r, s)"

definition travellerOf :: "'b request \<Rightarrow> (id \<Rightarrow> handler) \<Rightarrow> handler" where
  "travellerOf rq k = (case rq_Traveller rq of None \<Rightarrow> stop (WriteError CodeInternal) | Some t \<Rightarrow> k t)"

definition with_format :: "'b request \<Rightarrow> (int \<Rightarrow> handler) \<Rightarrow> handler" where
  "with_format rq k = (case requestedFormat (rq_Format rq) of None \<Rightarrow> stop unsupportedFormat | Some f \<Rightarrow> k f)"

definition with_body :: "'b request \<Rightarrow> ('b \<Rightarrow> handler) \<Rightarrow> handler" where
  "with_body rq k = (case rq_Body rq of Inl e \<Rightarrow> stop (WriteErrorFor e) | Inr b \<Rightarrow> k b)"

definition reconcileID :: "'b request \<Rightarrow> id option \<Rightarrow> (id \<Rightarrow> handler) \<Rightarrow> handler" where
  "reconcileID rq bodyID k =
     (let i = (case bodyID of None \<Rightarrow> rq_ID rq | Some i \<Rightarrow> i)
      in if i \<noteq> rq_ID rq then stop (WriteFieldError ''id'') else k i)"

definition validated :: "(error \<Rightarrow> response) \<Rightarrow> error + unit \<Rightarrow> handler \<Rightarrow> handler" where
  "validated fail v k = (case v of Inl e \<Rightarrow> stop (fail e) | Inr _ \<Rightarrow> k)"

definition stored :: "(error \<Rightarrow> response) \<Rightarrow> 'a tx \<Rightarrow> ('a \<Rightarrow> response) \<Rightarrow> handler" where
  "stored fail m ok s = (case m s of (Inl e, s') \<Rightarrow> (fail e, s') | (Inr x, s') \<Rightarrow> (ok x, s'))"

definition emitted :: "int \<Rightarrow> document \<Rightarrow> response" where
  "emitted format doc =
     (case Emit format doc of Inl e \<Rightarrow> writeLogbookFailure e | Inr env \<Rightarrow> WriteJSON 200 (EnvelopeBody env))"

subsection \<open>The logbook\<close>

definition readLogbook :: "unit request \<Rightarrow> handler" where
  "readLogbook rq =
     travellerOf rq (\<lambda>t. with_format rq (\<lambda>format.
       stored writeLogbookFailure
         (LogbookRead t (\<lambda>version. \<not> ETagMatches (rq_IfNoneMatch rq) (tagFor version)))
         (\<lambda>snap. setTag (snap_Version snap)
            (case snap_Document snap of
               None \<Rightarrow> WriteJSON 304 NoBody
             | Some doc \<Rightarrow> emitted format doc))))"

definition putTrip_handler :: "trip_write request \<Rightarrow> handler" where
  "putTrip_handler rq =
     travellerOf rq (\<lambda>t. with_body rq (\<lambda>b. reconcileID rq (tw_ID b) (\<lambda>i.
     let w = b\<lparr>tw_ID := Some i\<rparr> in
       validated writeLogbookFailure (ValidateTrip w)
         (stored writeLogbookFailure (PutTrip t w)
           (\<lambda>(trp, version). setTag version (WriteJSON 200 (TripBody (EmitTrip trp))))))))"

definition snapshot_answer :: "int \<Rightarrow> snapshot \<Rightarrow> response" where
  "snapshot_answer format snap =
     (case snap_Document snap of
        None \<Rightarrow> writeLogbookFailure ErrNoTraveller
      | Some doc \<Rightarrow>
          (case Emit format doc of
             Inl e \<Rightarrow> writeLogbookFailure e
           | Inr env \<Rightarrow> setTag (snap_Version snap) (WriteJSON 200 (EnvelopeBody env))))"

definition deleteTrip_handler :: "unit request \<Rightarrow> handler" where
  "deleteTrip_handler rq =
     travellerOf rq (\<lambda>t. with_format rq (\<lambda>format.
       stored writeLogbookFailure (DeleteTrip t (rq_ID rq)) (snapshot_answer format)))"

definition patchMe :: "string option request \<Rightarrow> handler" where
  "patchMe rq =
     travellerOf rq (\<lambda>t. with_body rq (\<lambda>b.
       case b of
         None \<Rightarrow> stop (WriteFieldError ''name'')
       | Some name \<Rightarrow>
           stored writeLogbookFailure (SetTravellerName t name)
             (\<lambda>(named, version). setTag version (WriteJSON 200 (NameBody named)))))"

subsection \<open>Cities, places, walks\<close>

definition document_answer :: "int \<Rightarrow> body \<Rightarrow> document option \<Rightarrow> int \<Rightarrow> response" where
  "document_answer format one doc version =
     setTag version (case doc of None \<Rightarrow> WriteJSON 200 one | Some d \<Rightarrow> emitted format d)"

definition putCity_handler :: "city_write request \<Rightarrow> handler" where
  "putCity_handler rq =
     travellerOf rq (\<lambda>t. with_format rq (\<lambda>format. with_body rq (\<lambda>b. reconcileID rq (cw_ID b) (\<lambda>i.
     let w = b\<lparr>cw_ID := Some i\<rparr> in
       validated writeLogbookFailure (ValidateCity w)
         (stored writeLogbookFailure (PutCity t w)
           (\<lambda>((c, doc), version). document_answer format (CityBody c) doc version))))))"

definition putPlace_handler :: "place_write request \<Rightarrow> handler" where
  "putPlace_handler rq =
     travellerOf rq (\<lambda>t. with_body rq (\<lambda>b. reconcileID rq (pw_ID b) (\<lambda>i.
     let w = b\<lparr>pw_ID := Some i\<rparr> in
       validated writeLogbookFailure (ValidatePlace w)
         (stored writeLogbookFailure (PutPlace t w)
           (\<lambda>(p, version). setTag version (WriteJSON 200 (PlaceBody (EmitPlace p))))))))"

definition removePlace_handler :: "unit request \<Rightarrow> handler" where
  "removePlace_handler rq =
     travellerOf rq (\<lambda>t. with_format rq (\<lambda>format.
       case ParsePhotoDisposition (rq_Photos rq) of
         Inl e \<Rightarrow> stop (writeLogbookFailure e)
       | Inr disposition \<Rightarrow>
           stored writeLogbookFailure (RemovePlace t (rq_ID rq) disposition) (snapshot_answer format)))"

definition putWalk_handler :: "walk_write request \<Rightarrow> handler" where
  "putWalk_handler rq =
     travellerOf rq (\<lambda>t. with_body rq (\<lambda>b. reconcileID rq (ww_ID b) (\<lambda>i.
     let w = b\<lparr>ww_ID := Some i\<rparr> in
       validated writeLogbookFailure (ValidateWalk w)
         (stored writeLogbookFailure (PutWalk t w)
           (\<lambda>(k, version). setTag version (WriteJSON 200 (WalkBody (EmitWalk k))))))))"

subsection \<open>Photographs\<close>

definition putPhoto_handler :: "photo_write request \<Rightarrow> handler" where
  "putPhoto_handler rq =
     travellerOf rq (\<lambda>t. with_body rq (\<lambda>b. reconcileID rq (fw_ID b) (\<lambda>i.
     let w = b\<lparr>fw_ID := Some i\<rparr> in
       validated writeLogbookFailure (ValidatePhoto w)
         (stored writeLogbookFailure (PutPhoto t w)
           (\<lambda>(p, version). setTag version (WriteJSON 200 (PhotoBody p)))))))"

definition deletePhoto_handler :: "unit request \<Rightarrow> handler" where
  "deletePhoto_handler rq =
     travellerOf rq (\<lambda>t.
       stored writeLogbookFailure (DeletePhoto t (rq_ID rq))
         (\<lambda>version. setTag version (WriteJSON 204 NoBody)))"

definition snoozePhotos_handler :: "snooze_write request \<Rightarrow> handler" where
  "snoozePhotos_handler rq =
     travellerOf rq (\<lambda>t. with_body rq (\<lambda>w.
       validated writeLogbookFailure (ValidateSnooze w)
         (stored writeLogbookFailure (SnoozePhotos t w)
           (\<lambda>(ps, version). setTag version (WriteJSON 200 (SnoozeBody ps))))))"

definition refilePhoto_handler :: "refile_write request \<Rightarrow> handler" where
  "refilePhoto_handler rq =
     travellerOf rq (\<lambda>t. with_format rq (\<lambda>format. with_body rq (\<lambda>w.
       validated writeLogbookFailure (ValidateRefile w)
         (stored writeLogbookFailure (RefilePhoto t (rq_ID rq) w)
           (\<lambda>((p, doc), version). document_answer format (PhotoBody p) doc version)))))"

subsection \<open>Sharing\<close>

definition writeTrip :: "nat \<Rightarrow> trip \<Rightarrow> int \<Rightarrow> response" where
  "writeTrip status trp version = setTag version (WriteJSON status (TripBody (EmitTrip trp)))"

definition setShareOptions_handler :: "share_write request \<Rightarrow> handler" where
  "setShareOptions_handler rq =
     travellerOf rq (\<lambda>t. with_body rq (\<lambda>w.
       stored writeLogbookFailure (SetShareOptions t (rq_ID rq) w)
         (\<lambda>(trp, version). writeTrip 200 trp version)))"

definition newShareLink_handler :: "world \<Rightarrow> string option request \<Rightarrow> handler" where
  "newShareLink_handler w rq =
     travellerOf rq (\<lambda>t. with_body rq (\<lambda>token.
       validated writeLogbookFailure (ValidateShareMint token)
         (stored writeLogbookFailure (NewShareLink (w_sha w) (w_now w) t (rq_ID rq) (the token))
           (\<lambda>(trp, version). writeTrip 201 trp version))))"

definition stopSharing_handler :: "world \<Rightarrow> unit request \<Rightarrow> handler" where
  "stopSharing_handler w rq =
     travellerOf rq (\<lambda>t.
       stored writeLogbookFailure (StopSharing (w_now w) t (rq_ID rq))
         (\<lambda>(trp, version). writeTrip 200 trp version))"

subsection \<open>Media\<close>

definition begin_answer :: "world \<Rightarrow> id \<Rightarrow> media_object \<Rightarrow> response" where
  "begin_answer w t row =
     (let a = \<lparr>bb_ID = media_ID row, bb_AlreadyExists = Committed row, bb_UploadURL = [],
               bb_ExpiresAt = None, bb_UploadHeaders = []\<rparr>
      in if Committed row then WriteJSON 201 (BeginBody a)
         else case w_presignPut w \<lparr>key_Traveller = t, key_Object = media_ID row\<rparr>
                     \<lparr>up_SHA256 = media_ID row, up_ByteSize = media_ByteSize row,
                      up_ContentType = media_ContentType row\<rparr> of
                Inl e \<Rightarrow> writeMediaFailure e
              | Inr (url, headers) \<Rightarrow>
                  (case w_expiresIn w url of
                     Inl e \<Rightarrow> writeMediaFailure e
                   | Inr lifetime \<Rightarrow> WriteJSON 201 (BeginBody (a\<lparr>bb_UploadURL := url,
                        bb_UploadHeaders := headers, bb_ExpiresAt := Some (w_clock w + lifetime)\<rparr>))))"

definition beginMedia_handler :: "world \<Rightarrow> media_begin request \<Rightarrow> handler" where
  "beginMedia_handler w rq =
     travellerOf rq (\<lambda>t. with_body rq (\<lambda>b.
       validated writeMediaFailure (ValidateMediaBegin b (w_maxBytes w))
         (stored writeMediaFailure (BeginMedia (w_now w) t b) (begin_answer w t))))"

definition commitMedia_handler :: "world \<Rightarrow> unit request \<Rightarrow> handler" where
  "commitMedia_handler w rq =
     travellerOf rq (\<lambda>t.
       validated writeMediaFailure (ValidateMediaID (rq_ID rq))
         (stored writeMediaFailure (CommitMedia (w_stat w) (w_now w) t (rq_ID rq))
           (\<lambda>row. WriteJSON 200 (MediaBody
              \<lparr>mo_ID = media_ID row, mo_ByteSize = media_ByteSize row,
               mo_ContentType = media_ContentType row, mo_AlreadyExists = Committed row,
               mo_UploadedAt = media_UploadedAt row\<rparr>))))"

text \<open>The map \<open>committed\<close>: a later row of the same id would win.\<close>

definition mint_one :: "world \<Rightarrow> id \<Rightarrow> media_object list \<Rightarrow> digest \<Rightarrow> error + string" where
  "mint_one w t rows i =
     (case map_of (rev (map (\<lambda>r. (media_ID r, Committed r)) rows)) i of
        None \<Rightarrow> Inl ErrNoMediaObject
      | Some False \<Rightarrow> Inl ErrUploadIncomplete
      | Some True \<Rightarrow> w_presignGet w \<lparr>key_Traveller = t, key_Object = i\<rparr>)"

definition mintMedia_handler :: "world \<Rightarrow> digest list option request \<Rightarrow> handler" where
  "mintMedia_handler w rq =
     travellerOf rq (\<lambda>t. with_body rq (\<lambda>ids.
       validated writeMediaFailure (ValidateMediaMint ids)
         (stored writeMediaFailure (MediaObjects t (the ids))
           (\<lambda>rows. case map_until (mint_one w t rows) (the ids) of
                     Inl e \<Rightarrow> writeMediaFailure e
                   | Inr urls \<Rightarrow> WriteJSON 200 (MintBody urls)))))"

subsection \<open>What a handler does to the state\<close>

text \<open>
  A handler that serves a request of \<open>t\<close> (\<open>None\<close>: of nobody): the database is as it was, or a write
  of \<open>t\<close> was committed and the status is a success or one of the two a lost acknowledgement gives.
\<close>

definition wrote_for :: "id option \<Rightarrow> database \<Rightarrow> database \<Rightarrow> bool" where
  "wrote_for t d d' = (case t of None \<Rightarrow> False | Some u \<Rightarrow> advances u d d')"

definition api_op :: "id option \<Rightarrow> handler \<Rightarrow> bool" where
  "api_op t h \<longleftrightarrow> (\<forall>s resp s'. h s = (resp, s') \<longrightarrow>
     tx_db s' = tx_db s \<or>
     wrote_for t (tx_db s) (tx_db s') \<and> (rs_Status resp < 400 \<or> rs_Status resp \<in> {500, 503}))"

lemma status_simps [simp]:
  "rs_Status (WriteJSON n b) = n" "rs_Status (setTag v r) = rs_Status r"
  "rs_Status (WriteError CodeInternal) = 500" "rs_Status (WriteError CodeTimeout) = 503"
  "rs_Status (WriteError CodeNotFound) = 404" "rs_Status (WriteError CodeUnauthenticated) = 401"
  "rs_Status (WriteError CodeUploadIncomplete) = 409"
  "rs_Status (WriteFieldError f) = 422" "rs_Status unsupportedFormat = 406"
  by (simp_all add: WriteJSON_def setTag_def WriteError_def WriteFieldError_def unsupportedFormat_def
      error_payload_def field_payload_def StatusFor_def known_def statusByCode_def code_defs)

lemma failure_of_db: "rs_Status (writeLogbookFailure (ErrDB e)) \<in> {500, 503}"
  by (simp add: writeLogbookFailure_def)

lemma op_stop: "api_op t (stop r)"
  by (simp add: api_op_def stop_def)

lemma op_traveller: "(\<And>t. rq_Traveller rq = Some t \<Longrightarrow> api_op (Some t) (k t)) \<Longrightarrow> api_op (rq_Traveller rq) (travellerOf rq k)"
  by (cases "rq_Traveller rq") (simp_all add: travellerOf_def op_stop)

lemma op_format: "(\<And>f. f \<in> set Formats \<Longrightarrow> api_op t (k f)) \<Longrightarrow> api_op t (with_format rq k)"
  by (auto simp: with_format_def requestedFormat_def Formats_def op_stop split: option.splits if_splits)

lemma op_body: "(\<And>b. api_op t (k b)) \<Longrightarrow> api_op t (with_body rq k)"
  by (simp add: with_body_def op_stop split: sum.splits)

lemma op_reconcile: "(\<And>i. api_op t (k i)) \<Longrightarrow> api_op t (reconcileID rq b k)"
  by (simp add: reconcileID_def op_stop Let_def)

lemma op_validated: "api_op t h \<Longrightarrow> api_op t (validated fail v h)"
  by (simp add: validated_def op_stop split: sum.splits)

lemma op_stored:
  assumes "write_op t m" "\<And>x. rs_Status (ok x) < 400"
  shows "api_op (Some t) (stored writeLogbookFailure m ok)"
  unfolding api_op_def
proof (intro allI impI)
  fix s resp s'
  assume run: "stored writeLogbookFailure m ok s = (resp, s')"
  obtain r s1 where m: "m s = (r, s1)" by (cases "m s")
  have s': "s' = s1" "resp = (case r of Inl e \<Rightarrow> writeLogbookFailure e | Inr x \<Rightarrow> ok x)"
    using run m by (auto simp: stored_def split: sum.splits)
  have "tx_db s1 = tx_db s \<or> advances t (tx_db s) (tx_db s1) \<and> (\<forall>e. r = Inl e \<longrightarrow> (\<exists>de. e = ErrDB de))"
    using assms(1) m by (simp add: write_op_def)
  then show "tx_db s' = tx_db s \<or> wrote_for (Some t) (tx_db s) (tx_db s') \<and>
      (rs_Status resp < 400 \<or> rs_Status resp \<in> {500, 503})"
    using s' assms(2) failure_of_db by (cases r) (auto simp: wrote_for_def)
qed

lemma Emit_ok: "f \<in> set Formats \<Longrightarrow> \<exists>env. Emit f doc = Inr env"
  by (simp add: Emit_def Formats_def)

lemma status_emitted: "f \<in> set Formats \<Longrightarrow> rs_Status (emitted f doc) = 200"
  using Emit_ok [of f doc] by (auto simp: emitted_def)

lemma status_document_answer: "f \<in> set Formats \<Longrightarrow> rs_Status (document_answer f b doc v) = 200"
  by (simp add: document_answer_def status_emitted split: option.splits)

lemma status_writeTrip [simp]: "rs_Status (writeTrip n trp v) = n"
  by (simp add: writeTrip_def)

lemmas op_intros = op_traveller op_format op_body op_reconcile op_validated op_stored op_stop

text \<open>A delete answers a whole log in every case that reaches the encoder.\<close>

lemma DeleteTrip_document:
  "DeleteTrip t i s = (Inr snap, s') \<Longrightarrow> \<exists>doc. snap_Document snap = Some doc"
  unfolding DeleteTrip_def on_miss_def
  by (auto simp: whole_log_def split: prod.splits sum.splits if_splits dest!: LogbookRead_Inr)

lemma RemovePlace_document:
  "RemovePlace t p x s = (Inr snap, s') \<Longrightarrow> \<exists>doc. snap_Document snap = Some doc"
  unfolding RemovePlace_def t_bind_Inr on_miss_def
  by (auto simp: whole_log_def split: prod.splits sum.splits if_splits dest!: LogbookRead_Inr)

lemma op_snapshot:
  assumes "write_op t m" "f \<in> set Formats"
    "\<And>s snap s'. m s = (Inr snap, s') \<Longrightarrow> \<exists>doc. snap_Document snap = Some doc"
  shows "api_op (Some t) (stored writeLogbookFailure m (snapshot_answer f))"
proof -
  let ?ok = "\<lambda>snap. if snap_Document snap = None then WriteJSON 200 NoBody else snapshot_answer f snap"
  have "stored writeLogbookFailure m (snapshot_answer f) = stored writeLogbookFailure m ?ok"
    using assms(3) by (fastforce simp: stored_def fun_eq_iff split: prod.splits sum.splits)
  moreover have "rs_Status (?ok snap) < 400" for snap
  proof (cases "snap_Document snap")
    case (Some doc)
    obtain env where "Emit f doc = Inr env" using Emit_ok [OF assms(2)] by blast
    with Some show ?thesis by (simp add: snapshot_answer_def)
  qed simp
  ultimately show ?thesis using op_stored [OF assms(1), of ?ok] by simp
qed

lemma deletes_op:
  "api_op (rq_Traveller r) (deleteTrip_handler r)" "api_op (rq_Traveller r) (removePlace_handler r)"
  unfolding deleteTrip_handler_def removePlace_handler_def
  by (auto intro!: op_traveller op_format op_snapshot op_stop DeleteTrip_write RemovePlace_write
      intro: DeleteTrip_document RemovePlace_document split: sum.splits)

lemma puts_op:
  "api_op (rq_Traveller r1) (putTrip_handler r1)" "api_op (rq_Traveller r4) (putCity_handler r4)"
  "api_op (rq_Traveller r5) (putPlace_handler r5)" "api_op (rq_Traveller r7) (putWalk_handler r7)"
  "api_op (rq_Traveller r8) (putPhoto_handler r8)"
  unfolding putTrip_handler_def putCity_handler_def putPlace_handler_def putWalk_handler_def
    putPhoto_handler_def Let_def
  by (auto intro!: op_intros PutTrip_write PutCity_write PutPlace_write PutWalk_write PutPhoto_write
      simp: status_document_answer split: prod.splits)

lemma small_writes_op:
  "api_op (rq_Traveller r3) (patchMe r3)"
  "api_op (rq_Traveller r9) (deletePhoto_handler r9)" "api_op (rq_Traveller r10) (snoozePhotos_handler r10)"
  "api_op (rq_Traveller r11) (refilePhoto_handler r11)"
  "api_op (rq_Traveller r12) (setShareOptions_handler r12)"
  "api_op (rq_Traveller r13) (newShareLink_handler w r13)"
  "api_op (rq_Traveller r14) (stopSharing_handler w r14)"
  unfolding patchMe_def deletePhoto_handler_def snoozePhotos_handler_def refilePhoto_handler_def
    setShareOptions_handler_def newShareLink_handler_def stopSharing_handler_def
  by (auto intro!: op_intros SetTravellerName_write DeletePhoto_write SnoozePhotos_write RefilePhoto_write
      SetShareOptions_write NewShareLink_write StopSharing_write
      simp: status_document_answer split: prod.splits option.splits)

lemmas writes_op = deletes_op puts_op small_writes_op

end
