(* ===== verification/System.thy ===== *)
theory System
  imports Handlers
begin

section \<open>The API as one state machine\<close>

text \<open>
  A \<open>call\<close> is one request to one of the routes of \<^verbatim>\<open>internal/httpapi/routes.go\<close> that work on the log,
  the media objects or a share (the routes of the credentials are in the authentication
  theories). \<open>serve\<close> dispatches it. A \<open>step\<close> serves any call, from anybody, under any schedule of
  driver faults and any behaviour of the world outside. The traveller's advisory lock and the
  read snapshot make the effects of concurrent requests those of some sequence of steps.
\<close>

datatype call =
    ReadLogbook "unit request"
  | PutTripCall "trip_write request" | DeleteTripCall "unit request" | PatchMe "string option request"
  | PutCityCall "city_write request" | PutPlaceCall "place_write request" | RemovePlaceCall "unit request"
  | PutWalkCall "walk_write request"
  | PutPhotoCall "photo_write request" | DeletePhotoCall "unit request"
  | SnoozeCall "snooze_write request" | RefileCall "refile_write request"
  | SetShareCall "share_write request" | NewShareCall "string option request" | StopShareCall "unit request"
  | BeginMediaCall "media_begin request" | CommitMediaCall "unit request" | MintCall "digest list option request"
  | PublicCall string

datatype answer = Answered response | Shown public_answer

definition answered :: "handler \<Rightarrow> txs \<Rightarrow> answer \<times> txs" where
  "answered h s = (case h s of (r, s') \<Rightarrow> (Answered r, s'))"

fun serve :: "world \<Rightarrow> call \<Rightarrow> txs \<Rightarrow> answer \<times> txs" where
  "serve w (ReadLogbook rq) = answered (readLogbook rq)"
| "serve w (PutTripCall rq) = answered (putTrip_handler rq)"
| "serve w (DeleteTripCall rq) = answered (deleteTrip_handler rq)"
| "serve w (PatchMe rq) = answered (patchMe rq)"
| "serve w (PutCityCall rq) = answered (putCity_handler rq)"
| "serve w (PutPlaceCall rq) = answered (putPlace_handler rq)"
| "serve w (RemovePlaceCall rq) = answered (removePlace_handler rq)"
| "serve w (PutWalkCall rq) = answered (putWalk_handler rq)"
| "serve w (PutPhotoCall rq) = answered (putPhoto_handler rq)"
| "serve w (DeletePhotoCall rq) = answered (deletePhoto_handler rq)"
| "serve w (SnoozeCall rq) = answered (snoozePhotos_handler rq)"
| "serve w (RefileCall rq) = answered (refilePhoto_handler rq)"
| "serve w (SetShareCall rq) = answered (setShareOptions_handler rq)"
| "serve w (NewShareCall rq) = answered (newShareLink_handler w rq)"
| "serve w (StopShareCall rq) = answered (stopSharing_handler w rq)"
| "serve w (BeginMediaCall rq) = answered (beginMedia_handler w rq)"
| "serve w (CommitMediaCall rq) = answered (commitMedia_handler w rq)"
| "serve w (MintCall rq) = answered (mintMedia_handler w rq)"
| "serve w (PublicCall token) = (\<lambda>s. case publicShare (w_sha w)
     (\<lambda>t x. w_presignGet w \<lparr>key_Traveller = t, key_Object = x\<rparr>) token s of (a, s') \<Rightarrow> (Shown a, s'))"

text \<open>Whose request it is: the traveller the bearer middleware put on the context.\<close>

fun caller :: "call \<Rightarrow> id option" where
  "caller (ReadLogbook rq) = rq_Traveller rq"
| "caller (PutTripCall rq) = rq_Traveller rq"
| "caller (DeleteTripCall rq) = rq_Traveller rq"
| "caller (PatchMe rq) = rq_Traveller rq"
| "caller (PutCityCall rq) = rq_Traveller rq"
| "caller (PutPlaceCall rq) = rq_Traveller rq"
| "caller (RemovePlaceCall rq) = rq_Traveller rq"
| "caller (PutWalkCall rq) = rq_Traveller rq"
| "caller (PutPhotoCall rq) = rq_Traveller rq"
| "caller (DeletePhotoCall rq) = rq_Traveller rq"
| "caller (SnoozeCall rq) = rq_Traveller rq"
| "caller (RefileCall rq) = rq_Traveller rq"
| "caller (SetShareCall rq) = rq_Traveller rq"
| "caller (NewShareCall rq) = rq_Traveller rq"
| "caller (StopShareCall rq) = rq_Traveller rq"
| "caller (BeginMediaCall rq) = rq_Traveller rq"
| "caller (CommitMediaCall rq) = rq_Traveller rq"
| "caller (MintCall rq) = rq_Traveller rq"
| "caller (PublicCall token) = None"

inductive step :: "id option \<Rightarrow> database \<Rightarrow> database \<Rightarrow> bool" where
  served: "serve w c s = (a, s') \<Longrightarrow> step (caller c) (tx_db s) (tx_db s')"

inductive_cases stepE: "step t d d'"

inductive steps :: "id option list \<Rightarrow> database \<Rightarrow> database \<Rightarrow> bool" where
  rest: "steps [] d d"
| onward: "step t d d' \<Longrightarrow> steps ts d' d'' \<Longrightarrow> steps (t # ts) d d''"

inductive_simps steps_simps [simp]: "steps [] d d'" "steps (t # ts) d d'"

lemma served_steps: "steps [caller c] (tx_db s) (tx_db (snd (serve w c s)))"
  using served [OF surjective_pairing [of "serve w c s"]] by simp

subsection \<open>One call\<close>

lemma stored_db: "tx_db (snd (stored fail m ok s)) = tx_db (snd (m s))"
  by (simp add: stored_def split: prod.splits sum.splits)

lemma readLogbook_db: "tx_db (snd (readLogbook rq s)) = tx_db s"
  by (simp add: readLogbook_def travellerOf_def with_format_def stop_def stored_db LogbookRead_db
      split: option.splits)

lemma mintMedia_db: "tx_db (snd (mintMedia_handler w rq s)) = tx_db s"
  by (simp add: mintMedia_handler_def travellerOf_def with_body_def validated_def stop_def stored_db
      MediaObjects_db split: option.splits sum.splits)

lemma publicShare_db: "tx_db (snd (publicShare sha presign token s)) = tx_db s"
proof -
  obtain f s1 where nf: "next_fault s = (f, s1)" by (cases "next_fault s")
  then have "tx_db s1 = tx_db s" by (rule next_fault_db)
  moreover have "tx_db s2 = tx_db s1" if "PublicLog t i s1 = (r, s2)" for t i r s2
    using PublicLog_db [of t i s1] that by simp
  ultimately show ?thesis
    using nf by (auto simp: publicShare_by_link split: option.splits prod.splits sum.splits)
qed

lemma begin_handler_media:
  "rq_Traveller rq = Some t \<Longrightarrow> media_only t (tx_db s) (tx_db (snd (beginMedia_handler w rq s)))"
  using BeginMedia_write [of t] media_only.R_refl [of t]
  by (auto simp: beginMedia_handler_def travellerOf_def with_body_def validated_def stop_def stored_db
      media_write_iff tx_rel_def split: sum.splits)

lemma commit_handler_media:
  "rq_Traveller rq = Some t \<Longrightarrow> media_only t (tx_db s) (tx_db (snd (commitMedia_handler w rq s)))"
  using CommitMedia_write [of t] media_only.R_refl [of t]
  by (auto simp: commitMedia_handler_def travellerOf_def validated_def stop_def stored_db
      media_write_iff tx_rel_def split: sum.splits)

lemma anonymous_media:
  "rq_Traveller rq = None \<Longrightarrow> snd (beginMedia_handler w rq s) = s"
  "rq_Traveller rq' = None \<Longrightarrow> snd (commitMedia_handler w rq' s) = s"
  by (simp_all add: beginMedia_handler_def commitMedia_handler_def travellerOf_def stop_def)

text \<open>The three things a call can do to the database.\<close>

definition effect :: "id option \<Rightarrow> database \<Rightarrow> database \<Rightarrow> bool" where
  "effect t d d' \<longleftrightarrow> d' = d \<or> (\<exists>u. t = Some u \<and> (advances u d d' \<or> media_only u d d'))"

definition media_call :: "call \<Rightarrow> bool" where
  "media_call c = (case c of BeginMediaCall _ \<Rightarrow> True | CommitMediaCall _ \<Rightarrow> True | _ \<Rightarrow> False)"

definition read_call :: "call \<Rightarrow> bool" where
  "read_call c = (case c of ReadLogbook _ \<Rightarrow> True | MintCall _ \<Rightarrow> True | PublicCall _ \<Rightarrow> True | _ \<Rightarrow> False)"

lemma answered_run: "answered h s = (a, s') \<longleftrightarrow> (\<exists>r. h s = (r, s') \<and> a = Answered r)"
  by (auto simp: answered_def split: prod.splits)

lemma api_op_run:
  assumes "api_op t h" "answered h s = (a, s')"
  shows "tx_db s' = tx_db s \<or> wrote_for t (tx_db s) (tx_db s') \<and>
     (\<exists>r. a = Answered r \<and> (rs_Status r < 400 \<or> rs_Status r \<in> {500, 503}))"
proof -
  obtain r where "h s = (r, s')" "a = Answered r" using assms(2) by (auto simp: answered_run)
  with assms(1) show ?thesis unfolding api_op_def by blast
qed

lemma serve_read:
  assumes "serve w c s = (a, s')" "read_call c"
  shows "tx_db s' = tx_db s"
proof (cases c)
  case (ReadLogbook rq)
  with assms(1) readLogbook_db [of rq s] show ?thesis by (auto simp: answered_run)
next
  case (MintCall rq)
  with assms(1) mintMedia_db [of w rq s] show ?thesis by (auto simp: answered_run)
next
  case (PublicCall token)
  let ?run = "publicShare (w_sha w) (\<lambda>t x. w_presignGet w \<lparr>key_Traveller = t, key_Object = x\<rparr>) token s"
  have "s' = snd ?run" using PublicCall assms(1) by (auto split: prod.splits)
  then show ?thesis by (simp add: publicShare_db)
qed (use assms(2) in \<open>simp_all add: read_call_def\<close>)

lemma serve_log:
  assumes "serve w c s = (a, s')" "\<not> media_call c"
  shows "tx_db s' = tx_db s \<or> wrote_for (caller c) (tx_db s) (tx_db s') \<and>
     (\<exists>r. a = Answered r \<and> (rs_Status r < 400 \<or> rs_Status r \<in> {500, 503}))"
proof (cases "read_call c")
  case True
  with assms(1) show ?thesis by (simp add: serve_read)
next
  case False
  with assms writes_op [THEN api_op_run] show ?thesis
    by (cases c) (simp_all add: media_call_def read_call_def)
qed

lemma serve_effect:
  assumes "serve w c s = (a, s')"
  shows "effect (caller c) (tx_db s) (tx_db s')"
proof (cases "media_call c")
  case False
  from serve_log [OF assms this] show ?thesis
    by (auto simp: effect_def wrote_for_def split: option.splits)
next
  case True
  then consider rq where "c = BeginMediaCall rq" | rq where "c = CommitMediaCall rq"
    by (auto simp: media_call_def split: call.splits)
  then show ?thesis
  proof cases
    case (1 rq)
    with assms begin_handler_media [of rq _ s w] anonymous_media(1) [of rq w s] show ?thesis
      by (cases "rq_Traveller rq") (auto simp: answered_run effect_def)
  next
    case (2 rq)
    with assms commit_handler_media [of rq _ s w] anonymous_media(2) [of rq w s] show ?thesis
      by (cases "rq_Traveller rq") (auto simp: answered_run effect_def)
  qed
qed

lemma step_effect: "step t d d' \<Longrightarrow> effect t d d'"
  by (erule stepE) (auto dest: serve_effect)

subsection \<open>Runs\<close>

text \<open>
  What a run leaves of one traveller's log: the version never goes back, and as long as it stands
  still the log does.
\<close>

definition coherent :: "id \<Rightarrow> database \<Rightarrow> database \<Rightarrow> bool" where
  "coherent t d d' \<longleftrightarrow> (\<forall>v. version_of d t = Some v \<longrightarrow>
     (\<exists>v'. version_of d' t = Some v' \<and> v \<le> v' \<and> (v' = v \<longrightarrow> log_view t d' = log_view t d)))"

lemma media_only_log:
  assumes "media_only u d d'"
  shows "log_view t d' = log_view t d" "version_of d' t = version_of d t"
proof -
  have eq: "d'\<lparr>media_objects := []\<rparr> = d\<lparr>media_objects := []\<rparr>" using assms by (simp add: media_only_def)
  have "log_view t x = (view t (x\<lparr>media_objects := []\<rparr>))\<lparr>media_objects := []\<rparr>" for x
    by (simp add: log_view_def view_def)
  with eq show "log_view t d' = log_view t d" by simp
  then show "version_of d' t = version_of d t" by (metis version_of_log_view)
qed

lemma effect_coherent: "effect u d d' \<Longrightarrow> coherent t d d'"
proof -
  assume "effect u d d'"
  then consider "d' = d" | w where "advances w d d'" | w where "media_only w d d'"
    by (auto simp: effect_def)
  then show ?thesis
  proof cases
    case (2 w)
    show ?thesis
    proof (cases "w = t")
      case True
      with 2 show ?thesis by (auto simp: coherent_def advances_def)
    next
      case False
      with 2 have "view t d' = view t d" by (simp add: advances_def frame_def)
      then have "log_view t d' = log_view t d" by (rule log_view_of_view)
      moreover from this have "version_of d' t = version_of d t" by (metis version_of_log_view)
      ultimately show ?thesis by (simp add: coherent_def)
    qed
  next
    case (3 w)
    then show ?thesis by (simp add: coherent_def media_only_log)
  qed (simp add: coherent_def)
qed

lemma steps_coherent: "steps ts d d' \<Longrightarrow> coherent t d d'"
proof (induction rule: steps.induct)
  case (onward u d d' ts d'')
  have "coherent t d d'" using onward.hyps(1) by (intro effect_coherent step_effect)
  with onward.IH show ?case by (fastforce simp: coherent_def)
qed (simp add: coherent_def)

text \<open>One call of \<open>t\<close> raises the version of \<open>t\<close> by at most one, and no other call raises it.\<close>

lemma effect_bound:
  assumes "effect u d d'" "version_of d t = Some v"
  shows "\<exists>v'. version_of d' t = Some v' \<and> v' \<le> v + (if u = Some t then 1 else 0)"
proof -
  consider "d' = d" | w where "u = Some w" "advances w d d'" | w where "media_only w d d'"
    using assms(1) by (auto simp: effect_def)
  then show ?thesis
  proof cases
    case (2 w)
    show ?thesis
    proof (cases "w = t")
      case True
      with 2 assms(2) show ?thesis by (auto simp: advances_def)
    next
      case False
      with 2 have "view t d' = view t d" by (simp add: advances_def frame_def)
      then have "version_of d' t = version_of d t" by (metis version_of_view)
      with assms(2) show ?thesis by simp
    qed
  qed (use assms(2) in \<open>simp_all add: media_only_log\<close>)
qed

lemma steps_bound:
  assumes "steps ts d d'" "version_of d t = Some v"
  shows "\<exists>v'. version_of d' t = Some v' \<and> v' \<le> v + int (count_list ts (Some t))"
  using assms
proof (induction arbitrary: v rule: steps.induct)
  case (onward u d d' ts d'')
  from effect_bound [OF step_effect [OF onward.hyps(1)] onward.prems] obtain v1 where
    v1: "version_of d' t = Some v1" "v1 \<le> v + (if u = Some t then 1 else 0)" by blast
  from onward.IH [OF v1(1)] v1(2) show ?case by auto
qed simp

lemma effect_schema: "effect u d d' \<Longrightarrow> schema_ok d \<Longrightarrow> schema_ok d'"
  by (auto simp: effect_def advances_def media_only_def sound_def keeps_schema_def)

lemma steps_schema: "steps ts d d' \<Longrightarrow> schema_ok d \<Longrightarrow> schema_ok d'"
  by (induction rule: steps.induct) (auto intro: effect_schema step_effect)

lemma effect_other: "effect u d d' \<Longrightarrow> u \<noteq> Some t \<Longrightarrow> view t d' = view t d"
  unfolding effect_def advances_def media_only_def sound_def frame_def by (elim disjE exE conjE) simp_all

lemma steps_others: "steps ts d d' \<Longrightarrow> Some t \<notin> set ts \<Longrightarrow> view t d' = view t d"
  by (induction rule: steps.induct) (auto dest!: step_effect effect_other)

subsection \<open>The conditional read\<close>

lemma LogbookRead_cases:
  assumes "LogbookRead t assemble s = (Inr snap, s')"
  shows "version_of (tx_db s) t = Some (snap_Version snap)"
    "snap_Document snap = (if assemble (snap_Version snap) then Some (document_of t (tx_db s)) else None)"
proof -
  from assms obtain s1 v s2 where s1: "tx_db s1 = tx_db s" "Some v = version_of (tx_db s) t"
    and run: "(if \<not> assemble v then t_return \<lparr>snap_Version = v, snap_Document = None\<rparr>
       else t_bind (readDocument t) (\<lambda>doc. t_return \<lparr>snap_Version = v, snap_Document = Some doc\<rparr>)) s1 = (Inr snap, s2)"
    by (auto simp: LogbookRead_def WithReadSnapshot_def t_bind_Inr split: prod.splits option.splits
        dest!: t_query_Inr)
  show "version_of (tx_db s) t = Some (snap_Version snap)"
    "snap_Document snap = (if assemble (snap_Version snap) then Some (document_of t (tx_db s)) else None)"
    using run s1 by (auto simp: t_bind_Inr split: if_splits dest!: readDocument_Inr)
qed

lemma failure_not_2xx: "rs_Status (writeLogbookFailure e) \<ge> 400"
  by (simp add: writeLogbookFailure_def split: error.splits)

lemma requestedFormat_in: "requestedFormat a = Some f \<Longrightarrow> f \<in> set Formats"
  by (auto simp: requestedFormat_def Formats_def split: if_splits option.splits)

lemma readLogbook_run:
  assumes "readLogbook rq s = (resp, s')" "rs_Status resp < 400"
  obtains t v f where "rq_Traveller rq = Some t" "version_of (tx_db s) t = Some v"
    "requestedFormat (rq_Format rq) = Some f"
    "rs_ETag resp = (if tagFor v = [] then None else Some (tagFor v))"
    "if ETagMatches (rq_IfNoneMatch rq) (tagFor v) then rs_Status resp = 304
     else rs_Status resp = 200 \<and> (\<exists>env. Emit f (document_of t (tx_db s)) = Inr env \<and> rs_Body resp = EnvelopeBody env)"
proof -
  have err: "rs_Status (WriteError CodeInternal) = 500" "rs_Status unsupportedFormat = 406" by simp_all
  obtain t where t: "rq_Traveller rq = Some t"
    using assms err by (cases "rq_Traveller rq") (auto simp: readLogbook_def travellerOf_def stop_def)
  obtain f where f: "requestedFormat (rq_Format rq) = Some f"
    using assms err t by (cases "requestedFormat (rq_Format rq)")
      (auto simp: readLogbook_def travellerOf_def with_format_def stop_def)
  let ?assemble = "\<lambda>version. \<not> ETagMatches (rq_IfNoneMatch rq) (tagFor version)"
  obtain snap where read: "LogbookRead t ?assemble s = (Inr snap, s')"
    and resp: "resp = setTag (snap_Version snap) (case snap_Document snap of
               None \<Rightarrow> WriteJSON 304 NoBody | Some doc \<Rightarrow> emitted f doc)"
  proof -
    obtain r s1 where run: "LogbookRead t ?assemble s = (r, s1)" by (cases "LogbookRead t ?assemble s")
    with assms(1) t f have resp: "s' = s1" "resp = (case r of Inl e \<Rightarrow> writeLogbookFailure e
        | Inr snap \<Rightarrow> setTag (snap_Version snap) (case snap_Document snap of
               None \<Rightarrow> WriteJSON 304 NoBody | Some doc \<Rightarrow> emitted f doc))"
      by (auto simp: readLogbook_def travellerOf_def with_format_def stored_def split: sum.splits)
    with assms(2) obtain snap where "r = Inr snap"
      by (cases r) (simp_all add: leD [OF failure_not_2xx])
    with that run resp show thesis by simp
  qed
  note snap = LogbookRead_cases [OF read]
  have tag: "rs_ETag (setTag v r) = (if tagFor v = [] then rs_ETag r else Some (tagFor v))"
    "rs_Body (setTag v r) = rs_Body r" for v r
    by (simp_all add: setTag_def)
  obtain env where env: "Emit f (document_of t (tx_db s)) = Inr env"
    using Emit_ok [OF requestedFormat_in [OF f]] by blast
  have em: "emitted f (document_of t (tx_db s)) = WriteJSON 200 (EnvelopeBody env)"
    using env by (simp add: emitted_def)
  show thesis
  proof (rule that [OF t snap(1) f])
    show "rs_ETag resp = (if tagFor (snap_Version snap) = [] then None else Some (tagFor (snap_Version snap)))"
      using resp snap(2) em by (auto simp: tag WriteJSON_def split: option.splits)
    show "if ETagMatches (rq_IfNoneMatch rq) (tagFor (snap_Version snap)) then rs_Status resp = 304
     else rs_Status resp = 200 \<and> (\<exists>env. Emit f (document_of t (tx_db s)) = Inr env \<and> rs_Body resp = EnvelopeBody env)"
      using resp snap(2) em env by (auto simp: tag WriteJSON_def)
  qed
qed

lemma tagFor_text: "1 \<le> v \<Longrightarrow> tagFor v = ''W/'' @ opaque_of EmitterVersion v"
  by (simp add: tagFor_def FormatETag_def EmitterVersion_def opaque_of_def)

lemma own_tag_matches:
  assumes "1 \<le> v" "1 \<le> v'"
  shows "ETagMatches (tagFor v) (tagFor v') \<longleftrightarrow> v = v'"
  using ETagMatches_tags [of "[(EmitterVersion, v)]" EmitterVersion v'] assms
  by (auto simp: tagFor_text tags_def EmitterVersion_def)

lemma tagFor_empty: "tagFor v = [] \<longleftrightarrow> v < 1"
  by (auto simp: tagFor_def FormatETag_def EmitterVersion_def)

lemma no_tag_no_match: "v < 1 \<Longrightarrow> \<not> ETagMatches h (tagFor v)"
  by (simp add: tagFor_def ETagMatches_def opaqueTag_def TrimPrefix_def)

lemma no_header_no_match: "\<not> ETagMatches [] tag"
  by (simp add: ETagMatches_def Let_def TrimSpace_id split: option.split)

lemma has_traveller_version: "version_of d t = Some v \<Longrightarrow> has_traveller d t"
  by (auto simp: version_of_def has_traveller_def find_traveller_def dest!: find_SomeD)

text \<open>Where no driver fault strikes, the read of an existing traveller is answered.\<close>

lemma readLogbook_calm:
  assumes "rq_Traveller rq = Some t" "version_of d t = Some v" "requestedFormat (rq_Format rq) = Some f"
  shows "\<exists>resp. readLogbook rq (calm d) = (resp, calm d) \<and>
     rs_Status resp = (if ETagMatches (rq_IfNoneMatch rq) (tagFor v) then 304 else 200) \<and>
     (1 \<le> v \<longrightarrow> rs_ETag resp = Some (tagFor v))"
proof -
  let ?assemble = "\<lambda>version. \<not> ETagMatches (rq_IfNoneMatch rq) (tagFor version)"
  have "has_traveller d t" using assms(2) by (rule has_traveller_version)
  then have "LogbookRead t ?assemble (calm d) = (Inr \<lparr>snap_Version = v, snap_Document =
      if ?assemble v then Some (document_of t d) else None\<rparr>, calm d)"
    using assms(2)
    by (simp add: LogbookRead_def WithReadSnapshot_def t_bind_def t_return_def readDocument_calm)
  moreover obtain env where "Emit f (document_of t d) = Inr env"
    using Emit_ok [OF requestedFormat_in [OF assms(3)]] by blast
  ultimately show ?thesis
    using assms by (simp add: readLogbook_def travellerOf_def with_format_def stored_def setTag_def
        emitted_def WriteJSON_def tagFor_empty)
qed

text \<open>Runs are reasoned about through \<open>serve_log\<close> and \<open>serve_effect\<close>, not by unfolding the dispatcher.\<close>

declare serve.simps [simp del]

end
