(* ===== verification/Clock.thy ===== *)
theory Clock
  imports Logbook_Types
begin

section \<open>Durations (\<^verbatim>\<open>time.Duration\<close>)\<close>

text \<open>
  A duration is a signed 64-bit count of nanoseconds, an instant an unbounded count of them. The
  difference of two instants saturates, so an interval compared with a limit is never wrapped
  around.
\<close>

abbreviation second :: int where "second \<equiv> 1000000000"

definition Sub :: "instant \<Rightarrow> instant \<Rightarrow> int" where
  "Sub a b = max (- (2 ^ 63)) (min (2 ^ 63 - 1) (a - b))"

lemma Sub_mono: "a \<le> a' \<Longrightarrow> Sub a b \<le> Sub a' b"
  by (simp add: Sub_def)

lemma Sub_self [simp]: "Sub a a = 0"
  by (simp add: Sub_def)

lemma Sub_le: "b \<le> a \<Longrightarrow> Sub a b \<le> a - b"
  by (simp add: Sub_def)

lemma Sub_nonneg: "b \<le> a \<Longrightarrow> 0 \<le> Sub a b"
  by (simp add: Sub_def)

lemma Sub_less: "\<lbrakk>- (2 ^ 63) < m; m < 2 ^ 63\<rbrakk> \<Longrightarrow> Sub a b < m \<longleftrightarrow> a - b < m"
  by (auto simp: Sub_def)

end
