(* ===== verification/Auth.thy ===== *)
theory Auth
  imports Object_Store Clock
begin

section \<open>Credentials (\<^verbatim>\<open>internal/auth\<close>)\<close>

text \<open>
  Opaque session tokens, mailed sign-in codes, single-use invites, and the service that exchanges
  them. The service runs against a \<open>store\<close>: a record of the operations of the Go interface
  \<open>auth.Store\<close>, over a state \<open>'s\<close> of the implementation's own. Two implementations follow, the
  in-memory twin (\<open>Auth_Memory\<close>) and PostgreSQL (\<open>Auth_Store\<close>).

  Parameters stand for what is outside the package: \<open>sha\<close> is SHA-256 over bytes, \<open>now\<close> and \<open>later\<close> are
  the readings of the service's clock in the order of the calls, the randomness is the bytes (or
  the number) drawn, \<^const>\<open>None\<close> when the generator failed.
\<close>

type_synonym hash = string

subsection \<open>Data\<close>

datatype auth_error =
    InvalidFieldError string
  | ErrEmailTaken | ErrUnknownTraveller | ErrBadCredentials | ErrNoSession
  | ErrInviteSpent | ErrNoCode
  | ErrMalformedToken | ErrMalformedCode | ErrNotUUID | ErrRandom
  | ErrStorage db_error

record traveller =
  trv_ID :: id
  trv_Email :: string
  trv_Name :: "string option"

record session =
  ses_ID :: id
  ses_TravellerID :: id
  ses_TokenHash :: hash
  ses_LastUsedAt :: instant
  ses_ExpiresAt :: instant
  ses_RevokedAt :: "instant option"

record issued =
  iss_Token :: string
  iss_ExpiresAt :: instant
  iss_Traveller :: traveller

record sign_in_code =
  sic_Hash :: hash
  sic_IssuedAt :: instant
  sic_ExpiresAt :: instant
  sic_Attempts :: int

subsection \<open>Actions on a store\<close>

type_synonym ('s, 'a) act = "'s \<Rightarrow> (auth_error + 'a) \<times> 's"

definition a_return :: "'a \<Rightarrow> ('s, 'a) act" where
  "a_return x s = (Inr x, s)"

definition a_lift :: "auth_error + 'a \<Rightarrow> ('s, 'a) act" where
  "a_lift r s = (r, s)"

definition a_bind :: "('s, 'a) act \<Rightarrow> ('a \<Rightarrow> ('s, 'b) act) \<Rightarrow> ('s, 'b) act" where
  "a_bind m f s = (case m s of (Inl e, s') \<Rightarrow> (Inl e, s') | (Inr x, s') \<Rightarrow> f x s')"

text \<open>\<open>switch err { case errors.Is(err, sentinel): \<dots> }\<close> around a call.\<close>

definition a_try :: "('s, 'a) act \<Rightarrow> (auth_error + 'a \<Rightarrow> ('s, 'b) act) \<Rightarrow> ('s, 'b) act" where
  "a_try m f s = (case m s of (r, s') \<Rightarrow> f r s')"

record 's store =
  st_CreateTraveller :: "string \<Rightarrow> ('s, traveller) act"
  st_TravellerByEmail :: "string \<Rightarrow> ('s, traveller) act"
  st_CreateSession :: "id \<Rightarrow> hash \<Rightarrow> instant \<Rightarrow> ('s, id) act"
  st_SessionByTokenHash :: "hash \<Rightarrow> ('s, session \<times> traveller) act"
  st_TouchSession :: "id \<Rightarrow> id \<Rightarrow> instant \<Rightarrow> instant \<Rightarrow> ('s, unit) act"
  st_RevokeSession :: "id \<Rightarrow> hash \<Rightarrow> ('s, bool) act"
  st_RevokeEverySession :: "id \<Rightarrow> ('s, int) act"
  st_SpendInvite :: "hash \<Rightarrow> ('s, unit) act"
  st_RecordInviteUser :: "hash \<Rightarrow> id \<Rightarrow> ('s, unit) act"
  st_IssueCode :: "id \<Rightarrow> hash \<Rightarrow> instant \<Rightarrow> ('s, unit) act"
  st_CodeFor :: "id \<Rightarrow> ('s, sign_in_code) act"
  st_CountAttempt :: "id \<Rightarrow> ('s, int) act"
  st_BurnCode :: "id \<Rightarrow> ('s, unit) act"

subsection \<open>Times\<close>

definition DefaultSessionTTL :: int where "DefaultSessionTTL = 30 * 24 * 3600 * second"
definition TouchInterval :: int where "TouchInterval = 5 * 60 * second"
definition CodeTTL :: int where "CodeTTL = 10 * 60 * second"
definition CodeRequestInterval :: int where "CodeRequestInterval = 60 * second"

definition ttl :: "int \<Rightarrow> int" where
  "ttl sessionTTL = (if sessionTTL \<le> 0 then DefaultSessionTTL else sessionTTL)"

subsection \<open>Session tokens\<close>

definition TokenBytes :: nat where "TokenBytes = 32"

text \<open>\<open>base64.RawURLEncoding\<close>. The decoder skips line breaks and, not being strict, ignores the
  unused low bits of the last character.\<close>

definition url_char :: "nat \<Rightarrow> char" where
  "url_char n = char_of (if n < 26 then 65 + n else if n < 52 then 71 + n else if n < 62 then n - 4
     else if n = 62 then 45 else 95 :: nat)"

definition url_val :: "char \<Rightarrow> nat option" where
  "url_val c = (let n = of_char c in
     if 65 \<le> n \<and> n \<le> 90 then Some (n - 65) else if 97 \<le> n \<and> n \<le> 122 then Some (n - 71)
     else if 48 \<le> n \<and> n \<le> 57 then Some (n + 4) else if n = 45 then Some 62
     else if n = 95 then Some 63 else None)"

fun RawURLEncode :: "nat list \<Rightarrow> string" where
  "RawURLEncode [] = []"
| "RawURLEncode [a] = [url_char (a div 4), url_char (a mod 4 * 16)]"
| "RawURLEncode [a, b] =
     [url_char (a div 4), url_char (a mod 4 * 16 + b div 16), url_char (b mod 16 * 4)]"
| "RawURLEncode (a # b # c # s) =
     [url_char (a div 4), url_char (a mod 4 * 16 + b div 16), url_char (b mod 16 * 4 + c div 64),
      url_char (c mod 64)] @ RawURLEncode s"

fun decode_quanta :: "nat list \<Rightarrow> nat list option" where
  "decode_quanta [] = Some []"
| "decode_quanta [w] = None"
| "decode_quanta [w, x] = Some [w * 4 + x div 16]"
| "decode_quanta [w, x, y] = Some [w * 4 + x div 16, x mod 16 * 16 + y div 4]"
| "decode_quanta (w # x # y # z # s) =
     map_option (\<lambda>r. [w * 4 + x div 16, x mod 16 * 16 + y div 4, y mod 4 * 64 + z] @ r) (decode_quanta s)"

definition RawURLDecode :: "string \<Rightarrow> nat list option" where
  "RawURLDecode s =
     (let vs = map url_val (filter (\<lambda>c. c \<noteq> CHR 0x0A \<and> c \<noteq> CHR 0x0D) s)
      in if None \<in> set vs then None else decode_quanta (map the vs))"

definition NewToken :: "(nat list \<Rightarrow> hash) \<Rightarrow> nat list option \<Rightarrow> auth_error + string \<times> hash" where
  "NewToken sha drawn =
     (case drawn of None \<Rightarrow> Inl ErrRandom | Some raw \<Rightarrow> Inr (RawURLEncode raw, sha raw))"

definition HashToken :: "(nat list \<Rightarrow> hash) \<Rightarrow> string \<Rightarrow> auth_error + hash" where
  "HashToken sha plaintext =
     (case RawURLDecode plaintext of
        None \<Rightarrow> Inl ErrMalformedToken
      | Some raw \<Rightarrow> if length raw \<noteq> TokenBytes then Inl ErrMalformedToken else Inr (sha raw))"

definition SameHash :: "hash \<Rightarrow> hash \<Rightarrow> bool" where
  "SameHash a b = (if length a \<noteq> 32 \<or> length b \<noteq> 32 then False else a = b)"

subsection \<open>Sign-in codes\<close>

definition CodeDigits :: nat where "CodeDigits = 6"
definition codeSpace :: nat where "codeSpace = 1000000"
definition MaxCodeAttempts :: int where "MaxCodeAttempts = 5"

text \<open>\<open>%0*d\<close>.\<close>

definition zero_padded :: "nat \<Rightarrow> nat \<Rightarrow> string" where
  "zero_padded width n = replicate (width - length (FormatNat n)) (CHR ''0'') @ FormatNat n"

definition HashCode :: "(nat list \<Rightarrow> hash) \<Rightarrow> id \<Rightarrow> string \<Rightarrow> auth_error + hash" where
  "HashCode sha travellerID plaintext =
     (if \<not> travellerRe travellerID then Inl ErrNotUUID
      else if length plaintext \<noteq> CodeDigits then Inl ErrMalformedCode
      else if list_ex (\<lambda>c. \<not> is_digit c) plaintext then Inl ErrMalformedCode
      else Inr (sha (bytes (travellerID @ '':'' @ plaintext))))"

definition NewCode :: "(nat list \<Rightarrow> hash) \<Rightarrow> nat option \<Rightarrow> id \<Rightarrow> auth_error + string \<times> hash" where
  "NewCode sha drawn travellerID =
     (case drawn of
        None \<Rightarrow> Inl ErrRandom
      | Some n \<Rightarrow> let plaintext = zero_padded CodeDigits n
                  in and_then (HashCode sha travellerID plaintext) (\<lambda>hash. Inr (plaintext, hash)))"

subsection \<open>Invites\<close>

text \<open>\<open>upper\<close> is \<open>strings.ToUpper\<close>, whose table of letters is Unicode's.\<close>

definition HashInvite :: "(nat list \<Rightarrow> hash) \<Rightarrow> (string \<Rightarrow> string) \<Rightarrow> string \<Rightarrow> hash" where
  "HashInvite sha upper plaintext =
     sha (bytes (upper (filter (\<lambda>c. c \<noteq> CHR ''-'') (TrimSpace plaintext))))"

subsection \<open>Addresses\<close>

definition MaxEmailBytes :: nat where "MaxEmailBytes = 254"

text \<open>\<^verbatim>\<open>^[^\s@]+@[^\s@]+\.[^\s@]+$\<close>; \<^verbatim>\<open>\s\<close> is tab, line feed, form feed, carriage return and space.\<close>

definition email_char :: "char \<Rightarrow> bool" where
  "email_char c \<longleftrightarrow> (of_char c :: nat) \<notin> {9, 10, 12, 13, 32, 64}"

definition emailPattern :: "string \<Rightarrow> bool" where
  "emailPattern s =
     (case Cut (CHR ''@'') s of
        None \<Rightarrow> False
      | Some (l, r) \<Rightarrow> l \<noteq> [] \<and> list_all email_char l \<and> list_all email_char r \<and>
          CHR ''.'' \<in> set (butlast (tl r)))"

definition checkEmail :: "string \<Rightarrow> auth_error + unit" where
  "checkEmail email =
     (if email = [] then Inl (InvalidFieldError ''email'')
      else if length email > MaxEmailBytes then Inl (InvalidFieldError ''email'')
      else if \<not> emailPattern email then Inl (InvalidFieldError ''email'')
      else Inr ())"

subsection \<open>The service\<close>

definition Register :: "'s store \<Rightarrow> string \<Rightarrow> ('s, traveller) act" where
  "Register st email = a_bind (a_lift (checkEmail email)) (\<lambda>_. st_CreateTraveller st email)"

definition RegisterWithInvite ::
  "(nat list \<Rightarrow> hash) \<Rightarrow> (string \<Rightarrow> string) \<Rightarrow> 's store \<Rightarrow> string \<Rightarrow> string \<Rightarrow> ('s, traveller) act" where
  "RegisterWithInvite sha upper st email invite =
     a_bind (a_lift (checkEmail email)) (\<lambda>_.
     if TrimSpace invite = [] then a_lift (Inl (InvalidFieldError ''invite''))
     else let hash = HashInvite sha upper invite in
       a_bind (st_SpendInvite st hash) (\<lambda>_.
       a_bind (Register st email) (\<lambda>tr.
       a_bind (st_RecordInviteUser st hash (trv_ID tr)) (\<lambda>_. a_return tr))))"

definition Authenticate ::
  "(nat list \<Rightarrow> hash) \<Rightarrow> 's store \<Rightarrow> int \<Rightarrow> instant \<Rightarrow> string \<Rightarrow> ('s, traveller) act" where
  "Authenticate sha st sessionTTL now token =
     (case HashToken sha token of
        Inl _ \<Rightarrow> a_lift (Inl ErrNoSession)
      | Inr hash \<Rightarrow>
          a_bind (st_SessionByTokenHash st hash) (\<lambda>(session, tr).
          if \<not> SameHash hash (ses_TokenHash session) then a_lift (Inl ErrNoSession)
          else if ses_RevokedAt session \<noteq> None \<or> \<not> now < ses_ExpiresAt session
          then a_lift (Inl ErrNoSession)
          else if Sub now (ses_LastUsedAt session) \<ge> TouchInterval
          then a_bind (st_TouchSession st (trv_ID tr) (ses_ID session) now (now + ttl sessionTTL))
                 (\<lambda>_. a_return tr)
          else a_return tr))"

definition RevokeSession :: "(nat list \<Rightarrow> hash) \<Rightarrow> 's store \<Rightarrow> id \<Rightarrow> string \<Rightarrow> ('s, bool) act" where
  "RevokeSession sha st travellerID token =
     (case HashToken sha token of
        Inl _ \<Rightarrow> a_return False
      | Inr hash \<Rightarrow> st_RevokeSession st travellerID hash)"

definition RevokeEverySession :: "'s store \<Rightarrow> id \<Rightarrow> ('s, int) act" where
  "RevokeEverySession st travellerID = st_RevokeEverySession st travellerID"

text \<open>The answer of \<open>RequestCode\<close>: the code to mail and to whom, or nothing to mail.\<close>

definition RequestCode ::
  "(nat list \<Rightarrow> hash) \<Rightarrow> 's store \<Rightarrow> instant \<Rightarrow> instant \<Rightarrow> nat option \<Rightarrow> string \<Rightarrow>
   ('s, (string \<times> traveller) option) act" where
  "RequestCode sha st now later drawn email =
     a_bind (a_lift (checkEmail email)) (\<lambda>_.
     a_try (st_TravellerByEmail st email) (\<lambda>found. case found of
       Inl e \<Rightarrow> if e = ErrUnknownTraveller then a_return None else a_lift (Inl e)
     | Inr tr \<Rightarrow>
         a_try (st_CodeFor st (trv_ID tr)) (\<lambda>held.
         let issue = a_bind (a_lift (NewCode sha drawn (trv_ID tr))) (\<lambda>(code, hash).
                     a_bind (st_IssueCode st (trv_ID tr) hash (later + CodeTTL)) (\<lambda>_.
                     a_return (Some (code, tr))))
         in case held of
              Inl e \<Rightarrow> if e = ErrNoCode then issue else a_lift (Inl e)
            | Inr c \<Rightarrow> if Sub now (sic_IssuedAt c) < CodeRequestInterval then a_return None else issue)))"

text \<open>
  \<open>SignInWithCode\<close> in its two halves: reading the code that is held, and presenting one against
  it. Nothing of the store is locked between them.
\<close>

definition held_code :: "'s store \<Rightarrow> string \<Rightarrow> ('s, traveller \<times> sign_in_code) act" where
  "held_code st email =
     a_bind (a_lift (checkEmail email)) (\<lambda>_.
     a_try (st_TravellerByEmail st email) (\<lambda>found. case found of
       Inl e \<Rightarrow> a_lift (Inl (if e = ErrUnknownTraveller then ErrBadCredentials else e))
     | Inr tr \<Rightarrow>
         a_try (st_CodeFor st (trv_ID tr)) (\<lambda>held. case held of
           Inl e \<Rightarrow> a_lift (Inl (if e = ErrNoCode then ErrBadCredentials else e))
         | Inr c \<Rightarrow> a_return (tr, c))))"

definition present_code ::
  "(nat list \<Rightarrow> hash) \<Rightarrow> 's store \<Rightarrow> int \<Rightarrow> instant \<Rightarrow> instant \<Rightarrow> nat list option \<Rightarrow> string \<Rightarrow>
   traveller \<times> sign_in_code \<Rightarrow> ('s, issued) act" where
  "present_code sha st sessionTTL now later drawn code = (\<lambda>(tr, held).
     if \<not> now < sic_ExpiresAt held \<or> sic_Attempts held \<ge> MaxCodeAttempts
     then a_bind (st_BurnCode st (trv_ID tr)) (\<lambda>_. a_lift (Inl ErrBadCredentials))
     else if (case HashCode sha (trv_ID tr) code of Inl _ \<Rightarrow> True | Inr presented \<Rightarrow> \<not> SameHash presented (sic_Hash held))
     then a_try (st_CountAttempt st (trv_ID tr)) (\<lambda>counted.
          case counted of
            Inl e \<Rightarrow> a_lift (Inl (if e = ErrNoCode then ErrBadCredentials else e))
          | Inr n \<Rightarrow> if n \<ge> MaxCodeAttempts
                     then a_bind (st_BurnCode st (trv_ID tr)) (\<lambda>_. a_lift (Inl ErrBadCredentials))
                     else a_lift (Inl ErrBadCredentials))
     else
       a_bind (st_BurnCode st (trv_ID tr)) (\<lambda>_.
       a_bind (a_lift (NewToken sha drawn)) (\<lambda>(plaintext, hash).
       let expires = later + ttl sessionTTL in
       a_bind (st_CreateSession st (trv_ID tr) hash expires) (\<lambda>_.
       a_return \<lparr>iss_Token = plaintext, iss_ExpiresAt = expires, iss_Traveller = tr\<rparr>))))"

definition SignInWithCode ::
  "(nat list \<Rightarrow> hash) \<Rightarrow> 's store \<Rightarrow> int \<Rightarrow> instant \<Rightarrow> instant \<Rightarrow> nat list option \<Rightarrow> string \<Rightarrow> string \<Rightarrow>
   ('s, issued) act" where
  "SignInWithCode sha st sessionTTL now later drawn email code =
     a_bind (held_code st email) (present_code sha st sessionTTL now later drawn code)"

subsection \<open>Tokens and codes read back\<close>

text \<open>The six-bit groups of a byte string.\<close>

fun sextets :: "nat list \<Rightarrow> nat list" where
  "sextets [] = []"
| "sextets [a] = [a div 4, a mod 4 * 16]"
| "sextets [a, b] = [a div 4, a mod 4 * 16 + b div 16, b mod 16 * 4]"
| "sextets (a # b # c # s) =
     [a div 4, a mod 4 * 16 + b div 16, b mod 16 * 4 + c div 64, c mod 64] @ sextets s"

lemma RawURLEncode_sextets: "RawURLEncode raw = map url_char (sextets raw)"
  by (induction raw rule: sextets.induct) simp_all

lemma sextets_small: "\<forall>b \<in> set raw. b < 256 \<Longrightarrow> \<forall>n \<in> set (sextets raw). n < 64"
  by (induction raw rule: sextets.induct) auto

lemma decode_sextets: "\<forall>b \<in> set raw. b < 256 \<Longrightarrow> decode_quanta (sextets raw) = Some raw"
proof (induction raw rule: sextets.induct)
  case (3 a b)
  then have "b div 16 < 16" by auto
  then show ?case by (simp add: div_add1_eq mod_add_eq)
next
  case (4 a b c s)
  then have "b div 16 < 16" "c div 64 < 4" by auto
  with 4 show ?case by simp
qed simp_all

lemma url_char_val:
  assumes "n < 64"
  shows "url_val (url_char n) = Some n" "url_char n \<noteq> CHR 0x0A" "url_char n \<noteq> CHR 0x0D"
proof -
  let ?k = "if n < 26 then 65 + n else if n < 52 then 71 + n else if n < 62 then n - 4
    else if n = 62 then 45 else 95 :: nat"
  have k: "(of_char (url_char n) :: nat) = ?k" using assms by (simp add: url_char_def)
  then show "url_val (url_char n) = Some n" using assms by (auto simp: url_val_def Let_def)
  have "?k \<noteq> 10" "?k \<noteq> 13" using assms by auto
  moreover have "(of_char (CHR 0x0A) :: nat) = 10" "(of_char (CHR 0x0D) :: nat) = 13" by simp_all
  ultimately show "url_char n \<noteq> CHR 0x0A" "url_char n \<noteq> CHR 0x0D" using k by metis+
qed

lemma RawURL_roundtrip:
  assumes "\<forall>b \<in> set raw. b < 256"
  shows "RawURLDecode (RawURLEncode raw) = Some raw"
proof -
  have small: "\<forall>n \<in> set (sextets raw). n < 64" using assms by (rule sextets_small)
  then have "filter (\<lambda>c. c \<noteq> CHR 0x0A \<and> c \<noteq> CHR 0x0D) (map url_char (sextets raw)) = map url_char (sextets raw)"
    by (simp add: filter_id_conv url_char_val)
  moreover have "map url_val (map url_char (sextets raw)) = map Some (sextets raw)"
    using small by (simp add: url_char_val)
  ultimately have "RawURLDecode (RawURLEncode raw) =
      (if None \<in> set (map Some (sextets raw)) then None else decode_quanta (map the (map Some (sextets raw))))"
    unfolding RawURLDecode_def Let_def RawURLEncode_sextets by metis
  then show ?thesis by (simp add: comp_def decode_sextets [OF assms] image_iff)
qed

lemma NewToken_hash:
  assumes "NewToken sha (Some raw) = Inr (plaintext, h)" "length raw = TokenBytes" "\<forall>b \<in> set raw. b < 256"
  shows "HashToken sha plaintext = Inr h"
  using assms by (auto simp: NewToken_def HashToken_def RawURL_roundtrip)

lemma FormatNat_length: "n < 10 ^ k \<Longrightarrow> 0 < k \<Longrightarrow> length (FormatNat n) \<le> k"
proof (induction n arbitrary: k rule: FormatNat.induct)
  case (1 n)
  show ?case
  proof (cases "n < 10")
    case False
    have "k \<noteq> 1" using False 1(2) by auto
    then obtain j where j: "k = Suc j" "0 < j" using 1(3) by (cases k) auto
    then have "n div 10 < 10 ^ j" using 1(2) by simp
    with 1(1) [OF False _ j(2)] j(1) False show ?thesis by (simp add: FormatNat.simps [of n])
  qed (use 1(3) in \<open>simp add: FormatNat.simps [of n]\<close>)
qed

lemma NewCode_ok:
  assumes "n < codeSpace" "travellerRe t"
  obtains plaintext h where "NewCode sha (Some n) t = Inr (plaintext, h)" "HashCode sha t plaintext = Inr h"
    "length plaintext = CodeDigits"
proof -
  have len: "length (FormatNat n) \<le> CodeDigits"
    using FormatNat_length [of n 6] assms(1) by (simp add: codeSpace_def CodeDigits_def)
  then have six: "length (zero_padded CodeDigits n) = CodeDigits" by (simp add: zero_padded_def)
  have "is_digit c" if "c \<in> set (zero_padded CodeDigits n)" for c
    using that FormatNat_bytes [of c n] by (auto simp: zero_padded_def in_range_def)
  then have "\<not> list_ex (\<lambda>c. \<not> is_digit c) (zero_padded CodeDigits n)" by (auto simp: list_ex_iff)
  with six assms(2) that show thesis by (simp add: NewCode_def HashCode_def Let_def)
qed

end
