(* ===== verification/Auth_Contract.thy ===== *)
theory Auth_Contract
  imports Auth
begin

section \<open>What the service promises of any store that keeps the contract\<close>

text \<open>
  The contract of \<open>auth.Store\<close>, in three interfaces: \<open>code_store\<close> (addresses and sign-in codes),
  \<open>invite_store\<close> and \<open>session_store\<close>. Each names a view of the store's state and says what every
  operation does to that view, failures included: an operation that answers an error has either
  done nothing or, when only the acknowledgement was lost, all of its work. The lemmas proved
  inside hold of every implementation: a code opens at most one session and only within five
  wrong guesses, an invite admits at most one traveller, a revoked session stays revoked.
\<close>

subsection \<open>Sequencing\<close>

lemma a_simps [simp]:
  "a_return x s = (Inr x, s)" "a_lift r s = (r, s)"
  by (simp_all add: a_return_def a_lift_def)

lemma a_bind_run:
  "a_bind m f s = (r, s') \<longleftrightarrow>
     (\<exists>e. m s = (Inl e, s') \<and> r = Inl e) \<or> (\<exists>x s1. m s = (Inr x, s1) \<and> f x s1 = (r, s'))"
  by (auto simp: a_bind_def split: prod.splits sum.splits)

lemma a_try_run: "a_try m f s = (r, s') \<longleftrightarrow> (\<exists>x s1. m s = (x, s1) \<and> f x s1 = (r, s'))"
  by (auto simp: a_try_def split: prod.splits)

lemmas act_simps = a_bind_run a_try_run

subsection \<open>Codes\<close>

text \<open>
  How many more definitive answers a code can give: one per wrong guess that is left, and one for
  being there at all.
\<close>

definition guesses_left :: "sign_in_code option \<Rightarrow> nat" where
  "guesses_left held =
     (case held of None \<Rightarrow> 0 | Some c \<Rightarrow> Suc (nat (MaxCodeAttempts - sic_Attempts c)))"

record attempt =
  at_ttl :: int
  at_now :: instant
  at_later :: instant
  at_drawn :: "nat list option"
  at_code :: string

text \<open>A client that tries one address again and again.\<close>

fun sign_ins ::
  "(nat list \<Rightarrow> hash) \<Rightarrow> 's store \<Rightarrow> string \<Rightarrow> attempt list \<Rightarrow> 's \<Rightarrow> (auth_error + issued) list \<times> 's" where
  "sign_ins sha st email [] s = ([], s)"
| "sign_ins sha st email (a # as) s =
     (case SignInWithCode sha st (at_ttl a) (at_now a) (at_later a) (at_drawn a) email (at_code a) s of
        (r, s1) \<Rightarrow> (case sign_ins sha st email as s1 of (rs, s2) \<Rightarrow> (r # rs, s2)))"

abbreviation bad :: "auth_error + 'a \<Rightarrow> bool" where "bad r \<equiv> r = Inl ErrBadCredentials"

locale code_store =
  fixes st :: "'s store"
    and account :: "'s \<Rightarrow> string \<Rightarrow> traveller option"
    and codes :: "'s \<Rightarrow> id \<Rightarrow> sign_in_code option"
  assumes by_email: "st_TravellerByEmail st e s = (r, s') \<Longrightarrow>
      account s' = account s \<and> codes s' = codes s \<and> \<not> bad r \<and>
      (\<forall>tr. r = Inr tr \<longrightarrow> account s e = Some tr) \<and> (r = Inl ErrUnknownTraveller \<longrightarrow> account s e = None)"
    and code_for: "st_CodeFor st t s = (r1, s') \<Longrightarrow>
      account s' = account s \<and> codes s' = codes s \<and> \<not> bad r1 \<and>
      (\<forall>c. r1 = Inr c \<longrightarrow> codes s t = Some c) \<and> (r1 = Inl ErrNoCode \<longrightarrow> codes s t = None)"
    and count_attempt: "st_CountAttempt st t s = (r2, s') \<Longrightarrow>
      account s' = account s \<and> \<not> bad r2 \<and> (r2 = Inl ErrNoCode \<longrightarrow> codes s t = None) \<and>
      (isl r2 \<and> codes s' = codes s \<or>
       (\<exists>c. codes s t = Some c \<and> codes s' = (codes s)(t \<mapsto> c\<lparr>sic_Attempts := sic_Attempts c + 1\<rparr>) \<and>
          (\<forall>n. r2 = Inr n \<longrightarrow> n = sic_Attempts c + 1)))"
    and burn_code: "st_BurnCode st t s = (r3, s') \<Longrightarrow>
      account s' = account s \<and> \<not> bad r3 \<and>
      (codes s' = (codes s)(t := None) \<or> isl r3 \<and> codes s' = codes s)"
    and issue_code: "st_IssueCode st t h x s = (r3, s') \<Longrightarrow>
      account s' = account s \<and>
      (isl r3 \<and> codes s' = codes s \<or>
       (\<exists>c. sic_Hash c = h \<and> sic_Attempts c = 0 \<and> codes s' = (codes s)(t \<mapsto> c)))"
    and create_session: "st_CreateSession st t h x s = (r4, s') \<Longrightarrow>
      account s' = account s \<and> codes s' = codes s \<and> \<not> bad r4"
begin

lemma held_code_run:
  assumes "held_code st email s = (r, s')"
  shows "account s' = account s" "codes s' = codes s"
    "r = Inr (tr, c) \<Longrightarrow> account s email = Some tr \<and> codes s (trv_ID tr) = Some c"
    "bad r \<Longrightarrow> account s email = Some tr \<Longrightarrow> codes s (trv_ID tr) = None"
proof -
  have email: "checkEmail email \<noteq> Inl ErrBadCredentials" by (simp add: checkEmail_def)
  consider e where "checkEmail email = Inl e" "r = Inl e" "s' = s"
    | f s1 where "st_TravellerByEmail st email s = (f, s1)"
        "(case f of Inl e \<Rightarrow> a_lift (Inl (if e = ErrUnknownTraveller then ErrBadCredentials else e))
          | Inr tr \<Rightarrow> a_try (st_CodeFor st (trv_ID tr)) (\<lambda>held. case held of
              Inl e \<Rightarrow> a_lift (Inl (if e = ErrNoCode then ErrBadCredentials else e))
            | Inr c \<Rightarrow> a_return (tr, c))) s1 = (r, s')"
    using assms by (auto simp: held_code_def act_simps)
  then have "account s' = account s \<and> codes s' = codes s \<and>
     (\<forall>tr c. r = Inr (tr, c) \<longrightarrow> account s email = Some tr \<and> codes s (trv_ID tr) = Some c) \<and>
     (bad r \<longrightarrow> (\<forall>tr. account s email = Some tr \<longrightarrow> codes s (trv_ID tr) = None))"
  proof cases
    case 1
    with email show ?thesis by auto
  next
    case (2 f s1)
    note law = by_email [OF 2(1)]
    show ?thesis
    proof (cases f)
      case (Inl e)
      with 2(2) law show ?thesis by auto
    next
      case (Inr tr)
      with 2(2) obtain h where h: "st_CodeFor st (trv_ID tr) s1 = (h, s')"
        "r = (case h of Inl e \<Rightarrow> Inl (if e = ErrNoCode then ErrBadCredentials else e) | Inr c \<Rightarrow> Inr (tr, c))"
        by (cases "fst (st_CodeFor st (trv_ID tr) s1)") (auto simp: a_try_run)
      with code_for [OF h(1)] law Inr show ?thesis by (cases h) auto
    qed
  qed
  then show "account s' = account s" "codes s' = codes s"
    "r = Inr (tr, c) \<Longrightarrow> account s email = Some tr \<and> codes s (trv_ID tr) = Some c"
    "bad r \<Longrightarrow> account s email = Some tr \<Longrightarrow> codes s (trv_ID tr) = None" by auto
qed

lemma present_code_run:
  assumes "present_code sha st T now later drawn code (tr, c) s = (r, s')" "codes s (trv_ID tr) = Some c"
  shows "account s' = account s \<and> (\<forall>u. u \<noteq> trv_ID tr \<longrightarrow> codes s' u = codes s u) \<and>
     guesses_left (codes s' (trv_ID tr)) \<le> guesses_left (Some c) - (if bad r then 1 else 0) \<and>
     (\<forall>i. r = Inr i \<longrightarrow> iss_Traveller i = tr \<and> codes s' = (codes s)(trv_ID tr := None) \<and>
        now < sic_ExpiresAt c \<and> sic_Attempts c < MaxCodeAttempts \<and>
        (\<exists>h. HashCode sha (trv_ID tr) code = Inr h \<and> SameHash h (sic_Hash c)))"
proof -
  let ?t = "trv_ID tr"
  let ?wrong = "case HashCode sha ?t code of Inl _ \<Rightarrow> True | Inr p \<Rightarrow> \<not> SameHash p (sic_Hash c)"
  consider (dead) "\<not> now < sic_ExpiresAt c \<or> sic_Attempts c \<ge> MaxCodeAttempts"
    | (wrong) "now < sic_ExpiresAt c" "sic_Attempts c < MaxCodeAttempts" ?wrong
    | (right) "now < sic_ExpiresAt c" "sic_Attempts c < MaxCodeAttempts" "\<not> ?wrong" by fastforce
  then show ?thesis
  proof cases
    case dead
    with assms(1) obtain r3 where "st_BurnCode st ?t s = (r3, s')" "(\<exists>e. r3 = Inl e \<and> r = Inl e) \<or> r3 = Inr () \<and> bad r"
      by (force simp: present_code_def a_bind_run)
    with burn_code [of ?t s r3 s'] assms(2) show ?thesis by (auto simp: guesses_left_def)
  next
    case wrong
    with assms(1) obtain r2 s2 where count: "st_CountAttempt st ?t s = (r2, s2)"
      and rest: "(case r2 of Inl e \<Rightarrow> a_lift (Inl (if e = ErrNoCode then ErrBadCredentials else e))
          | Inr n \<Rightarrow> if n \<ge> MaxCodeAttempts
                     then a_bind (st_BurnCode st ?t) (\<lambda>_. a_lift (Inl ErrBadCredentials))
                     else a_lift (Inl ErrBadCredentials)) s2 = (r, s')"
      by (auto simp: present_code_def a_try_run)
    note law = count_attempt [OF count]
    show ?thesis
    proof (cases r2)
      case (Inl e)
      with rest law assms(2) wrong(2) show ?thesis by (auto simp: guesses_left_def)
    next
      case (Inr n)
      with law assms(2) have n: "account s2 = account s" "n = sic_Attempts c + 1"
        "codes s2 = (codes s)(?t \<mapsto> c\<lparr>sic_Attempts := n\<rparr>)" by auto
      show ?thesis
      proof (cases "n \<ge> MaxCodeAttempts")
        case True
        with rest Inr obtain r3 where "st_BurnCode st ?t s2 = (r3, s')" "(\<exists>e. r3 = Inl e \<and> r = Inl e) \<or> r3 = Inr () \<and> bad r"
          by (force simp: a_bind_run)
        with burn_code [of ?t s2 r3 s'] n wrong(2) show ?thesis by (auto simp: guesses_left_def)
      next
        case False
        with rest Inr n wrong(2) show ?thesis by (auto simp: guesses_left_def)
      qed
    qed
  next
    case right
    with assms(1) consider e where "st_BurnCode st ?t s = (Inl e, s')" "r = Inl e"
      | s1 where "st_BurnCode st ?t s = (Inr (), s1)"
          "a_bind (a_lift (NewToken sha drawn)) (\<lambda>(plaintext, hash).
             let expires = later + ttl T in
             a_bind (st_CreateSession st ?t hash expires) (\<lambda>_.
             a_return \<lparr>iss_Token = plaintext, iss_ExpiresAt = expires, iss_Traveller = tr\<rparr>)) s1 = (r, s')"
      by (auto simp: present_code_def a_bind_run)
    then show ?thesis
    proof cases
      case 1
      with burn_code [of ?t s "Inl e" s'] assms(2) show ?thesis by (auto simp: guesses_left_def)
    next
      case 2
      from 2(2) have "s' = s1 \<and> r = Inl ErrRandom \<or> (\<exists>r4 h. st_CreateSession st ?t h (later + ttl T) s1 = (r4, s') \<and>
          (\<forall>e. r = Inl e \<longleftrightarrow> r4 = Inl e) \<and> (\<forall>i. r = Inr i \<longrightarrow> iss_Traveller i = tr))"
        by (fastforce simp: a_bind_run NewToken_def Let_def split: option.splits)
      moreover have "account s1 = account s" "codes s1 = (codes s)(?t := None)"
        using burn_code [OF 2(1)] by auto
      ultimately have "account s' = account s" "codes s' = (codes s)(?t := None)" "\<not> bad r"
        "\<forall>i. r = Inr i \<longrightarrow> iss_Traveller i = tr"
        using create_session [of ?t _ "later + ttl T" s1] by auto
      with right show ?thesis by (auto simp: guesses_left_def split: sum.splits)
    qed
  qed
qed

lemma sign_in_run:
  assumes "SignInWithCode sha st T now later drawn email code s = (r, s')" "account s email = Some tr"
  shows "account s' = account s"
    "\<forall>u. u \<noteq> trv_ID tr \<longrightarrow> codes s' u = codes s u"
    "guesses_left (codes s' (trv_ID tr)) \<le> guesses_left (codes s (trv_ID tr)) - (if bad r then 1 else 0)"
    "r = Inr i \<Longrightarrow> iss_Traveller i = tr \<and> codes s' = (codes s)(trv_ID tr := None) \<and>
       (\<exists>c h. codes s (trv_ID tr) = Some c \<and> now < sic_ExpiresAt c \<and> sic_Attempts c < MaxCodeAttempts \<and>
          HashCode sha (trv_ID tr) code = Inr h \<and> SameHash h (sic_Hash c))"
proof -
  consider e where "held_code st email s = (Inl e, s')" "r = Inl e"
    | tr' c s1 where "held_code st email s = (Inr (tr', c), s1)"
        "present_code sha st T now later drawn code (tr', c) s1 = (r, s')"
    using assms(1) by (auto simp: SignInWithCode_def a_bind_run)
  then have "account s' = account s \<and> (\<forall>u. u \<noteq> trv_ID tr \<longrightarrow> codes s' u = codes s u) \<and>
    guesses_left (codes s' (trv_ID tr)) \<le> guesses_left (codes s (trv_ID tr)) - (if bad r then 1 else 0) \<and>
    (\<forall>i. r = Inr i \<longrightarrow> iss_Traveller i = tr \<and> codes s' = (codes s)(trv_ID tr := None) \<and>
       (\<exists>c h. codes s (trv_ID tr) = Some c \<and> now < sic_ExpiresAt c \<and> sic_Attempts c < MaxCodeAttempts \<and>
          HashCode sha (trv_ID tr) code = Inr h \<and> SameHash h (sic_Hash c)))"
  proof cases
    case 1
    note h = held_code_run [OF 1(1)]
    from h(1,2) h(4) [of tr] 1(2) assms(2) show ?thesis by (auto simp: guesses_left_def)
  next
    case 2
    note h = held_code_run [OF 2(1)]
    from h(3) [of tr' c] assms(2) have tr: "tr' = tr" "codes s (trv_ID tr) = Some c" by auto
    with h(2) have "codes s1 (trv_ID tr') = Some c" by simp
    from present_code_run [OF 2(2) this] h(1,2) tr show ?thesis by auto
  qed
  then show "account s' = account s" "\<forall>u. u \<noteq> trv_ID tr \<longrightarrow> codes s' u = codes s u"
    "guesses_left (codes s' (trv_ID tr)) \<le> guesses_left (codes s (trv_ID tr)) - (if bad r then 1 else 0)"
    "r = Inr i \<Longrightarrow> iss_Traveller i = tr \<and> codes s' = (codes s)(trv_ID tr := None) \<and>
       (\<exists>c h. codes s (trv_ID tr) = Some c \<and> now < sic_ExpiresAt c \<and> sic_Attempts c < MaxCodeAttempts \<and>
          HashCode sha (trv_ID tr) code = Inr h \<and> SameHash h (sic_Hash c))" by auto
qed

lemma sign_ins_bound:
  assumes "sign_ins sha st email as s = (rs, s')" "account s email = Some tr"
    and "i < length rs" "rs ! i = Inr x"
  shows "length (filter bad (take i rs)) + 2 \<le> guesses_left (codes s (trv_ID tr)) \<and>
     (\<forall>j < length rs. j \<noteq> i \<longrightarrow> isl (rs ! j))"
  using assms
proof (induction as arbitrary: s rs s' i x)
  case (Cons a as)
  obtain r s1 where one: "SignInWithCode sha st (at_ttl a) (at_now a) (at_later a) (at_drawn a) email (at_code a) s = (r, s1)"
    by (metis prod.exhaust)
  obtain rs1 s2 where more: "sign_ins sha st email as s1 = (rs1, s2)" by (metis prod.exhaust)
  have rs: "rs = r # rs1" using Cons.prems(1) one more by simp
  note run = sign_in_run [OF one Cons.prems(2)]
  have acc: "account s1 email = Some tr" using run(1) Cons.prems(2) by simp
  have spent: "isl (rs1 ! j)" if "j < length rs1" "guesses_left (codes s1 (trv_ID tr)) < 2" for j
  proof (rule ccontr)
    assume "\<not> isl (rs1 ! j)"
    then obtain y where "rs1 ! j = Inr y" by (cases "rs1 ! j") auto
    with Cons.IH [OF more acc that(1)] that(2) show False by auto
  qed
  show ?case
  proof (cases i)
    case 0
    with Cons.prems(4) rs have "r = Inr x" by simp
    from run(4) [OF this] obtain c where c: "codes s (trv_ID tr) = Some c" "sic_Attempts c < MaxCodeAttempts"
      "codes s1 (trv_ID tr) = None" by auto
    then have "2 \<le> guesses_left (codes s (trv_ID tr))" by (simp add: guesses_left_def)
    moreover have "isl (rs ! j)" if "j < length rs" "j \<noteq> 0" for j
      using spent [of "j - 1"] that c(3) rs by (auto simp: guesses_left_def nth_Cons')
    ultimately show ?thesis using 0 by simp
  next
    case (Suc k)
    with Cons.prems rs have k: "k < length rs1" "rs1 ! k = Inr x" by auto
    from Cons.IH [OF more acc k] have
      ih: "length (filter bad (take k rs1)) + 2 \<le> guesses_left (codes s1 (trv_ID tr))"
        "\<forall>j < length rs1. j \<noteq> k \<longrightarrow> isl (rs1 ! j)" by auto
    have "isl r"
    proof (cases r)
      case (Inr y)
      from run(4) [OF this] ih(1) show ?thesis by (simp add: guesses_left_def)
    qed simp
    moreover have "length (filter bad (take (Suc k) rs)) + 2 \<le> guesses_left (codes s (trv_ID tr))"
      using ih(1) run(3) rs by (auto split: if_splits)
    ultimately show ?thesis using ih(2) rs Suc by (auto simp: nth_Cons' less_Suc_eq_0_disj)
  qed
qed simp

end

subsection \<open>Invites\<close>

text \<open>Registrations one after another, each an address and an invite as typed.\<close>

fun registrations ::
  "(nat list \<Rightarrow> hash) \<Rightarrow> (string \<Rightarrow> string) \<Rightarrow> 's store \<Rightarrow> (string \<times> string) list \<Rightarrow> 's \<Rightarrow>
   (auth_error + traveller) list \<times> 's" where
  "registrations sha upper st [] s = ([], s)"
| "registrations sha upper st ((email, invite) # cs) s =
     (case RegisterWithInvite sha upper st email invite s of
        (r, s1) \<Rightarrow> (case registrations sha upper st cs s1 of (rs, s2) \<Rightarrow> (r # rs, s2)))"

text \<open>How many of them got in on the invite with digest \<open>h\<close>.\<close>

fun admitted ::
  "(nat list \<Rightarrow> hash) \<Rightarrow> (string \<Rightarrow> string) \<Rightarrow> hash \<Rightarrow> (string \<times> string) list \<Rightarrow>
   (auth_error + traveller) list \<Rightarrow> nat" where
  "admitted sha upper h ((email, invite) # cs) (r # rs) =
     (if HashInvite sha upper invite = h \<and> \<not> isl r then 1 else 0) + admitted sha upper h cs rs"
| "admitted sha upper h _ _ = 0"

locale invite_store =
  fixes st :: "'s store"
    and invites :: "'s \<Rightarrow> hash \<Rightarrow> bool option"
  assumes spend: "st_SpendInvite st h s = (r, s') \<Longrightarrow>
      invites s h = Some False \<and> invites s' = (invites s)(h \<mapsto> True) \<or> isl r \<and> invites s' = invites s"
    and record_user: "st_RecordInviteUser st h t s = (r, s') \<Longrightarrow> invites s' = invites s"
    and create_traveller: "st_CreateTraveller st e s = (r1, s') \<Longrightarrow> invites s' = invites s"
begin

lemma register_run:
  assumes "RegisterWithInvite sha upper st email invite s = (r, s')"
  shows "invites s' = invites s \<and> isl r \<or>
     invites s (HashInvite sha upper invite) = Some False \<and>
     invites s' = (invites s)(HashInvite sha upper invite \<mapsto> True)"
proof -
  let ?h = "HashInvite sha upper invite"
  consider e where "s' = s" "r = Inl e" | e where "st_SpendInvite st ?h s = (Inl e, s')" "r = Inl e"
    | s1 where "st_SpendInvite st ?h s = (Inr (), s1)"
        "a_bind (Register st email) (\<lambda>tr.
           a_bind (st_RecordInviteUser st ?h (trv_ID tr)) (\<lambda>_. a_return tr)) s1 = (r, s')"
    using assms by (auto simp: RegisterWithInvite_def a_bind_run Let_def split: if_splits)
  then show ?thesis
  proof cases
    case 2
    with spend [OF 2(1)] show ?thesis by auto
  next
    case 3
    have "invites s' = invites s1"
      using 3(2) record_user create_traveller by (fastforce simp: Register_def a_bind_run)
    with spend [OF 3(1)] show ?thesis by auto
  qed simp
qed

lemma admitted_bound:
  "registrations sha upper st cs s = (rs, s') \<Longrightarrow>
     admitted sha upper h cs rs \<le> (if invites s h = Some False then 1 else 0)"
proof (induction cs arbitrary: s rs)
  case (Cons c cs)
  obtain email invite where c: "c = (email, invite)" by (cases c)
  obtain r s1 where one: "RegisterWithInvite sha upper st email invite s = (r, s1)" by (metis prod.exhaust)
  obtain rs1 s2 where more: "registrations sha upper st cs s1 = (rs1, s2)" by (metis prod.exhaust)
  have rs: "rs = r # rs1" "s2 = s'" using Cons.prems one more c by auto
  from Cons.IH [of s1 rs1] more rs(2) register_run [OF one] show ?case
    by (auto simp: rs(1) c split: if_splits)
qed simp

end

subsection \<open>Sessions\<close>

text \<open>A session stays the same session, and once revoked it is revoked.\<close>

definition kept :: "session \<Rightarrow> session \<Rightarrow> bool" where
  "kept x y \<longleftrightarrow> ses_ID y = ses_ID x \<and> ses_TravellerID y = ses_TravellerID x \<and>
     ses_TokenHash y = ses_TokenHash x \<and> (ses_RevokedAt x \<noteq> None \<longrightarrow> ses_RevokedAt y \<noteq> None)"

definition all_kept :: "(hash \<Rightarrow> session option) \<Rightarrow> (hash \<Rightarrow> session option) \<Rightarrow> bool" where
  "all_kept S S' \<longleftrightarrow> (\<forall>h x. S h = Some x \<longrightarrow> (\<exists>y. S' h = Some y \<and> kept x y))"

lemma kept_refl [simp]: "kept x x" by (simp add: kept_def)

lemma all_kept_refl [simp]: "all_kept S S" by (simp add: all_kept_def)

lemma all_kept_trans: "all_kept S S1 \<Longrightarrow> all_kept S1 S2 \<Longrightarrow> all_kept S S2"
  unfolding all_kept_def kept_def by metis

text \<open>Everything that can happen to the credentials: the calls of the service, and time.\<close>

datatype auth_call =
    Registers string string
  | Requests instant instant "nat option" string
  | SignsIn attempt string
  | Authenticates int instant string
  | Revokes id string
  | RevokesAll id

definition after_call ::
  "(nat list \<Rightarrow> hash) \<Rightarrow> (string \<Rightarrow> string) \<Rightarrow> 's store \<Rightarrow> auth_call \<Rightarrow> 's \<Rightarrow> 's" where
  "after_call sha upper st c s =
     (case c of
        Registers email invite \<Rightarrow> snd (RegisterWithInvite sha upper st email invite s)
      | Requests now later drawn email \<Rightarrow> snd (RequestCode sha st now later drawn email s)
      | SignsIn a email \<Rightarrow>
          snd (SignInWithCode sha st (at_ttl a) (at_now a) (at_later a) (at_drawn a) email (at_code a) s)
      | Authenticates T now token \<Rightarrow> snd (Authenticate sha st T now token s)
      | Revokes t token \<Rightarrow> snd (RevokeSession sha st t token s)
      | RevokesAll t \<Rightarrow> snd (RevokeEverySession st t s))"

inductive auth_run for sha upper and st :: "'s store" and env :: "'s \<Rightarrow> 's \<Rightarrow> bool" where
  start: "auth_run sha upper st env s s"
| called: "auth_run sha upper st env s s1 \<Longrightarrow> auth_run sha upper st env s (after_call sha upper st c s1)"
| passed: "auth_run sha upper st env s s1 \<Longrightarrow> env s1 s2 \<Longrightarrow> auth_run sha upper st env s s2"

locale session_store =
  fixes st :: "'s store"
    and sessions :: "'s \<Rightarrow> hash \<Rightarrow> session option"
    and env :: "'s \<Rightarrow> 's \<Rightarrow> bool"
  assumes by_hash: "st_SessionByTokenHash st h s = (r, s') \<Longrightarrow>
      sessions s' = sessions s \<and> (\<forall>x. r = Inr x \<longrightarrow> sessions s h = Some (fst x))"
    and create: "st_CreateSession st t h x s = (r1, s') \<Longrightarrow>
      isl r1 \<and> sessions s' = sessions s \<or>
      sessions s h = None \<and> (\<exists>y. ses_TravellerID y = t \<and> ses_TokenHash y = h \<and> ses_RevokedAt y = None \<and>
         sessions s' = (sessions s)(h \<mapsto> y))"
    and touch: "st_TouchSession st t i a x s = (r2, s') \<Longrightarrow> all_kept (sessions s) (sessions s')"
    and revoke: "st_RevokeSession st t h s = (r3, s') \<Longrightarrow> all_kept (sessions s) (sessions s') \<and>
      (\<forall>b y. r3 = Inr b \<and> sessions s' h = Some y \<and> ses_TravellerID y = t \<longrightarrow> ses_RevokedAt y \<noteq> None)"
    and revoke_all: "st_RevokeEverySession st t s = (r4, s') \<Longrightarrow> all_kept (sessions s) (sessions s') \<and>
      (\<forall>n h y. r4 = Inr n \<and> sessions s' h = Some y \<and> ses_TravellerID y = t \<longrightarrow> ses_RevokedAt y \<noteq> None)"
    and aside: "st_CreateTraveller st e s = (r5, s') \<Longrightarrow> sessions s' = sessions s"
      "st_TravellerByEmail st e s = (r5, s') \<Longrightarrow> sessions s' = sessions s"
      "st_SpendInvite st h s = (r6, s') \<Longrightarrow> sessions s' = sessions s"
      "st_RecordInviteUser st h t s = (r6, s') \<Longrightarrow> sessions s' = sessions s"
      "st_IssueCode st t h x s = (r6, s') \<Longrightarrow> sessions s' = sessions s"
      "st_CodeFor st t s = (r7, s') \<Longrightarrow> sessions s' = sessions s"
      "st_CountAttempt st t s = (r4, s') \<Longrightarrow> sessions s' = sessions s"
      "st_BurnCode st t s = (r6, s') \<Longrightarrow> sessions s' = sessions s"
      "env s s' \<Longrightarrow> sessions s' = sessions s"
begin

text \<open>What an action keeps, closed under sequencing.\<close>

definition keeps :: "('s, 'a) act \<Rightarrow> bool" where
  "keeps m \<longleftrightarrow> (\<forall>s. all_kept (sessions s) (sessions (snd (m s))))"

lemma keepsI: "(\<And>s r s'. m s = (r, s') \<Longrightarrow> all_kept (sessions s) (sessions s')) \<Longrightarrow> keeps m"
  by (auto simp: keeps_def) (metis prod.collapse)

lemma keeps_lift: "keeps (a_lift r)" "keeps (a_return x)"
  by (simp_all add: keeps_def)

lemma keeps_bind:
  assumes "keeps m" "\<And>x. keeps (f x)"
  shows "keeps (a_bind m f)"
proof (rule keepsI)
  fix s r s'
  assume run: "a_bind m f s = (r, s')"
  obtain q s1 where m: "m s = (q, s1)" by (cases "m s")
  have one: "all_kept (sessions s) (sessions s1)" using assms(1) m by (metis keeps_def snd_conv)
  show "all_kept (sessions s) (sessions s')"
  proof (cases q)
    case (Inl e)
    with run m one show ?thesis by (simp add: a_bind_def)
  next
    case (Inr x)
    with run m have "f x s1 = (r, s')" by (simp add: a_bind_def)
    then have "all_kept (sessions s1) (sessions s')" using assms(2) [of x] by (metis keeps_def snd_conv)
    with one show ?thesis by (rule all_kept_trans)
  qed
qed

lemma keeps_try:
  assumes "keeps m" "\<And>x. keeps (f x)"
  shows "keeps (a_try m f)"
proof (rule keepsI)
  fix s r s'
  assume "a_try m f s = (r, s')"
  then have "s' = snd (f (fst (m s)) (snd (m s)))" by (cases "m s") (simp add: a_try_def)
  then show "all_kept (sessions s) (sessions s')"
    using assms by (auto simp: keeps_def intro: all_kept_trans)
qed

lemma keeps_create: "keeps (st_CreateSession st t h x)"
proof (rule keepsI)
  fix s r s'
  assume "st_CreateSession st t h x s = (r, s')"
  from create [OF this] show "all_kept (sessions s) (sessions s')"
    by (auto simp: all_kept_def)
qed

lemma keeps_ops:
  "keeps (st_SessionByTokenHash st h)" "keeps (st_TouchSession st t i a x)" "keeps (st_RevokeSession st t h)"
  "keeps (st_RevokeEverySession st t)" "keeps (st_CreateTraveller st e)" "keeps (st_TravellerByEmail st e)"
  "keeps (st_SpendInvite st h)" "keeps (st_RecordInviteUser st h t)" "keeps (st_IssueCode st t h x)"
  "keeps (st_CodeFor st t)" "keeps (st_CountAttempt st t)" "keeps (st_BurnCode st t)"
  by (rule keepsI, use by_hash touch revoke revoke_all aside in \<open>fastforce\<close>)+

lemmas keeps_intros = keeps_lift keeps_bind keeps_try keeps_create keeps_ops

lemma keeps_service:
  "keeps (RegisterWithInvite sha upper st email invite)"
  "keeps (RequestCode sha st now later n email)"
  "keeps (SignInWithCode sha st T now later drawn email code)"
  "keeps (Authenticate sha st T now token)"
  "keeps (RevokeSession sha st t token)" "keeps (RevokeEverySession st t)"
  unfolding RegisterWithInvite_def Register_def RequestCode_def SignInWithCode_def held_code_def present_code_def
    Authenticate_def RevokeSession_def RevokeEverySession_def Let_def
  by (auto intro!: keeps_intros split: sum.splits prod.splits)

lemma run_kept: "auth_run sha upper st env s s' \<Longrightarrow> all_kept (sessions s) (sessions s')"
proof (induction rule: auth_run.induct)
  case (called s s1 c)
  have "all_kept (sessions s1) (sessions (after_call sha upper st c s1))"
    using keeps_service by (auto simp: after_call_def keeps_def split: auth_call.splits)
  with called.IH show ?case by (rule all_kept_trans)
next
  case (passed s s1 s2)
  with aside(9) show ?case by simp
qed simp

lemma authenticate_needs_session:
  assumes "Authenticate sha st T now token s = (Inr tr, s')"
  obtains h x where "HashToken sha token = Inr h" "sessions s h = Some x" "ses_TokenHash x = h"
    "ses_RevokedAt x = None" "now < ses_ExpiresAt x"
proof -
  from assms obtain h x tr' s1 where "HashToken sha token = Inr h"
    "st_SessionByTokenHash st h s = (Inr (x, tr'), s1)" "SameHash h (ses_TokenHash x)"
    "ses_RevokedAt x = None" "now < ses_ExpiresAt x"
    by (auto simp: Authenticate_def a_bind_run split: sum.splits if_splits)
  with by_hash [of h s "Inr (x, tr')" s1] that show thesis by (auto simp: SameHash_def split: if_splits)
qed

lemma revoked_forever:
  assumes "sessions s h = Some x" "ses_RevokedAt x \<noteq> None" "auth_run sha upper st env s s1"
    and "HashToken sha token = Inr h" "Authenticate sha st T now token s1 = (r, s2)"
  shows "isl r"
proof (cases r)
  case (Inr tr)
  from assms(1,2) run_kept [OF assms(3)] obtain y where y: "sessions s1 h = Some y" "ses_RevokedAt y \<noteq> None"
    unfolding all_kept_def kept_def by blast
  from assms(5) Inr have "Authenticate sha st T now token s1 = (Inr tr, s2)" by simp
  then show ?thesis by (rule authenticate_needs_session) (use y assms(4) in auto)
qed simp

end

end
