(* ===== verification/Auth_Store.thy ===== *)
theory Auth_Store
  imports Auth_Contract Transaction Sample
begin

section \<open>The credential tables (\<^verbatim>\<open>internal/postgres/auth_store.go\<close>, \<^verbatim>\<open>signin_code_store.go\<close>)\<close>

text \<open>
  The tables \<open>sessions\<close>, \<open>sign_in_codes\<close> and \<open>invite_codes\<close> beside the log's \<open>travellers\<close>, with the
  constraints of migrations 0001, 0005 and 0006. Most operations are one statement outside a
  transaction: it is atomic, and when the acknowledgement is lost the caller sees an error and the
  change stands. \<open>CreateSession\<close> runs under the traveller's lock. \<open>now()\<close>, \<open>gen_random_uuid()\<close> and
  \<open>lower\<close> are the server's: they are fields of the state, and time may change the first two
  between any two operations.
\<close>

record session_row =
  sn_id :: id
  sn_traveller :: id
  sn_hash :: hash
  sn_created :: instant
  sn_last_used :: instant
  sn_expires :: instant
  sn_revoked :: "instant option"

record code_row =
  cr_traveller :: id
  cr_hash :: hash
  cr_issued :: instant
  cr_expires :: instant
  cr_attempts :: int

record invite_row =
  iv_hash :: hash
  iv_used_at :: "instant option"
  iv_used_by :: "id option"
  iv_note :: "string option"

record auth_db =
  au_log :: database
  au_sessions :: "session_row list"
  au_codes :: "code_row list"
  au_invites :: "invite_row list"

record auth_state =
  au_db :: auth_db
  au_now :: instant
  au_uuid :: id
  au_lower :: "string \<Rightarrow> string"
  au_faults :: "fault option list"

type_synonym 'a auth_stmt = "auth_state \<Rightarrow> db_error + 'a \<times> auth_db"

subsection \<open>Statements\<close>

definition au_next :: "auth_state \<Rightarrow> fault option \<times> auth_state" where
  "au_next s = (case au_faults s of [] \<Rightarrow> None | f # _ \<Rightarrow> f, s\<lparr>au_faults := tl (au_faults s)\<rparr>)"

text \<open>A statement on its own: it commits as it returns.\<close>

definition au_sql :: "'a auth_stmt \<Rightarrow> (auth_state, 'a) act" where
  "au_sql stmt s =
     (case au_next s of (f, s1) \<Rightarrow>
        case f of
          Some (Fails e) \<Rightarrow> (Inl (ErrStorage e), s1)
        | Some (AckLost e) \<Rightarrow>
            (Inl (ErrStorage e), case stmt s1 of Inl _ \<Rightarrow> s1 | Inr (_, d) \<Rightarrow> s1\<lparr>au_db := d\<rparr>)
        | None \<Rightarrow>
            (case stmt s1 of
               Inl e \<Rightarrow> (Inl (ErrStorage e), s1)
             | Inr (x, d) \<Rightarrow> (Inr x, s1\<lparr>au_db := d\<rparr>)))"

definition au_query :: "(auth_state \<Rightarrow> 'a) \<Rightarrow> (auth_state, 'a) act" where
  "au_query q = au_sql (\<lambda>s. Inr (q s, au_db s))"

text \<open>\<open>WithTravellerLock\<close> around one statement: begin, lock, look the traveller up, run, commit.\<close>

definition au_locked :: "id \<Rightarrow> 'a auth_stmt \<Rightarrow> (auth_state, 'a) act" where
  "au_locked t stmt =
     a_bind (au_query (\<lambda>_. ())) (\<lambda>_.
     a_bind (au_query (\<lambda>_. ())) (\<lambda>_.
     a_bind (au_query (\<lambda>s. has_traveller (au_log (au_db s)) t)) (\<lambda>held.
     if \<not> held then a_lift (Inl ErrUnknownTraveller)
     else (\<lambda>s.
       case au_next s of (f, s1) \<Rightarrow>
         case f of
           Some e \<Rightarrow> (Inl (ErrStorage (fault_error e)), s1)
         | None \<Rightarrow> (case stmt s1 of Inl e \<Rightarrow> (Inl (ErrStorage e), s1) | Inr _ \<Rightarrow> au_sql stmt s1)))))"

subsection \<open>Travellers\<close>

definition scan_traveller :: "traveller_row \<Rightarrow> traveller" where
  "scan_traveller r = \<lparr>trv_ID = tv_id r, trv_Email = tv_email r, trv_Name = tv_name r\<rparr>"

definition find_address :: "auth_state \<Rightarrow> string \<Rightarrow> traveller_row option" where
  "find_address s email =
     List.find (\<lambda>r. au_lower s (tv_email r) = au_lower s email) (travellers (au_log (au_db s)))"

text \<open>\<open>INSERT \<dots> ON CONFLICT (lower(email)) DO NOTHING RETURNING \<dots>\<close>: no row is no insert.\<close>

definition createTravellerSQL :: "string \<Rightarrow> traveller option auth_stmt" where
  "createTravellerSQL email = with_texts [Some email] (\<lambda>s.
      let d = au_db s; lg = au_log d;
          r = \<lparr>tv_id = au_uuid s, tv_email = email, tv_name = None, tv_version = 0\<rparr>
      in if email = [] then Inl check_violation
         else if find_address s email \<noteq> None then Inr (None, d)
         else if has_traveller lg (au_uuid s) then Inl unique_violation
         else Inr (Some (scan_traveller r), d\<lparr>au_log := lg\<lparr>travellers := travellers lg @ [r]\<rparr>\<rparr>))"

definition AuthCreateTraveller :: "string \<Rightarrow> (auth_state, traveller) act" where
  "AuthCreateTraveller email =
     a_bind (au_sql (createTravellerSQL email)) (\<lambda>row.
     a_lift (case row of None \<Rightarrow> Inl ErrEmailTaken | Some tr \<Rightarrow> Inr tr))"

definition travellerByEmailSQL :: "string \<Rightarrow> traveller_row option auth_stmt" where
  "travellerByEmailSQL email = with_texts [Some email] (\<lambda>s. Inr (find_address s email, au_db s))"

definition AuthTravellerByEmail :: "string \<Rightarrow> (auth_state, traveller) act" where
  "AuthTravellerByEmail email =
     a_bind (au_sql (travellerByEmailSQL email)) (\<lambda>row.
     a_lift (case row of None \<Rightarrow> Inl ErrUnknownTraveller | Some r \<Rightarrow> Inr (scan_traveller r)))"

subsection \<open>Sessions\<close>

definition session_ck :: "session_row \<Rightarrow> bool" where
  "session_ck r \<longleftrightarrow> length (sn_hash r) = 32 \<and> sn_created r < sn_expires r"

definition createSessionSQL :: "id \<Rightarrow> hash \<Rightarrow> instant \<Rightarrow> id auth_stmt" where
  "createSessionSQL t h expires s =
     (let d = au_db s;
          r = \<lparr>sn_id = au_uuid s, sn_traveller = t, sn_hash = h, sn_created = au_now s,
               sn_last_used = au_now s, sn_expires = to_timestamptz (au_log d) expires, sn_revoked = None\<rparr>
      in if \<not> session_ck r then Inl check_violation
         else if list_ex (\<lambda>x. sn_id x = au_uuid s \<or> sn_hash x = h) (au_sessions d) then Inl unique_violation
         else if \<not> has_traveller (au_log d) t then Inl foreign_key_violation
         else Inr (au_uuid s, d\<lparr>au_sessions := au_sessions d @ [r]\<rparr>))"

definition AuthCreateSession :: "id \<Rightarrow> hash \<Rightarrow> instant \<Rightarrow> (auth_state, id) act" where
  "AuthCreateSession t h expires = au_locked t (createSessionSQL t h expires)"

definition scan_session :: "session_row \<Rightarrow> session" where
  "scan_session r =
     \<lparr>ses_ID = sn_id r, ses_TravellerID = sn_traveller r, ses_TokenHash = sn_hash r,
      ses_LastUsedAt = sn_last_used r, ses_ExpiresAt = sn_expires r, ses_RevokedAt = sn_revoked r\<rparr>"

definition find_session :: "auth_db \<Rightarrow> hash \<Rightarrow> session_row option" where
  "find_session d h = List.find (\<lambda>r. sn_hash r = h) (au_sessions d)"

text \<open>\<open>sessions JOIN travellers\<close>.\<close>

definition sessionByTokenHashSQL :: "hash \<Rightarrow> auth_state \<Rightarrow> (session \<times> traveller) option" where
  "sessionByTokenHashSQL h s =
     (case find_session (au_db s) h of
        None \<Rightarrow> None
      | Some r \<Rightarrow> map_option (\<lambda>t. (scan_session r, scan_traveller t))
                    (find_traveller (au_log (au_db s)) (sn_traveller r)))"

definition AuthSessionByTokenHash :: "hash \<Rightarrow> (auth_state, session \<times> traveller) act" where
  "AuthSessionByTokenHash h =
     a_bind (au_query (sessionByTokenHashSQL h)) (\<lambda>row.
     a_lift (case row of None \<Rightarrow> Inl ErrNoSession | Some x \<Rightarrow> Inr x))"

text \<open>An \<open>UPDATE \<dots> WHERE\<close> on \<open>sessions\<close> that answers how many rows it changed.\<close>

definition update_sessions ::
  "(session_row \<Rightarrow> bool) \<Rightarrow> (session_row \<Rightarrow> session_row) \<Rightarrow> int auth_stmt" where
  "update_sessions p f s =
     (let d = au_db s; hit = filter p (au_sessions d)
      in if list_ex (\<lambda>r. \<not> session_ck (f r)) hit then Inl check_violation
         else Inr (int (length hit), d\<lparr>au_sessions := upd_rows p f (au_sessions d)\<rparr>))"

definition touchSessionSQL :: "id \<Rightarrow> id \<Rightarrow> instant \<Rightarrow> instant \<Rightarrow> int auth_stmt" where
  "touchSessionSQL sessionID t used expires s =
     update_sessions (\<lambda>r. sn_id r = sessionID \<and> sn_traveller r = t)
       (\<lambda>r. r\<lparr>sn_last_used := to_timestamptz (au_log (au_db s)) used,
              sn_expires := to_timestamptz (au_log (au_db s)) expires\<rparr>) s"

definition AuthTouchSession :: "id \<Rightarrow> id \<Rightarrow> instant \<Rightarrow> instant \<Rightarrow> (auth_state, unit) act" where
  "AuthTouchSession t sessionID used expires =
     a_bind (au_sql (touchSessionSQL sessionID t used expires)) (\<lambda>touched.
     a_lift (if touched = 0 then Inl ErrNoSession else Inr ()))"

definition revokeSessionSQL :: "id \<Rightarrow> hash \<Rightarrow> int auth_stmt" where
  "revokeSessionSQL t h s =
     update_sessions (\<lambda>r. sn_traveller r = t \<and> sn_hash r = h \<and> sn_revoked r = None)
       (\<lambda>r. r\<lparr>sn_revoked := Some (au_now s)\<rparr>) s"

definition AuthRevokeSession :: "id \<Rightarrow> hash \<Rightarrow> (auth_state, bool) act" where
  "AuthRevokeSession t h = a_bind (au_sql (revokeSessionSQL t h)) (\<lambda>moved. a_return (moved > 0))"

definition revokeEverySessionSQL :: "id \<Rightarrow> int auth_stmt" where
  "revokeEverySessionSQL t s =
     update_sessions (\<lambda>r. sn_traveller r = t \<and> sn_revoked r = None) (\<lambda>r. r\<lparr>sn_revoked := Some (au_now s)\<rparr>) s"

definition AuthRevokeEverySession :: "id \<Rightarrow> (auth_state, int) act" where
  "AuthRevokeEverySession t = au_sql (revokeEverySessionSQL t)"

subsection \<open>Invites\<close>

definition AuthMintInvite :: "hash \<Rightarrow> string \<Rightarrow> (auth_state, unit) act" where
  "AuthMintInvite h note =
     au_sql (with_texts [if note = [] then None else Some note] (\<lambda>s. let d = au_db s in
       if length h \<noteq> 32 then Inl check_violation
       else if list_ex (\<lambda>r. iv_hash r = h) (au_invites d) then Inl unique_violation
       else Inr ((), d\<lparr>au_invites := au_invites d @
         [\<lparr>iv_hash = h, iv_used_at = None, iv_used_by = None, iv_note = (if note = [] then None else Some note)\<rparr>]\<rparr>)))"

text \<open>One statement reads and marks: \<open>UPDATE \<dots> WHERE used_at IS NULL RETURNING code_hash\<close>.\<close>

definition spendInviteSQL :: "hash \<Rightarrow> bool auth_stmt" where
  "spendInviteSQL h s =
     (let d = au_db s; open = (\<lambda>r. iv_hash r = h \<and> iv_used_at r = None)
      in Inr (list_ex open (au_invites d),
              d\<lparr>au_invites := upd_rows open (\<lambda>r. r\<lparr>iv_used_at := Some (au_now s)\<rparr>) (au_invites d)\<rparr>))"

definition AuthSpendInvite :: "hash \<Rightarrow> (auth_state, unit) act" where
  "AuthSpendInvite h =
     a_bind (au_sql (spendInviteSQL h)) (\<lambda>claimed. a_lift (if claimed then Inr () else Inl ErrInviteSpent))"

definition AuthRecordInviteUser :: "hash \<Rightarrow> id \<Rightarrow> (auth_state, unit) act" where
  "AuthRecordInviteUser h t =
     au_sql (\<lambda>s. let d = au_db s in
       if list_ex (\<lambda>r. iv_hash r = h) (au_invites d) \<and> \<not> has_traveller (au_log d) t
       then Inl foreign_key_violation
       else Inr ((), d\<lparr>au_invites := upd_rows (\<lambda>r. iv_hash r = h) (\<lambda>r. r\<lparr>iv_used_by := Some t\<rparr>) (au_invites d)\<rparr>))"

subsection \<open>Sign-in codes\<close>

definition code_ck :: "code_row \<Rightarrow> bool" where
  "code_ck r \<longleftrightarrow> length (cr_hash r) = 32 \<and> 0 \<le> cr_attempts r \<and> cr_issued r < cr_expires r"

definition issueCodeSQL :: "id \<Rightarrow> hash \<Rightarrow> instant \<Rightarrow> unit auth_stmt" where
  "issueCodeSQL t h expires s =
     (let d = au_db s;
          r = \<lparr>cr_traveller = t, cr_hash = h, cr_issued = au_now s,
               cr_expires = to_timestamptz (au_log d) expires, cr_attempts = 0\<rparr>
      in if \<not> code_ck r then Inl check_violation
         else if \<not> has_traveller (au_log d) t then Inl foreign_key_violation
         else Inr ((), d\<lparr>au_codes := put_row cr_traveller r (au_codes d)\<rparr>))"

definition AuthIssueCode :: "id \<Rightarrow> hash \<Rightarrow> instant \<Rightarrow> (auth_state, unit) act" where
  "AuthIssueCode t h expires = au_sql (issueCodeSQL t h expires)"

definition scan_code :: "code_row \<Rightarrow> sign_in_code" where
  "scan_code r = \<lparr>sic_Hash = cr_hash r, sic_IssuedAt = cr_issued r, sic_ExpiresAt = cr_expires r,
     sic_Attempts = cr_attempts r\<rparr>"

definition find_code :: "auth_db \<Rightarrow> id \<Rightarrow> code_row option" where
  "find_code d t = List.find (\<lambda>r. cr_traveller r = t) (au_codes d)"

definition AuthCodeFor :: "id \<Rightarrow> (auth_state, sign_in_code) act" where
  "AuthCodeFor t =
     a_bind (au_query (\<lambda>s. find_code (au_db s) t)) (\<lambda>row.
     a_lift (case row of None \<Rightarrow> Inl ErrNoCode | Some r \<Rightarrow> Inr (scan_code r)))"

definition countAttemptSQL :: "id \<Rightarrow> int option auth_stmt" where
  "countAttemptSQL t s =
     (let d = au_db s in
      case find_code d t of
        None \<Rightarrow> Inr (None, d)
      | Some r \<Rightarrow>
          if 2 ^ 31 \<le> cr_attempts r + 1 then Inl out_of_range
          else Inr (Some (cr_attempts r + 1),
                 d\<lparr>au_codes := upd_rows (\<lambda>r. cr_traveller r = t) (\<lambda>r. r\<lparr>cr_attempts := cr_attempts r + 1\<rparr>)
                     (au_codes d)\<rparr>))"

definition AuthCountAttempt :: "id \<Rightarrow> (auth_state, int) act" where
  "AuthCountAttempt t =
     a_bind (au_sql (countAttemptSQL t)) (\<lambda>row.
     a_lift (case row of None \<Rightarrow> Inl ErrNoCode | Some n \<Rightarrow> Inr n))"

definition AuthBurnCode :: "id \<Rightarrow> (auth_state, unit) act" where
  "AuthBurnCode t =
     au_sql (\<lambda>s. Inr ((), (au_db s)\<lparr>au_codes := del_rows (\<lambda>r. cr_traveller r = t) (au_codes (au_db s))\<rparr>))"

definition AuthStore :: "auth_state store" where
  "AuthStore =
     \<lparr>st_CreateTraveller = AuthCreateTraveller, st_TravellerByEmail = AuthTravellerByEmail,
      st_CreateSession = AuthCreateSession, st_SessionByTokenHash = AuthSessionByTokenHash,
      st_TouchSession = AuthTouchSession, st_RevokeSession = AuthRevokeSession,
      st_RevokeEverySession = AuthRevokeEverySession, st_SpendInvite = AuthSpendInvite,
      st_RecordInviteUser = AuthRecordInviteUser, st_IssueCode = AuthIssueCode,
      st_CodeFor = AuthCodeFor, st_CountAttempt = AuthCountAttempt, st_BurnCode = AuthBurnCode\<rparr>"

subsection \<open>What a statement did\<close>

lemma au_sql_run:
  assumes "au_sql stmt s = (r, s')"
  shows "\<exists>fs. s' = s\<lparr>au_faults := fs\<rparr> \<and> (\<exists>e. r = Inl (ErrStorage e)) \<or>
     (\<exists>x d. stmt (s\<lparr>au_faults := fs\<rparr>) = Inr (x, d) \<and> s' = s\<lparr>au_faults := fs, au_db := d\<rparr> \<and>
        (r = Inr x \<or> (\<exists>e. r = Inl (ErrStorage e))))"
proof -
  let ?fs = "tl (au_faults s)"
  obtain f where nf: "au_next s = (f, s\<lparr>au_faults := ?fs\<rparr>)" by (simp add: au_next_def)
  show ?thesis
    by (rule exI [of _ ?fs], use assms nf in
      \<open>cases f; cases "stmt (s\<lparr>au_faults := ?fs\<rparr>)"; force simp: au_sql_def split: fault.splits\<close>)
qed

lemma au_query_run:
  assumes "au_query q s = (r, s')"
  shows "\<exists>fs. s' = s\<lparr>au_faults := fs\<rparr> \<and> ((\<exists>x. q (s\<lparr>au_faults := fs\<rparr>) = x \<and> r = Inr x) \<or> (\<exists>e. r = Inl (ErrStorage e)))"
  using au_sql_run [OF assms [unfolded au_query_def]] by force

lemma au_locked_run:
  assumes "au_locked t stmt s = (r, s')"
  shows "\<exists>fs. s' = s\<lparr>au_faults := fs\<rparr> \<and> (\<exists>e. r = Inl e \<and> (e = ErrUnknownTraveller \<or> (\<exists>x. e = ErrStorage x))) \<or>
     (\<exists>x d. stmt (s\<lparr>au_faults := fs\<rparr>) = Inr (x, d) \<and> s' = s\<lparr>au_faults := fs, au_db := d\<rparr> \<and>
        (r = Inr x \<or> (\<exists>e. r = Inl (ErrStorage e))))"
proof -
  let ?lock = "au_query (\<lambda>s. has_traveller (au_log (au_db s)) t)"
  have hop: "\<exists>fs. u' = u\<lparr>au_faults := fs\<rparr> \<and> (\<forall>e. q = Inl e \<longrightarrow> (\<exists>x. e = ErrStorage x))"
    if "au_query p u = (q, u')" for p :: "auth_state \<Rightarrow> 'b" and q u u'
    using au_query_run [OF that] by auto
  from assms consider e fs where "s' = s\<lparr>au_faults := fs\<rparr>" "r = Inl (ErrStorage e)"
    | fs held where "(if \<not> held then a_lift (Inl ErrUnknownTraveller)
     else (\<lambda>s. case au_next s of (f, s1) \<Rightarrow> case f of Some e \<Rightarrow> (Inl (ErrStorage (fault_error e)), s1)
         | None \<Rightarrow> (case stmt s1 of Inl e \<Rightarrow> (Inl (ErrStorage e), s1) | Inr _ \<Rightarrow> au_sql stmt s1)))
         (s\<lparr>au_faults := fs\<rparr>) = (r, s')"
    unfolding au_locked_def a_bind_run by (fastforce dest!: hop)
  then show ?thesis
  proof cases
    case (2 fs held)
    let ?s = "s\<lparr>au_faults := tl fs\<rparr>"
    from 2 consider e where "s' = ?s" "r = Inl (ErrStorage e)" | "s' = s\<lparr>au_faults := fs\<rparr>" "r = Inl ErrUnknownTraveller"
      | "au_sql stmt ?s = (r, s')"
      by (auto simp: au_next_def split: if_splits list.splits option.splits sum.splits)
    then show ?thesis
    proof cases
      case 3
      from au_sql_run [OF this] show ?thesis by auto
    qed blast+
  qed blast
qed

subsection \<open>The tables keep the contract\<close>

definition pg_account :: "auth_state \<Rightarrow> string \<Rightarrow> traveller option" where
  "pg_account s email = map_option scan_traveller (find_address s email)"

definition pg_codes :: "auth_state \<Rightarrow> id \<Rightarrow> sign_in_code option" where
  "pg_codes s t = map_option scan_code (find_code (au_db s) t)"

definition pg_sessions :: "auth_state \<Rightarrow> hash \<Rightarrow> session option" where
  "pg_sessions s h = map_option scan_session (find_session (au_db s) h)"

definition pg_invites :: "auth_state \<Rightarrow> hash \<Rightarrow> bool option" where
  "pg_invites s h =
     (if list_ex (\<lambda>r. iv_hash r = h) (au_invites (au_db s))
      then Some (\<not> list_ex (\<lambda>r. iv_hash r = h \<and> iv_used_at r = None) (au_invites (au_db s))) else None)"

text \<open>Time: the clock, the next uuid and the schedule of faults change, the tables do not.\<close>

definition pg_env :: "auth_state \<Rightarrow> auth_state \<Rightarrow> bool" where
  "pg_env s s' \<longleftrightarrow> (\<exists>n u fs. s' = s\<lparr>au_now := n, au_uuid := u, au_faults := fs\<rparr>)"

lemmas pg_ops = AuthStore_def AuthCreateTraveller_def AuthTravellerByEmail_def AuthCreateSession_def
  AuthSessionByTokenHash_def AuthTouchSession_def AuthRevokeSession_def AuthRevokeEverySession_def
  AuthSpendInvite_def AuthRecordInviteUser_def AuthIssueCode_def AuthCodeFor_def AuthCountAttempt_def
  AuthBurnCode_def

lemma pg_views_faults [simp]:
  "pg_account (s\<lparr>au_faults := fs\<rparr>) = pg_account s" "pg_codes (s\<lparr>au_faults := fs\<rparr>) = pg_codes s"
  "pg_sessions (s\<lparr>au_faults := fs\<rparr>) = pg_sessions s" "pg_invites (s\<lparr>au_faults := fs\<rparr>) = pg_invites s"
  by (simp_all add: fun_eq_iff pg_account_def find_address_def pg_codes_def pg_sessions_def pg_invites_def)

text \<open>Which tables a view reads.\<close>

lemma pg_views_db:
  "travellers (au_log d) = travellers (au_log (au_db s)) \<Longrightarrow> pg_account (s\<lparr>au_db := d\<rparr>) = pg_account s"
  "au_codes d = au_codes (au_db s) \<Longrightarrow> pg_codes (s\<lparr>au_db := d\<rparr>) = pg_codes s"
  "au_sessions d = au_sessions (au_db s) \<Longrightarrow> pg_sessions (s\<lparr>au_db := d\<rparr>) = pg_sessions s"
  "au_invites d = au_invites (au_db s) \<Longrightarrow> pg_invites (s\<lparr>au_db := d\<rparr>) = pg_invites s"
  by (simp_all add: fun_eq_iff pg_account_def find_address_def pg_codes_def find_code_def pg_sessions_def
      find_session_def pg_invites_def)

lemma find_code_counted:
  "List.find (\<lambda>r. cr_traveller r = u) (upd_rows (\<lambda>r. cr_traveller r = t) (\<lambda>r. r\<lparr>cr_attempts := cr_attempts r + 1\<rparr>) rs) =
   (if u = t then map_option (\<lambda>r. r\<lparr>cr_attempts := cr_attempts r + 1\<rparr>) (List.find (\<lambda>r. cr_traveller r = u) rs)
    else List.find (\<lambda>r. cr_traveller r = u) rs)"
  by (induction rs) (auto simp: upd_rows_def)

lemma find_code_burned:
  "List.find (\<lambda>r. cr_traveller r = u) (del_rows (\<lambda>r. cr_traveller r = t) rs) =
   (if u = t then None else List.find (\<lambda>r. cr_traveller r = u) rs)"
  by (induction rs) (auto simp: del_rows_def)

lemma lookup_run:
  assumes "a_bind (au_query q) (\<lambda>row. a_lift (case row of None \<Rightarrow> Inl e | Some x \<Rightarrow> Inr (f x))) s = (r, s')"
    and "\<And>fs. q (s\<lparr>au_faults := fs\<rparr>) = q s"
  shows "(\<exists>fs. s' = s\<lparr>au_faults := fs\<rparr>) \<and>
     ((\<exists>d. r = Inl (ErrStorage d)) \<or> r = (case q s of None \<Rightarrow> Inl e | Some x \<Rightarrow> Inr (f x)))"
  using assms by (fastforce simp: a_bind_run dest!: au_query_run)

lemma pg_by_email:
  assumes "AuthTravellerByEmail e s = (r, s')"
  shows "\<exists>fs. s' = s\<lparr>au_faults := fs\<rparr>"
    "r = Inr tr \<Longrightarrow> pg_account s e = Some tr" "r = Inl ErrUnknownTraveller \<Longrightarrow> pg_account s e = None"
    "\<not> bad r"
proof -
  from assms obtain q where q: "au_sql (travellerByEmailSQL e) s = (q, s')"
    "r = (case q of Inl x \<Rightarrow> Inl x | Inr None \<Rightarrow> Inl ErrUnknownTraveller | Inr (Some x) \<Rightarrow> Inr (scan_traveller x))"
    by (auto simp: AuthTravellerByEmail_def a_bind_run split: option.splits)
  from au_sql_run [OF q(1)] obtain fs where fs: "s' = s\<lparr>au_faults := fs\<rparr>"
    "q = Inr (find_address s e) \<or> (\<exists>x. q = Inl (ErrStorage x))"
    by (auto simp: travellerByEmailSQL_def find_address_def)
  then show "\<exists>fs. s' = s\<lparr>au_faults := fs\<rparr>" by blast
  from fs(2) q(2) show "r = Inr tr \<Longrightarrow> pg_account s e = Some tr" "r = Inl ErrUnknownTraveller \<Longrightarrow> pg_account s e = None"
    "\<not> bad r"
    by (auto simp: pg_account_def split: option.splits)
qed

lemma pg_code_for:
  assumes "AuthCodeFor t s = (r, s')"
  shows "\<exists>fs. s' = s\<lparr>au_faults := fs\<rparr>"
    "r = Inr c \<Longrightarrow> pg_codes s t = Some c" "r = Inl ErrNoCode \<Longrightarrow> pg_codes s t = None" "\<not> bad r"
  using lookup_run [OF assms [unfolded AuthCodeFor_def]]
  by (auto simp: pg_codes_def split: option.splits)

lemma pg_count:
  assumes "AuthCountAttempt t s = (r, s')"
  shows "pg_account s' = pg_account s \<and> \<not> bad r \<and> (r = Inl ErrNoCode \<longrightarrow> pg_codes s t = None) \<and>
      (isl r \<and> pg_codes s' = pg_codes s \<or>
       (\<exists>c. pg_codes s t = Some c \<and> pg_codes s' = (pg_codes s)(t \<mapsto> c\<lparr>sic_Attempts := sic_Attempts c + 1\<rparr>) \<and>
          (\<forall>n. r = Inr n \<longrightarrow> n = sic_Attempts c + 1)))"
proof -
  from assms obtain q where q: "au_sql (countAttemptSQL t) s = (q, s')"
    "r = (case q of Inl e \<Rightarrow> Inl e | Inr None \<Rightarrow> Inl ErrNoCode | Inr (Some n) \<Rightarrow> Inr n)"
    by (auto simp: AuthCountAttempt_def a_bind_run split: option.splits)
  from au_sql_run [OF q(1)] consider fs e where "s' = s\<lparr>au_faults := fs\<rparr>" "q = Inl (ErrStorage e)"
    | fs x d where "countAttemptSQL t (s\<lparr>au_faults := fs\<rparr>) = Inr (x, d)" "s' = s\<lparr>au_faults := fs, au_db := d\<rparr>"
        "q = Inr x \<or> (\<exists>e. q = Inl (ErrStorage e))" by blast
  then show ?thesis
  proof cases
    case (2 fs x d)
    note st = 2(1) and s' = 2(2) and ans = 2(3)
    show ?thesis
    proof (cases "find_code (au_db s) t")
      case None
      with st have "x = None" "d = au_db s" by (simp_all add: countAttemptSQL_def Let_def)
      with None ans q(2) s' show ?thesis by (auto simp: pg_codes_def)
    next
      case (Some r0)
      with st have d: "x = Some (cr_attempts r0 + 1)" "d = (au_db s)\<lparr>au_codes := upd_rows (\<lambda>r. cr_traveller r = t)
          (\<lambda>r. r\<lparr>cr_attempts := cr_attempts r + 1\<rparr>) (au_codes (au_db s))\<rparr>"
        by (auto simp: countAttemptSQL_def Let_def split: if_splits)
      have "pg_account s' = pg_account s" using s' d(2) pg_views_db(1) [of d s]
        by (simp add: fun_eq_iff pg_account_def find_address_def)
      moreover have "pg_codes s' = (pg_codes s)(t \<mapsto> (scan_code r0)\<lparr>sic_Attempts := sic_Attempts (scan_code r0) + 1\<rparr>)"
        using Some s' d(2) by (auto simp: fun_eq_iff pg_codes_def find_code_def find_code_counted scan_code_def)
      ultimately show ?thesis using Some d(1) ans q(2) by (auto simp: pg_codes_def scan_code_def)
    qed
  qed (use q(2) in auto)
qed

lemma pg_burn:
  assumes "AuthBurnCode t s = (r, s')"
  shows "pg_account s' = pg_account s \<and> \<not> bad r \<and>
      (pg_codes s' = (pg_codes s)(t := None) \<or> isl r \<and> pg_codes s' = pg_codes s)"
  using au_sql_run [OF assms [unfolded AuthBurnCode_def]]
  by (auto simp: fun_eq_iff pg_account_def find_address_def pg_codes_def find_code_def find_code_burned)

lemma pg_issue:
  assumes "AuthIssueCode t h x s = (r, s')"
  shows "pg_account s' = pg_account s \<and>
      (isl r \<and> pg_codes s' = pg_codes s \<or>
       (\<exists>c. sic_Hash c = h \<and> sic_Attempts c = 0 \<and> pg_codes s' = (pg_codes s)(t \<mapsto> c)))"
proof -
  have find: "List.find (\<lambda>r. cr_traveller r = u) (put_row cr_traveller row rs) =
     (if u = cr_traveller row then Some row else List.find (\<lambda>r. cr_traveller r = u) rs)" for u row rs
    by (auto simp: find_put_row)
  show ?thesis
    using au_sql_run [OF assms [unfolded AuthIssueCode_def]]
    by (auto simp: fun_eq_iff pg_account_def find_address_def pg_codes_def find_code_def issueCodeSQL_def Let_def
        find scan_code_def split: if_splits)
qed

lemma pg_create_session:
  assumes "AuthCreateSession t h x s = (r, s')"
  shows "pg_account s' = pg_account s \<and> pg_codes s' = pg_codes s \<and> \<not> bad r"
  using au_locked_run [OF assms [unfolded AuthCreateSession_def]]
  by (auto simp: fun_eq_iff pg_account_def find_address_def pg_codes_def find_code_def createSessionSQL_def Let_def
      split: if_splits)

interpretation pg: code_store AuthStore pg_account pg_codes
proof unfold_locales
  fix e s r s'
  assume "st_TravellerByEmail AuthStore e s = (r, s')"
  then have "AuthTravellerByEmail e s = (r, s')" by (simp add: AuthStore_def)
  from pg_by_email [OF this] show "pg_account s' = pg_account s \<and> pg_codes s' = pg_codes s \<and> \<not> bad r \<and>
      (\<forall>tr. r = Inr tr \<longrightarrow> pg_account s e = Some tr) \<and> (r = Inl ErrUnknownTraveller \<longrightarrow> pg_account s e = None)"
    by auto
next
  fix t s r s'
  assume "st_CodeFor AuthStore t s = (r, s')"
  then have "AuthCodeFor t s = (r, s')" by (simp add: AuthStore_def)
  from pg_code_for [OF this] show "pg_account s' = pg_account s \<and> pg_codes s' = pg_codes s \<and> \<not> bad r \<and>
      (\<forall>c. r = Inr c \<longrightarrow> pg_codes s t = Some c) \<and> (r = Inl ErrNoCode \<longrightarrow> pg_codes s t = None)"
    by auto
qed (simp_all add: AuthStore_def pg_count pg_burn pg_issue pg_create_session)

text \<open>An update that keeps the digest keeps the place of a session in the view.\<close>

lemma sessions_updated:
  assumes "update_sessions p f (s\<lparr>au_faults := fs\<rparr>) = Inr (n, d)" "\<And>r. sn_hash (f r) = sn_hash r"
  shows "pg_sessions (s\<lparr>au_faults := fs', au_db := d\<rparr>) h =
     map_option (\<lambda>r. scan_session (if p r then f r else r)) (find_session (au_db s) h)"
proof -
  have "List.find (\<lambda>r. sn_hash r = h) (upd_rows p f rs) =
      map_option (\<lambda>r. if p r then f r else r) (List.find (\<lambda>r. sn_hash r = h) rs)" for rs
    using assms(2) by (induction rs) (auto simp: upd_rows_def)
  then show ?thesis
    using assms(1) by (auto simp: update_sessions_def Let_def pg_sessions_def find_session_def option.map_comp comp_def
        split: if_splits)
qed

lemma update_kept:
  assumes "update_sessions p f (s\<lparr>au_faults := fs\<rparr>) = Inr (n, d)"
    and "\<And>r. sn_hash (f r) = sn_hash r" "\<And>r. kept (scan_session r) (scan_session (f r))"
  shows "all_kept (pg_sessions s) (pg_sessions (s\<lparr>au_faults := fs', au_db := d\<rparr>))"
proof (unfold all_kept_def, intro allI impI)
  fix h x
  assume "pg_sessions s h = Some x"
  then obtain r where r: "find_session (au_db s) h = Some r" "x = scan_session r" by (auto simp: pg_sessions_def)
  have "kept x (scan_session (if p r then f r else r))" using r(2) assms(3) by simp
  with r(1) show "\<exists>y. pg_sessions (s\<lparr>au_faults := fs', au_db := d\<rparr>) h = Some y \<and> kept x y"
    by (simp add: sessions_updated [OF assms(1,2)])
qed

lemma pg_touch:
  assumes "AuthTouchSession t i a x s = (r, s')"
  shows "all_kept (pg_sessions s) (pg_sessions s')"
proof -
  from assms obtain q where "au_sql (touchSessionSQL i t a x) s = (q, s')"
    by (auto simp: AuthTouchSession_def a_bind_run)
  from au_sql_run [OF this] show ?thesis
    by (auto simp: touchSessionSQL_def kept_def scan_session_def intro!: update_kept)
qed

lemma revoked_rows:
  assumes "update_sessions p (\<lambda>r. r\<lparr>sn_revoked := Some now\<rparr>) (s\<lparr>au_faults := fs\<rparr>) = Inr (n, d)"
    and "\<And>r. sn_traveller r = t \<Longrightarrow> sn_hash r = h \<Longrightarrow> sn_revoked r = None \<Longrightarrow> p r"
    and "pg_sessions (s\<lparr>au_faults := fs', au_db := d\<rparr>) h = Some y" "ses_TravellerID y = t"
  shows "ses_RevokedAt y \<noteq> None"
proof -
  have same: "sn_hash (r\<lparr>sn_revoked := Some now\<rparr>) = sn_hash r" for r by simp
  from assms(3) obtain r where r: "find_session (au_db s) h = Some r"
    "y = scan_session (if p r then r\<lparr>sn_revoked := Some now\<rparr> else r)"
    by (auto simp: sessions_updated [OF assms(1) same])
  then have "sn_hash r = h" by (auto simp: find_session_def dest: find_SomeD)
  with r(2) assms(2) [of r] assms(4) show ?thesis by (auto simp: scan_session_def split: if_splits)
qed

lemma pg_revoke:
  assumes "AuthRevokeSession t h s = (r, s')"
  shows "all_kept (pg_sessions s) (pg_sessions s')"
    "r = Inr b \<Longrightarrow> pg_sessions s' h = Some y \<Longrightarrow> ses_TravellerID y = t \<Longrightarrow> ses_RevokedAt y \<noteq> None"
proof -
  from assms obtain q where q: "au_sql (revokeSessionSQL t h) s = (q, s')" "isl q = isl r"
    by (auto simp: AuthRevokeSession_def a_bind_run)
  from au_sql_run [OF q(1)] show "all_kept (pg_sessions s) (pg_sessions s')"
    by (auto simp: revokeSessionSQL_def kept_def scan_session_def intro!: update_kept)
  show "ses_RevokedAt y \<noteq> None" if "r = Inr b" "pg_sessions s' h = Some y" "ses_TravellerID y = t"
  proof -
    from au_sql_run [OF q(1)] q(2) that(1) obtain fs n d where
      st: "revokeSessionSQL t h (s\<lparr>au_faults := fs\<rparr>) = Inr (n, d)" and s': "s' = s\<lparr>au_faults := fs, au_db := d\<rparr>" by auto
    show ?thesis
      by (rule revoked_rows [OF _ _ that(2) [unfolded s'] that(3)], use st in \<open>simp add: revokeSessionSQL_def\<close>) simp
  qed
qed

lemma pg_revoke_all:
  assumes "AuthRevokeEverySession t s = (r, s')"
  shows "all_kept (pg_sessions s) (pg_sessions s')"
    "r = Inr m \<Longrightarrow> pg_sessions s' h = Some y \<Longrightarrow> ses_TravellerID y = t \<Longrightarrow> ses_RevokedAt y \<noteq> None"
proof -
  have q: "au_sql (revokeEverySessionSQL t) s = (r, s')" using assms by (simp add: AuthRevokeEverySession_def)
  from au_sql_run [OF q] show "all_kept (pg_sessions s) (pg_sessions s')"
    by (auto simp: revokeEverySessionSQL_def kept_def scan_session_def intro!: update_kept)
  show "ses_RevokedAt y \<noteq> None" if "r = Inr m" "pg_sessions s' h = Some y" "ses_TravellerID y = t"
  proof -
    from au_sql_run [OF q] that(1) obtain fs n d where
      st: "revokeEverySessionSQL t (s\<lparr>au_faults := fs\<rparr>) = Inr (n, d)" and s': "s' = s\<lparr>au_faults := fs, au_db := d\<rparr>" by auto
    show ?thesis
      by (rule revoked_rows [OF _ _ that(2) [unfolded s'] that(3)], use st in \<open>simp add: revokeEverySessionSQL_def\<close>) simp
  qed
qed

lemma pg_by_hash:
  assumes "AuthSessionByTokenHash h s = (r, s')"
  shows "pg_sessions s' = pg_sessions s" "r = Inr x \<Longrightarrow> pg_sessions s h = Some (fst x)"
proof -
  from assms obtain q where q: "au_query (sessionByTokenHashSQL h) s = (q, s')"
    "r = (case q of Inl e \<Rightarrow> Inl e | Inr None \<Rightarrow> Inl ErrNoSession | Inr (Some x) \<Rightarrow> Inr x)"
    by (auto simp: AuthSessionByTokenHash_def a_bind_run split: option.splits)
  from au_query_run [OF q(1)] show "pg_sessions s' = pg_sessions s" by auto
  assume "r = Inr x"
  with q(2) have "q = Inr (Some x)" by (auto split: sum.splits option.splits)
  with au_query_run [OF q(1)] obtain fs where "sessionByTokenHashSQL h (s\<lparr>au_faults := fs\<rparr>) = Some x" by auto
  then show "pg_sessions s h = Some (fst x)"
    by (auto simp: sessionByTokenHashSQL_def pg_sessions_def split: option.splits)
qed

lemma pg_create:
  assumes "AuthCreateSession t h x s = (r, s')"
  shows "isl r \<and> pg_sessions s' = pg_sessions s \<or> pg_sessions s h = None \<and>
     (\<exists>y. ses_TravellerID y = t \<and> ses_TokenHash y = h \<and> ses_RevokedAt y = None \<and>
        pg_sessions s' = (pg_sessions s)(h \<mapsto> y))"
proof -
  have find: "List.find p (rs @ [y]) = (case List.find p rs of None \<Rightarrow> if p y then Some y else None | Some z \<Rightarrow> Some z)"
    for p :: "session_row \<Rightarrow> bool" and rs y
    by (induction rs) auto
  from au_locked_run [OF assms [unfolded AuthCreateSession_def]]
  consider fs where "s' = s\<lparr>au_faults := fs\<rparr>" "isl r"
    | fs i d where "createSessionSQL t h x (s\<lparr>au_faults := fs\<rparr>) = Inr (i, d)" "s' = s\<lparr>au_faults := fs, au_db := d\<rparr>"
    by auto
  then show ?thesis
  proof cases
    case (2 fs i d)
    let ?y = "\<lparr>sn_id = au_uuid s, sn_traveller = t, sn_hash = h, sn_created = au_now s, sn_last_used = au_now s,
      sn_expires = to_timestamptz (au_log (au_db s)) x, sn_revoked = None\<rparr>"
    from 2(1) have d: "d = (au_db s)\<lparr>au_sessions := au_sessions (au_db s) @ [?y]\<rparr>"
      and new: "\<forall>z \<in> set (au_sessions (au_db s)). sn_hash z \<noteq> h"
      by (auto simp: createSessionSQL_def Let_def list_ex_iff split: if_splits)
    have none: "find_session (au_db s) h = None"
      using new by (auto simp: find_session_def find_None_iff)
    have "pg_sessions s' = (pg_sessions s)(h \<mapsto> scan_session ?y)"
      using none 2(2) d
      by (auto simp: fun_eq_iff pg_sessions_def find_session_def find split: option.splits)
    moreover have "pg_sessions s h = None" using none by (simp add: pg_sessions_def)
    ultimately show ?thesis
      by (intro disjI2 conjI exI [of _ "scan_session ?y"]) (simp_all add: scan_session_def)
  qed simp
qed

text \<open>The operations on the other tables.\<close>

lemma aside_sql:
  assumes "au_sql stmt s = (r, s')"
  shows "(\<And>u x d. stmt u = Inr (x, d) \<Longrightarrow> au_sessions d = au_sessions (au_db u)) \<Longrightarrow> pg_sessions s' = pg_sessions s"
    "(\<And>u x d. stmt u = Inr (x, d) \<Longrightarrow> au_invites d = au_invites (au_db u)) \<Longrightarrow> pg_invites s' = pg_invites s"
  using au_sql_run [OF assms] by (force simp: fun_eq_iff pg_sessions_def find_session_def pg_invites_def)+

lemma aside_bind:
  assumes "a_bind (au_sql stmt) (\<lambda>x. a_lift (f x)) s = (r, s')"
  obtains q where "au_sql stmt s = (q, s')"
  using assms by (auto simp: a_bind_run)

lemma pg_aside:
  "AuthCreateTraveller e s = (r, s') \<Longrightarrow> pg_sessions s' = pg_sessions s \<and> pg_invites s' = pg_invites s"
  "AuthTravellerByEmail e s = (r, s') \<Longrightarrow> pg_sessions s' = pg_sessions s"
  "AuthSpendInvite h s = (r1, s') \<Longrightarrow> pg_sessions s' = pg_sessions s"
  "AuthRecordInviteUser h t s = (r1, s') \<Longrightarrow> pg_sessions s' = pg_sessions s"
  "AuthIssueCode t h x s = (r1, s') \<Longrightarrow> pg_sessions s' = pg_sessions s"
  "AuthCodeFor t s = (r2, s') \<Longrightarrow> pg_sessions s' = pg_sessions s"
  "AuthCountAttempt t s = (r3, s') \<Longrightarrow> pg_sessions s' = pg_sessions s"
  "AuthBurnCode t s = (r1, s') \<Longrightarrow> pg_sessions s' = pg_sessions s"
  "pg_env s s' \<Longrightarrow> pg_sessions s' = pg_sessions s"
proof -
  show "AuthCreateTraveller e s = (r, s') \<Longrightarrow> pg_sessions s' = pg_sessions s \<and> pg_invites s' = pg_invites s"
    unfolding AuthCreateTraveller_def
    by (erule aside_bind, intro conjI; (erule aside_sql(1) | erule aside_sql(2)))
      (auto simp: createTravellerSQL_def Let_def split: if_splits)
  show "AuthSpendInvite h s = (r1, s') \<Longrightarrow> pg_sessions s' = pg_sessions s"
    unfolding AuthSpendInvite_def by (erule aside_bind, drule aside_sql(1)) (auto simp: spendInviteSQL_def Let_def)
  show "AuthCountAttempt t s = (r3, s') \<Longrightarrow> pg_sessions s' = pg_sessions s"
    unfolding AuthCountAttempt_def
    by (erule aside_bind, drule aside_sql(1)) (auto simp: countAttemptSQL_def Let_def split: option.splits if_splits)
  show "AuthRecordInviteUser h t s = (r1, s') \<Longrightarrow> pg_sessions s' = pg_sessions s"
    "AuthIssueCode t h x s = (r1, s') \<Longrightarrow> pg_sessions s' = pg_sessions s"
    "AuthBurnCode t s = (r1, s') \<Longrightarrow> pg_sessions s' = pg_sessions s"
    unfolding AuthRecordInviteUser_def AuthIssueCode_def AuthBurnCode_def
    by (drule aside_sql(1); auto simp: issueCodeSQL_def Let_def split: if_splits)+
  show "AuthTravellerByEmail e s = (r, s') \<Longrightarrow> pg_sessions s' = pg_sessions s"
    "AuthCodeFor t s = (r2, s') \<Longrightarrow> pg_sessions s' = pg_sessions s"
    using pg_by_email(1) [of e s r s'] pg_code_for(1) [of t s r2 s'] by auto
  show "pg_env s s' \<Longrightarrow> pg_sessions s' = pg_sessions s"
    by (auto simp: pg_env_def fun_eq_iff pg_sessions_def)
qed

interpretation pgs: session_store AuthStore pg_sessions pg_env
proof unfold_locales
  fix h s r s'
  assume "st_SessionByTokenHash AuthStore h s = (r, s')"
  then have "AuthSessionByTokenHash h s = (r, s')" by (simp add: AuthStore_def)
  from pg_by_hash [OF this] show "pg_sessions s' = pg_sessions s \<and> (\<forall>x. r = Inr x \<longrightarrow> pg_sessions s h = Some (fst x))"
    by blast
next
  fix t h s r s'
  assume "st_RevokeSession AuthStore t h s = (r, s')"
  then have "AuthRevokeSession t h s = (r, s')" by (simp add: AuthStore_def)
  from pg_revoke [OF this] show "all_kept (pg_sessions s) (pg_sessions s') \<and>
      (\<forall>b y. r = Inr b \<and> pg_sessions s' h = Some y \<and> ses_TravellerID y = t \<longrightarrow> ses_RevokedAt y \<noteq> None)"
    by blast
next
  fix t s r s'
  assume "st_RevokeEverySession AuthStore t s = (r, s')"
  then have "AuthRevokeEverySession t s = (r, s')" by (simp add: AuthStore_def)
  from pg_revoke_all [OF this] show "all_kept (pg_sessions s) (pg_sessions s') \<and>
      (\<forall>n h y. r = Inr n \<and> pg_sessions s' h = Some y \<and> ses_TravellerID y = t \<longrightarrow> ses_RevokedAt y \<noteq> None)"
    by blast
qed (simp_all add: AuthStore_def pg_create pg_touch pg_aside)

lemma invite_rows_hash:
  assumes "\<And>r. iv_hash (f r) = iv_hash r"
  shows "list_ex (\<lambda>r. iv_hash r = u) (upd_rows p f rs) \<longleftrightarrow> list_ex (\<lambda>r. iv_hash r = u) rs"
  using assms by (induction rs) (auto simp: upd_rows_def)

lemma invite_rows_open:
  assumes "\<And>r. iv_hash (f r) = iv_hash r" "\<And>r. iv_used_at (f r) = iv_used_at r"
  shows "list_ex (\<lambda>r. iv_hash r = u \<and> iv_used_at r = None) (upd_rows p f rs) \<longleftrightarrow>
     list_ex (\<lambda>r. iv_hash r = u \<and> iv_used_at r = None) rs"
  using assms by (induction rs) (auto simp: upd_rows_def)

lemma invite_rows_spent:
  "list_ex (\<lambda>r. iv_hash r = u \<and> iv_used_at r = None)
     (upd_rows (\<lambda>r. iv_hash r = h \<and> iv_used_at r = None) (\<lambda>r. r\<lparr>iv_used_at := Some n\<rparr>) rs) \<longleftrightarrow>
   u \<noteq> h \<and> list_ex (\<lambda>r. iv_hash r = u \<and> iv_used_at r = None) rs"
  by (induction rs) (auto simp: upd_rows_def)

lemma pg_spend:
  assumes "AuthSpendInvite h s = (r, s')"
  shows "pg_invites s h = Some False \<and> pg_invites s' = (pg_invites s)(h \<mapsto> True) \<or>
     isl r \<and> pg_invites s' = pg_invites s"
proof -
  let ?open = "\<lambda>r. iv_hash r = h \<and> iv_used_at r = None"
  from assms obtain q where q: "au_sql (spendInviteSQL h) s = (q, s')"
    "r = (case q of Inl e \<Rightarrow> Inl e | Inr c \<Rightarrow> if c then Inr () else Inl ErrInviteSpent)"
    by (auto simp: AuthSpendInvite_def a_bind_run)
  from au_sql_run [OF q(1)] consider fs where "s' = s\<lparr>au_faults := fs\<rparr>" "isl q"
    | fs where "s' = s\<lparr>au_faults := fs, au_db := (au_db s)\<lparr>au_invites :=
          upd_rows ?open (\<lambda>r. r\<lparr>iv_used_at := Some (au_now s)\<rparr>) (au_invites (au_db s))\<rparr>\<rparr>"
        "q = Inr (list_ex ?open (au_invites (au_db s))) \<or> isl q"
    by (auto simp: spendInviteSQL_def Let_def)
  then show ?thesis
  proof cases
    case 1
    with q(2) show ?thesis by (cases q) auto
  next
    case (2 fs)
    let ?rs = "au_invites (au_db s)"
    let ?upd = "upd_rows ?open (\<lambda>r. r\<lparr>iv_used_at := Some (au_now s)\<rparr>) ?rs"
    have has: "list_ex (\<lambda>r. iv_hash r = u) ?upd \<longleftrightarrow> list_ex (\<lambda>r. iv_hash r = u) ?rs" for u
      by (simp add: invite_rows_hash)
    have left: "list_ex (\<lambda>r. iv_hash r = u \<and> iv_used_at r = None) ?upd \<longleftrightarrow>
        u \<noteq> h \<and> list_ex (\<lambda>r. iv_hash r = u \<and> iv_used_at r = None) ?rs" for u
      by (simp add: invite_rows_spent)
    have view: "pg_invites s' = (\<lambda>u. if u = h \<and> list_ex (\<lambda>r. iv_hash r = h) ?rs then Some True else pg_invites s u)"
      using 2(1) by (auto simp: fun_eq_iff pg_invites_def has left)
    show ?thesis
    proof (cases "list_ex ?open ?rs")
      case True
      then have "list_ex (\<lambda>r. iv_hash r = h) ?rs" by (auto simp: list_ex_iff)
      with True view show ?thesis by (intro disjI1) (auto simp: fun_eq_iff pg_invites_def)
    next
      case False
      then have "pg_invites s' = pg_invites s" using view by (auto simp: fun_eq_iff pg_invites_def)
      moreover have "isl r" using False 2(2) q(2) by (cases q) auto
      ultimately show ?thesis by simp
    qed
  qed
qed

lemma pg_record:
  assumes "AuthRecordInviteUser h t s = (r, s')"
  shows "pg_invites s' = pg_invites s"
proof -
  have "pg_invites (s\<lparr>au_faults := fs, au_db := (au_db s)\<lparr>au_invites := upd_rows p (\<lambda>r. r\<lparr>iv_used_by := Some t\<rparr>)
      (au_invites (au_db s))\<rparr>\<rparr>) = pg_invites s" for fs p
    by (simp add: fun_eq_iff pg_invites_def invite_rows_hash invite_rows_open)
  with au_sql_run [OF assms [unfolded AuthRecordInviteUser_def]] show ?thesis
    by (auto simp: Let_def split: if_splits)
qed

interpretation pgi: invite_store AuthStore pg_invites
  by unfold_locales (simp_all add: AuthStore_def pg_spend pg_record pg_aside(1))

end
