(* ===== verification/Float64.thy ===== *)
theory Float64
  imports Prelude "HOL-Library.Log_Nat"
begin

section \<open>Rounding to \<^verbatim>\<open>float64\<close>\<close>

text \<open>
  Go's \<open>float64\<close> operations are IEEE 754: the exact result, rounded to the nearest representable
  number, ties to the even significand. \<open>f64\<close> is that rounding, on the rational numbers; each
  arithmetic operation of the source is the exact operation under one \<open>f64\<close>. Overflow is beyond
  \<^term>\<open>2 ^ 1024 :: rat\<close>, which nothing modelled here comes near.
\<close>

text \<open>The exponent of the leading bit of a positive number.\<close>

fun expo_of :: "int \<times> int \<Rightarrow> rat \<Rightarrow> int" where
  "expo_of (p, q) x =
     (let e = bitlen p - bitlen q in if 2 powi e \<le> x then e else e - 1)"

definition expo :: "rat \<Rightarrow> int" where
  "expo x = expo_of (quotient_of x) x"

definition half_even :: "rat \<Rightarrow> int" where
  "half_even x =
     (let n = \<lfloor>x\<rfloor>; d = x - of_int n
      in if d < 1 / 2 then n else if 1 / 2 < d then n + 1 else if even n then n else n + 1)"

text \<open>The spacing of the representable numbers around \<open>x\<close>; below \<open>2 powi (-1022)\<close> it is constant.\<close>

definition unit_exp :: "rat \<Rightarrow> int" where
  "unit_exp x = max (- 1074) (expo \<bar>x\<bar> - 52)"

definition f64 :: "rat \<Rightarrow> rat" where
  "f64 x = (if x = 0 then 0 else of_int (half_even (x / 2 powi unit_exp x)) * 2 powi unit_exp x)"

subsection \<open>Rounding to an integer\<close>

lemma half_even_int [simp]: "half_even (of_int n) = n"
  by (simp add: half_even_def)

lemma half_even_error: "\<bar>of_int (half_even x) - x\<bar> \<le> 1 / 2"
proof -
  have "of_int \<lfloor>x\<rfloor> \<le> x" "x < of_int \<lfloor>x\<rfloor> + 1" by linarith+
  then show ?thesis by (auto simp: half_even_def Let_def abs_le_iff not_less)
qed

lemma half_even_mono:
  assumes "x \<le> y"
  shows "half_even x \<le> half_even y"
proof (cases "\<lfloor>x\<rfloor> = \<lfloor>y\<rfloor>")
  case True
  with assms show ?thesis by (auto simp: half_even_def Let_def)
next
  case False
  then have "\<lfloor>x\<rfloor> + 1 \<le> \<lfloor>y\<rfloor>" using floor_mono [OF assms] by linarith
  moreover have "half_even x \<le> \<lfloor>x\<rfloor> + 1" "\<lfloor>y\<rfloor> \<le> half_even y" by (simp_all add: half_even_def Let_def)
  ultimately show ?thesis by linarith
qed

lemma half_even_nonneg: "0 \<le> x \<Longrightarrow> 0 \<le> half_even x"
  using half_even_mono [of 0 x] half_even_int [of 0] by simp

subsection \<open>The exponent\<close>

lemma powi_less: "(2 :: rat) powi a < 2 powi b \<longleftrightarrow> a < b"
  using power_int_increasing [of b a "2 :: rat"] power_int_strict_increasing [of a b "2 :: rat"]
  by (cases "a < b") (auto simp: not_less)

lemma powi_le: "(2 :: rat) powi a \<le> 2 powi b \<longleftrightarrow> a \<le> b"
  using powi_less [of b a] by (simp add: not_less [symmetric] del: not_less)

lemma nat_log_bounds:
  assumes "0 < n"
  shows "(2 :: rat) powi (int (floorlog 2 (nat n)) - 1) \<le> of_int n" "of_int n < (2 :: rat) powi int (floorlog 2 (nat n))"
proof -
  let ?l = "floorlog 2 (nat n)"
  have b: "2 ^ (?l - 1) \<le> nat n" "nat n < 2 ^ ?l" using floorlog_bounds [of "nat n" 2] assms by simp_all
  have l: "0 < ?l" using assms by (simp add: floorlog_def)
  then have l1: "int ?l - 1 = int (?l - 1)" by simp
  have n: "(of_int n :: rat) = of_nat (nat n)" using assms by simp
  have "(2 :: rat) ^ (?l - 1) \<le> of_nat (nat n)" using b(1) by (metis of_nat_le_iff of_nat_numeral of_nat_power)
  then show "(2 :: rat) powi (int ?l - 1) \<le> of_int n" using l1 n by (metis power_int_of_nat)
  have "of_nat (nat n) < (2 :: rat) ^ ?l" using b(2) by (metis of_nat_less_iff of_nat_numeral of_nat_power)
  then show "of_int n < (2 :: rat) powi int ?l" using n by (metis power_int_of_nat)
qed

lemma expo_bounds:
  assumes "0 < x"
  shows "2 powi expo x \<le> x" "x < 2 powi (expo x + 1)"
proof -
  obtain p q where pq: "quotient_of x = (p, q)" by (cases "quotient_of x")
  have q: "0 < q" using quotient_of_denom_pos [OF pq] .
  have x: "x = of_int p / of_int q" by (rule quotient_of_div [OF pq])
  with assms q have p: "0 < p" by (simp add: zero_less_divide_iff)
  let ?a = "int (floorlog 2 (nat p))" and ?b = "int (floorlog 2 (nat q))"
  note P = nat_log_bounds [OF p] and Q = nat_log_bounds [OF q]
  have Q0: "(0 :: rat) < of_int q" using q by simp
  have "x < 2 powi ?a / 2 powi (?b - 1)"
    unfolding x using P(2) Q(1) Q0 by (intro frac_less) (use p in auto)
  then have up: "x < 2 powi (?a - ?b + 1)" by (simp add: power_int_diff power_int_add algebra_simps)
  have "2 powi (?a - 1) / 2 powi ?b \<le> x"
    unfolding x using P(1) Q(2) Q0 by (intro frac_le) (use p in auto)
  then have low: "2 powi (?a - ?b - 1) \<le> x" by (simp add: power_int_diff power_int_add algebra_simps)
  show "2 powi expo x \<le> x" "x < 2 powi (expo x + 1)"
    using up low by (auto simp: expo_def pq Let_def bitlen_def)
qed

lemma expo_mono:
  assumes "0 < x" "x \<le> y"
  shows "expo x \<le> expo y"
proof -
  have "(2 :: rat) powi expo x < 2 powi (expo y + 1)"
    using expo_bounds [of x] expo_bounds [of y] assms by linarith
  then have "expo x < expo y + 1" by (simp only: powi_less)
  then show ?thesis by simp
qed

subsection \<open>The rounding\<close>

lemma f64_zero [simp]: "f64 0 = 0"
  by (simp add: f64_def)

lemma f64_nonneg: "0 \<le> x \<Longrightarrow> 0 \<le> f64 x"
  by (simp add: f64_def half_even_nonneg)

lemma on_grid:
  assumes "x = of_int n * 2 powi e" "unit_exp x \<le> e"
  shows "f64 x = x"
proof (cases "x = 0")
  case False
  let ?u = "unit_exp x"
  have "(2 :: rat) powi e = 2 powi (e - ?u) * 2 powi ?u" by (simp add: power_int_diff)
  also have "(2 :: rat) powi (e - ?u) = of_int (2 ^ nat (e - ?u))" using assms(2) by (simp add: power_int_def)
  finally have e: "(2 :: rat) powi e = of_int (2 ^ nat (e - ?u)) * 2 powi ?u" .
  have "x / 2 powi ?u = of_int n * 2 powi e / 2 powi ?u" using assms(1) by simp
  then have "x / 2 powi ?u = of_int (n * 2 ^ nat (e - ?u))" unfolding e by simp
  then have "f64 x = x / 2 powi ?u * 2 powi ?u" using False by (simp only: f64_def half_even_int if_False)
  then show ?thesis by simp
qed simp

text \<open>Integers up to \<open>2 ^ 53\<close> are represented exactly.\<close>

lemma f64_int:
  assumes "0 \<le> n" "n \<le> 2 ^ 53"
  shows "f64 (of_int n) = of_int n"
proof (cases "n = 2 ^ 53")
  case True
  have "expo (2 ^ 53) \<le> 53"
    using expo_bounds(1) [of "2 ^ 53"] powi_le [of "expo (2 ^ 53)" 53] by simp
  with True show ?thesis by (intro on_grid [of _ "2 ^ 52" 1]) (simp_all add: unit_exp_def)
next
  case False
  show ?thesis
  proof (cases "n = 0")
    case n: False
    with assms have pos: "(0 :: rat) < of_int n" by simp
    have "(of_int n :: rat) < of_int (2 ^ 53)" using assms False by (simp del: of_int_power)
    with expo_bounds(1) [OF pos] have "(2 :: rat) powi expo (of_int n) < 2 powi 53" by simp
    then have "expo (of_int n) < 53" by (simp only: powi_less)
    with assms show ?thesis by (intro on_grid [of _ n 0]) (simp_all add: unit_exp_def)
  qed simp
qed

lemma f64_mono:
  assumes "0 \<le> x" "x \<le> y"
  shows "f64 x \<le> f64 y"
proof (cases "x = 0")
  case True
  with assms show ?thesis by (simp add: f64_nonneg)
next
  case False
  with assms have x: "0 < x" and y: "0 < y" by simp_all
  let ?u = "unit_exp x" and ?v = "unit_exp y"
  have uv: "?u \<le> ?v" using expo_mono [OF x assms(2)] x y by (simp add: unit_exp_def)
  show ?thesis
  proof (cases "?u = ?v")
    case True
    have "x / 2 powi ?u \<le> y / 2 powi ?u" using assms(2) by (simp add: divide_right_mono)
    from half_even_mono [OF this] show ?thesis
      using x y True by (simp add: f64_def mult_right_mono)
  next
    case False
    with uv have v: "?v = expo y - 52" "?u < ?v" using y unfolding unit_exp_def by linarith+
    let ?w = "?u + 53"
    have "x < 2 powi (expo x + 1)" using x by (rule expo_bounds)
    also have "\<dots> \<le> 2 powi ?w" using x by (intro power_int_increasing) (simp_all add: unit_exp_def)
    finally have "x / 2 powi ?u \<le> of_int (2 ^ 53)" by (simp add: power_int_add divide_le_eq mult.commute)
    from half_even_mono [OF this] have "half_even (x / 2 powi ?u) \<le> 2 ^ 53" by (simp only: half_even_int)
    then have "(of_int (half_even (x / 2 powi ?u)) :: rat) \<le> 2 ^ 53" by (metis of_int_le_iff of_int_numeral of_int_power)
    then have fx: "f64 x \<le> 2 powi ?w" using x by (simp add: f64_def power_int_add mult.commute)
    have "(2 :: rat) powi (?v + 52) \<le> y" using expo_bounds(1) [OF y] v by simp
    then have "of_int (2 ^ 52) \<le> y / 2 powi ?v" by (simp add: power_int_add le_divide_eq mult.commute)
    from half_even_mono [OF this] have "2 ^ 52 \<le> half_even (y / 2 powi ?v)" by (simp only: half_even_int)
    then have "2 ^ 52 \<le> (of_int (half_even (y / 2 powi ?v)) :: rat)" by (metis of_int_le_iff of_int_numeral of_int_power)
    then have fy: "2 powi (?v + 52) \<le> f64 y" using y by (simp add: f64_def power_int_add mult.commute)
    have "(2 :: rat) powi ?w \<le> 2 powi (?v + 52)" using v(2) by (intro power_int_increasing) simp_all
    with fx fy show ?thesis by linarith
  qed
qed

text \<open>The relative error of a normal number, and what is left for a subnormal one.\<close>

lemma f64_error:
  assumes "0 < x"
  shows "\<bar>f64 x - x\<bar> \<le> 2 powi unit_exp x / 2"
proof -
  let ?u = "(2 :: rat) powi unit_exp x"
  have "f64 x - x = (of_int (half_even (x / ?u)) - x / ?u) * ?u"
    using assms by (simp add: f64_def left_diff_distrib)
  then have "\<bar>f64 x - x\<bar> = \<bar>of_int (half_even (x / ?u)) - x / ?u\<bar> * ?u" by (simp add: abs_mult)
  also have "\<dots> \<le> 1 / 2 * ?u" by (intro mult_right_mono half_even_error) simp
  finally show ?thesis by simp
qed

definition ulp :: rat where "ulp = 2 powi (- 53)"
definition tiny :: rat where "tiny = 2 powi (- 1075)"

lemma ulp_bounds: "0 < ulp" "ulp \<le> 1 / 2"
  by (simp_all add: ulp_def)

lemma f64_normal:
  assumes "2 powi (- 1022) \<le> x \<or> x = 0"
  shows "f64 x \<le> (1 + ulp) * x"
proof (cases "x = 0")
  case False
  with assms have big: "2 powi (- 1022) \<le> x" by simp
  then have x: "0 < x" by (rule less_le_trans [rotated]) simp
  have "(2 :: rat) powi (- 1022) < 2 powi (expo x + 1)" using expo_bounds(2) [OF x] big by linarith
  then have "- 1022 < expo x + 1" by (simp only: powi_less)
  then have "unit_exp x = expo x - 52" using x by (simp add: unit_exp_def)
  then have "(2 :: rat) powi unit_exp x / 2 = 2 powi expo x * ulp"
    by (simp add: power_int_diff ulp_def)
  also have "\<dots> \<le> x * ulp" using expo_bounds(1) [OF x] by (intro mult_right_mono) (simp_all add: ulp_bounds less_imp_le)
  finally have "\<bar>f64 x - x\<bar> \<le> x * ulp" using f64_error [OF x] by linarith
  then have "f64 x \<le> x + x * ulp" by linarith
  moreover have "(1 + u) * x = x + x * u" for u by (simp add: algebra_simps)
  ultimately show ?thesis by (simp only:)
qed simp

lemma tiny_pos: "0 < tiny"
  by (simp only: tiny_def) (rule zero_less_power_int, simp)

lemma tiny_small: "16 * tiny \<le> ulp"
proof -
  have "16 * tiny = 2 powi (4 + (- 1075))" unfolding tiny_def by (subst power_int_add) simp_all
  also have "\<dots> \<le> ulp" by (simp only: ulp_def powi_le)
  finally show ?thesis .
qed

lemma f64_upper:
  assumes "0 \<le> x"
  shows "f64 x \<le> (1 + ulp) * x + tiny"
proof (cases "2 powi (- 1022) \<le> x \<or> x = 0")
  case True
  then have "f64 x \<le> (1 + ulp) * x" by (rule f64_normal)
  then show ?thesis using tiny_pos by linarith
next
  case False
  with assms have x: "0 < x" and small: "x < 2 powi (- 1022)" by linarith+
  have "(2 :: rat) powi expo x < 2 powi (- 1022)" using expo_bounds(1) [OF x] small by linarith
  then have "expo x < - 1022" by (simp only: powi_less)
  then have "unit_exp x = - 1074" using x by (simp add: unit_exp_def)
  then have "2 powi unit_exp x / 2 = (2 :: rat) powi (- 1074 - 1)" by (simp only: power_int_diff) simp
  then have "2 powi unit_exp x / 2 = tiny" by (simp add: tiny_def)
  with f64_error [OF x] have "\<bar>f64 x - x\<bar> \<le> tiny" by (simp only:)
  then have "f64 x \<le> x + tiny" by linarith
  moreover have "x \<le> (1 + ulp) * x" using x ulp_bounds(1) by (simp add: algebra_simps)
  ultimately show ?thesis by linarith
qed

end
