(* ===== verification/Rate_Limit.thy ===== *)
theory Rate_Limit
  imports Clock Float64 Http_Errors "HOL-Library.AList"
begin

section \<open>The rate limiter (\<^verbatim>\<open>internal/httpx/ratelimit.go\<close>)\<close>

text \<open>
  A token bucket per key. The Go map is an association list with distinct keys; \<open>now\<close> is the
  reading of the limiter's clock that \<open>Allow\<close> takes under its lock. The arithmetic is \<open>float64\<close>, one
  rounding per operation (no fused multiply-add, as on amd64).

  The refinement below says that pruning is invisible: a limiter that never drops a bucket gives
  the same answers. The bound counts what one key is allowed over any stretch of time.
\<close>

record bucket =
  b_tokens :: rat
  b_last :: instant

record limiter =
  l_buckets :: "(string \<times> bucket) list"
  l_burst :: rat
  l_perSecond :: rat

definition limiterPruneAbove :: nat where "limiterPruneAbove = 1024"

definition NewLimiter :: "int \<Rightarrow> limiter" where
  "NewLimiter perMinute =
     \<lparr>l_buckets = [], l_burst = f64 (of_int perMinute), l_perSecond = f64 (f64 (of_int perMinute) / 60)\<rparr>"

text \<open>\<open>Duration.Seconds\<close>: whole seconds and the rest, both truncated towards zero.\<close>

definition Seconds :: "int \<Rightarrow> rat" where
  "Seconds d =
     (let sec = sgn d * (\<bar>d\<bar> div second); nsec = sgn d * (\<bar>d\<bar> mod second)
      in f64 (f64 (of_int sec) + f64 (f64 (of_int nsec) / 10 ^ 9)))"

text \<open>What a bucket holds at \<open>now\<close>, before the cap.\<close>

definition refilled :: "rat \<Rightarrow> instant \<Rightarrow> bucket \<Rightarrow> rat" where
  "refilled perSecond now b = f64 (b_tokens b + f64 (Seconds (Sub now (b_last b)) * perSecond))"

definition prune :: "instant \<Rightarrow> limiter \<Rightarrow> limiter" where
  "prune now l = l\<lparr>l_buckets := filter (\<lambda>(_, b). \<not> l_burst l \<le> refilled (l_perSecond l) now b) (l_buckets l)\<rparr>"

definition Len :: "limiter \<Rightarrow> nat" where
  "Len l = length (l_buckets l)"

text \<open>Spending a token of the bucket that is there or has just been made.\<close>

definition take_token :: "instant \<Rightarrow> rat \<Rightarrow> bool \<times> bucket" where
  "take_token now tokens =
     (if tokens < 1 then (False, \<lparr>b_tokens = tokens, b_last = now\<rparr>)
      else (True, \<lparr>b_tokens = f64 (tokens - 1), b_last = now\<rparr>))"

definition spend :: "rat \<Rightarrow> rat \<Rightarrow> instant \<Rightarrow> bucket \<Rightarrow> bool \<times> bucket" where
  "spend burst perSecond now b = take_token now (min burst (refilled perSecond now b))"

definition Allow :: "instant \<Rightarrow> string \<Rightarrow> limiter \<Rightarrow> bool \<times> limiter" where
  "Allow now key l =
     (let (b, l1) = (case map_of (l_buckets l) key of
            Some b \<Rightarrow> (b, l)
          | None \<Rightarrow> (\<lparr>b_tokens = l_burst l, b_last = now\<rparr>,
                     if limiterPruneAbove \<le> Len l then prune now l else l));
          (ok, b') = spend (l_burst l1) (l_perSecond l1) now b
      in (ok, l1\<lparr>l_buckets := AList.update key b' (l_buckets l1)\<rparr>))"

text \<open>Calls in the order the lock admits them.\<close>

fun allows :: "(instant \<times> string) list \<Rightarrow> limiter \<Rightarrow> bool list \<times> limiter" where
  "allows [] l = ([], l)"
| "allows ((now, key) # cs) l =
     (case Allow now key l of (ok, l1) \<Rightarrow> case allows cs l1 of (oks, l2) \<Rightarrow> (ok # oks, l2))"

subsection \<open>The address counted against\<close>

definition last_index :: "char \<Rightarrow> string \<Rightarrow> nat option" where
  "last_index c s = (if c \<in> set s then Some (length s - 1 - length (takeWhile (\<lambda>x. x \<noteq> c) (rev s))) else None)"

definition first_index :: "char \<Rightarrow> string \<Rightarrow> nat option" where
  "first_index c s = (if c \<in> set s then Some (length (takeWhile (\<lambda>x. x \<noteq> c) s)) else None)"

text \<open>\<open>net.SplitHostPort\<close>: the host, or nothing when the address has no port or is malformed.\<close>

definition SplitHost :: "string \<Rightarrow> string option" where
  "SplitHost hostport =
     (case last_index (CHR '':'') hostport of
        None \<Rightarrow> None
      | Some i \<Rightarrow>
          if hostport \<noteq> [] \<and> hd hostport = CHR ''['' then
            (case first_index (CHR '']'') hostport of
               None \<Rightarrow> None
             | Some e \<Rightarrow>
                 if e + 1 \<noteq> i then None
                 else if CHR ''['' \<in> set (tl hostport) \<or> CHR '']'' \<in> set (drop (e + 1) hostport) then None
                 else Some (drop 1 (take e hostport)))
          else
            let host = take i hostport
            in if CHR '':'' \<in> set host then None
               else if CHR ''['' \<in> set hostport \<or> CHR '']'' \<in> set hostport then None
               else Some host)"

definition ClientKey :: "string \<Rightarrow> string" where
  "ClientKey remoteAddr = (case SplitHost remoteAddr of None \<Rightarrow> remoteAddr | Some host \<Rightarrow> host)"

subsection \<open>The middleware\<close>

text \<open>What the limiter decides about a request: it goes on, or is answered with this code.\<close>

definition RateLimitBy :: "instant \<Rightarrow> string option \<Rightarrow> limiter \<Rightarrow> code option \<times> limiter" where
  "RateLimitBy now key l =
     (case key of
        None \<Rightarrow> (Some CodeInternal, l)
      | Some k \<Rightarrow> (case Allow now k l of (ok, l') \<Rightarrow> (if ok then None else Some CodeRateLimited, l')))"

definition RateLimit :: "instant \<Rightarrow> string \<Rightarrow> limiter \<Rightarrow> code option \<times> limiter" where
  "RateLimit now remoteAddr = RateLimitBy now (Some (ClientKey remoteAddr))"

subsection \<open>Refilling\<close>

lemma Seconds_nonneg_eq:
  assumes "0 \<le> d"
  shows "Seconds d = f64 (f64 (of_int (d div second)) + f64 (f64 (of_int (d mod second)) / 10 ^ 9))"
  using assms by (cases "d = 0") (simp_all add: Seconds_def)

lemma fraction_exact: "f64 (of_int (d mod second)) = of_int (d mod second)"
  using pos_mod_bound [of second d] by (intro f64_int) simp_all

lemma Seconds_nonneg: "0 \<le> d \<Longrightarrow> 0 \<le> Seconds d"
  by (simp add: Seconds_nonneg_eq fraction_exact f64_nonneg pos_imp_zdiv_nonneg_iff)

lemma Seconds_mono:
  assumes "0 \<le> d" "d \<le> d'" "d' < 2 ^ 63"
  shows "Seconds d \<le> Seconds d'"
proof -
  define part where "part x = f64 (of_int (x mod second) / 10 ^ 9)" for x
  have one: "part x \<le> 1" for x
  proof -
    have "of_int (x mod second) / 10 ^ 9 \<le> (1 :: rat)" using pos_mod_bound [of second x] by simp
    then have "part x \<le> f64 1" unfolding part_def by (intro f64_mono) simp_all
    also have "f64 1 = 1" using f64_int [of 1] by simp
    finally show ?thesis .
  qed
  have part0: "0 \<le> part x" for x by (simp add: part_def f64_nonneg)
  have "d div second \<le> d' div second" using assms(2) by (simp add: zdiv_mono1)
  then consider "d div second = d' div second" "d mod second \<le> d' mod second" | "d div second + 1 \<le> d' div second"
    using assms(2) div_mult_mod_eq [of d second] div_mult_mod_eq [of d' second] by fastforce
  then have "of_int (d div second) + part d \<le> of_int (d' div second) + part d'"
  proof cases
    case 1
    have "part d \<le> part d'"
      unfolding part_def by (intro f64_mono divide_right_mono) (use 1 in simp_all)
    with 1 show ?thesis by simp
  next
    case 2
    then have "(of_int (d div second + 1) :: rat) \<le> of_int (d' div second)" by (simp only: of_int_le_iff)
    with one [of d] part0 [of d'] show ?thesis by simp
  qed
  moreover have "f64 (of_int (x div second)) = of_int (x div second)" if "0 \<le> x" "x \<le> d'" for x
  proof (rule f64_int)
    have "x div second \<le> 2 ^ 63 div second" using that assms(3) by (intro zdiv_mono1) simp_all
    then show "x div second \<le> 2 ^ 53" by simp
  qed (use that in \<open>simp add: pos_imp_zdiv_nonneg_iff\<close>)
  then have "Seconds x = f64 (of_int (x div second) + part x)" if "0 \<le> x" "x \<le> d'" for x
    using that unfolding Seconds_nonneg_eq [OF that(1)] fraction_exact part_def by simp
  moreover have "0 \<le> (of_int (d div second) :: rat)" using assms(1) by (simp add: pos_imp_zdiv_nonneg_iff)
  ultimately show ?thesis
    using assms part0 [of d] by (simp add: f64_mono)
qed

lemma Sub_range: "Sub a b < 2 ^ 63"
  by (simp add: Sub_def)

lemma refilled_nonneg:
  "\<lbrakk>0 \<le> r; 0 \<le> b_tokens b; b_last b \<le> now\<rbrakk> \<Longrightarrow> 0 \<le> refilled r now b"
  by (simp add: refilled_def f64_nonneg Seconds_nonneg Sub_nonneg)

lemma refilled_mono:
  assumes "0 \<le> r" "0 \<le> b_tokens b" "b_last b \<le> now" "now \<le> now'"
  shows "refilled r now b \<le> refilled r now' b"
proof -
  have "Seconds (Sub now (b_last b)) \<le> Seconds (Sub now' (b_last b))"
    using assms by (intro Seconds_mono Sub_nonneg Sub_mono Sub_range) auto
  then have "f64 (Seconds (Sub now (b_last b)) * r) \<le> f64 (Seconds (Sub now' (b_last b)) * r)"
    using assms by (intro f64_mono mult_right_mono) (simp_all add: Seconds_nonneg Sub_nonneg)
  then show ?thesis
    unfolding refilled_def using assms by (intro f64_mono add_nonneg_nonneg f64_nonneg)
      (simp_all add: Seconds_nonneg Sub_nonneg)
qed

lemma Seconds_0 [simp]: "Seconds 0 = 0"
  by (simp add: Seconds_def)

lemma refilled_at_once: "refilled r now \<lparr>b_tokens = t, b_last = now\<rparr> = f64 t"
  by (simp add: refilled_def)

lemma spend_bucket:
  assumes "spend B r now b = (ok, b')" "0 \<le> r" "0 \<le> b_tokens b" "b_last b \<le> now" "0 \<le> B"
  shows "0 \<le> b_tokens b'" "b_last b' = now"
proof -
  have "0 \<le> min B (refilled r now b)" using refilled_nonneg [OF assms(2-4)] assms(5) by simp
  then show "0 \<le> b_tokens b'" "b_last b' = now"
    using assms(1) by (auto simp: spend_def take_token_def not_less intro!: f64_nonneg split: if_splits)
qed

subsection \<open>A bucket of one's own\<close>

text \<open>
  The abstract limiter of one key: a bucket that is full when it is first used, is never dropped
  and is shared with nobody.
\<close>

fun spends :: "rat \<Rightarrow> rat \<Rightarrow> instant list \<Rightarrow> bucket option \<Rightarrow> bool list" where
  "spends B r [] ob = []"
| "spends B r (now # ts) ob =
     (case spend B r now (case ob of Some b \<Rightarrow> b | None \<Rightarrow> \<lparr>b_tokens = B, b_last = now\<rparr>) of
        (ok, b') \<Rightarrow> ok # spends B r ts (Some b'))"

definition of_key :: "string \<Rightarrow> (instant \<times> string) list \<Rightarrow> 'a list \<Rightarrow> 'a list" where
  "of_key k cs xs = map snd (filter (\<lambda>(c, _). snd c = k) (zip cs xs))"

lemma of_key_Cons [simp]:
  "of_key k [] xs = []" "of_key k (c # cs) (x # xs) = (if snd c = k then x # of_key k cs xs else of_key k cs xs)"
  by (simp_all add: of_key_def)

text \<open>The limiter's table beside the bucket of one key: the same bucket, or none where the key's own
  is full by now.\<close>

definition stands_for :: "string \<Rightarrow> instant \<Rightarrow> limiter \<Rightarrow> bucket option \<Rightarrow> bool" where
  "stands_for k now l ob \<longleftrightarrow> map_of (l_buckets l) k = ob \<or>
     map_of (l_buckets l) k = None \<and> (\<exists>b. ob = Some b \<and> l_burst l \<le> refilled (l_perSecond l) now b)"

definition tidy :: "instant \<Rightarrow> limiter \<Rightarrow> bool" where
  "tidy now l \<longleftrightarrow> distinct (map fst (l_buckets l)) \<and>
     (\<forall>(k, b) \<in> set (l_buckets l). 0 \<le> b_tokens b \<and> b_last b \<le> now)"

definition limits :: "limiter \<Rightarrow> bool" where
  "limits l \<longleftrightarrow> 0 \<le> l_burst l \<and> 0 \<le> l_perSecond l \<and> f64 (l_burst l) = l_burst l"

lemma map_of_prune:
  assumes "distinct (map fst (l_buckets l))"
  shows "map_of (l_buckets (prune now l)) k =
     (case map_of (l_buckets l) k of None \<Rightarrow> None
      | Some b \<Rightarrow> if l_burst l \<le> refilled (l_perSecond l) now b then None else Some b)"
proof -
  have "map_of (filter (\<lambda>(_, b). P b) xs) k = (case map_of xs k of None \<Rightarrow> None | Some b \<Rightarrow> if P b then Some b else None)"
    if "distinct (map fst xs)" for P and xs :: "(string \<times> bucket) list"
    using that by (induction xs) (auto split: option.splits dest!: map_of_SomeD intro: rev_image_eqI)
  from this [OF assms, of "\<lambda>b. \<not> l_burst l \<le> refilled (l_perSecond l) now b"] show ?thesis
    by (simp add: prune_def split: option.splits)
qed

text \<open>What \<open>Allow\<close> does: the table it leaves, and the bucket it spends from.\<close>

lemma Allow_run:
  assumes "Allow now key l = (ok, l')" "distinct (map fst (l_buckets l))"
  obtains l1 b b' where "l1 = l \<or> l1 = prune now l \<and> map_of (l_buckets l) key = None"
    "b = (case map_of (l_buckets l) key of Some b \<Rightarrow> b | None \<Rightarrow> \<lparr>b_tokens = l_burst l, b_last = now\<rparr>)"
    "spend (l_burst l) (l_perSecond l) now b = (ok, b')"
    "l' = l1\<lparr>l_buckets := AList.update key b' (l_buckets l1)\<rparr>"
proof -
  let ?b = "case map_of (l_buckets l) key of Some b \<Rightarrow> b | None \<Rightarrow> \<lparr>b_tokens = l_burst l, b_last = now\<rparr>"
  let ?l1 = "if map_of (l_buckets l) key = None \<and> limiterPruneAbove \<le> Len l then prune now l else l"
  have "l_burst ?l1 = l_burst l" "l_perSecond ?l1 = l_perSecond l" by (simp_all add: prune_def)
  with assms(1) show thesis
    by (intro that [of ?l1 ?b "snd (spend (l_burst l) (l_perSecond l) now ?b)"])
      (auto simp: Allow_def Let_def split: option.splits prod.splits if_splits)
qed

lemma tidy_mono: "tidy t l \<Longrightarrow> t \<le> t' \<Longrightarrow> tidy t' l"
  by (auto simp: tidy_def)

lemma prune_limits [simp]: "l_burst (prune now l) = l_burst l" "l_perSecond (prune now l) = l_perSecond l"
  by (simp_all add: prune_def)

lemma Allow_tidy:
  assumes "Allow now key l = (ok, l')" "tidy t l" "t \<le> now" "limits l"
  shows "tidy now l'" "l_burst l' = l_burst l" "l_perSecond l' = l_perSecond l" "limits l'"
proof -
  have dist: "distinct (map fst (l_buckets l))" using assms(2) by (simp add: tidy_def)
  from Allow_run [OF assms(1) dist] obtain l1 b b' where l1: "l1 = l \<or> l1 = prune now l \<and> map_of (l_buckets l) key = None"
    and b: "b = (case map_of (l_buckets l) key of Some b \<Rightarrow> b | None \<Rightarrow> \<lparr>b_tokens = l_burst l, b_last = now\<rparr>)"
    and run: "spend (l_burst l) (l_perSecond l) now b = (ok, b')"
    and l': "l' = l1\<lparr>l_buckets := AList.update key b' (l_buckets l1)\<rparr>" .
  have old: "tidy now l" using assms(2,3) by (rule tidy_mono)
  have "0 \<le> b_tokens b" "b_last b \<le> now"
    using old b assms(4) by (auto simp: tidy_def limits_def split: option.splits dest!: map_of_SomeD)
  then have b': "0 \<le> b_tokens b'" "b_last b' = now" using spend_bucket [OF run] assms(4) by (simp_all add: limits_def)
  have l1': "tidy now l1" "l_burst l1 = l_burst l" "l_perSecond l1 = l_perSecond l"
    using l1 old by (auto simp: tidy_def prune_def distinct_map_filter)
  show "l_burst l' = l_burst l" "l_perSecond l' = l_perSecond l" using l' l1' by simp_all
  with assms(4) show "limits l'" by (simp add: limits_def)
  have dist': "distinct (map fst (l_buckets l'))" "distinct (map fst (l_buckets l1))"
    using l1'(1) by (simp_all add: l' tidy_def distinct_update)
  have "0 \<le> b_tokens x \<and> b_last x \<le> now" if "(k, x) \<in> set (l_buckets l')" for k x
  proof -
    have "map_of (l_buckets l') k = Some x" using that dist'(1) by simp
    then have "x = b' \<or> (k, x) \<in> set (l_buckets l1)"
      by (auto simp: l' update_conv' split: if_splits dest: map_of_SomeD)
    with b' l1'(1) show ?thesis by (auto simp: tidy_def)
  qed
  with dist'(1) show "tidy now l'" by (auto simp: tidy_def)
qed

lemma stands_for_later:
  assumes "stands_for k t l ob" "t \<le> now" "limits l" "\<And>b. ob = Some b \<Longrightarrow> 0 \<le> b_tokens b \<and> b_last b \<le> t"
  shows "stands_for k now l ob"
  using assms refilled_mono [of "l_perSecond l" _ t now]
  by (force simp: stands_for_def limits_def)

lemma spend_full:
  assumes "B \<le> refilled r now b" "f64 B = B"
  shows "spend B r now b = spend B r now \<lparr>b_tokens = B, b_last = now\<rparr>"
  using assms by (simp add: spend_def refilled_at_once)

lemma Allow_stands_for:
  assumes "Allow now key l = (ok, l')" "tidy t l" "t \<le> now" "limits l" "stands_for k now l ob"
  shows "key = k \<Longrightarrow> \<exists>b'. spend (l_burst l) (l_perSecond l) now
       (case ob of Some b \<Rightarrow> b | None \<Rightarrow> \<lparr>b_tokens = l_burst l, b_last = now\<rparr>) = (ok, b') \<and> stands_for k now l' (Some b')"
    and "key \<noteq> k \<Longrightarrow> stands_for k now l' ob"
proof -
  have dist: "distinct (map fst (l_buckets l))" using assms(2) by (simp add: tidy_def)
  from Allow_run [OF assms(1) dist] obtain l1 b b' where l1: "l1 = l \<or> l1 = prune now l \<and> map_of (l_buckets l) key = None"
    and b: "b = (case map_of (l_buckets l) key of Some b \<Rightarrow> b | None \<Rightarrow> \<lparr>b_tokens = l_burst l, b_last = now\<rparr>)"
    and run: "spend (l_burst l) (l_perSecond l) now b = (ok, b')"
    and l': "l' = l1\<lparr>l_buckets := AList.update key b' (l_buckets l1)\<rparr>" .
  have look: "map_of (l_buckets l') k = (if k = key then Some b' else map_of (l_buckets l1) k)"
    by (simp add: l' update_conv')
  have full: "f64 (l_burst l) = l_burst l" using assms(4) by (simp add: limits_def)
  show "\<exists>b'. spend (l_burst l) (l_perSecond l) now
       (case ob of Some b \<Rightarrow> b | None \<Rightarrow> \<lparr>b_tokens = l_burst l, b_last = now\<rparr>) = (ok, b') \<and> stands_for k now l' (Some b')"
    if "key = k"
  proof (intro exI [of _ b'] conjI)
    show "stands_for k now l' (Some b')" using look that by (simp add: stands_for_def)
    show "spend (l_burst l) (l_perSecond l) now
       (case ob of Some b \<Rightarrow> b | None \<Rightarrow> \<lparr>b_tokens = l_burst l, b_last = now\<rparr>) = (ok, b')"
      using assms(5) b run that spend_full [OF _ full] by (auto simp: stands_for_def)
  qed
  show "stands_for k now l' ob" if "key \<noteq> k"
  proof -
    have "map_of (l_buckets l1) k = map_of (l_buckets l) k \<or> map_of (l_buckets l1) k = None \<and>
      (\<exists>x. map_of (l_buckets l) k = Some x \<and> l_burst l \<le> refilled (l_perSecond l) now x)"
      using l1 map_of_prune [OF dist, of now k] by (auto split: option.splits if_splits)
    with assms(5) look that Allow_tidy(2,3) [OF assms(1-4)] show ?thesis by (auto simp: stands_for_def)
  qed
qed

lemma allows_refine:
  assumes "allows cs l = (oks, l')" "tidy t l" "limits l" "stands_for k t l ob" "sorted (t # map fst cs)"
    and "\<And>b. ob = Some b \<Longrightarrow> 0 \<le> b_tokens b \<and> b_last b \<le> t"
  shows "of_key k cs oks = spends (l_burst l) (l_perSecond l) (map fst (filter (\<lambda>c. snd c = k) cs)) ob"
  using assms
proof (induction cs arbitrary: l oks t ob)
  case (Cons c cs)
  obtain now key where c: "c = (now, key)" by (cases c)
  obtain ok l1 oks1 where step: "Allow now key l = (ok, l1)" "allows cs l1 = (oks1, l')" "oks = ok # oks1"
    using Cons.prems(1) c by (auto split: prod.splits)
  have le: "t \<le> now" and later: "sorted (now # map fst cs)" using Cons.prems(5) c by simp_all
  note tidy = Allow_tidy [OF step(1) Cons.prems(2) le Cons.prems(3)]
  have here: "stands_for k now l ob" using stands_for_later [OF Cons.prems(4) le Cons.prems(3) Cons.prems(6)] by simp
  note sim = Allow_stands_for [OF step(1) Cons.prems(2) le Cons.prems(3) here]
  show ?case
  proof (cases "key = k")
    case True
    let ?b = "case ob of Some b \<Rightarrow> b | None \<Rightarrow> \<lparr>b_tokens = l_burst l, b_last = now\<rparr>"
    obtain b' where b': "spend (l_burst l) (l_perSecond l) now ?b = (ok, b')" "stands_for k now l1 (Some b')"
      using sim(1) True by blast
    have "0 \<le> b_tokens ?b" "b_last ?b \<le> now" using Cons.prems(3,6) le by (force simp: limits_def split: option.splits)+
    with spend_bucket [OF b'(1)] Cons.prems(3) have "0 \<le> b_tokens b' \<and> b_last b' \<le> now" by (simp add: limits_def)
    with Cons.IH [OF step(2) tidy(1,4) b'(2) later] True tidy(2,3) c step(3) b'(1) show ?thesis by simp
  next
    case False
    have "0 \<le> b_tokens b \<and> b_last b \<le> now" if "ob = Some b" for b using Cons.prems(6) [OF that] le by simp
    with Cons.IH [OF step(2) tidy(1,4) _ later] sim(2) False tidy(2,3) c step(3) show ?thesis by simp
  qed
qed simp

lemma NewLimiter_limits:
  assumes "1 \<le> pm" "pm \<le> 2 ^ 53"
  shows "limits (NewLimiter pm)" "l_burst (NewLimiter pm) = of_int pm" "tidy t (NewLimiter pm)"
    "stands_for k t (NewLimiter pm) None"
proof -
  have "f64 (of_int pm) = of_int pm" using assms by (intro f64_int) simp_all
  with assms show "limits (NewLimiter pm)" "l_burst (NewLimiter pm) = of_int pm" "tidy t (NewLimiter pm)"
    "stands_for k t (NewLimiter pm) None"
    by (simp_all add: limits_def NewLimiter_def tidy_def stands_for_def f64_nonneg)
qed

lemma own_buckets:
  assumes "allows cs (NewLimiter pm) = (oks, l)" "1 \<le> pm" "pm \<le> 2 ^ 53" "sorted (map fst cs)"
  shows "of_key k cs oks = spends (of_int pm) (l_perSecond (NewLimiter pm)) (map fst (filter (\<lambda>c. snd c = k) cs)) None"
proof -
  let ?t = "case cs of [] \<Rightarrow> 0 | c # _ \<Rightarrow> fst c"
  have "sorted (?t # map fst cs)" using assms(4) by (cases cs) auto
  from allows_refine [OF assms(1) NewLimiter_limits(3,1,4) [OF assms(2,3)] this] show ?thesis
    by (simp add: NewLimiter_limits(2) [OF assms(2,3)])
qed

text \<open>C18: The limiter refines a table in which every key has a bucket of its own that is never
  dropped: what one key is answered depends on its own calls only. Pruning, which happens whenever
  a new key finds the table large, changes no answer, to the last bit of the arithmetic, as long
  as the clock does not go back.\<close>

theorem limiter_refines_own_buckets:
  assumes "allows cs (NewLimiter pm) = (oks, l)" "1 \<le> pm" "pm \<le> 2 ^ 53" "sorted (map fst cs)"
  shows "of_key k cs oks = spends (of_int pm) (l_perSecond (NewLimiter pm)) (map fst (filter (\<lambda>c. snd c = k) cs)) None"
  using assms by (rule own_buckets)

theorem limiter_refines_own_buckets_witness:
  "of_key ''a'' [(0, ''a''), (0, ''b''), (0, ''a'')] (fst (allows [(0, ''a''), (0, ''b''), (0, ''a'')] (NewLimiter 1))) =
     [True, False]"
proof -
  let ?cs = "[(0, ''a''), (0, ''b''), (0, ''a'')] :: (instant \<times> string) list"
  have "of_key ''a'' ?cs (fst (allows ?cs (NewLimiter 1))) =
      spends (of_int 1) (l_perSecond (NewLimiter 1)) (map fst (filter (\<lambda>c. snd c = ''a'') ?cs)) None"
    by (rule limiter_refines_own_buckets [OF surjective_pairing]) simp_all
  also have "\<dots> = [True, False]"
    using f64_int [of 1] by (simp add: spend_def take_token_def refilled_at_once)
  finally show ?thesis .
qed

subsection \<open>How much one key is allowed\<close>

lemma Seconds_upper:
  assumes "0 \<le> d" "d < 2 ^ 63"
  shows "Seconds d \<le> (1 + ulp) ^ 2 * (of_int d / 10 ^ 9) + 4 * tiny"
proof -
  let ?s = "of_int (d div second) :: rat" and ?n = "of_int (d mod second) / 10 ^ 9 :: rat"
  have d: "of_int d / 10 ^ 9 = ?s + ?n"
  proof -
    have "(of_int d :: rat) = of_int (d div second) * of_int second + of_int (d mod second)"
      by (simp only: of_int_mult [symmetric] of_int_add [symmetric] div_mult_mod_eq)
    then show ?thesis by (subst \<open>of_int d = _\<close>) (simp add: add_divide_distrib)
  qed
  have s: "0 \<le> ?s" "f64 ?s = ?s"
  proof -
    have "d div second \<le> 2 ^ 63 div second" using assms by (intro zdiv_mono1) simp_all
    then show "f64 ?s = ?s" using assms by (intro f64_int) (simp_all add: pos_imp_zdiv_nonneg_iff)
  qed (use assms in \<open>simp add: pos_imp_zdiv_nonneg_iff\<close>)
  have n: "0 \<le> ?n" by simp
  note u = ulp_bounds
  have "f64 ?n \<le> (1 + ulp) * ?n + tiny" using n by (rule f64_upper)
  then have inner: "?s + f64 ?n \<le> (1 + ulp) * (of_int d / 10 ^ 9) + tiny"
    using mult_nonneg_nonneg [of ulp ?s] s(1) u unfolding d distrib_left distrib_right by linarith
  have "Seconds d = f64 (?s + f64 ?n)" unfolding Seconds_nonneg_eq [OF assms(1)] fraction_exact s(2) ..
  also have "\<dots> \<le> (1 + ulp) * (?s + f64 ?n) + tiny" using s(1) n by (intro f64_upper add_nonneg_nonneg f64_nonneg)
  also have "\<dots> \<le> (1 + ulp) * ((1 + ulp) * (of_int d / 10 ^ 9) + tiny) + tiny"
    using inner u by (intro add_right_mono mult_left_mono) simp_all
  also have "\<dots> = (1 + ulp) ^ 2 * (of_int d / 10 ^ 9) + (2 + ulp) * tiny"
    by (simp add: power2_eq_square algebra_simps)
  also have "\<dots> \<le> (1 + ulp) ^ 2 * (of_int d / 10 ^ 9) + 4 * tiny"
    using u tiny_pos by (intro add_left_mono mult_right_mono) simp_all
  finally show ?thesis .
qed

text \<open>One call: what is left, and the token taken, come from what was there and what flowed in.\<close>

definition drift :: "rat \<Rightarrow> rat" where
  "drift pm = 5 * ulp * pm"

lemma f64_product_upper:
  assumes "0 \<le> x" "x \<le> a + 4 * tiny" "0 \<le> a" "0 \<le> r" "r \<le> p" "p \<le> pm" "1 \<le> pm"
  shows "f64 (x * r) \<le> (1 + ulp) * a * p + 9 * tiny * pm"
proof -
  define E where "E = 1 + ulp"
  have E: "0 \<le> E" "E \<le> 2" using ulp_bounds by (simp_all add: E_def)
  have "x * r \<le> (a + 4 * tiny) * p" using assms tiny_pos by (intro mult_mono) simp_all
  then have "E * (x * r) \<le> E * ((a + 4 * tiny) * p)" using E by (intro mult_left_mono)
  also have "E * ((a + 4 * tiny) * p) = E * a * p + E * (4 * tiny) * p" by (simp add: algebra_simps)
  finally have "E * (x * r) \<le> E * a * p + E * (4 * tiny) * p" .
  moreover have "E * (4 * tiny) * p \<le> 2 * (4 * tiny) * pm" using E assms tiny_pos by (intro mult_mono) simp_all
  moreover have "tiny \<le> tiny * pm" using assms(7) tiny_pos by simp
  moreover have "f64 (x * r) \<le> E * (x * r) + tiny" unfolding E_def using assms by (intro f64_upper) simp
  ultimately show ?thesis unfolding E_def by linarith
qed

lemma refilled_upper:
  assumes "0 \<le> b_tokens b" "b_tokens b \<le> pm" "b_last b \<le> now" "1 \<le> pm" "0 \<le> r" "r \<le> (1 + ulp) * (pm / 60)"
  shows "refilled r now b \<le> b_tokens b + (1 + ulp) ^ 5 * (pm / 60) * (of_int (now - b_last b) / 10 ^ 9) + 3 * ulp * pm"
proof -
  define D :: rat where "D = of_int (now - b_last b) / 10 ^ 9"
  define E where "E = 1 + ulp"
  define x where "x = Seconds (Sub now (b_last b))"
  define y where "y = f64 (x * r)"
  have E: "0 \<le> E" "E \<le> 2" using ulp_bounds by (simp_all add: E_def)
  have D: "0 \<le> D" using assms(3) by (simp add: D_def)
  have x0: "0 \<le> x" using assms(3) by (simp add: x_def Seconds_nonneg Sub_nonneg)
  have "of_int (Sub now (b_last b)) / 10 ^ 9 \<le> D"
    unfolding D_def using Sub_le [OF assms(3)] by (intro divide_right_mono) (simp_all only: of_int_le_iff, simp)
  then have "E ^ 2 * (of_int (Sub now (b_last b)) / 10 ^ 9) \<le> E ^ 2 * D" by (intro mult_left_mono) simp_all
  then have x: "x \<le> E ^ 2 * D + 4 * tiny"
    using Seconds_upper [OF Sub_nonneg [OF assms(3)] Sub_range] unfolding x_def E_def by linarith
  have "E * (pm / 60) \<le> 2 * (pm / 60)" using E assms(4) by (intro mult_right_mono) simp_all
  then have p: "E * (pm / 60) \<le> pm" using assms(4) by simp
  have "y \<le> E * (E ^ 2 * D) * (E * (pm / 60)) + 9 * tiny * pm"
    unfolding y_def using f64_product_upper [OF x0 x _ assms(5) _ p assms(4)] D assms(6) by (simp add: E_def)
  then have y: "y \<le> E ^ 4 * (pm / 60) * D + 9 * tiny * pm" by (simp add: power2_eq_square power4_eq_xxxx algebra_simps)
  have y0: "0 \<le> y" unfolding y_def using x0 assms(5) by (intro f64_nonneg) simp
  have "E * (b_tokens b + y) = b_tokens b + ulp * b_tokens b + E * y" by (simp add: E_def algebra_simps)
  moreover have "ulp * b_tokens b \<le> ulp * pm" using assms(2) ulp_bounds by (intro mult_left_mono) simp_all
  moreover have "E * y \<le> E * (E ^ 4 * (pm / 60) * D + 9 * tiny * pm)" using y E by (intro mult_left_mono)
  moreover have "E * (E ^ 4 * (pm / 60) * D + 9 * tiny * pm) = E ^ 5 * (pm / 60) * D + E * (9 * tiny * pm)"
    by (simp add: distrib_left power_numeral_odd power_numeral_even mult.assoc)
  moreover have "E * (9 * tiny * pm) \<le> 2 * (9 * tiny * pm)" using E assms(4) tiny_pos by (intro mult_right_mono) simp_all
  moreover have "tiny \<le> tiny * pm" using assms(4) tiny_pos by simp
  moreover have "16 * tiny * pm \<le> ulp * pm" using tiny_small assms(4) by (intro mult_right_mono) simp_all
  moreover have "0 \<le> tiny * pm" using assms(4) tiny_pos by simp
  moreover have "f64 (b_tokens b + y) \<le> E * (b_tokens b + y) + tiny"
    unfolding E_def using assms(1) y0 by (intro f64_upper) simp
  moreover have "refilled r now b = f64 (b_tokens b + y)" by (simp add: refilled_def x_def y_def)
  ultimately have "refilled r now b \<le> b_tokens b + E ^ 5 * (pm / 60) * D + 3 * ulp * pm" by linarith
  then show ?thesis by (simp only: D_def E_def)
qed

lemma spend_upper:
  assumes "spend pm r now b = (ok, b')" "1 \<le> pm" "f64 pm = pm" "min pm (refilled r now b) \<le> t"
  shows "b_tokens b' + (if ok then 1 else 0) \<le> t + 2 * ulp * pm" "b_tokens b' \<le> pm"
proof -
  define m where "m = min pm (refilled r now b)"
  have m: "m \<le> pm" "m \<le> t" using assms(4) by (simp_all add: m_def)
  have ulp: "0 \<le> ulp * pm" using assms(2) ulp_bounds by simp
  have less: "f64 (m - 1) \<le> m - 1 + 2 * ulp * pm" "f64 (m - 1) \<le> pm" if "1 \<le> m"
  proof -
    have "f64 (m - 1) \<le> (1 + ulp) * (m - 1) + tiny" using that by (intro f64_upper) simp
    moreover have "ulp * (m - 1) \<le> ulp * pm" using m ulp_bounds by (intro mult_left_mono) simp_all
    moreover have "ulp * 1 \<le> ulp * pm" using assms(2) ulp_bounds by (intro mult_left_mono) simp_all
    moreover have "(1 + ulp) * (m - 1) = (m - 1) + ulp * (m - 1)" by (simp add: algebra_simps)
    ultimately have "f64 (m - 1) \<le> (m - 1) + ulp * pm + ulp * pm" using tiny_small tiny_pos by linarith
    then show "f64 (m - 1) \<le> m - 1 + 2 * ulp * pm" by simp
    have "f64 (m - 1) \<le> f64 pm" using that m by (intro f64_mono) simp_all
    with assms(3) show "f64 (m - 1) \<le> pm" by simp
  qed
  have "(ok, b') = take_token now m" using assms(1) by (simp add: spend_def m_def)
  then show "b_tokens b' + (if ok then 1 else 0) \<le> t + 2 * ulp * pm" "b_tokens b' \<le> pm"
    using less m ulp by (auto simp: take_token_def not_less split: if_splits)
qed

definition flow :: "rat \<Rightarrow> rat" where
  "flow pm = (1 + ulp) ^ 5 * (pm / 60) / 10 ^ 9"

definition granted :: "bool list \<Rightarrow> rat" where
  "granted oks = of_nat (length (filter id oks))"

lemma granted_simps [simp]: "granted [] = 0" "granted (ok # oks) = (if ok then 1 else 0) + granted oks"
  by (simp_all add: granted_def)

lemma spends_upper:
  assumes "1 \<le> pm" "f64 pm = pm" "0 \<le> r" "r \<le> (1 + ulp) * (pm / 60)"
    and "sorted (b_last b # ts)" "0 \<le> b_tokens b" "b_tokens b \<le> pm" "\<forall>x \<in> set ts. x \<le> t1" "b_last b \<le> t1"
  shows "granted (spends pm r ts (Some b)) \<le> b_tokens b + flow pm * of_int (t1 - b_last b) + of_nat (length ts) * drift pm"
  using assms(5-)
proof (induction ts arbitrary: b)
  case Nil
  have "0 \<le> flow pm * of_int (t1 - b_last b)"
    using Nil assms(1) ulp_bounds by (intro mult_nonneg_nonneg) (simp_all add: flow_def)
  with Nil show ?case by simp
next
  case (Cons now ts)
  obtain ok b' where run: "spend pm r now b = (ok, b')" by (cases "spend pm r now b")
  have last: "b_last b \<le> now" "now \<le> t1" using Cons.prems by simp_all
  have pm0: "0 \<le> pm" using assms(1) by simp
  note new = spend_bucket [OF run assms(3) Cons.prems(2) last(1) pm0]
  let ?t = "b_tokens b + flow pm * of_int (now - b_last b) + 3 * ulp * pm"
  have "refilled r now b \<le> ?t"
    using refilled_upper [OF Cons.prems(2,3) last(1) assms(1,3,4)] by (simp add: flow_def)
  then have "min pm (refilled r now b) \<le> ?t" by simp
  note step = spend_upper [OF run assms(1,2) this]
  have "granted (spends pm r ts (Some b')) \<le> b_tokens b' + flow pm * of_int (t1 - now) + of_nat (length ts) * drift pm"
    using Cons.IH [of b'] Cons.prems new step(2) last by simp
  moreover have "flow pm * of_int (t1 - b_last b) = flow pm * of_int (t1 - now) + flow pm * of_int (now - b_last b)"
    by (simp add: algebra_simps)
  ultimately have "(if ok then 1 else 0) + granted (spends pm r ts (Some b')) \<le>
      b_tokens b + flow pm * of_int (t1 - b_last b) + of_nat (length ts) * drift pm + drift pm"
    using step(1) unfolding drift_def by linarith
  with run show ?case by (simp add: algebra_simps)
qed

text \<open>From any bucket at all: the first call finds at most \<open>pm\<close> tokens.\<close>

lemma spends_window:
  assumes "1 \<le> pm" "f64 pm = pm" "0 \<le> r" "r \<le> (1 + ulp) * (pm / 60)" "sorted (t0 # ts)" "\<forall>x \<in> set ts. x \<le> t1"
    and "t0 \<le> t1" "\<And>b. ob = Some b \<Longrightarrow> 0 \<le> b_tokens b \<and> b_last b \<le> t0"
  shows "granted (spends pm r ts ob) \<le> pm + flow pm * of_int (t1 - t0) + of_nat (length ts) * drift pm"
proof (cases ts)
  case Nil
  have "0 \<le> flow pm * of_int (t1 - t0)"
    using assms(1,7) ulp_bounds by (intro mult_nonneg_nonneg) (simp_all add: flow_def)
  with Nil assms(1) show ?thesis by simp
next
  case (Cons now rest)
  let ?b = "case ob of Some b \<Rightarrow> b | None \<Rightarrow> \<lparr>b_tokens = pm, b_last = now\<rparr>"
  obtain ok b' where run: "spend pm r now ?b = (ok, b')" by (cases "spend pm r now ?b")
  have now: "t0 \<le> now" "now \<le> t1" "sorted (now # rest)" using assms(5,6) Cons by simp_all
  have pm0: "0 \<le> pm" using assms(1) by simp
  have "0 \<le> b_tokens ?b" "b_last ?b \<le> now" using assms(8) pm0 now(1) by (force split: option.splits)+
  note new = spend_bucket [OF run assms(3) this pm0]
  note step = spend_upper [OF run assms(1,2) min.cobounded1]
  have "granted (spends pm r rest (Some b')) \<le> b_tokens b' + flow pm * of_int (t1 - now) + of_nat (length rest) * drift pm"
    using spends_upper [OF assms(1-4), of b' rest t1] new step(2) now assms(6) Cons by simp
  moreover have "flow pm * of_int (t1 - now) \<le> flow pm * of_int (t1 - t0)"
    using now(1) assms(1) ulp_bounds by (intro mult_left_mono) (simp_all add: flow_def)
  moreover have "0 \<le> ulp * pm" using pm0 ulp_bounds by simp
  ultimately have "(if ok then 1 else 0) + granted (spends pm r rest (Some b')) \<le>
      pm + flow pm * of_int (t1 - t0) + of_nat (length rest) * drift pm + drift pm"
    using step(1) unfolding drift_def by linarith
  with Cons run show ?thesis by (simp add: algebra_simps)
qed

lemma allows_tidy:
  assumes "allows cs l = (oks, l')" "tidy t l" "limits l" "sorted (t # map fst cs)" "\<forall>c \<in> set cs. fst c \<le> t1" "t \<le> t1"
  shows "tidy t1 l'" "limits l'" "l_burst l' = l_burst l" "l_perSecond l' = l_perSecond l"
  using assms
proof (atomize(full), induction cs arbitrary: l oks t)
  case Nil
  then show ?case by (auto intro: tidy_mono)
next
  case (Cons c cs)
  obtain now key where c: "c = (now, key)" by (cases c)
  obtain ok l1 oks1 where step: "Allow now key l = (ok, l1)" "allows cs l1 = (oks1, l')"
    using Cons.prems(1) c by (auto split: prod.splits)
  have "t \<le> now" using Cons.prems(4) c by simp
  note tidy = Allow_tidy [OF step(1) Cons.prems(2) this Cons.prems(3)]
  from Cons.IH [OF step(2) tidy(1,4)] Cons.prems(4-6) c tidy(2,3) show ?case by simp
qed

lemma NewLimiter_rate:
  assumes "1 \<le> pm" "pm \<le> 2 ^ 53"
  shows "0 \<le> l_perSecond (NewLimiter pm)" "l_perSecond (NewLimiter pm) \<le> (1 + ulp) * (of_int pm / 60)"
proof -
  have pm: "f64 (of_int pm) = of_int pm" using assms by (intro f64_int) simp_all
  have "(2 :: rat) powi (- 1022) \<le> 2 powi (- 6)" by (simp only: powi_le)
  also have "\<dots> \<le> of_int pm / 60" using assms(1) by (simp add: le_divide_eq)
  finally have "f64 (of_int pm / 60) \<le> (1 + ulp) * (of_int pm / 60)" by (intro f64_normal disjI1)
  with pm assms show "0 \<le> l_perSecond (NewLimiter pm)" "l_perSecond (NewLimiter pm) \<le> (1 + ulp) * (of_int pm / 60)"
    by (simp_all add: NewLimiter_def f64_nonneg)
qed

text \<open>C19: No key is allowed more than its burst and its rate. In any window of time, whatever happened
  before it and whatever other keys do, the calls of one key that are allowed are at most
  \<open>perMinute\<close>, plus \<open>perMinute\<close> for every minute of the window, plus the rounding of the
  arithmetic: a factor of \<open>(1 + 2 powi (- 53)) ^ 5\<close> on the flow and \<open>5 * 2 powi (- 53) * perMinute\<close> for each
  call in the window.\<close>

theorem limiter_bound:
  assumes "allows before (NewLimiter pm) = (oks0, l0)" "allows window l0 = (oks, l1)" "1 \<le> pm" "pm \<le> 2 ^ 53"
    and "sorted (map fst before @ t0 # map fst window)" "\<forall>c \<in> set window. fst c \<le> t1" "t0 \<le> t1"
  shows "granted (of_key k window oks) \<le> of_int pm +
     (1 + 2 powi (- 53)) ^ 5 * (of_int pm / 60) * (of_int (t1 - t0) / 10 ^ 9) +
     of_nat (length window) * (5 * 2 powi (- 53) * of_int pm)"
proof -
  let ?new = "NewLimiter pm"
  let ?t = "case before of [] \<Rightarrow> t0 | c # _ \<Rightarrow> fst c"
  have "sorted (?t # map fst before)" "\<forall>c \<in> set before. fst c \<le> t0" "?t \<le> t0"
    using assms(5) by (cases before; auto simp: sorted_append)+
  note l0 = allows_tidy [OF assms(1) NewLimiter_limits(3,1) [OF assms(3,4)] this]
  have lim: "l_burst l0 = of_int pm" "l_perSecond l0 = l_perSecond ?new"
    using l0(3,4) NewLimiter_limits(2) [OF assms(3,4)] by simp_all
  let ?ob = "map_of (l_buckets l0) k"
  have fine: "0 \<le> b_tokens b \<and> b_last b \<le> t0" if "?ob = Some b" for b
    using that l0(1) by (auto simp: tidy_def dest: map_of_SomeD)
  have sorted: "sorted (t0 # map fst window)" using assms(5) by (simp add: sorted_append)
  let ?ts = "map fst (filter (\<lambda>c. snd c = k) window)"
  have "of_key k window oks = spends (l_burst l0) (l_perSecond l0) ?ts ?ob"
    by (rule allows_refine [OF assms(2) l0(1,2) _ sorted fine]) (simp_all add: stands_for_def)
  moreover have "granted (spends (of_int pm) (l_perSecond ?new) ?ts ?ob) \<le>
      of_int pm + flow (of_int pm) * of_int (t1 - t0) + of_nat (length ?ts) * drift (of_int pm)"
  proof (rule spends_window [OF _ _ NewLimiter_rate [OF assms(3,4)] _ _ assms(7) fine])
    show "sorted (t0 # ?ts)" using sorted by (auto simp: sorted_filter)
    show "f64 (of_int pm) = of_int pm" using assms(3,4) by (intro f64_int) simp_all
  qed (use assms(3,6) in \<open>auto simp flip: of_int_le_iff\<close>)
  moreover have "of_nat (length ?ts) * drift (of_int pm) \<le> of_nat (length window) * drift (of_int pm)"
    using assms(3) ulp_bounds by (intro mult_right_mono) (simp_all add: drift_def)
  ultimately have "granted (of_key k window oks) \<le>
      of_int pm + flow (of_int pm) * of_int (t1 - t0) + of_nat (length window) * drift (of_int pm)"
    unfolding lim by simp
  then show ?thesis by (simp add: flow_def drift_def ulp_def)
qed

theorem limiter_bound_witness:
  "length (filter id (of_key ''a'' [(0, ''a''), (5, ''a''), (5, ''b''), (9, ''a'')]
     (fst (allows [(0, ''a''), (5, ''a''), (5, ''b''), (9, ''a'')] (NewLimiter 1))))) \<le> 1"
proof -
  let ?w = "[(0, ''a''), (5, ''a''), (5, ''b''), (9, ''a'')] :: (instant \<times> string) list"
  have "granted (of_key ''a'' ?w (fst (allows ?w (NewLimiter 1)))) \<le> of_int 1 +
     (1 + 2 powi (- 53)) ^ 5 * (of_int 1 / 60) * (of_int (9 - 0) / 10 ^ 9) +
     of_nat (length ?w) * (5 * 2 powi (- 53) * of_int 1)"
    by (rule limiter_bound [of "[]" 1 "[]" "NewLimiter 1" _ _ "snd (allows ?w (NewLimiter 1))" 0 9])
      (simp_all del: allows.simps(2))
  also have "\<dots> < 2" by (simp add: power_numeral_odd power_numeral_even)
  finally show ?thesis unfolding granted_def by simp
qed

text \<open>A key that was not seen before is never refused its burst: the first \<open>perMinute\<close> calls are
  allowed, however close together and however many other keys there are.\<close>

theorem limiter_grants_burst:
  assumes "allows cs (NewLimiter pm) = (oks, l)" "1 \<le> pm" "pm \<le> 2 ^ 53" "sorted (map fst cs)"
    and "int (length (filter (\<lambda>c. snd c = k) cs)) \<le> pm"
  shows "\<forall>ok \<in> set (of_key k cs oks). ok"
proof -
  let ?r = "l_perSecond (NewLimiter pm)"
  have exact: "f64 (of_int n) = of_int n" if "0 \<le> n" "n \<le> pm" for n using that assms(3) by (intro f64_int) simp_all
  have r: "0 \<le> ?r" using NewLimiter_rate(1) [OF assms(2,3)] .
  have take: "\<exists>b'. spend (of_int pm) ?r now b = (True, b') \<and> b_last b' = now \<and> of_int (n - 1) \<le> b_tokens b'"
    if "1 \<le> n" "n \<le> pm" "of_int n \<le> b_tokens b" "b_last b \<le> now" for n now b
  proof -
    let ?y = "f64 (Seconds (Sub now (b_last b)) * ?r)"
    have "0 \<le> ?y" using that(4) r by (intro f64_nonneg) (simp add: Seconds_nonneg Sub_nonneg)
    then have "f64 (of_int n) \<le> refilled ?r now b"
      unfolding refilled_def using that by (intro f64_mono) simp_all
    then have m: "of_int n \<le> min (of_int pm) (refilled ?r now b)" using exact [of n] that by simp
    then have "f64 (of_int (n - 1)) \<le> f64 (min (of_int pm) (refilled ?r now b) - 1)"
      using that(1) by (intro f64_mono) simp_all
    moreover have "(1 :: rat) \<le> of_int n" using that(1) by simp
    ultimately show ?thesis using m exact [of "n - 1"] that by (simp add: spend_def take_token_def)
  qed
  have all: "\<forall>ok \<in> set (spends (of_int pm) ?r ts (Some b)). ok"
    if "sorted (b_last b # ts)" "of_int n \<le> b_tokens b" "int (length ts) \<le> n" "n \<le> pm" for ts b n
    using that
  proof (induction ts arbitrary: b n)
    case (Cons now ts)
    obtain b' where b': "spend (of_int pm) ?r now b = (True, b')" "b_last b' = now" "of_int (n - 1) \<le> b_tokens b'"
      using take [of n b now] Cons.prems by auto
    with Cons.IH [of b' "n - 1"] Cons.prems show ?case by simp
  qed simp
  let ?ts = "map fst (filter (\<lambda>c. snd c = k) cs)"
  have "spends (of_int pm) ?r ?ts None = spends (of_int pm) ?r ?ts (Some \<lparr>b_tokens = of_int pm, b_last = hd ?ts\<rparr>)"
    by (cases ?ts) simp_all
  moreover have "sorted (hd ?ts # ?ts)" if "?ts \<noteq> []" using that assms(4) sorted_filter [of fst cs "\<lambda>c. snd c = k"] by (cases ?ts) auto
  ultimately have "\<forall>ok \<in> set (spends (of_int pm) ?r ?ts None). ok"
    using all [of "\<lparr>b_tokens = of_int pm, b_last = hd ?ts\<rparr>" ?ts pm] assms(5) by (cases "?ts = []") simp_all
  then show ?thesis
    using own_buckets [OF assms(1-4)] by simp
qed

theorem limiter_grants_burst_witness:
  "\<forall>ok \<in> set (of_key ''a'' [(0, ''a''), (0, ''b''), (3, ''a'')]
     (fst (allows [(0, ''a''), (0, ''b''), (3, ''a'')] (NewLimiter 2)))). ok"
  by (rule limiter_grants_burst [where pm = 2, OF surjective_pairing]) (simp_all del: allows.simps(2))

end
