(* ===== verification/Gateway.thy ===== *)
theory Gateway
  imports System Auth_Store Rate_Limit
begin

section \<open>The way in: credentials, limits, routes (\<^verbatim>\<open>internal/httpapi\<close>)\<close>

text \<open>
  The handlers of the credential routes (\<^verbatim>\<open>auth_handlers.go\<close>), the city search, the bearer
  middleware (\<^verbatim>\<open>RequireTraveller\<close>, \<^verbatim>\<open>auth/bearer.go\<close>), and \<open>Mount\<close>: which route counts against which
  limiter, which needs a credential, and in which order the layers wrap a handler. A request is
  what arrives: the \<open>Authorization\<close> header, the remote address and one endpoint with its decoded
  body. The log's calls of \<open>System\<close> carry the traveller on their context; here the middleware puts it
  there, whatever the caller wrote.

  The mail sender's answer is ignored by the code, so a mail is an output: the address and the
  code. Request ids, the access log, compression and the time limit wrap all of this and change no state of
  it; they are in \<open>Middleware\<close>.
\<close>

subsection \<open>The bearer token\<close>

definition Bearer :: "string \<Rightarrow> string option" where
  "Bearer authorization =
     (case Cut (CHR '' '') authorization of
        None \<Rightarrow> None
      | Some (scheme, token) \<Rightarrow>
          if map ascii_lower scheme \<noteq> ''bearer'' then None
          else if token = [] \<or> list_ex (\<lambda>c. c = CHR '' '' \<or> c = CHR 0x09) token then None
          else Some token)"

subsection \<open>The credential handlers\<close>

record auth_world =
  aw_sha :: "nat list \<Rightarrow> hash"
  aw_upper :: "string \<Rightarrow> string"
  aw_TTL :: int
  aw_now :: instant
  aw_later :: instant
  aw_token :: "nat list option"
  aw_code :: "nat option"

record credentials =
  crd_Email :: string
  crd_Code :: string
  crd_Invite :: string

type_synonym cred_handler = "auth_state \<Rightarrow> response \<times> auth_state"

definition auth_down :: "auth_error \<Rightarrow> bool" where
  "auth_down err = (case err of ErrStorage e \<Rightarrow> db_down e | _ \<Rightarrow> False)"

definition writeAuthFailure :: "auth_error \<Rightarrow> response" where
  "writeAuthFailure err =
     (case err of
        InvalidFieldError field \<Rightarrow> WriteFieldError field
      | ErrEmailTaken \<Rightarrow> WriteError CodeConflict
      | ErrInviteSpent \<Rightarrow> WriteFieldError ''invite''
      | ErrBadCredentials \<Rightarrow> WriteError CodeUnauthenticated
      | ErrNoSession \<Rightarrow> WriteError CodeUnauthenticated
      | _ \<Rightarrow> if auth_down err then WriteError CodeTimeout else WriteError CodeInternal)"

definition cred_body :: "error + 'b \<Rightarrow> ('b \<Rightarrow> cred_handler) \<Rightarrow> cred_handler" where
  "cred_body b k s = (case b of Inl e \<Rightarrow> (WriteErrorFor e, s) | Inr x \<Rightarrow> k x s)"

definition cred_answer :: "(auth_state, 'a) act \<Rightarrow> ('a \<Rightarrow> response) \<Rightarrow> cred_handler" where
  "cred_answer m ok s = (case m s of (Inl e, s') \<Rightarrow> (writeAuthFailure e, s') | (Inr x, s') \<Rightarrow> (ok x, s'))"

definition register_handler :: "auth_world \<Rightarrow> error + credentials \<Rightarrow> cred_handler" where
  "register_handler w b = cred_body b (\<lambda>c.
     cred_answer (RegisterWithInvite (aw_sha w) (aw_upper w) AuthStore (crd_Email c) (crd_Invite c))
       (\<lambda>tr. WriteJSON 201 (TravellerBody (trv_ID tr) (trv_Email tr) (trv_Name tr))))"

definition signIn_handler :: "auth_world \<Rightarrow> error + credentials \<Rightarrow> cred_handler" where
  "signIn_handler w b = cred_body b (\<lambda>c.
     cred_answer (SignInWithCode (aw_sha w) AuthStore (aw_TTL w) (aw_now w) (aw_later w) (aw_token w)
         (crd_Email c) (crd_Code c))
       (\<lambda>issued. WriteJSON 201 (SessionBody (iss_Token issued) (iss_ExpiresAt issued))))"

text \<open>The answer, and the mail that was handed to the sender.\<close>

definition requestCode_handler ::
  "auth_world \<Rightarrow> error + string \<Rightarrow> auth_state \<Rightarrow> (response \<times> (string \<times> string) option) \<times> auth_state" where
  "requestCode_handler w b s =
     (case b of
        Inl e \<Rightarrow> ((WriteErrorFor e, None), s)
      | Inr email \<Rightarrow>
          (case RequestCode (aw_sha w) AuthStore (aw_now w) (aw_later w) (aw_code w) email s of
             (Inl e, s') \<Rightarrow> ((writeAuthFailure e, None), s')
           | (Inr send, s') \<Rightarrow>
               ((WriteJSON 202 NoBody, map_option (\<lambda>(code, tr). (trv_Email tr, code)) send), s')))"

definition revokeScope :: "string \<Rightarrow> bool option" where
  "revokeScope scope =
     (if scope = [] \<or> scope = ''this'' then Some False else if scope = ''all'' then Some True else None)"

definition revokeSession_handler :: "auth_world \<Rightarrow> id option \<Rightarrow> string \<Rightarrow> string \<Rightarrow> cred_handler" where
  "revokeSession_handler w traveller scope authorization s =
     (case traveller of
        None \<Rightarrow> (WriteError CodeInternal, s)
      | Some t \<Rightarrow>
          (case revokeScope scope of
             None \<Rightarrow> (WriteFieldError ''scope'', s)
           | Some True \<Rightarrow> cred_answer (RevokeEverySession AuthStore t) (\<lambda>_. WriteJSON 204 NoBody) s
           | Some False \<Rightarrow>
               (case Bearer authorization of
                  None \<Rightarrow> (WriteError CodeUnauthenticated, s)
                | Some token \<Rightarrow> cred_answer (RevokeSession (aw_sha w) AuthStore t token) (\<lambda>_. WriteJSON 204 NoBody) s)))"

subsection \<open>The city search\<close>

definition MaxCitySuggestions :: int where "MaxCitySuggestions = 8"

text \<open>\<open>finder\<close> is the geocoder; a search that was not answered is 503.\<close>

definition searchCities :: "(string \<Rightarrow> int \<Rightarrow> geocode_error + geo_city list) \<Rightarrow> string \<Rightarrow> response" where
  "searchCities finder query =
     (let q = TrimSpace query in
      if q = [] then WriteJSON 200 (CitiesBody [])
      else case finder q MaxCitySuggestions of
             Inl _ \<Rightarrow> WriteError CodeTimeout
           | Inr found \<Rightarrow> WriteJSON 200 (CitiesBody found))"

subsection \<open>The route table\<close>

datatype endpoint =
    RegisterRoute "error + credentials"
  | CodeRoute "error + string"
  | SignInRoute "error + credentials"
  | RevokeRoute string
  | SearchRoute string
  | LogRoute call

datatype limit = LimitCredential | LimitTraveller | LimitPublic

definition route_limit :: "endpoint \<Rightarrow> limit" where
  "route_limit ep =
     (case ep of RegisterRoute _ \<Rightarrow> LimitCredential | CodeRoute _ \<Rightarrow> LimitCredential
      | SignInRoute _ \<Rightarrow> LimitCredential | LogRoute (PublicCall _) \<Rightarrow> LimitPublic | _ \<Rightarrow> LimitTraveller)"

definition route_auth :: "endpoint \<Rightarrow> bool" where
  "route_auth ep =
     (case ep of RegisterRoute _ \<Rightarrow> False | CodeRoute _ \<Rightarrow> False | SignInRoute _ \<Rightarrow> False
      | LogRoute (PublicCall _) \<Rightarrow> False | _ \<Rightarrow> True)"

definition route_noStore :: "endpoint \<Rightarrow> bool" where
  "route_noStore ep =
     (case ep of SearchRoute _ \<Rightarrow> True
      | LogRoute (BeginMediaCall _) \<Rightarrow> True | LogRoute (MintCall _) \<Rightarrow> True
      | LogRoute (PublicCall _) \<Rightarrow> True | _ \<Rightarrow> False)"

text \<open>\<open>auth.WithTraveller\<close>: the middleware's traveller is the one the handler reads.\<close>

fun WithTraveller :: "id option \<Rightarrow> call \<Rightarrow> call" where
  "WithTraveller t (ReadLogbook rq) = ReadLogbook (rq\<lparr>rq_Traveller := t\<rparr>)"
| "WithTraveller t (PutTripCall rq') = PutTripCall (rq'\<lparr>rq_Traveller := t\<rparr>)"
| "WithTraveller t (DeleteTripCall rq) = DeleteTripCall (rq\<lparr>rq_Traveller := t\<rparr>)"
| "WithTraveller t (PatchMe rq1) = PatchMe (rq1\<lparr>rq_Traveller := t\<rparr>)"
| "WithTraveller t (PutCityCall rq2) = PutCityCall (rq2\<lparr>rq_Traveller := t\<rparr>)"
| "WithTraveller t (PutPlaceCall rq3) = PutPlaceCall (rq3\<lparr>rq_Traveller := t\<rparr>)"
| "WithTraveller t (RemovePlaceCall rq) = RemovePlaceCall (rq\<lparr>rq_Traveller := t\<rparr>)"
| "WithTraveller t (PutWalkCall rq4) = PutWalkCall (rq4\<lparr>rq_Traveller := t\<rparr>)"
| "WithTraveller t (PutPhotoCall rq5) = PutPhotoCall (rq5\<lparr>rq_Traveller := t\<rparr>)"
| "WithTraveller t (DeletePhotoCall rq) = DeletePhotoCall (rq\<lparr>rq_Traveller := t\<rparr>)"
| "WithTraveller t (SnoozeCall rq6) = SnoozeCall (rq6\<lparr>rq_Traveller := t\<rparr>)"
| "WithTraveller t (RefileCall rq7) = RefileCall (rq7\<lparr>rq_Traveller := t\<rparr>)"
| "WithTraveller t (SetShareCall rq8) = SetShareCall (rq8\<lparr>rq_Traveller := t\<rparr>)"
| "WithTraveller t (NewShareCall rq1) = NewShareCall (rq1\<lparr>rq_Traveller := t\<rparr>)"
| "WithTraveller t (StopShareCall rq) = StopShareCall (rq\<lparr>rq_Traveller := t\<rparr>)"
| "WithTraveller t (BeginMediaCall rq9) = BeginMediaCall (rq9\<lparr>rq_Traveller := t\<rparr>)"
| "WithTraveller t (CommitMediaCall rq) = CommitMediaCall (rq\<lparr>rq_Traveller := t\<rparr>)"
| "WithTraveller t (MintCall rq10) = MintCall (rq10\<lparr>rq_Traveller := t\<rparr>)"
| "WithTraveller t (PublicCall token) = PublicCall token"

subsection \<open>The server\<close>

record server =
  sv_auth :: auth_state
  sv_AuthLimit :: limiter
  sv_TravellerLimit :: limiter
  sv_PublicLimit :: limiter

record server_world =
  sw_log :: world
  sw_cred :: auth_world
  sw_clock :: instant
  sw_finder :: "string \<Rightarrow> int \<Rightarrow> geocode_error + geo_city list"

record arrival =
  in_Authorization :: string
  in_RemoteAddr :: string
  in_Endpoint :: endpoint

record reply =
  re_Answer :: answer
  re_Mail :: "(string \<times> string) option"
  re_NoStore :: bool

definition plain :: "response \<Rightarrow> answer \<times> (string \<times> string) option" where
  "plain r = (Answered r, None)"

type_synonym layer = "server \<Rightarrow> (answer \<times> (string \<times> string) option) \<times> server"

text \<open>The log's handlers work on the tables of the log, under the same schedule of faults.\<close>

definition run_log :: "world \<Rightarrow> call \<Rightarrow> layer" where
  "run_log w c s =
     (let a = sv_auth s in
      case serve w c \<lparr>tx_db = au_log (au_db a), tx_faults = au_faults a\<rparr> of
        (ans, t) \<Rightarrow>
          ((ans, None), s\<lparr>sv_auth := a\<lparr>au_db := (au_db a)\<lparr>au_log := tx_db t\<rparr>, au_faults := tx_faults t\<rparr>\<rparr>))"

definition on_auth :: "(auth_state \<Rightarrow> response \<times> auth_state) \<Rightarrow> layer" where
  "on_auth h s = (case h (sv_auth s) of (r, a) \<Rightarrow> (plain r, s\<lparr>sv_auth := a\<rparr>))"

definition handle :: "server_world \<Rightarrow> arrival \<Rightarrow> id option \<Rightarrow> layer" where
  "handle w rq t =
     (case in_Endpoint rq of
        RegisterRoute b \<Rightarrow> on_auth (register_handler (sw_cred w) b)
      | CodeRoute b \<Rightarrow> (\<lambda>s. case requestCode_handler (sw_cred w) b (sv_auth s) of
            ((r, mail), a) \<Rightarrow> ((Answered r, mail), s\<lparr>sv_auth := a\<rparr>))
      | SignInRoute b \<Rightarrow> on_auth (signIn_handler (sw_cred w) b)
      | RevokeRoute scope \<Rightarrow> on_auth (revokeSession_handler (sw_cred w) t scope (in_Authorization rq))
      | SearchRoute q \<Rightarrow> (\<lambda>s. (plain (searchCities (sw_finder w) q), s))
      | LogRoute c \<Rightarrow> run_log (sw_log w) (WithTraveller t c))"

definition limited :: "code option \<Rightarrow> layer \<Rightarrow> layer" where
  "limited refused k s = (case refused of Some c \<Rightarrow> (plain (WriteError c), s) | None \<Rightarrow> k s)"

definition limit_layer :: "server_world \<Rightarrow> arrival \<Rightarrow> id option \<Rightarrow> layer \<Rightarrow> layer" where
  "limit_layer w rq t k s =
     (case route_limit (in_Endpoint rq) of
        LimitTraveller \<Rightarrow> (case RateLimitBy (sw_clock w) t (sv_TravellerLimit s) of
          (refused, l) \<Rightarrow> limited refused k (s\<lparr>sv_TravellerLimit := l\<rparr>))
      | LimitPublic \<Rightarrow> (case RateLimit (sw_clock w) (in_RemoteAddr rq) (sv_PublicLimit s) of
          (refused, l) \<Rightarrow> limited refused k (s\<lparr>sv_PublicLimit := l\<rparr>))
      | LimitCredential \<Rightarrow> (case RateLimit (sw_clock w) (in_RemoteAddr rq) (sv_AuthLimit s) of
          (refused, l) \<Rightarrow> limited refused k (s\<lparr>sv_AuthLimit := l\<rparr>)))"

definition RequireTraveller :: "auth_world \<Rightarrow> string \<Rightarrow> (id option \<Rightarrow> layer) \<Rightarrow> layer" where
  "RequireTraveller w authorization k s =
     (case Bearer authorization of
        None \<Rightarrow> (plain (WriteError CodeUnauthenticated), s)
      | Some token \<Rightarrow>
          (case Authenticate (aw_sha w) AuthStore (aw_TTL w) (aw_now w) token (sv_auth s) of
             (Inl e, a) \<Rightarrow>
               (plain (if e = ErrNoSession then WriteError CodeUnauthenticated
                       else if auth_down e then WriteError CodeTimeout else WriteError CodeInternal),
                s\<lparr>sv_auth := a\<rparr>)
           | (Inr tr, a) \<Rightarrow> k (Some (trv_ID tr)) (s\<lparr>sv_auth := a\<rparr>)))"

text \<open>The layers, outermost first: the capability headers, the credential, the limiter, the handler.\<close>

definition Mount :: "server_world \<Rightarrow> arrival \<Rightarrow> server \<Rightarrow> reply \<times> server" where
  "Mount w rq s =
     (let inner = (\<lambda>t. limit_layer w rq t (handle w rq t)) in
      case (if route_auth (in_Endpoint rq) then RequireTraveller (sw_cred w) (in_Authorization rq) inner s
            else inner None s) of
        ((ans, mail), s') \<Rightarrow>
          (\<lparr>re_Answer = ans, re_Mail = mail, re_NoStore = route_noStore (in_Endpoint rq)\<rparr>, s'))"

end
