(* ===== verification/Auth_Memory.thy ===== *)
theory Auth_Memory
  imports Auth_Contract "HOL-Library.AList"
begin

section \<open>The in-memory twin (\<^verbatim>\<open>internal/auth/memory.go\<close>)\<close>

text \<open>
  \<open>auth.Memory\<close> with its maps as association lists (a Go map has no order, and no operation here
  depends on one: travellers have distinct ids, and the loops over sessions touch each on its own).
  \<open>lower\<close> is \<open>strings.ToLower\<close>. \<open>FailWith\<close> is used to stand for a dependency that is down, so the error
  it keeps is one of the storage. Go's \<open>+\<close> on the attempts of a code is on a 64-bit \<open>int\<close> and a
  service call never takes it past six.
\<close>

record auth_memory =
  m_travellers :: "(string \<times> traveller) list"
  m_sessions :: "(hash \<times> session \<times> traveller) list"
  m_codes :: "(id \<times> sign_in_code) list"
  m_invites :: "(hash \<times> bool) list"
  m_standing :: "(hash \<times> bool) list"
  m_touched :: "string list"
  m_next :: nat
  m_failWith :: "db_error option"
  m_clock :: "instant option"

definition NewAuthMemory :: auth_memory where
  "NewAuthMemory =
     \<lparr>m_travellers = [], m_sessions = [], m_codes = [], m_invites = [], m_standing = [], m_touched = [],
      m_next = 0, m_failWith = None, m_clock = None\<rparr>"

definition SetClock :: "instant option \<Rightarrow> auth_memory \<Rightarrow> auth_memory" where
  "SetClock now m = m\<lparr>m_clock := now\<rparr>"

definition FailWith :: "db_error option \<Rightarrow> auth_memory \<Rightarrow> auth_memory" where
  "FailWith err m = m\<lparr>m_failWith := err\<rparr>"

definition ClearCode :: "(string \<Rightarrow> string) \<Rightarrow> string \<Rightarrow> auth_memory \<Rightarrow> auth_memory" where
  "ClearCode lower email m =
     (case map_of (m_travellers m) (lower email) of
        None \<Rightarrow> m
      | Some held \<Rightarrow> m\<lparr>m_codes := AList.delete (trv_ID held) (m_codes m)\<rparr>)"

definition TravellerIDs :: "auth_memory \<Rightarrow> id list" where
  "TravellerIDs m = map (\<lambda>(_, tr). trv_ID tr) (m_travellers m)"

definition StoredTokenHashes :: "auth_memory \<Rightarrow> hash list" where
  "StoredTokenHashes m = map (\<lambda>(_, ses, _). ses_TokenHash ses) (m_sessions m)"

definition memory_now :: "auth_memory \<Rightarrow> instant" where
  "memory_now m = (case m_clock m of None \<Rightarrow> zero_time | Some now \<Rightarrow> now)"

definition memoryUUID :: "nat \<Rightarrow> id" where
  "memoryUUID n = ''00000000-0000-4000-8000-'' @ zero_padded 12 n"

definition failing :: "(auth_memory, 'a) act \<Rightarrow> (auth_memory, 'a) act" where
  "failing op m = (case m_failWith m of None \<Rightarrow> op m | Some e \<Rightarrow> (Inl (ErrStorage e), m))"

definition MemCreateTraveller :: "(string \<Rightarrow> string) \<Rightarrow> string \<Rightarrow> (auth_memory, traveller) act" where
  "MemCreateTraveller lower email = failing (\<lambda>m.
     let key = lower email in
     case map_of (m_travellers m) key of
       Some _ \<Rightarrow> (Inl ErrEmailTaken, m)
     | None \<Rightarrow>
         (let n = m_next m + 1; tr = \<lparr>trv_ID = memoryUUID n, trv_Email = email, trv_Name = None\<rparr>
          in (Inr tr, m\<lparr>m_next := n, m_travellers := AList.update key tr (m_travellers m)\<rparr>)))"

definition MemTravellerByEmail :: "(string \<Rightarrow> string) \<Rightarrow> string \<Rightarrow> (auth_memory, traveller) act" where
  "MemTravellerByEmail lower email = failing (\<lambda>m.
     (case map_of (m_travellers m) (lower email) of None \<Rightarrow> Inl ErrUnknownTraveller | Some tr \<Rightarrow> Inr tr, m))"

text \<open>\<open>string(rune(n))\<close>: the UTF-8 encoding of a code point, U+FFFD for a number that is none.\<close>

definition utf8 :: "nat \<Rightarrow> string" where
  "utf8 n =
     (if n < 128 then [char_of n]
      else if n < 2048 then [char_of (192 + n div 64), char_of (128 + n mod 64)]
      else if n \<ge> 1114112 \<or> 55296 \<le> n \<and> n < 57344 then map char_of [239, 191, 189 :: nat]
      else if n < 65536 then map char_of [224 + n div 4096, 128 + n div 64 mod 64, 128 + n mod 64]
      else map char_of [240 + n div 262144, 128 + n div 4096 mod 64, 128 + n div 64 mod 64, 128 + n mod 64])"

definition MemCreateSession :: "id \<Rightarrow> hash \<Rightarrow> instant \<Rightarrow> (auth_memory, id) act" where
  "MemCreateSession t h expires = failing (\<lambda>m.
     let owner = (case List.find (\<lambda>(_, tr). trv_ID tr = t) (m_travellers m) of
                    None \<Rightarrow> \<lparr>trv_ID = [], trv_Email = [], trv_Name = None\<rparr> | Some (_, tr) \<Rightarrow> tr);
         i = CHR ''s'' # utf8 (97 + length (m_sessions m));
         ses = \<lparr>ses_ID = i, ses_TravellerID = t, ses_TokenHash = h, ses_LastUsedAt = memory_now m,
                ses_ExpiresAt = expires, ses_RevokedAt = None\<rparr>
     in (Inr i, m\<lparr>m_sessions := AList.update h (ses, owner) (m_sessions m)\<rparr>))"

definition MemSessionByTokenHash :: "hash \<Rightarrow> (auth_memory, session \<times> traveller) act" where
  "MemSessionByTokenHash h = failing (\<lambda>m.
     (case map_of (m_sessions m) h of None \<Rightarrow> Inl ErrNoSession | Some x \<Rightarrow> Inr x, m))"

definition MemTouchSession :: "id \<Rightarrow> id \<Rightarrow> instant \<Rightarrow> instant \<Rightarrow> (auth_memory, unit) act" where
  "MemTouchSession t sessionID used expires = failing (\<lambda>m.
     (Inr (), m\<lparr>m_touched := m_touched m @ [t @ ''/'' @ sessionID],
        m_sessions := map (\<lambda>(h, ses, tr). if ses_ID ses = sessionID
          then (h, ses\<lparr>ses_LastUsedAt := used, ses_ExpiresAt := expires\<rparr>, tr) else (h, ses, tr))
          (m_sessions m)\<rparr>))"

definition MemRevokeSession :: "id \<Rightarrow> hash \<Rightarrow> (auth_memory, bool) act" where
  "MemRevokeSession t h = failing (\<lambda>m.
     case map_of (m_sessions m) h of
       None \<Rightarrow> (Inr False, m)
     | Some (ses, tr) \<Rightarrow>
         if ses_TravellerID ses \<noteq> t \<or> ses_RevokedAt ses \<noteq> None then (Inr False, m)
         else (Inr True, m\<lparr>m_sessions :=
                AList.update h (ses\<lparr>ses_RevokedAt := Some (memory_now m)\<rparr>, tr) (m_sessions m)\<rparr>))"

definition MemRevokeEverySession :: "id \<Rightarrow> (auth_memory, int) act" where
  "MemRevokeEverySession t = failing (\<lambda>m.
     let live = (\<lambda>(h, ses, tr). ses_TravellerID ses = t \<and> ses_RevokedAt ses = None) in
     (Inr (int (length (filter live (m_sessions m)))),
      m\<lparr>m_sessions := map (\<lambda>x. if live x
          then (case x of (h, ses, tr) \<Rightarrow> (h, ses\<lparr>ses_RevokedAt := Some (memory_now m)\<rparr>, tr)) else x)
          (m_sessions m)\<rparr>))"

definition MemMintInvite :: "hash \<Rightarrow> auth_memory \<Rightarrow> auth_memory" where
  "MemMintInvite h m = m\<lparr>m_invites := AList.update h False (m_invites m)\<rparr>"

definition AcceptInvite :: "(nat list \<Rightarrow> hash) \<Rightarrow> (string \<Rightarrow> string) \<Rightarrow> string \<Rightarrow> auth_memory \<Rightarrow> auth_memory" where
  "AcceptInvite sha upper code m =
     m\<lparr>m_standing := AList.update (HashInvite sha upper code) True (m_standing m)\<rparr>"

definition MemSpendInvite :: "hash \<Rightarrow> (auth_memory, unit) act" where
  "MemSpendInvite h m =
     (if map_of (m_standing m) h = Some True then (Inr (), m)
      else case map_of (m_invites m) h of
             None \<Rightarrow> (Inl ErrInviteSpent, m)
           | Some spent \<Rightarrow> if spent then (Inl ErrInviteSpent, m)
                           else (Inr (), m\<lparr>m_invites := AList.update h True (m_invites m)\<rparr>))"

definition MemRecordInviteUser :: "hash \<Rightarrow> id \<Rightarrow> (auth_memory, unit) act" where
  "MemRecordInviteUser h t m = (Inr (), m)"

definition MemIssueCode :: "id \<Rightarrow> hash \<Rightarrow> instant \<Rightarrow> (auth_memory, unit) act" where
  "MemIssueCode t h expires m =
     (Inr (), m\<lparr>m_codes := AList.update t
        \<lparr>sic_Hash = h, sic_IssuedAt = memory_now m, sic_ExpiresAt = expires, sic_Attempts = 0\<rparr> (m_codes m)\<rparr>)"

definition MemCodeFor :: "id \<Rightarrow> (auth_memory, sign_in_code) act" where
  "MemCodeFor t m = (case map_of (m_codes m) t of None \<Rightarrow> Inl ErrNoCode | Some c \<Rightarrow> Inr c, m)"

definition MemCountAttempt :: "id \<Rightarrow> (auth_memory, int) act" where
  "MemCountAttempt t m =
     (case map_of (m_codes m) t of
        None \<Rightarrow> (Inl ErrNoCode, m)
      | Some c \<Rightarrow> let n = sic_Attempts c + 1 in
          (Inr n, m\<lparr>m_codes := AList.update t (c\<lparr>sic_Attempts := n\<rparr>) (m_codes m)\<rparr>))"

definition MemBurnCode :: "id \<Rightarrow> (auth_memory, unit) act" where
  "MemBurnCode t m = (Inr (), m\<lparr>m_codes := AList.delete t (m_codes m)\<rparr>)"

definition MemoryStore :: "(string \<Rightarrow> string) \<Rightarrow> auth_memory store" where
  "MemoryStore lower =
     \<lparr>st_CreateTraveller = MemCreateTraveller lower, st_TravellerByEmail = MemTravellerByEmail lower,
      st_CreateSession = MemCreateSession, st_SessionByTokenHash = MemSessionByTokenHash,
      st_TouchSession = MemTouchSession, st_RevokeSession = MemRevokeSession,
      st_RevokeEverySession = MemRevokeEverySession, st_SpendInvite = MemSpendInvite,
      st_RecordInviteUser = MemRecordInviteUser, st_IssueCode = MemIssueCode,
      st_CodeFor = MemCodeFor, st_CountAttempt = MemCountAttempt, st_BurnCode = MemBurnCode\<rparr>"

subsection \<open>The twin keeps the contract of the codes\<close>

definition mem_account :: "(string \<Rightarrow> string) \<Rightarrow> auth_memory \<Rightarrow> string \<Rightarrow> traveller option" where
  "mem_account lower m email = map_of (m_travellers m) (lower email)"

definition mem_codes :: "auth_memory \<Rightarrow> id \<Rightarrow> sign_in_code option" where
  "mem_codes m = map_of (m_codes m)"

lemmas mem_views = fun_eq_iff mem_account_def mem_codes_def

lemma mem_codes_updated:
  "mem_codes (m\<lparr>m_codes := AList.update t c (m_codes m)\<rparr>) = (mem_codes m)(t \<mapsto> c)"
  "mem_codes (m\<lparr>m_codes := AList.delete t (m_codes m)\<rparr>) = (mem_codes m)(t := None)"
  by (simp_all add: mem_codes_def update_conv' delete_conv')

interpretation mem_auth: code_store "MemoryStore lower" "mem_account lower" mem_codes for lower
proof unfold_locales
  fix e s r s'
  assume "st_TravellerByEmail (MemoryStore lower) e s = (r, s')"
  then show "mem_account lower s' = mem_account lower s \<and> mem_codes s' = mem_codes s \<and> \<not> bad r \<and>
      (\<forall>tr. r = Inr tr \<longrightarrow> mem_account lower s e = Some tr) \<and>
      (r = Inl ErrUnknownTraveller \<longrightarrow> mem_account lower s e = None)"
    by (auto simp: MemoryStore_def MemTravellerByEmail_def failing_def mem_views split: option.splits)
next
  fix t s r s'
  assume "st_CodeFor (MemoryStore lower) t s = (r, s')"
  then show "mem_account lower s' = mem_account lower s \<and> mem_codes s' = mem_codes s \<and> \<not> bad r \<and>
      (\<forall>c. r = Inr c \<longrightarrow> mem_codes s t = Some c) \<and> (r = Inl ErrNoCode \<longrightarrow> mem_codes s t = None)"
    by (auto simp: MemoryStore_def MemCodeFor_def mem_views split: option.splits)
next
  fix t s r s'
  assume "st_CountAttempt (MemoryStore lower) t s = (r, s')"
  then show "mem_account lower s' = mem_account lower s \<and> \<not> bad r \<and> (r = Inl ErrNoCode \<longrightarrow> mem_codes s t = None) \<and>
      (isl r \<and> mem_codes s' = mem_codes s \<or>
       (\<exists>c. mem_codes s t = Some c \<and> mem_codes s' = (mem_codes s)(t \<mapsto> c\<lparr>sic_Attempts := sic_Attempts c + 1\<rparr>) \<and>
          (\<forall>n. r = Inr n \<longrightarrow> n = sic_Attempts c + 1)))"
    by (auto simp: MemoryStore_def MemCountAttempt_def Let_def mem_views update_conv' split: option.splits)
next
  fix t s r s'
  assume "st_BurnCode (MemoryStore lower) t s = (r, s')"
  then show "mem_account lower s' = mem_account lower s \<and> \<not> bad r \<and>
      (mem_codes s' = (mem_codes s)(t := None) \<or> isl r \<and> mem_codes s' = mem_codes s)"
    by (auto simp: MemoryStore_def MemBurnCode_def mem_codes_updated, auto simp: mem_views)
next
  fix t h x s r s'
  let ?c = "\<lparr>sic_Hash = h, sic_IssuedAt = memory_now s, sic_ExpiresAt = x, sic_Attempts = 0\<rparr>"
  assume "st_IssueCode (MemoryStore lower) t h x s = (r, s')"
  then have "s' = s\<lparr>m_codes := AList.update t ?c (m_codes s)\<rparr>" by (simp add: MemoryStore_def MemIssueCode_def)
  then have "mem_codes s' = (mem_codes s)(t \<mapsto> ?c)" "mem_account lower s' = mem_account lower s"
    by (simp_all add: mem_codes_updated) (simp add: mem_views)
  then show "mem_account lower s' = mem_account lower s \<and>
      (isl r \<and> mem_codes s' = mem_codes s \<or>
       (\<exists>c. sic_Hash c = h \<and> sic_Attempts c = 0 \<and> mem_codes s' = (mem_codes s)(t \<mapsto> c)))"
    by (intro conjI disjI2 exI [of _ ?c]) simp_all
next
  fix t h x s r s'
  assume "st_CreateSession (MemoryStore lower) t h x s = (r, s')"
  then show "mem_account lower s' = mem_account lower s \<and> mem_codes s' = mem_codes s \<and> \<not> bad r"
    by (auto simp: MemoryStore_def MemCreateSession_def failing_def Let_def mem_views split: option.splits)
qed

end
