(* ===== verification/Auth_Properties.thy ===== *)
theory Auth_Properties
  imports Auth_Store Auth_Memory
begin

section \<open>What the credentials guarantee\<close>

text \<open>
  The contract's lemmas at the PostgreSQL store, and what needs both halves: a sign-in followed by
  an authentication, the twin beside the tables, and what happens when two sign-ins interleave.
\<close>

subsection \<open>Samples\<close>

definition sample_sha2 :: "nat list \<Rightarrow> hash" where
  "sample_sha2 bs = replicate 32 (char_of (last bs))"

definition auth_log :: database where
  "auth_log = \<lparr>collate = (\<lambda>x. x), to_timestamptz = (\<lambda>x. x), to_date = (\<lambda>x. x),
     travellers = [\<lparr>tv_id = sample_uuid, tv_email = ''e@f.gh'', tv_name = None, tv_version = 0\<rparr>],
     media_objects = [], cities = [], trips = [], trip_cities = [], places = [], visits = [], photos = [],
     walks = [], share_links = []\<rparr>"

definition sample_code :: code_row where
  "sample_code = \<lparr>cr_traveller = sample_uuid, cr_hash = projr (HashCode sample_sha2 sample_uuid ''123456''),
     cr_issued = 0, cr_expires = 1000, cr_attempts = 0\<rparr>"

definition auth_sample :: auth_state where
  "auth_sample = \<lparr>au_db = \<lparr>au_log = auth_log, au_sessions = [], au_codes = [sample_code],
       au_invites = [\<lparr>iv_hash = HashInvite sample_sha2 (\<lambda>x. x) ''AB-CD'', iv_used_at = None, iv_used_by = None,
         iv_note = None\<rparr>]\<rparr>,
     au_now = 0, au_uuid = ''s1'', au_lower = (\<lambda>x. x), au_faults = []\<rparr>"

subsection \<open>Guessing a code\<close>

lemma scan_code_attempts: "list_all code_ck (au_codes d) \<Longrightarrow> find_code d t = Some r \<Longrightarrow> 0 \<le> sic_Attempts (scan_code r)"
  by (auto simp: find_code_def scan_code_def code_ck_def list_all_iff dest!: find_SomeD)

text \<open>C13: A sign-in code survives fewer than five wrong guesses and opens at most one session. Of any
  sequence of sign-ins at one address, under any schedule of driver faults, at most one succeeds,
  and before it fewer than five were answered with bad credentials; no new code is issued in the
  sequence.\<close>

theorem code_guesses_bounded:
  assumes "sign_ins sha AuthStore email as s = (rs, s')" "pg_account s email = Some tr"
    and "list_all code_ck (au_codes (au_db s))" "i < length rs" "rs ! i = Inr x"
  shows "length (filter bad (take i rs)) < 5 \<and> (\<forall>j < length rs. j \<noteq> i \<longrightarrow> isl (rs ! j))"
proof -
  have bound: "length (filter bad (take i rs)) + 2 \<le> guesses_left (pg_codes s (trv_ID tr))"
    and one: "\<forall>j < length rs. j \<noteq> i \<longrightarrow> isl (rs ! j)"
    using pg.sign_ins_bound [OF assms(1,2,4,5)] by auto
  have "guesses_left (pg_codes s (trv_ID tr)) \<le> 6"
    using scan_code_attempts [OF assms(3), of "trv_ID tr"]
    by (auto simp: guesses_left_def pg_codes_def MaxCodeAttempts_def split: option.splits)
  with bound one show ?thesis by simp
qed

definition try_code :: "string \<Rightarrow> attempt" where
  "try_code c = \<lparr>at_ttl = 0, at_now = 10, at_later = 10, at_drawn = Some [7], at_code = c\<rparr>"

theorem code_guesses_bounded_witness:
  "\<exists>rs s'. sign_ins sample_sha2 AuthStore ''e@f.gh'' (map try_code [''111111'', ''123456'']) auth_sample = (rs, s') \<and>
     map isl rs = [True, False] \<and> length (filter bad (take 1 rs)) < 5"
proof -
  let ?run = "sign_ins sample_sha2 AuthStore ''e@f.gh'' (map try_code [''111111'', ''123456'']) auth_sample"
  have eval: "map isl (fst ?run) = [True, False]" by code_simp
  obtain rs s' where run: "?run = (rs, s')" by (cases ?run)
  have rs: "map isl rs = [True, False]" using eval run by (simp only: fst_conv)
  then have "length rs = 2" "\<not> isl (rs ! 1)" by (auto dest: map_eq_imp_length_eq simp: map_eq_Cons_conv nth_Cons')
  then obtain x where x: "1 < length rs" "rs ! 1 = Inr x" by (cases "rs ! 1") auto
  have acc: "pg_account auth_sample ''e@f.gh'' \<noteq> None" by code_simp
  then obtain tr where tr: "pg_account auth_sample ''e@f.gh'' = Some tr" by blast
  have ck: "list_all code_ck (au_codes (au_db auth_sample))" by code_simp
  from code_guesses_bounded [OF run tr ck x] have "length (filter bad (take 1 rs)) < 5" by (rule conjunct1)
  with run rs show ?thesis by (intro exI conjI)
qed

subsection \<open>Signing in\<close>

text \<open>What the code operations leave alone: everything but \<open>sign_in_codes\<close>.\<close>

definition codes_only :: "auth_state \<Rightarrow> auth_state \<Rightarrow> bool" where
  "codes_only s s' \<longleftrightarrow> (\<exists>fs cs. s' = s\<lparr>au_faults := fs, au_db := (au_db s)\<lparr>au_codes := cs\<rparr>\<rparr>)"

lemma codes_onlyI: "s' = s\<lparr>au_faults := fs, au_db := (au_db s)\<lparr>au_codes := cs\<rparr>\<rparr> \<Longrightarrow> codes_only s s'"
  by (auto simp: codes_only_def)

lemma codes_only_faults: "codes_only s (s\<lparr>au_faults := fs\<rparr>)"
  by (rule codes_onlyI [where cs = "au_codes (au_db s)"]) (cases s, simp)

lemma codes_only_refl: "codes_only s s"
  by (rule codes_onlyI [where fs = "au_faults s" and cs = "au_codes (au_db s)"]) (cases s, simp)

lemma codes_only_codes: "codes_only s (s\<lparr>au_db := (au_db s)\<lparr>au_codes := cs\<rparr>\<rparr>)"
  by (rule codes_onlyI [where fs = "au_faults s"]) (cases s, simp)

lemma codes_only_trans: "codes_only s s1 \<Longrightarrow> codes_only s1 s2 \<Longrightarrow> codes_only s s2"
  by (auto simp: codes_only_def) blast

lemma codes_only_same:
  assumes "codes_only s s'"
  shows "au_sessions (au_db s') = au_sessions (au_db s)" "au_log (au_db s') = au_log (au_db s)"
    "au_now s' = au_now s" "au_uuid s' = au_uuid s" "find_address s' = find_address s"
  using assms by (auto simp: codes_only_def find_address_def fun_eq_iff)

lemma held_code_pg:
  assumes "held_code AuthStore email s = (Inr (tr, c), s')"
  shows "codes_only s s'" "\<exists>r. find_address s email = Some r \<and> tr = scan_traveller r"
proof -
  from assms obtain s1 where "AuthTravellerByEmail email s = (Inr tr, s1)" "AuthCodeFor (trv_ID tr) s1 = (Inr c, s')"
    by (auto simp: held_code_def a_bind_def a_try_def AuthStore_def split: prod.splits sum.splits)
  with pg_by_email [of email s "Inr tr" s1] pg_code_for [of "trv_ID tr" s1 "Inr c" s']
  show "codes_only s s'" "\<exists>r. find_address s email = Some r \<and> tr = scan_traveller r"
    by (auto simp: pg_account_def intro: codes_only_faults)
qed

lemma AuthBurnCode_pg: "AuthBurnCode t s = (r, s') \<Longrightarrow> codes_only s s'"
  unfolding AuthBurnCode_def
  by (drule au_sql_run) (auto intro: codes_only_faults codes_onlyI)

lemma AuthCreateSession_Inr:
  assumes "AuthCreateSession t h x s = (Inr i, s')"
  obtains fs where "s' = s\<lparr>au_faults := fs, au_db := (au_db s)\<lparr>au_sessions := au_sessions (au_db s) @
      [\<lparr>sn_id = au_uuid s, sn_traveller = t, sn_hash = h, sn_created = au_now s, sn_last_used = au_now s,
        sn_expires = to_timestamptz (au_log (au_db s)) x, sn_revoked = None\<rparr>]\<rparr>\<rparr>"
    "\<forall>z \<in> set (au_sessions (au_db s)). sn_hash z \<noteq> h \<and> sn_id z \<noteq> au_uuid s" "length h = 32"
proof -
  from au_locked_run [OF assms [unfolded AuthCreateSession_def]] obtain fs d where
    "createSessionSQL t h x (s\<lparr>au_faults := fs\<rparr>) = Inr (i, d)" "s' = s\<lparr>au_faults := fs, au_db := d\<rparr>" by auto
  with that show thesis
    by (auto simp: createSessionSQL_def Let_def list_ex_iff session_ck_def split: if_splits)
qed

lemma sign_in_pg:
  assumes "SignInWithCode sha AuthStore T now later drawn email code s = (Inr i, s')"
  obtains r h fs cs where "find_address s email = Some r" "iss_Traveller i = scan_traveller r"
    "NewToken sha drawn = Inr (iss_Token i, h)" "length h = 32"
    "\<forall>z \<in> set (au_sessions (au_db s)). sn_hash z \<noteq> h \<and> sn_id z \<noteq> au_uuid s"
    "s' = s\<lparr>au_faults := fs, au_db := (au_db s)\<lparr>au_codes := cs, au_sessions := au_sessions (au_db s) @
      [\<lparr>sn_id = au_uuid s, sn_traveller = tv_id r, sn_hash = h, sn_created = au_now s, sn_last_used = au_now s,
        sn_expires = to_timestamptz (au_log (au_db s)) (later + ttl T), sn_revoked = None\<rparr>]\<rparr>\<rparr>"
proof -
  from assms obtain tr c s1 where held: "held_code AuthStore email s = (Inr (tr, c), s1)"
    and present: "present_code sha AuthStore T now later drawn code (tr, c) s1 = (Inr i, s')"
    by (auto simp: SignInWithCode_def a_bind_run)
  from present obtain s2 plaintext h j where burn: "AuthBurnCode (trv_ID tr) s1 = (Inr (), s2)"
    and token: "NewToken sha drawn = Inr (plaintext, h)"
    and create: "AuthCreateSession (trv_ID tr) h (later + ttl T) s2 = (Inr j, s')"
    and i: "i = \<lparr>iss_Token = plaintext, iss_ExpiresAt = later + ttl T, iss_Traveller = tr\<rparr>"
    by (auto simp: present_code_def act_simps AuthStore_def Let_def split: if_splits sum.splits)
  obtain r where r: "find_address s email = Some r" "tr = scan_traveller r" using held_code_pg(2) [OF held] by blast
  have only: "codes_only s s2"
    using held_code_pg(1) [OF held] AuthBurnCode_pg [OF burn] by (rule codes_only_trans)
  then obtain fs cs where s2: "s2 = s\<lparr>au_faults := fs, au_db := (au_db s)\<lparr>au_codes := cs\<rparr>\<rparr>"
    by (auto simp: codes_only_def)
  from create show thesis
    by (rule AuthCreateSession_Inr) (rule that [OF r(1)], use r i token s2 in \<open>simp_all add: scan_traveller_def\<close>)
qed

lemma au_sql_calm:
  "au_faults s = [] \<Longrightarrow> au_sql stmt s =
     (case stmt s of Inl e \<Rightarrow> (Inl (ErrStorage e), s) | Inr (x, d) \<Rightarrow> (Inr x, s\<lparr>au_db := d\<rparr>))"
proof -
  assume "au_faults s = []"
  then have "au_next s = (None, s)" by (cases s) (simp add: au_next_def)
  then show ?thesis by (simp add: au_sql_def split: sum.splits)
qed

lemma au_query_calm: "au_faults s = [] \<Longrightarrow> au_query q s = (Inr (q s), s)"
  by (simp add: au_query_def au_sql_calm)

text \<open>One use of a token whose session is the last row, with a driver that does not fail.\<close>

lemma authenticate_step:
  assumes "au_faults s = []" "HashToken sha token = Inr h" "length h = 32"
    and rows: "au_sessions (au_db s) = rows @ [x]" "\<forall>z \<in> set rows. sn_hash z \<noteq> h \<and> sn_id z \<noteq> sn_id x"
    and x: "sn_hash x = h" "sn_revoked x = None"
    and tr: "find_traveller (au_log (au_db s)) (sn_traveller x) = Some r" "tv_id r = sn_traveller x"
    and later: "sn_created x < to_timestamptz (au_log (au_db s)) (now + ttl T)"
  shows "Authenticate sha AuthStore T now token s =
    (if \<not> now < sn_expires x then (Inl ErrNoSession, s)
     else (Inr (scan_traveller r),
       if TouchInterval \<le> Sub now (sn_last_used x)
       then s\<lparr>au_db := (au_db s)\<lparr>au_sessions := rows @
         [x\<lparr>sn_last_used := to_timestamptz (au_log (au_db s)) now,
            sn_expires := to_timestamptz (au_log (au_db s)) (now + ttl T)\<rparr>]\<rparr>\<rparr>
       else s))"
proof -
  have find: "find_session (au_db s) h = Some x"
  proof -
    have "List.find (\<lambda>y. sn_hash y = h) (zs @ [x]) = Some x" if "\<forall>z \<in> set zs. sn_hash z \<noteq> h" for zs
      using that x(1) by (induction zs) auto
    then show ?thesis using rows by (simp add: find_session_def)
  qed
  have none: "filter (\<lambda>z. sn_id z = sn_id x \<and> sn_traveller z = t) rows = []"
    "map (\<lambda>z. if sn_id z = sn_id x \<and> sn_traveller z = t then f z else z) rows = rows" for t f
    using rows(2) by (auto simp: filter_empty_conv intro: map_idI)
  show ?thesis
    using assms find
    by (simp add: Authenticate_def AuthStore_def AuthSessionByTokenHash_def AuthTouchSession_def a_bind_def
        a_lift_def a_return_def au_query_calm au_sql_calm sessionByTokenHashSQL_def SameHash_def scan_session_def
        scan_traveller_def touchSessionSQL_def update_sessions_def session_ck_def upd_rows_def none Let_def)
qed

text \<open>The uses of one token, and what they should be answered while the expiry slides: a use before the
  expiry in force is recognised, and moves the expiry when the last one is long enough ago.\<close>

fun uses :: "(nat list \<Rightarrow> hash) \<Rightarrow> int \<Rightarrow> string \<Rightarrow> instant list \<Rightarrow> auth_state \<Rightarrow> (auth_error + traveller) list \<times> auth_state" where
  "uses sha T token [] s = ([], s)"
| "uses sha T token (now # ns) s =
     (case Authenticate sha AuthStore T now token s of (r, s1) \<Rightarrow>
        (case uses sha T token ns s1 of (rs, s2) \<Rightarrow> (r # rs, s2)))"

fun sliding :: "(instant \<Rightarrow> instant) \<Rightarrow> int \<Rightarrow> traveller \<Rightarrow> instant \<Rightarrow> instant \<Rightarrow> instant list \<Rightarrow> (auth_error + traveller) list" where
  "sliding stored T tr used expires [] = []"
| "sliding stored T tr used expires (now # ns) =
     (if \<not> now < expires then Inl ErrNoSession # sliding stored T tr used expires ns
      else Inr tr #
        (if TouchInterval \<le> Sub now used then sliding stored T tr (stored now) (stored (now + ttl T)) ns
         else sliding stored T tr used expires ns))"

lemma uses_slide:
  assumes "au_faults s = []" "HashToken sha token = Inr h" "length h = 32"
    and "au_sessions (au_db s) = rows @ [x]" "\<forall>z \<in> set rows. sn_hash z \<noteq> h \<and> sn_id z \<noteq> sn_id x"
    and "sn_hash x = h" "sn_revoked x = None"
    and "find_traveller (au_log (au_db s)) (sn_traveller x) = Some r" "tv_id r = sn_traveller x"
    and "\<forall>now \<in> set ns. sn_created x < to_timestamptz (au_log (au_db s)) (now + ttl T)"
  shows "fst (uses sha T token ns s) =
    sliding (to_timestamptz (au_log (au_db s))) T (scan_traveller r) (sn_last_used x) (sn_expires x) ns"
  using assms
proof (induction ns arbitrary: s x)
  case (Cons now ns)
  let ?ts = "to_timestamptz (au_log (au_db s))"
  note step = authenticate_step [OF Cons.prems(1-9), of now T]
  show ?case
  proof (cases "now < sn_expires x \<and> TouchInterval \<le> Sub now (sn_last_used x)")
    case True
    let ?x = "x\<lparr>sn_last_used := ?ts now, sn_expires := ?ts (now + ttl T)\<rparr>"
    let ?s = "s\<lparr>au_db := (au_db s)\<lparr>au_sessions := rows @ [?x]\<rparr>\<rparr>"
    have "fst (uses sha T token ns ?s) = sliding ?ts T (scan_traveller r) (?ts now) (?ts (now + ttl T)) ns"
      using Cons.IH [of ?s ?x] Cons.prems by simp
    then show ?thesis using step True Cons.prems(10) by (cases "uses sha T token ns ?s") simp
  next
    case False
    have "fst (uses sha T token ns s) = sliding ?ts T (scan_traveller r) (sn_last_used x) (sn_expires x) ns"
      using Cons.IH [of s x] Cons.prems by simp
    then show ?thesis using step False Cons.prems(10) by (auto split: prod.splits)
  qed
qed simp

text \<open>C15: A sign-in hands out a token that works until its session expires, and no longer. Whatever
  faults the sign-in met on the way, once it has answered, any uses of the token at any times are
  answered exactly by the sliding expiry: a use before the expiry in force resolves to the traveller
  whose address and code were presented, and, when the last recorded use is five minutes ago or
  more, moves the expiry a lifetime past itself; a use at or after it is refused. The clock and the
  uuid source may have moved; the uses meet a driver without faults, nothing revokes the session, and
  no use reads a clock so far back that a lifetime from it ends before the session was created, which
  the table's own check refuses.\<close>

theorem signed_in_is_authenticated:
  assumes "SignInWithCode sha AuthStore T now later (Some raw) email code s = (Inr i, s')"
    and "length raw = TokenBytes" "\<forall>b \<in> set raw. b < 256"
    and "distinct (map tv_id (travellers (au_log (au_db s))))"
    and "pg_env s' s2" "au_faults s2 = []"
    and "\<forall>now' \<in> set ns. au_now s < to_timestamptz (au_log (au_db s)) (now' + ttl T')"
  shows "fst (uses sha T' (iss_Token i) ns s2) =
    sliding (to_timestamptz (au_log (au_db s))) T' (iss_Traveller i) (au_now s)
      (to_timestamptz (au_log (au_db s)) (later + ttl T)) ns"
proof -
  from assms(1) obtain r h fs cs where r: "find_address s email = Some r" "iss_Traveller i = scan_traveller r"
    and h: "NewToken sha (Some raw) = Inr (iss_Token i, h)" "length h = 32"
    and new: "\<forall>z \<in> set (au_sessions (au_db s)). sn_hash z \<noteq> h \<and> sn_id z \<noteq> au_uuid s"
    and s': "s' = s\<lparr>au_faults := fs, au_db := (au_db s)\<lparr>au_codes := cs, au_sessions := au_sessions (au_db s) @
      [\<lparr>sn_id = au_uuid s, sn_traveller = tv_id r, sn_hash = h, sn_created = au_now s, sn_last_used = au_now s,
        sn_expires = to_timestamptz (au_log (au_db s)) (later + ttl T), sn_revoked = None\<rparr>]\<rparr>\<rparr>"
    by (rule sign_in_pg)
  let ?x = "\<lparr>sn_id = au_uuid s, sn_traveller = tv_id r, sn_hash = h, sn_created = au_now s, sn_last_used = au_now s,
        sn_expires = to_timestamptz (au_log (au_db s)) (later + ttl T), sn_revoked = None\<rparr>"
  have db: "au_db s2 = au_db s'" using assms(5) by (auto simp: pg_env_def)
  then have rows: "au_sessions (au_db s2) = au_sessions (au_db s) @ [?x]" and lg: "au_log (au_db s2) = au_log (au_db s)"
    using s' by simp_all
  have "r \<in> set (travellers (au_log (au_db s)))" using r(1) by (auto simp: find_address_def dest: find_SomeD)
  then have tr: "find_traveller (au_log (au_db s2)) (sn_traveller ?x) = Some r"
    using find_unique [OF assms(4)] lg by (simp add: find_traveller_def)
  have "HashToken sha (iss_Token i) = Inr h" using h(1) assms(2,3) by (rule NewToken_hash)
  from uses_slide [OF assms(6) this h(2) rows _ _ _ tr, of ns T'] new assms(7) r(2) lg show ?thesis by simp
qed

theorem signed_in_is_authenticated_witness:
  "\<exists>i s'. SignInWithCode (\<lambda>_. replicate 32 CHR ''h'') AuthStore 1000 10 10 (Some (replicate 32 7)) ''e@f.gh'' ''123456''
       (auth_sample\<lparr>au_db := (au_db auth_sample)\<lparr>au_codes := [sample_code\<lparr>cr_hash := replicate 32 CHR ''h''\<rparr>]\<rparr>\<rparr>) = (Inr i, s') \<and>
     fst (uses (\<lambda>_. replicate 32 CHR ''h'') 1000 (iss_Token i) [20, 2000] (s'\<lparr>au_faults := []\<rparr>)) =
       [Inr (iss_Traveller i), Inl ErrNoSession]"
proof -
  let ?sha = "\<lambda>_. replicate 32 CHR ''h''"
  let ?s = "auth_sample\<lparr>au_db := (au_db auth_sample)\<lparr>au_codes := [sample_code\<lparr>cr_hash := replicate 32 CHR ''h''\<rparr>]\<rparr>\<rparr>"
  have "\<not> isl (fst (SignInWithCode ?sha AuthStore 1000 10 10 (Some (replicate 32 7)) ''e@f.gh'' ''123456'' ?s))"
    by code_simp
  then obtain i s' where run: "SignInWithCode ?sha AuthStore 1000 10 10 (Some (replicate 32 7)) ''e@f.gh'' ''123456'' ?s = (Inr i, s')"
    by (metis isl_def prod.collapse sum.exhaust_sel)
  have "s'\<lparr>au_faults := []\<rparr> = s'\<lparr>au_now := au_now s', au_uuid := au_uuid s', au_faults := []\<rparr>" by (cases s') simp
  then have env: "pg_env s' (s'\<lparr>au_faults := []\<rparr>)" unfolding pg_env_def by (intro exI)
  have "fst (uses ?sha 1000 (iss_Token i) [20, 2000] (s'\<lparr>au_faults := []\<rparr>)) =
      sliding (to_timestamptz (au_log (au_db ?s))) 1000 (iss_Traveller i) (au_now ?s)
        (to_timestamptz (au_log (au_db ?s)) (10 + ttl 1000)) [20, 2000]"
    by (rule signed_in_is_authenticated [OF run _ _ _ env])
      (simp_all add: TokenBytes_def auth_sample_def auth_log_def ttl_def)
  also have "\<dots> = [Inr (iss_Traveller i), Inl ErrNoSession]"
    by (simp add: auth_sample_def auth_log_def ttl_def Sub_def TouchInterval_def)
  finally show ?thesis using run by blast
qed

subsection \<open>Guesses in parallel\<close>

text \<open>Sign-ins that have all read the code before any of them presents a guess.\<close>

fun presents ::
  "(nat list \<Rightarrow> hash) \<Rightarrow> 's store \<Rightarrow> traveller \<times> sign_in_code \<Rightarrow> attempt list \<Rightarrow> 's \<Rightarrow> (auth_error + issued) list \<times> 's" where
  "presents sha st held [] s = ([], s)"
| "presents sha st held (a # as) s =
     (case present_code sha st (at_ttl a) (at_now a) (at_later a) (at_drawn a) (at_code a) held s of
        (r, s1) \<Rightarrow> (case presents sha st held as s1 of (rs, s2) \<Rightarrow> (r # rs, s2)))"

definition right_guess :: "(nat list \<Rightarrow> hash) \<Rightarrow> id \<Rightarrow> sign_in_code \<Rightarrow> string \<Rightarrow> bool" where
  "right_guess sha t c code = (case HashCode sha t code of Inl _ \<Rightarrow> False | Inr h \<Rightarrow> SameHash h (sic_Hash c))"

lemma code_ops_calm:
  assumes "au_faults s = []"
  shows "AuthCountAttempt t s = (r, s') \<Longrightarrow> codes_only s s' \<and> au_faults s' = []"
    and "\<exists>s'. AuthBurnCode t s = (Inr (), s') \<and> codes_only s s' \<and> au_faults s' = []"
proof -
  show "codes_only s s' \<and> au_faults s' = []" if "AuthCountAttempt t s = (r, s')"
    using that assms codes_only_codes [of s "au_codes (au_db s)"]
    by (auto simp: AuthCountAttempt_def a_bind_def au_sql_calm countAttemptSQL_def Let_def codes_only_refl codes_only_codes
        split: option.splits if_splits)
  show "\<exists>s'. AuthBurnCode t s = (Inr (), s') \<and> codes_only s s' \<and> au_faults s' = []"
    using assms by (simp add: AuthBurnCode_def au_sql_calm codes_only_codes)
qed

lemma present_wrong_calm:
  assumes "present_code sha AuthStore T now later drawn code (tr, c) s = (r, s')" "au_faults s = []"
    and "\<not> right_guess sha (trv_ID tr) c code"
  shows "codes_only s s' \<and> au_faults s' = []"
proof -
  have wrong: "case HashCode sha (trv_ID tr) code of Inl _ \<Rightarrow> True | Inr p \<Rightarrow> \<not> SameHash p (sic_Hash c)"
    using assms(3) by (auto simp: right_guess_def split: sum.splits)
  have burn: "codes_only u u' \<and> au_faults u' = []" if "AuthBurnCode (trv_ID tr) u = (q, u')" "au_faults u = []" for u q u'
    using code_ops_calm(2) [OF that(2), of "trv_ID tr"] that(1) by auto
  show ?thesis
  proof (cases "\<not> now < sic_ExpiresAt c \<or> MaxCodeAttempts \<le> sic_Attempts c")
    case True
    then obtain q where "AuthBurnCode (trv_ID tr) s = (q, s')"
      using assms(1) by (auto simp: present_code_def AuthStore_def a_bind_run)
    from burn [OF this assms(2)] show ?thesis .
  next
    case False
    obtain n s1 where n: "AuthCountAttempt (trv_ID tr) s = (n, s1)" by (metis prod.exhaust)
    have "s' = s1 \<or> (\<exists>q. AuthBurnCode (trv_ID tr) s1 = (q, s'))"
    proof (cases n)
      case (Inl e)
      with assms(1) wrong False n show ?thesis by (auto simp: present_code_def AuthStore_def a_try_def)
    next
      case (Inr k)
      with assms(1) wrong False n show ?thesis
        by (auto simp: present_code_def AuthStore_def a_try_def a_bind_run split: if_splits)
    qed
    with code_ops_calm(1) [OF assms(2) n] burn show ?thesis by (auto intro: codes_only_trans)
  qed
qed

lemma presents_wrong_calm:
  assumes "presents sha AuthStore (tr, c) as s = (rs, s')" "au_faults s = []"
    and "\<forall>a \<in> set as. \<not> right_guess sha (trv_ID tr) c (at_code a)"
  shows "codes_only s s' \<and> au_faults s' = []"
  using assms
proof (induction as arbitrary: s rs s')
  case Nil
  then show ?case by (simp add: codes_only_refl)
next
  case (Cons a as)
  obtain r s1 where one: "present_code sha AuthStore (at_ttl a) (at_now a) (at_later a) (at_drawn a) (at_code a) (tr, c) s = (r, s1)"
    by (metis prod.exhaust)
  obtain rs1 s2 where more: "presents sha AuthStore (tr, c) as s1 = (rs1, s2)" by (metis prod.exhaust)
  from present_wrong_calm [OF one Cons.prems(2)] Cons.prems(3) have "codes_only s s1" "au_faults s1 = []" by auto
  with Cons.IH [OF more] Cons.prems one more show ?case by (auto intro: codes_only_trans)
qed

lemma presents_append:
  "presents sha st h (as @ bs) s =
     (case presents sha st h as s of (rs, s1) \<Rightarrow> (case presents sha st h bs s1 of (qs, s2) \<Rightarrow> (rs @ qs, s2)))"
  by (induction as arbitrary: s) (auto split: prod.splits)

lemma create_session_calm:
  assumes "au_faults s = []" "has_traveller (au_log (au_db s)) t" "length h = 32"
    and "au_now s < to_timestamptz (au_log (au_db s)) x" "\<forall>z \<in> set (au_sessions (au_db s)). sn_id z \<noteq> au_uuid s \<and> sn_hash z \<noteq> h"
  shows "\<exists>s'. AuthCreateSession t h x s = (Inr (au_uuid s), s')"
proof -
  have "au_next s = (None, s)" using assms(1) by (cases s) (simp add: au_next_def)
  with assms show ?thesis
    by (auto simp: AuthCreateSession_def au_locked_def a_bind_def au_query_calm au_sql_calm createSessionSQL_def Let_def
        session_ck_def list_ex_iff)
qed

text \<open>C39: The five guesses are counted per code but not across requests in flight. \<open>SignInWithCode\<close> reads
  the code, compares, and counts or burns in separate statements with nothing locked between
  them. However many sign-ins have read a live code, and however many of their guesses were wrong
  and already counted, each of them still compares its own guess with it: the one that is right is
  answered with a session, after any number of wrong ones.\<close>

theorem parallel_guesses_escape_the_bound:
  assumes "held_code AuthStore email s = (Inr (tr, c), s)" "au_faults s = []"
    and "\<forall>g \<in> set guesses. \<not> right_guess sha (trv_ID tr) c (at_code g)"
    and "right_guess sha (trv_ID tr) c (at_code a)" "at_now a < sic_ExpiresAt c" "sic_Attempts c < MaxCodeAttempts"
    and "at_drawn a = Some raw" "length (sha raw) = 32"
    and "au_now s < to_timestamptz (au_log (au_db s)) (at_later a + ttl (at_ttl a))"
    and "\<forall>z \<in> set (au_sessions (au_db s)). sn_id z \<noteq> au_uuid s \<and> sn_hash z \<noteq> sha raw"
  shows "\<exists>rs i s'. presents sha AuthStore (tr, c) (guesses @ [a]) s = (rs @ [Inr i], s') \<and>
     length rs = length guesses \<and> iss_Traveller i = tr"
proof -
  obtain rs s1 where wrong: "presents sha AuthStore (tr, c) guesses s = (rs, s1)" by (metis prod.exhaust)
  have len: "length rs = length guesses"
    using wrong by (induction guesses arbitrary: s rs) (auto split: prod.splits)
  have s1: "codes_only s s1" "au_faults s1 = []" using presents_wrong_calm [OF wrong assms(2,3)] by auto
  obtain s2 where s2: "AuthBurnCode (trv_ID tr) s1 = (Inr (), s2)" "codes_only s1 s2" "au_faults s2 = []"
    using code_ops_calm(2) [OF s1(2)] by blast
  note same = codes_only_same [OF codes_only_trans [OF s1(1) s2(2)]]
  obtain r where r: "find_address s email = Some r" "tr = scan_traveller r" using held_code_pg(2) [OF assms(1)] by blast
  then have "has_traveller (au_log (au_db s)) (trv_ID tr)"
    by (auto simp: find_address_def scan_traveller_def has_traveller_def dest: find_SomeD)
  then obtain s3 where s3: "AuthCreateSession (trv_ID tr) (sha raw) (at_later a + ttl (at_ttl a)) s2 = (Inr (au_uuid s2), s3)"
    using create_session_calm [OF s2(3), of "trv_ID tr" "sha raw" "at_later a + ttl (at_ttl a)"] assms(8-10) same by auto
  let ?i = "\<lparr>iss_Token = RawURLEncode raw, iss_ExpiresAt = at_later a + ttl (at_ttl a), iss_Traveller = tr\<rparr>"
  have "present_code sha AuthStore (at_ttl a) (at_now a) (at_later a) (at_drawn a) (at_code a) (tr, c) s1 = (Inr ?i, s3)"
    using assms(4-7) s2(1) s3
    by (simp add: present_code_def AuthStore_def a_bind_def NewToken_def Let_def right_guess_def not_le split: sum.splits)
  with wrong have "presents sha AuthStore (tr, c) (guesses @ [a]) s = (rs @ [Inr ?i], s3)" by (simp add: presents_append)
  moreover have "iss_Traveller ?i = tr" by simp
  ultimately show ?thesis using len by blast
qed

theorem parallel_guesses_escape_the_bound_witness:
  "\<exists>rs i s'. presents (\<lambda>_. replicate 32 CHR ''h'') AuthStore (the (pg_account auth_sample ''e@f.gh''),
       (scan_code sample_code)\<lparr>sic_Hash := replicate 32 CHR ''h''\<rparr>)
       (replicate 7 (try_code ''x'') @ [try_code ''123456''])
       (auth_sample\<lparr>au_db := (au_db auth_sample)\<lparr>au_codes := [sample_code\<lparr>cr_hash := replicate 32 CHR ''h''\<rparr>]\<rparr>\<rparr>) =
     (rs @ [Inr i], s') \<and> length rs = 7"
proof -
  let ?sha = "\<lambda>_ :: nat list. replicate 32 CHR ''h''"
  let ?c = "(scan_code sample_code)\<lparr>sic_Hash := replicate 32 CHR ''h''\<rparr>"
  let ?tr = "the (pg_account auth_sample ''e@f.gh'')"
  let ?s = "auth_sample\<lparr>au_db := (au_db auth_sample)\<lparr>au_codes := [sample_code\<lparr>cr_hash := replicate 32 CHR ''h''\<rparr>]\<rparr>\<rparr>"
  have email: "checkEmail ''e@f.gh'' = Inr ()" and uuid: "travellerRe sample_uuid" by code_simp+
  have held: "held_code AuthStore ''e@f.gh'' ?s = (Inr (?tr, ?c), ?s)"
    using email by (simp add: held_code_def AuthStore_def AuthTravellerByEmail_def AuthCodeFor_def a_bind_def a_try_def
        au_query_calm travellerByEmailSQL_def with_texts_def au_sql_calm auth_sample_def auth_log_def find_address_def find_code_def pg_account_def scan_traveller_def
        scan_code_def sample_code_def)
  have tr: "trv_ID ?tr = sample_uuid"
    by (simp add: pg_account_def find_address_def auth_sample_def auth_log_def scan_traveller_def)
  have wrong: "\<not> right_guess ?sha (trv_ID ?tr) ?c ''x''"
    by (simp add: right_guess_def HashCode_def CodeDigits_def)
  have digits: "\<not> list_ex (\<lambda>c. \<not> is_digit c) ''123456''" by code_simp
  have right: "right_guess ?sha (trv_ID ?tr) ?c ''123456''"
    unfolding tr right_guess_def HashCode_def using uuid digits by (simp add: CodeDigits_def SameHash_def)
  have "\<exists>rs i s'. presents ?sha AuthStore (?tr, ?c) (replicate 7 (try_code ''x'') @ [try_code ''123456'']) ?s = (rs @ [Inr i], s') \<and>
      length rs = length (replicate 7 (try_code ''x'')) \<and> iss_Traveller i = ?tr"
    by (rule parallel_guesses_escape_the_bound [OF held, where raw = "[7]"])
      (use wrong right in \<open>simp_all add: try_code_def auth_sample_def scan_code_def sample_code_def MaxCodeAttempts_def
        auth_log_def ttl_def DefaultSessionTTL_def\<close>)
  then show ?thesis by (simp only: length_replicate) blast
qed

subsection \<open>Revoking\<close>

text \<open>C14: Signing out everywhere is for good. Once every session of a traveller was revoked, no token
  of a session the traveller then had is ever accepted again: not after any sequence of
  registrations, code requests, sign-ins, authentications and revocations by anybody, at any
  later time, under any faults.\<close>

theorem revoked_everywhere_for_good:
  assumes "RevokeEverySession AuthStore t s = (Inr n, s1)"
    and "pg_sessions s1 h = Some x" "ses_TravellerID x = t"
    and "auth_run sha upper AuthStore pg_env s1 s2"
    and "HashToken sha token = Inr h" "Authenticate sha AuthStore T now token s2 = (r, s3)"
  shows "isl r"
proof -
  have "AuthRevokeEverySession t s = (Inr n, s1)" using assms(1) by (simp add: RevokeEverySession_def AuthStore_def)
  then have "ses_RevokedAt x \<noteq> None" by (rule pg_revoke_all(2) [OF _ refl assms(2,3)])
  with assms(2) show ?thesis by (rule pgs.revoked_forever [OF _ _ assms(4-6)])
qed

definition signed_in :: auth_state where
  "signed_in = auth_sample\<lparr>au_db := (au_db auth_sample)\<lparr>au_sessions := [\<lparr>sn_id = ''s0'', sn_traveller = sample_uuid,
     sn_hash = replicate 32 CHR ''h'', sn_created = 0, sn_last_used = 0, sn_expires = 1000, sn_revoked = None\<rparr>]\<rparr>\<rparr>"

theorem revoked_everywhere_for_good_witness:
  "isl (fst (Authenticate (\<lambda>_. replicate 32 CHR ''h'') AuthStore 0 10 (RawURLEncode (replicate 32 7))
     (snd (RevokeEverySession AuthStore sample_uuid signed_in))))"
proof -
  let ?s1 = "snd (RevokeEverySession AuthStore sample_uuid signed_in)"
  let ?h = "replicate 32 CHR ''h''"
  have "\<not> isl (fst (RevokeEverySession AuthStore sample_uuid signed_in))" by code_simp
  then obtain n where run: "RevokeEverySession AuthStore sample_uuid signed_in = (Inr n, ?s1)"
    by (metis isl_def prod.collapse sum.exhaust_sel)
  have "map_option ses_TravellerID (pg_sessions ?s1 ?h) = Some sample_uuid" by code_simp
  then obtain x where x: "pg_sessions ?s1 ?h = Some x" "ses_TravellerID x = sample_uuid" by auto
  have "HashToken (\<lambda>_. ?h) (RawURLEncode (replicate 32 7)) = Inr ?h"
    by (simp add: HashToken_def RawURL_roundtrip TokenBytes_def)
  from revoked_everywhere_for_good [OF run x auth_run.start this surjective_pairing] show ?thesis .
qed

subsection \<open>Invites\<close>

text \<open>C16: An invite admits one traveller. Of any sequence of registrations, at most one that presents
  a given invite succeeds, however the others are interleaved with it and whatever the driver
  does, and none does when the invite was spent or never minted. The invite is spent before the
  account is made, so a registration that fails later spends it all the same.\<close>

theorem invite_admits_one:
  assumes "registrations sha upper AuthStore cs s = (rs, s')"
  shows "admitted sha upper h cs rs \<le> (if pg_invites s h = Some False then 1 else 0)"
  using assms by (rule pgi.admitted_bound)

theorem invite_admits_one_witness:
  "\<exists>rs s'. registrations sample_sha2 (\<lambda>x. x) AuthStore [(''a@b.cd'', ''ABCD''), (''x@b.cd'', ''AB-CD'')] auth_sample = (rs, s') \<and>
     map isl rs = [False, True] \<and>
     admitted sample_sha2 (\<lambda>x. x) (HashInvite sample_sha2 (\<lambda>x. x) ''AB-CD'') [(''a@b.cd'', ''ABCD''), (''x@b.cd'', ''AB-CD'')] rs \<le> 1"
proof -
  let ?cs = "[(''a@b.cd'', ''ABCD''), (''x@b.cd'', ''AB-CD'')]"
  let ?run = "registrations sample_sha2 (\<lambda>x. x) AuthStore ?cs auth_sample"
  have eval: "map isl (fst ?run) = [False, True]" by code_simp
  obtain rs s' where run: "?run = (rs, s')" by (cases ?run)
  from invite_admits_one [OF run, of "HashInvite sample_sha2 (\<lambda>x. x) ''AB-CD''"]
  have "admitted sample_sha2 (\<lambda>x. x) (HashInvite sample_sha2 (\<lambda>x. x) ''AB-CD'') ?cs rs \<le> 1"
    by (rule order_trans) simp
  with run eval [unfolded run fst_conv] show ?thesis by (intro exI conjI)
qed

end
