(* ===== verification/Gateway_Properties.thy ===== *)
theory Gateway_Properties
  imports Gateway Auth_Properties
begin

section \<open>What the way in guarantees\<close>

text \<open>
  Nobody reaches a log without a live session, and then only the session's own; credentials never
  touch a log but to add a new, empty one; and the answers of the code and sign-in routes do not
  tell whether an address is known.
\<close>

subsection \<open>What the credential operations do to the log\<close>

text \<open>A relation between the logs before and after, closed under sequencing.\<close>

locale log_relation =
  fixes R :: "database \<Rightarrow> database \<Rightarrow> bool"
  assumes R_refl: "R d d" and R_trans: "R d d1 \<Longrightarrow> R d1 d2 \<Longrightarrow> R d d2"
begin

definition related :: "(auth_state, 'a) act \<Rightarrow> bool" where
  "related m \<longleftrightarrow> (\<forall>s. R (au_log (au_db s)) (au_log (au_db (snd (m s)))))"

lemma related_lift: "related (a_lift r)" "related (a_return x)"
  by (simp_all add: related_def R_refl)

lemma related_bind:
  assumes "related m" "\<And>x. related (f x)"
  shows "related (a_bind m f)"
  unfolding related_def
proof
  fix s
  obtain r s1 where m: "m s = (r, s1)" by (cases "m s")
  then have one: "R (au_log (au_db s)) (au_log (au_db s1))" using assms(1) by (metis related_def snd_conv)
  show "R (au_log (au_db s)) (au_log (au_db (snd (a_bind m f s))))"
  proof (cases r)
    case (Inr x)
    have "R (au_log (au_db s1)) (au_log (au_db (snd (f x s1))))" using assms(2) [of x] by (simp add: related_def)
    with one m Inr show ?thesis by (auto simp: a_bind_def intro: R_trans)
  qed (use one m in \<open>simp add: a_bind_def\<close>)
qed

lemma related_try:
  assumes "related m" "\<And>x. related (f x)"
  shows "related (a_try m f)"
  unfolding related_def
proof
  fix s
  obtain r s1 where m: "m s = (r, s1)" by (cases "m s")
  then have "R (au_log (au_db s)) (au_log (au_db s1))" using assms(1) by (metis related_def snd_conv)
  moreover have "R (au_log (au_db s1)) (au_log (au_db (snd (f r s1))))" using assms(2) [of r] by (simp add: related_def)
  ultimately show "R (au_log (au_db s)) (au_log (au_db (snd (a_try m f s))))"
    using m by (auto simp: a_try_def intro: R_trans)
qed

lemma related_sql:
  assumes "\<And>s x d. stmt s = Inr (x, d) \<Longrightarrow> R (au_log (au_db s)) (au_log d)"
  shows "related (au_sql stmt)"
  unfolding related_def
proof
  fix s
  obtain r s' where run: "au_sql stmt s = (r, s')" by (cases "au_sql stmt s")
  from au_sql_run [OF run] assms [of "s\<lparr>au_faults := _\<rparr>"] R_refl
  show "R (au_log (au_db s)) (au_log (au_db (snd (au_sql stmt s))))" unfolding run by fastforce
qed

lemma related_query: "related (au_query q)"
  unfolding au_query_def by (rule related_sql) (auto simp: R_refl)

lemma related_locked:
  assumes "\<And>s x d. stmt s = Inr (x, d) \<Longrightarrow> R (au_log (au_db s)) (au_log d)"
  shows "related (au_locked t stmt)"
  unfolding related_def
proof
  fix s
  obtain r s' where run: "au_locked t stmt s = (r, s')" by (cases "au_locked t stmt s")
  from au_locked_run [OF run] assms [of "s\<lparr>au_faults := _\<rparr>"] R_refl
  show "R (au_log (au_db s)) (au_log (au_db (snd (au_locked t stmt s))))" unfolding run by fastforce
qed

lemmas related_intros = related_lift related_bind related_try related_query

lemma related_sessions: "related (au_sql (update_sessions p f))"
  by (rule related_sql) (auto simp: update_sessions_def Let_def R_refl split: if_splits)

lemma related_updates:
  "related (au_sql (touchSessionSQL i t u e))" "related (au_sql (revokeSessionSQL t h))"
  "related (au_sql (revokeEverySessionSQL t))" "related (au_sql (spendInviteSQL h))"
  "related (au_sql (issueCodeSQL t h e))" "related (au_sql (countAttemptSQL t))"
  "related (au_sql (travellerByEmailSQL a))"
  by (rule related_sql,
    auto simp: travellerByEmailSQL_def touchSessionSQL_def revokeSessionSQL_def revokeEverySessionSQL_def update_sessions_def
      spendInviteSQL_def issueCodeSQL_def countAttemptSQL_def Let_def R_refl split: if_splits option.splits)+

lemma related_ops:
  "related (AuthTravellerByEmail e)" "related (AuthCreateSession t h x)" "related (AuthSessionByTokenHash h)"
  "related (AuthTouchSession t i a x)" "related (AuthRevokeSession t h)" "related (AuthRevokeEverySession t)"
  "related (AuthSpendInvite h)" "related (AuthRecordInviteUser h t)" "related (AuthIssueCode t h x)"
  "related (AuthCodeFor t)" "related (AuthCountAttempt t)" "related (AuthBurnCode t)"
proof -
  show "related (AuthCreateSession t h x)"
    unfolding AuthCreateSession_def
    by (rule related_locked) (auto simp: createSessionSQL_def Let_def R_refl split: if_splits)
  show "related (AuthRecordInviteUser h t)"
    unfolding AuthRecordInviteUser_def by (rule related_sql) (auto simp: Let_def R_refl split: if_splits)
  show "related (AuthBurnCode t)"
    unfolding AuthBurnCode_def by (rule related_sql) (auto simp: R_refl)
qed (auto simp: AuthTravellerByEmail_def AuthSessionByTokenHash_def AuthTouchSession_def AuthRevokeSession_def
  AuthRevokeEverySession_def AuthSpendInvite_def AuthIssueCode_def AuthCodeFor_def AuthCountAttempt_def
  intro!: related_intros related_updates)

lemma related_service:
  "related (RequestCode sha AuthStore now later n email)"
  "related (SignInWithCode sha AuthStore T now later drawn email code)"
  "related (Authenticate sha AuthStore T now token)"
  "related (RevokeSession sha AuthStore t token)" "related (RevokeEverySession AuthStore t)"
  unfolding RequestCode_def SignInWithCode_def held_code_def present_code_def Authenticate_def RevokeSession_def
    RevokeEverySession_def AuthStore_def Let_def
  by (auto intro!: related_intros related_ops split: sum.splits prod.splits)

lemma related_register:
  assumes "\<And>e. related (AuthCreateTraveller e)"
  shows "related (RegisterWithInvite sha upper AuthStore email invite)"
  unfolding RegisterWithInvite_def Register_def AuthStore_def Let_def
  by (auto intro!: related_intros related_ops assms)

end

interpretation same: log_relation "\<lambda>d d'. d' = d"
  by unfold_locales auto

text \<open>Travellers who were not there before, with nothing in their logs.\<close>

definition newcomers :: "database \<Rightarrow> database \<Rightarrow> bool" where
  "newcomers d d' \<longleftrightarrow> (\<exists>rs. d' = d\<lparr>travellers := travellers d @ rs\<rparr> \<and> (\<forall>r \<in> set rs. \<not> has_traveller d (tv_id r)))"

lemma newcomers_refl: "newcomers d d"
  unfolding newcomers_def by (rule exI [of _ "[]"]) simp

lemma newcomers_trans: "newcomers d d1 \<Longrightarrow> newcomers d1 d2 \<Longrightarrow> newcomers d d2"
proof -
  assume "newcomers d d1" "newcomers d1 d2"
  then obtain rs ss where rs: "d1 = d\<lparr>travellers := travellers d @ rs\<rparr>" "\<forall>r \<in> set rs. \<not> has_traveller d (tv_id r)"
    and ss: "d2 = d1\<lparr>travellers := travellers d1 @ ss\<rparr>" "\<forall>r \<in> set ss. \<not> has_traveller d1 (tv_id r)"
    unfolding newcomers_def by blast
  then have "d2 = d\<lparr>travellers := travellers d @ (rs @ ss)\<rparr>" "\<forall>r \<in> set (rs @ ss). \<not> has_traveller d (tv_id r)"
    by (auto simp: has_traveller_def)
  then show "newcomers d d2" unfolding newcomers_def by blast
qed

interpretation new: log_relation newcomers
  by unfold_locales (rule newcomers_refl, rule newcomers_trans)

lemma newcomers_create: "new.related (AuthCreateTraveller e)"
proof -
  have "newcomers (au_log (au_db s)) (au_log d)" if "createTravellerSQL e s = Inr (x, d)" for s x d
  proof -
    let ?r = "\<lparr>tv_id = au_uuid s, tv_email = e, tv_name = None, tv_version = 0\<rparr>"
    have "d = au_db s \<or> \<not> has_traveller (au_log (au_db s)) (au_uuid s) \<and>
        d = (au_db s)\<lparr>au_log := (au_log (au_db s))\<lparr>travellers := travellers (au_log (au_db s)) @ [?r]\<rparr>\<rparr>"
      using that by (auto simp: createTravellerSQL_def Let_def split: if_splits)
    moreover have "newcomers lg (lg\<lparr>travellers := travellers lg @ [?r]\<rparr>)" if "\<not> has_traveller lg (au_uuid s)" for lg
      unfolding newcomers_def using that by (intro exI [of _ "[?r]"]) simp
    ultimately show ?thesis by (auto simp: newcomers_refl)
  qed
  then show ?thesis unfolding AuthCreateTraveller_def by (intro new.related_intros new.related_sql)
qed

lemma has_traveller_view: "has_traveller (view t d) t \<longleftrightarrow> has_traveller d t"
  by (auto simp: has_traveller_def view_def)

lemma newcomers_view:
  assumes "newcomers d d'" "has_traveller d t"
  shows "view t d' = view t d" "has_traveller d' t"
proof -
  from assms(1) obtain rs where rs: "d' = d\<lparr>travellers := travellers d @ rs\<rparr>" "\<forall>r \<in> set rs. \<not> has_traveller d (tv_id r)"
    unfolding newcomers_def by blast
  then have "filter (\<lambda>r. tv_id r = t) rs = []" using assms(2) by (auto simp: filter_empty_conv)
  then show "view t d' = view t d" using rs(1) by (intro view_eqI) simp_all
  show "has_traveller d' t" using rs(1) assms(2) by (auto simp: has_traveller_def)
qed

subsection \<open>A request that arrives\<close>

abbreviation log_of :: "server \<Rightarrow> database" where "log_of s \<equiv> au_log (au_db (sv_auth s))"

text \<open>The session a request presents a token of.\<close>

definition presented :: "server_world \<Rightarrow> arrival \<Rightarrow> server \<Rightarrow> session option" where
  "presented w rq s =
     (case Bearer (in_Authorization rq) of
        None \<Rightarrow> None
      | Some token \<Rightarrow> (case HashToken (aw_sha (sw_cred w)) token of Inl _ \<Rightarrow> None | Inr h \<Rightarrow> pg_sessions (sv_auth s) h))"

definition live :: "instant \<Rightarrow> session \<Rightarrow> bool" where
  "live now x \<longleftrightarrow> ses_RevokedAt x = None \<and> now < ses_ExpiresAt x"

lemma Authenticate_pg:
  assumes "Authenticate sha AuthStore T now token s = (Inr tr, s')"
  obtains h x where "HashToken sha token = Inr h" "pg_sessions s h = Some x" "live now x" "trv_ID tr = ses_TravellerID x"
proof -
  from assms obtain h x s1 where h: "HashToken sha token = Inr h" "AuthSessionByTokenHash h s = (Inr (x, tr), s1)"
    "ses_RevokedAt x = None" "now < ses_ExpiresAt x"
    by (auto simp: Authenticate_def AuthStore_def a_bind_run split: sum.splits if_splits)
  from pg_by_hash(2) [OF h(2) refl] have x: "pg_sessions s h = Some x" by simp
  from h(2) obtain u where "sessionByTokenHashSQL h u = Some (x, tr)"
    by (auto simp: AuthSessionByTokenHash_def a_bind_run split: option.splits dest!: au_query_run)
  then have "trv_ID tr = ses_TravellerID x"
    by (auto simp: sessionByTokenHashSQL_def scan_session_def scan_traveller_def find_traveller_def
        split: option.splits dest!: find_SomeD)
  with that h x show thesis by (simp add: live_def)
qed

lemma caller_WithTraveller: "caller (WithTraveller t c) = (case c of PublicCall _ \<Rightarrow> None | _ \<Rightarrow> t)"
  by (cases c) simp_all

lemma run_log_effect:
  "effect (caller c) (log_of s) (log_of (snd (run_log w c s)))"
proof -
  obtain ans t where run: "serve w c \<lparr>tx_db = log_of s, tx_faults = au_faults (sv_auth s)\<rparr> = (ans, t)"
    by (cases "serve w c \<lparr>tx_db = log_of s, tx_faults = au_faults (sv_auth s)\<rparr>")
  from serve_effect [OF run] run show ?thesis by (simp add: run_log_def Let_def)
qed

lemma cred_answer_related:
  "same.related m \<Longrightarrow> au_log (au_db (snd (cred_answer m ok s))) = au_log (au_db s)"
  "new.related m \<Longrightarrow> newcomers (au_log (au_db s)) (au_log (au_db (snd (cred_answer m ok s))))"
  unfolding same.related_def new.related_def cred_answer_def
  by (auto split: prod.splits sum.splits) (metis snd_conv)+

lemma cred_handlers_log:
  "newcomers (au_log (au_db a)) (au_log (au_db (snd (register_handler w b a))))"
  "au_log (au_db (snd (signIn_handler w b a))) = au_log (au_db a)"
  "au_log (au_db (snd (requestCode_handler w b' a))) = au_log (au_db a)"
  "au_log (au_db (snd (revokeSession_handler w t scope authorization a))) = au_log (au_db a)"
proof -
  show "newcomers (au_log (au_db a)) (au_log (au_db (snd (register_handler w b a))))"
    using cred_answer_related(2) [OF new.related_register [OF newcomers_create]]
    by (simp add: register_handler_def cred_body_def newcomers_refl split: sum.splits)
  show "au_log (au_db (snd (signIn_handler w b a))) = au_log (au_db a)"
    by (simp add: signIn_handler_def cred_body_def cred_answer_related(1) [OF same.related_service(2)] split: sum.splits)
  show "au_log (au_db (snd (requestCode_handler w b' a))) = au_log (au_db a)"
    using same.related_service(1) unfolding same.related_def requestCode_handler_def
    by (auto split: sum.splits prod.splits) (metis snd_conv)+
  show "au_log (au_db (snd (revokeSession_handler w t scope authorization a))) = au_log (au_db a)"
    by (simp add: revokeSession_handler_def cred_answer_related(1) [OF same.related_service(4)]
        cred_answer_related(1) [OF same.related_service(5)] split: option.splits bool.splits)
qed

lemma handle_effect:
  "effect t (log_of s) (log_of (snd (handle w rq t s))) \<or>
   \<not> route_auth (in_Endpoint rq) \<and> newcomers (log_of s) (log_of (snd (handle w rq t s)))"
proof (cases "in_Endpoint rq")
  case (LogRoute c)
  have "effect (caller (WithTraveller t c)) (log_of s) (log_of (snd (handle w rq t s)))"
    using LogRoute run_log_effect [of "WithTraveller t c" s "sw_log w"] by (simp add: handle_def)
  then show ?thesis by (auto simp: caller_WithTraveller effect_def split: call.splits)
next
  case (RegisterRoute b)
  then show ?thesis
    using cred_handlers_log(1) [of "sv_auth s" "sw_cred w" b]
    by (auto simp: handle_def on_auth_def route_auth_def split: prod.splits)
next
  case (CodeRoute b)
  then show ?thesis
    using cred_handlers_log(3) [of "sw_cred w" b "sv_auth s"] by (auto simp: handle_def effect_def split: prod.splits)
next
  case (SignInRoute b)
  then show ?thesis
    using cred_handlers_log(2) [of "sw_cred w" b "sv_auth s"] by (auto simp: handle_def on_auth_def effect_def split: prod.splits)
next
  case (RevokeRoute scope)
  then show ?thesis
    using cred_handlers_log(4) [of "sw_cred w" t scope "in_Authorization rq" "sv_auth s"]
    by (auto simp: handle_def on_auth_def effect_def split: prod.splits)
qed (simp add: handle_def effect_def)

lemma limit_layer_cases:
  "\<exists>s1. sv_auth s1 = sv_auth s \<and> (limit_layer w rq t k s = k s1 \<or>
     (\<exists>c. limit_layer w rq t k s = (plain (WriteError c), s1) \<and> (c = CodeRateLimited \<or> c = CodeInternal \<and> t = None)))"
proof -
  have lim: "\<exists>c l'. RateLimitBy now key l = (c, l') \<and> (\<forall>x. c = Some x \<longrightarrow> x = CodeRateLimited \<or> x = CodeInternal \<and> key = None)"
    for now key l by (auto simp: RateLimitBy_def split: option.splits prod.splits)
  show ?thesis
  proof (cases "route_limit (in_Endpoint rq)")
    case LimitTraveller
    obtain c l where "RateLimitBy (sw_clock w) t (sv_TravellerLimit s) = (c, l)"
      "\<forall>x. c = Some x \<longrightarrow> x = CodeRateLimited \<or> x = CodeInternal \<and> t = None" using lim by blast
    then show ?thesis using LimitTraveller
      by (intro exI [of _ "s\<lparr>sv_TravellerLimit := l\<rparr>"]) (auto simp: limit_layer_def limited_def split: option.splits)
  next
    case LimitPublic
    obtain c l where "RateLimit (sw_clock w) (in_RemoteAddr rq) (sv_PublicLimit s) = (c, l)"
      "\<forall>x. c = Some x \<longrightarrow> x = CodeRateLimited" unfolding RateLimit_def using lim by blast
    then show ?thesis using LimitPublic
      by (intro exI [of _ "s\<lparr>sv_PublicLimit := l\<rparr>"]) (auto simp: limit_layer_def limited_def split: option.splits)
  next
    case LimitCredential
    obtain c l where "RateLimit (sw_clock w) (in_RemoteAddr rq) (sv_AuthLimit s) = (c, l)"
      "\<forall>x. c = Some x \<longrightarrow> x = CodeRateLimited" unfolding RateLimit_def using lim by blast
    then show ?thesis using LimitCredential
      by (intro exI [of _ "s\<lparr>sv_AuthLimit := l\<rparr>"]) (auto simp: limit_layer_def limited_def split: option.splits)
  qed
qed

text \<open>What a request does to the log, and on whose behalf.\<close>

lemma Mount_effect:
  assumes "Mount w rq s = (re, s')"
  shows "log_of s' = log_of s \<or> newcomers (log_of s) (log_of s') \<or>
     (\<exists>x. presented w rq s = Some x \<and> live (aw_now (sw_cred w)) x \<and> effect (Some (ses_TravellerID x)) (log_of s) (log_of s'))"
proof -
  let ?inner = "\<lambda>t. limit_layer w rq t (handle w rq t)"
  have inner: "effect t (log_of u) (log_of (snd (?inner t u))) \<or>
      \<not> route_auth (in_Endpoint rq) \<and> newcomers (log_of u) (log_of (snd (?inner t u)))" for t u
  proof -
    from limit_layer_cases [of u w rq t "handle w rq t"] obtain u1 where "sv_auth u1 = sv_auth u"
      "?inner t u = handle w rq t u1 \<or> (\<exists>c. ?inner t u = (plain (WriteError c), u1))" by blast
    with handle_effect [of t u1 w rq] show ?thesis by (auto simp: effect_def)
  qed
  show ?thesis
  proof (cases "route_auth (in_Endpoint rq)")
    case False
    with assms have "s' = snd (?inner None s)" by (auto simp: Mount_def Let_def split: prod.splits)
    with inner [of None s] show ?thesis by (auto simp: effect_def)
  next
    case True
    then have s': "s' = snd (RequireTraveller (sw_cred w) (in_Authorization rq) ?inner s)"
      using assms by (auto simp: Mount_def Let_def split: prod.splits)
    show ?thesis
    proof (cases "Bearer (in_Authorization rq)")
      case None
      with s' show ?thesis by (simp add: RequireTraveller_def)
    next
      case (Some token)
      let ?auth = "Authenticate (aw_sha (sw_cred w)) AuthStore (aw_TTL (sw_cred w)) (aw_now (sw_cred w)) token"
      obtain r a where run: "?auth (sv_auth s) = (r, a)" by (cases "?auth (sv_auth s)")
      have log: "au_log (au_db a) = log_of s" using same.related_service(3) run unfolding same.related_def by (metis snd_conv)
      show ?thesis
      proof (cases r)
        case (Inl e)
        with s' Some run log show ?thesis by (simp add: RequireTraveller_def)
      next
        case (Inr tr)
        with run have "?auth (sv_auth s) = (Inr tr, a)" by simp
        then obtain h x where "HashToken (aw_sha (sw_cred w)) token = Inr h" "pg_sessions (sv_auth s) h = Some x"
          "live (aw_now (sw_cred w)) x" "trv_ID tr = ses_TravellerID x" by (rule Authenticate_pg)
        with s' Some run Inr log inner [of "Some (trv_ID tr)" "s\<lparr>sv_auth := a\<rparr>"] True show ?thesis
          by (auto simp: RequireTraveller_def presented_def)
      qed
    qed
  qed
qed

text \<open>
  Requests one after another, with time passing between them: any requests by anybody with any
  credentials, addresses and bodies, under any worlds, as long as \<open>P\<close> holds of each.
\<close>

inductive api_run :: "(server_world \<Rightarrow> arrival \<Rightarrow> server \<Rightarrow> bool) \<Rightarrow> server \<Rightarrow> server \<Rightarrow> bool" for P where
  idle: "api_run P s s"
| arrives: "api_run P s s1 \<Longrightarrow> P w rq s1 \<Longrightarrow> Mount w rq s1 = (re, s2) \<Longrightarrow> api_run P s s2"
| passes: "api_run P s s1 \<Longrightarrow> pg_env (sv_auth s1) a \<Longrightarrow> api_run P s (s1\<lparr>sv_auth := a\<rparr>)"

text \<open>C9: A log is out of reach without its owner's session. Let anybody send any requests to any
  routes, registering, asking for codes, signing in, sharing, reading links, under any faults. As
  long as no request carries a token of a live session of a traveller who was there at the start,
  that traveller's rows, version and document are what they were.\<close>

theorem log_out_of_reach:
  assumes "api_run (\<lambda>w rq s. \<forall>x. presented w rq s = Some x \<and> live (aw_now (sw_cred w)) x \<longrightarrow> ses_TravellerID x \<noteq> t) s s'"
    and "has_traveller (log_of s) t"
  shows "view t (log_of s') = view t (log_of s)"
proof -
  have "view t (log_of s') = view t (log_of s) \<and> has_traveller (log_of s') t"
    using assms
  proof (induction rule: api_run.induct)
    case (arrives s s1 w rq re s2)
    note ih = arrives.IH [OF arrives.prems]
    have has: "has_traveller d t" if "view t d = view t (log_of s1)" for d
      using ih that by (metis has_traveller_view)
    from Mount_effect [OF arrives.hyps(3)] consider "log_of s2 = log_of s1" | "newcomers (log_of s1) (log_of s2)"
      | u where "u \<noteq> t" "effect (Some u) (log_of s1) (log_of s2)" using arrives.hyps(2) by blast
    then have "view t (log_of s2) = view t (log_of s1)"
    proof cases
      case 2
      with ih newcomers_view show ?thesis by blast
    next
      case 3
      then show ?thesis by (auto dest: effect_other)
    qed simp
    with has ih show ?case by simp
  next
    case (passes s s1 a)
    then show ?case by (auto simp: pg_env_def)
  qed simp
  then show ?thesis ..
qed

definition sample_server :: server where
  "sample_server = \<lparr>sv_auth = auth_sample, sv_AuthLimit = NewLimiter 5, sv_TravellerLimit = NewLimiter 60,
     sv_PublicLimit = NewLimiter 30\<rparr>"

definition sample_world :: server_world where
  "sample_world = \<lparr>sw_log = \<lparr>w_sha = (\<lambda>x. x), w_now = 500, w_clock = 500, w_maxBytes = 100, w_stat = held,
       w_presignPut = (\<lambda>_ _. Inr ([], [])), w_expiresIn = (\<lambda>_. Inr 0), w_presignGet = (\<lambda>_. Inr [])\<rparr>,
     sw_cred = \<lparr>aw_sha = sample_sha2, aw_upper = (\<lambda>x. x), aw_TTL = 0, aw_now = 10, aw_later = 10,
       aw_token = Some [7], aw_code = Some 42\<rparr>,
     sw_clock = 10, sw_finder = (\<lambda>_ _. Inr [])\<rparr>"

definition sample_arrival :: "endpoint \<Rightarrow> arrival" where
  "sample_arrival ep = \<lparr>in_Authorization = [], in_RemoteAddr = ''1.2.3.4:80'', in_Endpoint = ep\<rparr>"

lemma no_header: "presented w (sample_arrival ep) s = None"
proof -
  have "Bearer [] = None" by code_simp
  then show ?thesis by (simp add: presented_def sample_arrival_def)
qed

theorem log_out_of_reach_witness:
  "\<exists>re s'. Mount sample_world (sample_arrival (RegisterRoute (Inr \<lparr>crd_Email = ''a@b.cd'', crd_Code = [], crd_Invite = ''AB-CD''\<rparr>)))
      sample_server = (re, s') \<and> view sample_uuid (log_of s') = view sample_uuid (log_of sample_server)"
proof -
  let ?rq = "sample_arrival (RegisterRoute (Inr \<lparr>crd_Email = ''a@b.cd'', crd_Code = [], crd_Invite = ''AB-CD''\<rparr>))"
  obtain re s' where run: "Mount sample_world ?rq sample_server = (re, s')" by (metis prod.exhaust)
  have "has_traveller (log_of sample_server) sample_uuid"
    by (simp add: sample_server_def auth_sample_def auth_log_def has_traveller_def)
  moreover have "api_run (\<lambda>w rq s. \<forall>x. presented w rq s = Some x \<and> live (aw_now (sw_cred w)) x \<longrightarrow>
      ses_TravellerID x \<noteq> sample_uuid) sample_server s'"
    by (rule api_run.arrives [OF api_run.idle _ run]) (simp add: no_header)
  ultimately have "view sample_uuid (log_of s') = view sample_uuid (log_of sample_server)" by (intro log_out_of_reach)
  with run show ?thesis by (intro exI conjI)
qed

subsection \<open>Without a live session\<close>

lemma Authenticate_refused:
  assumes "Authenticate sha AuthStore T now token s = (r, s')"
    and "\<forall>h x. HashToken sha token = Inr h \<and> pg_sessions s h = Some x \<longrightarrow> \<not> live now x"
  shows "\<exists>fs. s' = s\<lparr>au_faults := fs\<rparr>"
    "\<exists>e. r = Inl e \<and> (e = ErrNoSession \<or> au_faults s \<noteq> [] \<and> (\<exists>d. e = ErrStorage d))"
proof -
  show "\<exists>fs. s' = s\<lparr>au_faults := fs\<rparr>"
    "\<exists>e. r = Inl e \<and> (e = ErrNoSession \<or> au_faults s \<noteq> [] \<and> (\<exists>d. e = ErrStorage d))"
  proof (atomize (full), cases "HashToken sha token")
    case (Inl e)
    with assms(1) show "(\<exists>fs. s' = s\<lparr>au_faults := fs\<rparr>) \<and>
        (\<exists>e. r = Inl e \<and> (e = ErrNoSession \<or> au_faults s \<noteq> [] \<and> (\<exists>d. e = ErrStorage d)))"
      by (auto simp: Authenticate_def intro: exI [of _ "au_faults s"])
  next
    case (Inr h)
    obtain q s1 where q: "AuthSessionByTokenHash h s = (q, s1)" by (cases "AuthSessionByTokenHash h s")
    from q have "(\<exists>fs. s1 = s\<lparr>au_faults := fs\<rparr>) \<and> (\<forall>e. q = Inl e \<longrightarrow> e = ErrNoSession \<or> (\<exists>d. e = ErrStorage d))"
      by (auto simp: AuthSessionByTokenHash_def a_bind_run split: option.splits dest!: au_query_run)
    moreover have "q \<noteq> Inl (ErrStorage d)" if "au_faults s = []" for d
      using q that by (auto simp: AuthSessionByTokenHash_def a_bind_def au_query_calm split: option.splits)
    moreover have "\<not> live now x" if "q = Inr (x, tr)" for x tr
      using assms(2) Inr pg_by_hash(2) [OF q that] by simp
    ultimately show "(\<exists>fs. s' = s\<lparr>au_faults := fs\<rparr>) \<and>
        (\<exists>e. r = Inl e \<and> (e = ErrNoSession \<or> au_faults s \<noteq> [] \<and> (\<exists>d. e = ErrStorage d)))"
      using assms(1) Inr q
      by (cases q) (auto simp: Authenticate_def AuthStore_def a_bind_def live_def split: if_splits prod.splits)
  qed
qed

text \<open>C10: A route that needs a credential does nothing without one. A request to it whose header is
  missing or malformed, or whose token is unknown, revoked or expired, changes nothing: no table,
  no limiter, no mail. It is answered 401, or 500 or 503 when the driver failed.\<close>

theorem no_session_no_entry:
  assumes "Mount w rq s = (re, s')" "route_auth (in_Endpoint rq)"
    and "\<forall>x. presented w rq s = Some x \<longrightarrow> \<not> live (aw_now (sw_cred w)) x"
  shows "\<exists>fs r. s' = s\<lparr>sv_auth := (sv_auth s)\<lparr>au_faults := fs\<rparr>\<rparr> \<and> re_Answer re = Answered r \<and> re_Mail re = None \<and>
     (rs_Status r = 401 \<or> au_faults (sv_auth s) \<noteq> [] \<and> rs_Status r \<in> {500, 503})"
proof (cases "Bearer (in_Authorization rq)")
  case None
  with assms(1,2) have "s' = s" "re_Answer re = Answered (WriteError CodeUnauthenticated)" "re_Mail re = None"
    by (auto simp: Mount_def Let_def RequireTraveller_def plain_def)
  then show ?thesis by (intro exI [of _ "au_faults (sv_auth s)"] exI [of _ "WriteError CodeUnauthenticated"]) simp
next
  case (Some token)
  let ?auth = "Authenticate (aw_sha (sw_cred w)) AuthStore (aw_TTL (sw_cred w)) (aw_now (sw_cred w)) token"
  obtain r a where run: "?auth (sv_auth s) = (r, a)" by (cases "?auth (sv_auth s)")
  have "\<forall>h x. HashToken (aw_sha (sw_cred w)) token = Inr h \<and> pg_sessions (sv_auth s) h = Some x \<longrightarrow>
      \<not> live (aw_now (sw_cred w)) x"
    using assms(3) Some by (auto simp: presented_def)
  note refused = Authenticate_refused [OF run this]
  from refused obtain fs e where a: "a = (sv_auth s)\<lparr>au_faults := fs\<rparr>" and e: "r = Inl e"
    "e = ErrNoSession \<or> au_faults (sv_auth s) \<noteq> [] \<and> (\<exists>d. e = ErrStorage d)" by auto
  let ?resp = "if e = ErrNoSession then WriteError CodeUnauthenticated
    else if auth_down e then WriteError CodeTimeout else WriteError CodeInternal"
  have "s' = s\<lparr>sv_auth := a\<rparr>" "re_Answer re = Answered ?resp" "re_Mail re = None"
    using assms(1,2) Some run e(1) by (auto simp: Mount_def Let_def RequireTraveller_def plain_def)
  with a e(2) show ?thesis by (intro exI [of _ fs] exI [of _ ?resp]) auto
qed

theorem no_session_no_entry_witness:
  "\<exists>re s' fs r. Mount sample_world (sample_arrival (RevokeRoute ''all'')) sample_server = (re, s') \<and>
     s' = sample_server\<lparr>sv_auth := (sv_auth sample_server)\<lparr>au_faults := fs\<rparr>\<rparr> \<and> re_Answer re = Answered r \<and> rs_Status r = 401"
proof -
  let ?rq = "sample_arrival (RevokeRoute ''all'')"
  obtain re s' where run: "Mount sample_world ?rq sample_server = (re, s')" by (metis prod.exhaust)
  have "route_auth (in_Endpoint ?rq)" by (simp add: sample_arrival_def route_auth_def)
  moreover have "au_faults (sv_auth sample_server) = []" by (simp add: sample_server_def auth_sample_def)
  ultimately show ?thesis using no_session_no_entry [OF run] run by (simp add: no_header) blast
qed

subsection \<open>Whether an address is known\<close>

lemmas calm_simps_auth = a_bind_def a_try_def au_query_calm au_sql_calm

lemma TravellerByEmail_calm:
  "au_faults s = [] \<Longrightarrow> AuthTravellerByEmail email s =
     ((if CHR 0x00 \<in> set email then Inl (ErrStorage character_not_in_repertoire)
       else case find_address s email of None \<Rightarrow> Inl ErrUnknownTraveller | Some r \<Rightarrow> Inr (scan_traveller r)), s)"
  by (simp add: AuthTravellerByEmail_def a_bind_def a_lift_def au_sql_calm travellerByEmailSQL_def with_texts_def
      split: option.split)

lemma RequestCode_calm:
  assumes "au_faults s = []" "n < codeSpace" "\<forall>r \<in> set (travellers (au_log (au_db s))). travellerRe (tv_id r)"
    and "\<forall>bs. length (sha bs) = 32" "au_now s < to_timestamptz (au_log (au_db s)) (later + CodeTTL)" "checkEmail email = Inr ()"
    and "CHR 0x00 \<notin> set email"
  obtains send s' where "RequestCode sha AuthStore now later (Some n) email s = (Inr send, s')"
    "\<And>code tr. send = Some (code, tr) \<Longrightarrow> pg_account s email = Some tr"
proof (cases "find_address s email")
  case None
  then have "RequestCode sha AuthStore now later (Some n) email s = (Inr None, s)"
    using assms(1,6,7)
    by (simp add: RequestCode_def AuthStore_def TravellerByEmail_calm calm_simps_auth)
  with that show thesis by blast
next
  case (Some r)
  then have r: "r \<in> set (travellers (au_log (au_db s)))" by (auto simp: find_address_def dest: find_SomeD)
  with assms(3) have "travellerRe (tv_id r)" by simp
  with assms(2) obtain plaintext h where code: "NewCode sha (Some n) (tv_id r) = Inr (plaintext, h)"
    "HashCode sha (tv_id r) plaintext = Inr h" by (rule NewCode_ok)
  then have "length h = 32" using assms(4) by (auto simp: HashCode_def split: if_splits)
  moreover have "has_traveller (au_log (au_db s)) (tv_id r)" using r by (auto simp: has_traveller_def)
  ultimately have issue: "\<exists>s'. AuthIssueCode (tv_id r) h (later + CodeTTL) s = (Inr (), s')"
    using assms(1,5) by (simp add: AuthIssueCode_def au_sql_calm issueCodeSQL_def Let_def code_ck_def)
  have "\<exists>send s'. RequestCode sha AuthStore now later (Some n) email s = (Inr send, s') \<and>
      (\<forall>code tr. send = Some (code, tr) \<longrightarrow> tr = scan_traveller r)"
    using assms(1,6,7) Some issue code(1)
    by (auto simp: RequestCode_def AuthStore_def TravellerByEmail_calm AuthCodeFor_def calm_simps_auth Let_def
       
        scan_traveller_def split: option.splits)
  with that Some show thesis by (auto simp: pg_account_def)
qed

lemma SignIn_calm_refused:
  assumes "au_faults s = []" "checkEmail email = Inr ()" "list_all code_ck (au_codes (au_db s))"
    and "\<forall>tr c h. pg_account s email = Some tr \<and> pg_codes s (trv_ID tr) = Some c \<and>
       HashCode sha (trv_ID tr) code = Inr h \<longrightarrow> \<not> SameHash h (sic_Hash c)"
    and nul: "CHR 0x00 \<notin> set email"
  shows "fst (SignInWithCode sha AuthStore T now later drawn email code s) = Inl ErrBadCredentials"
proof (cases "find_address s email")
  case None
  then show ?thesis
    using assms(1,2) nul
    by (simp add: SignInWithCode_def held_code_def AuthStore_def TravellerByEmail_calm calm_simps_auth)
next
  case (Some r)
  let ?t = "tv_id r"
  show ?thesis
  proof (cases "find_code (au_db s) ?t")
    case None
    with Some assms(1,2) nul show ?thesis
      by (simp add: SignInWithCode_def held_code_def AuthStore_def TravellerByEmail_calm AuthCodeFor_def calm_simps_auth
          scan_traveller_def)
  next
    case row: (Some x)
    have wrong: "case HashCode sha ?t code of Inl _ \<Rightarrow> True | Inr p \<Rightarrow> \<not> SameHash p (sic_Hash (scan_code x))"
      using assms(4) Some row by (auto simp: pg_account_def pg_codes_def scan_traveller_def split: sum.splits)
    have held: "held_code AuthStore email s = (Inr (scan_traveller r, scan_code x), s)"
      using Some row assms(1,2) nul
      by (simp add: held_code_def AuthStore_def TravellerByEmail_calm AuthCodeFor_def calm_simps_auth scan_traveller_def
         )
    have burn: "\<exists>u'. AuthBurnCode ?t u = (Inr (), u')" if "au_faults u = []" for u
      using that by (simp add: AuthBurnCode_def au_sql_calm)
    have count: "\<exists>m s1. AuthCountAttempt ?t s = (Inr m, s1) \<and> au_faults s1 = []" if "cr_attempts x < MaxCodeAttempts"
      using that row assms(1)
      by (simp add: AuthCountAttempt_def countAttemptSQL_def calm_simps_auth Let_def MaxCodeAttempts_def)
    show ?thesis
    proof (cases "\<not> now < sic_ExpiresAt (scan_code x) \<or> MaxCodeAttempts \<le> sic_Attempts (scan_code x)")
      case True
      with burn [OF assms(1)] held show ?thesis
        by (auto simp: SignInWithCode_def a_bind_def present_code_def AuthStore_def scan_traveller_def)
    next
      case False
      then obtain m s1 where m: "AuthCountAttempt ?t s = (Inr m, s1)" "au_faults s1 = []"
        using count by (auto simp: scan_code_def)
      with burn [OF m(2)] held False wrong show ?thesis
        by (auto simp: SignInWithCode_def a_bind_def a_try_def present_code_def AuthStore_def scan_traveller_def split: sum.splits)
    qed
  qed
qed

lemma cred_answer_Inl: "fst (m s) = Inl e \<Longrightarrow> fst (cred_answer m ok s) = writeAuthFailure e"
  by (cases "m s") (simp add: cred_answer_def)

lemma refused_text: "\<not> auth_down (ErrStorage character_not_in_repertoire)"
  by (simp add: auth_down_def db_down_def serverGaveUp_def character_not_in_repertoire_def)

text \<open>C17: Asking for a code and a refused sign-in do not tell whether an address has an account. With a
  driver that does not fail, asking for a code is answered 202 for every well-formed address and 422
  for every other, known or not (an address with a NUL byte passes the check and is refused by the
  database: 500), and a sign-in that does not hold the right code is answered 401 with the same body
  whether the address is unknown, has no code, has one that is expired or used up, or has another.
  A mail goes only to the address on file. Nothing is said of registration, which answers 409 for an
  address that is taken.\<close>

theorem answers_do_not_tell_accounts:
  assumes "au_faults a = []" "aw_code w = Some n" "n < codeSpace"
    and "\<forall>r \<in> set (travellers (au_log (au_db a))). travellerRe (tv_id r)" "\<forall>bs. length (aw_sha w bs) = 32"
    and "au_now a < to_timestamptz (au_log (au_db a)) (aw_later w + CodeTTL)" "list_all code_ck (au_codes (au_db a))"
    and "\<forall>tr c h. pg_account a email = Some tr \<and> pg_codes a (trv_ID tr) = Some c \<and>
       HashCode (aw_sha w) (trv_ID tr) code = Inr h \<longrightarrow> \<not> SameHash h (sic_Hash c)"
  shows "fst (fst (requestCode_handler w (Inr email) a)) =
       (if checkEmail email \<noteq> Inr () then WriteFieldError ''email''
        else if CHR 0x00 \<in> set email then WriteError CodeInternal else WriteJSON 202 NoBody) \<and>
     fst (signIn_handler w (Inr \<lparr>crd_Email = email, crd_Code = code, crd_Invite = i\<rparr>) a) =
       (if checkEmail email \<noteq> Inr () then WriteFieldError ''email''
        else if CHR 0x00 \<in> set email then WriteError CodeInternal else WriteError CodeUnauthenticated) \<and>
     (\<forall>address sent. snd (fst (requestCode_handler w (Inr email) a)) = Some (address, sent) \<longrightarrow>
       (\<exists>tr. pg_account a email = Some tr \<and> address = trv_Email tr))"
proof (cases "checkEmail email = Inr ()")
  case False
  then have bad: "checkEmail email = Inl (InvalidFieldError ''email'')" by (auto simp: checkEmail_def split: if_splits)
  then have "RequestCode (aw_sha w) AuthStore (aw_now w) (aw_later w) (Some n) email a = (Inl (InvalidFieldError ''email''), a)"
    "fst (SignInWithCode (aw_sha w) AuthStore (aw_TTL w) (aw_now w) (aw_later w) (aw_token w) email code a) =
       Inl (InvalidFieldError ''email'')"
    by (simp_all add: RequestCode_def SignInWithCode_def held_code_def a_bind_def)
  with False assms(2) show ?thesis
    by (simp add: requestCode_handler_def signIn_handler_def cred_body_def cred_answer_Inl writeAuthFailure_def)
next
  case True
  show ?thesis
  proof (cases "CHR 0x00 \<in> set email")
    case nul: True
    have "RequestCode (aw_sha w) AuthStore (aw_now w) (aw_later w) (Some n) email a =
        (Inl (ErrStorage character_not_in_repertoire), a)"
      "fst (SignInWithCode (aw_sha w) AuthStore (aw_TTL w) (aw_now w) (aw_later w) (aw_token w) email code a) =
        Inl (ErrStorage character_not_in_repertoire)"
      using True nul assms(1)
      by (simp_all add: RequestCode_def SignInWithCode_def held_code_def AuthStore_def TravellerByEmail_calm
          calm_simps_auth)
    with True nul assms(2) show ?thesis
      by (simp add: requestCode_handler_def signIn_handler_def cred_body_def cred_answer_Inl writeAuthFailure_def
          refused_text)
  next
    case nul: False
    from RequestCode_calm [OF assms(1,3-6) True nul, of "aw_now w"] obtain send s' where
      run: "RequestCode (aw_sha w) AuthStore (aw_now w) (aw_later w) (Some n) email a = (Inr send, s')"
      and to: "\<And>code tr. send = Some (code, tr) \<Longrightarrow> pg_account a email = Some tr" by metis
    have "fst (SignInWithCode (aw_sha w) AuthStore (aw_TTL w) (aw_now w) (aw_later w) (aw_token w) email code a) =
        Inl ErrBadCredentials" by (rule SignIn_calm_refused [OF assms(1) True assms(7,8) nul])
    with True nul run to assms(2) show ?thesis
      by (auto simp: requestCode_handler_def signIn_handler_def cred_body_def cred_answer_Inl writeAuthFailure_def)
  qed
qed

theorem answers_do_not_tell_accounts_witness:
  "fst (fst (requestCode_handler (sw_cred sample_world) (Inr ''no@bo.dy'') auth_sample)) =
     fst (fst (requestCode_handler (sw_cred sample_world) (Inr ''e@f.gh'') auth_sample))"
proof -
  let ?w = "sw_cred sample_world"
  have now: "au_now auth_sample < to_timestamptz (au_log (au_db auth_sample)) (aw_later ?w + CodeTTL)"
    and ck: "list_all code_ck (au_codes (au_db auth_sample))" and ids: "travellerRe sample_uuid" by code_simp+
  have ids': "\<forall>r \<in> set (travellers (au_log (au_db auth_sample))). travellerRe (tv_id r)"
    using ids by (simp add: auth_sample_def auth_log_def)
  have world: "aw_code ?w = Some 42" "\<forall>bs. length (aw_sha ?w bs) = 32" "42 < codeSpace"
    by (simp_all add: sample_world_def sample_sha2_def codeSpace_def)
  have short: "\<forall>tr c h. pg_account auth_sample email = Some tr \<and> pg_codes auth_sample (trv_ID tr) = Some c \<and>
       HashCode (aw_sha ?w) (trv_ID tr) [] = Inr h \<longrightarrow> \<not> SameHash h (sic_Hash c)" for email
    by (simp add: HashCode_def CodeDigits_def)
  have good: "checkEmail ''no@bo.dy'' = Inr ()" "checkEmail ''e@f.gh'' = Inr ()" by code_simp+
  have calm: "au_faults auth_sample = []" by (simp add: auth_sample_def)
  have "fst (fst (requestCode_handler ?w (Inr email) auth_sample)) = WriteJSON 202 NoBody"
    if "checkEmail email = Inr ()" "CHR 0x00 \<notin> set email" for email
    using conjunct1 [OF answers_do_not_tell_accounts [OF calm world(1,3) ids' world(2) now ck short]] that by simp
  with good show ?thesis by simp
qed

end
