(* ===== verification/Sweep.thy ===== *)
theory Sweep
  imports Object_Store Clock
begin

section \<open>The sweep (\<^verbatim>\<open>internal/sweep/sweep.go\<close>)\<close>

text \<open>
  \<open>Plan\<close> compares a listing of the bucket with the keys the database references; \<open>Apply\<close> deletes what
  is left over. The lister's answer and the deleter are parameters, as they are in Go; the lemmas
  hold for every bucket of the interface \<open>object_store\<close>.
\<close>

record found =
  fd_Orphans :: "object_key list"
  fd_Bytes :: int
  fd_Seen :: nat
  fd_Skipped :: nat

definition listed_key :: "listing \<Rightarrow> object_key" where
  "listed_key item = \<lparr>key_Traveller = ls_Traveller item, key_Object = ls_Object item\<rparr>"

definition path_of :: "object_key \<Rightarrow> string" where
  "path_of k = key_Traveller k @ ''/'' @ key_Object k"

text \<open>The body of the loop. \<open>found.Bytes\<close> is an \<open>int64\<close>; the sizes of one bucket do not reach its end.\<close>

definition plan_item :: "string set \<Rightarrow> instant \<Rightarrow> int \<Rightarrow> listing \<Rightarrow> found \<Rightarrow> found" where
  "plan_item known_keys now minAge item f =
     (if path_of (listed_key item) \<in> known_keys then f
      else if Sub now (ls_LastModified item) < minAge then f\<lparr>fd_Skipped := fd_Skipped f + 1\<rparr>
      else f\<lparr>fd_Orphans := fd_Orphans f @ [listed_key item], fd_Bytes := fd_Bytes f + ls_Size item\<rparr>)"

definition Plan :: "'e + listing list \<Rightarrow> string set \<Rightarrow> instant \<Rightarrow> int \<Rightarrow> 'e + found" where
  "Plan listed known_keys now minAge =
     and_then listed (\<lambda>listings.
       Inr (fold (plan_item known_keys now minAge) listings
              \<lparr>fd_Orphans = [], fd_Bytes = 0, fd_Seen = length listings, fd_Skipped = 0\<rparr>))"

fun Apply :: "(object_key \<Rightarrow> 'b \<Rightarrow> 'e + 'b) \<Rightarrow> object_key list \<Rightarrow> 'b \<Rightarrow> (nat \<times> (object_key \<times> 'e) list) \<times> 'b" where
  "Apply delete [] b = ((0, []), b)"
| "Apply delete (key # keys) b =
     (case delete key b of
        Inl e \<Rightarrow> (case Apply delete keys b of ((n, failed), b') \<Rightarrow> ((n, (key, e) # failed), b'))
      | Inr b1 \<Rightarrow> (case Apply delete keys b1 of ((n, failed), b') \<Rightarrow> ((n + 1, failed), b')))"

subsection \<open>What is planned\<close>

definition orphan :: "string set \<Rightarrow> instant \<Rightarrow> int \<Rightarrow> listing \<Rightarrow> bool" where
  "orphan known_keys now minAge item \<longleftrightarrow>
     path_of (listed_key item) \<notin> known_keys \<and> minAge \<le> Sub now (ls_LastModified item)"

definition young :: "string set \<Rightarrow> instant \<Rightarrow> int \<Rightarrow> listing \<Rightarrow> bool" where
  "young known_keys now minAge item \<longleftrightarrow>
     path_of (listed_key item) \<notin> known_keys \<and> Sub now (ls_LastModified item) < minAge"

lemma fold_plan:
  "fold (plan_item K now m) listings f = f\<lparr>
     fd_Orphans := fd_Orphans f @ map listed_key (filter (orphan K now m) listings),
     fd_Bytes := fd_Bytes f + sum_list (map ls_Size (filter (orphan K now m) listings)),
     fd_Skipped := fd_Skipped f + length (filter (young K now m) listings)\<rparr>"
  by (induction listings arbitrary: f) (auto simp: plan_item_def orphan_def young_def)

lemma Plan_Inr:
  "Plan (Inr listings) K now m = Inr
     \<lparr>fd_Orphans = map listed_key (filter (orphan K now m) listings),
      fd_Bytes = sum_list (map ls_Size (filter (orphan K now m) listings)),
      fd_Seen = length listings, fd_Skipped = length (filter (young K now m) listings)\<rparr>"
  by (simp add: Plan_def fold_plan)

subsection \<open>What is deleted\<close>

lemma Apply_counts:
  "Apply delete keys b = ((n, failed), b') \<Longrightarrow> n + length failed = length keys \<and> set (map fst failed) \<subseteq> set keys"
proof (induction keys arbitrary: b n failed)
  case (Cons key keys)
  show ?case
  proof (cases "delete key b")
    case (Inl e)
    then obtain failed' where "Apply delete keys b = ((n, failed'), b')" "failed = (key, e) # failed'"
      using Cons.prems by (auto split: prod.splits)
    with Cons.IH [of b n failed'] show ?thesis by auto
  next
    case (Inr b1)
    then obtain m where "Apply delete keys b1 = ((m, failed), b')" "n = m + 1"
      using Cons.prems by (auto split: prod.splits)
    with Cons.IH [of b1 m failed] show ?thesis by auto
  qed
qed simp

context object_store
begin

lemma apply_keeps:
  assumes "Apply delete keys s = (r, s')" "k \<notin> set keys"
  shows "stat s' k = stat s k"
  using assms
proof (induction keys arbitrary: s r)
  case (Cons key keys)
  show ?case
  proof (cases "delete key s")
    case (Inl e)
    with Cons show ?thesis by (auto split: prod.splits)
  next
    case (Inr s1)
    with Cons stat_delete_other [OF Inr, of k] show ?thesis by (auto split: prod.splits)
  qed
qed simp

lemma gone_stays_gone:
  assumes "Apply delete keys s = (r, s')" "stat s k = Inl ErrNoSuchObject"
  shows "stat s' k = Inl ErrNoSuchObject"
  using assms
proof (induction keys arbitrary: s r)
  case (Cons key keys)
  show ?case
  proof (cases "delete key s")
    case (Inl e)
    with Cons show ?thesis by (auto split: prod.splits)
  next
    case (Inr s1)
    then have "stat s1 k = Inl ErrNoSuchObject"
      using stat_delete [OF Inr] stat_delete_other [OF Inr, of k] Cons.prems(2) by (cases "k = key") auto
    with Inr Cons show ?thesis by (auto split: prod.splits)
  qed
qed simp

lemma apply_removes:
  assumes "Apply delete keys s = ((n, failed), s')" "k \<in> set keys" "k \<notin> set (map fst failed)"
  shows "stat s' k = Inl ErrNoSuchObject"
  using assms
proof (induction keys arbitrary: s n failed)
  case (Cons key keys)
  show ?case
  proof (cases "delete key s")
    case (Inl e)
    with Cons show ?thesis by (auto split: prod.splits)
  next
    case (Inr s1)
    then obtain n1 where run: "Apply delete keys s1 = ((n1, failed), s')" using Cons.prems(1) by (auto split: prod.splits)
    show ?thesis
    proof (cases "k = key")
      case True
      with stat_delete [OF Inr] gone_stays_gone [OF run] show ?thesis by simp
    next
      case False
      with Cons.IH [OF run] Cons.prems(2,3) show ?thesis by simp
    qed
  qed
qed simp

end

end
