(* ===== verification/Admin.thy ===== *)
theory Admin
  imports Auth_Store Sweep System
begin

section \<open>The back office's store and the sweep program (\<^verbatim>\<open>admin_store.go\<close>, \<^verbatim>\<open>cmd/sweep\<close>)\<close>

text \<open>
  \<open>AdminStore\<close>: its counts, its lists of sessions and of referenced objects, and its writes, over
  the same tables. Ids arrive from the panel as text, so the cast \<open>$1::uuid\<close> is a parameter: the
  canonical text of the uuid, or nothing when the server refuses it. Then \<open>run\<close> of \<^verbatim>\<open>cmd/sweep\<close>, with
  the listing of the bucket as a parameter. The rows have no \<open>created_at\<close> for travellers and
  invites, so the two lists ordered by it are left out.
\<close>

subsection \<open>Deleting a traveller\<close>

text \<open>
  Each of the eleven tables with a \<open>traveller_id\<close> has a cascade of its own from \<open>travellers\<close>; the
  \<open>RESTRICT\<close> keys between them are checked when all of these have run, so they find nothing.
  \<open>invite_codes.used_by\<close> is set to null and \<open>used_at\<close> stays.
\<close>

definition delete_traveller :: "id \<Rightarrow> database \<Rightarrow> database" where
  "delete_traveller t d = d\<lparr>
     travellers := del_rows (\<lambda>r. tv_id r = t) (travellers d),
     media_objects := del_rows (\<lambda>r. md_traveller r = t) (media_objects d),
     cities := del_rows (\<lambda>r. ct_traveller r = t) (cities d),
     trips := del_rows (\<lambda>r. tr_traveller r = t) (trips d),
     trip_cities := del_rows (\<lambda>r. tc_traveller r = t) (trip_cities d),
     places := del_rows (\<lambda>r. pl_traveller r = t) (places d),
     visits := del_rows (\<lambda>r. vs_traveller r = t) (visits d),
     photos := del_rows (\<lambda>r. ph_traveller r = t) (photos d),
     walks := del_rows (\<lambda>r. wk_traveller r = t) (walks d),
     share_links := del_rows (\<lambda>r. sh_traveller r = t) (share_links d)\<rparr>"

definition deleteTravellerSQL :: "id \<Rightarrow> unit auth_stmt" where
  "deleteTravellerSQL t s = (let d = au_db s in Inr ((), d\<lparr>
     au_log := delete_traveller t (au_log d),
     au_sessions := del_rows (\<lambda>r. sn_traveller r = t) (au_sessions d),
     au_codes := del_rows (\<lambda>r. cr_traveller r = t) (au_codes d),
     au_invites := upd_rows (\<lambda>r. iv_used_by r = Some t) (\<lambda>r. r\<lparr>iv_used_by := None\<rparr>) (au_invites d)\<rparr>))"

definition with_uuid :: "(string \<Rightarrow> id option) \<Rightarrow> string \<Rightarrow> (id \<Rightarrow> 'a auth_stmt) \<Rightarrow> 'a auth_stmt" where
  "with_uuid uuid text st s = (case uuid text of None \<Rightarrow> Inl (SqlState ''22P02'') | Some i \<Rightarrow> st i s)"

text \<open>The last statement of a transaction and its commit.\<close>

definition au_committed :: "'a auth_stmt \<Rightarrow> (auth_state, 'a) act" where
  "au_committed stmt s =
     (case au_next s of (f, s1) \<Rightarrow>
        case f of
          Some e \<Rightarrow> (Inl (ErrStorage (fault_error e)), s1)
        | None \<Rightarrow> (case stmt s1 of Inl e \<Rightarrow> (Inl (ErrStorage e), s1) | Inr _ \<Rightarrow> au_sql stmt s1))"

definition objects_of :: "id \<Rightarrow> auth_state \<Rightarrow> digest list" where
  "objects_of t s = map md_id (filter (\<lambda>r. md_traveller r = t) (media_objects (au_log (au_db s))))"

definition AdminDeleteTraveller :: "(string \<Rightarrow> id option) \<Rightarrow> string \<Rightarrow> (auth_state, digest list) act" where
  "AdminDeleteTraveller uuid text =
     a_bind (au_query (\<lambda>_. ())) (\<lambda>_.
     a_bind (au_sql (with_uuid uuid text (\<lambda>t s. Inr (t, au_db s)))) (\<lambda>t.
     a_bind (au_query (\<lambda>s. has_traveller (au_log (au_db s)) t)) (\<lambda>held.
     if \<not> held then a_lift (Inl ErrUnknownTraveller)
     else
       a_bind (au_query (objects_of t)) (\<lambda>objects.
       a_bind (au_committed (deleteTravellerSQL t)) (\<lambda>_. a_return objects)))))"

subsection \<open>The other writes\<close>

definition AdminRename :: "id \<Rightarrow> string \<Rightarrow> int tx" where
  "AdminRename t name = t_bind (SetTravellerName t name) (\<lambda>(_, version). t_return version)"

definition AdminMintInvite :: "hash \<Rightarrow> string \<Rightarrow> (auth_state, unit) act" where
  "AdminMintInvite h note = AuthMintInvite h note"

definition AdminDeleteInvite :: "hash \<Rightarrow> (auth_state, unit) act" where
  "AdminDeleteInvite h =
     au_sql (\<lambda>s. Inr ((), (au_db s)\<lparr>au_invites := del_rows (\<lambda>r. iv_hash r = h) (au_invites (au_db s))\<rparr>))"

definition AdminRevokeSessionByID :: "(string \<Rightarrow> id option) \<Rightarrow> string \<Rightarrow> (auth_state, unit) act" where
  "AdminRevokeSessionByID uuid text =
     a_bind (au_sql (with_uuid uuid text (\<lambda>i s.
       update_sessions (\<lambda>r. sn_id r = i \<and> sn_revoked r = None) (\<lambda>r. r\<lparr>sn_revoked := Some (au_now s)\<rparr>) s)))
     (\<lambda>_. a_return ())"

subsection \<open>Reads\<close>

record overview =
  ov_Travellers :: nat
  ov_Trips :: nat
  ov_Photos :: nat
  ov_Places :: nat
  ov_LiveSessions :: nat
  ov_UnusedInvites :: nat
  ov_BucketBytes :: int

definition live_session :: "instant \<Rightarrow> session_row \<Rightarrow> bool" where
  "live_session now r \<longleftrightarrow> now < sn_expires r \<and> sn_revoked r = None"

definition stored_bytes :: "media_row list \<Rightarrow> int" where
  "stored_bytes rows = sum_list (map md_size (filter (\<lambda>r. md_uploaded r \<noteq> None) rows))"

definition Overview :: "(auth_state, overview) act" where
  "Overview = au_query (\<lambda>s. let d = au_db s; lg = au_log d in
     \<lparr>ov_Travellers = length (travellers lg), ov_Trips = length (trips lg),
      ov_Photos = length (photos lg), ov_Places = length (places lg),
      ov_LiveSessions = length (filter (live_session (au_now s)) (au_sessions d)),
      ov_UnusedInvites = length (filter (\<lambda>r. iv_used_at r = None) (au_invites d)),
      ov_BucketBytes = stored_bytes (media_objects lg)\<rparr>)"

record traveller_detail =
  de_ID :: id
  de_Email :: string
  de_Name :: string
  de_LogbookVersion :: int
  de_Trips :: nat
  de_Photos :: nat
  de_Cities :: nat
  de_Places :: nat
  de_Visits :: nat
  de_Walks :: nat
  de_BucketBytes :: int

definition travellerSQL :: "id \<Rightarrow> auth_state \<Rightarrow> traveller_detail option" where
  "travellerSQL t s =
     (let v = view t (au_log (au_db s)) in
      map_option (\<lambda>r. \<lparr>de_ID = tv_id r, de_Email = tv_email r, de_Name = (case tv_name r of None \<Rightarrow> [] | Some n \<Rightarrow> n),
         de_LogbookVersion = tv_version r, de_Trips = length (trips v), de_Photos = length (photos v),
         de_Cities = length (cities v), de_Places = length (places v), de_Visits = length (visits v),
         de_Walks = length (walks v), de_BucketBytes = stored_bytes (media_objects v)\<rparr>)
        (find_traveller (au_log (au_db s)) t))"

definition AdminTraveller :: "(string \<Rightarrow> id option) \<Rightarrow> string \<Rightarrow> (auth_state, traveller_detail) act" where
  "AdminTraveller uuid text =
     a_bind (au_sql (with_uuid uuid text (\<lambda>t s. Inr (travellerSQL t s, au_db s)))) (\<lambda>row.
     a_lift (case row of None \<Rightarrow> Inl ErrUnknownTraveller | Some d \<Rightarrow> Inr d))"

record session_line =
  sl_ID :: id
  sl_Email :: string
  sl_CreatedAt :: instant
  sl_LastUsedAt :: instant
  sl_ExpiresAt :: instant

text \<open>Most recently used first; the text is empty for everybody's sessions.\<close>

definition sessionsSQL :: "id option \<Rightarrow> auth_state \<Rightarrow> session_line list" where
  "sessionsSQL whose s =
     (let d = au_db s;
          rows = filter (\<lambda>r. live_session (au_now s) r \<and> (case whose of None \<Rightarrow> True | Some t \<Rightarrow> sn_traveller r = t))
                   (au_sessions d)
      in List.map_filter (\<lambda>r. map_option (\<lambda>t.
             \<lparr>sl_ID = sn_id r, sl_Email = tv_email t, sl_CreatedAt = sn_created r,
              sl_LastUsedAt = sn_last_used r, sl_ExpiresAt = sn_expires r\<rparr>)
             (find_traveller (au_log d) (sn_traveller r)))
           (sort_key (\<lambda>r. - sn_last_used r) rows))"

definition AdminSessions :: "(string \<Rightarrow> id option) \<Rightarrow> string \<Rightarrow> (auth_state, session_line list) act" where
  "AdminSessions uuid text =
     au_sql (if text = [] then (\<lambda>s. Inr (sessionsSQL None s, au_db s))
             else with_uuid uuid text (\<lambda>t s. Inr (sessionsSQL (Some t) s, au_db s)))"

definition known_objects :: "auth_db \<Rightarrow> string set" where
  "known_objects d = (\<lambda>r. md_traveller r @ ''/'' @ md_id r) ` set (media_objects (au_log d))"

definition KnownObjects :: "(auth_state, string set) act" where
  "KnownObjects = au_query (\<lambda>s. known_objects (au_db s))"

subsection \<open>The sweep program\<close>

definition minAge :: int where "minAge = 24 * 3600 * second"

datatype sweep_error = MissingFlag | Database auth_error | Bucket object_error | NotRemoved nat

text \<open>The answer is what was found and how many objects were removed.\<close>

definition sweep_run ::
  "('b \<Rightarrow> object_error + listing list) \<Rightarrow> (object_key \<Rightarrow> 'b \<Rightarrow> object_error + 'b) \<Rightarrow>
   string \<Rightarrow> string \<Rightarrow> string \<Rightarrow> instant \<Rightarrow> bool \<Rightarrow> 'b \<Rightarrow> auth_state \<Rightarrow>
   (sweep_error + found \<times> nat) \<times> 'b \<times> auth_state" where
  "sweep_run objects delete dsn endpoint bucket now remove b s =
     (if dsn = [] \<or> endpoint = [] \<or> bucket = [] then (Inl MissingFlag, b, s)
      else case KnownObjects s of
        (Inl e, s') \<Rightarrow> (Inl (Database e), b, s')
      | (Inr known_keys, s') \<Rightarrow>
          (case Plan (objects b) known_keys now minAge of
             Inl e \<Rightarrow> (Inl (Bucket e), b, s')
           | Inr found \<Rightarrow>
               if \<not> remove \<or> fd_Orphans found = [] then (Inr (found, 0), b, s')
               else case Apply delete (fd_Orphans found) b of
                 ((n, failed), b') \<Rightarrow>
                   (if failed = [] then Inr (found, n) else Inl (NotRemoved (length failed)), b', s')))"

definition sample_auth :: auth_state where
  "sample_auth = \<lparr>au_db = \<lparr>au_log = sample,
       au_sessions = [\<lparr>sn_id = ''s1'', sn_traveller = ''u1'', sn_hash = hash_a, sn_created = 0, sn_last_used = 5,
          sn_expires = 900, sn_revoked = None\<rparr>,
         \<lparr>sn_id = ''s2'', sn_traveller = ''u2'', sn_hash = replicate 32 CHR ''k'', sn_created = 0, sn_last_used = 7,
          sn_expires = 900, sn_revoked = None\<rparr>],
       au_codes = [], au_invites = [\<lparr>iv_hash = hash_a, iv_used_at = Some 3, iv_used_by = Some ''u1'', iv_note = None\<rparr>]\<rparr>,
     au_now = 100, au_uuid = ''x'', au_lower = (\<lambda>x. x), au_faults = []\<rparr>"

subsection \<open>What the sweep may touch\<close>

lemma KnownObjects_run:
  assumes "KnownObjects s = (r, s')"
  shows "au_db s' = au_db s" "r = Inr keys \<Longrightarrow> keys = known_objects (au_db s)"
  using au_query_run [OF assms [unfolded KnownObjects_def]] by auto

lemma sweep_run_cases:
  assumes "sweep_run lst del dsn ep bk now remove b s = (r, b', s')"
  obtains "au_db s' = au_db s" "b' = b" "isl r"
  | listings where "au_db s' = au_db s" "b' = b" "lst b = Inr listings"
      "remove \<longrightarrow> filter (orphan (known_objects (au_db s)) now minAge) listings = []"
  | listings n failed where "au_db s' = au_db s" "remove" "lst b = Inr listings"
      "Apply del (map listed_key (filter (orphan (known_objects (au_db s)) now minAge) listings)) b = ((n, failed), b')"
      "isl r \<longleftrightarrow> failed \<noteq> []"
proof -
  obtain q s1 where K: "KnownObjects s = (q, s1)" by (cases "KnownObjects s")
  note known_run = KnownObjects_run [OF K]
  consider "dsn = [] \<or> ep = [] \<or> bk = []" | e where "\<not> (dsn = [] \<or> ep = [] \<or> bk = [])" "q = Inl e"
    | keys e where "\<not> (dsn = [] \<or> ep = [] \<or> bk = [])" "q = Inr keys" "lst b = Inl e"
    | keys listings where "\<not> (dsn = [] \<or> ep = [] \<or> bk = [])" "q = Inr keys" "lst b = Inr listings"
    by (cases q; cases "lst b") blast+
  then show ?thesis
  proof cases
    case (4 keys listings)
    let ?orphans = "map listed_key (filter (orphan (known_objects (au_db s)) now minAge) listings)"
    have plan: "Plan (lst b) keys now minAge = Inr
      \<lparr>fd_Orphans = ?orphans, fd_Bytes = sum_list (map ls_Size (filter (orphan keys now minAge) listings)),
      fd_Seen = length listings, fd_Skipped = length (filter (young keys now minAge) listings)\<rparr>"
      using 4 known_run(2) by (simp add: Plan_Inr)
    show ?thesis
    proof (cases "\<not> remove \<or> ?orphans = []")
      case True
      have "b' = b" "au_db s' = au_db s"
        using assms 4 K plan True known_run(1) by (auto simp: sweep_run_def)
      with that(2) [of listings] 4 True show ?thesis by auto
    next
      case False
      obtain n failed b1 where ap: "Apply del ?orphans b = ((n, failed), b1)" by (metis surj_pair)
      have "b' = b1" "au_db s' = au_db s" "isl r \<longleftrightarrow> failed \<noteq> []"
        using assms 4 K plan False ap known_run(1) by (auto simp: sweep_run_def split: if_splits)
      with that(3) 4 False ap show ?thesis by blast
    qed
  qed (use assms K known_run that(1) in \<open>auto simp: sweep_run_def Plan_def and_then_def\<close>)
qed

definition media_key :: "media_row \<Rightarrow> object_key" where
  "media_key r = \<lparr>key_Traveller = md_traveller r, key_Object = md_id r\<rparr>"

lemma known_media: "r \<in> set (media_objects (au_log d)) \<Longrightarrow> path_of (media_key r) \<in> known_objects d"
  by (auto simp: path_of_def media_key_def known_objects_def)

lemma sweep_effect:
  assumes "sweep_run objects Delete dsn endpoint bucket now remove b s = (r, b', s')"
  shows "au_db s' = au_db s" "\<not> remove \<Longrightarrow> b' = b"
    "row \<in> set (media_objects (au_log (au_db s))) \<Longrightarrow> Stat b' (media_key row) = Stat b (media_key row)"
    "\<lbrakk>objects b = Inr listings; \<And>i. i \<in> set listings \<Longrightarrow> listed_key i = k \<Longrightarrow> now - ls_LastModified i < minAge\<rbrakk>
       \<Longrightarrow> Stat b' k = Stat b k"
    "\<lbrakk>r = Inr done_now; remove; objects b = Inr listings; i \<in> set listings; minAge \<le> now - ls_LastModified i;
      \<And>row. row \<in> set (media_objects (au_log (au_db s))) \<Longrightarrow> path_of (media_key row) \<noteq> path_of (listed_key i)\<rbrakk>
       \<Longrightarrow> Stat b' (listed_key i) = Inl ErrNoSuchObject"
proof -
  have age: "Sub now x < minAge \<longleftrightarrow> now - x < minAge" for x
    by (rule Sub_less) (simp_all add: minAge_def)
  let ?orphan = "orphan (known_objects (au_db s)) now minAge"
  show "au_db s' = au_db s" using assms by (rule sweep_run_cases)
  show "\<not> remove \<Longrightarrow> b' = b" using assms by (rule sweep_run_cases) simp_all
  have kept: "Stat b' k = Stat b k"
    if "\<And>listings i. objects b = Inr listings \<Longrightarrow> i \<in> set listings \<Longrightarrow> ?orphan i \<Longrightarrow> listed_key i \<noteq> k" for k
    using assms
  proof (rule sweep_run_cases)
    fix listings n failed
    assume run: "objects b = Inr listings" "Apply Delete (map listed_key (filter ?orphan listings)) b = ((n, failed), b')"
    have "k \<notin> set (map listed_key (filter ?orphan listings))" using that [OF run(1)] by auto
    then show ?thesis by (rule mem.apply_keeps [OF run(2)])
  qed simp_all
  show "row \<in> set (media_objects (au_log (au_db s))) \<Longrightarrow> Stat b' (media_key row) = Stat b (media_key row)"
    by (rule kept) (metis known_media orphan_def)
  show "Stat b' k = Stat b k"
    if "objects b = Inr listings" "\<And>i. i \<in> set listings \<Longrightarrow> listed_key i = k \<Longrightarrow> now - ls_LastModified i < minAge"
    by (rule kept) (metis age linorder_not_less orphan_def sum.inject(2) that)
  show "Stat b' (listed_key i) = Inl ErrNoSuchObject"
    if i: "r = Inr done_now" "remove" "objects b = Inr listings" "i \<in> set listings" "minAge \<le> now - ls_LastModified i"
      "\<And>row. row \<in> set (media_objects (au_log (au_db s))) \<Longrightarrow> path_of (media_key row) \<noteq> path_of (listed_key i)"
  proof -
    have "path_of (listed_key i) \<notin> known_objects (au_db s)"
      using i(6) by (force simp: known_objects_def path_of_def media_key_def)
    then have orphan: "?orphan i" using i(5) by (simp add: orphan_def flip: age linorder_not_less)
    show ?thesis
      using assms
    proof (rule sweep_run_cases)
      fix items n failed
      assume run: "objects b = Inr items" "Apply Delete (map listed_key (filter ?orphan items)) b = ((n, failed), b')"
        "isl r \<longleftrightarrow> failed \<noteq> []"
      show ?thesis
        by (rule mem.apply_removes [OF run(2)]) (use run i orphan in auto)
    qed (use i orphan in \<open>auto simp: filter_empty_conv\<close>)
  qed
qed

text \<open>C23: What a sweep does to a bucket. It never writes the database. Without the delete flag it
  changes nothing. An object some row references is as it was, and so is one that the listing
  does not show or shows as younger than a day. A sweep with the flag that reports success has
  removed every listed object that is older and that no row references.\<close>

theorem sweep_removes_only_old_orphans:
  assumes "sweep_run objects Delete dsn endpoint bucket now remove b s = (r, b', s')"
  shows "au_db s' = au_db s \<and> (\<not> remove \<longrightarrow> b' = b) \<and>
    (\<forall>row \<in> set (media_objects (au_log (au_db s))). Stat b' (media_key row) = Stat b (media_key row)) \<and>
    (\<forall>listings. objects b = Inr listings \<longrightarrow>
      (\<forall>k. (\<forall>i \<in> set listings. listed_key i = k \<longrightarrow> now - ls_LastModified i < minAge) \<longrightarrow> Stat b' k = Stat b k) \<and>
      (\<not> isl r \<and> remove \<longrightarrow>
        (\<forall>i \<in> set listings. minAge \<le> now - ls_LastModified i \<and>
           (\<forall>row \<in> set (media_objects (au_log (au_db s))). path_of (media_key row) \<noteq> path_of (listed_key i)) \<longrightarrow>
           Stat b' (listed_key i) = Inl ErrNoSuchObject)))"
proof (intro conjI allI impI ballI)
  note sw = sweep_effect [OF assms]
  show "au_db s' = au_db s" by (rule sw(1))
  show "\<not> remove \<Longrightarrow> b' = b" by (rule sw(2))
  show "Stat b' (media_key row) = Stat b (media_key row)" if "row \<in> set (media_objects (au_log (au_db s)))" for row
    using that by (rule sw(3))
  show "Stat b' k = Stat b k" if "objects b = Inr listings"
    "\<forall>i \<in> set listings. listed_key i = k \<longrightarrow> now - ls_LastModified i < minAge" for listings k
    using that by (intro sw(4)) auto
  show "Stat b' (listed_key i) = Inl ErrNoSuchObject"
    if "objects b = Inr listings" "\<not> isl r \<and> remove" "i \<in> set listings"
      "minAge \<le> now - ls_LastModified i \<and>
       (\<forall>row \<in> set (media_objects (au_log (au_db s))). path_of (media_key row) \<noteq> path_of (listed_key i))"
    for listings i
    using that by (cases r) (auto intro!: sw(5))
qed

lemma sample_listing:
  "MemoryList sample_memory = [\<lparr>ls_Traveller = sample_uuid, ls_Object = replicate 64 CHR ''a'',
     ls_Size = 3, ls_LastModified = zero_time\<rparr>]"
  by code_simp

abbreviation sample_sweep :: "auth_state \<Rightarrow> (sweep_error + found \<times> nat) \<times> memory \<times> auth_state" where
  "sample_sweep \<equiv> sweep_run (\<lambda>m. Inr (MemoryList m)) Delete ''d'' ''e'' ''b'' 0 True sample_memory"

lemma sample_swept:
  assumes "path_of sample_key \<notin> known_objects (au_db s)" "au_faults s = []"
  shows "\<exists>b' s'. sample_sweep s =
    (Inr (\<lparr>fd_Orphans = [sample_key], fd_Bytes = 3, fd_Seen = 1, fd_Skipped = 0\<rparr>, 1), b', s')"
proof -
  obtain m where "Delete sample_key sample_memory = Inr m"
    using sample_address by (auto simp: Delete_Inr sample_key_def)
  moreover have "\<not> Sub 0 zero_time < minAge" by (simp add: Sub_def zero_time_def minAge_def)
  ultimately show ?thesis
    using assms
    by (simp add: sweep_run_def KnownObjects_def au_query_def au_sql_def au_next_def Plan_def sample_listing
        plan_item_def listed_key_def sample_key_def)
qed

theorem sweep_removes_only_old_orphans_witness:
  "\<exists>b' s'. sample_sweep sample_auth =
       (Inr (\<lparr>fd_Orphans = [sample_key], fd_Bytes = 3, fd_Seen = 1, fd_Skipped = 0\<rparr>, 1), b', s') \<and>
     Stat b' sample_key = Inl ErrNoSuchObject \<and> Stat sample_memory sample_key \<noteq> Inl ErrNoSuchObject"
proof -
  have none: "\<forall>row \<in> set (media_objects (au_log (au_db sample_auth))). path_of (media_key row) \<noteq> path_of sample_key"
    by code_simp
  then have "path_of sample_key \<notin> known_objects (au_db sample_auth)"
    by (auto simp: known_objects_def path_of_def media_key_def)
  from sample_swept [OF this] obtain b' s' where run: "sample_sweep sample_auth =
      (Inr (\<lparr>fd_Orphans = [sample_key], fd_Bytes = 3, fd_Seen = 1, fd_Skipped = 0\<rparr>, 1), b', s')"
    by (auto simp: sample_auth_def)
  have "minAge \<le> 0 - zero_time" by (simp add: minAge_def zero_time_def)
  then have "Stat b' sample_key = Inl ErrNoSuchObject"
    using sweep_removes_only_old_orphans [OF run] none by (simp add: sample_listing listed_key_def sample_key_def)
  with run sample_stat show ?thesis by auto
qed

subsection \<open>What a deletion leaves\<close>

text \<open>Nothing of \<open>t\<close> is in any table and everybody else's is where it was; spent invites stay spent.\<close>

definition erased :: "id \<Rightarrow> auth_state \<Rightarrow> auth_state \<Rightarrow> bool" where
  "erased t s s' \<longleftrightarrow>
     schema_ok (au_log (au_db s')) \<and> \<not> has_traveller (au_log (au_db s')) t \<and>
     (\<forall>u. u \<noteq> t \<longrightarrow> view u (au_log (au_db s')) = view u (au_log (au_db s))) \<and>
     (\<forall>row \<in> set (media_objects (au_log (au_db s'))). md_traveller row \<noteq> t) \<and>
     (\<forall>h y. pg_sessions s' h = Some y \<longrightarrow> ses_TravellerID y \<noteq> t) \<and>
     (\<forall>h y. pg_sessions s h = Some y \<and> ses_TravellerID y \<noteq> t \<longrightarrow> pg_sessions s' h = Some y) \<and>
     pg_codes s' = (pg_codes s)(t := None) \<and> pg_invites s' = pg_invites s"

lemma delete_traveller_tables:
  "travellers (delete_traveller t d) = del_rows (\<lambda>r. tv_id r = t) (travellers d)"
  "media_objects (delete_traveller t d) = del_rows (\<lambda>r. md_traveller r = t) (media_objects d)"
  "cities (delete_traveller t d) = del_rows (\<lambda>r. ct_traveller r = t) (cities d)"
  "trips (delete_traveller t d) = del_rows (\<lambda>r. tr_traveller r = t) (trips d)"
  "trip_cities (delete_traveller t d) = del_rows (\<lambda>r. tc_traveller r = t) (trip_cities d)"
  "places (delete_traveller t d) = del_rows (\<lambda>r. pl_traveller r = t) (places d)"
  "visits (delete_traveller t d) = del_rows (\<lambda>r. vs_traveller r = t) (visits d)"
  "photos (delete_traveller t d) = del_rows (\<lambda>r. ph_traveller r = t) (photos d)"
  "walks (delete_traveller t d) = del_rows (\<lambda>r. wk_traveller r = t) (walks d)"
  "share_links (delete_traveller t d) = del_rows (\<lambda>r. sh_traveller r = t) (share_links d)"
  by (simp_all add: delete_traveller_def)

lemma view_delete_traveller: "u \<noteq> t \<Longrightarrow> view u (delete_traveller t d) = view u d"
  by (auto simp: view_def delete_traveller_def filter_del_rows_other)

lemma has_delete_traveller:
  "has_traveller (delete_traveller t d) u \<longleftrightarrow> has_traveller d u \<and> u \<noteq> t"
  "has_media (delete_traveller t d) u i \<longleftrightarrow> has_media d u i \<and> u \<noteq> t"
  "has_city (delete_traveller t d) u i \<longleftrightarrow> has_city d u i \<and> u \<noteq> t"
  "has_trip (delete_traveller t d) u i \<longleftrightarrow> has_trip d u i \<and> u \<noteq> t"
  "has_place (delete_traveller t d) u i \<longleftrightarrow> has_place d u i \<and> u \<noteq> t"
  "has_visit (delete_traveller t d) u i \<longleftrightarrow> has_visit d u i \<and> u \<noteq> t"
  by (force simp: has_defs delete_traveller_def key_defs)+

lemma fk_delete_traveller:
  "md_traveller a \<noteq> t \<Longrightarrow> media_fk (delete_traveller t d) a = media_fk d a"
  "ct_traveller b \<noteq> t \<Longrightarrow> city_fk (delete_traveller t d) b = city_fk d b"
  "tr_traveller c \<noteq> t \<Longrightarrow> trip_fk (delete_traveller t d) c = trip_fk d c"
  "tc_traveller e \<noteq> t \<Longrightarrow> trip_city_fk (delete_traveller t d) e = trip_city_fk d e"
  "pl_traveller f \<noteq> t \<Longrightarrow> place_fk (delete_traveller t d) f = place_fk d f"
  "vs_traveller g \<noteq> t \<Longrightarrow> visit_fk (delete_traveller t d) g = visit_fk d g"
  "ph_traveller h \<noteq> t \<Longrightarrow> photo_fk (delete_traveller t d) h = photo_fk d h"
  "wk_traveller k \<noteq> t \<Longrightarrow> walk_fk (delete_traveller t d) k = walk_fk d k"
  "sh_traveller l \<noteq> t \<Longrightarrow> share_fk (delete_traveller t d) l = share_fk d l"
  by (simp_all add: fk_defs has_delete_traveller ref_def split: option.splits)

lemma delete_traveller_schema:
  assumes "schema_ok d"
  shows "schema_ok (delete_traveller t d)"
proof -
  have "refs_hold (delete_traveller t d)"
    using assms unfolding schema_ok_def refs_hold_def
    by (auto simp: list_all_iff fk_delete_traveller delete_traveller_tables)
  then show ?thesis
    using assms unfolding schema_ok_def unique_ok_def checks_hold_def
    by (simp add: delete_traveller_tables distinct_del_rows list_all_del_rows distinct_live_del)
qed

lemma au_committed_run:
  assumes "au_committed stmt s = (r, s')"
  shows "\<exists>fs. s' = s\<lparr>au_faults := fs\<rparr> \<and> isl r \<or>
     (\<exists>x d. stmt (s\<lparr>au_faults := fs\<rparr>) = Inr (x, d) \<and> s' = s\<lparr>au_faults := fs, au_db := d\<rparr> \<and> (r = Inr x \<or> isl r))"
proof -
  let ?s = "s\<lparr>au_faults := tl (au_faults s)\<rparr>"
  from assms consider "s' = ?s" "isl r" | "au_sql stmt ?s = (r, s')"
    by (auto simp: au_committed_def au_next_def split: list.splits option.splits sum.splits)
  then show ?thesis
  proof cases
    case 2
    from au_sql_run [OF this] show ?thesis by simp (metis isl_def)
  qed blast
qed

lemma query_hop:
  assumes "a_bind (au_query p) k s = (r, s')"
  obtains fs where "s' = s\<lparr>au_faults := fs\<rparr>" "isl r"
  | fs where "k (p (s\<lparr>au_faults := fs\<rparr>)) (s\<lparr>au_faults := fs\<rparr>) = (r, s')"
  using assms by (fastforce simp: a_bind_run dest!: au_query_run)

lemma cast_hop:
  assumes "a_bind (au_sql (with_uuid uuid text (\<lambda>t s. Inr (t, au_db s)))) k s = (r, s')"
  obtains fs where "s' = s\<lparr>au_faults := fs\<rparr>" "isl r"
  | fs t where "uuid text = Some t" "k t (s\<lparr>au_faults := fs\<rparr>) = (r, s')"
  using assms by (fastforce simp: a_bind_run with_uuid_def dest!: au_sql_run split: option.splits)

lemma find_session_kept:
  "List.find (\<lambda>r. sn_hash r = h) rs = Some r \<Longrightarrow> sn_traveller r \<noteq> t \<Longrightarrow>
   List.find (\<lambda>r. sn_hash r = h) (del_rows (\<lambda>r. sn_traveller r = t) rs) = Some r"
  by (induction rs) (auto simp: del_rows_def split: if_splits)

lemma deleteTravellerSQL_erases:
  assumes "deleteTravellerSQL t (s\<lparr>au_faults := fs\<rparr>) = Inr (x, d)" "schema_ok (au_log (au_db s))"
  shows "erased t s (s\<lparr>au_faults := fs', au_db := d\<rparr>)"
proof -
  let ?s = "s\<lparr>au_faults := fs', au_db := d\<rparr>"
  have d: "au_log d = delete_traveller t (au_log (au_db s))"
    "au_sessions d = del_rows (\<lambda>r. sn_traveller r = t) (au_sessions (au_db s))"
    "au_codes d = del_rows (\<lambda>r. cr_traveller r = t) (au_codes (au_db s))"
    "au_invites d = upd_rows (\<lambda>r. iv_used_by r = Some t) (\<lambda>r. r\<lparr>iv_used_by := None\<rparr>) (au_invites (au_db s))"
    using assms(1) by (auto simp: deleteTravellerSQL_def Let_def)
  have "pg_invites ?s = pg_invites s"
    by (simp add: fun_eq_iff pg_invites_def d invite_rows_hash invite_rows_open)
  moreover have "pg_codes ?s = (pg_codes s)(t := None)"
    by (simp add: fun_eq_iff pg_codes_def find_code_def d find_code_burned)
  moreover have "ses_TravellerID y \<noteq> t" if "pg_sessions ?s h = Some y" for h y
    using that by (auto simp: pg_sessions_def find_session_def d scan_session_def dest!: find_SomeD)
  moreover have "pg_sessions ?s h = Some y" if "pg_sessions s h = Some y" "ses_TravellerID y \<noteq> t" for h y
    using that by (auto simp: pg_sessions_def find_session_def d scan_session_def find_session_kept)
  ultimately show ?thesis
    using assms(2)
    by (auto simp: erased_def d delete_traveller_schema has_delete_traveller view_delete_traveller
        delete_traveller_tables)
qed

text \<open>Deleting a traveller is total and exact. Either the answer is an error and
  nothing changed, or the traveller the text names is erased: no table has a row of theirs, no
  session of theirs opens anything, the constraints hold, every other traveller's rows, sessions
  and codes are as they were, and spent invites stay spent. An answer without error means
  the latter, and lists exactly the objects that were theirs. (An error may also follow an
  erasure: the acknowledgement of the commit can be lost.)\<close>

lemma delete_traveller_erases:
  assumes "AdminDeleteTraveller uuid text s = (r, s')" "schema_ok (au_log (au_db s))"
  shows "isl r \<and> au_db s' = au_db s \<or>
    (\<exists>t. uuid text = Some t \<and> has_traveller (au_log (au_db s)) t \<and> erased t s s' \<and>
       (\<forall>objects. r = Inr objects \<longrightarrow>
          objects = map md_id (filter (\<lambda>row. md_traveller row = t) (media_objects (au_log (au_db s))))))"
proof -
  from assms(1) have "(\<exists>fs. s' = s\<lparr>au_faults := fs\<rparr> \<and> isl r) \<or>
    (\<exists>fs t. uuid text = Some t \<and> has_traveller (au_log (au_db s)) t \<and>
       a_bind (au_committed (deleteTravellerSQL t)) (\<lambda>_. a_return (objects_of t s)) (s\<lparr>au_faults := fs\<rparr>) = (r, s'))"
    unfolding AdminDeleteTraveller_def
  proof (elim query_hop cast_hop)
    fix f1 f2 f3 t
    let ?held = "has_traveller (au_log (au_db s)) t"
    assume t: "uuid text = Some t" and rest: "(if \<not> has_traveller (au_log (au_db (s\<lparr>au_faults := f1, au_faults := f2, au_faults := f3\<rparr>))) t
        then a_lift (Inl ErrUnknownTraveller)
        else a_bind (au_query (objects_of t))
          (\<lambda>objects. a_bind (au_committed (deleteTravellerSQL t)) (\<lambda>_. a_return objects)))
        (s\<lparr>au_faults := f1, au_faults := f2, au_faults := f3\<rparr>) = (r, s')"
    show ?thesis
    proof (cases ?held)
      case True
      with rest have "a_bind (au_query (objects_of t))
          (\<lambda>objects. a_bind (au_committed (deleteTravellerSQL t)) (\<lambda>_. a_return objects)) (s\<lparr>au_faults := f3\<rparr>) = (r, s')"
        by simp
      then show ?thesis by (rule query_hop) (use t True in \<open>auto simp: objects_of_def\<close>)
    next
      case False
      with rest show ?thesis by (auto simp: a_lift_def)
    qed
  qed auto
  then consider fs where "s' = s\<lparr>au_faults := fs\<rparr>" "isl r"
    | fs t where "uuid text = Some t" "has_traveller (au_log (au_db s)) t"
       "a_bind (au_committed (deleteTravellerSQL t)) (\<lambda>_. a_return (objects_of t s)) (s\<lparr>au_faults := fs\<rparr>) = (r, s')"
    by blast
  then show ?thesis
  proof cases
    case (2 fs t)
    obtain q where q: "au_committed (deleteTravellerSQL t) (s\<lparr>au_faults := fs\<rparr>) = (q, s')"
      "r = (case q of Inl e \<Rightarrow> Inl e | Inr _ \<Rightarrow> Inr (objects_of t s))"
      using 2(3) by (auto simp: a_bind_run a_return_def)
    from au_committed_run [OF q(1)] show ?thesis
      using 2 q(2) deleteTravellerSQL_erases [OF _ assms(2), of t]
      by (cases q) (auto simp: objects_of_def)
  qed auto
qed

end
