(* ===== verification/Admin_Panel.thy ===== *)
theory Admin_Panel
  imports Admin Rate_Limit
begin

section \<open>The back office (\<^verbatim>\<open>internal/admin\<close>)\<close>

text \<open>
  The panel's login with its lockout, its sessions, the layers \<open>Mount\<close> puts in front of every page,
  the pages and the actions. As in Go the panel works on two interfaces, \<open>Store\<close> for its reads and
  \<open>Writer\<close> for its changes, over a state \<open>'s\<close>; all it asks of an error is whether there was one, so
  an answer is an option. The bucket's \<open>Delete\<close> is a parameter, \<^const>\<open>None\<close> for a nil store. Rendering,
  the audit log and the fixed security headers are not modelled; a page is its name with the data
  the handler fills in.
\<close>

subsection \<open>The lockout\<close>

definition MaxFailures :: int where "MaxFailures = 10"
definition LockFor :: int where "LockFor = 15 * 60 * second"

record attempts =
  tr_n :: "string \<Rightarrow> int"
  tr_until :: "string \<Rightarrow> instant option"

definition newAttempts :: attempts where
  "newAttempts = \<lparr>tr_n = (\<lambda>_. 0), tr_until = (\<lambda>_. None)\<rparr>"

definition clear :: "string \<Rightarrow> attempts \<Rightarrow> attempts" where
  "clear key a = a\<lparr>tr_n := (tr_n a)(key := 0), tr_until := (tr_until a)(key := None)\<rparr>"

definition locked :: "string \<Rightarrow> instant \<Rightarrow> attempts \<Rightarrow> bool \<times> attempts" where
  "locked key now a =
     (case tr_until a key of
        None \<Rightarrow> (False, a)
      | Some until \<Rightarrow> if now < until then (True, a) else (False, clear key a))"

definition fail :: "string \<Rightarrow> instant \<Rightarrow> attempts \<Rightarrow> bool \<times> attempts" where
  "fail key now a =
     (let n = tr_n a key + 1; a1 = a\<lparr>tr_n := (tr_n a)(key := n)\<rparr>
      in if n < MaxFailures then (False, a1)
         else (True, a1\<lparr>tr_until := (tr_until a1)(key \<mapsto> now + LockFor)\<rparr>))"

subsection \<open>Sessions\<close>

definition IdleTTL :: int where "IdleTTL = 12 * 3600 * second"

record entry =
  en_csrf :: string
  en_deadline :: instant

type_synonym sessions = "(string \<times> entry) list"

definition token :: "nat list option \<Rightarrow> string option" where
  "token drawn = map_option hex drawn"

text \<open>The id and the CSRF token are two draws; either may fail.\<close>

definition New :: "nat list option \<Rightarrow> nat list option \<Rightarrow> instant \<Rightarrow> sessions \<Rightarrow> (string \<times> string) option \<times> sessions" where
  "New draw1 draw2 now m =
     (case (token draw1, token draw2) of
        (Some i, Some csrf) \<Rightarrow> (Some (i, csrf), AList.update i \<lparr>en_csrf = csrf, en_deadline = now + IdleTTL\<rparr> m)
      | _ \<Rightarrow> (None, m))"

definition Get :: "string \<Rightarrow> instant \<Rightarrow> sessions \<Rightarrow> string option \<times> sessions" where
  "Get i now m =
     (case map_of m i of
        None \<Rightarrow> (None, m)
      | Some e \<Rightarrow>
          if \<not> now < en_deadline e then (None, AList.delete i m)
          else (Some (en_csrf e), AList.update i (e\<lparr>en_deadline := now + IdleTTL\<rparr>) m))"

definition Drop :: "string \<Rightarrow> sessions \<Rightarrow> sessions" where
  "Drop i m = AList.delete i m"

subsection \<open>Invites and figures\<close>

definition InviteBytes :: nat where "InviteBytes = 10"

definition inviteAlphabet :: string where
  "inviteAlphabet = ''0123456789ABCDEFGHJKMNPQRSTVWXYZ''"

text \<open>\<open>base32\<close> without padding: five bytes are eight characters. The code encodes ten bytes, so the
  shorter groups at the end of other inputs do not arise.\<close>

fun base32 :: "nat list \<Rightarrow> string" where
  "base32 (a # b # c # d # e # s) =
     map (\<lambda>n. inviteAlphabet ! n)
       [a div 8, a mod 8 * 4 + b div 64, b div 2 mod 32, b mod 2 * 16 + c div 16, c mod 16 * 2 + d div 128,
        d div 4 mod 32, d mod 4 * 8 + e div 32, e mod 32] @ base32 s"
| "base32 _ = []"

definition NewInvite :: "(nat list \<Rightarrow> hash) \<Rightarrow> (string \<Rightarrow> string) \<Rightarrow> nat list option \<Rightarrow> (string \<times> hash) option" where
  "NewInvite sha upper drawn = map_option (\<lambda>raw. (base32 raw, HashInvite sha upper (base32 raw))) drawn"

text \<open>
  \<open>humanBytes\<close>: the loop that finds the unit, and the figure before it is printed, as a dividend, a
  divisor and a letter. Indexing the letters out of range is a panic.
\<close>

function unit_loop :: "int \<Rightarrow> int \<Rightarrow> nat \<Rightarrow> int \<times> nat" where
  "unit_loop m d e = (if m \<ge> 1024 then unit_loop (m div 1024) (d * 1024) (e + 1) else (d, e))"
  by auto
termination by (relation "measure (\<lambda>(m, _, _). nat m)") auto

declare unit_loop.simps [simp del]

datatype figure = Bytes int | Scaled int int char | Panic

definition humanBytes :: "int \<Rightarrow> figure" where
  "humanBytes n =
     (if n < 1024 then Bytes n
      else case unit_loop (n div 1024) 1024 0 of
             (d, e) \<Rightarrow> if e < 4 then Scaled n d (''KMGT'' ! e) else Panic)"

subsection \<open>The two interfaces\<close>

type_synonym ('s, 'a) ask = "'s \<Rightarrow> 'a option \<times> 's"

record traveller_line =
  tl_ID :: id
  tl_Email :: string

record invite_line =
  il_Hash :: hash
  il_Note :: string
  il_Used :: bool
  il_UsedBy :: string

record 's reads =
  rd_Overview :: "('s, overview) ask"
  rd_Travellers :: "string \<Rightarrow> int \<Rightarrow> int \<Rightarrow> ('s, traveller_line list \<times> int) ask"
  rd_Traveller :: "string \<Rightarrow> ('s, traveller_detail) ask"
  rd_Sessions :: "string \<Rightarrow> ('s, session_line list) ask"
  rd_Invites :: "('s, invite_line list) ask"

record 's writer =
  wr_Rename :: "string \<Rightarrow> string \<Rightarrow> ('s, int) ask"
  wr_MintInvite :: "hash \<Rightarrow> string \<Rightarrow> ('s, unit) ask"
  wr_DeleteInvite :: "hash \<Rightarrow> ('s, unit) ask"
  wr_RevokeSessionByID :: "string \<Rightarrow> ('s, unit) ask"
  wr_DeleteTraveller :: "string \<Rightarrow> ('s, digest list) ask"

subsection \<open>Requests and answers\<close>

datatype panel_call =
    LoginForm | LoginPost "string option" | Logout
  | OverviewPage | TravellersPage string int | TravellerPage string | SessionsPage | InvitesPage
  | RenamePost string string | MintPost string | RevokeInvitePost string | RevokeSessionPost string
  | DeletePost string string

record panel_request =
  pr_RemoteAddr :: string
  pr_Cookie :: "string option"
  pr_CSRF :: string
  pr_HX :: bool
  pr_Call :: panel_call

record page_data =
  pd_CSRF :: string
  pd_SignedIn :: bool
  pd_Failed :: bool
  pd_Locked :: bool
  pd_Error :: bool
  pd_Overview :: "overview option"
  pd_Sessions :: "session_line list"
  pd_Invites :: "invite_line list"
  pd_Travellers :: "traveller_line list"
  pd_Traveller :: "traveller_detail option"
  pd_Storage :: "figure option"
  pd_Minted :: string
  pd_Query :: string
  pd_Total :: int
  pd_Offset :: int

datatype panel_answer =
    Drawn nat string page_data
  | Fragment string page_data
  | PlainText nat
  | SeeOther string "string option"
  | HXRedirect string
  | Panics                      \<comment> \<open>nothing was answered; \<open>Recover\<close> answers 500\<close>

record ('s, 'b) panel =
  pn_tries :: attempts
  pn_sessions :: sessions
  pn_store :: 's
  pn_bucket :: 'b

record ('s, 'b) panel_deps =
  pw_Password :: string
  pw_Store :: "'s reads"
  pw_Writer :: "'s writer"
  pw_Objects :: "(object_key \<Rightarrow> 'b \<Rightarrow> object_error + 'b) option"
  pw_sha :: "nat list \<Rightarrow> hash"
  pw_upper :: "string \<Rightarrow> string"

record panel_draw =
  dr_now :: instant
  dr_id :: "nat list option"
  dr_csrf :: "nat list option"
  dr_invite :: "nat list option"

type_synonym ('s, 'b) panel_handler = "('s, 'b) panel \<Rightarrow> panel_answer \<times> ('s, 'b) panel"

definition blank :: page_data where
  "blank = \<lparr>pd_CSRF = [], pd_SignedIn = False, pd_Failed = False, pd_Locked = False, pd_Error = False,
     pd_Overview = None, pd_Sessions = [], pd_Invites = [], pd_Travellers = [], pd_Traveller = None, pd_Storage = None,
     pd_Minted = [], pd_Query = [], pd_Total = 0, pd_Offset = 0\<rparr>"

definition page :: "string \<Rightarrow> page_data" where
  "page csrf = blank\<lparr>pd_CSRF := csrf, pd_SignedIn := True\<rparr>"

text \<open>A read or a write of the store, and the page that says it failed.\<close>

definition ask :: "('s, 'a) ask \<Rightarrow> ('a option \<Rightarrow> ('s, 'b) panel_handler) \<Rightarrow> ('s, 'b) panel_handler" where
  "ask q k p = (case q (pn_store p) of (r, s) \<Rightarrow> k r (p\<lparr>pn_store := s\<rparr>))"

definition answer_with :: "panel_answer \<Rightarrow> ('s, 'b) panel_handler" where
  "answer_with a p = (a, p)"

definition fail_page :: "string \<Rightarrow> string \<Rightarrow> ('s, 'b) panel_handler" where
  "fail_page csrf name = answer_with (Drawn 500 name ((page csrf)\<lparr>pd_Failed := True\<rparr>))"

definition or_fail ::
  "string \<Rightarrow> string \<Rightarrow> ('s, 'a) ask \<Rightarrow> ('a \<Rightarrow> ('s, 'b) panel_handler) \<Rightarrow> ('s, 'b) panel_handler" where
  "or_fail csrf name q k = ask q (\<lambda>r. case r of None \<Rightarrow> fail_page csrf name | Some x \<Rightarrow> k x)"

definition with_storage :: "int \<Rightarrow> (figure \<Rightarrow> ('s, 'b) panel_handler) \<Rightarrow> ('s, 'b) panel_handler" where
  "with_storage n k = (if humanBytes n = Panic then answer_with Panics else k (humanBytes n))"

definition hxRedirect :: "bool \<Rightarrow> string \<Rightarrow> ('s, 'b) panel_handler" where
  "hxRedirect hx to = answer_with (if hx then HXRedirect to else SeeOther to None)"

subsection \<open>Login and logout\<close>

definition loginPath :: string where "loginPath = ''/admin/login''"

definition Login ::
  "('s, 'b) panel_deps \<Rightarrow> panel_draw \<Rightarrow> panel_request \<Rightarrow> string option \<Rightarrow> ('s, 'b) panel_handler" where
  "Login d w rq form p =
     (let key = ClientKey (pr_RemoteAddr rq); now = dr_now w in
      case locked key now (pn_tries p) of (shut, tries) \<Rightarrow>
        if shut then (Drawn 429 ''login'' (blank\<lparr>pd_Locked := True\<rparr>), p\<lparr>pn_tries := tries\<rparr>)
        else case form of
          None \<Rightarrow> (Drawn 400 ''login'' (blank\<lparr>pd_Failed := True\<rparr>), p\<lparr>pn_tries := tries\<rparr>)
        | Some given \<Rightarrow>
            if given \<noteq> pw_Password d
            then (Drawn 401 ''login'' (blank\<lparr>pd_Failed := True\<rparr>), p\<lparr>pn_tries := snd (fail key now tries)\<rparr>)
            else case New (dr_id w) (dr_csrf w) now (pn_sessions p) of
              (None, m) \<Rightarrow>
                (Drawn 500 ''login'' (blank\<lparr>pd_Failed := True\<rparr>), p\<lparr>pn_tries := tries, pn_sessions := m\<rparr>)
            | (Some (i, csrf), m) \<Rightarrow>
                (SeeOther ''/admin'' (Some i), p\<lparr>pn_tries := clear key tries, pn_sessions := m\<rparr>))"

definition logout :: "panel_request \<Rightarrow> ('s, 'b) panel_handler" where
  "logout rq p =
     (SeeOther loginPath (Some []),
      case pr_Cookie rq of None \<Rightarrow> p | Some c \<Rightarrow> p\<lparr>pn_sessions := Drop c (pn_sessions p)\<rparr>)"

subsection \<open>Pages\<close>

definition PageSize :: int where "PageSize = 25"

definition overview_page :: "'s reads \<Rightarrow> string \<Rightarrow> ('s, 'b) panel_handler" where
  "overview_page st csrf =
     or_fail csrf ''dashboard'' (rd_Overview st) (\<lambda>ov.
     or_fail csrf ''dashboard'' (rd_Sessions st []) (\<lambda>ss.
     with_storage (ov_BucketBytes ov) (\<lambda>storage.
     answer_with (Drawn 200 ''dashboard'' ((page csrf)\<lparr>pd_Overview := Some ov, pd_Storage := Some storage,
       pd_Sessions := ss\<rparr>)))))"

definition travellers_page :: "'s reads \<Rightarrow> string \<Rightarrow> bool \<Rightarrow> string \<Rightarrow> int \<Rightarrow> ('s, 'b) panel_handler" where
  "travellers_page st csrf hx q wanted =
     (let from = max 0 wanted in
      or_fail csrf ''travellers'' (rd_Travellers st q PageSize from) (\<lambda>(rows, total).
        let data = (page csrf)\<lparr>pd_Query := q, pd_Travellers := rows, pd_Total := total, pd_Offset := from\<rparr>
        in answer_with (if hx then Fragment ''rows'' data else Drawn 200 ''travellers'' data)))"

definition traveller_page :: "'s reads \<Rightarrow> string \<Rightarrow> string \<Rightarrow> ('s, 'b) panel_handler" where
  "traveller_page st csrf i =
     ask (rd_Traveller st i) (\<lambda>r.
       case r of
         None \<Rightarrow> answer_with (Drawn 404 ''traveller'' ((page csrf)\<lparr>pd_Failed := True\<rparr>))
       | Some detail \<Rightarrow>
           or_fail csrf ''traveller'' (rd_Sessions st i) (\<lambda>ss.
           with_storage (de_BucketBytes detail) (\<lambda>storage.
           answer_with (Drawn 200 ''traveller'' ((page csrf)\<lparr>pd_Traveller := Some detail,
             pd_Storage := Some storage, pd_Sessions := ss\<rparr>)))))"

definition sessionsPage :: "'s reads \<Rightarrow> string \<Rightarrow> ('s, 'b) panel_handler" where
  "sessionsPage st csrf =
     or_fail csrf ''sessions'' (rd_Sessions st []) (\<lambda>ss.
     answer_with (Drawn 200 ''sessions'' ((page csrf)\<lparr>pd_Sessions := ss\<rparr>)))"

definition invitesPage :: "'s reads \<Rightarrow> string \<Rightarrow> ('s, 'b) panel_handler" where
  "invitesPage st csrf =
     or_fail csrf ''invites'' (rd_Invites st) (\<lambda>rows.
     answer_with (Drawn 200 ''invites'' ((page csrf)\<lparr>pd_Invites := rows\<rparr>)))"

text \<open>The pager.\<close>

definition HasPrev :: "page_data \<Rightarrow> bool" where "HasPrev d \<longleftrightarrow> pd_Offset d > 0"
definition HasNext :: "page_data \<Rightarrow> bool" where "HasNext d \<longleftrightarrow> pd_Offset d + PageSize < pd_Total d"
definition PrevOffset :: "page_data \<Rightarrow> int" where
  "PrevOffset d = (if pd_Offset d < PageSize then 0 else pd_Offset d - PageSize)"
definition NextOffset :: "page_data \<Rightarrow> int" where "NextOffset d = pd_Offset d + PageSize"

subsection \<open>Actions\<close>

text \<open>The traveller's page again, with a line on it.\<close>

definition refuse :: "'s reads \<Rightarrow> string \<Rightarrow> string \<Rightarrow> nat \<Rightarrow> ('s, 'b) panel_handler" where
  "refuse st csrf i status =
     (let data = (page csrf)\<lparr>pd_Error := True\<rparr> in
      ask (rd_Traveller st i) (\<lambda>r.
        case r of
          None \<Rightarrow> answer_with (Drawn status ''traveller'' data)
        | Some detail \<Rightarrow>
            with_storage (de_BucketBytes detail) (\<lambda>storage.
             let data1 = data\<lparr>pd_Traveller := Some detail, pd_Storage := Some storage\<rparr> in
             ask (rd_Sessions st i) (\<lambda>ss.
             answer_with (Drawn status ''traveller''
               (case ss of None \<Rightarrow> data1 | Some rows \<Rightarrow> data1\<lparr>pd_Sessions := rows\<rparr>))))))"

definition renameTraveller :: "('s, 'b) panel_deps \<Rightarrow> string \<Rightarrow> bool \<Rightarrow> string \<Rightarrow> string \<Rightarrow> ('s, 'b) panel_handler" where
  "renameTraveller d csrf hx i name =
     ask (wr_Rename (pw_Writer d) i (TrimSpace name)) (\<lambda>r.
       case r of
         None \<Rightarrow> refuse (pw_Store d) csrf i 400
       | Some _ \<Rightarrow> hxRedirect hx (''/admin/travellers/'' @ i))"

definition mintInvite :: "('s, 'b) panel_deps \<Rightarrow> panel_draw \<Rightarrow> string \<Rightarrow> string \<Rightarrow> ('s, 'b) panel_handler" where
  "mintInvite d w csrf note =
     (case NewInvite (pw_sha d) (pw_upper d) (dr_invite w) of
        None \<Rightarrow> answer_with (PlainText 500)
      | Some (code, hash) \<Rightarrow>
          ask (wr_MintInvite (pw_Writer d) hash (TrimSpace note)) (\<lambda>r.
            case r of
              None \<Rightarrow> answer_with (PlainText 500)
            | Some _ \<Rightarrow>
                or_fail csrf ''invites'' (rd_Invites (pw_Store d)) (\<lambda>rows.
                answer_with (Drawn 200 ''invites'' ((page csrf)\<lparr>pd_Invites := rows, pd_Minted := code\<rparr>)))))"

definition revokeInvite :: "('s, 'b) panel_deps \<Rightarrow> bool \<Rightarrow> string \<Rightarrow> ('s, 'b) panel_handler" where
  "revokeInvite d hx text =
     (case DecodeString text of
        None \<Rightarrow> answer_with (PlainText 400)
      | Some hash \<Rightarrow>
          ask (wr_DeleteInvite (pw_Writer d) (map char_of hash)) (\<lambda>r.
            case r of None \<Rightarrow> answer_with (PlainText 500) | Some _ \<Rightarrow> hxRedirect hx ''/admin/invites''))"

definition revokeSession_action :: "('s, 'b) panel_deps \<Rightarrow> bool \<Rightarrow> string \<Rightarrow> ('s, 'b) panel_handler" where
  "revokeSession_action d hx i =
     ask (wr_RevokeSessionByID (pw_Writer d) i) (\<lambda>r.
       case r of None \<Rightarrow> answer_with (PlainText 500) | Some _ \<Rightarrow> hxRedirect hx ''/admin/sessions'')"

text \<open>Best effort: a failure is logged and the next object is tried.\<close>

definition forget ::
  "(object_key \<Rightarrow> 'b \<Rightarrow> object_error + 'b) option \<Rightarrow> string \<Rightarrow> digest list \<Rightarrow> 'b \<Rightarrow> 'b" where
  "forget delete t objects b =
     (case delete of
        None \<Rightarrow> b
      | Some del \<Rightarrow>
          fold (\<lambda>x b. case del \<lparr>key_Traveller = t, key_Object = x\<rparr> b of Inl _ \<Rightarrow> b | Inr b' \<Rightarrow> b') objects b)"

definition deleteTraveller :: "('s, 'b) panel_deps \<Rightarrow> string \<Rightarrow> bool \<Rightarrow> string \<Rightarrow> string \<Rightarrow> ('s, 'b) panel_handler" where
  "deleteTraveller d csrf hx i email =
     ask (rd_Traveller (pw_Store d) i) (\<lambda>r.
       case r of
         None \<Rightarrow> answer_with (PlainText 404)
       | Some detail \<Rightarrow>
           if TrimSpace email \<noteq> de_Email detail then refuse (pw_Store d) csrf i 400
           else ask (wr_DeleteTraveller (pw_Writer d) i) (\<lambda>r.
             case r of
               None \<Rightarrow> refuse (pw_Store d) csrf i 500
             | Some objects \<Rightarrow>
                 (\<lambda>p. hxRedirect hx ''/admin/travellers''
                   (p\<lparr>pn_bucket := forget (pw_Objects d) i objects (pn_bucket p)\<rparr>))))"

subsection \<open>The layers\<close>

definition is_read :: "panel_call \<Rightarrow> bool" where
  "is_read c =
     (case c of LoginForm \<Rightarrow> True | OverviewPage \<Rightarrow> True | TravellersPage _ _ \<Rightarrow> True | TravellerPage _ \<Rightarrow> True
      | SessionsPage \<Rightarrow> True | InvitesPage \<Rightarrow> True | _ \<Rightarrow> False)"

definition requireSession :: "panel_draw \<Rightarrow> panel_request \<Rightarrow> (string \<Rightarrow> ('s, 'b) panel_handler) \<Rightarrow> ('s, 'b) panel_handler" where
  "requireSession w rq next p =
     (case pr_Cookie rq of
        None \<Rightarrow> (SeeOther loginPath None, p)
      | Some c \<Rightarrow>
          (case Get c (dr_now w) (pn_sessions p) of
             (None, m) \<Rightarrow> (SeeOther loginPath None, p\<lparr>pn_sessions := m\<rparr>)
           | (Some csrf, m) \<Rightarrow> next csrf (p\<lparr>pn_sessions := m\<rparr>)))"

definition requireCSRF :: "panel_request \<Rightarrow> string \<Rightarrow> ('s, 'b) panel_handler \<Rightarrow> ('s, 'b) panel_handler" where
  "requireCSRF rq want next =
     (if is_read (pr_Call rq) then next
      else if want = [] \<or> pr_CSRF rq \<noteq> want then answer_with (PlainText 403)
      else next)"

definition guarded ::
  "panel_draw \<Rightarrow> panel_request \<Rightarrow> (string \<Rightarrow> ('s, 'b) panel_handler) \<Rightarrow> ('s, 'b) panel_handler" where
  "guarded w rq h = requireSession w rq (\<lambda>csrf. requireCSRF rq csrf (h csrf))"

text \<open>\<open>Mount\<close>: without a password nothing is registered, and the answer is the mux's 404.\<close>

definition mount_panel ::
  "('s, 'b) panel_deps \<Rightarrow> panel_draw \<Rightarrow> panel_request \<Rightarrow> ('s, 'b) panel \<Rightarrow> panel_answer option \<times> ('s, 'b) panel" where
  "mount_panel d w rq p =
     (if pw_Password d = [] then (None, p)
      else map_prod Some id
        ((case pr_Call rq of
            LoginForm \<Rightarrow> answer_with (Drawn 200 ''login'' blank)
          | LoginPost form \<Rightarrow> Login d w rq form
          | Logout \<Rightarrow> guarded w rq (\<lambda>_. logout rq)
          | OverviewPage \<Rightarrow> guarded w rq (overview_page (pw_Store d))
          | TravellersPage q n \<Rightarrow> guarded w rq (\<lambda>csrf. travellers_page (pw_Store d) csrf (pr_HX rq) q n)
          | TravellerPage i \<Rightarrow> guarded w rq (\<lambda>csrf. traveller_page (pw_Store d) csrf i)
          | SessionsPage \<Rightarrow> guarded w rq (sessionsPage (pw_Store d))
          | InvitesPage \<Rightarrow> guarded w rq (invitesPage (pw_Store d))
          | RenamePost i n \<Rightarrow> guarded w rq (\<lambda>csrf. renameTraveller d csrf (pr_HX rq) i n)
          | MintPost note \<Rightarrow> guarded w rq (\<lambda>csrf. mintInvite d w csrf note)
          | RevokeInvitePost h \<Rightarrow> guarded w rq (\<lambda>_. revokeInvite d (pr_HX rq) h)
          | RevokeSessionPost i \<Rightarrow> guarded w rq (\<lambda>_. revokeSession_action d (pr_HX rq) i)
          | DeletePost i e \<Rightarrow> guarded w rq (\<lambda>csrf. deleteTraveller d csrf (pr_HX rq) i e)) p))"

subsection \<open>The panel over PostgreSQL\<close>

definition quietly :: "(auth_state, 'a) act \<Rightarrow> (auth_state, 'a) ask" where
  "quietly m s = (case m s of (Inl _, s') \<Rightarrow> (None, s') | (Inr x, s') \<Rightarrow> (Some x, s'))"

definition on_log :: "'a tx \<Rightarrow> (auth_state, 'a) ask" where
  "on_log m s =
     (case m \<lparr>tx_db = au_log (au_db s), tx_faults = au_faults s\<rparr> of
        (r, t) \<Rightarrow> (case r of Inl _ \<Rightarrow> None | Inr x \<Rightarrow> Some x,
                   s\<lparr>au_db := (au_db s)\<lparr>au_log := tx_db t\<rparr>, au_faults := tx_faults t\<rparr>))"

text \<open>A text that is not a uuid fails at the lock, the second call of the transaction.\<close>

definition rename_ask :: "(string \<Rightarrow> id option) \<Rightarrow> string \<Rightarrow> string \<Rightarrow> (auth_state, int) ask" where
  "rename_ask uuid text name =
     (case uuid text of
        Some t \<Rightarrow> on_log (AdminRename t name)
      | None \<Rightarrow> on_log (t_bind (t_lift (CheckTravellerName name)) (\<lambda>_.
          t_bind (t_query (\<lambda>_. ())) (\<lambda>_. t_sql (\<lambda>_. Inl (SqlState ''22P02''))))))"

definition admin_deps ::
  "string \<Rightarrow> (string \<Rightarrow> id option) \<Rightarrow> (string \<Rightarrow> int \<Rightarrow> int \<Rightarrow> (auth_state, traveller_line list \<times> int) ask) \<Rightarrow>
   (auth_state, invite_line list) ask \<Rightarrow> (object_key \<Rightarrow> 'b \<Rightarrow> object_error + 'b) option \<Rightarrow>
   (nat list \<Rightarrow> hash) \<Rightarrow> (string \<Rightarrow> string) \<Rightarrow> (auth_state, 'b) panel_deps" where
  "admin_deps password uuid listed invites delete sha upper =
     \<lparr>pw_Password = password,
      pw_Store = \<lparr>rd_Overview = quietly Overview, rd_Travellers = listed,
        rd_Traveller = (\<lambda>i. quietly (AdminTraveller uuid i)),
        rd_Sessions = (\<lambda>i. quietly (AdminSessions uuid i)), rd_Invites = invites\<rparr>,
      pw_Writer = \<lparr>wr_Rename = rename_ask uuid, wr_MintInvite = (\<lambda>h note. quietly (AdminMintInvite h note)),
        wr_DeleteInvite = (\<lambda>h. quietly (AdminDeleteInvite h)),
        wr_RevokeSessionByID = (\<lambda>i. quietly (AdminRevokeSessionByID uuid i)),
        wr_DeleteTraveller = (\<lambda>i. quietly (AdminDeleteTraveller uuid i))\<rparr>,
      pw_Objects = delete, pw_sha = sha, pw_upper = upper\<rparr>"

end
