(* ===== verification/Panel_Properties.thy ===== *)
theory Panel_Properties
  imports Admin_Panel
begin

section \<open>What the back office guarantees\<close>

text \<open>
  Runs of the panel: requests from anybody, served one after another. The store is only ever asked
  on behalf of somebody who gave the password; guessing it is slowed to ten tries in a quarter of
  an hour per address; and a deletion confirmed with the traveller's address, followed by a sweep,
  leaves neither rows nor bytes.
\<close>

fun panel_run ::
  "('s, 'b) panel_deps \<Rightarrow> (panel_draw \<times> panel_request) list \<Rightarrow> ('s, 'b) panel \<Rightarrow>
   panel_answer option list \<times> ('s, 'b) panel" where
  "panel_run d [] p = ([], p)"
| "panel_run d ((w, rq) # rs) p =
     (case mount_panel d w rq p of (a, p1) \<Rightarrow> case panel_run d rs p1 of (as, p') \<Rightarrow> (a # as, p'))"

lemma panel_run_append:
  "panel_run d (xs @ ys) p =
     (case panel_run d xs p of (as, p1) \<Rightarrow> case panel_run d ys p1 of (bs, p2) \<Rightarrow> (as @ bs, p2))"
  by (induction d xs p rule: panel_run.induct) (auto split: prod.splits)

subsection \<open>Nothing but login and the layers touches sessions and attempts\<close>

definition settled :: "('s, 'b) panel_handler \<Rightarrow> bool" where
  "settled h \<longleftrightarrow> (\<forall>p. pn_sessions (snd (h p)) = pn_sessions p \<and> pn_tries (snd (h p)) = pn_tries p)"

lemma settled_answer [intro, simp]: "settled (answer_with a)"
  by (simp add: settled_def answer_with_def)

lemma settled_ask [intro]: "(\<And>r. settled (k r)) \<Longrightarrow> settled (ask q k)"
  by (simp add: settled_def ask_def split: prod.splits)

lemma settled_storage [intro]: "(\<And>f. settled (k f)) \<Longrightarrow> settled (with_storage n k)"
  by (simp add: with_storage_def)

lemma settled_if [intro]: "settled a \<Longrightarrow> settled b \<Longrightarrow> settled (if c then a else b)"
  by simp

lemma settled_or_fail [intro]: "(\<And>x. settled (k x)) \<Longrightarrow> settled (or_fail csrf name q k)"
  unfolding or_fail_def fail_page_def by (intro settled_ask) (auto split: option.splits)

lemma settled_hx [intro, simp]: "settled (hxRedirect hx to)"
  by (simp add: hxRedirect_def)

lemma settled_refuse [intro, simp]: "settled (refuse st csrf i status)"
  unfolding refuse_def Let_def by (intro settled_ask) (auto intro!: settled_storage settled_ask split: option.splits)

lemma settled_pages [simp]:
  "settled (overview_page st csrf)" "settled (travellers_page st csrf hx q n)" "settled (traveller_page st csrf i)"
  "settled (sessionsPage st csrf)" "settled (invitesPage st csrf)"
  unfolding overview_page_def travellers_page_def traveller_page_def sessionsPage_def invitesPage_def Let_def
  by (auto intro!: settled_or_fail settled_ask settled_storage split: option.splits)

lemma settled_actions [simp]:
  "settled (renameTraveller d csrf hx i n)" "settled (mintInvite d w csrf note)" "settled (revokeInvite d hx h)"
  "settled (revokeSession_action d hx i)"
  unfolding renameTraveller_def mintInvite_def revokeInvite_def revokeSession_action_def
  by (auto intro!: settled_or_fail settled_ask split: option.splits)

lemma settled_delete [simp]: "settled (deleteTraveller d csrf hx i e)"
proof -
  have "settled (\<lambda>p. hxRedirect hx to (p\<lparr>pn_bucket := f (pn_bucket p)\<rparr>))" for f :: "'b \<Rightarrow> 'b" and to
    by (simp add: settled_def hxRedirect_def answer_with_def)
  then show ?thesis
    unfolding deleteTraveller_def by (intro settled_ask) (auto intro!: settled_ask split: option.splits)
qed

text \<open>Which requests are behind the session and the token, and with which handler.\<close>

definition behind :: "('s, 'b) panel_deps \<Rightarrow> panel_draw \<Rightarrow> panel_request \<Rightarrow> string \<Rightarrow> ('s, 'b) panel_handler" where
  "behind d w rq csrf =
     (case pr_Call rq of
        OverviewPage \<Rightarrow> overview_page (pw_Store d) csrf
      | TravellersPage q n \<Rightarrow> travellers_page (pw_Store d) csrf (pr_HX rq) q n
      | TravellerPage i \<Rightarrow> traveller_page (pw_Store d) csrf i
      | SessionsPage \<Rightarrow> sessionsPage (pw_Store d) csrf
      | InvitesPage \<Rightarrow> invitesPage (pw_Store d) csrf
      | RenamePost i n \<Rightarrow> renameTraveller d csrf (pr_HX rq) i n
      | MintPost note \<Rightarrow> mintInvite d w csrf note
      | RevokeInvitePost h \<Rightarrow> revokeInvite d (pr_HX rq) h
      | RevokeSessionPost i \<Rightarrow> revokeSession_action d (pr_HX rq) i
      | DeletePost i e \<Rightarrow> deleteTraveller d csrf (pr_HX rq) i e
      | _ \<Rightarrow> logout rq)"

definition is_login :: "panel_call \<Rightarrow> bool" where
  "is_login c = (case c of LoginForm \<Rightarrow> True | LoginPost _ \<Rightarrow> True | _ \<Rightarrow> False)"

lemma mount_login:
  "pw_Password d \<noteq> [] \<Longrightarrow> pr_Call rq = LoginPost form \<Longrightarrow> mount_panel d w rq p = (a, p') \<Longrightarrow>
     Some (fst (Login d w rq form p)) = a \<and> p' = snd (Login d w rq form p)"
  by (cases "Login d w rq form p") (auto simp: mount_panel_def)

lemma mount_behind:
  assumes "pw_Password d \<noteq> []" "\<not> is_login (pr_Call rq)"
  shows "mount_panel d w rq p = map_prod Some id (guarded w rq (behind d w rq) p)"
  using assms
  by (cases "pr_Call rq") (simp_all add: mount_panel_def is_login_def guarded_def behind_def)

lemma mount_behind_run:
  "mount_panel d w rq p = (a, p') \<Longrightarrow> pw_Password d \<noteq> [] \<Longrightarrow> \<not> is_login (pr_Call rq) \<Longrightarrow>
     a = Some (fst (guarded w rq (behind d w rq) p)) \<and> p' = snd (guarded w rq (behind d w rq) p)"
  by (cases "guarded w rq (behind d w rq) p") (simp add: mount_behind)

lemma behind_settled: "pr_Call rq \<noteq> Logout \<Longrightarrow> \<not> is_login (pr_Call rq) \<Longrightarrow> settled (behind d w rq csrf)"
  by (cases "pr_Call rq") (simp_all add: behind_def is_login_def)

subsection \<open>Whoever reaches the store gave the password\<close>

definition logged_in :: "('s, 'b) panel_deps \<Rightarrow> (panel_draw \<times> panel_request) list \<Rightarrow> string \<Rightarrow> string \<Rightarrow> bool" where
  "logged_in d history c csrf \<longleftrightarrow>
     (\<exists>(w, rq) \<in> set history. pr_Call rq = LoginPost (Some (pw_Password d)) \<and>
        token (dr_id w) = Some c \<and> token (dr_csrf w) = Some csrf)"

definition issued_sessions :: "('s, 'b) panel_deps \<Rightarrow> (panel_draw \<times> panel_request) list \<Rightarrow> sessions \<Rightarrow> bool" where
  "issued_sessions d history m \<longleftrightarrow> (\<forall>c e. map_of m c = Some e \<longrightarrow> logged_in d history c (en_csrf e))"

lemma logged_in_more: "logged_in d xs c csrf \<Longrightarrow> logged_in d (xs @ ys) c csrf"
  by (auto simp: logged_in_def)

lemma issued_more: "issued_sessions d xs m \<Longrightarrow> issued_sessions d (xs @ ys) m"
  by (auto simp: issued_sessions_def logged_in_more)

lemma Get_issued: "issued_sessions d h m \<Longrightarrow> issued_sessions d h (snd (Get i now m))"
  by (auto simp: issued_sessions_def Get_def update_conv' delete_conv' split: option.splits if_splits)

lemma Get_Some:
  "Get i now m = (Some csrf, m') \<Longrightarrow> \<exists>e. map_of m i = Some e \<and> csrf = en_csrf e \<and> now < en_deadline e"
  by (auto simp: Get_def split: option.splits if_splits)

lemma New_issued:
  assumes "issued_sessions d h m" "pr_Call rq = LoginPost (Some (pw_Password d))"
  shows "issued_sessions d (h @ [(w, rq)]) (snd (New (dr_id w) (dr_csrf w) now m))"
proof (cases "token (dr_id w) = None \<or> token (dr_csrf w) = None")
  case True
  with issued_more [OF assms(1)] show ?thesis by (auto simp: New_def split: option.splits)
next
  case False
  then obtain i csrf where t: "token (dr_id w) = Some i" "token (dr_csrf w) = Some csrf" by auto
  have "logged_in d (h @ [(w, rq)]) i csrf" using assms(2) t by (auto simp: logged_in_def)
  with issued_more [OF assms(1), of "[(w, rq)]"] t show ?thesis
    by (auto simp: New_def issued_sessions_def update_conv')
qed

lemma Login_sessions:
  "pn_sessions (snd (Login d w rq form p)) =
     (if form = Some (pw_Password d) \<and> \<not> fst (locked (ClientKey (pr_RemoteAddr rq)) (dr_now w) (pn_tries p))
      then snd (New (dr_id w) (dr_csrf w) (dr_now w) (pn_sessions p)) else pn_sessions p)"
  by (auto simp: Login_def Let_def split: prod.splits option.splits)

lemma guarded_cases:
  obtains m where "guarded w rq h p = (SeeOther loginPath None, p\<lparr>pn_sessions := m\<rparr>)"
      "m = pn_sessions p \<or> (\<exists>c. m = snd (Get c (dr_now w) (pn_sessions p)))"
  | c csrf m where "pr_Cookie rq = Some c" "Get c (dr_now w) (pn_sessions p) = (Some csrf, m)"
      "\<not> is_read (pr_Call rq)" "csrf = [] \<or> pr_CSRF rq \<noteq> csrf"
      "guarded w rq h p = (PlainText 403, p\<lparr>pn_sessions := m\<rparr>)"
  | c csrf m where "pr_Cookie rq = Some c" "Get c (dr_now w) (pn_sessions p) = (Some csrf, m)"
      "is_read (pr_Call rq) \<or> csrf \<noteq> [] \<and> pr_CSRF rq = csrf"
      "guarded w rq h p = h csrf (p\<lparr>pn_sessions := m\<rparr>)"
proof (cases "pr_Cookie rq")
  case None
  then have "guarded w rq h p = (SeeOther loginPath None, p\<lparr>pn_sessions := pn_sessions p\<rparr>)"
    by (simp add: guarded_def requireSession_def)
  with that(1) show ?thesis by blast
next
  case (Some c)
  obtain g m where g: "Get c (dr_now w) (pn_sessions p) = (g, m)" by (cases "Get c (dr_now w) (pn_sessions p)")
  show ?thesis
  proof (cases g)
    case None
    with Some g have "guarded w rq h p = (SeeOther loginPath None, p\<lparr>pn_sessions := m\<rparr>)"
      by (simp add: guarded_def requireSession_def)
    with g that(1) [of m] show ?thesis by (metis snd_conv)
  next
    case (Some csrf)
    with \<open>pr_Cookie rq = Some c\<close> g have run: "guarded w rq h p = requireCSRF rq csrf (h csrf) (p\<lparr>pn_sessions := m\<rparr>)"
      by (simp add: guarded_def requireSession_def)
    show ?thesis
    proof (cases "\<not> is_read (pr_Call rq) \<and> (csrf = [] \<or> pr_CSRF rq \<noteq> csrf)")
      case True
      with run \<open>pr_Cookie rq = Some c\<close> g Some that(2) [of c csrf m] show ?thesis
        by (simp add: requireCSRF_def answer_with_def)
    next
      case False
      then have "requireCSRF rq csrf (h csrf) = h csrf" by (auto simp: requireCSRF_def)
      with run \<open>pr_Cookie rq = Some c\<close> g Some False that(3) [of c csrf m] show ?thesis by auto
    qed
  qed
qed

lemma logout_sessions:
  "issued_sessions d h (pn_sessions p) \<Longrightarrow> issued_sessions d h (pn_sessions (snd (logout rq p)))"
  by (auto simp: logout_def Drop_def issued_sessions_def delete_conv' split: option.splits if_splits)

lemma mount_issued:
  assumes "issued_sessions d h (pn_sessions p)" "mount_panel d w rq p = (a, p')"
  shows "issued_sessions d (h @ [(w, rq)]) (pn_sessions p')"
proof (cases "pw_Password d = []")
  case True
  with assms issued_more show ?thesis by (auto simp: mount_panel_def)
next
  case pass: False
  show ?thesis
  proof (cases "is_login (pr_Call rq)")
    case True
    then consider "pr_Call rq = LoginForm" | form where "pr_Call rq = LoginPost form"
      by (cases "pr_Call rq") (auto simp: is_login_def)
    then show ?thesis
    proof cases
      case 1
      with assms pass issued_more show ?thesis by (auto simp: mount_panel_def answer_with_def)
    next
      case (2 form)
      then have "p' = snd (Login d w rq form p)" using mount_login [OF pass _ assms(2)] by simp
      with New_issued [OF assms(1), of rq w] issued_more [OF assms(1), of "[(w, rq)]"] 2 show ?thesis
        by (auto simp: Login_sessions)
    qed
  next
    case False
    have p': "p' = snd (guarded w rq (behind d w rq) p)"
      using mount_behind_run [OF assms(2) pass False] by simp
    have got: "issued_sessions d h (snd (Get c now (pn_sessions p)))" for c now
      using assms(1) by (rule Get_issued)
    have "issued_sessions d h (pn_sessions p')"
    proof (rule guarded_cases [of w rq "behind d w rq" p])
      fix m
      assume "guarded w rq (behind d w rq) p = (SeeOther loginPath None, p\<lparr>pn_sessions := m\<rparr>)"
        "m = pn_sessions p \<or> (\<exists>c. m = snd (Get c (dr_now w) (pn_sessions p)))"
      with p' got assms(1) show ?thesis by auto
    next
      fix c csrf m
      assume "Get c (dr_now w) (pn_sessions p) = (Some csrf, m)"
        "guarded w rq (behind d w rq) p = (PlainText 403, p\<lparr>pn_sessions := m\<rparr>)"
      with p' got [of c "dr_now w"] show ?thesis by simp
    next
      fix c csrf m
      assume g: "Get c (dr_now w) (pn_sessions p) = (Some csrf, m)"
        "guarded w rq (behind d w rq) p = behind d w rq csrf (p\<lparr>pn_sessions := m\<rparr>)"
      have m: "issued_sessions d h m" using got [of c "dr_now w"] g by simp
      show ?thesis
      proof (cases "pr_Call rq = Logout")
        case True
        with p' g m logout_sessions [of d h "p\<lparr>pn_sessions := m\<rparr>" rq] show ?thesis
          by (simp add: behind_def)
      next
        case nl: False
        with p' g m behind_settled [OF nl False, of d w csrf] show ?thesis by (simp add: settled_def)
      qed
    qed
    then show ?thesis by (rule issued_more)
  qed
qed

lemma run_issued:
  "issued_sessions d h (pn_sessions p) \<Longrightarrow> panel_run d rs p = (as, p') \<Longrightarrow> issued_sessions d (h @ rs) (pn_sessions p')"
proof (induction rs arbitrary: h p as)
  case (Cons x rs)
  obtain w rq where x: "x = (w, rq)" by (cases x)
  obtain a p1 where m: "mount_panel d w rq p = (a, p1)" by (cases "mount_panel d w rq p")
  with Cons.prems x obtain as' where "panel_run d rs p1 = (as', p')" by (auto split: prod.splits)
  from Cons.IH [OF mount_issued [OF Cons.prems(1) m] this] x show ?case by simp
qed simp

text \<open>C20: The panel acts for nobody who did not give its password. Start it with no sessions and
  serve any requests from anybody. If the next request makes the panel ask its store for anything,
  or changes the bucket, then an earlier request was a login with the right password, the cookie is
  the id that login drew, and, unless the request only reads, its header carries the token that
  login drew. A panel without a password answers nothing at all.\<close>

theorem panel_acts_for_the_operator:
  assumes "pn_sessions p0 = []" "panel_run d history p0 = (as, p)" "mount_panel d w rq p = (a, p')"
    and "pn_store p' \<noteq> pn_store p \<or> pn_bucket p' \<noteq> pn_bucket p"
  shows "pw_Password d \<noteq> [] \<and>
    (\<exists>(w0, rq0) \<in> set history. pr_Call rq0 = LoginPost (Some (pw_Password d)) \<and>
       (\<exists>c. pr_Cookie rq = Some c \<and> token (dr_id w0) = Some c) \<and>
       (is_read (pr_Call rq) \<or> token (dr_csrf w0) = Some (pr_CSRF rq)))"
proof -
  have issued: "issued_sessions d history (pn_sessions p)"
    using run_issued [OF _ assms(2), of "[]"] assms(1) by (simp add: issued_sessions_def)
  have pass: "pw_Password d \<noteq> []" using assms(3,4) by (auto simp: mount_panel_def)
  have "pn_store (snd (Login d w rq form p)) = pn_store p \<and> pn_bucket (snd (Login d w rq form p)) = pn_bucket p" for form
    by (auto simp: Login_def Let_def split: prod.splits option.splits)
  then have "\<not> is_login (pr_Call rq)"
    using assms(3,4) pass mount_login [OF pass _ assms(3)]
    by (cases "pr_Call rq") (auto simp: mount_panel_def is_login_def answer_with_def)
  then have p': "p' = snd (guarded w rq (behind d w rq) p)" using mount_behind_run [OF assms(3) pass] by simp
  show ?thesis
  proof (rule guarded_cases [of w rq "behind d w rq" p])
    fix c csrf m
    assume g: "pr_Cookie rq = Some c" "Get c (dr_now w) (pn_sessions p) = (Some csrf, m)"
      "is_read (pr_Call rq) \<or> csrf \<noteq> [] \<and> pr_CSRF rq = csrf"
    obtain e where "map_of (pn_sessions p) c = Some e" "csrf = en_csrf e" using Get_Some [OF g(2)] by blast
    then have "logged_in d history c csrf" using issued by (auto simp: issued_sessions_def)
    with g pass show ?thesis unfolding logged_in_def by fastforce
  qed (use p' assms(4) in auto)
qed

subsection \<open>A small panel\<close>

definition sample_deps :: "(auth_state, memory) panel_deps" where
  "sample_deps = admin_deps ''open'' Some (\<lambda>_ _ _ s. (None, s)) (\<lambda>s. (None, s)) (Some Delete)
     (\<lambda>b. map char_of b) (\<lambda>x. x)"

definition sample_panel :: "(auth_state, memory) panel" where
  "sample_panel = \<lparr>pn_tries = newAttempts, pn_sessions = [], pn_store = sample_auth, pn_bucket = sample_memory\<rparr>"

definition sample_draw :: "instant \<Rightarrow> panel_draw" where
  "sample_draw now = \<lparr>dr_now = now, dr_id = Some [1], dr_csrf = Some [2], dr_invite = None\<rparr>"

definition sample_ask :: "panel_call \<Rightarrow> panel_request" where
  "sample_ask c = \<lparr>pr_RemoteAddr = ''h:1'', pr_Cookie = Some ''01'', pr_CSRF = ''02'', pr_HX = False, pr_Call = c\<rparr>"

definition sample_history :: "(panel_draw \<times> panel_request) list" where
  "sample_history = [(sample_draw 0, sample_ask (LoginPost (Some ''open'')))]"

theorem panel_acts_for_the_operator_witness:
  "\<exists>as p a p'. panel_run sample_deps sample_history sample_panel = (as, p) \<and>
     mount_panel sample_deps (sample_draw 5) (sample_ask (DeletePost ''u1'' ''a@b'')) p = (a, p') \<and>
     a = Some (SeeOther ''/admin/travellers'' None) \<and> pn_store p' \<noteq> pn_store p \<and>
     (\<exists>(w0, rq0) \<in> set sample_history. token (dr_csrf w0) = Some ''02'')"
proof -
  let ?rq = "sample_ask (DeletePost ''u1'' ''a@b'')"
  obtain as p where run: "panel_run sample_deps sample_history sample_panel = (as, p)"
    by (cases "panel_run sample_deps sample_history sample_panel")
  obtain a p' where req: "mount_panel sample_deps (sample_draw 5) ?rq p = (a, p')"
    by (cases "mount_panel sample_deps (sample_draw 5) ?rq p")
  have "(let p = snd (panel_run sample_deps sample_history sample_panel); r = mount_panel sample_deps (sample_draw 5) ?rq p
    in fst r = Some (SeeOther ''/admin/travellers'' None) \<and>
       length (travellers (au_log (au_db (pn_store (snd r))))) = 1 \<and>
       length (travellers (au_log (au_db (pn_store p)))) = 2)"
    by code_simp
  then have facts: "a = Some (SeeOther ''/admin/travellers'' None)" "pn_store p' \<noteq> pn_store p"
    using run req by (auto simp: Let_def)
  have fresh: "pn_sessions sample_panel = []" by (simp add: sample_panel_def)
  from panel_acts_for_the_operator [OF fresh run req] facts(2)
  have "\<exists>(w0, rq0) \<in> set sample_history. token (dr_csrf w0) = Some ''02''"
    by (fastforce simp: sample_ask_def is_read_def)
  with run req facts show ?thesis by blast
qed

subsection \<open>The lockout\<close>

text \<open>Was this a login from the address whose password was judged to be wrong?\<close>

definition judged :: "string \<Rightarrow> (panel_draw \<times> panel_request) \<times> panel_answer option \<Rightarrow> bool" where
  "judged key x =
     (case x of ((w, rq), a) \<Rightarrow> ClientKey (pr_RemoteAddr rq) = key \<and> (\<exists>form. pr_Call rq = LoginPost form) \<and>
        (\<exists>n d. a = Some (Drawn 401 n d)))"

definition knows_password :: "('s, 'b) panel_deps \<Rightarrow> string \<Rightarrow> panel_draw \<times> panel_request \<Rightarrow> bool" where
  "knows_password d key x =
     (case x of (w, rq) \<Rightarrow>
        ClientKey (pr_RemoteAddr rq) = key \<and> pr_Call rq = LoginPost (Some (pw_Password d)))"

text \<open>After \<open>c\<close> full lockouts since \<open>a\<close>, and with \<open>j\<close> judgements so far.\<close>

definition counted :: "instant \<Rightarrow> int \<Rightarrow> instant \<Rightarrow> int \<Rightarrow> instant option \<Rightarrow> bool" where
  "counted a j now n until \<longleftrightarrow>
     (\<exists>c \<ge> 0. c * LockFor \<le> now - a \<and> 0 \<le> n \<and>
        (case until of
           None \<Rightarrow> n < MaxFailures \<and> j \<le> MaxFailures * c + n
         | Some u \<Rightarrow> a + (c + 1) * LockFor \<le> u \<and> j \<le> MaxFailures * (c + 1)))"

abbreviation counted_at :: "string \<Rightarrow> instant \<Rightarrow> int \<Rightarrow> instant \<Rightarrow> attempts \<Rightarrow> bool" where
  "counted_at key a j now t \<equiv> counted a j now (tr_n t key) (tr_until t key)"

lemma counted_bound:
  assumes "counted a j now n until"
  shows "j \<le> MaxFailures * (1 + (now - a) div LockFor)"
proof -
  from assms obtain c where c: "c * LockFor \<le> now - a" "j \<le> MaxFailures * (c + 1)"
    by (auto simp: counted_def MaxFailures_def split: option.splits)
  have "c = c * LockFor div LockFor" by (simp add: LockFor_def)
  also have "\<dots> \<le> (now - a) div LockFor" using c(1) by (rule zdiv_mono1) (simp add: LockFor_def)
  finally show ?thesis using c(2) by (simp add: MaxFailures_def)
qed

lemma counted_later: "counted a j now n until \<Longrightarrow> now \<le> now' \<Longrightarrow> counted a j now' n until"
  unfolding counted_def by (elim exE conjE, intro exI conjI) auto

lemma counted_expired:
  assumes "counted a j now n (Some u)" "u \<le> now"
  shows "counted a j now 0 None"
proof -
  from assms obtain c where c: "0 \<le> c" "a + (c + 1) * LockFor \<le> u" "j \<le> MaxFailures * (c + 1)"
    by (auto simp: counted_def)
  have "(c + 1) * LockFor \<le> now - a" using c(2) assms(2) by linarith
  with c show ?thesis unfolding counted_def by (intro exI [of _ "c + 1"]) (simp add: MaxFailures_def)
qed

lemma counted_locked:
  assumes "counted_at key a j now t" "locked k now t = (shut, t')"
  shows "counted_at key a j now t'" "k = key \<Longrightarrow> \<not> shut \<Longrightarrow> tr_until t' key = None"
proof -
  show "k = key \<Longrightarrow> \<not> shut \<Longrightarrow> tr_until t' key = None"
    using assms(2) by (auto simp: locked_def clear_def split: option.splits if_splits)
  from assms(2) consider "t' = t" | u where "tr_until t k = Some u" "u \<le> now" "t' = clear k t"
    by (auto simp: locked_def split: option.splits if_splits)
  then show "counted_at key a j now t'"
  proof cases
    case (2 u)
    with assms(1) counted_expired show ?thesis by (cases "k = key") (auto simp: clear_def)
  qed (use assms(1) in simp)
qed

lemma counted_fail:
  assumes "counted_at key a j now t" "tr_until t key = None"
  shows "counted_at key a (j + 1) now (snd (fail key now t))"
proof -
  from assms obtain c where c: "0 \<le> c" "c * LockFor \<le> now - a" "0 \<le> tr_n t key" "tr_n t key < MaxFailures"
    "j \<le> MaxFailures * c + tr_n t key"
    by (auto simp: counted_def)
  show ?thesis
  proof (cases "tr_n t key + 1 < MaxFailures")
    case True
    with c assms(2) show ?thesis
      unfolding counted_def by (intro exI [of _ c]) (simp add: fail_def Let_def)
  next
    case False
    have "a + (c + 1) * LockFor \<le> now + LockFor" using c(2) by (simp add: algebra_simps)
    with c False show ?thesis
      unfolding counted_def by (intro exI [of _ c]) (simp add: fail_def Let_def algebra_simps)
  qed
qed

lemma other_key:
  "k \<noteq> key \<Longrightarrow> tr_n (snd (fail k now t)) key = tr_n t key \<and> tr_until (snd (fail k now t)) key = tr_until t key"
  "k \<noteq> key \<Longrightarrow> tr_n (clear k t) key = tr_n t key \<and> tr_until (clear k t) key = tr_until t key"
  by (simp_all add: fail_def clear_def Let_def)

lemma Login_counted:
  assumes t: "counted_at key a j (dr_now w) (pn_tries p)"
    and fresh: "\<not> (ClientKey (pr_RemoteAddr rq) = key \<and> form = Some (pw_Password d))"
  shows "counted_at key a (if ClientKey (pr_RemoteAddr rq) = key \<and> (\<exists>n x. fst (Login d w rq form p) = Drawn 401 n x)
      then j + 1 else j) (dr_now w) (pn_tries (snd (Login d w rq form p)))"
proof -
  let ?k = "ClientKey (pr_RemoteAddr rq)"
  obtain shut t' where l: "locked ?k (dr_now w) (pn_tries p) = (shut, t')"
    by (cases "locked ?k (dr_now w) (pn_tries p)")
  note t' = counted_locked [OF t l]
  consider "shut" | "\<not> shut" "form = None" | g where "\<not> shut" "form = Some g" "g \<noteq> pw_Password d"
    | "\<not> shut" "form = Some (pw_Password d)" by (cases form) auto
  then show ?thesis
  proof cases
    case (3 g)
    with l t' counted_fail [of a j "dr_now w" t' key] show ?thesis
      by (cases "?k = key") (auto simp: Login_def other_key)
  next
    case 4
    with fresh have "?k \<noteq> key" by simp
    with 4 l t' show ?thesis by (auto simp: Login_def other_key split: prod.splits option.splits)
  qed (use l t' in \<open>auto simp: Login_def\<close>)
qed

lemma guarded_tries:
  assumes "\<not> is_login (pr_Call rq)"
  shows "pn_tries (snd (guarded w rq (behind d w rq) p)) = pn_tries p"
proof (rule guarded_cases [of w rq "behind d w rq" p])
  fix c csrf m
  assume "guarded w rq (behind d w rq) p = behind d w rq csrf (p\<lparr>pn_sessions := m\<rparr>)"
  moreover have "pn_tries (snd (logout rq q)) = pn_tries q" for q :: "('a, 'b) panel"
    by (simp add: logout_def split: option.splits)
  moreover have "pr_Call rq \<noteq> Logout \<Longrightarrow> settled (behind d w rq csrf)" by (rule behind_settled) (use assms in simp_all)
  moreover have "pr_Call rq = Logout \<Longrightarrow> behind d w rq csrf = logout rq" by (simp add: behind_def)
  ultimately show ?thesis by (cases "pr_Call rq = Logout") (simp_all add: settled_def)
qed simp_all

lemma mount_counted:
  assumes t: "counted_at key a j (dr_now w) (pn_tries p)" and run: "mount_panel d w rq p = (x, p')"
    and fresh: "\<not> knows_password d key (w, rq)"
  shows "counted_at key a (if judged key ((w, rq), x) then j + 1 else j) (dr_now w) (pn_tries p')"
proof (cases "pw_Password d = []")
  case True
  with t run show ?thesis by (simp add: mount_panel_def judged_def)
next
  case pass: False
  consider form where "pr_Call rq = LoginPost form" | "pr_Call rq = LoginForm" | "\<not> is_login (pr_Call rq)"
    by (cases "pr_Call rq") (auto simp: is_login_def)
  then show ?thesis
  proof cases
    case (1 form)
    note login = mount_login [OF pass 1 run]
    have "\<not> (ClientKey (pr_RemoteAddr rq) = key \<and> form = Some (pw_Password d))"
      using fresh 1 by (simp add: knows_password_def)
    from Login_counted [OF t this] show ?thesis using login 1 by (auto simp: judged_def)
  next
    case 2
    with t run pass show ?thesis by (auto simp: mount_panel_def answer_with_def judged_def)
  next
    case 3
    then have "\<not> judged key ((w, rq), x)" by (auto simp: judged_def is_login_def)
    with t mount_behind_run [OF run pass 3] guarded_tries [OF 3, of w d p] show ?thesis by simp
  qed
qed

lemma run_counted:
  assumes "counted_at key a j now (pn_tries p)" "panel_run d rs p = (as, p')"
    "sorted (map (dr_now \<circ> fst) rs)" "\<And>x. x \<in> set rs \<Longrightarrow> now \<le> dr_now (fst x) \<and> dr_now (fst x) \<le> b"
    "\<And>x. x \<in> set rs \<Longrightarrow> \<not> knows_password d key x" "now \<le> b"
  shows "counted_at key a (j + int (length (filter (judged key) (zip rs as)))) b (pn_tries p')"
  using assms
proof (induction rs arbitrary: j now p as)
  case Nil
  then show ?case by (auto intro: counted_later)
next
  case (Cons x rs)
  obtain w rq where x: "x = (w, rq)" by (cases x)
  obtain y p1 where m: "mount_panel d w rq p = (y, p1)" by (cases "mount_panel d w rq p")
  with Cons.prems(2) x obtain as' where as: "panel_run d rs p1 = (as', p')" "as = y # as'"
    by (auto split: prod.splits)
  have now: "now \<le> dr_now w" "dr_now w \<le> b" using Cons.prems(4) [of x] x by simp_all
  let ?j = "if judged key ((w, rq), y) then j + 1 else j"
  have "counted_at key a ?j (dr_now w) (pn_tries p1)"
    using mount_counted [OF counted_later [OF Cons.prems(1) now(1)] m] Cons.prems(5) [of x] x by simp
  from Cons.IH [OF this as(1)] Cons.prems(3-5) now x
  have "counted_at key a (?j + int (length (filter (judged key) (zip rs as')))) b (pn_tries p')"
    by (auto simp: comp_def)
  moreover have "?j + int (length (filter (judged key) (zip rs as'))) =
      j + int (length (filter (judged key) (zip (x # rs) as)))"
    by (simp add: x as(2))
  ultimately show ?case by simp
qed

text \<open>C21: Guessing the panel's password is slow. From a fresh start serve any requests between the
  instants \<open>a\<close> and \<open>b\<close>, one after another in the order of the clock, from anybody and for anything.
  If none of the logins from one address has the right password, which would clear its count, then
  at most ten of them are judged for every quarter of an hour begun; all the others are answered as
  locked or malformed, whatever they sent. Posts that overlap are outside the claim: \<open>Login\<close> reads the
  lock and records the failure under two locks.\<close>

theorem guessing_is_bounded:
  assumes "pn_tries p = newAttempts" "panel_run d rs p = (as, p')" "sorted (map (dr_now \<circ> fst) rs)"
    and "\<forall>x \<in> set rs. a \<le> dr_now (fst x) \<and> dr_now (fst x) \<le> b" "a \<le> b"
    and "\<forall>x \<in> set rs. \<not> knows_password d key x"
  shows "int (length (filter (judged key) (zip rs as))) \<le> MaxFailures * (1 + (b - a) div LockFor)"
proof -
  have "counted_at key a 0 a (pn_tries p)"
    using assms(1) by (simp add: counted_def newAttempts_def MaxFailures_def exI [of _ 0])
  from run_counted [OF this assms(2,3), of b] assms(4-6)
  have "counted_at key a (int (length (filter (judged key) (zip rs as)))) b (pn_tries p')" by auto
  then show ?thesis by (rule counted_bound)
qed

definition sample_guesses :: "(panel_draw \<times> panel_request) list" where
  "sample_guesses = replicate 12 (sample_draw 7, sample_ask (LoginPost (Some ''guess'')))"

theorem guessing_is_bounded_witness:
  "\<exists>as p'. panel_run sample_deps sample_guesses sample_panel = (as, p') \<and>
     int (length (filter (judged ''h'') (zip sample_guesses as))) \<le> 10 \<and>
     as = replicate 10 (Some (Drawn 401 ''login'' (blank\<lparr>pd_Failed := True\<rparr>))) @
          replicate 2 (Some (Drawn 429 ''login'' (blank\<lparr>pd_Locked := True\<rparr>)))"
proof -
  obtain as p' where run: "panel_run sample_deps sample_guesses sample_panel = (as, p')"
    by (cases "panel_run sample_deps sample_guesses sample_panel")
  have "pn_tries sample_panel = newAttempts" by (simp add: sample_panel_def)
  moreover have "\<forall>x \<in> set sample_guesses. 7 \<le> dr_now (fst x) \<and> dr_now (fst x) \<le> 7"
    "\<forall>x \<in> set sample_guesses. \<not> knows_password sample_deps ''h'' x"
    by (simp_all add: sample_guesses_def sample_draw_def sample_ask_def knows_password_def sample_deps_def admin_deps_def)
  moreover have "sorted (map (dr_now \<circ> fst) sample_guesses)"
    by (simp add: sample_guesses_def sample_draw_def)
  ultimately have "int (length (filter (judged ''h'') (zip sample_guesses as))) \<le> 10"
    using guessing_is_bounded [OF _ run, of 7 7 "''h''"] by (simp add: MaxFailures_def)
  moreover have "fst (panel_run sample_deps sample_guesses sample_panel) =
      replicate 10 (Some (Drawn 401 ''login'' (blank\<lparr>pd_Failed := True\<rparr>))) @
      replicate 2 (Some (Drawn 429 ''login'' (blank\<lparr>pd_Locked := True\<rparr>)))"
    by code_simp
  ultimately show ?thesis using run by auto
qed

subsection \<open>Deletion\<close>

lemma quietly_run: "quietly m s = (r, s') \<longleftrightarrow> (\<exists>q. m s = (q, s') \<and> r = (case q of Inl _ \<Rightarrow> None | Inr x \<Rightarrow> Some x))"
  by (auto simp: quietly_def split: prod.splits sum.splits)

lemma AdminTraveller_run:
  assumes "AdminTraveller uuid text s = (r, s')"
  shows "au_db s' = au_db s" "r = Inr det \<Longrightarrow>
    \<exists>t row. uuid text = Some t \<and> find_traveller (au_log (au_db s)) t = Some row \<and> de_Email det = tv_email row"
proof -
  from assms obtain q where q: "au_sql (with_uuid uuid text (\<lambda>t s. Inr (travellerSQL t s, au_db s))) s = (q, s')"
    "r = (case q of Inl e \<Rightarrow> Inl e | Inr None \<Rightarrow> Inl ErrUnknownTraveller | Inr (Some d) \<Rightarrow> Inr d)"
    by (auto simp: AdminTraveller_def a_bind_run a_lift_def split: option.splits)
  from au_sql_run [OF q(1)] have "au_db s' = au_db s \<and>
      (\<forall>x. q = Inr x \<longrightarrow> (\<exists>t fs. uuid text = Some t \<and> x = travellerSQL t (s\<lparr>au_faults := fs\<rparr>)))"
    by (fastforce simp: with_uuid_def split: option.splits)
  then show "au_db s' = au_db s" "r = Inr det \<Longrightarrow>
    \<exists>t row. uuid text = Some t \<and> find_traveller (au_log (au_db s)) t = Some row \<and> de_Email det = tv_email row"
    using q(2) by (auto simp: travellerSQL_def Let_def split: sum.splits option.splits)
qed

lemma erased_cong: "au_db s1 = au_db s \<Longrightarrow> erased t s1 s' \<Longrightarrow> erased t s s'"
  by (auto simp: erased_def pg_sessions_def pg_codes_def pg_invites_def fun_eq_iff)

lemma refuse_draws: "fst (refuse st csrf i status p) = Panics \<or> (\<exists>x. fst (refuse st csrf i status p) = Drawn status ''traveller'' x)"
  by (auto simp: refuse_def with_storage_def ask_def answer_with_def Let_def split: prod.splits option.splits)

definition deletion_done :: "panel_answer \<Rightarrow> bool" where
  "deletion_done a \<longleftrightarrow> a = SeeOther ''/admin/travellers'' None \<or> a = HXRedirect ''/admin/travellers''"

lemma deleteTraveller_done:
  assumes "deletion_done (fst (deleteTraveller (admin_deps pw uuid listed invites del sha upper) csrf hx i email p))"
    "schema_ok (au_log (au_db (pn_store p)))"
  obtains t row where "uuid i = Some t" "find_traveller (au_log (au_db (pn_store p))) t = Some row"
    "TrimSpace email = tv_email row"
    "erased t (pn_store p) (pn_store (snd (deleteTraveller (admin_deps pw uuid listed invites del sha upper) csrf hx i email p)))"
proof -
  obtain r s1 where det: "AdminTraveller uuid i (pn_store p) = (r, s1)" by (cases "AdminTraveller uuid i (pn_store p)")
  obtain q s2 where gone: "AdminDeleteTraveller uuid i s1 = (q, s2)" by (cases "AdminDeleteTraveller uuid i s1")
  let ?run = "deleteTraveller (admin_deps pw uuid listed invites del sha upper) csrf hx i email p"
  have refused: "\<not> deletion_done (fst (refuse st csrf i status p'))" for st status and p' :: "(auth_state, 'a) panel"
    using refuse_draws [of st csrf i status p'] by (auto simp: deletion_done_def)
  have "\<exists>d objects. r = Inr d \<and> TrimSpace email = de_Email d \<and> q = Inr objects \<and> pn_store (snd ?run) = s2"
    using assms(1) det gone refused
    by (auto simp: deleteTraveller_def ask_def admin_deps_def quietly_def answer_with_def deletion_done_def hxRedirect_def
        split: sum.splits if_splits)
  then obtain d objects where d: "r = Inr d" "TrimSpace email = de_Email d" "q = Inr objects" "pn_store (snd ?run) = s2"
    by blast
  note same = AdminTraveller_run(1) [OF det]
  obtain t row where t: "uuid i = Some t" "find_traveller (au_log (au_db (pn_store p))) t = Some row"
    "de_Email d = tv_email row"
    using AdminTraveller_run(2) [OF det d(1)] by blast
  have "erased t s1 s2"
    using delete_traveller_erases [OF gone] same assms(2) d(3) t(1) by auto
  then have "erased t (pn_store p) (pn_store (snd ?run))" using erased_cong [OF same] d(4) by simp
  with t d(2) that show ?thesis by metis
qed

lemma in_view: "r \<in> set (media_objects (view u d)) \<longleftrightarrow> r \<in> set (media_objects d) \<and> md_traveller r = u"
  by (auto simp: view_def)

lemma path_traveller:
  "CHR ''/'' \<notin> set t \<Longrightarrow> CHR ''/'' \<notin> set u \<Longrightarrow> t @ ''/'' @ x = u @ ''/'' @ y \<Longrightarrow> t = u"
  by (induction t arbitrary: u) (auto simp: Cons_eq_append_conv append_eq_Cons_conv)

text \<open>C22: A deletion in the panel removes the whole account, rows and bytes. If the panel answers a
  delete request by moving on to the list of travellers, the operator typed the address of the
  traveller the id names, and everything in the tables about that traveller is gone while
  everybody else's rows, sessions and codes are as they were. The objects may outlive it, when the
  bucket refuses; the next sweep that succeeds has removed every object of theirs that is listed
  and older than a day.\<close>

theorem deleted_then_swept:
  assumes "mount_panel (admin_deps pw uuid listed invites del sha upper) w rq p = (Some a, p')"
    and "pr_Call rq = DeletePost i email" "deletion_done a"
    and "schema_ok (au_log (au_db (pn_store p)))"
    and "\<forall>r \<in> set (travellers (au_log (au_db (pn_store p)))). travellerRe (tv_id r)"
    and "au_db s2 = au_db (pn_store p')" "objects b = Inr listings"
    and "sweep_run objects Delete dsn endpoint bucket now True b s2 = (Inr x, b', s3)"
  shows "\<exists>t row. uuid i = Some t \<and> find_traveller (au_log (au_db (pn_store p))) t = Some row \<and>
    TrimSpace email = tv_email row \<and> erased t (pn_store p) (pn_store p') \<and>
    (\<forall>l \<in> set listings. ls_Traveller l = t \<and> minAge \<le> now - ls_LastModified l \<longrightarrow>
       Stat b' (listed_key l) = Inl ErrNoSuchObject)"
proof -
  let ?d = "admin_deps pw uuid listed invites del sha upper"
  have pass: "pw_Password ?d \<noteq> []" using assms(1) by (auto simp: mount_panel_def)
  have nl: "\<not> is_login (pr_Call rq)" using assms(2) by (simp add: is_login_def)
  have run: "a = fst (guarded w rq (behind ?d w rq) p)" "p' = snd (guarded w rq (behind ?d w rq) p)"
    using mount_behind_run [OF assms(1) pass nl] by simp_all
  obtain csrf m where run: "a = fst (deleteTraveller ?d csrf (pr_HX rq) i email (p\<lparr>pn_sessions := m\<rparr>))"
    "p' = snd (deleteTraveller ?d csrf (pr_HX rq) i email (p\<lparr>pn_sessions := m\<rparr>))"
  proof (rule guarded_cases [of w rq "behind ?d w rq" p])
    fix c csrf m
    assume "guarded w rq (behind ?d w rq) p = behind ?d w rq csrf (p\<lparr>pn_sessions := m\<rparr>)"
    with run assms(2) that show ?thesis by (simp add: behind_def)
  qed (use run assms(3) in \<open>auto simp: deletion_done_def loginPath_def\<close>)
  obtain t row where t: "uuid i = Some t" "find_traveller (au_log (au_db (pn_store p))) t = Some row"
    "TrimSpace email = tv_email row" "erased t (pn_store p) (pn_store p')"
    using deleteTraveller_done [of pw uuid listed invites del sha upper csrf "pr_HX rq" i email "p\<lparr>pn_sessions := m\<rparr>"]
      assms(3,4) run by auto
  have uuids: "CHR ''/'' \<notin> set u" if "has_traveller (au_log (au_db (pn_store p))) u" for u
    using that assms(5) travellerRe_no_slash by (auto simp: has_traveller_def)
  have "has_traveller (au_log (au_db (pn_store p))) t"
    using t(2) by (auto simp: find_traveller_def has_traveller_def dest: find_SomeD)
  then have slash: "CHR ''/'' \<notin> set t" by (rule uuids)
  have other: "path_of (media_key r) \<noteq> path_of (listed_key l)"
    if "r \<in> set (media_objects (au_log (au_db s2)))" "ls_Traveller l = t" for r l
  proof
    assume same: "path_of (media_key r) = path_of (listed_key l)"
    have r: "md_traveller r \<noteq> t" using that(1) t(4) assms(6) unfolding erased_def by simp
    have "r \<in> set (media_objects (view (md_traveller r) (au_log (au_db (pn_store p')))))"
      using that(1) assms(6) by (simp add: in_view)
    with r have "r \<in> set (media_objects (view (md_traveller r) (au_log (au_db (pn_store p)))))"
      using t(4) unfolding erased_def by metis
    then have "has_traveller (au_log (au_db (pn_store p))) (md_traveller r)"
      using assms(4) by (auto simp: in_view schema_ok_def refs_hold_def list_all_iff media_fk_def)
    then have "CHR ''/'' \<notin> set (md_traveller r)" by (rule uuids)
    from path_traveller [OF this slash] same that(2) r show False
      by (simp add: path_of_def media_key_def listed_key_def)
  qed
  have "Stat b' (listed_key l) = Inl ErrNoSuchObject"
    if "l \<in> set listings" "ls_Traveller l = t" "minAge \<le> now - ls_LastModified l" for l
    using sweep_effect(5) [OF assms(8) refl _ assms(7) that(1,3)] other [OF _ that(2)] by simp
  with t show ?thesis by blast
qed

definition sample_request :: panel_request where
  "sample_request = sample_ask (DeletePost sample_uuid ''a@b'')"

definition sample_account :: auth_state where
  "sample_account = sample_auth\<lparr>au_db := (au_db sample_auth)\<lparr>au_log := sample\<lparr>
     travellers := [\<lparr>tv_id = sample_uuid, tv_email = ''a@b'', tv_name = None, tv_version = 3\<rparr>],
     media_objects := [\<lparr>md_traveller = sample_uuid, md_id = asset_a, md_size = 3,
        md_type = ''image/png'', md_created = 1000, md_uploaded = Some 2000\<rparr>],
     cities := [], trips := [], trip_cities := [], places := [], visits := [], photos := [], walks := [],
     share_links := []\<rparr>\<rparr>\<rparr>"

definition sample_office :: "(auth_state, memory) panel" where
  "sample_office = sample_panel\<lparr>pn_store := sample_account,
     pn_sessions := [(''01'', \<lparr>en_csrf = ''02'', en_deadline = 10\<rparr>)]\<rparr>"

text \<open>The panel was given no bucket, so the bytes are left to the sweep.\<close>

definition careless_deps :: "(auth_state, memory) panel_deps" where
  "careless_deps = admin_deps ''open'' Some (\<lambda>_ _ _ s. (None, s)) (\<lambda>s. (None, s)) None
     (\<lambda>b. map char_of b) (\<lambda>x. x)"

theorem deleted_then_swept_witness:
  "\<exists>p' b' s3 x. mount_panel careless_deps (sample_draw 5) sample_request sample_office =
       (Some (SeeOther ''/admin/travellers'' None), p') \<and>
     sample_sweep (pn_store p') = (Inr x, b', s3) \<and>
     erased sample_uuid sample_account (pn_store p') \<and>
     Stat sample_memory sample_key \<noteq> Inl ErrNoSuchObject \<and> Stat b' sample_key = Inl ErrNoSuchObject"
proof -
  let ?req = "mount_panel careless_deps (sample_draw 5) sample_request sample_office"
  have "fst ?req = Some (SeeOther ''/admin/travellers'' None)" by code_simp
  then obtain p' where req: "?req = (Some (SeeOther ''/admin/travellers'' None), p')" by (metis prod.collapse)
  have "media_objects (au_log (au_db (pn_store (snd ?req)))) = []" "au_faults (pn_store (snd ?req)) = []"
    by code_simp+
  then have "path_of sample_key \<notin> known_objects (au_db (pn_store p'))" "au_faults (pn_store p') = []"
    unfolding req by (simp_all add: known_objects_def)
  from sample_swept [OF this] obtain x b' s3 where sweep: "sample_sweep (pn_store p') = (Inr x, b', s3)" by blast
  have account: "pn_store sample_office = sample_account" by (simp add: sample_office_def)
  have ok: "schema_ok (au_log (au_db sample_account))" by code_simp
  have ids: "\<forall>r \<in> set (travellers (au_log (au_db sample_account))). travellerRe (tv_id r)" by code_simp
  have call: "pr_Call sample_request = DeletePost sample_uuid ''a@b''"
    by (simp add: sample_request_def sample_ask_def)
  have moved: "deletion_done (SeeOther ''/admin/travellers'' None)" by (simp add: deletion_done_def)
  from deleted_then_swept [OF req [unfolded careless_deps_def] call moved ok [folded account] ids [folded account]
      refl refl sweep]
  have "erased sample_uuid sample_account (pn_store p')" "Stat b' sample_key = Inl ErrNoSuchObject"
    by (auto simp: account sample_listing listed_key_def sample_key_def minAge_def zero_time_def)
  with req sweep sample_stat show ?thesis by auto
qed

subsection \<open>Figures\<close>

lemma unit_loop_result:
  "1 \<le> m \<Longrightarrow> \<exists>j. unit_loop m d e = (d * 1024 ^ j, e + j) \<and> 1024 ^ j \<le> m \<and> m < 1024 ^ (j + 1)"
proof (induction m d e rule: unit_loop.induct)
  case (1 m d e)
  show ?case
  proof (cases "m \<ge> 1024")
    case True
    then obtain j where j: "unit_loop (m div 1024) (d * 1024) (e + 1) = (d * 1024 * 1024 ^ j, e + 1 + j)"
      "1024 ^ j \<le> m div 1024" "m div 1024 < 1024 ^ (j + 1)"
      using 1 by force
    have "1024 ^ (j + 1) \<le> m" "m < 1024 ^ (j + 2)" using j(2,3) by simp_all
    with True j(1) show ?thesis by (intro exI [of _ "j + 1"]) (simp add: unit_loop.simps [of m])
  next
    case False
    with 1(2) show ?thesis by (intro exI [of _ 0]) (simp add: unit_loop.simps [of m])
  qed
qed

text \<open>C40: The loop that picks the unit of a size ends for every size, after as many turns as the size has
  powers of 1024 beyond the first, so after at most five for a 64-bit count. It leaves with the
  unit in which the size reads as at least 1 and less than 1024. Below a pebibyte the page has a
  letter for it; from there on the letter is looked up past the end of the list, which panics.\<close>

theorem size_unit_found:
  assumes "1024 \<le> n" "n < 2 ^ 63"
  shows "\<exists>e \<le> 5. unit_loop (n div 1024) 1024 0 = (1024 ^ (e + 1), e) \<and> 1024 ^ (e + 1) \<le> n \<and> n < 1024 * 1024 ^ (e + 1) \<and>
    humanBytes n = (if n < 1024 ^ 5 then Scaled n (1024 ^ (e + 1)) (''KMGT'' ! e) else Panic)"
proof -
  have some: "1 \<le> n div 1024" using zdiv_mono1 [OF assms(1), of 1024] by simp
  obtain j where j: "unit_loop (n div 1024) 1024 0 = (1024 * 1024 ^ j, j)" "1024 ^ j \<le> n div 1024" "n div 1024 < 1024 ^ (j + 1)"
    using unit_loop_result [of "n div 1024" 1024 0] some by auto
  have size: "1024 ^ (j + 1) \<le> n" "n < 1024 ^ (j + 2)" using j(2,3) by simp_all
  have "j \<le> 5"
  proof (rule ccontr)
    assume "\<not> j \<le> 5"
    then have "(1024 :: int) ^ 7 \<le> 1024 ^ (j + 1)" by (intro power_increasing) simp_all
    with size(1) assms(2) show False by simp
  qed
  moreover have "j < 4 \<longleftrightarrow> n < 1024 ^ 5"
  proof
    assume "j < 4"
    then have "(1024 :: int) ^ (j + 2) \<le> 1024 ^ 5" by (intro power_increasing) simp_all
    with size(2) show "n < 1024 ^ 5" by linarith
  next
    assume small: "n < 1024 ^ 5"
    show "j < 4"
    proof (rule ccontr)
      assume "\<not> j < 4"
      then have "(1024 :: int) ^ 5 \<le> 1024 ^ (j + 1)" by (intro power_increasing) simp_all
      with size(1) small show False by linarith
    qed
  qed
  ultimately show ?thesis
    using j(1) size assms(1) by (intro exI [of _ j]) (simp add: humanBytes_def)
qed

theorem size_unit_found_witness:
  "humanBytes 5242880 = Scaled 5242880 1048576 CHR ''M'' \<and> humanBytes (2 ^ 50) = Panic"
proof -
  obtain e where e: "1024 ^ (e + 1) \<le> (5242880 :: int)" "5242880 < (1024 :: int) * 1024 ^ (e + 1)"
    "humanBytes 5242880 = Scaled 5242880 (1024 ^ (e + 1)) (''KMGT'' ! e)"
    using size_unit_found [of 5242880] by auto
  have "e = 1"
  proof -
    have "e < 2" using power_increasing [of 3 "e + 1" "1024 :: int"] e(1) by (cases "e < 2") auto
    moreover have "e \<noteq> 0" using e(2) by (cases e) simp_all
    ultimately show ?thesis by simp
  qed
  moreover have "humanBytes (2 ^ 50) = Panic" using size_unit_found [of "2 ^ 50"] by auto
  ultimately show ?thesis using e(3) by simp
qed

end
