(* ===== verification/Middleware.thy ===== *)
theory Middleware
  imports Http_Errors
begin

section \<open>The middleware chain (\<^verbatim>\<open>internal/httpx/middleware.go\<close>, \<^verbatim>\<open>mux.go\<close>, \<^verbatim>\<open>gzip.go\<close>)\<close>

text \<open>
  Go's \<open>http.ResponseWriter\<close> is an interface: a header map and two methods. Here it is a record of
  operations over a state \<open>'w\<close>, and a type that embeds a writer (\<open>statusWriter\<close>, \<open>envelopeWriter\<close>,
  \<open>compressWriter\<close>, ...) is a record whose first field is the state of the writer it embeds; its
  methods are built from the operations of that writer. A middleware turns a handler on the wrapped
  writer into a handler on the writer below, so the chain is the composition it is in the code.

  \<open>net/http\<close> is modelled as far as the code relies on it: the connection's writer, which takes the
  first status and a copy of the header at that moment, and \<open>TimeoutHandler\<close>, which buffers. What the
  race of \<open>TimeoutHandler\<close> comes to is an argument, and so is the compressor. A handler is the list
  of calls it makes and the way it ends. Informational statuses (1xx), stack traces and durations
  in log lines are not modelled.
\<close>

subsection \<open>Headers and writers\<close>

type_synonym header = "string \<Rightarrow> string list"

definition HeaderGet :: "string \<Rightarrow> header \<Rightarrow> string" where
  "HeaderGet k h = (case h k of [] \<Rightarrow> [] | v # _ \<Rightarrow> v)"

record 'w response_writer =
  rw_Header :: "'w \<Rightarrow> header"
  rw_SetHeader :: "header \<Rightarrow> 'w \<Rightarrow> 'w"
  rw_WriteHeader :: "nat \<Rightarrow> 'w \<Rightarrow> 'w"
  rw_Write :: "string \<Rightarrow> 'w \<Rightarrow> nat \<times> 'w"

definition header_set :: "'w response_writer \<Rightarrow> string \<Rightarrow> string \<Rightarrow> 'w \<Rightarrow> 'w" where
  "header_set rw k v w = rw_SetHeader rw ((rw_Header rw w)(k := [v])) w"

definition header_add :: "'w response_writer \<Rightarrow> string \<Rightarrow> string \<Rightarrow> 'w \<Rightarrow> 'w" where
  "header_add rw k v w = rw_SetHeader rw ((rw_Header rw w)(k := rw_Header rw w k @ [v])) w"

definition header_del :: "'w response_writer \<Rightarrow> string \<Rightarrow> 'w \<Rightarrow> 'w" where
  "header_del rw k w = rw_SetHeader rw ((rw_Header rw w)(k := [])) w"

text \<open>The connection's writer. A later status is ignored, a body that the status does not allow is
  refused, and so is one that runs past the declared length, counting what was refused. The body of
  an answer to HEAD is counted and not sent: the caller of \<open>Write\<close> cannot tell.\<close>

record conn =
  cn_head :: bool                 \<comment> \<open>the request's method is HEAD\<close>
  cn_Header :: header
  cn_sent :: "(nat \<times> header) option"
  cn_written :: nat
  cn_body :: string

definition body_allowed :: "nat \<Rightarrow> bool" where
  "body_allowed status \<longleftrightarrow> status \<noteq> 204 \<and> status \<noteq> 304"

definition past_length :: "header \<Rightarrow> nat \<Rightarrow> bool" where
  "past_length h k =
     (case parse_digits 0 (HeaderGet ''Content-Length'' h) of
        None \<Rightarrow> False
      | Some n \<Rightarrow> h ''Content-Length'' \<noteq> [] \<and> n < k)"

definition conn_WriteHeader :: "nat \<Rightarrow> conn \<Rightarrow> conn" where
  "conn_WriteHeader status c =
     (case cn_sent c of Some _ \<Rightarrow> c | None \<Rightarrow> c\<lparr>cn_sent := Some (status, cn_Header c)\<rparr>)"

definition conn_Write :: "string \<Rightarrow> conn \<Rightarrow> nat \<times> conn" where
  "conn_Write b c =
     (let c1 = conn_WriteHeader 200 c
      in case cn_sent c1 of
           None \<Rightarrow> (0, c1)
         | Some (status, h) \<Rightarrow>
             if \<not> body_allowed status then (0, c1)
             else
               let c2 = c1\<lparr>cn_written := cn_written c1 + length b\<rparr>
               in if past_length h (cn_written c2) then (0, c2)
                  else (length b, if cn_head c2 then c2 else c2\<lparr>cn_body := cn_body c2 @ b\<rparr>))"

definition connWriter :: "conn response_writer" where
  "connWriter = \<lparr>rw_Header = cn_Header, rw_SetHeader = (\<lambda>h c. c\<lparr>cn_Header := h\<rparr>),
     rw_WriteHeader = conn_WriteHeader, rw_Write = conn_Write\<rparr>"

subsection \<open>Requests, log lines and handlers\<close>

record request_head =
  rh_Method :: string
  rh_Path :: string
  rh_AcceptEncoding :: string
  rh_RequestID :: string          \<comment> \<open>the context's value, empty without one\<close>

definition SharePathPrefix :: string where "SharePathPrefix = ''/l/''"
definition RedactedSharePath :: string where "RedactedSharePath = ''/l/[redacted]''"

definition LoggedPath :: "request_head \<Rightarrow> string" where
  "LoggedPath rq = (if prefix SharePathPrefix (rh_Path rq) then RedactedSharePath else rh_Path rq)"

datatype log_level = LevelDebug | LevelInfo | LevelError

datatype log_line =
    PanicLine (pl_panic: string) (pl_requestId: string) (pl_method: string) (pl_path: string)
  | AccessLine (al_level: log_level) (al_method: string) (al_path: string) (al_status: nat) (al_bytes: nat)
      (al_requestId: string) (al_travellerId: "id option") (al_route: "string option")

definition accessLevel :: "nat \<Rightarrow> bool \<Rightarrow> log_level" where
  "accessLevel status quiet =
     (if status = 0 \<or> 500 \<le> status then LevelError else if quiet then LevelDebug else LevelInfo)"

record requestFacts =
  rf_travellerID :: id
  rf_route :: string

datatype ending = Returned | Panicked string | Aborted   \<comment> \<open>\<open>panic(http.ErrAbortHandler)\<close>\<close>

text \<open>What a handler works on: its writer, the log, and the facts the context carries.\<close>

record 'w req_world =
  wd_w :: 'w
  wd_log :: "log_line list"
  wd_facts :: "requestFacts option"

definition on_writer :: "('w \<Rightarrow> 'v) \<Rightarrow> 'w req_world \<Rightarrow> 'v req_world" where
  "on_writer f s = \<lparr>wd_w = f (wd_w s), wd_log = wd_log s, wd_facts = wd_facts s\<rparr>"

type_synonym 'w http_handler = "request_head \<Rightarrow> 'w response_writer \<Rightarrow> 'w req_world \<Rightarrow> ending \<times> 'w req_world"

datatype http_op =
    SetHeader string string | AddHeader string string | DelHeader string
  | WriteStatus nat | WriteBytes string
  | RecordTraveller id | RecordRoute string

definition record_fact :: "string \<Rightarrow> (string \<Rightarrow> requestFacts \<Rightarrow> requestFacts) \<Rightarrow> 'w req_world \<Rightarrow> 'w req_world" where
  "record_fact x f s = (if x = [] then s else s\<lparr>wd_facts := map_option (f x) (wd_facts s)\<rparr>)"

fun do_op :: "'w response_writer \<Rightarrow> http_op \<Rightarrow> 'w req_world \<Rightarrow> 'w req_world" where
  "do_op rw (SetHeader k v) s = on_writer (header_set rw k v) s"
| "do_op rw (AddHeader k v) s = on_writer (header_add rw k v) s"
| "do_op rw (DelHeader k) s = on_writer (header_del rw k) s"
| "do_op rw (WriteStatus n) s = on_writer (rw_WriteHeader rw n) s"
| "do_op rw (WriteBytes b) s = on_writer (\<lambda>w. snd (rw_Write rw b w)) s"
| "do_op rw (RecordTraveller t) s = record_fact t (\<lambda>t. rf_travellerID_update (\<lambda>_. t)) s"
| "do_op rw (RecordRoute p) s = record_fact p (\<lambda>p. rf_route_update (\<lambda>_. p)) s"

definition performs :: "http_op list \<times> ending \<Rightarrow> 'w http_handler" where
  "performs prog rq rw s = (snd prog, fold (do_op rw) (fst prog) s)"

subsection \<open>The wrapping writers\<close>

record 'w statusWriter =
  sw_inner :: 'w
  sw_status :: nat
  sw_bytes :: nat
  sw_wroteHeader :: bool

definition sw_WriteHeader :: "'w response_writer \<Rightarrow> nat \<Rightarrow> 'w statusWriter \<Rightarrow> 'w statusWriter" where
  "sw_WriteHeader rw status w =
     (let w1 = (if \<not> sw_wroteHeader w then w\<lparr>sw_wroteHeader := True, sw_status := status\<rparr> else w)
      in w1\<lparr>sw_inner := rw_WriteHeader rw status (sw_inner w1)\<rparr>)"

definition sw_Write :: "'w response_writer \<Rightarrow> string \<Rightarrow> 'w statusWriter \<Rightarrow> nat \<times> 'w statusWriter" where
  "sw_Write rw b w =
     (let w1 = (if \<not> sw_wroteHeader w then sw_WriteHeader rw 200 w else w);
          (n, i) = rw_Write rw b (sw_inner w1)
      in (n, w1\<lparr>sw_inner := i, sw_bytes := sw_bytes w1 + n\<rparr>))"

definition status_writer :: "'w response_writer \<Rightarrow> 'w statusWriter response_writer" where
  "status_writer rw = \<lparr>rw_Header = (\<lambda>w. rw_Header rw (sw_inner w)),
     rw_SetHeader = (\<lambda>h w. w\<lparr>sw_inner := rw_SetHeader rw h (sw_inner w)\<rparr>),
     rw_WriteHeader = sw_WriteHeader rw, rw_Write = sw_Write rw\<rparr>"

definition new_statusWriter :: "'w \<Rightarrow> 'w statusWriter" where
  "new_statusWriter w = \<lparr>sw_inner = w, sw_status = 0, sw_bytes = 0, sw_wroteHeader = False\<rparr>"

definition retryAfterSeconds :: string where "retryAfterSeconds = ''5''"

record 'w retryAfterWriter =
  ra_inner :: 'w
  ra_wroteHeader :: bool

definition ra_WriteHeader :: "'w response_writer \<Rightarrow> nat \<Rightarrow> 'w retryAfterWriter \<Rightarrow> 'w retryAfterWriter" where
  "ra_WriteHeader rw status w =
     (let i = (if \<not> ra_wroteHeader w \<and> status = 503 \<and> HeaderGet ''Retry-After'' (rw_Header rw (ra_inner w)) = []
               then header_set rw ''Retry-After'' retryAfterSeconds (ra_inner w) else ra_inner w)
      in \<lparr>ra_inner = rw_WriteHeader rw status i, ra_wroteHeader = True\<rparr>)"

definition ra_Write :: "'w response_writer \<Rightarrow> string \<Rightarrow> 'w retryAfterWriter \<Rightarrow> nat \<times> 'w retryAfterWriter" where
  "ra_Write rw b w =
     (let w1 = (if \<not> ra_wroteHeader w then ra_WriteHeader rw 200 w else w);
          (n, i) = rw_Write rw b (ra_inner w1)
      in (n, w1\<lparr>ra_inner := i\<rparr>))"

definition retry_after_writer :: "'w response_writer \<Rightarrow> 'w retryAfterWriter response_writer" where
  "retry_after_writer rw = \<lparr>rw_Header = (\<lambda>w. rw_Header rw (ra_inner w)),
     rw_SetHeader = (\<lambda>h w. w\<lparr>ra_inner := rw_SetHeader rw h (ra_inner w)\<rparr>),
     rw_WriteHeader = ra_WriteHeader rw, rw_Write = ra_Write rw\<rparr>"

definition contentTypeJSON :: string where "contentTypeJSON = ''application/json''"

record 'w jsonByDefault =
  jd_inner :: 'w

definition jd_WriteHeader :: "'w response_writer \<Rightarrow> nat \<Rightarrow> 'w jsonByDefault \<Rightarrow> 'w jsonByDefault" where
  "jd_WriteHeader rw status w =
     \<lparr>jd_inner = rw_WriteHeader rw status
       (if HeaderGet ''Content-Type'' (rw_Header rw (jd_inner w)) = []
        then header_set rw ''Content-Type'' contentTypeJSON (jd_inner w) else jd_inner w)\<rparr>"

definition json_by_default :: "'w response_writer \<Rightarrow> 'w jsonByDefault response_writer" where
  "json_by_default rw = \<lparr>rw_Header = (\<lambda>w. rw_Header rw (jd_inner w)),
     rw_SetHeader = (\<lambda>h w. \<lparr>jd_inner = rw_SetHeader rw h (jd_inner w)\<rparr>),
     rw_WriteHeader = jd_WriteHeader rw,
     rw_Write = (\<lambda>b w. case rw_Write rw b (jd_inner w) of (n, i) \<Rightarrow> (n, \<lparr>jd_inner = i\<rparr>))\<rparr>"

text \<open>The writer \<open>TimeoutHandler\<close> hands to the handler: everything is kept until it returns.\<close>

record timeoutWriter =
  tw_h :: header
  tw_code :: nat
  tw_wroteHeader :: bool
  tw_wbuf :: string

definition tw_WriteHeader :: "nat \<Rightarrow> timeoutWriter \<Rightarrow> timeoutWriter" where
  "tw_WriteHeader status w =
     (if tw_wroteHeader w then w else w\<lparr>tw_wroteHeader := True, tw_code := status\<rparr>)"

definition timeout_writer :: "timeoutWriter response_writer" where
  "timeout_writer = \<lparr>rw_Header = tw_h, rw_SetHeader = (\<lambda>h w. w\<lparr>tw_h := h\<rparr>),
     rw_WriteHeader = tw_WriteHeader,
     rw_Write = (\<lambda>b w. let w1 = tw_WriteHeader 200 w in (length b, w1\<lparr>tw_wbuf := tw_wbuf w1 @ b\<rparr>))\<rparr>"

definition new_timeoutWriter :: timeoutWriter where
  "new_timeoutWriter = \<lparr>tw_h = (\<lambda>_. []), tw_code = 0, tw_wroteHeader = False, tw_wbuf = []\<rparr>"

text \<open>The writer that replaces a plain 404 or 405.\<close>

record 'w envelopeWriter =
  ew_inner :: 'w
  ew_wroteHeader :: bool
  ew_swallowing :: bool

definition stdlibWroteIt :: "header \<Rightarrow> nat \<Rightarrow> bool" where
  "stdlibWroteIt h status =
     (if status \<noteq> 404 \<and> status \<noteq> 405 then False
      else \<not> prefix contentTypeJSON (HeaderGet ''Content-Type'' h))"

definition bodyUnsupportedRoute :: string where
  "bodyUnsupportedRoute = prebuiltBody CodeUnsupportedRoute"

definition ew_WriteHeader :: "'w response_writer \<Rightarrow> nat \<Rightarrow> 'w envelopeWriter \<Rightarrow> 'w envelopeWriter" where
  "ew_WriteHeader rw status w =
     (if ew_wroteHeader w then w\<lparr>ew_inner := rw_WriteHeader rw status (ew_inner w)\<rparr>
      else if \<not> stdlibWroteIt (rw_Header rw (ew_inner w)) status
      then w\<lparr>ew_inner := rw_WriteHeader rw status (ew_inner w), ew_wroteHeader := True\<rparr>
      else
        let i1 = header_set rw ''Content-Type'' contentTypeJSON (ew_inner w);
            i2 = header_set rw ''Content-Length'' (FormatNat (length bodyUnsupportedRoute)) i1;
            i3 = rw_WriteHeader rw status i2;
            i4 = snd (rw_Write rw bodyUnsupportedRoute i3)
        in \<lparr>ew_inner = i4, ew_wroteHeader = True, ew_swallowing = True\<rparr>)"

definition ew_Write :: "'w response_writer \<Rightarrow> string \<Rightarrow> 'w envelopeWriter \<Rightarrow> nat \<times> 'w envelopeWriter" where
  "ew_Write rw b w =
     (let w1 = (if \<not> ew_wroteHeader w then ew_WriteHeader rw 200 w else w)
      in if ew_swallowing w1 then (length b, w1)
         else case rw_Write rw b (ew_inner w1) of (n, i) \<Rightarrow> (n, w1\<lparr>ew_inner := i\<rparr>))"

definition envelope_writer :: "'w response_writer \<Rightarrow> 'w envelopeWriter response_writer" where
  "envelope_writer rw = \<lparr>rw_Header = (\<lambda>w. rw_Header rw (ew_inner w)),
     rw_SetHeader = (\<lambda>h w. w\<lparr>ew_inner := rw_SetHeader rw h (ew_inner w)\<rparr>),
     rw_WriteHeader = ew_WriteHeader rw, rw_Write = ew_Write rw\<rparr>"

subsection \<open>Compression\<close>

text \<open>A \<open>gzip.Writer\<close> is what it has been given so far and the compressor's two functions: what a
  write emits, given the chunks with the new one last, and what closing emits. It writes to the buffer
  of the time limit, which does not fail, so the error branch of \<open>startCompressing\<close> has no value here.\<close>

record compressor =
  gz_write :: "string list \<Rightarrow> string"
  gz_close :: "string list \<Rightarrow> string"

definition compressFloor :: nat where "compressFloor = 1400"

record 'w compressWriter =
  cw_inner :: 'w
  cw_status :: nat
  cw_wroteHeader :: bool
  cw_head :: string
  cw_gz :: "string list option"
  cw_passing :: bool
  cw_deciding :: bool

definition new_compressWriter :: "'w \<Rightarrow> 'w compressWriter" where
  "new_compressWriter w = \<lparr>cw_inner = w, cw_status = 0, cw_wroteHeader = False, cw_head = [],
     cw_gz = None, cw_passing = False, cw_deciding = False\<rparr>"

definition cw_WriteHeader :: "'w response_writer \<Rightarrow> nat \<Rightarrow> 'w compressWriter \<Rightarrow> 'w compressWriter" where
  "cw_WriteHeader rw status w =
     (if cw_wroteHeader w then w
      else
        let w1 = w\<lparr>cw_wroteHeader := True, cw_status := status\<rparr>
        in if status = 304 \<or> status = 204 \<or> status < 200
           then w1\<lparr>cw_passing := True, cw_inner := rw_WriteHeader rw status (cw_inner w1)\<rparr>
           else w1\<lparr>cw_deciding := True\<rparr>)"

definition gz_put :: "compressor \<Rightarrow> 'w response_writer \<Rightarrow> string list \<Rightarrow> string \<Rightarrow> 'w compressWriter \<Rightarrow> 'w compressWriter" where
  "gz_put gz rw chunks b w =
     w\<lparr>cw_gz := Some (chunks @ [b]), cw_inner := snd (rw_Write rw (gz_write gz (chunks @ [b])) (cw_inner w))\<rparr>"

definition startCompressing :: "compressor \<Rightarrow> 'w response_writer \<Rightarrow> 'w compressWriter \<Rightarrow> 'w compressWriter" where
  "startCompressing gz rw w =
     (let i1 = header_set rw ''Content-Encoding'' ''gzip'' (cw_inner w);
          i2 = header_del rw ''Content-Length'' i1;
          i3 = rw_WriteHeader rw (cw_status w) i2
      in gz_put gz rw [] (cw_head w) (w\<lparr>cw_inner := i3, cw_deciding := False, cw_head := []\<rparr>))"

definition cw_Write :: "compressor \<Rightarrow> 'w response_writer \<Rightarrow> string \<Rightarrow> 'w compressWriter \<Rightarrow> nat \<times> 'w compressWriter" where
  "cw_Write gz rw b w0 =
     (let w = (if \<not> cw_wroteHeader w0 then cw_WriteHeader rw 200 w0 else w0)
      in if cw_passing w then (case rw_Write rw b (cw_inner w) of (n, i) \<Rightarrow> (n, w\<lparr>cw_inner := i\<rparr>))
         else case cw_gz w of
           Some chunks \<Rightarrow> (length b, gz_put gz rw chunks b w)
         | None \<Rightarrow>
             let w1 = w\<lparr>cw_head := cw_head w @ b\<rparr>
             in if length (cw_head w1) < compressFloor then (length b, w1)
                else (length b, startCompressing gz rw w1))"

definition cw_close :: "compressor \<Rightarrow> 'w response_writer \<Rightarrow> 'w compressWriter \<Rightarrow> 'w compressWriter" where
  "cw_close gz rw w =
     (case cw_gz w of
        Some chunks \<Rightarrow> w\<lparr>cw_inner := snd (rw_Write rw (gz_close gz chunks) (cw_inner w)), cw_gz := None\<rparr>
      | None \<Rightarrow>
          if cw_deciding w
          then (let i = rw_WriteHeader rw (cw_status w) (cw_inner w)
                in if cw_head w \<noteq> []
                   then w\<lparr>cw_deciding := False, cw_inner := snd (rw_Write rw (cw_head w) i), cw_head := []\<rparr>
                   else w\<lparr>cw_deciding := False, cw_inner := i\<rparr>)
          else w)"

definition compress_writer :: "compressor \<Rightarrow> 'w response_writer \<Rightarrow> 'w compressWriter response_writer" where
  "compress_writer gz rw = \<lparr>rw_Header = (\<lambda>w. rw_Header rw (cw_inner w)),
     rw_SetHeader = (\<lambda>h w. w\<lparr>cw_inner := rw_SetHeader rw h (cw_inner w)\<rparr>),
     rw_WriteHeader = cw_WriteHeader rw, rw_Write = cw_Write gz rw\<rparr>"

text \<open>\<open>strconv.ParseFloat\<close> as \<open>acceptsGzip\<close> uses it: whether a decimal literal is read as zero. A value
  of at most half the least positive \<open>float64\<close> rounds to zero; hexadecimal literals are left out.\<close>

definition decimal :: "string \<Rightarrow> (nat \<times> int) option" where
  "decimal s =
     (let unsigned = (case s of c # cs \<Rightarrow> if c = CHR ''-'' \<or> c = CHR ''+'' then cs else s | [] \<Rightarrow> []);
          mant = takeWhile (\<lambda>c. c \<noteq> CHR ''e'' \<and> c \<noteq> CHR ''E'') unsigned;
          exp = drop (length mant) unsigned;
          (whole, frac) = (case Cut (CHR ''.'') mant of None \<Rightarrow> (mant, []) | Some (a, b) \<Rightarrow> (a, b))
      in if whole @ frac = [] then None
         else case (parse_digits 0 (whole @ frac), if exp = [] then Some 0 else ParseInt64 (tl exp)) of
                (Some m, Some e) \<Rightarrow> Some (m, e - int (length frac))
              | _ \<Rightarrow> None)"

definition parses_to_zero :: "string \<Rightarrow> bool" where
  "parses_to_zero s =
     (case decimal s of
        None \<Rightarrow> False
      | Some (m, e) \<Rightarrow> m = 0 \<or> (e < 0 \<and> m * 2 ^ 1075 \<le> 10 ^ nat (- e)))"

definition refuses :: "string \<Rightarrow> bool" where
  "refuses param =
     (case Cut (CHR ''='') (TrimSpace param) of
        None \<Rightarrow> False
      | Some (name, v) \<Rightarrow> map ascii_lower (TrimSpace name) = ''q'' \<and> parses_to_zero (TrimSpace v))"

definition acceptsGzip :: "string \<Rightarrow> bool" where
  "acceptsGzip h =
     (case find (\<lambda>part. map ascii_lower (TrimSpace (hd (Split (CHR '';'') (TrimSpace part)))) = ''gzip'')
             (Split (CHR '','') h) of
        None \<Rightarrow> False
      | Some part \<Rightarrow> \<not> list_ex refuses (tl (Split (CHR '';'') (TrimSpace part))))"

subsection \<open>The middlewares\<close>

definition RequestID :: "string \<Rightarrow> 'w http_handler \<Rightarrow> 'w http_handler" where
  "RequestID minted next rq rw s =
     next (rq\<lparr>rh_RequestID := minted\<rparr>) rw (on_writer (header_set rw ''X-Request-Id'' minted) s)"

definition WriteErrorTo :: "'w response_writer \<Rightarrow> code \<Rightarrow> 'w req_world \<Rightarrow> 'w req_world" where
  "WriteErrorTo rw c s =
     (let p = error_payload c
      in fold (do_op rw)
           [SetHeader ''Content-Type'' contentTypeJSON, WriteStatus (fst p), WriteBytes (prebuiltBody (ep_Code (snd p)))] s)"

definition requestIDForRecover :: "'w response_writer \<Rightarrow> 'w \<Rightarrow> request_head \<Rightarrow> string" where
  "requestIDForRecover rw w rq =
     (let minted = HeaderGet ''X-Request-Id'' (rw_Header rw w)
      in if minted \<noteq> [] then minted else rh_RequestID rq)"

definition Recover :: "'w statusWriter http_handler \<Rightarrow> 'w http_handler" where
  "Recover next rq rw s =
     (case next rq (status_writer rw) (on_writer new_statusWriter s) of
        (Panicked p, s1) \<Rightarrow>
          (let s2 = s1\<lparr>wd_log := wd_log s1 @
                 [PanicLine p (requestIDForRecover rw (sw_inner (wd_w s1)) rq) (rh_Method rq) (LoggedPath rq)]\<rparr>;
               s3 = (if \<not> sw_wroteHeader (wd_w s2) then WriteErrorTo (status_writer rw) CodeInternal s2 else s2)
           in (Returned, on_writer sw_inner s3))
      | (e, s1) \<Rightarrow> (e, on_writer sw_inner s1))"

definition shown :: "string \<Rightarrow> string option" where
  "shown x = (if x \<noteq> [] then Some x else None)"

definition access_line :: "string list \<Rightarrow> request_head \<Rightarrow> requestFacts \<Rightarrow> nat \<Rightarrow> nat \<Rightarrow> log_line" where
  "access_line quiet rq facts status sent =
     AccessLine (accessLevel status (rh_Path rq \<in> set quiet)) (rh_Method rq) (LoggedPath rq) status sent
       (rh_RequestID rq) (shown (rf_travellerID facts)) (shown (rf_route facts))"

definition AccessLog :: "string list \<Rightarrow> 'w statusWriter http_handler \<Rightarrow> 'w http_handler" where
  "AccessLog quiet next rq rw s =
     (case next rq (status_writer rw)
         (on_writer new_statusWriter (s\<lparr>wd_facts := Some \<lparr>rf_travellerID = [], rf_route = []\<rparr>\<rparr>)) of
        (e, s1) \<Rightarrow>
          (e, on_writer sw_inner (s1\<lparr>wd_log := wd_log s1 @
                [access_line quiet rq (the (wd_facts s1)) (sw_status (wd_w s1)) (sw_bytes (wd_w s1))]\<rparr>)))"

definition RetryAfter :: "'w retryAfterWriter http_handler \<Rightarrow> 'w http_handler" where
  "RetryAfter next rq rw s =
     map_prod id (on_writer ra_inner)
       (next rq (retry_after_writer rw) (on_writer (\<lambda>w. \<lparr>ra_inner = w, ra_wroteHeader = False\<rparr>) s))"

text \<open>How the race of \<open>TimeoutHandler\<close> ended, with the facts recorded by then where it expired.\<close>

datatype race = Finished | DeadlineHit requestFacts | ClientGone requestFacts

definition timeout_ops :: "race \<Rightarrow> http_op list" where
  "timeout_ops r =
     (case r of DeadlineHit _ \<Rightarrow> [WriteStatus 503, WriteBytes (prebuiltBody CodeTimeout)]
      | _ \<Rightarrow> [WriteStatus 503])"

definition flush_buffer :: "'w response_writer \<Rightarrow> timeoutWriter \<Rightarrow> 'w \<Rightarrow> 'w" where
  "flush_buffer rw tw w =
     (let h = rw_Header rw w;
          w1 = rw_SetHeader rw (\<lambda>k. if tw_h tw k \<noteq> [] then tw_h tw k else h k) w;
          w2 = rw_WriteHeader rw (if tw_wroteHeader tw then tw_code tw else 200) w1
      in snd (rw_Write rw (tw_wbuf tw) w2))"

definition TimeoutHandler :: "race \<Rightarrow> timeoutWriter http_handler \<Rightarrow> 'w http_handler" where
  "TimeoutHandler r next rq rw s =
     (case r of
        Finished \<Rightarrow>
          (case next rq timeout_writer (on_writer (\<lambda>_. new_timeoutWriter) s) of
             (Returned, s1) \<Rightarrow> (Returned, on_writer (\<lambda>tw. flush_buffer rw tw (wd_w s)) s1)
           | (e, s1) \<Rightarrow> (e, on_writer (\<lambda>_. wd_w s) s1))
      | DeadlineHit f \<Rightarrow> (Returned, fold (do_op rw) (timeout_ops r) (s\<lparr>wd_facts := Some f\<rparr>))
      | ClientGone f \<Rightarrow> (Returned, fold (do_op rw) (timeout_ops r) (s\<lparr>wd_facts := Some f\<rparr>)))"

definition Timeout :: "race \<Rightarrow> timeoutWriter http_handler \<Rightarrow> 'w http_handler" where
  "Timeout r next rq rw s =
     map_prod id (on_writer jd_inner)
       (TimeoutHandler r next rq (json_by_default rw) (on_writer (\<lambda>w. \<lparr>jd_inner = w\<rparr>) s))"

text \<open>The handler below is taken at both writers it may be given.\<close>

definition Compress ::
  "compressor \<Rightarrow> 'w http_handler \<Rightarrow> 'w compressWriter http_handler \<Rightarrow> 'w http_handler" where
  "Compress gz next next_gz rq rw s =
     (let s1 = on_writer (header_add rw ''Vary'' ''Accept-Encoding'') s
      in if \<not> acceptsGzip (rh_AcceptEncoding rq) then next rq rw s1
         else map_prod id (on_writer (\<lambda>w. cw_inner (cw_close gz rw w)))
                (next_gz rq (compress_writer gz rw) (on_writer new_compressWriter s1)))"

definition MuxErrors :: "'w envelopeWriter http_handler \<Rightarrow> 'w http_handler" where
  "MuxErrors next rq rw s =
     map_prod id (on_writer ew_inner)
       (next rq (envelope_writer rw)
         (on_writer (\<lambda>w. \<lparr>ew_inner = w, ew_wroteHeader = False, ew_swallowing = False\<rparr>) s))"

definition healthzPath :: string where "healthzPath = ''/healthz''"

definition serverChain :: "compressor \<Rightarrow> race \<Rightarrow> string \<Rightarrow> http_op list \<times> ending \<Rightarrow> conn http_handler" where
  "serverChain gz r minted mux =
     Recover (RequestID minted (AccessLog [healthzPath] (RetryAfter (Timeout r
       (Compress gz (MuxErrors (performs mux)) (MuxErrors (performs mux)))))))"

definition new_conn :: "request_head \<Rightarrow> conn" where
  "new_conn rq = \<lparr>cn_head = (rh_Method rq = ''HEAD''), cn_Header = (\<lambda>_. []), cn_sent = None, cn_written = 0,
     cn_body = []\<rparr>"

text \<open>The server: a handler that returns without a status has answered 200; one that aborts has its
  connection cut.\<close>

definition serve_conn :: "compressor \<Rightarrow> race \<Rightarrow> string \<Rightarrow> request_head \<Rightarrow> http_op list \<times> ending \<Rightarrow>
    (nat \<times> header \<times> string) option \<times> log_line list" where
  "serve_conn gz r minted rq mux =
     (case serverChain gz r minted mux (rq\<lparr>rh_RequestID := []\<rparr>) connWriter
         \<lparr>wd_w = new_conn rq, wd_log = [], wd_facts = None\<rparr> of
        (e, s) \<Rightarrow>
          (if e \<noteq> Returned then None
           else let c = conn_WriteHeader 200 (wd_w s)
                in map_option (\<lambda>(status, h). (status, h, cn_body c)) (cn_sent c),
           wd_log s))"

subsection \<open>Other handlers of the chain\<close>

text \<open>\<open>http.Error\<close>, with which the mux answers 404 and 405 and the panel its plain errors.\<close>

definition http_Error :: "string \<Rightarrow> nat \<Rightarrow> http_op list" where
  "http_Error msg status =
     [DelHeader ''Content-Length'', SetHeader ''Content-Type'' ''text/plain; charset=utf-8'',
      SetHeader ''X-Content-Type-Options'' ''nosniff'', WriteStatus status, WriteBytes (msg @ [CHR 0x0A])]"

definition CapabilityHeaders :: "'w http_handler \<Rightarrow> 'w http_handler" where
  "CapabilityHeaders next rq rw s =
     next rq rw (fold (do_op rw)
       [SetHeader ''Cache-Control'' ''no-store, private'', SetHeader ''Referrer-Policy'' ''no-referrer''] s)"

definition json_ops :: "nat \<Rightarrow> string option \<Rightarrow> http_op list" where
  "json_ops status marshalled =
     (case marshalled of
        None \<Rightarrow> [SetHeader ''Content-Type'' contentTypeJSON, WriteStatus 500, WriteBytes (prebuiltBody CodeInternal)]
      | Some body \<Rightarrow> [SetHeader ''Content-Type'' contentTypeJSON, WriteStatus status, WriteBytes body])"

definition healthzHandler :: "bool \<Rightarrow> http_op list" where
  "healthzHandler answered =
     (let q = [CHR 0x22]; status = (if answered then ''ok'' else ''unavailable'')
      in [SetHeader ''Content-Type'' ''application/json'', WriteStatus (if answered then 200 else 503),
          WriteBytes (''{'' @ q @ ''status'' @ q @ '':'' @ q @ status @ q @ ''}'' @ [CHR 0x0A])])"

end
