(* ===== verification/Middleware_Properties.thy ===== *)
theory Middleware_Properties
  imports Middleware
begin

section \<open>What reaches the client through the middleware chain\<close>

text \<open>
  A handler is run twice: through the whole chain, and straight on the connection. For a handler
  that sets its headers before it writes, as every one of the program does, the client of the chain
  reads the direct answer, after decompression, with the exceptions the chain is for: the plain 404
  and 405, a panic and an expired deadline. The proof goes writer by writer; each writer's effect on
  a list of calls is again a list of calls on the writer it embeds.
\<close>

subsection \<open>A handler's calls, writer and facts apart\<close>

fun w_op :: "'w response_writer \<Rightarrow> http_op \<Rightarrow> 'w \<Rightarrow> 'w" where
  "w_op rw (SetHeader k v) w = header_set rw k v w"
| "w_op rw (AddHeader k v) w = header_add rw k v w"
| "w_op rw (DelHeader k) w = header_del rw k w"
| "w_op rw (WriteStatus n) w = rw_WriteHeader rw n w"
| "w_op rw (WriteBytes b) w = snd (rw_Write rw b w)"
| "w_op rw _ w = w"

fun f_op :: "http_op \<Rightarrow> requestFacts option \<Rightarrow> requestFacts option" where
  "f_op (RecordTraveller t) f = (if t = [] then f else map_option (rf_travellerID_update (\<lambda>_. t)) f)"
| "f_op (RecordRoute p) f = (if p = [] then f else map_option (rf_route_update (\<lambda>_. p)) f)"
| "f_op _ f = f"

lemma do_op_apart:
  "do_op rw x s = \<lparr>wd_w = w_op rw x (wd_w s), wd_log = wd_log s, wd_facts = f_op x (wd_facts s)\<rparr>"
  by (cases x) (auto simp: on_writer_def record_fact_def)

lemma fold_do_op:
  "fold (do_op rw) ops s =
     \<lparr>wd_w = fold (w_op rw) ops (wd_w s), wd_log = wd_log s, wd_facts = fold f_op ops (wd_facts s)\<rparr>"
  by (induction ops arbitrary: s) (simp_all add: do_op_apart)

fun header_op :: "http_op \<Rightarrow> header \<Rightarrow> header" where
  "header_op (SetHeader k v) h = h(k := [v])"
| "header_op (AddHeader k v) h = h(k := h k @ [v])"
| "header_op (DelHeader k) h = h(k := [])"
| "header_op _ h = h"

fun sets_header :: "http_op \<Rightarrow> bool" where
  "sets_header (SetHeader k v) \<longleftrightarrow> k \<noteq> ''Content-Encoding''"
| "sets_header (AddHeader k v) \<longleftrightarrow> k \<noteq> ''Content-Encoding''"
| "sets_header (DelHeader k) \<longleftrightarrow> True"
| "sets_header (WriteStatus n) \<longleftrightarrow> False"
| "sets_header (WriteBytes b) \<longleftrightarrow> False"
| "sets_header _ \<longleftrightarrow> True"

fun writes :: "http_op \<Rightarrow> bool" where
  "writes (WriteStatus n) \<longleftrightarrow> 200 \<le> n"
| "writes (WriteBytes b) \<longleftrightarrow> True"
| "writes (RecordTraveller t) \<longleftrightarrow> True"
| "writes (RecordRoute p) \<longleftrightarrow> True"
| "writes _ \<longleftrightarrow> False"

fun first_status :: "http_op list \<Rightarrow> nat option" where
  "first_status [] = None"
| "first_status (WriteStatus n # _) = Some n"
| "first_status (WriteBytes _ # _) = Some 200"
| "first_status (_ # ws) = first_status ws"

fun written :: "http_op list \<Rightarrow> string" where
  "written [] = []"
| "written (WriteBytes b # ws) = b @ written ws"
| "written (_ # ws) = written ws"

text \<open>A length that is declared is the length of what is written, if anything is.\<close>

definition declares :: "header \<Rightarrow> string \<Rightarrow> bool" where
  "declares h b \<longleftrightarrow> h ''Content-Length'' = [] \<or> b = [] \<or>
     parse_digits 0 (HeaderGet ''Content-Length'' h) = Some (length b)"

text \<open>Headers first, the encoding left to the server, no false length, no informational status.\<close>

definition well_behaved :: "http_op list \<Rightarrow> bool" where
  "well_behaved ops \<longleftrightarrow> list_all writes (dropWhile sets_header ops) \<and>
     declares (fold header_op (takeWhile sets_header ops) (\<lambda>_. [])) (written (dropWhile sets_header ops))"

text \<open>Only the first status counts, and a first write carries 200.\<close>

fun explicit :: "http_op list \<Rightarrow> http_op list" where
  "explicit [] = []"
| "explicit (WriteStatus n # ws) = ws"
| "explicit (WriteBytes b # ws) = WriteBytes b # ws"
| "explicit (_ # ws) = explicit ws"

fun is_status :: "http_op \<Rightarrow> bool" where
  "is_status (WriteStatus n) = True"
| "is_status _ = False"

lemma written_explicit: "written (explicit ws) = written ws"
  by (induction ws rule: explicit.induct) simp_all

lemma writes_explicit: "list_all writes ws \<Longrightarrow> list_all writes (explicit ws)"
  by (induction ws rule: explicit.induct) simp_all

lemma first_status_ge: "list_all writes ws \<Longrightarrow> first_status ws = Some n \<Longrightarrow> 200 \<le> n"
  by (induction ws rule: first_status.induct) auto

lemma no_status_no_body: "first_status ws = None \<Longrightarrow> written ws = []"
  by (induction ws rule: first_status.induct) auto

lemma written_statuses: "written (filter is_status ws) = []"
proof (induction ws)
  case (Cons x ws)
  then show ?case by (cases x) auto
qed simp

text \<open>What the envelope writer makes of a header, a status and a body.\<close>

definition mux_header :: "nat \<Rightarrow> header \<Rightarrow> header" where
  "mux_header st h =
     (if stdlibWroteIt h st
      then h(''Content-Type'' := [contentTypeJSON], ''Content-Length'' := [FormatNat (length bodyUnsupportedRoute)])
      else h)"

definition mux_body :: "nat \<Rightarrow> header \<Rightarrow> string \<Rightarrow> string" where
  "mux_body st h b = (if stdlibWroteIt h st then bodyUnsupportedRoute else b)"

lemma statuses_write: "list_all writes ws \<Longrightarrow> list_all writes (filter is_status ws)"
  by (simp add: list_all_iff)

subsection \<open>The contract of a header map\<close>

locale header_map =
  fixes rw :: "'w response_writer"
  assumes get_set: "rw_Header rw (rw_SetHeader rw h w) = h"
    and set_set: "rw_SetHeader rw h (rw_SetHeader rw h' w) = rw_SetHeader rw h w"
    and set_get: "rw_SetHeader rw (rw_Header rw w) w = w"
begin

lemma header_set_twice:
  "header_set rw k v (header_set rw k' v' w) = rw_SetHeader rw ((rw_Header rw w)(k' := [v'], k := [v])) w"
  by (simp add: header_set_def get_set set_set)

lemma set_header_op:
  "sets_header x \<Longrightarrow> w_op rw x (rw_SetHeader rw h w) = rw_SetHeader rw (header_op x h) w"
  by (cases x) (simp_all add: header_set_def header_add_def header_del_def get_set set_set)

lemma headers_at:
  "list_all sets_header hs \<Longrightarrow>
   fold (w_op rw) hs (rw_SetHeader rw h w) = rw_SetHeader rw (fold header_op hs h) w"
  by (induction hs arbitrary: h) (simp_all add: set_header_op)

lemma headers_run:
  "list_all sets_header hs \<Longrightarrow>
   fold (w_op rw) hs w = rw_SetHeader rw (fold header_op hs (rw_Header rw w)) w"
  using headers_at [of hs "rw_Header rw w" w] by (simp add: set_get)

lemma embeds_envelope: "header_map (envelope_writer rw)"
  by unfold_locales (simp_all add: envelope_writer_def get_set set_set set_get)

lemma embeds_compress: "header_map (compress_writer gz rw)"
  by unfold_locales (simp_all add: compress_writer_def get_set set_set set_get)

text \<open>The envelope writer as calls on the writer below.\<close>

lemma envelope_open:
  "list_all writes ws \<Longrightarrow>
   fold (w_op (envelope_writer rw)) ws \<lparr>ew_inner = w, ew_wroteHeader = True, ew_swallowing = False\<rparr> =
     \<lparr>ew_inner = fold (w_op rw) ws w, ew_wroteHeader = True, ew_swallowing = False\<rparr>"
proof (induction ws arbitrary: w)
  case (Cons x ws)
  then show ?case
    by (cases x) (simp_all add: envelope_writer_def ew_WriteHeader_def ew_Write_def split: prod.splits)
qed simp

lemma envelope_shut:
  "list_all writes ws \<Longrightarrow>
   fold (w_op (envelope_writer rw)) ws \<lparr>ew_inner = w, ew_wroteHeader = True, ew_swallowing = True\<rparr> =
     \<lparr>ew_inner = fold (w_op rw) (filter is_status ws) w, ew_wroteHeader = True, ew_swallowing = True\<rparr>"
proof (induction ws arbitrary: w)
  case (Cons x ws)
  then show ?case
    by (cases x) (simp_all add: envelope_writer_def ew_WriteHeader_def ew_Write_def)
qed simp

lemma envelope_first:
  assumes "list_all writes ws" "first_status ws = Some st"
  shows "\<exists>rest. list_all writes rest \<and> written rest = mux_body st (rw_Header rw w) (written ws) \<and>
     ew_inner (fold (w_op (envelope_writer rw)) ws \<lparr>ew_inner = w, ew_wroteHeader = False, ew_swallowing = False\<rparr>) =
     fold (w_op rw) rest (rw_WriteHeader rw st (rw_SetHeader rw (mux_header st (rw_Header rw w)) w))"
  using assms
proof (induction ws rule: first_status.induct)
  case (2 n ws)
  then have n: "n = st" and ws: "list_all writes ws" by simp_all
  show ?case
  proof (cases "stdlibWroteIt (rw_Header rw w) st")
    case True
    then show ?thesis
      using envelope_shut [OF ws] n ws
      by (intro exI [of _ "WriteBytes bodyUnsupportedRoute # filter is_status ws"])
        (simp add: envelope_writer_def ew_WriteHeader_def mux_header_def mux_body_def header_set_twice
          written_statuses statuses_write, simp add: fun_upd_def cong: if_cong)
  next
    case False
    then show ?thesis
      using envelope_open [OF ws] n ws
      by (intro exI [of _ ws]) (simp add: envelope_writer_def ew_WriteHeader_def mux_header_def mux_body_def set_get)
  qed
next
  case (3 b ws)
  then have st: "st = 200" and ws: "list_all writes ws" by simp_all
  then have "\<not> stdlibWroteIt (rw_Header rw w) st" by (simp add: stdlibWroteIt_def)
  then show ?case
    using envelope_open [OF ws] st ws
    by (intro exI [of _ "WriteBytes b # ws"])
      (simp add: envelope_writer_def ew_WriteHeader_def ew_Write_def mux_header_def mux_body_def set_get
        split: prod.splits)
qed auto

lemma envelope_silent:
  "first_status ws = None \<Longrightarrow> list_all writes ws \<Longrightarrow> fold (w_op (envelope_writer rw)) ws e = e"
  by (induction ws arbitrary: e rule: first_status.induct) auto

lemma envelope_run:
  assumes "list_all sets_header hs" "list_all writes ws" and H: "H = fold header_op hs (rw_Header rw w)"
    and i: "i = ew_inner (fold (w_op (envelope_writer rw)) (hs @ ws)
       \<lparr>ew_inner = w, ew_wroteHeader = False, ew_swallowing = False\<rparr>)"
  shows "case first_status ws of
      None \<Rightarrow> i = rw_SetHeader rw H w
    | Some st \<Rightarrow> \<exists>rest. list_all writes rest \<and> written rest = mux_body st H (written ws) \<and>
        i = fold (w_op rw) rest (rw_WriteHeader rw st (rw_SetHeader rw (mux_header st H) w))"
proof -
  have "fold (w_op (envelope_writer rw)) hs \<lparr>ew_inner = w, ew_wroteHeader = False, ew_swallowing = False\<rparr> =
      \<lparr>ew_inner = rw_SetHeader rw H w, ew_wroteHeader = False, ew_swallowing = False\<rparr>"
    using header_map.headers_run [OF embeds_envelope assms(1)] H by (simp add: envelope_writer_def)
  then have "i = ew_inner (fold (w_op (envelope_writer rw)) ws
      \<lparr>ew_inner = rw_SetHeader rw H w, ew_wroteHeader = False, ew_swallowing = False\<rparr>)"
    by (simp add: i)
  then show ?thesis
    using envelope_first [OF assms(2), of _ "rw_SetHeader rw H w"] envelope_silent [OF _ assms(2)]
    by (auto simp: get_set set_set split: option.splits)
qed

end

interpretation conn: header_map connWriter
  by unfold_locales (simp_all add: connWriter_def)

interpretation timeout: header_map timeout_writer
  by unfold_locales (simp_all add: timeout_writer_def)

interpretation gzip: header_map "compress_writer gz timeout_writer" for gz
  by (rule timeout.embeds_compress)

interpretation envelope: header_map "envelope_writer timeout_writer"
  by (rule timeout.embeds_envelope)

interpretation gzip_envelope: header_map "envelope_writer (compress_writer gz timeout_writer)" for gz
  by (rule gzip.embeds_envelope)

subsection \<open>The buffer and the compressor\<close>

lemma buffer_run:
  "list_all writes ws \<Longrightarrow> tw_wroteHeader w \<Longrightarrow>
   fold (w_op timeout_writer) ws w = w\<lparr>tw_wbuf := tw_wbuf w @ written ws\<rparr>"
proof (induction ws arbitrary: w)
  case (Cons x ws)
  then show ?case
    by (cases x) (simp_all add: timeout_writer_def tw_WriteHeader_def Let_def)
qed simp

definition gz_out :: "compressor \<Rightarrow> string list \<Rightarrow> string" where
  "gz_out gz cs = concat (map (\<lambda>i. gz_write gz (take (Suc i) cs)) [0..<length cs])"

text \<open>What the code relies on: the stream of a closed writer decompresses to what was written.\<close>

definition decompresses :: "compressor \<Rightarrow> (string \<Rightarrow> string option) \<Rightarrow> bool" where
  "decompresses gz gunzip \<longleftrightarrow> (\<forall>cs. gunzip (gz_out gz cs @ gz_close gz cs) = Some (concat cs))"

lemma gz_out_snoc: "gz_out gz (cs @ [b]) = gz_out gz cs @ gz_write gz (cs @ [b])"
proof -
  have "map (\<lambda>i. gz_write gz (take (Suc i) (cs @ [b]))) [0..<length cs] =
        map (\<lambda>i. gz_write gz (take (Suc i) cs)) [0..<length cs]"
    by (rule map_cong) auto
  then show ?thesis by (simp add: gz_out_def del: take_append map_eq_conv)
qed

definition gzip_header :: "header \<Rightarrow> header" where
  "gzip_header h = h(''Content-Encoding'' := [''gzip''], ''Content-Length'' := [])"

definition started :: "compressor \<Rightarrow> nat \<Rightarrow> header \<Rightarrow> string list \<Rightarrow> timeoutWriter compressWriter" where
  "started gz st h cs =
     \<lparr>cw_inner = \<lparr>tw_h = gzip_header h, tw_code = st, tw_wroteHeader = True, tw_wbuf = gz_out gz cs\<rparr>,
      cw_status = st, cw_wroteHeader = True, cw_head = [], cw_gz = Some cs, cw_passing = False,
      cw_deciding = False\<rparr>"

definition deciding :: "nat \<Rightarrow> header \<Rightarrow> string \<Rightarrow> timeoutWriter compressWriter" where
  "deciding st h b =
     \<lparr>cw_inner = \<lparr>tw_h = h, tw_code = 0, tw_wroteHeader = False, tw_wbuf = []\<rparr>,
      cw_status = st, cw_wroteHeader = True, cw_head = b, cw_gz = None, cw_passing = False,
      cw_deciding = True\<rparr>"

lemma started_status: "w_op (compress_writer gz timeout_writer) (WriteStatus n) (started gz st h cs) = started gz st h cs"
  by (simp add: compress_writer_def cw_WriteHeader_def started_def)

lemma deciding_status: "w_op (compress_writer gz timeout_writer) (WriteStatus n) (deciding st h b) = deciding st h b"
  by (simp add: compress_writer_def cw_WriteHeader_def deciding_def)

lemma started_run:
  "list_all writes ws \<Longrightarrow>
   \<exists>cs'. concat cs' = concat cs @ written ws \<and>
     fold (w_op (compress_writer gz timeout_writer)) ws (started gz st h cs) = started gz st h cs'"
proof (induction ws arbitrary: cs)
  case Nil
  show ?case by (intro exI [of _ cs]) simp
next
  case (Cons x ws)
  show ?case
  proof (cases x)
    case (WriteBytes b)
    have "w_op (compress_writer gz timeout_writer) x (started gz st h cs) = started gz st h (cs @ [b])"
      by (simp add: WriteBytes compress_writer_def cw_Write_def started_def gz_put_def timeout_writer_def
          tw_WriteHeader_def gz_out_snoc)
    then show ?thesis using Cons.IH [of "cs @ [b]"] Cons.prems by (simp add: WriteBytes)
  qed (use Cons.IH [of cs] Cons.prems started_status [of gz] in simp_all)
qed

lemma deciding_write:
  "w_op (compress_writer gz timeout_writer) (WriteBytes b) (deciding st h d) =
     (if length (d @ b) < compressFloor then deciding st h (d @ b) else started gz st h [d @ b])"
  by (simp add: compress_writer_def cw_Write_def deciding_def started_def startCompressing_def gz_put_def
      header_set_def header_del_def timeout_writer_def tw_WriteHeader_def gz_out_def gzip_header_def Let_def)

lemma deciding_run:
  "list_all writes ws \<Longrightarrow>
   fold (w_op (compress_writer gz timeout_writer)) ws (deciding st h d) = deciding st h (d @ written ws) \<or>
   (\<exists>cs. concat cs = d @ written ws \<and>
     fold (w_op (compress_writer gz timeout_writer)) ws (deciding st h d) = started gz st h cs)"
proof (induction ws arbitrary: d)
  case (Cons x ws)
  show ?case
  proof (cases x)
    case (WriteBytes b)
    show ?thesis
    proof (cases "length (d @ b) < compressFloor")
      case True
      then show ?thesis
        using Cons.IH [of "d @ b"] Cons.prems by (simp add: WriteBytes deciding_write del: w_op.simps)
    next
      case False
      then show ?thesis
        using started_run [of ws "[d @ b]" gz st h] Cons.prems
        by (auto simp: WriteBytes deciding_write simp del: w_op.simps)
    qed
  qed (use Cons.IH [of d] Cons.prems deciding_status [of gz] in simp_all)
qed simp

lemma close_started:
  "cw_inner (cw_close gz timeout_writer (started gz st h cs)) =
     \<lparr>tw_h = gzip_header h, tw_code = st, tw_wroteHeader = True, tw_wbuf = gz_out gz cs @ gz_close gz cs\<rparr>"
  by (simp add: cw_close_def started_def timeout_writer_def tw_WriteHeader_def)

lemma close_deciding:
  "cw_inner (cw_close gz timeout_writer (deciding st h b)) =
     \<lparr>tw_h = h, tw_code = st, tw_wroteHeader = True, tw_wbuf = b\<rparr>"
  by (simp add: cw_close_def deciding_def timeout_writer_def tw_WriteHeader_def Let_def)

text \<open>A status without a body passes through.\<close>

lemma passing_run:
  "list_all writes ws \<Longrightarrow> cw_wroteHeader w \<Longrightarrow> cw_passing w \<Longrightarrow> cw_gz w = None \<Longrightarrow> \<not> cw_deciding w \<Longrightarrow>
   tw_wroteHeader (cw_inner w) \<Longrightarrow>
   fold (w_op (compress_writer gz timeout_writer)) ws w =
     w\<lparr>cw_inner := (cw_inner w)\<lparr>tw_wbuf := tw_wbuf (cw_inner w) @ written ws\<rparr>\<rparr>"
proof (induction ws arbitrary: w)
  case (Cons x ws)
  then show ?case
    by (cases x) (simp_all add: compress_writer_def cw_WriteHeader_def cw_Write_def timeout_writer_def
        tw_WriteHeader_def Let_def)
qed simp

subsection \<open>The inner half of the chain\<close>

definition vary :: header where "vary = (\<lambda>_. [])(''Vary'' := [''Accept-Encoding''])"

definition buffer :: "nat \<Rightarrow> header \<Rightarrow> string \<Rightarrow> timeoutWriter" where
  "buffer st h b = \<lparr>tw_h = h, tw_code = st, tw_wroteHeader = True, tw_wbuf = b\<rparr>"

text \<open>What the handler's answer may look like in the buffer: as it is, or compressed.\<close>

definition buffers :: "compressor \<Rightarrow> bool \<Rightarrow> nat \<Rightarrow> header \<Rightarrow> string \<Rightarrow> timeoutWriter \<Rightarrow> bool" where
  "buffers gz accepts st h b tw \<longleftrightarrow>
     tw = buffer st h b \<or>
     (\<exists>cs. accepts \<and> concat cs = b \<and> tw = buffer st (gzip_header h) (gz_out gz cs @ gz_close gz cs) \<and>
       body_allowed st)"

lemma MuxErrors_run:
  "MuxErrors (performs (ops, e)) rq rw s =
     (e, \<lparr>wd_w = ew_inner (fold (w_op (envelope_writer rw)) ops
            \<lparr>ew_inner = wd_w s, ew_wroteHeader = False, ew_swallowing = False\<rparr>),
          wd_log = wd_log s, wd_facts = fold f_op ops (wd_facts s)\<rparr>)"
  by (simp add: MuxErrors_def performs_def fold_do_op on_writer_def)

lemma plain_inner:
  assumes "list_all sets_header hs" "list_all writes ws" "H = fold header_op hs (tw_h w)"
    and fresh: "\<not> tw_wroteHeader w" "tw_wbuf w = []"
    and i: "i = ew_inner (fold (w_op (envelope_writer timeout_writer)) (hs @ ws)
       \<lparr>ew_inner = w, ew_wroteHeader = False, ew_swallowing = False\<rparr>)"
  shows "case first_status ws of None \<Rightarrow> i = w\<lparr>tw_h := H\<rparr>
    | Some st \<Rightarrow> i = buffer st (mux_header st H) (mux_body st H (written ws))"
proof (cases "first_status ws")
  case None
  then show ?thesis
    using timeout.envelope_run [OF assms(1,2) _ i, of H] assms(3) by (simp add: timeout_writer_def)
next
  case (Some st)
  then obtain rest where r: "list_all writes rest" "written rest = mux_body st H (written ws)"
    "i = fold (w_op timeout_writer) rest (rw_WriteHeader timeout_writer st (rw_SetHeader timeout_writer (mux_header st H) w))"
    using timeout.envelope_run [OF assms(1,2) _ i, of H] assms(3) by (auto simp: timeout_writer_def)
  have "rw_WriteHeader timeout_writer st (rw_SetHeader timeout_writer (mux_header st H) w) =
      \<lparr>tw_h = mux_header st H, tw_code = st, tw_wroteHeader = True, tw_wbuf = []\<rparr>"
    using fresh by (cases w) (simp add: timeout_writer_def tw_WriteHeader_def)
  then show ?thesis
    using Some r buffer_run [OF r(1)] by (simp add: buffer_def)
qed

lemma gzip_inner:
  assumes "list_all sets_header hs" "list_all writes ws" "H = fold header_op hs (tw_h w)"
    and w: "w = \<lparr>tw_h = h0, tw_code = 0, tw_wroteHeader = False, tw_wbuf = []\<rparr>"
    and i: "i = ew_inner (fold (w_op (envelope_writer (compress_writer gz timeout_writer))) (hs @ ws)
       \<lparr>ew_inner = new_compressWriter w, ew_wroteHeader = False, ew_swallowing = False\<rparr>)"
    and tw: "tw = cw_inner (cw_close gz timeout_writer i)"
  shows "case first_status ws of None \<Rightarrow> tw = w\<lparr>tw_h := H\<rparr>
    | Some st \<Rightarrow> buffers gz True st (mux_header st H) (mux_body st H (written ws)) tw"
proof (cases "first_status ws")
  case None
  then show ?thesis
    using gzip.envelope_run [OF assms(1,2) _ i, of H] assms(3)
    by (simp add: compress_writer_def timeout_writer_def new_compressWriter_def tw cw_close_def)
next
  case (Some st)
  let ?c = "compress_writer gz timeout_writer" and ?H = "mux_header st H"
  have st: "200 \<le> st" by (rule first_status_ge [OF assms(2) Some])
  obtain rest where r: "list_all writes rest" "written rest = mux_body st H (written ws)"
    "i = fold (w_op ?c) rest (rw_WriteHeader ?c st (rw_SetHeader ?c ?H (new_compressWriter w)))"
    using gzip.envelope_run [OF assms(1,2) _ i, of H] assms(3) Some
    by (auto simp: compress_writer_def timeout_writer_def new_compressWriter_def)
  have "buffers gz True st ?H (written rest) tw"
  proof (cases "body_allowed st")
    case True
    then have "rw_WriteHeader ?c st (rw_SetHeader ?c ?H (new_compressWriter w)) = deciding st ?H []"
      using st by (simp add: compress_writer_def cw_WriteHeader_def new_compressWriter_def deciding_def
          timeout_writer_def w body_allowed_def)
    then have "i = deciding st ?H (written rest) \<or>
        (\<exists>cs. concat cs = written rest \<and> i = started gz st ?H cs)"
      using deciding_run [OF r(1), of gz st ?H "[]"] r(3) by simp
    then show ?thesis
      using True by (auto simp: tw close_deciding close_started buffers_def buffer_def)
  next
    case False
    then have "rw_WriteHeader ?c st (rw_SetHeader ?c ?H (new_compressWriter w)) =
        (new_compressWriter w)\<lparr>cw_inner := buffer st ?H [], cw_wroteHeader := True, cw_status := st, cw_passing := True\<rparr>"
      by (auto simp: compress_writer_def cw_WriteHeader_def new_compressWriter_def buffer_def
          timeout_writer_def tw_WriteHeader_def w body_allowed_def)
    then show ?thesis
      using passing_run [OF r(1)] r(3)
      by (simp add: tw cw_close_def buffers_def buffer_def new_compressWriter_def)
  qed
  then show ?thesis using Some r(2) by simp
qed

lemma inner_run:
  assumes "list_all sets_header hs" "list_all writes ws" "H = fold header_op hs vary"
    and run: "Compress gz (MuxErrors (performs (hs @ ws, e))) (MuxErrors (performs (hs @ ws, e))) rq timeout_writer
       (on_writer (\<lambda>_. new_timeoutWriter) s) = (e', s')"
  shows "e' = e \<and> wd_log s' = wd_log s \<and> wd_facts s' = fold f_op (hs @ ws) (wd_facts s) \<and>
    (case first_status ws of None \<Rightarrow> wd_w s' = new_timeoutWriter\<lparr>tw_h := H\<rparr>
     | Some st \<Rightarrow> buffers gz (acceptsGzip (rh_AcceptEncoding rq)) st (mux_header st H)
         (mux_body st H (written ws)) (wd_w s'))"
proof -
  let ?w = "\<lparr>tw_h = vary, tw_code = 0, tw_wroteHeader = False, tw_wbuf = []\<rparr>"
  have w: "header_add timeout_writer ''Vary'' ''Accept-Encoding'' new_timeoutWriter = ?w"
    by (simp add: header_add_def timeout_writer_def new_timeoutWriter_def vary_def fun_eq_iff)
  have n: "new_timeoutWriter\<lparr>tw_h := H\<rparr> = ?w\<lparr>tw_h := H\<rparr>" by (simp add: new_timeoutWriter_def)
  show ?thesis
  proof (cases "acceptsGzip (rh_AcceptEncoding rq)")
    case True
    define tw where "tw = cw_inner (cw_close gz timeout_writer (ew_inner
      (fold (w_op (envelope_writer (compress_writer gz timeout_writer))) (hs @ ws)
        \<lparr>ew_inner = new_compressWriter ?w, ew_wroteHeader = False, ew_swallowing = False\<rparr>)))"
    have "e' = e \<and> s' = \<lparr>wd_w = tw, wd_log = wd_log s, wd_facts = fold f_op (hs @ ws) (wd_facts s)\<rparr>"
      using run True by (simp add: Compress_def MuxErrors_run on_writer_def w tw_def)
    then show ?thesis
      using gzip_inner [OF assms(1,2) _ refl refl tw_def] assms(3) n True
      by (auto simp del: fold_append split: option.splits)
  next
    case False
    then show ?thesis
      using run plain_inner [OF assms(1,2) _ _ _ refl, of H ?w] assms(3) n
      by (auto simp: Compress_def MuxErrors_run on_writer_def w buffers_def split: option.splits)
  qed
qed

subsection \<open>The outer half of the chain\<close>

type_synonym stack = "conn statusWriter statusWriter retryAfterWriter jsonByDefault"

definition stack_over :: "conn \<Rightarrow> nat \<Rightarrow> nat \<Rightarrow> bool \<Rightarrow> stack" where
  "stack_over c status n wrote =
     \<lparr>jd_inner = \<lparr>ra_inner = \<lparr>sw_inner = \<lparr>sw_inner = c, sw_status = status, sw_bytes = n, sw_wroteHeader = wrote\<rparr>,
        sw_status = status, sw_bytes = n, sw_wroteHeader = wrote\<rparr>, ra_wroteHeader = wrote\<rparr>\<rparr>"

abbreviation stackWriter :: "stack response_writer" where
  "stackWriter \<equiv> json_by_default (retry_after_writer (status_writer (status_writer connWriter)))"

text \<open>The header as the outer writers complete it when the status is written.\<close>

definition completed :: "nat \<Rightarrow> header \<Rightarrow> header" where
  "completed st h =
     (let hj = (if HeaderGet ''Content-Type'' h = [] then h(''Content-Type'' := [contentTypeJSON]) else h)
      in if st = 503 \<and> HeaderGet ''Retry-After'' hj = [] then hj(''Retry-After'' := [retryAfterSeconds]) else hj)"

text \<open>What of one write the connection takes, and what of that the client hears.\<close>

definition delivered :: "nat \<Rightarrow> header \<Rightarrow> string \<Rightarrow> string" where
  "delivered st h b = (if \<not> body_allowed st \<or> past_length h (length b) then [] else b)"

definition heard :: "bool \<Rightarrow> string \<Rightarrow> string" where
  "heard hm b = (if hm then [] else b)"

definition unsent :: "bool \<Rightarrow> header \<Rightarrow> conn" where
  "unsent hm h = \<lparr>cn_head = hm, cn_Header = h, cn_sent = None, cn_written = 0, cn_body = []\<rparr>"

definition begun :: "bool \<Rightarrow> nat \<Rightarrow> header \<Rightarrow> conn" where
  "begun hm st h = \<lparr>cn_head = hm, cn_Header = h, cn_sent = Some (st, h), cn_written = 0, cn_body = []\<rparr>"

definition sent :: "bool \<Rightarrow> nat \<Rightarrow> header \<Rightarrow> string \<Rightarrow> conn" where
  "sent hm st h b = \<lparr>cn_head = hm, cn_Header = h, cn_sent = Some (st, h),
     cn_written = (if body_allowed st then length b else 0), cn_body = heard hm (delivered st h b)\<rparr>"

text \<open>One writer at a time.\<close>

lemma conn_fresh:
  "rw_WriteHeader connWriter st (unsent hm h) = begun hm st h"
  "rw_Write connWriter b (begun hm st h) = (length (delivered st h b), sent hm st h b)"
  "rw_Header connWriter c = cn_Header c"
  "rw_SetHeader connWriter h c = c\<lparr>cn_Header := h\<rparr>"
  "cn_Header (unsent hm h) = h" "(unsent hm h)\<lparr>cn_Header := h'\<rparr> = unsent hm h'"
  by (simp_all add: connWriter_def conn_WriteHeader_def conn_Write_def delivered_def heard_def unsent_def
      begun_def sent_def Let_def)

lemma status_writer_step:
  "rw_WriteHeader (status_writer rw) st \<lparr>sw_inner = w, sw_status = 0, sw_bytes = 0, sw_wroteHeader = False\<rparr> =
     \<lparr>sw_inner = rw_WriteHeader rw st w, sw_status = st, sw_bytes = 0, sw_wroteHeader = True\<rparr>"
  "rw_Write rw b w = (n, w') \<Longrightarrow>
   rw_Write (status_writer rw) b \<lparr>sw_inner = w, sw_status = st, sw_bytes = 0, sw_wroteHeader = True\<rparr> =
     (n, \<lparr>sw_inner = w', sw_status = st, sw_bytes = n, sw_wroteHeader = True\<rparr>)"
  "rw_Header (status_writer rw) x = rw_Header rw (sw_inner x)"
  "rw_SetHeader (status_writer rw) h x = x\<lparr>sw_inner := rw_SetHeader rw h (sw_inner x)\<rparr>"
  by (simp_all add: status_writer_def sw_WriteHeader_def sw_Write_def Let_def)

lemma retry_after_writer_step:
  "rw_WriteHeader (retry_after_writer rw) st \<lparr>ra_inner = w, ra_wroteHeader = False\<rparr> =
     \<lparr>ra_inner = rw_WriteHeader rw st
        (if st = 503 \<and> HeaderGet ''Retry-After'' (rw_Header rw w) = []
         then header_set rw ''Retry-After'' retryAfterSeconds w else w), ra_wroteHeader = True\<rparr>"
  "rw_Write rw b w = (n, w') \<Longrightarrow>
   rw_Write (retry_after_writer rw) b \<lparr>ra_inner = w, ra_wroteHeader = True\<rparr> = (n, \<lparr>ra_inner = w', ra_wroteHeader = True\<rparr>)"
  "rw_Header (retry_after_writer rw) x = rw_Header rw (ra_inner x)"
  "rw_SetHeader (retry_after_writer rw) h x = x\<lparr>ra_inner := rw_SetHeader rw h (ra_inner x)\<rparr>"
  by (simp_all add: retry_after_writer_def ra_WriteHeader_def ra_Write_def Let_def)

lemma json_by_default_step:
  "rw_WriteHeader (json_by_default rw) st x =
     \<lparr>jd_inner = rw_WriteHeader rw st
       (if HeaderGet ''Content-Type'' (rw_Header rw (jd_inner x)) = []
        then header_set rw ''Content-Type'' contentTypeJSON (jd_inner x) else jd_inner x)\<rparr>"
  "rw_Write rw b w = (n, w') \<Longrightarrow> rw_Write (json_by_default rw) b \<lparr>jd_inner = w\<rparr> = (n, \<lparr>jd_inner = w'\<rparr>)"
  "rw_Header (json_by_default rw) x = rw_Header rw (jd_inner x)"
  "rw_SetHeader (json_by_default rw) h x = x\<lparr>jd_inner := rw_SetHeader rw h (jd_inner x)\<rparr>"
  by (simp_all add: json_by_default_def jd_WriteHeader_def)

lemmas stack_steps = conn_fresh status_writer_step retry_after_writer_step json_by_default_step header_set_def

lemma stack_header:
  "rw_Header stackWriter (stack_over (unsent hm h) 0 0 False) = h"
  "rw_SetHeader stackWriter h' (stack_over (unsent hm h) 0 0 False) = stack_over (unsent hm h') 0 0 False"
  by (simp_all add: stack_over_def stack_steps)

lemma stack_WriteHeader:
  "rw_WriteHeader stackWriter st (stack_over (unsent hm h) 0 0 False) =
   stack_over (begun hm st (completed st h)) st 0 True"
  by (simp add: stack_over_def stack_steps completed_def Let_def)

lemma stack_Write:
  "snd (rw_Write stackWriter b (stack_over (begun hm st h) st 0 True)) =
   stack_over (sent hm st h b) st (length (delivered st h b)) True"
  by (simp add: stack_over_def stack_steps)

lemma begun_sent: "begun hm st h = sent hm st h []"
  by (simp add: begun_def sent_def heard_def delivered_def)

definition over :: "header \<Rightarrow> header \<Rightarrow> header" where
  "over h h0 = (\<lambda>k. if h k \<noteq> [] then h k else h0 k)"

lemma flush_stack:
  assumes "st = (if tw_wroteHeader tw then tw_code tw else 200)" "h = completed st (over (tw_h tw) h0)"
  shows "flush_buffer stackWriter tw (stack_over (unsent hm h0) 0 0 False) =
    stack_over (sent hm st h (tw_wbuf tw)) st (length (delivered st h (tw_wbuf tw))) True"
  using assms
  by (simp add: flush_buffer_def stack_header over_def [symmetric] stack_WriteHeader stack_Write Let_def)

text \<open>The chain from outside: what the time limit leaves decides the answer and the lines.\<close>

definition minted_header :: "string \<Rightarrow> header" where
  "minted_header minted = (\<lambda>_. [])(''X-Request-Id'' := [minted])"

definition no_facts :: requestFacts where "no_facts = \<lparr>rf_travellerID = [], rf_route = []\<rparr>"

definition stack_world :: "bool \<Rightarrow> string \<Rightarrow> stack req_world" where
  "stack_world hm minted = \<lparr>wd_w = stack_over (unsent hm (minted_header minted)) 0 0 False, wd_log = [],
     wd_facts = Some no_facts\<rparr>"

lemma recovered:
  "WriteErrorTo (status_writer connWriter) CodeInternal
     \<lparr>wd_w = \<lparr>sw_inner = unsent hm h, sw_status = 0, sw_bytes = 0, sw_wroteHeader = False\<rparr>, wd_log = l, wd_facts = f\<rparr> =
   (let h' = h(''Content-Type'' := [contentTypeJSON]); b = prebuiltBody CodeInternal
    in \<lparr>wd_w = \<lparr>sw_inner = sent hm 500 h' b, sw_status = 500, sw_bytes = length (delivered 500 h' b), sw_wroteHeader = True\<rparr>,
        wd_log = l, wd_facts = f\<rparr>)"
proof -
  have "error_payload CodeInternal = (500, \<lparr>ep_Code = CodeInternal, ep_Field = None\<rparr>)" by code_simp
  then show ?thesis
    by (simp add: WriteErrorTo_def on_writer_def stack_steps Let_def)
qed

lemma start_stack:
  "on_writer (\<lambda>w. \<lparr>jd_inner = w\<rparr>) (on_writer (\<lambda>w. \<lparr>ra_inner = w, ra_wroteHeader = False\<rparr>)
    (on_writer new_statusWriter ((on_writer (header_set (status_writer connWriter) ''X-Request-Id'' minted)
       (on_writer new_statusWriter \<lparr>wd_w = new_conn rq, wd_log = [],
          wd_facts = None\<rparr>))\<lparr>wd_facts := Some \<lparr>rf_travellerID = [], rf_route = []\<rparr>\<rparr>))) =
   stack_world (rh_Method rq = ''HEAD'') minted"
proof -
  have "new_conn rq = unsent (rh_Method rq = ''HEAD'') (\<lambda>_. [])" by (simp add: new_conn_def unsent_def)
  then show ?thesis
    by (simp add: on_writer_def stack_world_def stack_over_def stack_steps new_statusWriter_def
        minted_header_def no_facts_def)
qed

definition left :: "stack \<Rightarrow> requestFacts \<Rightarrow> stack req_world" where
  "left w f = \<lparr>wd_w = w, wd_log = [], wd_facts = Some f\<rparr>"

lemma left_unwrapped:
  "on_writer ra_inner (on_writer jd_inner (left (stack_over c st n w) f)) =
     \<lparr>wd_w = \<lparr>sw_inner = \<lparr>sw_inner = c, sw_status = st, sw_bytes = n, sw_wroteHeader = w\<rparr>,
        sw_status = st, sw_bytes = n, sw_wroteHeader = w\<rparr>, wd_log = [], wd_facts = Some f\<rparr>"
  by (simp add: on_writer_def left_def stack_over_def)

lemmas chain_defs = serve_conn_def serverChain_def Recover_def RequestID_def AccessLog_def
  RetryAfter_def Timeout_def start_stack

abbreviation is_head :: "request_head \<Rightarrow> bool" where
  "is_head rq \<equiv> rh_Method rq = ''HEAD''"

abbreviation inner_chain :: "compressor \<Rightarrow> http_op list \<times> ending \<Rightarrow> timeoutWriter http_handler" where
  "inner_chain gz mux \<equiv> Compress gz (MuxErrors (performs mux)) (MuxErrors (performs mux))"

lemma serve_returned:
  assumes "TimeoutHandler r (inner_chain gz mux) (rq\<lparr>rh_RequestID := minted\<rparr>) stackWriter (stack_world (is_head rq) minted) =
     (Returned, left (stack_over (sent hm st h b) st n True) f)"
  shows "serve_conn gz r minted rq mux =
    (Some (st, h, heard hm (delivered st h b)), [access_line [healthzPath] (rq\<lparr>rh_RequestID := minted\<rparr>) f st n])"
  using assms
  by (simp add: chain_defs left_unwrapped) (simp add: on_writer_def sent_def conn_WriteHeader_def)

lemma serve_panicked:
  assumes "TimeoutHandler r (inner_chain gz mux) (rq\<lparr>rh_RequestID := minted\<rparr>) stackWriter (stack_world (is_head rq) minted) =
     (Panicked p, left (stack_over (unsent hm (minted_header minted)) 0 0 False) f)"
  shows "serve_conn gz r minted rq mux =
    (let h = (minted_header minted)(''Content-Type'' := [contentTypeJSON])
     in (Some (500, h, heard hm (prebuiltBody CodeInternal)),
         [access_line [healthzPath] (rq\<lparr>rh_RequestID := minted\<rparr>) f 0 0,
          PanicLine p minted (rh_Method rq) (LoggedPath rq)]))"
proof -
  let ?h = "(minted_header minted)(''Content-Type'' := [contentTypeJSON])"
  have id: "requestIDForRecover connWriter (unsent hm (minted_header minted)) (rq\<lparr>rh_RequestID := []\<rparr>) = minted"
    by (simp add: requestIDForRecover_def conn_fresh minted_header_def HeaderGet_def)
  have d: "delivered 500 ?h x = x" for x
    by (simp add: delivered_def past_length_def body_allowed_def minted_header_def HeaderGet_def split: option.split)
  show ?thesis
    using assms id d
    by (simp add: chain_defs left_unwrapped)
      (simp add: on_writer_def recovered sent_def conn_WriteHeader_def LoggedPath_def Let_def)
qed

lemma serve_aborted:
  assumes "TimeoutHandler r (inner_chain gz mux) (rq\<lparr>rh_RequestID := minted\<rparr>) stackWriter (stack_world (is_head rq) minted) =
     (Aborted, left (stack_over (unsent hm (minted_header minted)) 0 0 False) f)"
  shows "serve_conn gz r minted rq mux =
    (None, [access_line [healthzPath] (rq\<lparr>rh_RequestID := minted\<rparr>) f 0 0])"
  using assms by (simp add: chain_defs left_unwrapped) (simp add: on_writer_def)

subsection \<open>The answer of the chain and the direct answer\<close>

text \<open>The same handler straight on the connection.\<close>

definition direct :: "bool \<Rightarrow> http_op list \<Rightarrow> nat \<times> header \<times> string" where
  "direct hm ops =
     (let c = conn_WriteHeader 200 (wd_w (fold (do_op connWriter) ops
                \<lparr>wd_w = unsent hm (\<lambda>_. []), wd_log = [], wd_facts = Some no_facts\<rparr>))
      in case cn_sent c of None \<Rightarrow> (0, (\<lambda>_. []), []) | Some (st, h) \<Rightarrow> (st, h, cn_body c))"

record answer =
  an_status :: nat
  an_type :: string
  an_retryAfter :: string
  an_requestID :: string
  an_body :: "string option"

text \<open>What a client makes of a response, decompressing where it is told to and there is a body.\<close>

definition reads :: "(string \<Rightarrow> string option) \<Rightarrow> bool \<Rightarrow> nat \<times> header \<times> string \<Rightarrow> answer" where
  "reads gunzip hm resp =
     (case resp of (st, h, b) \<Rightarrow>
        \<lparr>an_status = st, an_type = HeaderGet ''Content-Type'' h, an_retryAfter = HeaderGet ''Retry-After'' h,
         an_requestID = HeaderGet ''X-Request-Id'' h,
         an_body = (if \<not> hm \<and> HeaderGet ''Content-Encoding'' h = ''gzip'' then gunzip b else Some b)\<rparr>)"

definition through :: "string \<Rightarrow> bool \<Rightarrow> nat \<times> header \<times> string \<Rightarrow> answer" where
  "through minted hm resp =
     (case resp of (st, h, b) \<Rightarrow>
        let ct = HeaderGet ''Content-Type'' h; ra = HeaderGet ''Retry-After'' h;
            plain_error = (st \<in> {404, 405} \<and> \<not> prefix contentTypeJSON ct)
        in \<lparr>an_status = st,
            an_type = (if plain_error \<or> ct = [] then contentTypeJSON else ct),
            an_retryAfter = (if st = 503 \<and> ra = [] then retryAfterSeconds else ra),
            an_requestID = (if h ''X-Request-Id'' = [] then minted else HeaderGet ''X-Request-Id'' h),
            an_body = Some (if plain_error then heard hm bodyUnsupportedRoute else b)\<rparr>)"

definition error_answer :: "nat \<Rightarrow> string \<Rightarrow> string \<Rightarrow> string \<Rightarrow> answer" where
  "error_answer st ra minted b =
     \<lparr>an_status = st, an_type = contentTypeJSON, an_retryAfter = ra, an_requestID = minted, an_body = Some b\<rparr>"

definition expected_answer :: "string \<Rightarrow> bool \<Rightarrow> race \<Rightarrow> http_op list \<times> ending \<Rightarrow> answer option" where
  "expected_answer minted hm r mux =
     (case r of
        DeadlineHit _ \<Rightarrow> Some (error_answer 503 retryAfterSeconds minted (heard hm (prebuiltBody CodeTimeout)))
      | ClientGone _ \<Rightarrow> Some (error_answer 503 retryAfterSeconds minted [])
      | Finished \<Rightarrow>
          (case snd mux of
             Returned \<Rightarrow> Some (through minted hm (direct hm (fst mux)))
           | Panicked _ \<Rightarrow> Some (error_answer 500 [] minted (heard hm (prebuiltBody CodeInternal)))
           | Aborted \<Rightarrow> None))"

lemma encoding_kept:
  "list_all sets_header hs \<Longrightarrow> h ''Content-Encoding'' = [] \<Longrightarrow> fold header_op hs h ''Content-Encoding'' = []"
proof (induction hs arbitrary: h)
  case (Cons x hs)
  then have "header_op x h ''Content-Encoding'' = []" by (cases x) auto
  with Cons show ?case by simp
qed simp

lemma headers_agree:
  "(\<And>k. k \<noteq> k0 \<Longrightarrow> h k = h' k) \<Longrightarrow> k \<noteq> k0 \<Longrightarrow> fold header_op hs h k = fold header_op hs h' k"
proof (induction hs arbitrary: h h')
  case (Cons x hs)
  have "header_op x h j = header_op x h' j" if "j \<noteq> k0" for j
    using Cons.prems(1) that by (cases x) auto
  then have "fold header_op hs (header_op x h) k = fold header_op hs (header_op x h') k"
    using Cons.prems(2) by (rule Cons.IH)
  then show ?case by simp
qed simp

lemma not_past_length: "h ''Content-Length'' = [] \<Longrightarrow> \<not> past_length h k"
  by (auto simp: past_length_def split: option.splits)

lemma past_length_mono: "past_length h j \<Longrightarrow> j \<le> k \<Longrightarrow> past_length h k"
  by (auto simp: past_length_def split: option.splits)

lemma declares_fits: "declares h b \<Longrightarrow> \<not> past_length h (length b)"
  by (auto simp: declares_def past_length_def split: option.splits)

lemma conn_run:
  "list_all writes ws \<Longrightarrow> cn_sent c = Some (st, h) \<Longrightarrow> \<not> past_length h (cn_written c + length (written ws)) \<Longrightarrow>
   fold (w_op connWriter) ws c =
     c\<lparr>cn_written := cn_written c + (if body_allowed st then length (written ws) else 0),
       cn_body := cn_body c @ (if body_allowed st then heard (cn_head c) (written ws) else [])\<rparr>"
proof (induction ws arbitrary: c)
  case (Cons x ws)
  show ?case
  proof (cases x)
    case (WriteBytes b)
    have fits: "\<not> past_length h (cn_written c + length b)" "\<not> past_length h (cn_written c + length (written ws))"
      using Cons.prems(3) past_length_mono [of h] by (force simp: WriteBytes)+
    then have "w_op connWriter x c =
        c\<lparr>cn_written := cn_written c + (if body_allowed st then length b else 0),
          cn_body := cn_body c @ (if body_allowed st then heard (cn_head c) b else [])\<rparr>"
      using Cons.prems(2)
      by (cases c) (auto simp: WriteBytes connWriter_def conn_Write_def conn_WriteHeader_def heard_def)
    then show ?thesis
      using Cons.IH [of "w_op connWriter x c"] Cons.prems fits(2)
      by (cases "body_allowed st") (auto simp: WriteBytes heard_def add.assoc simp del: w_op.simps)
  qed (use Cons in \<open>auto simp: connWriter_def conn_WriteHeader_def heard_def\<close>)
qed (simp add: heard_def)

lemma direct_run:
  assumes "list_all sets_header hs" "list_all writes ws" "H = fold header_op hs (\<lambda>_. [])" "declares H (written ws)"
  shows "direct hm (hs @ ws) =
    (case first_status ws of None \<Rightarrow> (200, H, [])
     | Some st \<Rightarrow> (st, H, if body_allowed st then heard hm (written ws) else []))"
proof -
  have hs: "fold (w_op connWriter) hs (unsent hm (\<lambda>_. [])) = unsent hm H"
    using conn.headers_run [OF assms(1)] by (simp add: conn_fresh assms(3))
  have fits: "\<not> past_length H (length (written ws))" using assms(4) by (rule declares_fits)
  have run: "cn_sent c = Some (st, H) \<and> cn_body c = (if body_allowed st then heard hm (written vs) else [])"
    if "list_all writes vs" "\<not> past_length H (length (written vs))" "c = fold (w_op connWriter) vs (begun hm st H)"
    for vs st c
    using conn_run [of vs "begun hm st H" st H] that by (simp add: begun_def)
  have first: "case first_status ws of None \<Rightarrow> fold (w_op connWriter) ws (unsent hm H) = unsent hm H
      | Some st \<Rightarrow> \<exists>c. fold (w_op connWriter) ws (unsent hm H) = c \<and> cn_sent c = Some (st, H) \<and>
          cn_body c = (if body_allowed st then heard hm (written ws) else [])"
    using assms(2) fits
  proof (induction ws rule: first_status.induct)
    case (2 n ws)
    then show ?case using run [of ws _ n] by (simp add: conn_fresh)
  next
    case (3 b ws)
    have "w_op connWriter (WriteBytes b) (unsent hm H) = w_op connWriter (WriteBytes b) (begun hm 200 H)"
      by (simp add: connWriter_def conn_Write_def conn_WriteHeader_def unsent_def begun_def)
    then show ?case using 3 run [of "WriteBytes b # ws" _ 200] by (simp del: w_op.simps)
  qed (simp_all split: option.splits)
  have "direct hm (hs @ ws) =
      (let c = conn_WriteHeader 200 (fold (w_op connWriter) ws (unsent hm H))
       in case cn_sent c of None \<Rightarrow> (0, (\<lambda>_. []), []) | Some (st, h) \<Rightarrow> (st, h, cn_body c))"
    by (simp add: direct_def fold_do_op hs)
  then show ?thesis
    using first by (cases "first_status ws") (auto simp: conn_WriteHeader_def unsent_def)
qed

lemma HeaderGet_over: "HeaderGet k (over h h0) = (if h k \<noteq> [] then HeaderGet k h else HeaderGet k h0)"
  by (simp add: HeaderGet_def over_def)

lemma completed_other: "k \<notin> {''Content-Type'', ''Retry-After''} \<Longrightarrow> completed st h k = h k"
  by (simp add: completed_def Let_def)

lemma completed_type: "HeaderGet ''Content-Type'' (completed st h) =
    (if HeaderGet ''Content-Type'' h = [] then contentTypeJSON else HeaderGet ''Content-Type'' h)"
  by (simp add: completed_def HeaderGet_def Let_def)

lemma completed_retry: "HeaderGet ''Retry-After'' (completed st h) =
    (if st = 503 \<and> HeaderGet ''Retry-After'' h = [] then retryAfterSeconds else HeaderGet ''Retry-After'' h)"
  by (simp add: completed_def HeaderGet_def Let_def)

lemma HeaderGet_cong: "h k = h' k \<Longrightarrow> HeaderGet k h = HeaderGet k h'"
  by (simp add: HeaderGet_def)

lemma behaved_split:
  assumes "well_behaved ops"
  obtains hs ws where "ops = hs @ ws" "list_all sets_header hs" "list_all writes ws"
    "declares (fold header_op hs (\<lambda>_. [])) (written ws)"
proof
  show "ops = takeWhile sets_header ops @ dropWhile sets_header ops" by simp
  show "list_all sets_header (takeWhile sets_header ops)" by (auto simp: list_all_iff dest: set_takeWhileD)
  show "list_all writes (dropWhile sets_header ops)"
    "declares (fold header_op (takeWhile sets_header ops) (\<lambda>_. [])) (written (dropWhile sets_header ops))"
    using assms by (simp_all add: well_behaved_def)
qed

text \<open>What is flushed, as the client reads it.\<close>

lemma reads_flushed:
  assumes h: "h = completed st (over hb (minted_header minted))"
    and agree: "\<And>k. k \<notin> {''Vary'', ''Content-Length''} \<Longrightarrow> hb k = mux_header st H k"
      "hb ''Content-Length'' \<in> {mux_header st H ''Content-Length'', []}"
    and H: "declares H body" "H ''Content-Encoding'' = []"
    and body: "buf = mux_body st H body"
  shows "reads gunzip hm (st, h, heard hm (delivered st h buf)) =
    through minted hm (st, H, if body_allowed st then heard hm body else [])"
proof -
  have get: "HeaderGet k hb = HeaderGet k (mux_header st H)" if "k \<notin> {''Vary'', ''Content-Length''}" for k
    using agree(1) [OF that] by (rule HeaderGet_cong)
  have "h ''Content-Length'' \<in> {mux_header st H ''Content-Length'', []}"
    "h ''Content-Encoding'' = []"
    using H(2) agree(2) by (auto simp: h completed_other over_def agree(1) minted_header_def mux_header_def)
  moreover have "\<not> past_length (mux_header st H) (length buf)"
    using declares_fits [OF H(1)] body
    by (cases "stdlibWroteIt H st") (auto simp: past_length_def HeaderGet_def mux_header_def mux_body_def parse_FormatNat)
  ultimately have "\<not> past_length h (length buf)"
    by (auto simp: past_length_def HeaderGet_def split: option.splits)
  then have "delivered st h buf = (if body_allowed st then buf else [])"
    by (simp add: delivered_def)
  moreover have "HeaderGet ''Content-Encoding'' h = []"
    using \<open>h ''Content-Encoding'' = []\<close> by (simp add: HeaderGet_def)
  moreover have "HeaderGet ''X-Request-Id'' h = (if H ''X-Request-Id'' = [] then minted else HeaderGet ''X-Request-Id'' H)"
    by (simp add: h HeaderGet_def completed_other over_def agree(1) mux_header_def minted_header_def)
  moreover have m: "HeaderGet k (over hb (minted_header minted)) = HeaderGet k (mux_header st H)"
    if "k \<in> {''Content-Type'', ''Retry-After''}" for k
  proof -
    have "k \<notin> {''Vary'', ''Content-Length''}" using that by auto
    moreover have "HeaderGet k (minted_header minted) = []"
      using that by (auto simp: minted_header_def HeaderGet_def)
    ultimately show ?thesis by (simp add: HeaderGet_over agree(1) get) (simp add: HeaderGet_def)
  qed
  have "HeaderGet ''Content-Type'' h = (if stdlibWroteIt H st \<or> HeaderGet ''Content-Type'' H = []
      then contentTypeJSON else HeaderGet ''Content-Type'' H)"
    by (simp add: h completed_type m) (simp add: mux_header_def HeaderGet_def contentTypeJSON_def)
  moreover have "HeaderGet ''Retry-After'' h = (if st = 503 \<and> HeaderGet ''Retry-After'' H = []
      then retryAfterSeconds else HeaderGet ''Retry-After'' H)"
    by (simp add: h completed_retry m) (simp add: mux_header_def HeaderGet_def)
  ultimately show ?thesis
    using body by (auto simp: reads_def through_def mux_body_def stdlibWroteIt_def body_allowed_def heard_def Let_def)
qed

text \<open>The compressed form is read as the plain one.\<close>

lemma reads_compressed:
  assumes gz: "decompresses gz gunzip" and st: "body_allowed st"
    and h: "h = completed st (over (gzip_header hb) h0)" "h' = completed st (over (hb(''Content-Length'' := [])) h0)"
    and h0: "h0 ''Content-Length'' = []" "h0 ''Content-Encoding'' = []" "hb ''Content-Encoding'' = []"
  shows "reads gunzip hm (st, h, heard hm (delivered st h (gz_out gz cs @ gz_close gz cs))) =
    reads gunzip hm (st, h', heard hm (delivered st h' (concat cs)))"
proof -
  have same: "h k = h' k" if "k \<noteq> ''Content-Encoding''" for k
    using that by (auto simp: h completed_def over_def gzip_header_def HeaderGet_def Let_def)
  have "h' ''Content-Length'' = []" "h' ''Content-Encoding'' = []" "h ''Content-Encoding'' = [''gzip'']"
    using h0 by (simp_all add: h completed_other over_def gzip_header_def)
  moreover have "h ''Content-Length'' = []" using same [of "''Content-Length''"] calculation(1) by simp
  ultimately have "delivered st h b = b" "delivered st h' b = b" for b
    using st by (simp_all add: delivered_def not_past_length)
  moreover have "HeaderGet k h = HeaderGet k h'" if "k \<noteq> ''Content-Encoding''" for k
    using same [OF that] by (rule HeaderGet_cong)
  ultimately show ?thesis
    using gz \<open>h' ''Content-Encoding'' = []\<close> \<open>h ''Content-Encoding'' = [''gzip'']\<close>
    by (simp add: reads_def decompresses_def heard_def HeaderGet_def [of "''Content-Encoding''"])
qed

definition facts_of :: "http_op list \<Rightarrow> requestFacts" where
  "facts_of ops = the (fold f_op ops (Some no_facts))"

lemma facts_stay: "\<exists>f'. fold f_op ops (Some f) = Some f'"
proof (induction ops arbitrary: f)
  case (Cons x ops)
  then show ?case by (cases x) auto
qed simp

lemma facts_of: "fold f_op ops (Some no_facts) = Some (facts_of ops)"
  using facts_stay [of ops no_facts] by (auto simp: facts_of_def)

text \<open>What comes out of the buffer of a handler that returned.\<close>

lemma flushed_answer:
  assumes hs: "list_all sets_header hs" and ws: "list_all writes ws"
    and told: "declares (fold header_op hs (\<lambda>_. [])) (written ws)"
    and tw: "case first_status ws of None \<Rightarrow> tw = new_timeoutWriter\<lparr>tw_h := fold header_op hs vary\<rparr>
      | Some st \<Rightarrow> buffers gz accepts st (mux_header st (fold header_op hs vary))
          (mux_body st (fold header_op hs vary) (written ws)) tw"
    and st: "st = (if tw_wroteHeader tw then tw_code tw else 200)"
    and h: "h = completed st (over (tw_h tw) (minted_header minted))"
  shows "(decompresses gz gunzip \<longrightarrow>
      reads gunzip hm (st, h, heard hm (delivered st h (tw_wbuf tw))) = through minted hm (direct hm (hs @ ws))) \<and>
    (HeaderGet ''Content-Encoding'' h = ''gzip'' \<longrightarrow> accepts)"
proof -
  let ?V = "fold header_op hs vary" and ?H = "fold header_op hs (\<lambda>_. [])"
  have V: "?V k = ?H k" if "k \<noteq> ''Vary''" for k
    using that by (intro headers_agree [of "''Vary''"]) (auto simp: vary_def)
  have enc: "?V ''Content-Encoding'' = []" "?H ''Content-Encoding'' = []"
    using encoding_kept [OF hs] by (auto simp: vary_def)
  have mh: "mux_header n ?V k = mux_header n ?H k" if "k \<noteq> ''Vary''" for n k
    using V [OF that] V [of "''Content-Type''"]
    by (simp add: mux_header_def stdlibWroteIt_def HeaderGet_def)
  have mb: "mux_body n ?V x = mux_body n ?H x" for n x
    using V [of "''Content-Type''"] by (simp add: mux_body_def stdlibWroteIt_def HeaderGet_def)
  have ce: "mux_header n ?V ''Content-Encoding'' = []" for n
    using enc by (simp add: mux_header_def)
  have plain: "reads gunzip hm (n, h', heard hm (delivered n h' buf)) =
      through minted hm (n, ?H, if body_allowed n then heard hm x else [])"
    if "declares ?H x" "h' = completed n (over hb (minted_header minted))" "buf = mux_body n ?H x"
      "\<And>k. k \<notin> {''Vary'', ''Content-Length''} \<Longrightarrow> hb k = mux_header n ?H k"
      "hb ''Content-Length'' \<in> {mux_header n ?H ''Content-Length'', []}" for n h' hb buf x
    by (rule reads_flushed [OF that(2,4,5,1) enc(2) that(3)])
  have nogz: "HeaderGet ''Content-Encoding'' (completed n (over hb (minted_header minted))) = []"
    if "hb ''Content-Encoding'' = []" for n hb
    using that by (simp add: HeaderGet_def completed_other over_def minted_header_def)
  show ?thesis
  proof (cases "first_status ws")
    case None
    then have "tw = new_timeoutWriter\<lparr>tw_h := ?V\<rparr>" using tw by simp
    then have "st = 200" "tw_h tw = ?V" "tw_wbuf tw = []"
      using st by (simp_all add: new_timeoutWriter_def)
    moreover have "mux_header 200 ?H = ?H" "mux_body 200 ?H [] = []"
      by (simp_all add: mux_header_def mux_body_def stdlibWroteIt_def)
    ultimately show ?thesis
      using plain [of "[]" h 200 ?V "[]"] V direct_run [OF hs ws refl told] None h nogz [of ?V 200] enc
      by (simp add: body_allowed_def declares_def heard_def)
  next
    case (Some n)
    have d: "direct hm (hs @ ws) = (n, ?H, if body_allowed n then heard hm (written ws) else [])"
      using direct_run [OF hs ws refl told] Some by simp
    from Some tw have "buffers gz accepts n (mux_header n ?V) (mux_body n ?H (written ws)) tw" by (simp add: mb)
    then consider "tw = buffer n (mux_header n ?V) (mux_body n ?H (written ws))"
      | cs where "accepts" "concat cs = mux_body n ?H (written ws)" "body_allowed n"
          "tw = buffer n (gzip_header (mux_header n ?V)) (gz_out gz cs @ gz_close gz cs)"
      unfolding buffers_def by blast
    then show ?thesis
    proof cases
      case 1
      then have "st = n" "tw_h tw = mux_header n ?V" "tw_wbuf tw = mux_body n ?H (written ws)"
        using st by (simp_all add: buffer_def)
      then show ?thesis
        using plain [of "written ws" h n "mux_header n ?V"] told h d mh nogz [of "mux_header n ?V" n] ce by simp
    next
      case 2
      define h' where "h' = completed n (over ((mux_header n ?V)(''Content-Length'' := [])) (minted_header minted))"
      have 3: "st = n" "tw_h tw = gzip_header (mux_header n ?V)" "tw_wbuf tw = gz_out gz cs @ gz_close gz cs"
        using st 2 by (simp_all add: buffer_def)
      have "decompresses gz gunzip \<Longrightarrow> reads gunzip hm (st, h, heard hm (delivered st h (tw_wbuf tw))) =
          reads gunzip hm (n, h', heard hm (delivered n h' (concat cs)))"
        using reads_compressed [of gz gunzip n h "mux_header n ?V" "minted_header minted" h' hm cs] 2(3) h 3 ce
        by (simp add: h'_def minted_header_def)
      moreover have "reads gunzip hm (n, h', heard hm (delivered n h' (concat cs))) = through minted hm (direct hm (hs @ ws))"
        using plain [OF told h'_def 2(2)] mh d by simp
      ultimately show ?thesis using 2(1) by simp
    qed
  qed
qed

text \<open>Of the request the inner half reads the accepted encodings only.\<close>

lemma finished_run:
  fixes rq :: request_head
  assumes "well_behaved ops"
  obtains st h buf where
    "\<And>hm rq'. rh_AcceptEncoding rq' = rh_AcceptEncoding rq \<Longrightarrow>
     TimeoutHandler Finished (inner_chain gz (ops, e)) rq' stackWriter (stack_world hm minted) =
     (e, left (if e = Returned then stack_over (sent hm st h buf) st (length (delivered st h buf)) True
               else stack_over (unsent hm (minted_header minted)) 0 0 False) (facts_of ops))"
    "\<And>hm. decompresses gz gunzip \<Longrightarrow> reads gunzip hm (st, h, heard hm (delivered st h buf)) = through minted hm (direct hm ops)"
    "HeaderGet ''Content-Encoding'' h = ''gzip'' \<Longrightarrow> acceptsGzip (rh_AcceptEncoding rq)"
proof -
  obtain hs ws where ops: "ops = hs @ ws" and hw: "list_all sets_header hs" "list_all writes ws"
    and told: "declares (fold header_op hs (\<lambda>_. [])) (written ws)"
    using behaved_split [OF assms] .
  let ?s = "\<lparr>wd_w = new_timeoutWriter, wd_log = [], wd_facts = Some no_facts\<rparr>"
  have s: "on_writer (\<lambda>_. new_timeoutWriter) (stack_world hm minted) = on_writer (\<lambda>_. new_timeoutWriter) ?s" for hm
    by (simp add: on_writer_def stack_world_def)
  obtain e' s' where r: "inner_chain gz (ops, e) rq timeout_writer (on_writer (\<lambda>_. new_timeoutWriter) ?s) = (e', s')"
    by fastforce
  have i: "e' = e" "wd_log s' = []" "wd_facts s' = Some (facts_of ops)"
    and tw: "case first_status ws of None \<Rightarrow> wd_w s' = new_timeoutWriter\<lparr>tw_h := fold header_op hs vary\<rparr>
      | Some st \<Rightarrow> buffers gz (acceptsGzip (rh_AcceptEncoding rq)) st (mux_header st (fold header_op hs vary))
          (mux_body st (fold header_op hs vary) (written ws)) (wd_w s')"
    using inner_run [OF hw refl r [unfolded ops]] facts_of [of ops] by (simp_all add: ops)
  have same: "inner_chain gz (ops, e) rq' timeout_writer w = inner_chain gz (ops, e) rq timeout_writer w"
    if "rh_AcceptEncoding rq' = rh_AcceptEncoding rq" for rq' w
    using that by (simp add: Compress_def MuxErrors_run Let_def)
  define st where "st = (if tw_wroteHeader (wd_w s') then tw_code (wd_w s') else 200)"
  define h where "h = completed st (over (tw_h (wd_w s')) (minted_header minted))"
  have f: "flush_buffer stackWriter (wd_w s') (wd_w (stack_world hm minted)) =
      stack_over (sent hm st h (tw_wbuf (wd_w s'))) st (length (delivered st h (tw_wbuf (wd_w s')))) True" for hm
    using flush_stack [OF st_def h_def] by (simp add: stack_world_def)
  have t: "TimeoutHandler Finished (inner_chain gz (ops, e)) rq' stackWriter (stack_world hm minted) =
     (e, left (if e = Returned then stack_over (sent hm st h (tw_wbuf (wd_w s'))) st (length (delivered st h (tw_wbuf (wd_w s')))) True
               else stack_over (unsent hm (minted_header minted)) 0 0 False) (facts_of ops))"
    if "rh_AcceptEncoding rq' = rh_AcceptEncoding rq" for hm rq'
    using r i f [of hm] same [OF that] s [of hm]
    by (cases e) (simp_all add: TimeoutHandler_def on_writer_def left_def stack_world_def)
  show ?thesis
    using that [OF t] flushed_answer [OF hw told tw st_def h_def] by (simp add: ops)
qed

lemma expired_run:
  assumes "r \<noteq> Finished"
  shows "\<exists>f. r \<in> {DeadlineHit f, ClientGone f} \<and>
    (\<exists>h b. TimeoutHandler r next rq stackWriter (stack_world hm minted) =
        (Returned, left (stack_over (sent hm 503 h b) 503 (length b) True) f) \<and>
      h = completed 503 (minted_header minted) \<and> b = (if r = DeadlineHit f then prebuiltBody CodeTimeout else []))"
proof -
  let ?h = "completed 503 (minted_header minted)"
  have "?h ''Content-Length'' = []" by (simp add: completed_other minted_header_def)
  then have d: "delivered 503 ?h x = x" for x by (simp add: delivered_def not_past_length body_allowed_def)
  show ?thesis
  proof (cases r)
    case (DeadlineHit f)
    then show ?thesis
      using d by (intro exI [of _ f]) (simp add: TimeoutHandler_def timeout_ops_def stack_world_def on_writer_def
        stack_WriteHeader stack_Write left_def)
  next
    case (ClientGone f)
    then show ?thesis
      by (intro exI [of _ f]) (simp add: TimeoutHandler_def timeout_ops_def stack_world_def on_writer_def
        stack_WriteHeader begun_sent left_def)
  qed (use assms in simp)
qed

lemma serve_expired:
  assumes "r \<noteq> Finished"
  shows "\<exists>f h b. r \<in> {DeadlineHit f, ClientGone f} \<and> b = (if r = DeadlineHit f then prebuiltBody CodeTimeout else []) \<and>
    serve_conn gz r minted rq mux =
      (Some (503, h, heard (is_head rq) b), [access_line [healthzPath] (rq\<lparr>rh_RequestID := minted\<rparr>) f 503 (length b)]) \<and>
    reads gunzip (is_head rq) (503, h, heard (is_head rq) b) =
      error_answer 503 retryAfterSeconds minted (heard (is_head rq) b) \<and>
    HeaderGet ''Content-Encoding'' h = []"
proof -
  let ?m = "minted_header minted" and ?hm = "is_head rq"
  obtain f h b where f: "r \<in> {DeadlineHit f, ClientGone f}"
    and t: "TimeoutHandler r (inner_chain gz mux) (rq\<lparr>rh_RequestID := minted\<rparr>) stackWriter (stack_world ?hm minted) =
      (Returned, left (stack_over (sent ?hm 503 h b) 503 (length b) True) f)"
    and h: "h = completed 503 ?m" and b: "b = (if r = DeadlineHit f then prebuiltBody CodeTimeout else [])"
    using expired_run [OF assms] by metis
  have m: "HeaderGet ''Content-Type'' ?m = []" "HeaderGet ''Retry-After'' ?m = []"
    by (simp_all add: HeaderGet_def minted_header_def)
  have ce: "HeaderGet ''Content-Encoding'' h = []" and "HeaderGet ''X-Request-Id'' h = minted"
    by (simp_all add: h HeaderGet_def completed_other minted_header_def)
  then have rd: "reads gunzip ?hm (503, h, heard ?hm b) = error_answer 503 retryAfterSeconds minted (heard ?hm b)"
    by (simp add: reads_def error_answer_def h completed_type completed_retry m)
  have "delivered 503 h b = b"
    by (simp add: h delivered_def not_past_length body_allowed_def completed_other minted_header_def)
  with serve_returned [OF t] f b ce rd show ?thesis by auto
qed

subsection \<open>The theorems\<close>

text \<open>A compressor that marks its stream, for the witnesses.\<close>

definition sample_gz :: compressor where
  "sample_gz = \<lparr>gz_write = (\<lambda>cs. (if length cs = 1 then ''Z'' else []) @ last cs),
     gz_close = (\<lambda>cs. if cs = [] then ''Z'' else [])\<rparr>"

definition sample_gunzip :: "string \<Rightarrow> string option" where
  "sample_gunzip s = (case s of [] \<Rightarrow> None | c # t \<Rightarrow> if c = CHR ''Z'' then Some t else None)"

lemma sample_decompresses: "decompresses sample_gz sample_gunzip"
proof -
  have "gz_out sample_gz cs @ gz_close sample_gz cs = CHR ''Z'' # concat cs" for cs
  proof (induction cs rule: rev_induct)
    case (snoc b cs)
    then show ?case by (cases "cs = []") (simp_all add: gz_out_snoc sample_gz_def, simp add: gz_out_def)
  qed (simp add: gz_out_def sample_gz_def)
  then show ?thesis by (simp add: decompresses_def sample_gunzip_def)
qed

text \<open>The program's own writers set their headers first.\<close>

lemma program_writers_behave:
  "200 \<le> status \<Longrightarrow> well_behaved (json_ops status body)" "well_behaved (healthzHandler up)"
  "200 \<le> status \<Longrightarrow> well_behaved (http_Error msg status)"
  "200 \<le> status \<Longrightarrow> well_behaved (SetHeader ''Allow'' allow # http_Error msg status)"
  by (simp_all add: well_behaved_def json_ops_def healthzHandler_def http_Error_def declares_def Let_def split: option.split)

definition sample_head :: request_head where
  "sample_head = \<lparr>rh_Method = ''GET'', rh_Path = ''/l/secret'', rh_AcceptEncoding = ''gzip;q=0.1,br'', rh_RequestID = []\<rparr>"

lemma q_values_read:
  "acceptsGzip ''br,gzip''" "\<not> acceptsGzip ''*''"
  "\<not> acceptsGzip ''gzip;q=0.0,br''" "acceptsGzip ''gzip;q=0.1,br''"
  by (simp_all add: acceptsGzip_def TrimSpace_id ascii_lower_def in_range_def refuses_def
      parses_to_zero_def decimal_def digit_val_def)

text \<open>C11: The client of the server is answered by the handler and by nothing else. Take any handler
  that sets its headers before it writes, leaves the encoding alone and declares no false length
  (\<open>http.Error\<close> and \<open>http.NotFound\<close> among them), any compressor, method, accepted encoding and outcome of
  the time limit. The response that is read (decompressed where it says so) is the one the handler
  would have given straight on the connection, with the error envelope in place of a plain 404 or
  405, a JSON type where none was set, and the request's id. A panic is answered 500 and an expired
  deadline 503 with Retry-After, each with its envelope and with nothing the handler had written
  before. A HEAD is answered alike without a body. Only a client that accepts gzip is sent it.\<close>

theorem server_chain_answers:
  assumes "well_behaved (fst mux)" "decompresses gz gunzip"
  shows "map_option (reads gunzip (is_head rq)) (fst (serve_conn gz r minted rq mux)) =
      expected_answer minted (is_head rq) r mux \<and>
    (\<forall>st h b. fst (serve_conn gz r minted rq mux) = Some (st, h, b) \<longrightarrow>
       HeaderGet ''Content-Encoding'' h = ''gzip'' \<longrightarrow> acceptsGzip (rh_AcceptEncoding rq))"
proof (cases r)
  case Finished
  obtain ops e where mux: "mux = (ops, e)" by (cases mux)
  obtain st h buf where t: "\<And>hm rq'. rh_AcceptEncoding rq' = rh_AcceptEncoding rq \<Longrightarrow>
      TimeoutHandler Finished (inner_chain gz (ops, e)) rq' stackWriter (stack_world hm minted) =
        (e, left (if e = Returned then stack_over (sent hm st h buf) st (length (delivered st h buf)) True
           else stack_over (unsent hm (minted_header minted)) 0 0 False) (facts_of ops))"
    and rd: "\<And>hm. decompresses gz gunzip \<Longrightarrow> reads gunzip hm (st, h, heard hm (delivered st h buf)) = through minted hm (direct hm ops)"
    and ac: "HeaderGet ''Content-Encoding'' h = ''gzip'' \<Longrightarrow> acceptsGzip (rh_AcceptEncoding rq)"
    by (rule finished_run [of ops rq gz e minted gunzip]) (use assms(1) mux in auto)
  note t = t [of "rq\<lparr>rh_RequestID := minted\<rparr>" "is_head rq", simplified]
  show ?thesis
  proof (cases e)
    case Returned
    then show ?thesis
      using serve_returned [where r = r and gz = gz and mux = mux and rq = rq and minted = minted and f = "facts_of ops"] t rd ac assms(2)
      by (simp add: mux Finished expected_answer_def)
  next
    case (Panicked p)
    then show ?thesis
      using serve_panicked [where r = r and gz = gz and mux = mux and rq = rq and minted = minted and f = "facts_of ops"] t
      by (simp add: mux Finished expected_answer_def reads_def error_answer_def minted_header_def HeaderGet_def Let_def)
  next
    case Aborted
    then show ?thesis
      using serve_aborted [where r = r and gz = gz and mux = mux and rq = rq and minted = minted and f = "facts_of ops"] t
      by (simp add: mux Finished expected_answer_def)
  qed
next
  case (DeadlineHit f)
  then show ?thesis using serve_expired [of r gz minted rq mux gunzip] by (auto simp: expected_answer_def)
next
  case (ClientGone f)
  then show ?thesis using serve_expired [of r gz minted rq mux gunzip] by (auto simp: expected_answer_def heard_def)
qed

theorem server_chain_answers_witness:
  "map_option (reads sample_gunzip False) (fst (serve_conn sample_gz Finished ''ab'' sample_head
      (http_Error ''404 page not found'' 404, Returned))) =
     Some (error_answer 404 [] ''ab'' bodyUnsupportedRoute) \<and>
   map_option (reads sample_gunzip True) (fst (serve_conn sample_gz Finished ''ab'' (sample_head\<lparr>rh_Method := ''HEAD''\<rparr>)
      (http_Error ''404 page not found'' 404, Returned))) =
     Some (error_answer 404 [] ''ab'' []) \<and>
   map_option (reads sample_gunzip False) (fst (serve_conn sample_gz Finished ''ab'' sample_head
      ([WriteBytes (replicate 1400 CHR ''x'')], Returned))) =
     Some (error_answer 200 [] ''ab'' (replicate 1400 CHR ''x''))"
proof -
  let ?lost = "(http_Error ''404 page not found'' 404, Returned)"
    and ?long = "([WriteBytes (replicate 1400 CHR ''x'')], Returned)"
  have 1: "well_behaved (fst ?lost)" "well_behaved (fst ?long)"
    using program_writers_behave(3) [of 404] by (simp_all add: well_behaved_def declares_def)
  have m: "is_head sample_head = False" "is_head (sample_head\<lparr>rh_Method := ''HEAD''\<rparr>) = True"
    by (simp_all add: sample_head_def)
  have 2: "through ''ab'' False (direct False (fst ?lost)) = error_answer 404 [] ''ab'' bodyUnsupportedRoute"
    "through ''ab'' True (direct True (fst ?lost)) = error_answer 404 [] ''ab'' []"
    by code_simp+
  have 3: "direct False [WriteBytes b] = (200, (\<lambda>_. []), b)" for b
    using direct_run [of "[]" "[WriteBytes b]", OF _ _ refl] by (simp add: body_allowed_def declares_def heard_def)
  have "through ''ab'' False (direct False (fst ?long)) = error_answer 200 [] ''ab'' (replicate 1400 CHR ''x'')"
    unfolding fst_conv 3 by (simp add: through_def error_answer_def HeaderGet_def)
  then show ?thesis
    using 2 server_chain_answers [OF 1(1) sample_decompresses, of sample_head Finished "''ab''"]
      server_chain_answers [OF 1(1) sample_decompresses, of "sample_head\<lparr>rh_Method := ''HEAD''\<rparr>" Finished "''ab''"]
      server_chain_answers [OF 1(2) sample_decompresses, of sample_head Finished "''ab''"]
    unfolding m by (simp add: expected_answer_def)
qed

fun line_path :: "log_line \<Rightarrow> string" where
  "line_path (PanicLine p i m path) = path"
| "line_path (AccessLine l m path st n i t rt) = path"

lemma access_line_path: "line_path (access_line quiet rq f st n) = LoggedPath rq"
  by (simp add: access_line_def)

text \<open>C12: Every request leaves exactly one access line, with the request's own id. It tells the status
  and the number of body bytes of the answer; of a HEAD, whose answer has no body, the number of
  bytes the same handler run sends to a GET. After a panic it tells status 0 and no bytes, although
  the client reads the 500 that is written further out, and the panic has a line of its own beside
  it; after an abort, which has no answer, it tells 0 and 0 too. The token of a shared trip stands in
  no line: below \<^verbatim>\<open>/l/\<close> every line carries the redacted path.\<close>

theorem one_line_per_request:
  assumes "well_behaved (fst mux)" "serve_conn gz r minted rq mux = (resp, lines)"
  shows "(\<exists>facts st n. lines =
      access_line [healthzPath] (rq\<lparr>rh_RequestID := minted\<rparr>) facts st n #
        (case (r, snd mux) of (Finished, Panicked p) \<Rightarrow> [PanicLine p minted (rh_Method rq) (LoggedPath rq)] | _ \<Rightarrow> []) \<and>
      (case (r, snd mux, resp) of
         (Finished, Panicked p, _) \<Rightarrow> st = 0 \<and> n = 0
       | (_, _, Some (status, h, b)) \<Rightarrow> st = status \<and>
           (if is_head rq
            then b = [] \<and> (\<exists>h' b'. fst (serve_conn gz r minted (rq\<lparr>rh_Method := ''GET''\<rparr>) mux) = Some (status, h', b') \<and>
                   n = length b')
            else n = length b)
       | (_, _, None) \<Rightarrow> r = Finished \<and> snd mux = Aborted \<and> st = 0 \<and> n = 0) \<and>
      (r = Finished \<longrightarrow> fold f_op (fst mux) (Some no_facts) = Some facts)) \<and>
    (prefix SharePathPrefix (rh_Path rq) \<longrightarrow> (\<forall>l \<in> set lines. line_path l = RedactedSharePath))"
proof (cases "r = Finished")
  case True
  let ?get = "rq\<lparr>rh_Method := ''GET''\<rparr>"
  obtain ops e where mux: "mux = (ops, e)" by (cases mux)
  obtain st h buf where t: "\<And>hm rq'. rh_AcceptEncoding rq' = rh_AcceptEncoding rq \<Longrightarrow>
      TimeoutHandler Finished (inner_chain gz (ops, e)) rq' stackWriter (stack_world hm minted) =
        (e, left (if e = Returned then stack_over (sent hm st h buf) st (length (delivered st h buf)) True
           else stack_over (unsent hm (minted_header minted)) 0 0 False) (facts_of ops))"
    by (rule finished_run [of ops rq gz e minted Some]) (use assms(1) mux in auto)
  note own = t [of "rq\<lparr>rh_RequestID := minted\<rparr>" "is_head rq", simplified]
    and get = t [of "?get\<lparr>rh_RequestID := minted\<rparr>" False, simplified]
  show ?thesis
  proof (cases e)
    case Returned
    let ?line = "access_line [healthzPath] (rq\<lparr>rh_RequestID := minted\<rparr>) (facts_of ops) st (length (delivered st h buf))"
    have "serve_conn gz r minted rq mux = (Some (st, h, heard (is_head rq) (delivered st h buf)), [?line])"
      using serve_returned [where r = r and gz = gz and mux = mux and rq = rq and minted = minted and f = "facts_of ops"] own Returned
      by (simp add: mux True)
    moreover have "fst (serve_conn gz r minted ?get mux) = Some (st, h, delivered st h buf)"
      using serve_returned [where r = r and gz = gz and mux = mux and rq = ?get and minted = minted and f = "facts_of ops"] get Returned
      by (simp add: mux True heard_def)
    ultimately show ?thesis
      using assms(2) facts_of [of ops] Returned
      by (auto simp: mux True access_line_path LoggedPath_def heard_def)
  next
    case (Panicked p)
    then show ?thesis
      using serve_panicked [where r = r and gz = gz and mux = mux and rq = rq and minted = minted and f = "facts_of ops"] own
        assms(2) facts_of [of ops]
      by (auto simp: mux True access_line_path LoggedPath_def Let_def)
  next
    case Aborted
    then show ?thesis
      using serve_aborted [where r = r and gz = gz and mux = mux and rq = rq and minted = minted and f = "facts_of ops"] own
        assms(2) facts_of [of ops]
      by (auto simp: mux True access_line_path LoggedPath_def)
  qed
next
  case False
  let ?get = "rq\<lparr>rh_Method := ''GET''\<rparr>"
  obtain f h b where "r \<in> {DeadlineHit f, ClientGone f}" and b: "b = (if r = DeadlineHit f then prebuiltBody CodeTimeout else [])"
    and own: "serve_conn gz r minted rq mux =
      (Some (503, h, heard (is_head rq) b), [access_line [healthzPath] (rq\<lparr>rh_RequestID := minted\<rparr>) f 503 (length b)])"
    using serve_expired [OF False, of gz minted rq mux Some] by blast
  moreover from this(1) b obtain h' where "fst (serve_conn gz r minted ?get mux) = Some (503, h', b)"
    using serve_expired [OF False, of gz minted ?get mux Some] by (auto simp: heard_def)
  ultimately show ?thesis
    using assms(2) by (auto simp: access_line_path LoggedPath_def heard_def)
qed

theorem one_line_per_request_witness:
  "list_all (\<lambda>l. line_path l = ''/l/[redacted]'')
     (snd (serve_conn sample_gz Finished ''ab'' sample_head ([RecordRoute ''GET /l/{token}''], Panicked ''nil map'')))"
proof -
  have "well_behaved (fst ([RecordRoute ''GET /l/{token}''], Panicked ''nil map''))"
    by (simp add: well_behaved_def declares_def)
  from one_line_per_request [OF this, of sample_gz Finished "''ab''" sample_head] show ?thesis
    by (cases "serve_conn sample_gz Finished ''ab'' sample_head ([RecordRoute ''GET /l/{token}''], Panicked ''nil map'')")
      (simp add: sample_head_def SharePathPrefix_def RedactedSharePath_def list_all_iff)
qed

end
