(* ===== verification/Sql_Split.thy ===== *)
theory Sql_Split
  imports Text
begin

section \<open>Cutting a script into statements (\<^verbatim>\<open>internal/postgres/split.go\<close>)\<close>

text \<open>
  \<open>splitStatements\<close> cuts a migration at its unquoted semicolons. Go walks an index; here the walk is
  over the rest of the script, with the bytes since the last cut beside it. The code looks back two
  bytes, never past the cut: the byte before it is a semicolon. Each construct takes its own bytes
  off the rest, and each is shown to take at least one, so the walk ends.

  The lemmas: nothing is lost or invented (the pieces, joined by semicolons, are the script), and a
  script that ends outside every construct can be followed by another without changing how either
  is cut.
\<close>

definition isIdentByte :: "char \<Rightarrow> bool" where
  "isIdentByte b \<longleftrightarrow> b = CHR ''_'' \<or> in_range (CHR ''a'') (CHR ''z'') b \<or> in_range (CHR ''A'') (CHR ''Z'') b \<or>
     in_range (CHR ''0'') (CHR ''9'') b"

text \<open>The tag that opens at a dollar sign, given what follows the sign.\<close>

definition dollarTag :: "string \<Rightarrow> string option" where
  "dollarTag after =
     (let name = takeWhile isIdentByte after in
      case dropWhile isIdentByte after of
        c # _ \<Rightarrow>
          if c \<noteq> CHR ''$'' then None
          else if name \<noteq> [] \<and> in_range (CHR ''0'') (CHR ''9'') (hd name) then None
          else Some (CHR ''$'' # name @ ''$'')
      | [] \<Rightarrow> None)"

text \<open>\<open>strings.Index\<close> and what follows: the bytes up to and with the tag, or everything.\<close>

fun through :: "string \<Rightarrow> string \<Rightarrow> string \<times> string" where
  "through tag [] = ([], [])"
| "through tag (c # s) =
     (if prefix tag (c # s) then (tag, drop (length tag) (c # s))
      else case through tag s of (a, b) \<Rightarrow> (c # a, b))"

text \<open>A block comment from inside, nested \<open>depth\<close> deep.\<close>

fun block :: "nat \<Rightarrow> string \<Rightarrow> string \<times> string" where
  "block depth (c # e # s) =
     (if depth = 0 then ([], c # e # s)
      else if c = CHR ''/'' \<and> e = CHR ''*'' then (case block (depth + 1) s of (a, b) \<Rightarrow> (c # e # a, b))
      else if c = CHR ''*'' \<and> e = CHR ''/'' then (case block (depth - 1) s of (a, b) \<Rightarrow> (c # e # a, b))
      else case block depth (e # s) of (a, b) \<Rightarrow> (c # a, b))"
| "block depth [c] = (if depth = 0 then ([], [c]) else ([c], []))"
| "block depth [] = ([], [])"

text \<open>A quoted text from inside; a doubled quote is not the end, nor is an escaped one.\<close>

fun quoted :: "char \<Rightarrow> bool \<Rightarrow> string \<Rightarrow> string \<times> string" where
  "quoted q escapes (c # e # s) =
     (if escapes \<and> c = CHR 0x5C then (case quoted q escapes s of (a, b) \<Rightarrow> (c # e # a, b))
      else if c = q then
        (if e = q then (case quoted q escapes s of (a, b) \<Rightarrow> (c # e # a, b)) else ([c], e # s))
      else case quoted q escapes (e # s) of (a, b) \<Rightarrow> (c # a, b))"
| "quoted q escapes [c] = ([c], [])"
| "quoted q escapes [] = ([], [])"

text \<open>\<open>E'\<close>: the two bytes before the quote.\<close>

definition escape_string :: "string \<Rightarrow> bool" where
  "escape_string cur =
     (case rev cur of
        [] \<Rightarrow> False
      | [e] \<Rightarrow> e = CHR ''E'' \<or> e = CHR ''e''
      | e # p # _ \<Rightarrow> (e = CHR ''E'' \<or> e = CHR ''e'') \<and> \<not> isIdentByte p)"

text \<open>What one turn of the loop takes off the rest, and whether it was code. A semicolon takes nothing.\<close>

definition lexeme :: "string \<Rightarrow> string \<Rightarrow> bool \<times> string \<times> string" where
  "lexeme cur rest =
     (case rest of
        [] \<Rightarrow> (False, [], [])
      | c # s \<Rightarrow>
          if c = CHR ''-'' \<and> prefix ''-'' s
          then (False, takeWhile (\<lambda>x. x \<noteq> CHR 0x0A) rest, dropWhile (\<lambda>x. x \<noteq> CHR 0x0A) rest)
          else if c = CHR ''/'' \<and> prefix ''*'' s
          then (case block 1 (tl s) of (a, b) \<Rightarrow> (False, c # CHR ''*'' # a, b))
          else if c = CHR 0x27
          then (case quoted c (escape_string cur) s of (a, b) \<Rightarrow> (True, c # a, b))
          else if c = CHR 0x22
          then (case quoted c False s of (a, b) \<Rightarrow> (True, c # a, b))
          else if c = CHR ''$''
          then (case dollarTag s of
                  Some tag \<Rightarrow> (case through tag (drop (length tag) rest) of (a, b) \<Rightarrow> (True, tag @ a, b))
                | None \<Rightarrow> (True, [c], s))
          else (c \<notin> {CHR '' '', CHR 0x09, CHR 0x0A, CHR 0x0D}, [c], s))"

lemma through_append: "through tag s = (a, b) \<Longrightarrow> a @ b = s"
  by (induction tag s arbitrary: a b rule: through.induct)
    (auto simp: prefix_def split: if_splits prod.splits)

lemma block_append: "block depth s = (a, b) \<Longrightarrow> a @ b = s"
  by (induction depth s arbitrary: a b rule: block.induct) (auto split: if_splits prod.splits)

lemma quoted_append: "quoted q escapes s = (a, b) \<Longrightarrow> a @ b = s"
  by (induction q escapes s arbitrary: a b rule: quoted.induct) (auto split: if_splits prod.splits)

lemma dollarTag_prefix: "dollarTag s = Some tag \<Longrightarrow> \<exists>r. CHR ''$'' # s = tag @ r"
proof -
  assume "dollarTag s = Some tag"
  then obtain r where "dropWhile isIdentByte s = CHR ''$'' # r" "tag = CHR ''$'' # takeWhile isIdentByte s @ ''$''"
    by (auto simp: dollarTag_def Let_def split: list.splits if_splits)
  then have "CHR ''$'' # s = tag @ r" by simp (metis takeWhile_dropWhile_id)
  then show ?thesis by blast
qed

lemma lexeme_append: "lexeme cur rest = (code, a, b) \<Longrightarrow> a @ b = rest"
  by (auto simp: lexeme_def prefix_def split: list.splits if_splits prod.splits option.splits
      dest!: block_append quoted_append through_append dollarTag_prefix)

lemma lexeme_takes: "lexeme cur (c # s) = (code, a, b) \<Longrightarrow> a \<noteq> []"
  by (auto simp: lexeme_def dollarTag_def Let_def split: if_splits prod.splits option.splits list.splits)

lemma lexeme_shorter: "lexeme cur (c # s) = (code, a, b) \<Longrightarrow> length b < Suc (length s)"
  using lexeme_append [of cur "c # s" code a b] lexeme_takes [of cur c s code a b]
  by (metis length_Cons length_append length_greater_0_conv less_add_same_cancel2)

text \<open>The pieces between the cuts, each with whether it holds code.\<close>

function pieces :: "string \<Rightarrow> bool \<Rightarrow> string \<Rightarrow> (string \<times> bool) list" where
  "pieces cur hasCode [] = [(cur, hasCode)]"
| "pieces cur hasCode (c # s) =
     (if c = CHR '';'' then (cur, hasCode) # pieces [] False s
      else case lexeme cur (c # s) of (code, a, b) \<Rightarrow> pieces (cur @ a) (hasCode \<or> code) b)"
  by pat_completeness auto
termination
  by (relation "measure (\<lambda>(_, _, rest). length rest)") (auto dest: lexeme_shorter [OF sym])

definition emit_pieces :: "(string \<times> bool) list \<Rightarrow> string list" where
  "emit_pieces ps = filter (\<lambda>s. s \<noteq> []) (map (TrimSpace \<circ> fst) (filter snd ps))"

definition splitStatements :: "string \<Rightarrow> string list" where
  "splitStatements src = emit_pieces (pieces [] False src)"

subsection \<open>Nothing is lost\<close>

lemma pieces_ne: "pieces cur hasCode rest \<noteq> []"
  by (induction cur hasCode rest rule: pieces.induct) (auto split: prod.splits)

lemma Join_Cons: "xs \<noteq> [] \<Longrightarrow> Join sep (x # xs) = x @ sep @ Join sep xs"
  by (cases xs) simp_all

lemma pieces_join: "Join '';'' (map fst (pieces cur hasCode rest)) = cur @ rest"
proof (induction cur hasCode rest rule: pieces.induct)
  case (2 cur hasCode c s)
  obtain code a b where l: "lexeme cur (c # s) = (code, a, b)" by (metis prod_cases3)
  show ?case
  proof (cases "c = CHR '';''")
    case True
    with 2(1) pieces_ne [of "[]" False s] show ?thesis by (simp add: Join_Cons)
  next
    case False
    with 2(2) [OF False l [symmetric] refl] lexeme_append [OF l] show ?thesis by (simp add: l)
  qed
qed simp

subsection \<open>Scripts in sequence\<close>

text \<open>A script ends outside every construct when a semicolon put at its end would cut.\<close>

definition closed :: "string \<Rightarrow> bool" where
  "closed src \<longleftrightarrow> pieces [] False (src @ '';'') = pieces [] False src @ [([], False)]"

text \<open>A construct that ended before the end of the text does not see what follows it.\<close>

lemma block_local: "block depth s = (a, b) \<Longrightarrow> b \<noteq> [] \<Longrightarrow> block depth (s @ m) = (a, b @ m)"
proof (induction depth s arbitrary: a b rule: block.induct)
  case (2 depth c)
  then show ?case by (cases m) (auto split: if_splits)
qed (auto split: if_splits prod.splits)

lemma quoted_local: "quoted q e s = (a, b) \<Longrightarrow> b \<noteq> [] \<Longrightarrow> quoted q e (s @ m) = (a, b @ m)"
  by (induction q e s arbitrary: a b rule: quoted.induct) (auto split: if_splits prod.splits)

lemma through_short: "length s < length tag \<Longrightarrow> snd (through tag s) = []"
  by (induction tag s rule: through.induct) (auto simp: prefix_def split: prod.splits)

lemma drop_within: "n \<le> length (c # s) \<Longrightarrow> drop n (c # s @ m) = drop n (c # s) @ m"
  using drop_append [of n "c # s" m] by simp

lemma through_local: "through tag s = (a, b) \<Longrightarrow> b \<noteq> [] \<Longrightarrow> through tag (s @ m) = (a, b @ m)"
proof (induction tag s arbitrary: a b rule: through.induct)
  case (2 tag c s)
  show ?case
  proof (cases "prefix tag (c # s)")
    case True
    then have "prefix tag (c # s @ m)" by (metis append_Cons prefix_prefix)
    moreover have "length tag \<le> length (c # s)" using True by (rule prefix_length_le)
    ultimately show ?thesis using 2(2) True drop_within [of "length tag" c s m] by auto
  next
    case False
    obtain a' where t: "through tag s = (a', b)" "a = c # a'" using 2(2) False by (auto split: prod.splits)
    have "\<not> length s < length tag" using through_short [of s tag] t(1) 2(3) by auto
    then have "\<not> prefix tag (c # s @ m)"
      using False prefix_length_prefix [of tag "c # s @ m" "c # s"] by auto
    with 2(1) [OF False t(1) 2(3)] t(2) show ?thesis by simp
  qed
qed simp

lemma dollarTag_local:
  assumes "s \<noteq> []" "\<not> isIdentByte (last s)"
  shows "dollarTag (s @ m) = dollarTag s"
proof -
  have "\<exists>x \<in> set s. \<not> isIdentByte x" using assms by (metis last_in_set)
  then obtain x xs where "dropWhile isIdentByte s = x # xs" by (metis dropWhile_eq_Nil_conv list.exhaust)
  moreover have "takeWhile isIdentByte (s @ m) = takeWhile isIdentByte s"
    "dropWhile isIdentByte (s @ m) = dropWhile isIdentByte s @ m"
    using \<open>\<exists>x \<in> set s. \<not> isIdentByte x\<close> by (auto simp: takeWhile_append dropWhile_append3 dropWhile_append)
  ultimately show ?thesis by (simp add: dollarTag_def)
qed

lemma lexeme_local:
  assumes "lexeme cur (c # s) = (code, a, b)" "b \<noteq> []" "last s = CHR '';''"
  shows "lexeme cur (c # s @ m) = (code, a, b @ m)"
proof -
  have ne: "s \<noteq> []" using lexeme_append [OF assms(1)] lexeme_takes [OF assms(1)] assms(2) by (cases a) auto
  have pre: "prefix [x] (s @ m) = prefix [x] s" for x using ne by (cases s) auto
  have tag: "dollarTag (s @ m) = dollarTag s"
    by (rule dollarTag_local) (use ne assms(3) in \<open>auto simp: isIdentByte_def in_range_def\<close>)
  have comment: "dropWhile P (c # s @ m) = dropWhile P (c # s) @ m \<and> takeWhile P (c # s @ m) = takeWhile P (c # s)"
    if "dropWhile P (c # s) \<noteq> []" for P
    using that by (auto simp: takeWhile_append dropWhile_append dropWhile_eq_Nil_conv)
  have long: "drop (length t) (c # s @ m) = drop (length t) (c # s) @ m" if "dollarTag s = Some t" "c = CHR ''$''" for t
    by (rule drop_within) (metis dollarTag_prefix [OF that(1)] that(2) length_append le_add1)
  show ?thesis
    using assms(1,2) ne comment long
    by (auto simp: lexeme_def pre tag tl_append2 split: if_splits prod.splits option.splits
        dest: block_local [where m = m] quoted_local [where m = m] through_local [where m = m])
qed

lemma pieces_local:
  "pieces cur h (s @ '';'') = xs @ [([], False)] \<Longrightarrow> pieces cur h (s @ '';'' @ m) = xs @ pieces [] False m"
proof (induction s arbitrary: cur h xs rule: length_induct)
  case (1 s)
  show ?case
  proof (cases s)
    case Nil
    with 1(2) show ?thesis by simp
  next
    case (Cons c s')
    show ?thesis
    proof (cases "c = CHR '';''")
      case True
      with 1(2) Cons obtain ys where ys: "xs = (cur, h) # ys" "pieces [] False (s' @ '';'') = ys @ [([], False)]"
        using pieces_ne [of "[]" False "s' @ '';''"] by (cases xs) auto
      with 1(1) Cons True show ?thesis by simp
    next
      case False
      obtain code a b where l: "lexeme cur (c # s' @ '';'') = (code, a, b)" by (metis prod_cases3)
      have rest: "a @ b = (c # s') @ '';''" "a \<noteq> []" using lexeme_append [OF l] lexeme_takes [OF l] by simp_all
      have run: "pieces (cur @ a) (h \<or> code) b = xs @ [([], False)]" using 1(2) Cons False l by simp
      then have "b \<noteq> []" using rest(2) by (auto simp: append_eq_Cons_conv Cons_eq_append_conv)
      then obtain s2 where b: "b = s2 @ '';''" using rest(1) by (metis append_butlast_last_id last_appendR last_snoc)
      have "length s2 < length s" using rest b Cons by (cases a) auto
      moreover have "lexeme cur (c # (s' @ '';'') @ m) = (code, a, b @ m)"
        by (rule lexeme_local [OF l \<open>b \<noteq> []\<close>]) simp
      ultimately show ?thesis using 1(1) run Cons False b by simp
    qed
  qed
qed

lemma emit_pieces_append: "emit_pieces (ps @ qs) = emit_pieces ps @ emit_pieces qs"
  by (simp add: emit_pieces_def)

lemma splitStatements_empty [simp]: "splitStatements [] = []"
  by (simp add: splitStatements_def emit_pieces_def)

lemma splitStatements_seq:
  assumes "closed a"
  shows "splitStatements (a @ '';'' @ b) = splitStatements a @ splitStatements b"
  using pieces_local [OF assms [unfolded closed_def]] by (simp add: splitStatements_def emit_pieces_append)

end
