(* ===== verification/Migrate.thy ===== *)
theory Migrate
  imports Sql_Split Transaction
begin

section \<open>The migration runner (\<^verbatim>\<open>internal/postgres/migrate.go\<close>)\<close>

text \<open>
  \<open>loadMigrations\<close> reads and checks the directory, \<open>apply\<close> runs one file and records it, \<open>Migrate\<close> is
  the loop over the files. The schema being migrated is a state \<open>'s\<close> and \<open>exec\<close>, what the server does
  with one statement, is a parameter; \<open>sha\<close> is the hexadecimal digest of a file. Every call of the driver
  may fail under a schedule of faults, and the acknowledgement of a commit may be lost. The
  advisory lock keeps two runners apart, so one run is one sequence of steps.
\<close>

subsection \<open>The directory\<close>

datatype migrate_error =
    RefusedSchema | Unreadable | TwoAtVersion string | NotReRunnable | NotAName | NoMigrations | NoDownFile
  | NoStatements | ErrChecksumMismatch | Driver db_error

record migration =
  mg_Version :: string
  mg_Name :: string
  mg_SQL :: string
  mg_Checksum :: string
  mg_NoTransaction :: bool

record dir_entry =
  de_FileName :: string
  de_IsDir :: bool
  de_Body :: "string option"

text \<open>The three patterns, anchored at both ends.\<close>

definition is_digit_byte :: "char \<Rightarrow> bool" where
  "is_digit_byte = in_range (CHR ''0'') (CHR ''9'')"

definition lower_byte :: "char \<Rightarrow> bool" where
  "lower_byte c \<longleftrightarrow> c = CHR ''_'' \<or> in_range (CHR ''a'') (CHR ''z'') c"

definition migration_name :: "string \<Rightarrow> string \<Rightarrow> string option" where
  "migration_name ending name =
     (let stem = take (length name - length ending) name; middle = drop 5 stem
      in if suffix ending name \<and> length stem > 5 \<and> list_all is_digit_byte (take 4 stem) \<and>
            stem ! 4 = CHR ''_'' \<and> list_all (\<lambda>c. lower_byte c \<or> is_digit_byte c) middle
         then Some (take 4 stem) else None)"

definition upName :: "string \<Rightarrow> string option" where "upName = migration_name ''.up.sql''"
definition downName :: "string \<Rightarrow> string option" where "downName = migration_name ''.down.sql''"

definition schemaOK :: "string \<Rightarrow> bool" where
  "schemaOK s =
     (case s of [] \<Rightarrow> False | c # r \<Rightarrow> lower_byte c \<and> list_all (\<lambda>c. lower_byte c \<or> is_digit_byte c) r)"

definition noTransactionDirective :: string where "noTransactionDirective = ''-- migrate:no-transaction''"
definition noTransactionReRunnable :: string where "noTransactionReRunnable = ''-- migrate:re-runnable''"

fun re_runnable_lines :: "string list \<Rightarrow> bool" where
  "re_runnable_lines [] = False"
| "re_runnable_lines (line # rest) =
     (let trimmed = TrimSpace line in
      if trimmed = [] then re_runnable_lines rest
      else if prefix noTransactionReRunnable trimmed then True
      else if prefix ''--'' trimmed then re_runnable_lines rest
      else False)"

definition declaresReRunnable :: "string \<Rightarrow> bool" where
  "declaresReRunnable src = re_runnable_lines (Split (CHR 0x0A) src)"

text \<open>The loop over the entries: the migrations so far and the versions that have a down file.\<close>

fun load_entries ::
  "(string \<Rightarrow> string) \<Rightarrow> dir_entry list \<Rightarrow> migration list \<Rightarrow> string list \<Rightarrow>
   migrate_error + migration list \<times> string list" where
  "load_entries sha [] out downs = Inr (out, downs)"
| "load_entries sha (e # es) out downs =
     (let name = de_FileName e in
      if de_IsDir e \<or> \<not> suffix ''.sql'' name then load_entries sha es out downs
      else case upName name of
        Some v \<Rightarrow>
          if v \<in> mg_Version ` set out then Inl (TwoAtVersion v)
          else (case de_Body e of
                  None \<Rightarrow> Inl Unreadable
                | Some src \<Rightarrow>
                    (let noTx = prefix noTransactionDirective src in
                     if noTx \<and> \<not> declaresReRunnable src then Inl NotReRunnable
                     else load_entries sha es
                       (out @ [\<lparr>mg_Version = v, mg_Name = name, mg_SQL = src, mg_Checksum = sha src,
                                mg_NoTransaction = noTx\<rparr>]) downs))
      | None \<Rightarrow>
          (case downName name of
             Some v \<Rightarrow> load_entries sha es out (v # downs)
           | None \<Rightarrow> Inl NotAName))"

definition loadMigrations :: "(string \<Rightarrow> string) \<Rightarrow> dir_entry list option \<Rightarrow> migrate_error + migration list" where
  "loadMigrations sha entries =
     (case entries of
        None \<Rightarrow> Inl Unreadable
      | Some es \<Rightarrow>
          and_then (load_entries sha es [] []) (\<lambda>(out, downs).
            if out = [] then Inl NoMigrations
            else let sorted_out = sort_key mg_Name out in
              if list_ex (\<lambda>m. mg_Version m \<notin> set downs) sorted_out then Inl NoDownFile
              else Inr sorted_out))"

subsection \<open>The database\<close>

record 's schema_state =
  sc_db :: 's
  sc_rows :: "(string \<times> string) list"
  sc_faults :: "fault option list"

type_synonym 's schema_stmt = "'s \<times> (string \<times> string) list \<Rightarrow> db_error + 's \<times> (string \<times> string) list"

definition sc_next :: "'s schema_state \<Rightarrow> fault option \<times> 's schema_state" where
  "sc_next m = (case sc_faults m of [] \<Rightarrow> None | f # _ \<Rightarrow> f, m\<lparr>sc_faults := tl (sc_faults m)\<rparr>)"

definition sc_set :: "'s schema_state \<Rightarrow> 's \<times> (string \<times> string) list \<Rightarrow> 's schema_state" where
  "sc_set m x = m\<lparr>sc_db := fst x, sc_rows := snd x\<rparr>"

text \<open>A statement on its own commits as it returns; one inside a transaction does not.\<close>

definition sc_auto :: "'s schema_stmt \<Rightarrow> 's schema_state \<Rightarrow> db_error option \<times> 's schema_state" where
  "sc_auto st m =
     (case sc_next m of (f, m1) \<Rightarrow>
        case (f, st (sc_db m1, sc_rows m1)) of
          (Some (Fails e), _) \<Rightarrow> (Some e, m1)
        | (Some (AckLost e), Inl _) \<Rightarrow> (Some e, m1)
        | (Some (AckLost e), Inr x) \<Rightarrow> (Some e, sc_set m1 x)
        | (None, Inl e) \<Rightarrow> (Some e, m1)
        | (None, Inr x) \<Rightarrow> (None, sc_set m1 x))"

definition sc_in :: "'s schema_stmt \<Rightarrow> 's schema_state \<Rightarrow> db_error option \<times> 's schema_state" where
  "sc_in st m =
     (case sc_next m of (f, m1) \<Rightarrow>
        case f of
          Some e \<Rightarrow> (Some (fault_error e), m1)
        | None \<Rightarrow> (case st (sc_db m1, sc_rows m1) of Inl e \<Rightarrow> (Some e, m1) | Inr x \<Rightarrow> (None, sc_set m1 x)))"

fun sc_each ::
  "('s schema_stmt \<Rightarrow> 's schema_state \<Rightarrow> db_error option \<times> 's schema_state) \<Rightarrow> 's schema_stmt list \<Rightarrow>
   's schema_state \<Rightarrow> db_error option \<times> 's schema_state" where
  "sc_each how [] m = (None, m)"
| "sc_each how (st # sts) m = (case how st m of (Some e, m') \<Rightarrow> (Some e, m') | (None, m') \<Rightarrow> sc_each how sts m')"

definition exec_stmt :: "(string \<Rightarrow> 's \<Rightarrow> db_error + 's) \<Rightarrow> string \<Rightarrow> 's schema_stmt" where
  "exec_stmt exec sql = (\<lambda>(s, rows). map_sum id (\<lambda>s'. (s', rows)) (exec sql s))"

definition record_stmt :: "migration \<Rightarrow> 's schema_stmt" where
  "record_stmt f = (\<lambda>(s, rows).
     if mg_Version f \<in> fst ` set rows then Inl unique_violation
     else Inr (s, rows @ [(mg_Version f, mg_Checksum f)]))"

definition nothing :: "'s schema_stmt" where "nothing x = Inr x"

subsection \<open>One file\<close>

definition apply_migration ::
  "(string \<Rightarrow> 's \<Rightarrow> db_error + 's) \<Rightarrow> migration \<Rightarrow> 's schema_state \<Rightarrow> migrate_error option \<times> 's schema_state" where
  "apply_migration exec f m =
     (let stmts = splitStatements (mg_SQL f); work = map (exec_stmt exec) stmts @ [record_stmt f] in
      if stmts = [] then (Some NoStatements, m)
      else if mg_NoTransaction f then map_prod (map_option Driver) id (sc_each sc_auto work m)
      else case sc_each sc_in (nothing # work) m of
        (Some e, m') \<Rightarrow> (Some (Driver e), m'\<lparr>sc_db := sc_db m, sc_rows := sc_rows m\<rparr>)
      | (None, m') \<Rightarrow>
          (case sc_next m' of
             (None, m2) \<Rightarrow> (None, m2)
           | (Some (Fails e), m2) \<Rightarrow> (Some (Driver e), m2\<lparr>sc_db := sc_db m, sc_rows := sc_rows m\<rparr>)
           | (Some (AckLost e), m2) \<Rightarrow> (Some (Driver e), m2)))"

subsection \<open>The run\<close>

text \<open>The versions that ran, and the error if there was one. The map of checksums is the one read before.\<close>

fun migrate_files ::
  "(string \<Rightarrow> 's \<Rightarrow> db_error + 's) \<Rightarrow> (string \<times> string) list \<Rightarrow> migration list \<Rightarrow> string list \<Rightarrow> 's schema_state \<Rightarrow>
   (string list \<times> migrate_error option) \<times> 's schema_state" where
  "migrate_files exec applied [] vs m = ((vs, None), m)"
| "migrate_files exec applied (f # fs) vs m =
     (case map_of applied (mg_Version f) of
        Some checksum \<Rightarrow>
          if checksum \<noteq> mg_Checksum f then ((vs, Some ErrChecksumMismatch), m)
          else migrate_files exec applied fs vs m
      | None \<Rightarrow>
          (case apply_migration exec f m of
             (Some e, m') \<Rightarrow> ((vs, Some e), m')
           | (None, m') \<Rightarrow> migrate_files exec applied fs (vs @ [mg_Version f]) m'))"

text \<open>The connection, the two settings, the lock and \<open>CREATE TABLE IF NOT EXISTS\<close>: five calls. Then the
  checksums are read, then the files run.\<close>

definition RunMigrations ::
  "(string \<Rightarrow> string) \<Rightarrow> (string \<Rightarrow> 's \<Rightarrow> db_error + 's) \<Rightarrow> string \<Rightarrow> dir_entry list option \<Rightarrow> 's schema_state \<Rightarrow>
   (string list \<times> migrate_error option) \<times> 's schema_state" where
  "RunMigrations sha exec schema entries m =
     (if \<not> schemaOK (if schema = [] then ''public'' else schema) then (([], Some RefusedSchema), m)
      else case loadMigrations sha entries of
        Inl e \<Rightarrow> (([], Some e), m)
      | Inr files \<Rightarrow>
          (case sc_each sc_in (replicate 6 nothing) m of
             (Some e, m') \<Rightarrow> (([], Some (Driver e)), m')
           | (None, m') \<Rightarrow> migrate_files exec (sc_rows m') files [] m'))"

text \<open>\<open>statementSummary\<close>, for the error line: the statement from its first line of code on, as one line.\<close>

fun body_lines :: "string list \<Rightarrow> string list" where
  "body_lines [] = []"
| "body_lines (line # rest) =
     (if line = [] \<or> prefix ''--'' line then body_lines rest
      else filter (\<lambda>l. l \<noteq> []) (line # rest))"

definition statementSummary :: "string \<Rightarrow> string" where
  "statementSummary stmt =
     (let one = Join '' '' (body_lines (map TrimSpace (Split (CHR 0x0A) stmt))) in
      if length one > 160 then take 160 one @ map char_of [0xE2, 0x80, 0xA6 :: nat] else one)"

subsection \<open>What was loaded\<close>

lemma load_entries_distinct:
  "load_entries sha es out downs = Inr (out', downs') \<Longrightarrow> distinct (map mg_Version out) \<Longrightarrow> distinct (map mg_Version out')"
  by (induction sha es out downs arbitrary: out' downs' rule: load_entries.induct)
    (auto simp: Let_def split: if_splits option.splits)

lemma sort_key_distinct: "distinct (map g xs) \<Longrightarrow> distinct (map g (sort_key k xs))"
  by (simp add: distinct_map)

lemma loadMigrations_ok:
  assumes "loadMigrations sha entries = Inr files"
  shows "distinct (map mg_Version files)" "files \<noteq> []" "sorted (map mg_Name files)"
proof -
  from assms obtain es out downs where load: "load_entries sha es [] [] = Inr (out, downs)" "out \<noteq> []"
    "files = sort_key mg_Name out"
    by (auto simp: loadMigrations_def and_then_def Let_def split: option.splits sum.splits if_splits)
  with load_entries_distinct [OF load(1)] show "distinct (map mg_Version files)" "files \<noteq> []" "sorted (map mg_Name files)"
    by (simp_all add: sort_key_distinct) (metis load(2) set_empty set_sort)
qed

subsection \<open>Transactions\<close>

text \<open>The statements of files one after another, without faults: what a migrated schema should be.\<close>

fun run_all :: "(string \<Rightarrow> 's \<Rightarrow> db_error + 's) \<Rightarrow> string list \<Rightarrow> 's \<Rightarrow> db_error + 's" where
  "run_all exec [] s = Inr s"
| "run_all exec (q # qs) s = and_then (exec q s) (run_all exec qs)"

definition statements :: "migration list \<Rightarrow> string list" where
  "statements fs = concat (map (splitStatements \<circ> mg_SQL) fs)"

lemma run_all_append: "run_all exec (xs @ ys) s = and_then (run_all exec xs s) (run_all exec ys)"
  by (induction xs arbitrary: s) (auto simp: and_then_def split: sum.splits)

lemma sc_in_None:
  assumes "sc_in st m = (None, m')"
  shows "\<exists>x fs. st (sc_db m, sc_rows m) = Inr x \<and> m' = sc_set (m\<lparr>sc_faults := fs\<rparr>) x"
  using assms by (auto simp: sc_in_def sc_next_def sc_set_def split: option.splits sum.splits prod.splits)

lemma sc_each_one: "sc_each how [st] m = how st m"
  by (auto split: prod.splits option.splits)

lemma sc_each_exec:
  assumes "sc_each sc_in (map (exec_stmt exec) qs @ sts) m = (None, m')"
  shows "\<exists>s fs. run_all exec qs (sc_db m) = Inr s \<and> sc_each sc_in sts (m\<lparr>sc_faults := fs, sc_db := s\<rparr>) = (None, m')"
  using assms
proof (induction qs arbitrary: m)
  case Nil
  then show ?case by (intro exI [of _ "sc_db m"] exI [of _ "sc_faults m"]) simp
next
  case (Cons q qs)
  then obtain m1 where one: "sc_in (exec_stmt exec q) m = (None, m1)"
    "sc_each sc_in (map (exec_stmt exec) qs @ sts) m1 = (None, m')"
    by (auto split: prod.splits option.splits)
  obtain s1 fs1 where s1: "exec q (sc_db m) = Inr s1" "m1 = m\<lparr>sc_faults := fs1, sc_db := s1\<rparr>"
    using sc_in_None [OF one(1)] by (cases "exec q (sc_db m)") (auto simp: exec_stmt_def sc_set_def)
  from Cons.IH [OF one(2)] s1 show ?case by (auto simp: and_then_def)
qed

text \<open>A file in a transaction leaves the schema and its record as they were, or applies both whole.\<close>

definition applied :: "(string \<Rightarrow> 's \<Rightarrow> db_error + 's) \<Rightarrow> migration list \<Rightarrow> 's schema_state \<Rightarrow> 's schema_state \<Rightarrow> bool" where
  "applied exec fs m m' \<longleftrightarrow>
     sc_rows m' = sc_rows m @ map (\<lambda>f. (mg_Version f, mg_Checksum f)) fs \<and>
     run_all exec (statements fs) (sc_db m) = Inr (sc_db m')"

lemma applied_Nil: "applied exec [] m m' \<longleftrightarrow> sc_rows m' = sc_rows m \<and> sc_db m' = sc_db m"
  by (auto simp: applied_def statements_def)

lemma applied_append: "applied exec xs m m1 \<Longrightarrow> applied exec ys m1 m2 \<Longrightarrow> applied exec (xs @ ys) m m2"
  by (simp add: applied_def statements_def run_all_append)

lemma apply_transaction:
  assumes "apply_migration exec f m = (r, m')" "\<not> mg_NoTransaction f"
  shows "r \<noteq> None \<and> applied exec [] m m' \<or> applied exec [f] m m'" "r = None \<Longrightarrow> applied exec [f] m m'"
proof -
  let ?qs = "splitStatements (mg_SQL f)"
  obtain q m1 where run: "sc_each sc_in (nothing # map (exec_stmt exec) ?qs @ [record_stmt f]) m = (q, m1)"
    by (cases "sc_each sc_in (nothing # map (exec_stmt exec) ?qs @ [record_stmt f]) m")
  have whole: "applied exec [f] m (m1\<lparr>sc_faults := fs\<rparr>)" if none: "q = None" for fs
  proof -
    obtain m0 where m0: "sc_in nothing m = (None, m0)"
      "sc_each sc_in (map (exec_stmt exec) ?qs @ [record_stmt f]) m0 = (None, m1)"
      using run none by (auto split: prod.splits option.splits)
    have same: "sc_db m0 = sc_db m" "sc_rows m0 = sc_rows m"
      using sc_in_None [OF m0(1)] by (auto simp: nothing_def sc_set_def)
    obtain s fs1 where s: "run_all exec ?qs (sc_db m0) = Inr s"
      "sc_in (record_stmt f) (m0\<lparr>sc_faults := fs1, sc_db := s\<rparr>) = (None, m1)"
      using sc_each_exec [OF m0(2)] unfolding sc_each_one by blast
    from sc_in_None [OF s(2)] have "sc_db m1 = s" "sc_rows m1 = sc_rows m0 @ [(mg_Version f, mg_Checksum f)]"
      by (auto simp: record_stmt_def sc_set_def split: if_splits)
    with s(1) same show ?thesis by (simp add: applied_def statements_def)
  qed
  have faults: "sc_next m1 = (x, m2) \<Longrightarrow> \<exists>fs. m2 = m1\<lparr>sc_faults := fs\<rparr>" for x m2
    by (auto simp: sc_next_def)
  have "(r \<noteq> None \<and> applied exec [] m m' \<or> applied exec [f] m m') \<and> (r = None \<longrightarrow> applied exec [f] m m')"
  proof (cases "?qs = []")
    case True
    with assms show ?thesis by (auto simp: apply_migration_def applied_Nil)
  next
    case False
    obtain x m2 where x: "sc_next m1 = (x, m2)" by (cases "sc_next m1")
    from faults [OF x] obtain fs where fs: "m2 = m1\<lparr>sc_faults := fs\<rparr>" by blast
    show ?thesis
      using assms False run x whole [of fs] fs
      by (cases q; cases x) (auto simp: apply_migration_def applied_Nil split: fault.splits)
  qed
  then show "r \<noteq> None \<and> applied exec [] m m' \<or> applied exec [f] m m'" "r = None \<Longrightarrow> applied exec [f] m m'"
    by blast+
qed

text \<open>A file outside a transaction may stop half way: some first statements took effect, nothing is recorded.\<close>

lemma sc_auto_cases:
  assumes "sc_auto st m = (r, m')"
  shows "(\<exists>x fs. st (sc_db m, sc_rows m) = Inr x \<and> m' = sc_set (m\<lparr>sc_faults := fs\<rparr>) x) \<or>
    r \<noteq> None \<and> sc_db m' = sc_db m \<and> sc_rows m' = sc_rows m"
  using assms
  by (cases "st (sc_db m, sc_rows m)"; cases "sc_faults m")
    (auto simp: sc_auto_def sc_next_def sc_set_def split: option.splits fault.splits)

lemma auto_statements:
  assumes "sc_each sc_auto (map (exec_stmt exec) qs @ [record_stmt f]) m = (r, m')"
  shows "(\<exists>k. r \<noteq> None \<and> sc_rows m' = sc_rows m \<and> run_all exec (take k qs) (sc_db m) = Inr (sc_db m')) \<or>
    sc_rows m' = sc_rows m @ [(mg_Version f, mg_Checksum f)] \<and> run_all exec qs (sc_db m) = Inr (sc_db m')"
  using assms
proof (induction qs arbitrary: m)
  case Nil
  then have run: "sc_auto (record_stmt f) m = (r, m')" by (auto split: prod.splits option.splits)
  from sc_auto_cases [OF run] show ?case
    by (auto simp: record_stmt_def sc_set_def split: if_splits)
next
  case (Cons q qs)
  obtain r1 m1 where one: "sc_auto (exec_stmt exec q) m = (r1, m1)" by (cases "sc_auto (exec_stmt exec q) m")
  have step: "(\<exists>s. exec q (sc_db m) = Inr s \<and> sc_db m1 = s \<and> sc_rows m1 = sc_rows m) \<or>
      r1 \<noteq> None \<and> sc_db m1 = sc_db m \<and> sc_rows m1 = sc_rows m"
    using sc_auto_cases [OF one] by (cases "exec q (sc_db m)") (auto simp: exec_stmt_def sc_set_def)
  show ?case
  proof (cases r1)
    case (Some x)
    then have "r = Some x" "m' = m1" using Cons.prems one by simp_all
    with step show ?thesis
      by (auto simp: and_then_def intro: exI [of _ "0 :: nat"] exI [of _ "Suc 0"])
  next
    case None
    then have "sc_each sc_auto (map (exec_stmt exec) qs @ [record_stmt f]) m1 = (r, m')"
      using Cons.prems one by simp
    from Cons.IH [OF this] step None show ?thesis
      by (auto simp: and_then_def intro: exI [of _ "Suc _"])
  qed
qed

lemma apply_no_transaction:
  assumes "apply_migration exec f m = (r, m')" "mg_NoTransaction f"
  shows "(\<exists>k. r \<noteq> None \<and> sc_rows m' = sc_rows m \<and>
      run_all exec (take k (splitStatements (mg_SQL f))) (sc_db m) = Inr (sc_db m')) \<or> applied exec [f] m m'"
proof (cases "splitStatements (mg_SQL f) = []")
  case True
  with assms show ?thesis by (auto simp: apply_migration_def)
next
  case False
  then obtain e where "sc_each sc_auto (map (exec_stmt exec) (splitStatements (mg_SQL f)) @ [record_stmt f]) m = (e, m')"
    "r = map_option Driver e"
    using assms by (auto simp: apply_migration_def map_prod_def split: prod.splits)
  with auto_statements [OF this(1)] show ?thesis by (auto simp: applied_def statements_def)
qed

subsection \<open>A run\<close>

definition pending :: "(string \<times> string) list \<Rightarrow> migration list \<Rightarrow> migration list" where
  "pending rows fs = filter (\<lambda>f. map_of rows (mg_Version f) = None) fs"

definition unedited :: "(string \<times> string) list \<Rightarrow> migration list \<Rightarrow> bool" where
  "unedited rows fs \<longleftrightarrow> (\<forall>f \<in> set fs. \<forall>c. map_of rows (mg_Version f) = Some c \<longrightarrow> c = mg_Checksum f)"

text \<open>The recorded files whole, then what a file without a transaction left half done.\<close>

definition left_half_done :: "(string \<Rightarrow> 's \<Rightarrow> db_error + 's) \<Rightarrow> migration list \<Rightarrow> string list \<Rightarrow> 's schema_state \<Rightarrow> 's schema_state \<Rightarrow> bool" where
  "left_half_done exec ds rest m m' \<longleftrightarrow>
     sc_rows m' = sc_rows m @ map (\<lambda>f. (mg_Version f, mg_Checksum f)) ds \<and>
     run_all exec (statements ds @ rest) (sc_db m) = Inr (sc_db m')"

lemma left_nothing: "left_half_done exec ds [] m m' = applied exec ds m m'"
  by (simp add: left_half_done_def applied_def)

lemma left_append: "applied exec xs m m1 \<Longrightarrow> left_half_done exec ys rest m1 m2 \<Longrightarrow> left_half_done exec (xs @ ys) rest m m2"
  by (simp add: applied_def left_half_done_def statements_def run_all_append)

lemma apply_cases:
  assumes "apply_migration exec f m = (r, m')"
  obtains "applied exec [f] m m'"
  | rest where "r \<noteq> None" "left_half_done exec [] rest m m'" "rest \<noteq> [] \<longrightarrow> mg_NoTransaction f"
      "prefix rest (splitStatements (mg_SQL f))"
proof (cases "mg_NoTransaction f")
  case True
  from apply_no_transaction [OF assms True] show ?thesis
    using that(1) that(2) [of "take k (splitStatements (mg_SQL f))" for k] True
    by (auto simp: left_half_done_def statements_def take_is_prefix)
next
  case False
  from apply_transaction(1) [OF assms False] show ?thesis
    using that(1) that(2) [of "[]"] by (auto simp: left_nothing)
qed

lemma migrate_files_applied:
  assumes "migrate_files exec rows fs vs m = ((vs', e), m')"
  shows "\<exists>ds rest. prefix ds (pending rows fs) \<and> left_half_done exec ds rest m m' \<and>
    prefix vs' (vs @ map mg_Version ds) \<and> length vs + length ds \<le> length vs' + 1 \<and>
    (rest \<noteq> [] \<longrightarrow> e \<noteq> None \<and> (\<exists>f. prefix (ds @ [f]) (pending rows fs) \<and> mg_NoTransaction f \<and>
       prefix rest (splitStatements (mg_SQL f)))) \<and>
    (e = None \<longrightarrow> ds = pending rows fs \<and> vs' = vs @ map mg_Version ds \<and> unedited rows fs)"
  using assms
proof (induction fs arbitrary: vs m)
  case Nil
  then show ?case
    by (intro exI [of _ "[]"]) (auto simp: pending_def left_nothing applied_Nil unedited_def)
next
  case (Cons f fs)
  show ?case
  proof (cases "map_of rows (mg_Version f)")
    case (Some c)
    show ?thesis
    proof (cases "c = mg_Checksum f")
      case True
      with Cons Some show ?thesis by (simp add: pending_def unedited_def)
    next
      case False
      with Cons.prems Some show ?thesis
        by (intro exI [of _ "[]"]) (auto simp: left_nothing applied_Nil)
    qed
  next
    case None
    then have pend: "pending rows (f # fs) = f # pending rows fs" by (simp add: pending_def)
    obtain r m1 where ap: "apply_migration exec f m = (r, m1)" by (cases "apply_migration exec f m")
    show ?thesis
    proof (cases r)
      case (Some x)
      then have out: "m' = m1" "vs' = vs" "e = Some x" using Cons.prems None ap by simp_all
      from ap show ?thesis
      proof (cases rule: apply_cases)
        case 1
        with out show ?thesis
          unfolding pend by (intro exI [of _ "[f]"] exI [of _ "[]"]) (auto simp: left_nothing)
      next
        case (2 rest)
        with out show ?thesis
          unfolding pend by (intro exI [of _ "[]"] exI [of _ rest]) auto
      qed
    next
      case none: None
      then have rest: "migrate_files exec rows fs (vs @ [mg_Version f]) m1 = ((vs', e), m')"
        using Cons.prems None ap by simp
      from Cons.IH [OF this] obtain ds rest where ds: "prefix ds (pending rows fs)" "left_half_done exec ds rest m1 m'"
        "prefix vs' ((vs @ [mg_Version f]) @ map mg_Version ds)" "length (vs @ [mg_Version f]) + length ds \<le> length vs' + 1"
        "rest \<noteq> [] \<longrightarrow> e \<noteq> None \<and> (\<exists>f. prefix (ds @ [f]) (pending rows fs) \<and> mg_NoTransaction f \<and>
           prefix rest (splitStatements (mg_SQL f)))"
        "e = None \<longrightarrow> ds = pending rows fs \<and> vs' = (vs @ [mg_Version f]) @ map mg_Version ds \<and> unedited rows fs"
        by auto
      have "applied exec [f] m m1" using ap none by (cases rule: apply_cases) auto
      from left_append [OF this ds(2)] ds None show ?thesis
        unfolding pend by (intro exI [of _ "f # ds"] exI [of _ rest]) (auto simp: unedited_def)
    qed
  qed
qed

lemma sc_each_nothing:
  "sc_each sc_in (replicate n nothing) m = (r, m') \<Longrightarrow> \<exists>fs. m' = m\<lparr>sc_faults := fs\<rparr>"
proof (induction n arbitrary: m)
  case 0
  then have "m' = m\<lparr>sc_faults := sc_faults m\<rparr>" by simp
  then show ?case by blast
next
  case (Suc n)
  obtain x m1 where one: "sc_in nothing m = (x, m1)" by (cases "sc_in nothing m")
  then obtain fs where "m1 = m\<lparr>sc_faults := fs\<rparr>"
    by (auto simp: sc_in_def nothing_def sc_next_def sc_set_def split: option.splits list.splits)
  with Suc one show ?case by (cases x) (auto, fastforce)
qed

lemma migrate_files_idle:
  assumes "pending rows fs = []" "unedited rows fs"
  shows "migrate_files exec rows fs vs m = ((vs, None), m)"
  using assms by (induction fs) (auto simp: pending_def unedited_def split: option.splits if_splits)

lemma applied_pending:
  assumes "distinct (map mg_Version files)" "applied exec (pending rows files) m m'" "unedited rows files" "rows = sc_rows m"
  shows "pending (sc_rows m') files = []" "unedited (sc_rows m') files"
proof -
  let ?new = "map (\<lambda>f. (mg_Version f, mg_Checksum f)) (pending rows files)"
  have rows: "sc_rows m' = rows @ ?new" using assms(2,4) by (simp add: applied_def)
  have new: "map_of ?new (mg_Version f) = Some (mg_Checksum f)"
    if "f \<in> set files" "map_of rows (mg_Version f) = None" for f
  proof (rule map_of_is_SomeI)
    show "distinct (map fst ?new)" using assms(1) by (simp add: pending_def comp_def distinct_map_filter)
    show "(mg_Version f, mg_Checksum f) \<in> set ?new" using that by (simp add: pending_def)
  qed
  have all: "map_of (sc_rows m') (mg_Version f) = Some (mg_Checksum f)" if "f \<in> set files" for f
  proof (cases "map_of rows (mg_Version f)")
    case None
    with new [OF that] show ?thesis by (simp add: rows map_add_def)
  next
    case (Some c)
    then have "c = mg_Checksum f" using assms(3) that by (simp add: unedited_def)
    with Some show ?thesis by (simp add: rows map_add_def)
  qed
  show "pending (sc_rows m') files = []" by (simp add: pending_def all filter_empty_conv)
  show "unedited (sc_rows m') files" by (simp add: unedited_def all)
qed

lemma RunMigrations_cases:
  assumes "RunMigrations sha exec schema entries m = ((vs, e), m')" "loadMigrations sha entries = Inr files"
  obtains fs where "m' = m\<lparr>sc_faults := fs\<rparr>" "vs = []" "e \<noteq> None"
  | fs where "migrate_files exec (sc_rows m) files [] (m\<lparr>sc_faults := fs\<rparr>) = ((vs, e), m')"
      "schemaOK (if schema = [] then ''public'' else schema)"
proof (cases "schemaOK (if schema = [] then ''public'' else schema)")
  case False
  with assms that(1) [of "sc_faults m"] show ?thesis by (auto simp: RunMigrations_def)
next
  case True
  obtain x m1 where run: "sc_each sc_in (replicate 6 nothing) m = (x, m1)"
    by (cases "sc_each sc_in (replicate 6 nothing) m")
  obtain fs where fs: "m1 = m\<lparr>sc_faults := fs\<rparr>" using sc_each_nothing [OF run] by blast
  show ?thesis
  proof (cases x)
    case None
    with assms True run fs that(2) [of fs] show ?thesis by (simp add: RunMigrations_def)
  next
    case (Some d)
    with assms True run fs that(1) [of fs] show ?thesis by (auto simp: RunMigrations_def)
  qed
qed

text \<open>C24: What a migration run leaves, whatever fails and whenever. Some first files of the pending ones
  were applied whole, in the order of their names, and exactly these are recorded with their
  checksums. Of the other files not one statement remains, except where the file that failed had
  opted out of its transaction: then the schema also holds some first statements of that one file,
  unrecorded, as the code warns. The versions answered are the files recorded, or all but the last
  of them when the acknowledgement of its record was lost. A run without an error has applied
  everything pending and found every recorded checksum unchanged; running again then does nothing
  and succeeds.\<close>

theorem migrations_are_all_or_nothing:
  assumes "loadMigrations sha entries = Inr files"
    and "RunMigrations sha exec schema entries m = ((vs, e), m')"
  shows "\<exists>ds rest. prefix ds (pending (sc_rows m) files) \<and> sorted (map mg_Name ds) \<and>
    sc_rows m' = sc_rows m @ map (\<lambda>f. (mg_Version f, mg_Checksum f)) ds \<and>
    run_all exec (statements ds @ rest) (sc_db m) = Inr (sc_db m') \<and>
    (rest \<noteq> [] \<longrightarrow> e \<noteq> None \<and> (\<exists>f. prefix (ds @ [f]) (pending (sc_rows m) files) \<and> mg_NoTransaction f \<and>
       prefix rest (splitStatements (mg_SQL f)))) \<and>
    prefix vs (map mg_Version ds) \<and> length ds \<le> length vs + 1 \<and>
    (e = None \<longrightarrow> ds = pending (sc_rows m) files \<and> vs = map mg_Version ds \<and> unedited (sc_rows m) files \<and>
       RunMigrations sha exec schema entries (m'\<lparr>sc_faults := []\<rparr>) = (([], None), m'\<lparr>sc_faults := []\<rparr>))"
  using assms(2,1)
proof (rule RunMigrations_cases)
  fix fs
  assume "m' = m\<lparr>sc_faults := fs\<rparr>" "vs = []" "e \<noteq> None"
  then show ?thesis by (intro exI [of _ "[]"]) (auto simp: statements_def)
next
  fix fs
  assume run: "migrate_files exec (sc_rows m) files [] (m\<lparr>sc_faults := fs\<rparr>) = ((vs, e), m')"
    and name: "schemaOK (if schema = [] then ''public'' else schema)"
  note loaded = loadMigrations_ok [OF assms(1)]
  obtain ds rest where ds: "prefix ds (pending (sc_rows m) files)" "left_half_done exec ds rest (m\<lparr>sc_faults := fs\<rparr>) m'"
    "prefix vs ([] @ map mg_Version ds)" "length ([] :: string list) + length ds \<le> length vs + 1"
    "rest \<noteq> [] \<longrightarrow> e \<noteq> None \<and> (\<exists>f. prefix (ds @ [f]) (pending (sc_rows m) files) \<and> mg_NoTransaction f \<and>
       prefix rest (splitStatements (mg_SQL f)))"
    "e = None \<longrightarrow> ds = pending (sc_rows m) files \<and> vs = [] @ map mg_Version ds \<and> unedited (sc_rows m) files"
    using migrate_files_applied [OF run] by blast
  have "sorted (map mg_Name (pending (sc_rows m) files))"
    using loaded(3) by (simp add: pending_def sorted_filter)
  then have order: "sorted (map mg_Name ds)" using ds(1) by (auto simp: prefix_def sorted_append)
  have again: "RunMigrations sha exec schema entries (m'\<lparr>sc_faults := []\<rparr>) = (([], None), m'\<lparr>sc_faults := []\<rparr>)"
    if "e = None"
  proof -
    have all: "ds = pending (sc_rows m) files" and good: "unedited (sc_rows m) files" using ds(6) that by blast+
    have "applied exec (pending (sc_rows m) files) (m\<lparr>sc_faults := fs\<rparr>) m'"
      using ds(2,5) that all left_nothing by metis
    then have "pending (sc_rows m') files = []" "unedited (sc_rows m') files"
      by (rule applied_pending [OF loaded(1) _ good]; simp)+
    then have "migrate_files exec (sc_rows m') files [] (m'\<lparr>sc_faults := []\<rparr>) = (([], None), m'\<lparr>sc_faults := []\<rparr>)"
      by (rule migrate_files_idle)
    moreover have "sc_each sc_in (replicate n nothing) (m'\<lparr>sc_faults := []\<rparr>) = (None, m'\<lparr>sc_faults := []\<rparr>)" for n
      by (induction n) (simp_all add: sc_in_def sc_next_def nothing_def sc_set_def)
    ultimately show ?thesis using name assms(1) by (simp add: RunMigrations_def)
  qed
  show ?thesis
    using ds order again by (intro exI [of _ ds] exI [of _ rest]) (auto simp: left_half_done_def)
qed

definition sample_dir :: "dir_entry list" where
  "sample_dir = map (\<lambda>(n, b). \<lparr>de_FileName = n, de_IsDir = False, de_Body = Some b\<rparr>)
     [(''0002_b.up.sql'', ''C;B;D''), (''0002_b.down.sql'', []), (''0001_a.up.sql'', ''A;''), (''0001_a.down.sql'', [])]"

text \<open>A server that keeps the statements it ran and refuses one of them.\<close>

definition sample_exec :: "string \<Rightarrow> string list \<Rightarrow> db_error + string list" where
  "sample_exec q s = (if q = ''B'' then Inl OtherDriver else Inr (s @ [q]))"

definition sample_files :: "migration list" where
  "sample_files = projr (loadMigrations id (Some sample_dir))"

theorem migrations_are_all_or_nothing_witness:
  "\<exists>m'. RunMigrations id sample_exec [] (Some sample_dir) \<lparr>sc_db = [], sc_rows = [], sc_faults = []\<rparr> =
       (([''0001''], Some (Driver OtherDriver)), m') \<and>
     (\<exists>ds rest. prefix ds (pending [] sample_files) \<and> sc_rows m' = map (\<lambda>f. (mg_Version f, mg_Checksum f)) ds \<and>
        run_all sample_exec (statements ds @ rest) [] = Inr (sc_db m')) \<and>
     sc_db m' = [''A''] \<and> sc_rows m' = [(''0001'', ''A;'')]"
proof -
  let ?m = "\<lparr>sc_db = [], sc_rows = [], sc_faults = []\<rparr> :: string list schema_state"
  let ?run = "RunMigrations id sample_exec [] (Some sample_dir) ?m"
  have "\<not> isl (loadMigrations id (Some sample_dir))" by code_simp
  then have load: "loadMigrations id (Some sample_dir) = Inr sample_files" by (simp add: sample_files_def)
  have facts: "fst ?run = ([''0001''], Some (Driver OtherDriver))" "sc_db (snd ?run) = [''A'']"
    "sc_rows (snd ?run) = [(''0001'', ''A;'')]"
    by code_simp+
  obtain m' where run: "?run = (([''0001''], Some (Driver OtherDriver)), m')"
    using facts(1) by (metis prod.collapse)
  from migrations_are_all_or_nothing [OF load run] run facts(2,3) show ?thesis by auto
qed

end
