(* ===== verification/Sql_Tokens.thy ===== *)
theory Sql_Tokens
  imports Sql_Split
begin

section \<open>The scripts the splitter is for\<close>

text \<open>
  PostgreSQL's lexical grammar, as far as semicolons can hide in it, written down independently of
  the splitter: a script is a list of statements, a statement a list of tokens, and each token has a
  spelling. The theorem says that the splitter finds the statements back from the spelling of the
  script. Each lemma takes one token off the front and hands back what follows. A plain token holds
  no dollar sign, so identifiers with one inside are left out.
\<close>

subsection \<open>Tokens and their spelling\<close>

datatype comment = Text string | Nested "comment list"

datatype letter = Char char | Escaped char

datatype token =
    Plain string                        \<comment> \<open>words, numbers, operators, white space\<close>
  | Param string                        \<comment> \<open>\<open>$1\<close>\<close>
  | Quote string                        \<comment> \<open>\<open>'...'\<close>\<close>
  | EString char "letter list"          \<comment> \<open>\<open>E'...'\<close>\<close>
  | QuotedIdent string                  \<comment> \<open>a quoted name\<close>
  | Dollar string string                \<comment> \<open>\<open>$tag$...$tag$\<close>\<close>
  | LineComment string
  | BlockComment "comment list"

fun doubled :: "char \<Rightarrow> string \<Rightarrow> string" where
  "doubled q [] = []"
| "doubled q (c # s) = (if c = q then q # q # doubled q s else c # doubled q s)"

fun spell_letter :: "letter \<Rightarrow> string" where
  "spell_letter (Char c) = doubled (CHR 0x27) [c]"
| "spell_letter (Escaped c) = [CHR 0x5C, c]"

fun spell_comment :: "comment \<Rightarrow> string" where
  "spell_comment (Text s) = s"
| "spell_comment (Nested cs) = ''/*'' @ concat (map spell_comment cs) @ ''*/''"

definition tag_of :: "string \<Rightarrow> string" where
  "tag_of name = ''$'' @ name @ ''$''"

fun spell :: "token \<Rightarrow> string" where
  "spell (Plain s) = s"
| "spell (Param s) = CHR ''$'' # s"
| "spell (Quote s) = [CHR 0x27] @ doubled (CHR 0x27) s @ [CHR 0x27]"
| "spell (EString e ls) = [e, CHR 0x27] @ concat (map spell_letter ls) @ [CHR 0x27]"
| "spell (QuotedIdent s) = [CHR 0x22] @ doubled (CHR 0x22) s @ [CHR 0x22]"
| "spell (Dollar name body) = tag_of name @ body @ tag_of name"
| "spell (LineComment s) = ''--'' @ s @ [CHR 0x0A]"
| "spell (BlockComment cs) = spell_comment (Nested cs)"

definition spelled :: "token list \<Rightarrow> string" where
  "spelled ts = concat (map spell ts)"

subsection \<open>Which tokens are well formed, and where\<close>

text \<open>Two bytes next to each other.\<close>

fun occurs2 :: "char \<Rightarrow> char \<Rightarrow> string \<Rightarrow> bool" where
  "occurs2 a b (c # d # s) \<longleftrightarrow> c = a \<and> d = b \<or> occurs2 a b (d # s)"
| "occurs2 a b s \<longleftrightarrow> False"

definition ends_with :: "string \<Rightarrow> char set \<Rightarrow> bool" where
  "ends_with s cs \<longleftrightarrow> s \<noteq> [] \<and> last s \<in> cs"

fun comment_ok :: "comment \<Rightarrow> bool" where
  "comment_ok (Text s) \<longleftrightarrow> \<not> occurs2 (CHR ''/'') (CHR ''*'') s \<and> \<not> occurs2 (CHR ''*'') (CHR ''/'') s \<and>
     \<not> ends_with s {CHR ''/'', CHR ''*''}"
| "comment_ok (Nested cs) \<longleftrightarrow> list_all comment_ok cs"

fun letter_ok :: "letter \<Rightarrow> bool" where
  "letter_ok (Char c) \<longleftrightarrow> c \<noteq> CHR 0x5C"
| "letter_ok (Escaped c) \<longleftrightarrow> True"

definition digit_byte :: "char \<Rightarrow> bool" where
  "digit_byte c \<longleftrightarrow> in_range (CHR ''0'') (CHR ''9'') c"

text \<open>The closing tag must be the first occurrence of the tag in what follows the opening one.\<close>

definition tag_free :: "string \<Rightarrow> string \<Rightarrow> bool" where
  "tag_free tag body \<longleftrightarrow> (\<forall>i < length body. take (length tag) (drop i (body @ tag)) \<noteq> tag)"

fun token_ok :: "token \<Rightarrow> bool" where
  "token_ok (Plain s) \<longleftrightarrow> list_all (\<lambda>c. c \<notin> {CHR '';'', CHR ''$'', CHR 0x27, CHR 0x22}) s \<and>
     \<not> occurs2 (CHR ''-'') (CHR ''-'') s \<and> \<not> occurs2 (CHR ''/'') (CHR ''*'') s \<and>
     \<not> ends_with s {CHR ''-'', CHR ''/''}"
| "token_ok (Param s) \<longleftrightarrow> s \<noteq> [] \<and> list_all digit_byte s"
| "token_ok (Quote s) \<longleftrightarrow> True"
| "token_ok (EString e ls) \<longleftrightarrow> e \<in> {CHR ''E'', CHR ''e''} \<and> list_all letter_ok ls"
| "token_ok (QuotedIdent s) \<longleftrightarrow> True"
| "token_ok (Dollar name body) \<longleftrightarrow> list_all isIdentByte name \<and> (name \<noteq> [] \<longrightarrow> \<not> digit_byte (hd name)) \<and>
     tag_free (tag_of name) body"
| "token_ok (LineComment s) \<longleftrightarrow> CHR 0x0A \<notin> set s"
| "token_ok (BlockComment cs) \<longleftrightarrow> list_all comment_ok cs"

text \<open>A letter E of its own makes the text after it an escape string.\<close>

definition lone_E :: "string \<Rightarrow> bool" where
  "lone_E before \<longleftrightarrow> ends_with before {CHR ''E'', CHR ''e''} \<and>
     (butlast before = [] \<or> \<not> isIdentByte (last (butlast before)))"

fun may_follow :: "string \<Rightarrow> token \<Rightarrow> bool" where
  "may_follow before (Quote s) \<longleftrightarrow> \<not> lone_E before"
| "may_follow before (EString e ls) \<longleftrightarrow> before = [] \<or> \<not> isIdentByte (last before)"
| "may_follow before t \<longleftrightarrow> True"

text \<open>A quote right after a text would belong to it.\<close>

fun may_precede :: "token \<Rightarrow> string \<Rightarrow> bool" where
  "may_precede (Quote s) after \<longleftrightarrow> \<not> prefix [CHR 0x27] after"
| "may_precede (EString e ls) after \<longleftrightarrow> \<not> prefix [CHR 0x27] after"
| "may_precede (QuotedIdent s) after \<longleftrightarrow> \<not> prefix [CHR 0x22] after"
| "may_precede t after \<longleftrightarrow> True"

fun statement_ok :: "string \<Rightarrow> token list \<Rightarrow> bool" where
  "statement_ok before [] \<longleftrightarrow> True"
| "statement_ok before (t # ts) \<longleftrightarrow> token_ok t \<and> may_follow before t \<and> may_precede t (spelled ts) \<and>
     statement_ok (before @ spell t) ts"

text \<open>Comments and white space alone are no statement.\<close>

fun is_code :: "token \<Rightarrow> bool" where
  "is_code (Plain s) \<longleftrightarrow> (\<exists>c \<in> set s. c \<notin> {CHR '' '', CHR 0x09, CHR 0x0A, CHR 0x0D})"
| "is_code (LineComment s) \<longleftrightarrow> False"
| "is_code (BlockComment cs) \<longleftrightarrow> False"
| "is_code t \<longleftrightarrow> True"

subsection \<open>One token at a time\<close>

lemma pieces_step:
  "c \<noteq> CHR '';'' \<Longrightarrow> lexeme cur (c # s) = (code, a, b) \<Longrightarrow> pieces cur h (c # s) = pieces (cur @ a) (h \<or> code) b"
  by simp

lemma plain_step:
  assumes "c \<notin> {CHR '';'', CHR ''$'', CHR 0x27, CHR 0x22}"
    and "c = CHR ''-'' \<Longrightarrow> \<not> prefix ''-'' s" "c = CHR ''/'' \<Longrightarrow> \<not> prefix ''*'' s"
  shows "pieces cur h (c # s) =
    pieces (cur @ [c]) (h \<or> c \<notin> {CHR '' '', CHR 0x09, CHR 0x0A, CHR 0x0D}) s"
  using assms by (intro pieces_step) (auto simp: lexeme_def)

lemma plain_taken:
  "token_ok (Plain s) \<Longrightarrow> pieces cur h (s @ m) = pieces (cur @ s) (h \<or> is_code (Plain s)) m"
proof (induction s arbitrary: cur h)
  case (Cons c s)
  have "c = CHR ''-'' \<Longrightarrow> \<not> prefix ''-'' (s @ m)" "c = CHR ''/'' \<Longrightarrow> \<not> prefix ''*'' (s @ m)"
    using Cons.prems by (cases s; auto simp: ends_with_def)+
  then have "pieces cur h (c # (s @ m)) =
      pieces (cur @ [c]) (h \<or> c \<notin> {CHR '' '', CHR 0x09, CHR 0x0A, CHR 0x0D}) (s @ m)"
    using Cons.prems by (intro plain_step) simp_all
  moreover have "token_ok (Plain s)"
    using Cons.prems by (cases s) (auto simp: ends_with_def)
  ultimately show ?case
    by (simp add: Cons.IH disj_assoc del: token_ok.simps pieces.simps)
qed simp

lemma digits_plain: "list_all digit_byte s \<Longrightarrow> token_ok (Plain s)"
proof (induction s)
  case (Cons c s)
  then show ?case
    by (cases s) (auto simp: digit_byte_def in_range_def ends_with_def)
qed (simp add: ends_with_def)

lemma doubled_taken:
  "\<not> prefix [q] m \<Longrightarrow> quoted q False (doubled q s @ q # m) = (doubled q s @ [q], m)"
proof (induction s)
  case Nil
  then show ?case by (cases m) auto
next
  case (Cons c s)
  obtain x xs where "doubled q s @ q # m = x # xs" by (cases "doubled q s @ q # m") auto
  with Cons show ?case by auto
qed

lemma letters_taken:
  "\<not> prefix [CHR 0x27] m \<Longrightarrow> list_all letter_ok ls \<Longrightarrow>
   quoted (CHR 0x27) True (concat (map spell_letter ls) @ CHR 0x27 # m) =
     (concat (map spell_letter ls) @ [CHR 0x27], m)"
proof (induction ls)
  case Nil
  then show ?case by (cases m) auto
next
  case (Cons l ls)
  obtain x xs where "concat (map spell_letter ls) @ CHR 0x27 # m = x # xs"
    by (cases "concat (map spell_letter ls) @ CHR 0x27 # m") auto
  with Cons show ?case by (cases l) auto
qed

definition before_all :: "string \<Rightarrow> string \<times> string \<Rightarrow> string \<times> string" where
  "before_all x r = (x @ fst r, snd r)"

lemma text_taken:
  "comment_ok (Text s) \<Longrightarrow> 0 < d \<Longrightarrow> block d (s @ m) = before_all s (block d m)"
proof (induction s)
  case (Cons c s)
  have ok: "comment_ok (Text s)" using Cons.prems by (cases s) (auto simp: ends_with_def)
  show ?case
  proof (cases "s @ m")
    case Nil
    with Cons.prems show ?thesis by (simp add: before_all_def)
  next
    case (Cons x xs)
    have "\<not> (c = CHR ''/'' \<and> x = CHR ''*'')" "\<not> (c = CHR ''*'' \<and> x = CHR ''/'')"
      using Cons.prems Cons by (cases s; auto simp: ends_with_def)+
    then show ?thesis
      using Cons Cons.IH [OF ok Cons.prems(2)] Cons.prems(2) by (auto simp: before_all_def split: prod.splits)
  qed
qed (simp add: before_all_def)

lemma before_all_append: "before_all (x @ y) r = before_all x (before_all y r)"
  by (simp add: before_all_def)

lemma opens: "0 < d \<Longrightarrow> block d (''/*'' @ m) = before_all ''/*'' (block (Suc d) m)"
  by (simp add: before_all_def split: prod.splits)

lemma closes: "block (Suc d) (''*/'' @ m) = before_all ''*/'' (block d m)"
  by (simp add: before_all_def split: prod.splits)

lemma comment_taken:
  "comment_ok c \<Longrightarrow> 0 < d \<Longrightarrow> block d (spell_comment c @ m) = before_all (spell_comment c) (block d m)"
proof (induction c arbitrary: d m rule: spell_comment.induct)
  case (1 s)
  then show ?case using text_taken by simp
next
  case (2 cs)
  have list: "block d' (concat (map spell_comment xs) @ m') = before_all (concat (map spell_comment xs)) (block d' m')"
    if "set xs \<subseteq> set cs" "0 < d'" for xs d' m'
    using that
  proof (induction xs)
    case (Cons x xs)
    then have "comment_ok x" using 2(2) by (auto simp: list_all_iff)
    with Cons 2(1) [of x d'] show ?case by (simp add: before_all_append)
  qed (simp add: before_all_def)
  have "block d (spell_comment (Nested cs) @ m) =
      before_all ''/*'' (block (Suc d) (concat (map spell_comment cs) @ ''*/'' @ m))"
    using opens [OF 2(3)] by simp
  also have "\<dots> = before_all ''/*'' (before_all (concat (map spell_comment cs)) (before_all ''*/'' (block d m)))"
    using list [of cs "Suc d"] closes by simp
  finally show ?case by (simp add: before_all_append [symmetric] del: append.simps)
qed

lemma comments_taken:
  "list_all comment_ok cs \<Longrightarrow>
   block 1 (concat (map spell_comment cs) @ ''*/'' @ m) = (concat (map spell_comment cs) @ ''*/'', m)"
proof (induction cs)
  case Nil
  have "block 0 m = ([], m)" by (cases m; cases "tl m") auto
  then show ?case using closes [of 0 m] by (simp add: before_all_def)
next
  case (Cons c cs)
  then show ?case using comment_taken [of c 1] by (simp add: before_all_def)
qed

lemma tag_opens:
  assumes "list_all isIdentByte name" "name \<noteq> [] \<longrightarrow> \<not> digit_byte (hd name)"
  shows "dollarTag (name @ CHR ''$'' # m) = Some (tag_of name)"
proof -
  have "\<not> isIdentByte (CHR ''$'')" by (simp add: isIdentByte_def in_range_def)
  with assms show ?thesis
    by (auto simp: dollarTag_def Let_def tag_of_def digit_byte_def list_all_iff takeWhile_append2
        dropWhile_append2)
qed

lemma body_taken:
  "tag_free tag body \<Longrightarrow> tag \<noteq> [] \<Longrightarrow> through tag (body @ tag @ m) = (body @ tag, m)"
proof (induction body)
  case Nil
  then show ?case by (cases tag) auto
next
  case (Cons c body)
  have "take (length tag) (drop i (body @ tag)) \<noteq> tag" if "i < length body" for i
    using Cons.prems(1) that unfolding tag_free_def by (metis Suc_less_eq append_Cons drop_Suc_Cons length_Cons)
  then have "tag_free tag body" by (simp add: tag_free_def)
  moreover have "take (length tag) ((c # body) @ tag) \<noteq> tag"
    using Cons.prems(1) unfolding tag_free_def by fastforce
  then have "\<not> prefix tag (c # body @ tag @ m)"
  proof (rule contrapos_nn)
    assume "prefix tag (c # body @ tag @ m)"
    then obtain r where "((c # body) @ tag) @ m = tag @ r" by (auto simp: prefix_def)
    then have "take (length tag) (((c # body) @ tag) @ m) = tag" by simp
    then show "take (length tag) ((c # body) @ tag) = tag"
      using take_append [of "length tag" "(c # body) @ tag" m] by simp
  qed
  ultimately show ?case using Cons by simp
qed

lemma digits_no_tag:
  assumes "s \<noteq> []" "list_all digit_byte s"
  shows "dollarTag (s @ m) = None"
proof -
  obtain c r where s: "s = c # r" using assms(1) by (cases s) auto
  then have "isIdentByte c" "in_range (CHR ''0'') (CHR ''9'') c"
    using assms(2) by (auto simp: digit_byte_def isIdentByte_def)
  then show ?thesis by (auto simp: s dollarTag_def Let_def split: list.splits)
qed

lemma escape_string_lone: "escape_string cur = lone_E cur"
proof (cases cur rule: rev_cases)
  case (snoc p e)
  then show ?thesis
    by (cases p rule: rev_cases) (auto simp: escape_string_def lone_E_def ends_with_def butlast_append)
qed (simp add: escape_string_def lone_E_def ends_with_def)

lemma token_taken:
  assumes "token_ok t" "may_follow cur t" "may_precede t m"
  shows "pieces cur h (spell t @ m) = pieces (cur @ spell t) (h \<or> is_code t) m"
proof (cases t)
  case (Plain s)
  then show ?thesis using plain_taken assms(1) by simp
next
  case (Param s)
  then have s: "s \<noteq> []" "list_all digit_byte s" using assms(1) by simp_all
  have "pieces cur h (CHR ''$'' # s @ m) = pieces (cur @ ''$'') (h \<or> True) (s @ m)"
    using digits_no_tag [OF s] by (intro pieces_step) (simp_all add: lexeme_def)
  then show ?thesis using plain_taken [OF digits_plain [OF s(2)]] Param by (simp del: pieces.simps)
next
  case (Quote s)
  then have "escape_string cur = False" using assms(2) by (simp add: escape_string_lone)
  then have "pieces cur h (CHR 0x27 # doubled (CHR 0x27) s @ CHR 0x27 # m) =
      pieces (cur @ CHR 0x27 # doubled (CHR 0x27) s @ [CHR 0x27]) (h \<or> True) m"
    using assms(3) Quote by (intro pieces_step) (simp_all add: lexeme_def doubled_taken)
  then show ?thesis using Quote by (simp del: pieces.simps)
next
  case (EString e ls)
  have "escape_string (cur @ [e])"
    using assms(1,2) EString by (cases cur rule: rev_cases) (auto simp: escape_string_def)
  then have "pieces (cur @ [e]) True (CHR 0x27 # concat (map spell_letter ls) @ CHR 0x27 # m) =
      pieces ((cur @ [e]) @ CHR 0x27 # concat (map spell_letter ls) @ [CHR 0x27]) (True \<or> True) m"
    using assms(1,3) EString by (intro pieces_step) (simp_all add: lexeme_def letters_taken)
  moreover have "pieces cur h (e # CHR 0x27 # concat (map spell_letter ls) @ CHR 0x27 # m) =
      pieces (cur @ [e]) (h \<or> True) (CHR 0x27 # concat (map spell_letter ls) @ CHR 0x27 # m)"
    using assms(1) EString by (intro pieces_step) (auto simp: lexeme_def)
  ultimately show ?thesis using EString by (simp del: pieces.simps)
next
  case (QuotedIdent s)
  have "pieces cur h (CHR 0x22 # doubled (CHR 0x22) s @ CHR 0x22 # m) =
      pieces (cur @ CHR 0x22 # doubled (CHR 0x22) s @ [CHR 0x22]) (h \<or> True) m"
    using assms(3) QuotedIdent by (intro pieces_step) (simp_all add: lexeme_def doubled_taken)
  then show ?thesis using QuotedIdent by (simp del: pieces.simps)
next
  case (Dollar name body)
  let ?tag = "tag_of name"
  have tag: "dollarTag (name @ CHR ''$'' # r) = Some ?tag" for r
    using tag_opens assms(1) Dollar by simp
  have "drop (length ?tag) (?tag @ body @ ?tag @ m) = body @ ?tag @ m" by simp
  moreover have "through ?tag (body @ ?tag @ m) = (body @ ?tag, m)"
  proof (rule body_taken)
    show "tag_free ?tag body" using assms(1) Dollar by simp
    show "?tag \<noteq> []" by (simp add: tag_of_def)
  qed
  ultimately have "lexeme cur (?tag @ body @ ?tag @ m) = (True, ?tag @ body @ ?tag, m)"
    using tag [of "body @ ?tag @ m"] by (simp add: lexeme_def tag_of_def)
  then have "pieces cur h (?tag @ body @ ?tag @ m) = pieces (cur @ ?tag @ body @ ?tag) (h \<or> True) m"
    using pieces_step [of "CHR ''$''" cur "name @ ''$'' @ body @ ?tag @ m"] by (simp add: tag_of_def del: pieces.simps)
  then show ?thesis using Dollar by (simp del: pieces.simps)
next
  case (LineComment s)
  then have "lexeme cur (''--'' @ s @ CHR 0x0A # m) = (False, ''--'' @ s, CHR 0x0A # m)"
  proof -
    have "x \<noteq> CHR 0x0A" if "x \<in> set s" for x using assms(1) LineComment that by auto
    then show ?thesis by (simp add: lexeme_def takeWhile_append2 dropWhile_append2)
  qed
  then have "pieces cur h (''--'' @ s @ CHR 0x0A # m) = pieces (cur @ ''--'' @ s) (h \<or> False) (CHR 0x0A # m)"
    using pieces_step [of "CHR ''-''" cur "''-'' @ s @ CHR 0x0A # m" False] by (simp del: pieces.simps)
  also have "\<dots> = pieces ((cur @ ''--'' @ s) @ [CHR 0x0A]) ((h \<or> False) \<or> False) m"
    by (rule pieces_step) (simp_all add: lexeme_def)
  finally show ?thesis using LineComment by (simp del: pieces.simps)
next
  case (BlockComment cs)
  let ?x = "concat (map spell_comment cs) @ ''*/''"
  have "lexeme cur (''/*'' @ ?x @ m) = (False, ''/*'' @ ?x, m)"
    using comments_taken [of cs m] assms(1) BlockComment by (simp add: lexeme_def)
  then have "pieces cur h (''/*'' @ ?x @ m) = pieces (cur @ ''/*'' @ ?x) (h \<or> False) m"
    using pieces_step [of "CHR ''/''" cur "''*'' @ ?x @ m" False] by (simp del: pieces.simps)
  then show ?thesis using BlockComment by (simp del: pieces.simps)
qed

subsection \<open>Statements and scripts\<close>

definition ends_statement :: "string \<Rightarrow> bool" where
  "ends_statement m \<longleftrightarrow> m = [] \<or> prefix '';'' m"

lemma precedes_more: "may_precede t (spelled ts) \<Longrightarrow> ends_statement m \<Longrightarrow> may_precede t (spelled ts @ m)"
  by (cases t; cases "spelled ts"; auto simp: ends_statement_def prefix_def)

lemma statement_taken:
  "statement_ok cur ts \<Longrightarrow> ends_statement m \<Longrightarrow>
   pieces cur h (spelled ts @ m) = pieces (cur @ spelled ts) (h \<or> list_ex is_code ts) m"
proof (induction ts arbitrary: cur h)
  case (Cons t ts)
  have "spelled (t # ts) @ m = spell t @ spelled ts @ m" by (simp add: spelled_def)
  then have "pieces cur h (spelled (t # ts) @ m) = pieces (cur @ spell t) (h \<or> is_code t) (spelled ts @ m)"
    using token_taken [of t cur "spelled ts @ m" h] precedes_more [of t ts m] Cons.prems by (simp del: pieces.simps)
  with Cons show ?case by (simp add: spelled_def disj_assoc del: pieces.simps)
qed (simp add: spelled_def)

lemma script_pieces:
  "stmts \<noteq> [] \<Longrightarrow> \<forall>ts \<in> set stmts. statement_ok [] ts \<Longrightarrow>
   pieces [] False (Join '';'' (map spelled stmts)) = map (\<lambda>ts. (spelled ts, list_ex is_code ts)) stmts"
proof (induction stmts)
  case (Cons ts stmts)
  show ?case
  proof (cases "stmts = []")
    case True
    then show ?thesis using statement_taken [of "[]" ts "[]" False] Cons.prems by (simp add: ends_statement_def)
  next
    case False
    then have "Join '';'' (map spelled (ts # stmts)) = spelled ts @ '';'' @ Join '';'' (map spelled stmts)"
      by (simp add: Join_Cons)
    with statement_taken [of "[]" ts "'';'' @ Join '';'' (map spelled stmts)" False] Cons False
    show ?thesis by (simp add: ends_statement_def)
  qed
qed simp

text \<open>C25: The splitter finds the statements of every script back. Take statements made of PostgreSQL's
  tokens (words and operators, parameters, quoted texts with doubled quotes, escape strings, quoted
  names, dollar bodies, line comments, nested block comments) and spell them one after another with
  semicolons between. Whatever semicolons, quotes, dollar signs and comment marks the tokens hold
  inside, the cut answers the spellings of exactly the statements that hold code, trimmed and in
  order. And of any text at all the pieces joined by semicolons are the text: no byte is lost.\<close>

theorem split_roundtrip:
  assumes "\<forall>ts \<in> set stmts. statement_ok [] ts"
  shows "splitStatements (Join '';'' (map spelled stmts)) =
      filter (\<lambda>s. s \<noteq> []) (map (TrimSpace \<circ> spelled) (filter (list_ex is_code) stmts)) \<and>
    Join '';'' (map fst (pieces [] False src)) = src"
proof
  show "splitStatements (Join '';'' (map spelled stmts)) =
      filter (\<lambda>s. s \<noteq> []) (map (TrimSpace \<circ> spelled) (filter (list_ex is_code) stmts))"
  proof (cases "stmts = []")
    case False
    then show ?thesis
      using script_pieces [OF False assms] by (simp add: splitStatements_def emit_pieces_def filter_map comp_def)
  qed simp
  show "Join '';'' (map fst (pieces [] False src)) = src" by (simp add: pieces_join)
qed

definition sample_script :: "token list list" where
  "sample_script =
     [[Plain ''A'', BlockComment [Text '' ; '', Nested [Text '';'']], Plain '' - '', Quote [CHR '';'', CHR 0x27]],
      [LineComment '';''],
      [Dollar ''f'' [CHR '';'', CHR ''$'', CHR 0x27], Plain ''='', Param ''1''],
      [EString (CHR ''E'') [Escaped (CHR 0x27), Char (CHR '';'')], QuotedIdent '';'']]"

theorem split_roundtrip_witness:
  "splitStatements (Join '';'' (map spelled sample_script)) =
     [spelled (sample_script ! 0), spelled (sample_script ! 2), spelled (sample_script ! 3)]"
proof -
  have "\<forall>ts \<in> set sample_script. statement_ok [] ts" by code_simp
  from split_roundtrip [OF this, of "[]"] show ?thesis
    by (simp add: sample_script_def spelled_def tag_of_def TrimSpace_id)
qed

end
