(* ===== verification/Config.thy ===== *)
theory Config
  imports Text Clock "HOL-Library.State_Monad"
begin

section \<open>The configuration (\<^verbatim>\<open>internal/config/config.go\<close>)\<close>

text \<open>
  \<open>Load\<close> reads every setting and answers either a whole configuration or all that is wrong with the
  environment. The loader collects problems instead of stopping at the first one, so its state is
  threaded through the readers in the order of the struct literal. \<open>env\<close> is the process environment,
  the empty string where a variable is not set. \<open>strings.ToLower\<close>, \<open>time.ParseDuration\<close> and
  \<open>url.Parse\<close> are parameters: a duration is a number of nanoseconds, an address its scheme and host.
\<close>

datatype why =
    NotSet | TooShort | NotANumber | OutsidePorts | NotALevel | BelowFloor | NotADuration | TooBrief | TooLong
  | NotAURL | NoScheme | NoHost | IdleAboveOpen

datatype level = LevelDebug | LevelInfo | LevelWarn | LevelError

type_synonym loader = "(string \<times> why) list"

record environment =
  ev_get :: "string \<Rightarrow> string"
  ev_lower :: "string \<Rightarrow> string"
  ev_duration :: "string \<Rightarrow> int option"
  ev_url :: "string \<Rightarrow> (string \<times> string) option"

record config =
  cf_DatabaseURL :: string
  cf_Port :: string
  cf_LogLevel :: level
  cf_MailLogSender :: bool
  cf_AdminCookieInsecure :: bool
  cf_DBMaxOpenConns :: int
  cf_DBMaxIdleConns :: int
  cf_AuthRateLimitPerMin :: int
  cf_TravellerRateLimitPerMin :: int
  cf_PublicRateLimitPerMin :: int
  cf_RequestTimeout :: int
  cf_S3InternalEndpoint :: string
  cf_S3PublicBaseURL :: string
  cf_S3Region :: string
  cf_S3Bucket :: string
  cf_S3AccessKey :: string
  cf_S3SecretKey :: string
  cf_S3PresignTTLPrivate :: int
  cf_S3PresignTTLPublic :: int
  cf_MediaMaxBytes :: int
  cf_AdminPassword :: string

definition MinRequestTimeout :: int where "MinRequestTimeout = second"
definition MaxRequestTimeout :: int where "MaxRequestTimeout = 60 * second"
definition MinPresignTTL :: int where "MinPresignTTL = second"
definition MaxPresignTTL :: int where "MaxPresignTTL = 7 * 24 * 3600 * second"
definition MinAdminPassword :: nat where "MinAdminPassword = 12"
definition MinMediaMaxBytes :: int where "MinMediaMaxBytes = 1048576"

subsection \<open>The loader\<close>

definition add :: "string \<Rightarrow> why \<Rightarrow> loader \<Rightarrow> loader" where
  "add name why l = l @ [(name, why)]"

definition broke :: "string \<Rightarrow> loader \<Rightarrow> bool" where
  "broke name l \<longleftrightarrow> name \<in> fst ` set l"

definition required :: "environment \<Rightarrow> string \<Rightarrow> loader \<Rightarrow> string \<times> loader" where
  "required ev name l = (let v = TrimSpace (ev_get ev name) in (v, if v = [] then add name NotSet l else l))"

definition optional :: "environment \<Rightarrow> string \<Rightarrow> nat \<Rightarrow> loader \<Rightarrow> string \<times> loader" where
  "optional ev name minLength l =
     (let v = TrimSpace (ev_get ev name) in
      if v = [] then ([], l) else (v, if length v < minLength then add name TooShort l else l))"

text \<open>Every other reader starts with \<open>required\<close> and gives up when that did: \<open>z\<close> is its zero value.\<close>

definition reading ::
  "environment \<Rightarrow> string \<Rightarrow> 'a \<Rightarrow> (string \<Rightarrow> why + 'a) \<Rightarrow> loader \<Rightarrow> 'a \<times> loader" where
  "reading ev name z judge l =
     (case required ev name l of (v, l1) \<Rightarrow>
        if broke name l1 then (z, l1)
        else case judge v of Inl why \<Rightarrow> (z, add name why l1) | Inr x \<Rightarrow> (x, l1))"

definition port_judge :: "string \<Rightarrow> why + string" where
  "port_judge v =
     (case ParseInt64 v of
        None \<Rightarrow> Inl NotANumber
      | Some n \<Rightarrow> if n < 1 \<or> n > 65535 then Inl OutsidePorts else Inr v)"

definition level_judge :: "environment \<Rightarrow> string \<Rightarrow> why + level" where
  "level_judge ev v =
     (let w = ev_lower ev v in
      if w = ''debug'' then Inr LevelDebug else if w = ''info'' then Inr LevelInfo
      else if w = ''warn'' then Inr LevelWarn else if w = ''error'' then Inr LevelError else Inl NotALevel)"

definition floor_judge :: "int \<Rightarrow> string \<Rightarrow> why + int" where
  "floor_judge least v =
     (case ParseInt64 v of None \<Rightarrow> Inl NotANumber | Some n \<Rightarrow> if n < least then Inl BelowFloor else Inr n)"

definition duration_judge :: "environment \<Rightarrow> int \<Rightarrow> int \<Rightarrow> string \<Rightarrow> why + int" where
  "duration_judge ev least most v =
     (case ev_duration ev v of
        None \<Rightarrow> Inl NotADuration
      | Some d \<Rightarrow> if d < least then Inl TooBrief else if d > most then Inl TooLong else Inr d)"

definition address_judge :: "environment \<Rightarrow> string \<Rightarrow> why + string" where
  "address_judge ev v =
     (case ev_url ev v of
        None \<Rightarrow> Inl NotAURL
      | Some (scheme, host) \<Rightarrow>
          if scheme \<noteq> ''http'' \<and> scheme \<noteq> ''https'' then Inl NoScheme
          else if host = [] then Inl NoHost else Inr v)"

definition port :: "environment \<Rightarrow> string \<Rightarrow> loader \<Rightarrow> string \<times> loader" where
  "port ev name = reading ev name [] port_judge"
definition level :: "environment \<Rightarrow> string \<Rightarrow> loader \<Rightarrow> level \<times> loader" where
  "level ev name = reading ev name LevelInfo (level_judge ev)"
definition atLeast :: "environment \<Rightarrow> string \<Rightarrow> int \<Rightarrow> loader \<Rightarrow> int \<times> loader" where
  "atLeast ev name least = reading ev name 0 (floor_judge least)"
definition duration :: "environment \<Rightarrow> string \<Rightarrow> int \<Rightarrow> int \<Rightarrow> loader \<Rightarrow> int \<times> loader" where
  "duration ev name least most = reading ev name 0 (duration_judge ev least most)"
definition address :: "environment \<Rightarrow> string \<Rightarrow> loader \<Rightarrow> string \<times> loader" where
  "address ev name = reading ev name [] (address_judge ev)"
definition byte_count :: "environment \<Rightarrow> string \<Rightarrow> int \<Rightarrow> loader \<Rightarrow> int \<times> loader" where
  "byte_count ev name least = reading ev name 0 (floor_judge least)"

definition refuseSilentIdleClamp :: "config \<Rightarrow> loader \<Rightarrow> loader" where
  "refuseSilentIdleClamp cfg l =
     (if \<not> broke ''DB_MAX_OPEN_CONNS'' l \<and> \<not> broke ''DB_MAX_IDLE_CONNS'' l \<and>
         cf_DBMaxIdleConns cfg > cf_DBMaxOpenConns cfg
      then add ''DB_MAX_IDLE_CONNS'' IdleAboveOpen l else l)"

text \<open>One reader after another, in the order of the struct literal; \<open>flag\<close> is a variable that is \<open>1\<close> or not.\<close>

definition flag :: "environment \<Rightarrow> string \<Rightarrow> bool" where
  "flag ev name \<longleftrightarrow> ev_get ev name = ''1''"

definition read_all :: "environment \<Rightarrow> (loader, config) state" where
  "read_all ev = do {
       url \<leftarrow> State (required ev ''DATABASE_URL'');
       prt \<leftarrow> State (port ev ''PORT'');
       lev \<leftarrow> State (level ev ''LOG_LEVEL'');
       open_conns \<leftarrow> State (atLeast ev ''DB_MAX_OPEN_CONNS'' 1);
       idle_conns \<leftarrow> State (atLeast ev ''DB_MAX_IDLE_CONNS'' 0);
       auth \<leftarrow> State (atLeast ev ''AUTH_RATE_LIMIT_PER_MIN'' 1);
       trav \<leftarrow> State (atLeast ev ''TRAVELLER_RATE_LIMIT_PER_MIN'' 1);
       pub \<leftarrow> State (atLeast ev ''PUBLIC_RATE_LIMIT_PER_MIN'' 1);
       timeout \<leftarrow> State (duration ev ''REQUEST_TIMEOUT'' MinRequestTimeout MaxRequestTimeout);
       inside \<leftarrow> State (address ev ''S3_INTERNAL_ENDPOINT'');
       outside \<leftarrow> State (address ev ''S3_PUBLIC_BASE_URL'');
       region \<leftarrow> State (required ev ''S3_REGION'');
       bucket \<leftarrow> State (required ev ''S3_BUCKET'');
       access \<leftarrow> State (required ev ''S3_ACCESS_KEY'');
       secret \<leftarrow> State (required ev ''S3_SECRET_KEY'');
       ttl_private \<leftarrow> State (duration ev ''S3_PRESIGN_TTL_PRIVATE'' MinPresignTTL MaxPresignTTL);
       ttl_public \<leftarrow> State (duration ev ''S3_PRESIGN_TTL_PUBLIC'' MinPresignTTL MaxPresignTTL);
       most \<leftarrow> State (byte_count ev ''MEDIA_MAX_BYTES'' MinMediaMaxBytes);
       password \<leftarrow> State (optional ev ''ADMIN_PASSWORD'' MinAdminPassword);
       State_Monad.return
         \<lparr>cf_DatabaseURL = url, cf_Port = prt, cf_LogLevel = lev, cf_MailLogSender = flag ev ''MAIL_LOG_SENDER'',
          cf_AdminCookieInsecure = flag ev ''ADMIN_COOKIE_INSECURE'', cf_DBMaxOpenConns = open_conns,
          cf_DBMaxIdleConns = idle_conns, cf_AuthRateLimitPerMin = auth, cf_TravellerRateLimitPerMin = trav,
          cf_PublicRateLimitPerMin = pub, cf_RequestTimeout = timeout, cf_S3InternalEndpoint = inside,
          cf_S3PublicBaseURL = outside, cf_S3Region = region, cf_S3Bucket = bucket, cf_S3AccessKey = access,
          cf_S3SecretKey = secret, cf_S3PresignTTLPrivate = ttl_private, cf_S3PresignTTLPublic = ttl_public,
          cf_MediaMaxBytes = most, cf_AdminPassword = password\<rparr>
     }"

definition Load :: "environment \<Rightarrow> loader + config" where
  "Load ev =
     (case run_state (read_all ev) [] of (cfg, l) \<Rightarrow>
        let l1 = refuseSilentIdleClamp cfg l in if l1 \<noteq> [] then Inl l1 else Inr cfg)"

subsection \<open>What is reported\<close>

definition value_of :: "environment \<Rightarrow> string \<Rightarrow> string" where
  "value_of ev name = TrimSpace (ev_get ev name)"

definition sound :: "environment \<Rightarrow> string \<Rightarrow> (string \<Rightarrow> why + 'a) \<Rightarrow> bool" where
  "sound ev name judge \<longleftrightarrow> value_of ev name \<noteq> [] \<and> \<not> isl (judge (value_of ev name))"

text \<open>Every variable the program reads through the loader, in order, with whether it is acceptable.\<close>

definition settings :: "environment \<Rightarrow> (string \<times> bool) list" where
  "settings ev =
     (let given = (\<lambda>n. (n, value_of ev n \<noteq> []));
          least = (\<lambda>n k. (n, sound ev n (floor_judge k)));
          span = (\<lambda>n lo hi. (n, sound ev n (duration_judge ev lo hi)));
          reach = (\<lambda>n. (n, sound ev n (address_judge ev)))
      in [given ''DATABASE_URL'', (''PORT'', sound ev ''PORT'' port_judge),
          (''LOG_LEVEL'', sound ev ''LOG_LEVEL'' (level_judge ev)),
          least ''DB_MAX_OPEN_CONNS'' 1, least ''DB_MAX_IDLE_CONNS'' 0, least ''AUTH_RATE_LIMIT_PER_MIN'' 1,
          least ''TRAVELLER_RATE_LIMIT_PER_MIN'' 1, least ''PUBLIC_RATE_LIMIT_PER_MIN'' 1,
          span ''REQUEST_TIMEOUT'' MinRequestTimeout MaxRequestTimeout,
          reach ''S3_INTERNAL_ENDPOINT'', reach ''S3_PUBLIC_BASE_URL'', given ''S3_REGION'', given ''S3_BUCKET'',
          given ''S3_ACCESS_KEY'', given ''S3_SECRET_KEY'',
          span ''S3_PRESIGN_TTL_PRIVATE'' MinPresignTTL MaxPresignTTL,
          span ''S3_PRESIGN_TTL_PUBLIC'' MinPresignTTL MaxPresignTTL,
          least ''MEDIA_MAX_BYTES'' MinMediaMaxBytes,
          (''ADMIN_PASSWORD'', value_of ev ''ADMIN_PASSWORD'' = [] \<or>
             MinAdminPassword \<le> length (value_of ev ''ADMIN_PASSWORD''))])"

definition wrong :: "(string \<times> bool) list \<Rightarrow> string list" where
  "wrong xs = map fst (filter (\<lambda>x. \<not> snd x) xs)"

lemma in_wrong: "n \<in> set (wrong xs) \<longleftrightarrow> (n, False) \<in> set xs"
  by (force simp: wrong_def)

definition reports :: "(string \<times> bool) list \<Rightarrow> (loader, 'a) state \<Rightarrow> bool" where
  "reports xs m \<longleftrightarrow> distinct (map fst xs) \<and>
     (\<forall>l. set (map fst xs) \<inter> set (map fst l) = {} \<longrightarrow> map fst (snd (run_state m l)) = map fst l @ wrong xs)"

lemma reports_return: "reports [] (State_Monad.return x)"
  by (simp add: reports_def wrong_def State_Monad.return_def)

lemma reports_bind:
  assumes "reports [x] m" "\<And>v. reports xs (k v)" "fst x \<notin> set (map fst xs)"
  shows "reports (x # xs) (State_Monad.bind m k)"
  unfolding reports_def
proof (intro conjI allI impI)
  show "distinct (map fst (x # xs))" using assms by (auto simp: reports_def)
  fix l :: loader
  assume fresh: "set (map fst (x # xs)) \<inter> set (map fst l) = {}"
  obtain v l1 where one: "run_state m l = (v, l1)" by (cases "run_state m l")
  have l1: "map fst l1 = map fst l @ wrong [x]"
    using assms(1) fresh one by (auto simp: reports_def)
  have "set (map fst xs) \<inter> set (map fst l1) = {}"
    using fresh assms(3) by (auto simp: l1 wrong_def simp del: set_map split: if_splits)
  then have "map fst (snd (run_state (k v) l1)) = map fst l1 @ wrong xs"
    using assms(2) [of v] unfolding reports_def by blast
  moreover have "wrong (x # xs) = wrong [x] @ wrong xs" by (simp add: wrong_def)
  ultimately show "map fst (snd (run_state (State_Monad.bind m k) l)) = map fst l @ wrong (x # xs)"
    using l1 one by (simp add: State_Monad.bind_def)
qed

lemma reports_required: "reports [(n, value_of ev n \<noteq> [])] (State (required ev n))"
  by (simp add: reports_def wrong_def required_def value_of_def add_def Let_def)

lemma reports_optional: "reports [(n, value_of ev n = [] \<or> k \<le> length (value_of ev n))] (State (optional ev n k))"
  by (simp add: reports_def wrong_def optional_def value_of_def add_def Let_def not_less)

lemma reports_reading: "reports [(n, sound ev n judge)] (State (reading ev n z judge))"
  by (auto simp: reports_def wrong_def reading_def required_def value_of_def sound_def add_def broke_def Let_def
      split: sum.splits)

lemma reports_readers:
  "reports [(n, sound ev n port_judge)] (State (port ev n))"
  "reports [(n, sound ev n (level_judge ev))] (State (level ev n))"
  "reports [(n, sound ev n (floor_judge k))] (State (atLeast ev n k))"
  "reports [(n, sound ev n (floor_judge k))] (State (byte_count ev n k))"
  "reports [(n, sound ev n (duration_judge ev lo hi))] (State (duration ev n lo hi))"
  "reports [(n, sound ev n (address_judge ev))] (State (address ev n))"
  unfolding port_def level_def atLeast_def byte_count_def duration_def address_def by (rule reports_reading)+

lemma read_all_reports: "reports (settings ev) (read_all ev)"
  unfolding settings_def read_all_def Let_def
  by (intro reports_bind reports_return) (simp_all add: reports_readers reports_required reports_optional)

lemma reading_value:
  "n \<notin> fst ` set l \<Longrightarrow> sound ev n judge \<Longrightarrow> reading ev n z judge l = (projr (judge (value_of ev n)), l)"
  by (auto simp: reading_def required_def value_of_def sound_def broke_def Let_def split: sum.splits)

lemma reports_one:
  assumes "reports [(n, ok)] m" "n \<notin> fst ` set l"
  shows "fst ` set (snd (run_state m l)) \<subseteq> insert n (fst ` set l)"
proof -
  have "map fst (snd (run_state m l)) = map fst l @ wrong [(n, ok)]" using assms by (simp add: reports_def)
  from arg_cong [OF this, of set] show ?thesis by (auto simp: wrong_def)
qed

definition conns :: "environment \<Rightarrow> string \<Rightarrow> int \<Rightarrow> int" where
  "conns ev name k = projr (floor_judge k (value_of ev name))"

text \<open>The two connection counts are read early; whatever else is wrong, they are what was set.\<close>

lemma read_all_conns:
  assumes "sound ev ''DB_MAX_OPEN_CONNS'' (floor_judge 1)" "sound ev ''DB_MAX_IDLE_CONNS'' (floor_judge 0)"
  shows "cf_DBMaxOpenConns (fst (run_state (read_all ev) [])) = conns ev ''DB_MAX_OPEN_CONNS'' 1"
    "cf_DBMaxIdleConns (fst (run_state (read_all ev) [])) = conns ev ''DB_MAX_IDLE_CONNS'' 0"
proof -
  define l1 where "l1 = snd (required ev ''DATABASE_URL'' [])"
  define l2 where "l2 = snd (port ev ''PORT'' l1)"
  define l3 where "l3 = snd (level ev ''LOG_LEVEL'' l2)"
  have l1: "fst ` set l1 \<subseteq> {''DATABASE_URL''}"
    using reports_one [OF reports_required, of "''DATABASE_URL''" "[]" ev] by (simp add: l1_def)
  have l2: "fst ` set l2 \<subseteq> {''DATABASE_URL'', ''PORT''}"
    using reports_one [OF reports_readers(1), of "''PORT''" l1 ev] l1 by (auto simp: l2_def)
  have l3: "fst ` set l3 \<subseteq> {''DATABASE_URL'', ''PORT'', ''LOG_LEVEL''}"
    using reports_one [OF reports_readers(2), of "''LOG_LEVEL''" l2 ev] l2 by (auto simp: l3_def)
  then have "''DB_MAX_OPEN_CONNS'' \<notin> fst ` set l3" "''DB_MAX_IDLE_CONNS'' \<notin> fst ` set l3" by auto
  then have read: "atLeast ev ''DB_MAX_OPEN_CONNS'' 1 l3 = (conns ev ''DB_MAX_OPEN_CONNS'' 1, l3)"
    "atLeast ev ''DB_MAX_IDLE_CONNS'' 0 l3 = (conns ev ''DB_MAX_IDLE_CONNS'' 0, l3)"
    using assms by (simp_all add: atLeast_def reading_value conns_def)
  show "cf_DBMaxOpenConns (fst (run_state (read_all ev) [])) = conns ev ''DB_MAX_OPEN_CONNS'' 1"
    "cf_DBMaxIdleConns (fst (run_state (read_all ev) [])) = conns ev ''DB_MAX_IDLE_CONNS'' 0"
    using read by (simp_all add: read_all_def State_Monad.bind_def State_Monad.return_def case_prod_beta
        flip: l1_def l2_def l3_def)
qed

definition clamped :: "environment \<Rightarrow> bool" where
  "clamped ev \<longleftrightarrow> sound ev ''DB_MAX_OPEN_CONNS'' (floor_judge 1) \<and> sound ev ''DB_MAX_IDLE_CONNS'' (floor_judge 0) \<and>
     conns ev ''DB_MAX_IDLE_CONNS'' 0 > conns ev ''DB_MAX_OPEN_CONNS'' 1"

text \<open>What the rest of the program may rely on.\<close>

definition usable :: "config \<Rightarrow> bool" where
  "usable c \<longleftrightarrow> cf_DatabaseURL c \<noteq> [] \<and> (\<exists>n. ParseInt64 (cf_Port c) = Some n \<and> 1 \<le> n \<and> n \<le> 65535) \<and>
     1 \<le> cf_DBMaxOpenConns c \<and> 0 \<le> cf_DBMaxIdleConns c \<and> cf_DBMaxIdleConns c \<le> cf_DBMaxOpenConns c \<and>
     1 \<le> cf_AuthRateLimitPerMin c \<and> 1 \<le> cf_TravellerRateLimitPerMin c \<and> 1 \<le> cf_PublicRateLimitPerMin c \<and>
     MinRequestTimeout \<le> cf_RequestTimeout c \<and> cf_RequestTimeout c \<le> MaxRequestTimeout \<and>
     cf_S3InternalEndpoint c \<noteq> [] \<and> cf_S3PublicBaseURL c \<noteq> [] \<and> cf_S3Region c \<noteq> [] \<and> cf_S3Bucket c \<noteq> [] \<and>
     cf_S3AccessKey c \<noteq> [] \<and> cf_S3SecretKey c \<noteq> [] \<and>
     MinPresignTTL \<le> cf_S3PresignTTLPrivate c \<and> cf_S3PresignTTLPrivate c \<le> MaxPresignTTL \<and>
     MinPresignTTL \<le> cf_S3PresignTTLPublic c \<and> cf_S3PresignTTLPublic c \<le> MaxPresignTTL \<and>
     MinMediaMaxBytes \<le> cf_MediaMaxBytes c \<and>
     (cf_AdminPassword c = [] \<or> MinAdminPassword \<le> length (cf_AdminPassword c))"

lemma judged_values:
  "sound ev n port_judge \<Longrightarrow> \<exists>k. ParseInt64 (projr (port_judge (value_of ev n))) = Some k \<and> 1 \<le> k \<and> k \<le> 65535"
  "sound ev n (floor_judge k) \<Longrightarrow> k \<le> projr (floor_judge k (value_of ev n))"
  "sound ev n (duration_judge ev lo hi) \<Longrightarrow> lo \<le> projr (duration_judge ev lo hi (value_of ev n)) \<and>
     projr (duration_judge ev lo hi (value_of ev n)) \<le> hi"
  "sound ev n (address_judge ev) \<Longrightarrow> projr (address_judge ev (value_of ev n)) \<noteq> []"
  by (auto simp: sound_def port_judge_def floor_judge_def duration_judge_def address_judge_def
      split: option.splits if_splits)

lemma required_value: "value_of ev n \<noteq> [] \<Longrightarrow> required ev n l = (value_of ev n, l)"
  by (simp add: required_def value_of_def Let_def)

lemma optional_value:
  "value_of ev n = [] \<or> k \<le> length (value_of ev n) \<Longrightarrow> optional ev n k l = (value_of ev n, l)"
  by (auto simp: optional_def value_of_def Let_def)

lemma read_all_usable:
  assumes "wrong (settings ev) = []" "\<not> clamped ev"
  shows "usable (fst (run_state (read_all ev) []))"
proof -
  have ok: "\<forall>x \<in> set (settings ev). snd x" using assms(1) by (auto simp: wrong_def filter_empty_conv)
  have idle: "conns ev ''DB_MAX_IDLE_CONNS'' 0 \<le> conns ev ''DB_MAX_OPEN_CONNS'' 1"
    using assms(2) ok by (auto simp: clamped_def settings_def)
  from ok have "usable (fst (run_state (read_all ev) []))"
    using idle
    by (simp add: read_all_def State_Monad.bind_def State_Monad.return_def settings_def required_value optional_value
        port_def level_def atLeast_def duration_def address_def byte_count_def reading_value usable_def judged_values conns_def)
  then show ?thesis .
qed

text \<open>C26: Start-up tells the operator everything that is wrong at once. When the environment cannot be
  used, the one error names exactly the variables that are missing or unacceptable, each once and
  in the order of the program, and then the idle count if both counts are acceptable and it is the larger.
  Otherwise the configuration is whole, and every bound the rest of the program relies on holds
  of it.\<close>

theorem config_names_every_problem:
  "case Load ev of
     Inl problems \<Rightarrow> problems \<noteq> [] \<and>
       map fst problems = wrong (settings ev) @ (if clamped ev then [''DB_MAX_IDLE_CONNS''] else [])
   | Inr cfg \<Rightarrow> wrong (settings ev) = [] \<and> \<not> clamped ev \<and> usable cfg"
proof -
  obtain cfg l where run: "run_state (read_all ev) [] = (cfg, l)" by (cases "run_state (read_all ev) []")
  have l: "map fst l = wrong (settings ev)" 
    using read_all_reports [of ev, unfolded reports_def, THEN conjunct2, rule_format, of "[]"] run by simp
  have broken: "broke n l \<longleftrightarrow> n \<in> set (wrong (settings ev))" for n by (simp add: broke_def flip: l)
  have counts: "broke ''DB_MAX_OPEN_CONNS'' l \<longleftrightarrow> \<not> sound ev ''DB_MAX_OPEN_CONNS'' (floor_judge 1)"
    "broke ''DB_MAX_IDLE_CONNS'' l \<longleftrightarrow> \<not> sound ev ''DB_MAX_IDLE_CONNS'' (floor_judge 0)"
    by (simp_all add: broken in_wrong settings_def Let_def)
  have "cf_DBMaxIdleConns cfg > cf_DBMaxOpenConns cfg \<longleftrightarrow> clamped ev"
    if "sound ev ''DB_MAX_OPEN_CONNS'' (floor_judge 1)" "sound ev ''DB_MAX_IDLE_CONNS'' (floor_judge 0)"
    using that read_all_conns [OF that] run by (simp add: clamped_def)
  then have clamp: "refuseSilentIdleClamp cfg l = (if clamped ev then add ''DB_MAX_IDLE_CONNS'' IdleAboveOpen l else l)"
    by (auto simp: refuseSilentIdleClamp_def counts clamped_def)
  show ?thesis
  proof (cases "wrong (settings ev) = [] \<and> \<not> clamped ev")
    case True
    then have "l = []" using l by simp
    with True run clamp read_all_usable [of ev] show ?thesis by (simp add: Load_def)
  next
    case False
    then have "refuseSilentIdleClamp cfg l \<noteq> []" using l clamp by (auto simp: add_def)
    with False run l clamp show ?thesis by (auto simp: Load_def add_def)
  qed
qed

end
