(* ===== verification/Spec2Isabelle.thy ===== *)
theory Spec2Isabelle
  imports Gateway_Properties Auth_Properties Panel_Properties Middleware_Properties Migrate Sql_Tokens Config
begin

text \<open>
  \<^bold>\<open>The travel log backend.\<close> A Go server keeps the travel logs of its users (trips, places, the
  occasions they were visited on, photographs, walks) in PostgreSQL, the photographs' bytes in an
  object store, and shows single trips to the holders of a share link. This library models the
  server from the decoded request to the row, and the programs around it. A Go type is a record or
  datatype with the source's names, a function or handler a definition, an SQL statement a
  definition on tables kept as lists of rows with the constraints of the migration, a Go error a
  value. Everything computes, so the witnesses run the model on concrete data.

  \<^bold>\<open>How the parts meet.\<close> A connection runs through the middleware chain (\<open>Middleware\<close>:
  \<^verbatim>\<open>internal/httpx\<close> and \<open>serverChain\<close> of \<^verbatim>\<open>cmd/api/main.go\<close>). The routes put a limiter and, where
  there is one, the session check before a handler (\<open>Gateway\<close>: \<open>Mount\<close>, \<open>RequireTraveller\<close> and the
  credential handlers of \<^verbatim>\<open>internal/httpapi/auth_handlers.go\<close>; \<open>Rate_Limit\<close>:
  \<^verbatim>\<open>httpx/ratelimit.go\<close>). A handler (\<open>Handlers\<close>) checks its input (\<open>Logbook_Validate\<close>), calls a
  store and answers an envelope with an entity tag (\<open>Logbook_Emit\<close>, \<open>Etag\<close>). A store runs in a
  transaction under the traveller's lock (\<open>Transaction\<close>), which bumps the version that the tag
  names. \<open>System\<close> is a step function over the calls of the log, media and share routes; the theorems
  of this theory are about its runs. The credential routes and the city search are in \<open>Gateway\<close>,
  which puts them and \<open>System\<close> behind the session check and the limiters.

  \<^bold>\<open>The theories.\<close>
  \<^item> \<open>Prelude\<close>, \<open>Text\<close>, \<open>Clock\<close>, \<open>Float64\<close>: results and guards, tables, strings as Go reads them,
    saturating time arithmetic, rounding to binary64.
  \<^item> \<open>Logbook_Types\<close>, \<open>Logbook_Validate\<close>, \<open>Logbook_Emit\<close>, \<open>Logbook_Public\<close>
    (\<^verbatim>\<open>internal/logbook\<close>): records, checks in the order the code makes them, the owner's
    envelope and the public one with its switches.
  \<^item> \<open>Database\<close>, \<open>Schema\<close>, \<open>Sample\<close> (\<^verbatim>\<open>migrations/0001_init.up.sql\<close>): tables, keys, checks, foreign
    keys with their cascades, the invariant \<open>schema_ok\<close>, and a database for witnesses.
  \<^item> \<open>Transaction\<close>, \<open>Store_Read\<close>, \<open>Store_Trip\<close>, \<open>Store_City\<close>, \<open>Store_Place\<close>, \<open>Store_Photo\<close>,
    \<open>Store_Walk\<close>, \<open>Store_Share\<close>, \<open>Store_Public\<close>, \<open>Store_Media\<close> (\<^verbatim>\<open>internal/postgres\<close>): each
    store's statements and operations, then what an operation that succeeds leaves behind, when it
    succeeds, and that it keeps the schema and every other traveller's rows.
  \<^item> \<open>Object_Store\<close> (\<^verbatim>\<open>internal/media\<close>), \<open>Sweep\<close> (\<^verbatim>\<open>internal/sweep\<close>): addresses, upload checks, the
    bucket in memory, finding and removing orphans.
  \<^item> \<open>Auth\<close>, \<open>Auth_Contract\<close>, \<open>Auth_Memory\<close>, \<open>Auth_Store\<close>, \<open>Auth_Properties\<close>
    (\<^verbatim>\<open>internal/auth\<close> and its tables): the service over any store, the laws it needs of one as a
    locale, both stores with their interpretations, and bounds on guessing, revocation and invites.
  \<^item> \<open>Http_Errors\<close>, \<open>Geocode\<close>, \<open>Handlers\<close>, \<open>System\<close>, \<open>Gateway\<close>, \<open>Gateway_Properties\<close>: error
    words, city search, handlers, the API, its front door, and that nothing passes without a session.
  \<^item> \<open>Middleware\<close>, \<open>Middleware_Properties\<close>: response writers as an interface, each wrapping writer
    over it, and the chain compared with the handler run straight on the connection.
  \<^item> \<open>Admin\<close>, \<open>Admin_Panel\<close>, \<open>Panel_Properties\<close> (\<^verbatim>\<open>postgres/admin_store.go\<close>, \<^verbatim>\<open>internal/admin\<close>,
    \<^verbatim>\<open>cmd/sweep\<close>): the operator's tables, login, sessions, forms, pages and actions.
  \<^item> \<open>Sql_Split\<close>, \<open>Sql_Tokens\<close>, \<open>Migrate\<close>, \<open>Config\<close>: the script splitter, PostgreSQL's tokens as what it
    is measured against, the migration runner, the environment.

  \<^bold>\<open>What the lemmas show.\<close> For data: round trips of tags, addresses, tokens and scripts, and that
  emission normalises and withholds what is switched off. For each write: its effect on every
  table, that it succeeds when it should, its failures as values, and the step invariants (schema,
  version, isolation of travellers) that \<open>System\<close> lifts to runs. For limits: the limiter refines one
  bucket per key and grants no more than burst and refill; codes and passwords bear a bounded number
  of guesses when requests do not overlap. The theorems that name a flaw (two transactions around a
  check, a lock taken late, a counter read before it is written) give the run that shows it.

  \<^bold>\<open>Bounds, fuel and faults.\<close> Go's \<open>int64\<close> durations saturate or wrap as \<open>Clock\<close> writes out;
  \<open>float64\<close> is a rational rounded after each operation, used only in the limiter. Recursion is
  structural or has a termination proof; the panel's unit loop is proved to end. A fuelled variant
  exists for trimming only, as a code equation, with fuel the length of the text, which each round
  shortens. A driver is a schedule of faults, one entry per statement: a statement may fail, and a
  commit may fail or take effect with its acknowledgement lost. Theorems quantify over the schedule
  unless they say \<open>calm\<close>, the schedule without faults. PostgreSQL refuses a text with a NUL byte:
  \<open>with_texts\<close> says so of the statements that write free text and of the one that looks an address
  up; a path's id and the panel's search text, which are compared only, are taken as they are, so
  that an id with a NUL byte, which no row has, is answered as an unknown one and not 500. SHA-256, random bytes, \<open>lower\<close> of the
  database, fresh uuids, executing a migration's statement, the compressor and the geocoder's
  answer are arguments; what is assumed of one stands in the theorem and is met in its witness.

  \<^bold>\<open>Not modelled.\<close> The MinIO client and signed URLs, decoding JSON bodies and rendering templates
  (libraries do them), pattern matching of the mux, rewriting the connection string
  (\<^verbatim>\<open>postgres/dsn.go\<close>), the mail client, the log handlers, process start and shutdown, the
  development seed and the test database. The panel's lists of travellers and invites are ordered
  by creation times that the modelled rows do not hold. Transactions of different requests are
  interleaved as wholes, except where a theorem is about the gap between two of them.
\<close>

section \<open>Properties of the whole API\<close>

text \<open>C1: The conditional read never leaves a client with a stale log. A client read its log and was
  given a tag and an envelope. Then anything happened: any requests by anybody, driver faults,
  lost acknowledgements, uploads. If the client now asks again with that tag and is told 304,
  the envelope it holds is the one a full read would give it.\<close>

theorem not_modified_means_not_modified:
  assumes "readLogbook rq s = (resp, s1)" "rs_Status resp = 200" "rs_ETag resp = Some tag"
    "rs_Body resp = EnvelopeBody env" "rq_Traveller rq = Some t"
    and "steps ts (tx_db s) (tx_db s2)"
    and "readLogbook rq' s2 = (resp', s3)" "rs_Status resp' = 304" "rq_IfNoneMatch rq' = tag"
    "rq_Traveller rq' = Some t"
  shows "Emit FormatVersion (document_of t (tx_db s2)) = Inr env"
proof -
  have good: "rs_Status resp < 400" "rs_Status resp' < 400" using assms(2,8) by simp_all
  from assms(1) good(1) obtain t0 v f where one: "rq_Traveller rq = Some t0" "version_of (tx_db s) t0 = Some v"
    "requestedFormat (rq_Format rq) = Some f"
    "rs_ETag resp = (if tagFor v = [] then None else Some (tagFor v))"
    "if ETagMatches (rq_IfNoneMatch rq) (tagFor v) then rs_Status resp = 304
     else rs_Status resp = 200 \<and> (\<exists>env. Emit f (document_of t0 (tx_db s)) = Inr env \<and> rs_Body resp = EnvelopeBody env)"
    by (rule readLogbook_run)
  from assms(7) good(2) obtain t1 v' f' where two: "rq_Traveller rq' = Some t1" "version_of (tx_db s2) t1 = Some v'"
    "if ETagMatches (rq_IfNoneMatch rq') (tagFor v') then rs_Status resp' = 304 else rs_Status resp' = 200 \<and>
       (\<exists>env. Emit f' (document_of t1 (tx_db s2)) = Inr env \<and> rs_Body resp' = EnvelopeBody env)"
    by (rule readLogbook_run)
  have tag: "tag = tagFor v" "1 \<le> v" and t: "t0 = t" "t1 = t"
    using one(1,4) two(1) assms(3,5,10) by (auto simp: tagFor_empty split: if_splits)
  have "ETagMatches (tagFor v) (tagFor v')" using two(3) assms(8,9) tag by (simp split: if_splits)
  then have "v' = v"
    using tag(2) own_tag_matches [of v v'] no_tag_no_match [of v'] by (cases "1 \<le> v'") auto
  then have "log_view t (tx_db s2) = log_view t (tx_db s)"
    using steps_coherent [OF assms(6), of t] one(2) two(2) t by (auto simp: coherent_def)
  then have "document_of t (tx_db s2) = document_of t (tx_db s)" by (rule document_of_cong)
  moreover have "Emit f (document_of t (tx_db s)) = Inr env" "f = FormatVersion"
    using one(3,5) assms(2,4) t requestedFormat_in [OF one(3)] by (auto simp: Formats_def split: if_splits)
  ultimately show ?thesis by simp
qed

definition plain_request :: "id option \<Rightarrow> string \<Rightarrow> string \<Rightarrow> 'b \<Rightarrow> 'b request" where
  "plain_request t i tag b = \<lparr>rq_Traveller = t, rq_ID = i, rq_Format = [], rq_IfNoneMatch = tag,
     rq_Photos = [], rq_Body = Inr b\<rparr>"

definition quiet_world :: world where
  "quiet_world = \<lparr>w_sha = (\<lambda>x. x), w_now = 500, w_clock = 500, w_maxBytes = 100, w_stat = held,
     w_presignPut = (\<lambda>_ _. Inr ([], [])), w_expiresIn = (\<lambda>_. Inr 0), w_presignGet = (\<lambda>_. Inr [])\<rparr>"

theorem not_modified_means_not_modified_witness:
  "\<exists>env d'. steps [Some ''u2''] sample d' \<and> version_of d' ''u2'' = Some 8 \<and>
     Emit FormatVersion (document_of ''u1'' d') = Inr env"
proof -
  let ?rq = "plain_request (Some ''u1'') [] [] ()"
  let ?again = "plain_request (Some ''u1'') [] (tagFor 3) ()"
  let ?me = "plain_request (Some ''u2'') [] [] (Some ''Bia'')"
  let ?s2 = "snd (serve quiet_world (PatchMe ?me) (calm sample))"
  have tag: "version_of sample ''u1'' = Some 3" "requestedFormat [] = Some FormatVersion" by code_simp+
  obtain resp where read: "readLogbook ?rq (calm sample) = (resp, calm sample)" and ok: "rs_Status resp = 200"
      "rs_ETag resp = Some (tagFor 3)"
    using readLogbook_calm [of ?rq "''u1''" sample 3 FormatVersion] tag no_header_no_match
    by (auto simp: plain_request_def)
  then have "rs_Status resp < 400" by simp
  with read obtain t v f where r: "rq_Traveller ?rq = Some t" "version_of (tx_db (calm sample)) t = Some v"
    "if ETagMatches (rq_IfNoneMatch ?rq) (tagFor v) then rs_Status resp = 304
     else rs_Status resp = 200 \<and> (\<exists>env. Emit f (document_of t (tx_db (calm sample))) = Inr env \<and> rs_Body resp = EnvelopeBody env)"
    by (rule readLogbook_run)
  then obtain env where env: "rs_Body resp = EnvelopeBody env" using ok(1) by (auto split: if_splits)
  have run: "steps [Some ''u2''] sample (tx_db ?s2)"
    using served_steps [of "PatchMe ?me" "calm sample" quiet_world] by (simp only: caller.simps plain_request_def request.simps txs.simps calm_def)
  have "version_of (tx_db ?s2) ''u1'' = Some 3" unfolding serve.simps by code_simp
  then obtain resp' where read': "readLogbook ?again (calm (tx_db ?s2)) = (resp', calm (tx_db ?s2))"
      "rs_Status resp' = 304"
    using readLogbook_calm [of ?again "''u1''" "tx_db ?s2" 3 FormatVersion] tag(2) own_tag_matches [of 3 3]
    by (auto simp: plain_request_def)
  have at1: "steps [Some ''u2''] (tx_db (calm sample)) (tx_db (calm (tx_db ?s2)))" using run by simp
  have "Emit FormatVersion (document_of ''u1'' (tx_db (calm (tx_db ?s2)))) = Inr env"
    by (rule not_modified_means_not_modified [OF read ok env _ at1 read']) (simp_all add: plain_request_def)
  then have "Emit FormatVersion (document_of ''u1'' (tx_db ?s2)) = Inr env" by simp
  moreover have "version_of (tx_db ?s2) ''u2'' = Some 8" unfolding serve.simps by code_simp
  ultimately show ?thesis using run by auto
qed

text \<open>C2: A refusal leaves no trace: a request on the log that is answered with a 4xx status has
  changed nothing in the database, and neither has a read, whatever it is answered.\<close>

theorem refused_requests_change_nothing:
  assumes "serve w c s = (a, s')"
    and "read_call c \<or> \<not> media_call c \<and> (\<exists>r. a = Answered r \<and> 400 \<le> rs_Status r \<and> rs_Status r < 500)"
  shows "tx_db s' = tx_db s"
  using assms(2) serve_read [OF assms(1)] serve_log [OF assms(1)] by auto

theorem refused_requests_change_nothing_witness:
  "tx_db (snd (serve quiet_world (StopShareCall (plain_request (Some ''u1'') ''t9'' [] ())) (calm sample))) = sample"
proof -
  let ?c = "StopShareCall (plain_request (Some ''u1'') ''t9'' [] ())"
  obtain a s' where run: "serve quiet_world ?c (calm sample) = (a, s')" by (cases "serve quiet_world ?c (calm sample)")
  have "(case fst (serve quiet_world ?c (calm sample)) of Answered r \<Rightarrow> rs_Status r | Shown _ \<Rightarrow> 0) = 404"
    unfolding serve.simps by code_simp
  with run obtain r where r: "a = Answered r" "rs_Status r = 404" by (cases a) auto
  have "tx_db s' = tx_db (calm sample)"
    using refused_requests_change_nothing [OF run] r by (simp add: media_call_def)
  with run show ?thesis by simp
qed

text \<open>C3: Travellers are isolated: whatever a run of requests that are not a traveller's own does,
  including anonymous public reads, every row of that traveller's log, its media objects, its
  share links and its version are as they were.\<close>

theorem travellers_are_isolated:
  assumes "steps ts d d'" "Some t \<notin> set ts"
  shows "view t d' = view t d \<and> version_of d' t = version_of d t \<and> document_of t d' = document_of t d"
proof -
  have v: "view t d' = view t d" using assms by (rule steps_others)
  moreover have "version_of d' t = version_of d t" using v by (metis version_of_view)
  moreover have "document_of t d' = document_of t d" using v by (intro document_of_cong log_view_of_view)
  ultimately show ?thesis by simp
qed

theorem travellers_are_isolated_witness:
  "\<exists>d'. steps [Some ''u2''] sample d' \<and> version_of d' ''u2'' = Some 8 \<and> view ''u1'' d' = view ''u1'' sample"
proof -
  let ?me = "plain_request (Some ''u2'') [] [] (Some ''Bia'')"
  let ?s2 = "snd (serve quiet_world (PatchMe ?me) (calm sample))"
  have run: "steps [Some ''u2''] sample (tx_db ?s2)"
    using served_steps [of "PatchMe ?me" "calm sample" quiet_world] by (simp only: caller.simps plain_request_def request.simps txs.simps calm_def)
  with travellers_are_isolated [OF run, of "''u1''"] have "view ''u1'' (tx_db ?s2) = view ''u1'' sample" by simp
  moreover have "version_of (tx_db ?s2) ''u2'' = Some 8" unfolding serve.simps by code_simp
  ultimately show ?thesis using run by blast
qed

text \<open>C4: The schema is an invariant of the API: from a database that satisfies every constraint, every
  run of requests under every schedule of faults ends in one that does. In particular no row ever
  points at a row that is not there or at another traveller's, a trip's itinerary and a place's
  occasions have no two entries in one slot, and a trip has at most one live share link.\<close>

theorem schema_is_invariant:
  assumes "schema_ok d" "steps ts d d'"
  shows "schema_ok d' \<and> (\<forall>t i. length (live_links d' t i) \<le> 1)"
proof -
  have ok: "schema_ok d'" by (rule steps_schema [OF assms(2,1)])
  have "length (live_links d' t i) \<le> 1" for t i
  proof -
    have "distinct (live_slots (share_links d'))" by (rule schema_shares(2) [OF ok])
    then have "length (filter (live_on t i) rows) \<le> 1" if "distinct (live_slots rows)" for rows
      using that
    proof (induction rows)
      case (Cons r rows)
      show ?case
      proof (cases "live_on t i r")
        case True
        then have "(t, i) \<notin> set (live_slots rows)" using Cons.prems by (simp add: live_slots_def live_on_def)
        then have "filter (live_on t i) rows = []"
          by (auto simp: live_slots_def live_on_def filter_empty_conv image_iff)
        then show ?thesis by simp
      qed (use Cons in \<open>simp add: live_slots_def split: if_splits\<close>)
    qed simp
    with schema_shares(2) [OF ok] show ?thesis by (simp add: live_links_def)
  qed
  with ok show ?thesis by simp
qed

theorem schema_is_invariant_witness:
  "\<exists>d'. steps [Some ''u1''] sample d' \<and> schema_ok d' \<and> length (live_links d' ''u1'' ''t1'') \<le> 1"
proof -
  let ?c = "StopShareCall (plain_request (Some ''u1'') ''t1'' [] ())"
  let ?s2 = "snd (serve quiet_world ?c (calm sample))"
  have run: "steps [Some ''u1''] sample (tx_db ?s2)"
    using served_steps [of "?c" "calm sample" quiet_world] by (simp only: caller.simps plain_request_def request.simps txs.simps calm_def)
  with schema_is_invariant [OF sample_ok run] show ?thesis by blast
qed

text \<open>C5: A version names one state of a log for good: along any run a traveller's version never
  decreases, it grows by at most the number of that traveller's own requests, and at two moments
  with the same version the log is the same document.\<close>

theorem version_names_the_log:
  assumes "steps ts d d'" "version_of d t = Some v"
  shows "\<exists>v'. version_of d' t = Some v' \<and> v \<le> v' \<and> v' \<le> v + int (count_list ts (Some t)) \<and>
    (v' = v \<longrightarrow> document_of t d' = document_of t d)"
  using steps_coherent [OF assms(1), of t] steps_bound [OF assms] assms(2)
  by (auto simp: coherent_def intro: document_of_cong)

theorem version_names_the_log_witness:
  "\<exists>d2. steps [Some ''u2''] sample d2 \<and> version_of d2 ''u1'' = Some 3 \<and>
     document_of ''u1'' d2 = document_of ''u1'' sample"
proof -
  let ?me = "plain_request (Some ''u2'') [] [] (Some ''Bia'')"
  let ?s2 = "snd (serve quiet_world (PatchMe ?me) (calm sample))"
  have run: "steps [Some ''u2''] sample (tx_db ?s2)"
    using served_steps [of "PatchMe ?me" "calm sample" quiet_world] by (simp only: caller.simps plain_request_def request.simps txs.simps calm_def)
  have "version_of sample ''u1'' = Some 3" "version_of (tx_db ?s2) ''u1'' = Some 3"
    unfolding serve.simps by code_simp+
  with version_names_the_log [OF run, of "''u1''" 3] run show ?thesis by auto
qed

end
